(* ===== verification/DW_Prelude.thy ===== *)
theory DW_Prelude
  imports
    Main
    "HOL-Library.Word"
    "HOL-Library.Finite_Map"
    "HOL-Library.List_Lexorder"
    "HOL-Library.Char_ord"
    "HOL-Library.Product_Lexorder"
begin

text \<open>
  The vocabulary every DeltaWeave theory shares: Rust's machine integers with their checked and
  saturating operations, \<open>Result\<close> as a sum type, \<open>BTreeMap\<close>/\<open>BTreeSet\<close> as finite maps and sets
  read in key order, the byte encodings \<open>to_le_bytes\<close>/\<open>to_be_bytes\<close>, UTF-8 strings as byte
  strings, and \<open>str::split\<close>/\<open>join\<close>.
\<close>

unbundle bit_operations_syntax

named_theorems result_simps \<open>unfolding of the Result combinators\<close>
named_theorems bytes_simps \<open>lengths and injectivity of byte encodings\<close>

section \<open>Machine integers\<close>

type_synonym u8 = "8 word"
type_synonym u16 = "16 word"
type_synonym u32 = "32 word"
type_synonym u64 = "64 word"

definition checked_add :: "'a::len word \<Rightarrow> 'a word \<Rightarrow> 'a word option" where
  "checked_add a b = (if unat a + unat b < 2 ^ LENGTH('a) then Some (a + b) else None)"

definition saturating_add :: "'a::len word \<Rightarrow> 'a word \<Rightarrow> 'a word" where
  "saturating_add a b = (if unat a + unat b < 2 ^ LENGTH('a) then a + b else - 1)"

definition saturating_mul :: "'a::len word \<Rightarrow> 'a word \<Rightarrow> 'a word" where
  "saturating_mul a b = (if unat a * unat b < 2 ^ LENGTH('a) then a * b else - 1)"

lemma checked_add_Some: "checked_add a b = Some c \<Longrightarrow> unat c = unat a + unat b"
  by (auto simp: checked_add_def unat_word_ariths split: if_splits)

lemma checked_add_None: "checked_add (a :: 'a::len word) b = None \<longleftrightarrow> 2 ^ LENGTH('a) \<le> unat a + unat b"
  by (auto simp: checked_add_def)

lemma all_ones_unat: "2 ^ LENGTH('a) - 1 = unat (- 1 :: 'a::len word)"
  by (simp add: unat_eq_nat_uint unsigned_minus_1_eq_mask mask_eq_exp_minus_1 nat_diff_distrib nat_power_eq)

lemmas unat_all_ones = all_ones_unat [symmetric]

lemma unat_saturating_add:
  "unat (saturating_add a (b :: 'a::len word)) = min (unat a + unat b) (2 ^ LENGTH('a) - 1)"
  by (auto simp: saturating_add_def unat_word_ariths unat_all_ones)

lemma unat_saturating_mul:
  "unat (saturating_mul a (b :: 'a::len word)) = min (unat a * unat b) (2 ^ LENGTH('a) - 1)"
  by (auto simp: saturating_mul_def unat_word_ariths unat_all_ones)

lemma unat_bound: "unat (w :: 'a::len word) < 2 ^ LENGTH('a)"
  by (rule unsigned_less)

lemma unat_max_word: "unat (max a (b :: 'a::len word)) = max (unat a) (unat b)"
  by (auto simp: max_def word_le_nat_alt)

section \<open>Results\<close>

text \<open>\<open>Result<T, E>\<close> is \<open>'e + 'a\<close>; \<open>and_then\<close> is the \<open>?\<close> operator, \<open>ensure\<close> an early return.\<close>

definition and_then :: "('err + 'x) \<Rightarrow> ('x \<Rightarrow> ('err + 'y)) \<Rightarrow> ('err + 'y)" where
  "and_then r f = (case r of Inl e \<Rightarrow> Inl e | Inr x \<Rightarrow> f x)"

definition map_err :: "('e \<Rightarrow> 'f) \<Rightarrow> 'e + 'a \<Rightarrow> 'f + 'a" where
  "map_err g r = (case r of Inl e \<Rightarrow> Inl (g e) | Inr x \<Rightarrow> Inr x)"

definition ensure :: "bool \<Rightarrow> 'e \<Rightarrow> 'e + unit" where
  "ensure b e = (if b then Inr () else Inl e)"

definition ok_or :: "'a option \<Rightarrow> 'e \<Rightarrow> 'e + 'a" where
  "ok_or x e = (case x of None \<Rightarrow> Inl e | Some y \<Rightarrow> Inr y)"

lemma and_then_simps [simp]: "and_then (Inl e) f = Inl e" "and_then (Inr x) f = f x"
  by (simp_all add: and_then_def)

lemma map_err_simps [simp]: "map_err g (Inl e) = Inl (g e)" "map_err g (Inr x) = Inr x"
  by (simp_all add: map_err_def)

lemma and_then_Inr_iff: "and_then r f = Inr y \<longleftrightarrow> (\<exists>x. r = Inr x \<and> f x = Inr y)"
  by (cases r) auto

lemma and_then_Inl_iff: "and_then r f = Inl e \<longleftrightarrow> r = Inl e \<or> (\<exists>x. r = Inr x \<and> f x = Inl e)"
  by (cases r) auto

lemma map_err_Inr_iff: "map_err g r = Inr y \<longleftrightarrow> r = Inr y"
  by (cases r) auto

lemma map_err_Inl_iff: "map_err g r = Inl e \<longleftrightarrow> (\<exists>d. r = Inl d \<and> e = g d)"
  by (cases r) auto

lemma ensure_Inr_iff: "ensure b e = Inr u \<longleftrightarrow> b"
  by (simp add: ensure_def)

lemma ensure_Inl_iff: "ensure b e = Inl e' \<longleftrightarrow> \<not> b \<and> e' = e"
  by (auto simp: ensure_def)

lemma ok_or_Inr_iff: "ok_or x e = Inr y \<longleftrightarrow> x = Some y"
  by (auto simp: ok_or_def split: option.splits)

lemma ok_or_Inl_iff: "ok_or x e = Inl e' \<longleftrightarrow> x = None \<and> e' = e"
  by (auto simp: ok_or_def split: option.splits)

lemmas [result_simps] =
  and_then_Inr_iff and_then_Inl_iff map_err_Inr_iff map_err_Inl_iff
  ensure_Inr_iff ensure_Inl_iff ok_or_Inr_iff ok_or_Inl_iff

lemma and_then_cong [fundef_cong]:
  "r = r' \<Longrightarrow> (\<And>x. r' = Inr x \<Longrightarrow> f x = f' x) \<Longrightarrow> and_then r f = and_then r' f'"
  by (cases r') auto

text \<open>A \<open>for\<close> loop whose body may return early.\<close>

fun collect_res :: "('x \<Rightarrow> 'err + 'y) \<Rightarrow> 'x list \<Rightarrow> 'err + 'y list" where
  "collect_res f [] = Inr []"
| "collect_res f (x # xs) = and_then (f x) (\<lambda>y. and_then (collect_res f xs) (\<lambda>ys. Inr (y # ys)))"

fun fold_res :: "('a \<Rightarrow> 's \<Rightarrow> 'e + 's) \<Rightarrow> 'a list \<Rightarrow> 's \<Rightarrow> 'e + 's" where
  "fold_res f [] s = Inr s"
| "fold_res f (x # xs) s = and_then (f x s) (fold_res f xs)"

lemma fold_res_append:
  "fold_res f (xs @ ys) s = and_then (fold_res f xs s) (fold_res f ys)"
proof (induction xs arbitrary: s)
  case (Cons x xs)
  then show ?case by (cases "f x s") simp_all
qed simp

lemma fold_res_invariant:
  assumes "fold_res f xs s = Inr t" and "I s"
    and "\<And>x u v. x \<in> set xs \<Longrightarrow> I u \<Longrightarrow> f x u = Inr v \<Longrightarrow> I v"
  shows "I t"
  using assms by (induction xs arbitrary: s) (auto simp: result_simps)


section \<open>Byte encodings\<close>

definition to_le_bytes :: "'a::len word \<Rightarrow> u8 list" where
  "to_le_bytes w = map (\<lambda>i. ucast (drop_bit (8 * i) w)) [0..<LENGTH('a) div 8]"

definition to_be_bytes :: "'a::len word \<Rightarrow> u8 list" where
  "to_be_bytes w = rev (to_le_bytes w)"

lemma length_to_le_bytes [simp, bytes_simps]:
  "length (to_le_bytes (w :: 'a::len word)) = LENGTH('a) div 8"
  by (simp add: to_le_bytes_def)

lemma length_to_be_bytes [simp, bytes_simps]:
  "length (to_be_bytes (w :: 'a::len word)) = LENGTH('a) div 8"
  by (simp add: to_be_bytes_def)

lemma bit_to_le_bytes:
  assumes "8 dvd LENGTH('a::len)" and "n < LENGTH('a)"
  shows "bit (to_le_bytes (w :: 'a word) ! (n div 8)) (n mod 8) = bit w n"
proof -
  from assms have "n div 8 < LENGTH('a) div 8"
    by (metis div_less_mono dvd_div_mult_self less_mult_imp_div_less)
  moreover have "n mod 8 < 8" by simp
  ultimately show ?thesis
    by (simp add: to_le_bytes_def bit_simps add.commute del: mod_less_divisor)
qed

lemma to_le_bytes_inject [bytes_simps]:
  assumes "8 dvd LENGTH('a::len)"
  shows "to_le_bytes (v :: 'a word) = to_le_bytes w \<longleftrightarrow> v = w"
proof
  assume eq: "to_le_bytes v = to_le_bytes w"
  show "v = w"
  proof (rule bit_word_eqI)
    fix n assume "n < LENGTH('a)"
    with assms show "bit v n = bit w n"
      by (metis bit_to_le_bytes eq)
  qed
qed simp

lemma to_be_bytes_inject [bytes_simps]:
  assumes "8 dvd LENGTH('a::len)"
  shows "to_be_bytes (v :: 'a word) = to_be_bytes w \<longleftrightarrow> v = w"
  using to_le_bytes_inject [OF assms, of v w] by (simp add: to_be_bytes_def)

lemma append_eq_same_length:
  "length xs = length ys \<Longrightarrow> xs @ us = ys @ vs \<longleftrightarrow> xs = ys \<and> us = vs"
  by simp

text \<open>A concatenation of non-empty fixed-width encodings determines the encoded list.\<close>

lemma concat_map_fixed_width_inject:
  assumes width: "\<And>x. length (f x) = n" and "0 < n"
    and inj: "\<And>x y. f x = f y \<longleftrightarrow> x = y"
  shows "concat (map f xs) = concat (map f ys) \<longleftrightarrow> xs = ys"
proof (induction xs arbitrary: ys)
  case Nil
  show ?case
  proof (cases ys)
    case (Cons y ys')
    from width [of y] \<open>0 < n\<close> have "f y \<noteq> []" by force
    with Cons show ?thesis by auto
  qed simp
next
  case (Cons x xs)
  show ?case
  proof (cases ys)
    case Nil
    from width [of x] \<open>0 < n\<close> have "f x \<noteq> []" by force
    with Nil show ?thesis by simp
  next
    case (Cons y ys')
    with Cons.IH show ?thesis by (simp add: width inj)
  qed
qed

text \<open>The same for self-delimiting encodings, on the domain where they are self-delimiting.\<close>

lemma concat_map_delimited_inject:
  assumes delim: "\<And>x y us vs. x \<in> A \<Longrightarrow> y \<in> A \<Longrightarrow> f x @ us = f y @ vs \<longleftrightarrow> x = y \<and> us = vs"
    and nonempty: "\<And>x. f x \<noteq> []"
    and "set xs \<subseteq> A" "set ys \<subseteq> A"
  shows "concat (map f xs) = concat (map f ys) \<longleftrightarrow> xs = ys"
  using assms(3,4)
proof (induction xs arbitrary: ys)
  case Nil
  then show ?case using nonempty by (cases ys) auto
next
  case (Cons x xs)
  show ?case
  proof (cases ys)
    case Nil
    then show ?thesis using nonempty by simp
  next
    case (Cons y ys')
    with Cons.prems have "x \<in> A" "y \<in> A" by simp_all
    with Cons Cons.IH [of ys'] Cons.prems show ?thesis by (simp add: delim)
  qed
qed

section \<open>Ordered maps and sets\<close>

text \<open>
  A \<open>BTreeMap\<close> is a finite map and a \<open>BTreeSet\<close> a finite set; iteration is in key order, which
  \<open>sorted_list_of_fmap\<close> and \<open>sorted_list_of_fset\<close> compute.
\<close>

abbreviation map_values :: "('k::linorder, 'v) fmap \<Rightarrow> 'v list" where
  "map_values m \<equiv> map snd (sorted_list_of_fmap m)"

abbreviation map_len :: "('k, 'v) fmap \<Rightarrow> nat" where
  "map_len m \<equiv> fcard (fmdom m)"

definition get_or :: "('k, 'v) fmap \<Rightarrow> 'k \<Rightarrow> 'v \<Rightarrow> 'v" where
  "get_or m k d = (case fmlookup m k of None \<Rightarrow> d | Some v \<Rightarrow> v)"

lemma sorted_list_of_fset_of_list [simp]:
  "sorted_list_of_fset (fset_of_list xs) = sort (remdups xs)"
  by (simp add: sorted_list_of_fset.rep_eq fset_of_list.rep_eq sorted_list_of_set_sort_remdups)

lemma sorted_sorted_list_of_fset [simp]: "sorted (sorted_list_of_fset S)"
  and distinct_sorted_list_of_fset [simp]: "distinct (sorted_list_of_fset S)"
  and length_sorted_list_of_fset [simp]: "length (sorted_list_of_fset S) = fcard S"
  by (simp_all add: sorted_list_of_fset.rep_eq fcard.rep_eq)

lemma sorted_list_of_fset_single [simp]: "sorted_list_of_fset {|x|} = [x]"
  using sorted_list_of_fset_of_list [of "[x]"] by simp

lemma sorted_list_of_fmap_empty [simp]: "sorted_list_of_fmap (fmempty :: ('a::linorder, 'b) fmap) = []"
proof -
  have "sorted_list_of_fset {||} = ([] :: 'a::linorder list)"
    using sorted_list_of_fset_of_list [of "[] :: 'a list"] by simp
  then show ?thesis by (simp add: sorted_list_of_fmap_def)
qed

lemma sorted_list_of_fmap_single [simp]: "sorted_list_of_fmap (fmupd k v fmempty) = [(k, v)]"
  by (simp add: sorted_list_of_fmap_def)

lemma sorted_distinct_remdups_adj: "sorted xs \<Longrightarrow> distinct (remdups_adj xs)"
proof (induction xs rule: remdups_adj.induct)
  case (3 x y xs)
  show ?case
  proof (cases "x = y")
    case True
    with 3 show ?thesis by simp
  next
    case False
    with 3 have "distinct (remdups_adj (y # xs))" and "x < y" and "\<forall>z \<in> set xs. y \<le> z" by auto
    moreover have "x \<notin> set (remdups_adj (y # xs))"
      using \<open>x < y\<close> \<open>\<forall>z \<in> set xs. y \<le> z\<close> by auto
    ultimately show ?thesis using False by simp
  qed
qed simp_all

lemma remdups_adj_sort: "remdups_adj (sort xs) = sorted_list_of_set (set xs)"
  by (intro sorted_distinct_set_unique) (simp_all add: sorted_distinct_remdups_adj)

lemma map_fst_sorted_list_of_fmap [simp]:
  "map fst (sorted_list_of_fmap m) = sorted_list_of_fset (fmdom m)"
  by (simp add: sorted_list_of_fmap_def comp_def)

lemma in_sorted_list_of_fmap: "(k, v) \<in> set (sorted_list_of_fmap m) \<longleftrightarrow> fmlookup m k = Some v"
proof -
  have "distinct (map fst (sorted_list_of_fmap m))" by simp
  then have "(k, v) \<in> set (sorted_list_of_fmap m) \<longleftrightarrow> map_of (sorted_list_of_fmap m) k = Some v"
    by (rule map_of_eq_Some_iff [symmetric])
  then show ?thesis by simp
qed

lemma sorted_list_of_fmap_inject [simp]:
  "sorted_list_of_fmap m = sorted_list_of_fmap n \<longleftrightarrow> m = n"
  by (metis fmap_ext map_of_sorted_list)

lemma set_map_values: "set (map_values m) = {v. \<exists>k. fmlookup m k = Some v}"
proof (rule set_eqI)
  fix v
  have "v \<in> set (map_values m) \<longleftrightarrow> (\<exists>k. (k, v) \<in> set (sorted_list_of_fmap m))"
    by force
  then show "v \<in> set (map_values m) \<longleftrightarrow> v \<in> {v. \<exists>k. fmlookup m k = Some v}"
    by (simp add: in_sorted_list_of_fmap)
qed

lemma length_map_values [simp]: "length (sorted_list_of_fmap m) = map_len m"
  by (simp add: sorted_list_of_fmap_def)

lemma get_or_fmupd [simp]: "get_or (fmupd a v m) k d = (if a = k then v else get_or m k d)"
  by (simp add: get_or_def)

lemma get_or_empty [simp]: "get_or fmempty k d = d"
  by (simp add: get_or_def)

section \<open>Strings\<close>

text \<open>
  A Rust string is its UTF-8 byte sequence, a HOL \<open>string\<close>: \<open>len\<close> counts bytes, \<open>Ord\<close> is the
  lexicographic byte order, and \<open>chars\<close> decodes code points the way \<open>next_code_point\<close> does.
\<close>

definition byte_of :: "char \<Rightarrow> nat" where
  "byte_of c = of_char c"

definition str_bytes :: "string \<Rightarrow> u8 list" where
  "str_bytes s = map of_char s"

lemma length_str_bytes [simp, bytes_simps]: "length (str_bytes s) = length s"
  by (simp add: str_bytes_def)

lemma str_bytes_inject [simp, bytes_simps]: "str_bytes s = str_bytes t \<longleftrightarrow> s = t"
proof -
  have "inj (of_char :: char \<Rightarrow> u8)"
  proof (rule injI)
    fix c d :: char
    assume "(of_char c :: u8) = of_char d"
    then have "(of_nat (of_char c) :: u8) = of_nat (of_char d)" by (simp add: of_nat_of_char)
    then have "(of_char c :: nat) mod 256 = of_char d mod 256"
      by (simp add: word_of_nat_eq_iff take_bit_eq_mod)
    then show "c = d" by simp
  qed
  then show ?thesis by (simp add: str_bytes_def inj_map_eq_map)
qed

fun split_on :: "char \<Rightarrow> string \<Rightarrow> string list" where
  "split_on c [] = [[]]"
| "split_on c (x # xs) =
     (if x = c then [] # split_on c xs
      else (case split_on c xs of [] \<Rightarrow> [[x]] | p # ps \<Rightarrow> (x # p) # ps))"

fun join_with :: "string \<Rightarrow> string list \<Rightarrow> string" where
  "join_with sep [] = []"
| "join_with sep [p] = p"
| "join_with sep (p # q # ps) = p @ sep @ join_with sep (q # ps)"

lemma split_on_not_Nil [simp]: "split_on c s \<noteq> []"
  by (induction s) (auto split: list.splits)

lemma join_with_Cons: "ps \<noteq> [] \<Longrightarrow> join_with sep (p # ps) = p @ sep @ join_with sep ps"
  by (cases ps) auto

lemma join_split_on [simp]: "join_with [c] (split_on c s) = s"
proof (induction s)
  case (Cons x xs)
  obtain p ps where p: "split_on c xs = p # ps"
    by (meson neq_Nil_conv split_on_not_Nil)
  with Cons show ?case by (cases ps) auto
qed simp

lemma split_on_no_sep: "p \<in> set (split_on c s) \<Longrightarrow> c \<notin> set p"
  by (induction s arbitrary: p) (auto split: list.splits if_splits)

lemma split_on_append_sep: "c \<notin> set p \<Longrightarrow> split_on c (p @ c # s) = p # split_on c s"
  by (induction p) auto

lemma split_on_simple: "c \<notin> set p \<Longrightarrow> split_on c p = [p]"
  by (induction p) auto

lemma split_on_join:
  "ps \<noteq> [] \<Longrightarrow> \<forall>p \<in> set ps. c \<notin> set p \<Longrightarrow> split_on c (join_with [c] ps) = ps"
proof (induction ps)
  case (Cons p ps)
  then show ?case
    by (cases ps) (simp_all add: split_on_simple split_on_append_sep)
qed simp

lemma split_on_inject: "split_on c s = split_on c t \<longleftrightarrow> s = t"
  by (metis join_split_on)

lemma set_split_on_chars: "p \<in> set (split_on c s) \<Longrightarrow> set p \<subseteq> set s"
  by (induction s arbitrary: p) (fastforce split: list.splits if_splits)+

lemma length_split_on_part: "p \<in> set (split_on c s) \<Longrightarrow> length p \<le> length s"
  by (induction s arbitrary: p) (fastforce split: list.splits if_splits)+

end
