(* ===== verification/Core_Hash.thy ===== *)
theory Core_Hash
  imports DW_Prelude
begin

text \<open>
  \<open>Hash32\<close> of \<^verbatim>\<open>crates/deltaweave-core/src/lib.rs\<close>: a 32-byte digest with the derived byte-wise
  order, its text form, and the third-party functions the core calls. BLAKE3 and the \<open>hex\<close> crate
  are not part of the repository, so they are the fields of the record \<open>externs\<close>, an argument of
  every definition that reaches them; \<open>hex_crate_ok\<close> states the documented behaviour of \<open>hex\<close>.
\<close>

section \<open>The digest type\<close>

typedef hash32 = "{bs :: u8 list. length bs = 32}"
  morphisms as_bytes from_bytes
  by (rule exI [of _ "replicate 32 0"]) simp

setup_lifting type_definition_hash32

lemma length_as_bytes [simp, bytes_simps]: "length (as_bytes h) = 32"
  using as_bytes [of h] by simp

lemma as_bytes_from_bytes [simp]: "length bs = 32 \<Longrightarrow> as_bytes (from_bytes bs) = bs"
  by (rule from_bytes_inverse) simp

lemma from_bytes_as_bytes [simp]: "from_bytes (as_bytes h) = h"
  by (rule as_bytes_inverse)

lemma as_bytes_eq_iff [simp, bytes_simps]: "as_bytes h = as_bytes k \<longleftrightarrow> h = k"
  by (rule as_bytes_inject)

instantiation hash32 :: linorder
begin

lift_definition less_eq_hash32 :: "hash32 \<Rightarrow> hash32 \<Rightarrow> bool" is "(\<le>)" .

lift_definition less_hash32 :: "hash32 \<Rightarrow> hash32 \<Rightarrow> bool" is "(<)" .

instance
  by standard (transfer; auto)+

end

instantiation hash32 :: equal
begin

lift_definition equal_hash32 :: "hash32 \<Rightarrow> hash32 \<Rightarrow> bool" is "(=)" .

instance
  by standard (transfer; auto)

end

text \<open>\<open>Hash32::default()\<close> is the all-zero array; \<open>hash_fill\<close> names constant arrays.\<close>

definition hash_fill :: "u8 \<Rightarrow> hash32" where
  "hash_fill b = from_bytes (replicate 32 b)"

definition hash_default :: hash32 where
  "hash_default = hash_fill 0"

lemma as_bytes_hash_fill [simp]: "as_bytes (hash_fill b) = replicate 32 b"
  by (simp add: hash_fill_def)

lemma hash_fill_inject [simp]: "hash_fill a = hash_fill b \<longleftrightarrow> a = b"
proof -
  have "replicate 32 a = replicate 32 b \<longleftrightarrow> a = b" by simp
  then show ?thesis by (metis as_bytes_hash_fill)
qed

lemma replicate_less: "0 < n \<Longrightarrow> replicate n a < replicate n b \<longleftrightarrow> a < (b :: 'a::linorder)"
  by (induction n) (auto simp: neq_iff)

lemma hash_fill_less [simp]: "hash_fill a < hash_fill b \<longleftrightarrow> a < b"
  by (simp add: less_hash32.rep_eq replicate_less)

lemma hash_fill_le [simp]: "hash_fill a \<le> hash_fill b \<longleftrightarrow> a \<le> b"
  by (auto simp: le_less)

section \<open>Third-party functions\<close>

datatype hex_error = InvalidHexCharacter char nat | OddLength | InvalidStringLength

record externs =
  blake3_hash :: "u8 list \<Rightarrow> hash32"
  blake3_derive :: "string \<Rightarrow> u8 list \<Rightarrow> hash32"
  hex_encode :: "u8 list \<Rightarrow> string"
  hex_decode_to_slice :: "string \<Rightarrow> hex_error + hash32"

definition hex_chars :: string where
  "hex_chars = ''0123456789abcdef''"

definition hex_crate_ok :: "externs \<Rightarrow> bool" where
  "hex_crate_ok E \<longleftrightarrow>
     (\<forall>bs. length (hex_encode E bs) = 2 * length bs \<and> set (hex_encode E bs) \<subseteq> set hex_chars) \<and>
     (\<forall>h. hex_decode_to_slice E (hex_encode E (as_bytes h)) = Inr h)"

section \<open>Operations\<close>

definition digest :: "externs \<Rightarrow> u8 list \<Rightarrow> hash32" where
  "digest E bytes = blake3_hash E bytes"

definition to_hex :: "externs \<Rightarrow> hash32 \<Rightarrow> string" where
  "to_hex E h = hex_encode E (as_bytes h)"

datatype parse_hash_error = Length nat | Hex hex_error

definition hash_from_str :: "externs \<Rightarrow> string \<Rightarrow> parse_hash_error + hash32" where
  "hash_from_str E value =
     (if length value \<noteq> 64 then Inl (Length (length value))
      else map_err Hex (hex_decode_to_slice E value))"

lemma length_to_hex: "hex_crate_ok E \<Longrightarrow> length (to_hex E h) = 64"
  by (simp add: hex_crate_ok_def to_hex_def)

lemma set_to_hex: "hex_crate_ok E \<Longrightarrow> set (to_hex E h) \<subseteq> set hex_chars"
  by (simp add: hex_crate_ok_def to_hex_def)

lemma hash_text_round_trip: "hex_crate_ok E \<Longrightarrow> hash_from_str E (to_hex E h) = Inr h"
  by (simp add: hash_from_str_def length_to_hex) (simp add: hex_crate_ok_def to_hex_def)

lemma to_hex_inject: "hex_crate_ok E \<Longrightarrow> to_hex E h = to_hex E k \<longleftrightarrow> h = k"
  by (metis hash_text_round_trip sum.inject(2))

section \<open>A reference instance of the hex crate\<close>

text \<open>
  \<open>hex_crate_ok\<close> is satisfiable: lower-case two-digit encoding and its partial inverse. The
  instance only serves the closed examples of the other theories.
\<close>

definition nibble :: "nat \<Rightarrow> char" where
  "nibble n = hex_chars ! (n mod 16)"

fun ref_encode :: "u8 list \<Rightarrow> string" where
  "ref_encode [] = []"
| "ref_encode (b # bs) = nibble (unat b div 16) # nibble (unat b mod 16) # ref_encode bs"

definition ref_hex :: "(u8 list \<Rightarrow> hash32) \<Rightarrow> (string \<Rightarrow> u8 list \<Rightarrow> hash32) \<Rightarrow> externs" where
  "ref_hex f g =
     \<lparr>blake3_hash = f, blake3_derive = g, hex_encode = ref_encode,
      hex_decode_to_slice = (\<lambda>s. if \<exists>h. ref_encode (as_bytes h) = s
        then Inr (inv (\<lambda>h. ref_encode (as_bytes h)) s) else Inl OddLength)\<rparr>"

lemma hex_chars_nth_inject:
  "i < 16 \<Longrightarrow> j < 16 \<Longrightarrow> hex_chars ! i = hex_chars ! j \<longleftrightarrow> i = j"
  by (rule nth_eq_iff_index_eq) (simp_all add: hex_chars_def)

lemma nibble_inject: "i < 16 \<Longrightarrow> j < 16 \<Longrightarrow> nibble i = nibble j \<longleftrightarrow> i = j"
  by (simp add: nibble_def hex_chars_nth_inject)

lemma nibble_in: "nibble n \<in> set hex_chars"
  unfolding nibble_def by (rule nth_mem) (simp add: hex_chars_def)

lemma ref_encode_inject: "ref_encode bs = ref_encode cs \<longleftrightarrow> bs = cs"
proof (induction bs arbitrary: cs)
  case Nil
  then show ?case by (cases cs) auto
next
  case (Cons b bs)
  show ?case
  proof (cases cs)
    case (Cons c cs')
    have "unat b div 16 < 16" "unat c div 16 < 16"
      using unat_bound [of b] unat_bound [of c] by simp_all
    then have "nibble (unat b div 16) = nibble (unat c div 16) \<and>
        nibble (unat b mod 16) = nibble (unat c mod 16) \<longleftrightarrow>
        unat b div 16 = unat c div 16 \<and> unat b mod 16 = unat c mod 16"
      by (simp only: nibble_inject mod_less_divisor zero_less_numeral)
    moreover have "x div 16 = y div 16 \<and> x mod 16 = y mod 16 \<longleftrightarrow> x = y" for x y :: nat
      by (metis div_mult_mod_eq)
    ultimately have "nibble (unat b div 16) = nibble (unat c div 16) \<and>
        nibble (unat b mod 16) = nibble (unat c mod 16) \<longleftrightarrow> b = c"
      by (simp add: word_unat_eq_iff)
    with Cons Cons.IH show ?thesis by auto
  qed simp
qed

lemma length_ref_encode: "length (ref_encode bs) = 2 * length bs"
  by (induction bs) auto

lemma set_ref_encode: "set (ref_encode bs) \<subseteq> set hex_chars"
  by (induction bs) (auto simp: nibble_in)

lemma ref_hex_ok: "hex_crate_ok (ref_hex f g)"
proof -
  have "inj (\<lambda>h. ref_encode (as_bytes h))"
    by (rule injI) (simp add: ref_encode_inject)
  then have "inv (\<lambda>h. ref_encode (as_bytes h)) (ref_encode (as_bytes k)) = k" for k
    by (rule inv_f_f)
  then show ?thesis
    by (auto simp: hex_crate_ok_def ref_hex_def length_ref_encode set_ref_encode [THEN subsetD])
qed

end
