(* ===== verification/Swarm.thy ===== *)
theory Swarm
  imports Core_Hash "HOL-Library.Sublist"
begin

text \<open>
  \<^verbatim>\<open>crates/deltaweave-swarm/src/lib.rs\<close>: the bounded peer overlay and the rarest-first scheduler
  that assigns missing chunks to authorized peers. Counts of type \<open>usize\<close> are natural numbers; the
  cost of a peer is computed in saturating \<open>u64\<close> arithmetic as in the source.
\<close>

section \<open>Data\<close>

record peer_availability =
  pa_id :: hash32
  pa_available :: "hash32 fset"
  pa_rtt_ms :: u32
  pa_queued_bytes :: u64
  pa_goodput :: u64
  pa_failure_penalty :: u32

record scheduler_limits =
  max_sources :: nat
  max_chunks_per_peer :: nat
  max_assignments :: nat

definition default_limits :: scheduler_limits where
  "default_limits = \<lparr>max_sources = 8, max_chunks_per_peer = 8, max_assignments = 64\<rparr>"

record chunk_assignment =
  ca_hash :: hash32
  ca_peer :: hash32

record overlay =
  ov_active :: "hash32 list"
  ov_passive :: "hash32 list"

section \<open>Overlay\<close>

definition active_limit :: "nat \<Rightarrow> nat" where
  "active_limit peer_count =
     (if peer_count = 0 then 0 else if peer_count = 1 then 1
      else if peer_count \<le> 10 then min 6 peer_count
      else if peer_count \<le> 100 then min 8 peer_count
      else min 12 peer_count)"

definition passive_limit :: "nat \<Rightarrow> nat" where
  "passive_limit peer_count =
     (if peer_count \<le> 1 then 0
      else if peer_count \<le> 10 then min 12 (peer_count - active_limit peer_count)
      else if peer_count \<le> 100 then min 32 (peer_count - active_limit peer_count)
      else min 64 (peer_count - active_limit peer_count))"

definition build_overlay :: "externs \<Rightarrow> hash32 \<Rightarrow> nat \<Rightarrow> overlay" where
  "build_overlay E self_id peer_count =
     (let peers = sort (map (\<lambda>index. digest E (as_bytes self_id @ to_le_bytes (of_nat index :: u64)))
            [0..<peer_count])
      in \<lparr>ov_active = take (active_limit peer_count) peers,
          ov_passive = take (passive_limit peer_count) (drop (active_limit peer_count) peers)\<rparr>)"

section \<open>Scheduler\<close>

text \<open>\<open>Iterator::min_by_key\<close> returns the first element with the least key.\<close>

fun min_by_key :: "('a \<Rightarrow> 'k::linorder) \<Rightarrow> 'a list \<Rightarrow> 'a option" where
  "min_by_key f [] = None"
| "min_by_key f (x # xs) =
     (case min_by_key f xs of None \<Rightarrow> Some x | Some y \<Rightarrow> if f x \<le> f y then Some x else Some y)"

definition provider_count :: "peer_availability list \<Rightarrow> hash32 \<Rightarrow> nat" where
  "provider_count peers hash = length (filter (\<lambda>peer. hash |\<in>| pa_available peer) peers)"

definition peer_cost :: "peer_availability \<Rightarrow> nat \<Rightarrow> u64 \<times> nat \<times> hash32" where
  "peer_cost peer assigned =
     (let goodput = max (pa_goodput peer) 1;
          queue_ms = saturating_mul (pa_queued_bytes peer) 1000 div goodput
      in (saturating_add
            (saturating_add
              (saturating_add (ucast (pa_rtt_ms peer)) queue_ms)
              (ucast (pa_failure_penalty peer) * 500))
            (of_nat assigned),
          assigned, pa_id peer))"

record schedule_state =
  per_peer :: "(hash32, nat) fmap"
  sources :: "hash32 fset"
  assignments :: "chunk_assignment list"

definition eligible ::
    "scheduler_limits \<Rightarrow> schedule_state \<Rightarrow> hash32 \<Rightarrow> peer_availability \<Rightarrow> bool" where
  "eligible limits st hash peer \<longleftrightarrow>
     hash |\<in>| pa_available peer \<and>
     get_or (per_peer st) (pa_id peer) 0 < max_chunks_per_peer limits \<and>
     (pa_id peer |\<in>| sources st \<or> fcard (sources st) < max_sources limits)"

definition assign_chunk ::
    "peer_availability list \<Rightarrow> scheduler_limits \<Rightarrow> hash32 \<Rightarrow> schedule_state \<Rightarrow> schedule_state" where
  "assign_chunk peers limits hash st =
     (case min_by_key (\<lambda>peer. peer_cost peer (get_or (per_peer st) (pa_id peer) 0))
             (filter (eligible limits st hash) peers) of
        None \<Rightarrow> st
      | Some peer \<Rightarrow> st\<lparr>
          sources := finsert (pa_id peer) (sources st),
          per_peer := fmupd (pa_id peer) (get_or (per_peer st) (pa_id peer) 0 + 1) (per_peer st),
          assignments := assignments st @ [\<lparr>ca_hash = hash, ca_peer = pa_id peer\<rparr>]\<rparr>)"

fun schedule_loop ::
    "peer_availability list \<Rightarrow> scheduler_limits \<Rightarrow> hash32 list \<Rightarrow> schedule_state \<Rightarrow> schedule_state"
where
  "schedule_loop peers limits [] st = st"
| "schedule_loop peers limits (hash # rest) st =
     (if max_assignments limits \<le> length (assignments st) then st
      else schedule_loop peers limits rest (assign_chunk peers limits hash st))"

definition initial_schedule :: schedule_state where
  "initial_schedule = \<lparr>per_peer = fmempty, sources = {||}, assignments = []\<rparr>"

definition schedule_chunks ::
    "hash32 list \<Rightarrow> peer_availability list \<Rightarrow> scheduler_limits \<Rightarrow> chunk_assignment list" where
  "schedule_chunks missing peers limits =
     (let ordered = sort_key (\<lambda>hash. (provider_count peers hash, hash)) missing
      in assignments (schedule_loop peers limits ordered initial_schedule))"

section \<open>Overlay bounds\<close>

lemma active_limit_le: "active_limit n \<le> n" "active_limit n \<le> 12"
  by (auto simp: active_limit_def)

lemma passive_limit_le: "passive_limit n \<le> n - active_limit n" "passive_limit n \<le> 64"
  by (auto simp: passive_limit_def)

lemma length_overlay:
  "length (ov_active (build_overlay E self_id n)) = active_limit n"
  "length (ov_passive (build_overlay E self_id n)) = passive_limit n"
  using active_limit_le [of n] passive_limit_le [of n] by (simp_all add: build_overlay_def Let_def)

section \<open>The scheduler's invariant\<close>

definition assigned_to :: "hash32 \<Rightarrow> chunk_assignment list \<Rightarrow> nat" where
  "assigned_to p as = length (filter (\<lambda>a. ca_peer a = p) as)"

definition schedule_inv ::
    "peer_availability list \<Rightarrow> scheduler_limits \<Rightarrow> schedule_state \<Rightarrow> bool" where
  "schedule_inv peers limits st \<longleftrightarrow>
     (\<forall>p. get_or (per_peer st) p 0 = assigned_to p (assignments st)) \<and>
     (\<forall>p. assigned_to p (assignments st) \<le> max_chunks_per_peer limits) \<and>
     fset (sources st) = ca_peer ` set (assignments st) \<and>
     fcard (sources st) \<le> max_sources limits \<and>
     length (assignments st) \<le> max_assignments limits \<and>
     (\<forall>a \<in> set (assignments st). \<exists>peer \<in> set peers.
        pa_id peer = ca_peer a \<and> ca_hash a |\<in>| pa_available peer)"

lemma min_by_key_Some: "min_by_key f xs = Some y \<Longrightarrow> y \<in> set xs \<and> (\<forall>x \<in> set xs. f y \<le> f x)"
proof (induction xs arbitrary: y)
  case (Cons x xs)
  show ?case
  proof (cases "min_by_key f xs")
    case None
    then have "xs = []" by (cases xs) (auto split: option.splits if_splits)
    with Cons.prems show ?thesis by simp
  next
    case (Some z)
    with Cons.IH [of z] Cons.prems show ?thesis by (auto split: if_splits)
  qed
qed simp

lemma min_by_key_None: "min_by_key f xs = None \<longleftrightarrow> xs = []"
  by (cases xs) (auto split: option.splits)

lemma assigned_to_snoc:
  "assigned_to p (as @ [a]) = assigned_to p as + (if ca_peer a = p then 1 else 0)"
  by (simp add: assigned_to_def)

lemma assign_chunk_cases:
  obtains "assign_chunk peers limits hash st = st" "\<And>peer. peer \<in> set peers \<Longrightarrow> \<not> eligible limits st hash peer"
  | peer where "peer \<in> set peers" "eligible limits st hash peer"
      "assign_chunk peers limits hash st = st\<lparr>
          sources := finsert (pa_id peer) (sources st),
          per_peer := fmupd (pa_id peer) (get_or (per_peer st) (pa_id peer) 0 + 1) (per_peer st),
          assignments := assignments st @ [\<lparr>ca_hash = hash, ca_peer = pa_id peer\<rparr>]\<rparr>"
proof (cases "min_by_key (\<lambda>peer. peer_cost peer (get_or (per_peer st) (pa_id peer) 0))
    (filter (eligible limits st hash) peers)")
  case None
  then have "\<And>peer. peer \<in> set peers \<Longrightarrow> \<not> eligible limits st hash peer"
    by (simp add: min_by_key_None filter_empty_conv)
  with None show ?thesis by (intro that(1)) (simp_all add: assign_chunk_def)
next
  case (Some peer)
  from min_by_key_Some [OF this] have "peer \<in> set peers" "eligible limits st hash peer" by auto
  with Some show ?thesis by (intro that(2) [of peer]) (simp_all add: assign_chunk_def)
qed

lemma assign_chunk_inv:
  assumes inv: "schedule_inv peers limits st" and room: "length (assignments st) < max_assignments limits"
  shows "schedule_inv peers limits (assign_chunk peers limits hash st)"
proof (cases rule: assign_chunk_cases [of peers limits hash st])
  case 1
  with inv show ?thesis by simp
next
  case (2 peer)
  let ?p = "pa_id peer"
  from inv 2(2) have cap: "assigned_to ?p (assignments st) < max_chunks_per_peer limits"
    by (simp add: schedule_inv_def eligible_def)
  have card: "fcard (finsert ?p (sources st)) \<le> max_sources limits"
    using inv 2(2) by (auto simp: schedule_inv_def eligible_def fcard_finsert_if finsert_absorb)
  show ?thesis
    unfolding 2(3) schedule_inv_def
    using inv room cap card 2(1,2)
    by (auto simp: schedule_inv_def assigned_to_snoc eligible_def)
qed

lemma schedule_loop_inv:
  "schedule_inv peers limits st \<Longrightarrow> schedule_inv peers limits (schedule_loop peers limits hs st)"
  by (induction hs arbitrary: st) (simp_all add: assign_chunk_inv)

lemma initial_schedule_inv: "schedule_inv peers limits initial_schedule"
  by (simp add: schedule_inv_def initial_schedule_def assigned_to_def fcard_fempty)

lemma assign_chunk_prefix:
  "\<exists>ext. assignments (assign_chunk peers limits h st) = assignments st @ ext \<and>
     (ext = [] \<or> map ca_hash ext = [h])"
  by (cases rule: assign_chunk_cases [of peers limits h st]) auto

lemma schedule_loop_hashes:
  "\<exists>ks. map ca_hash (assignments (schedule_loop peers limits hs st)) =
     map ca_hash (assignments st) @ ks \<and> subseq ks hs"
proof (induction hs arbitrary: st)
  case (Cons h hs)
  obtain ext where ext: "assignments (assign_chunk peers limits h st) = assignments st @ ext"
    "ext = [] \<or> map ca_hash ext = [h]"
    using assign_chunk_prefix [of peers limits h st] by (elim exE conjE)
  obtain ks where ks: "map ca_hash (assignments (schedule_loop peers limits hs (assign_chunk peers limits h st))) =
      map ca_hash (assignments (assign_chunk peers limits h st)) @ ks" "subseq ks hs"
    using Cons.IH [of "assign_chunk peers limits h st"] by blast
  from ext(2) ks(2) have "subseq (map ca_hash ext @ ks) (h # hs)" by auto
  with ks(1) ext(1) show ?case by auto
qed simp

lemma schedule_chunks_subseq:
  "subseq (map ca_hash (schedule_chunks missing peers limits))
     (sort_key (\<lambda>hash. (provider_count peers hash, hash)) missing)"
  using schedule_loop_hashes [of peers limits _ initial_schedule]
  by (auto simp: schedule_chunks_def initial_schedule_def)

lemma schedule_chunks_inv:
  "\<exists>st. schedule_inv peers limits st \<and> schedule_chunks missing peers limits = assignments st"
  unfolding schedule_chunks_def Let_def using schedule_loop_inv initial_schedule_inv by blast

lemma schedule_loop_keeps: "assignments st \<noteq> [] \<Longrightarrow> assignments (schedule_loop peers limits hs st) \<noteq> []"
  using schedule_loop_hashes [of peers limits hs st] by fastforce

lemma initial_eligible:
  assumes "peer \<in> set peers" "h |\<in>| pa_available peer"
    and "0 < max_chunks_per_peer limits" "0 < max_sources limits"
  shows "assignments (assign_chunk peers limits h initial_schedule) \<noteq> []"
proof (cases rule: assign_chunk_cases [of peers limits h initial_schedule])
  case 1
  with assms have "\<not> eligible limits initial_schedule h peer" by blast
  with assms show ?thesis by (simp add: eligible_def initial_schedule_def fcard_fempty)
qed simp

lemma assign_chunk_idle:
  assumes "assignments (assign_chunk peers limits h st) = assignments st"
  shows "assign_chunk peers limits h st = st"
  using assms by (cases rule: assign_chunk_cases [of peers limits h st]) auto

lemma schedule_loop_progress:
  assumes "h \<in> set hs" "peer \<in> set peers" "h |\<in>| pa_available peer"
    and "0 < max_chunks_per_peer limits" "0 < max_sources limits" "0 < max_assignments limits"
  shows "assignments (schedule_loop peers limits hs initial_schedule) \<noteq> []"
  using assms(1)
proof (induction hs)
  case (Cons k ks)
  let ?st = "assign_chunk peers limits k initial_schedule"
  have room: "\<not> max_assignments limits \<le> length (assignments initial_schedule)"
    using assms(6) by (simp add: initial_schedule_def)
  show ?case
  proof (cases "assignments ?st = []")
    case True
    then have idle: "?st = initial_schedule"
      by (intro assign_chunk_idle) (simp add: initial_schedule_def)
    from True have "k \<noteq> h" using initial_eligible [OF assms(2,3,4,5)] by blast
    with Cons have "assignments (schedule_loop peers limits ks initial_schedule) \<noteq> []" by simp
    with room idle show ?thesis by simp
  next
    case False
    with room show ?thesis by (simp add: schedule_loop_keeps)
  qed
qed simp

section \<open>Properties\<close>

text \<open>
  Every pass of the scheduler stays within its limits and only asks peers for what they advertise:
  at most \<open>max_assignments\<close> leases in total, at most \<open>max_chunks_per_peer\<close> per peer, at most
  \<open>max_sources\<close> distinct peers, and each lease names a listed peer that has the chunk.
\<close>
theorem schedule_chunks_bounded:
  "length (schedule_chunks missing peers limits) \<le> max_assignments limits \<and>
   (\<forall>p. assigned_to p (schedule_chunks missing peers limits) \<le> max_chunks_per_peer limits) \<and>
   card (ca_peer ` set (schedule_chunks missing peers limits)) \<le> max_sources limits \<and>
   list_all (\<lambda>a. list_ex (\<lambda>peer. pa_id peer = ca_peer a \<and> ca_hash a |\<in>| pa_available peer) peers)
     (schedule_chunks missing peers limits)"
proof -
  obtain st where st: "schedule_inv peers limits st"
    "schedule_chunks missing peers limits = assignments st"
    using schedule_chunks_inv by blast
  then have "card (ca_peer ` set (assignments st)) = fcard (sources st)"
    by (simp add: schedule_inv_def fcard.rep_eq)
  with st show ?thesis by (simp add: schedule_inv_def list_all_iff list_ex_iff)
qed

text \<open>
  Leases are issued rarest-first: along the assignment list the number of providers never
  decreases (ties in hash order), the leased chunks are drawn from the missing list, and a chunk that
  is missing once is leased at most once.
\<close>
theorem schedule_chunks_rarest_first:
  "sorted (map (\<lambda>a. (provider_count peers (ca_hash a), ca_hash a)) (schedule_chunks missing peers limits)) \<and>
   ca_hash ` set (schedule_chunks missing peers limits) \<subseteq> set missing \<and>
   (distinct missing \<longrightarrow> distinct (map ca_hash (schedule_chunks missing peers limits)))"
proof -
  let ?key = "\<lambda>h. (provider_count peers h, h)"
  let ?ord = "sort_key ?key missing" and ?as = "schedule_chunks missing peers limits"
  obtain N where N: "map ca_hash ?as = nths ?ord N"
    using schedule_chunks_subseq [of missing peers limits] unfolding subseq_conv_nths by blast
  have "map ?key (map ca_hash ?as) = nths (map ?key ?ord) N"
    by (simp add: N nths_map)
  moreover have "sorted (nths (map ?key ?ord) N)"
    by (rule sorted_nths) simp
  ultimately have "sorted (map (\<lambda>a. ?key (ca_hash a)) ?as)" by (simp add: comp_def)
  moreover have "ca_hash ` set ?as \<subseteq> set missing"
    using N set_nths_subset [of ?ord N] by (metis list.set_map set_sort)
  moreover have "distinct (map ca_hash ?as)" if "distinct missing"
    using that by (simp add: N)
  ultimately show ?thesis by blast
qed

theorem schedule_chunks_rarest_first_witness:
  "distinct (map ca_hash (schedule_chunks [hash_fill 1, hash_fill 2]
     [\<lparr>pa_id = hash_fill 7, pa_available = {|hash_fill 1, hash_fill 2|}, pa_rtt_ms = 5,
       pa_queued_bytes = 0, pa_goodput = 1, pa_failure_penalty = 0\<rparr>] default_limits))"
  using schedule_chunks_rarest_first [where missing = "[hash_fill 1, hash_fill 2]"] by simp

text \<open>
  A pass makes progress: when all limits are positive and some missing chunk is advertised by some
  peer, at least one lease is issued, so repeated passes over the remaining chunks drain them.
\<close>
theorem schedule_chunks_progress:
  assumes "h \<in> set missing" and "peer \<in> set peers" and "h |\<in>| pa_available peer"
    and "0 < max_chunks_per_peer limits" "0 < max_sources limits" "0 < max_assignments limits"
  shows "schedule_chunks missing peers limits \<noteq> []"
  unfolding schedule_chunks_def Let_def using assms by (intro schedule_loop_progress) simp_all

theorem schedule_chunks_progress_witness:
  "schedule_chunks [hash_fill 1]
     [\<lparr>pa_id = hash_fill 7, pa_available = {|hash_fill 1|}, pa_rtt_ms = 5,
       pa_queued_bytes = 0, pa_goodput = 1, pa_failure_penalty = 0\<rparr>] default_limits \<noteq> []"
  by (rule schedule_chunks_progress [where h = "hash_fill 1"])
    (auto simp: default_limits_def)

text \<open>
  The overlay is bounded for every group size: exactly \<open>active_limit\<close> (at most 12) active and
  \<open>passive_limit\<close> (at most 64) passive peers, together never more than the group, so no full mesh is
  formed and \<open>split_off\<close> is never called beyond the peer list.
\<close>
theorem overlay_bounded:
  "length (ov_active (build_overlay E self_id n)) = active_limit n \<and> active_limit n \<le> min n 12 \<and>
   length (ov_passive (build_overlay E self_id n)) = passive_limit n \<and> passive_limit n \<le> 64 \<and>
   active_limit n + passive_limit n \<le> n"
  using length_overlay [of E self_id n] active_limit_le [of n] passive_limit_le [of n] by simp

end
