(* ===== verification/Core_Path.thy ===== *)
theory Core_Path
  imports Core_Hash
begin

text \<open>
  \<open>WirePath\<close> of \<^verbatim>\<open>crates/deltaweave-core/src/lib.rs\<close>: the portable relative path every record,
  manifest and protocol message carries. Strings are UTF-8 byte strings; \<open>chars\<close> decodes code
  points as \<open>str::chars\<close> does. The lemmas show what \<open>validate_wire_path\<close> accepts and that an
  accepted path cannot leave the root it is joined to.
\<close>

section \<open>Standard-library string operations\<close>

fun chars :: "string \<Rightarrow> nat list" where
  "chars [] = []"
| "chars (a # s) =
     (let x = byte_of a; cont = (\<lambda>c. byte_of c mod 64) in
      if x < 128 then x # chars s
      else if x < 224 then
        (case s of b # s1 \<Rightarrow> (x mod 32 * 64 + cont b) # chars s1 | [] \<Rightarrow> [x mod 32 * 64])
      else if x < 240 then
        (case s of b # c # s2 \<Rightarrow> (x mod 16 * 4096 + cont b * 64 + cont c) # chars s2
         | _ \<Rightarrow> [x mod 16 * 4096])
      else
        (case s of b # c # d # s3 \<Rightarrow>
           (x mod 8 * 262144 + cont b * 4096 + cont c * 64 + cont d) # chars s3
         | _ \<Rightarrow> [x mod 8 * 262144]))"

definition is_control :: "nat \<Rightarrow> bool" where
  "is_control cp \<longleftrightarrow> cp < 32 \<or> 127 \<le> cp \<and> cp < 160"

definition ascii_upper :: "char \<Rightarrow> char" where
  "ascii_upper c = (if 97 \<le> byte_of c \<and> byte_of c \<le> 122 then char_of (byte_of c - 32) else c)"

definition to_ascii_uppercase :: "string \<Rightarrow> string" where
  "to_ascii_uppercase s = map ascii_upper s"

definition eq_ignore_ascii_case :: "string \<Rightarrow> string \<Rightarrow> bool" where
  "eq_ignore_ascii_case s t \<longleftrightarrow> to_ascii_uppercase s = to_ascii_uppercase t"

definition trim_end_matches :: "char list \<Rightarrow> string \<Rightarrow> string" where
  "trim_end_matches cs s = rev (dropWhile (\<lambda>c. c \<in> set cs) (rev s))"

definition ends_with :: "char \<Rightarrow> string \<Rightarrow> bool" where
  "ends_with c s \<longleftrightarrow> s \<noteq> [] \<and> last s = c"

fun strip_prefix :: "string \<Rightarrow> string \<Rightarrow> string option" where
  "strip_prefix [] s = Some s"
| "strip_prefix (p # ps) [] = None"
| "strip_prefix (p # ps) (c # cs) = (if p = c then strip_prefix ps cs else None)"

section \<open>Path validation\<close>

type_synonym wire_path = string

datatype wire_path_error =
    Empty
  | NotRelative
  | TooLong
  | InvalidComponent string
  | ComponentTooLong string
  | ReservedName string

definition ILLEGAL :: "nat list" where
  "ILLEGAL = [0x3C, 0x3E, 0x3A, 0x22, 0x7C, 0x3F, 0x2A, 0x00, 0x0D]"

definition RESERVED_BASE :: "string list" where
  "RESERVED_BASE = [''CON'', ''PRN'', ''AUX'', ''NUL'', ''CLOCK$'', ''CONIN$'', ''CONOUT$'']"

definition device_suffixes :: "string list" where
  "device_suffixes = [''1'', ''2'', ''3'', ''4'', ''5'', ''6'', ''7'', ''8'', ''9'',
     [CHR 0xC2, CHR 0xB9], [CHR 0xC2, CHR 0xB2], [CHR 0xC2, CHR 0xB3]]"

definition reserved_component :: "string \<Rightarrow> bool" where
  "reserved_component cmp =
     (let stem = trim_end_matches [CHR '' '', CHR ''.''] (hd (split_on (CHR ''.'') cmp));
          upper_stem = to_ascii_uppercase stem;
          numbered_device = list_ex (\<lambda>prefix.
            (case strip_prefix prefix upper_stem of
               None \<Rightarrow> False | Some suffix \<Rightarrow> suffix \<in> set device_suffixes)) [''COM'', ''LPT'']
      in list_ex (eq_ignore_ascii_case stem) RESERVED_BASE \<or> numbered_device)"

definition validate_component :: "string \<Rightarrow> wire_path_error + unit" where
  "validate_component cmp =
     (if cmp = [] \<or> cmp = ''.'' \<or> cmp = ''..'' then Inl (InvalidComponent cmp)
      else if 255 < length cmp then Inl (ComponentTooLong cmp)
      else if ends_with (CHR ''.'') cmp \<or> ends_with (CHR '' '') cmp
        then Inl (InvalidComponent cmp)
      else if list_ex (\<lambda>c. is_control c \<or> c \<in> set ILLEGAL) (chars cmp)
        then Inl (InvalidComponent cmp)
      else if reserved_component cmp then Inl (ReservedName cmp)
      else Inr ())"

definition validate_wire_path :: "string \<Rightarrow> wire_path_error + unit" where
  "validate_wire_path s =
     (if s = [] then Inl Empty
      else if 4096 < length s then Inl TooLong
      else if hd s = CHR ''/'' \<or> CHR 0x5C \<in> set s then Inl NotRelative
      else fold_res (\<lambda>cmp _. validate_component cmp) (split_on (CHR ''/'') s) ())"

definition wire_path_new :: "string \<Rightarrow> wire_path_error + wire_path" where
  "wire_path_new s = and_then (validate_wire_path s) (\<lambda>_. Inr s)"

definition components :: "wire_path \<Rightarrow> string list" where
  "components p = split_on (CHR ''/'') p"

section \<open>What is accepted\<close>

definition component_ok :: "string \<Rightarrow> bool" where
  "component_ok c \<longleftrightarrow> validate_component c = Inr ()"

definition path_ok :: "string \<Rightarrow> bool" where
  "path_ok s \<longleftrightarrow> validate_wire_path s = Inr ()"

lemma fold_res_unit_iff:
  "fold_res (\<lambda>x _. f x) xs () = Inr () \<longleftrightarrow> (\<forall>x \<in> set xs. f x = Inr ())"
  by (induction xs) (auto simp: result_simps)

lemma path_ok_iff:
  "path_ok s \<longleftrightarrow> s \<noteq> [] \<and> length s \<le> 4096 \<and> hd s \<noteq> CHR ''/'' \<and> CHR 0x5C \<notin> set s \<and>
     (\<forall>c \<in> set (components s). component_ok c)"
  by (auto simp: path_ok_def validate_wire_path_def component_ok_def components_def fold_res_unit_iff)

lemma wire_path_new_Inr_iff: "wire_path_new s = Inr p \<longleftrightarrow> p = s \<and> path_ok s"
  by (auto simp: wire_path_new_def result_simps path_ok_def)

lemma component_ok_plain:
  assumes "component_ok c"
  shows "c \<noteq> []" "c \<noteq> ''.''" "c \<noteq> ''..''" "length c \<le> 255"
  using assms by (auto simp: component_ok_def validate_component_def split: if_splits)

lemma components_not_Nil [simp]: "components p \<noteq> []"
  by (simp add: components_def)

lemma components_no_slash: "c \<in> set (components p) \<Longrightarrow> CHR ''/'' \<notin> set c"
  by (simp add: components_def split_on_no_sep)

lemma join_components [simp]: "join_with ''/'' (components p) = p"
  by (simp add: components_def)

lemma components_inject [simp]: "components p = components q \<longleftrightarrow> p = q"
  by (metis join_components)

lemma components_join:
  "cs \<noteq> [] \<Longrightarrow> \<forall>c \<in> set cs. CHR ''/'' \<notin> set c \<Longrightarrow> components (join_with ''/'' cs) = cs"
  by (simp add: components_def split_on_join)

section \<open>Parents of accepted paths\<close>

lemma length_join_take: "length (join_with sep (take n ps)) \<le> length (join_with sep ps)"
proof (induction ps arbitrary: n)
  case (Cons p ps)
  show ?case
  proof (cases n)
    case (Suc k)
    then show ?thesis
    proof (cases "take k ps = []")
      case True
      with Suc show ?thesis by (cases ps) auto
    next
      case False
      then have "ps \<noteq> []" by auto
      with False Suc Cons.IH [of k] show ?thesis by (simp add: join_with_Cons)
    qed
  qed simp
qed simp

lemma set_join_with: "set (join_with sep ps) \<subseteq> set sep \<union> \<Union> (set ` set ps)"
  by (induction sep ps rule: join_with.induct) auto

lemma set_part_subset: "p \<in> set ps \<Longrightarrow> set p \<subseteq> set (join_with sep ps)"
  by (induction sep ps rule: join_with.induct) auto

lemma hd_join_with: "p \<noteq> [] \<Longrightarrow> hd (join_with sep (p # ps)) = hd p"
  by (cases ps) auto

lemma path_ok_parent:
  assumes ok: "path_ok s" and n: "0 < n"
  shows "path_ok (join_with ''/'' (take n (components s)))"
proof -
  let ?cs = "components s" and ?t = "take n (components s)"
  from n have ne: "?t \<noteq> []" by (simp add: components_def)
  have sub: "set ?t \<subseteq> set ?cs" by (rule set_take_subset)
  have comps: "components (join_with ''/'' ?t) = ?t"
    using ne sub by (intro components_join) (auto dest: components_no_slash)
  obtain c cs where c: "?cs = c # cs" by (meson components_not_Nil neq_Nil_conv)
  with ok have cok: "component_ok c" by (simp add: path_ok_iff)
  then have cne: "c \<noteq> []" by (rule component_ok_plain)
  obtain m where m: "n = Suc m" using n gr0_implies_Suc by blast
  have hd: "hd (join_with ''/'' ?t) = hd c" using c m cne by (simp add: hd_join_with)
  have "hd s = hd c" using c cne join_components [of s] by (metis hd_join_with)
  moreover have "length (join_with ''/'' ?t) \<le> length s"
    using length_join_take [of "''/''" n ?cs] by simp
  moreover have "set (join_with ''/'' ?t) \<subseteq> {CHR ''/''} \<union> set s"
    using set_join_with [of "''/''" ?t] sub set_part_subset [of _ ?cs "''/''"] by fastforce
  moreover have "join_with ''/'' ?t \<noteq> []"
    using c m cne by (cases "take m cs") auto
  ultimately show ?thesis
    using ok sub comps hd by (auto simp: path_ok_iff)
qed

section \<open>Joining a path to a root\<close>

text \<open>
  Lexical resolution of a component list beneath a root, as the operating system reads the joined
  path: \<open>.\<close> and empty components stay, \<open>..\<close> climbs one level.
\<close>

fun resolve :: "string list \<Rightarrow> string list \<Rightarrow> string list" where
  "resolve root [] = root"
| "resolve root (c # cs) =
     (if c = [] \<or> c = ''.'' then resolve root cs
      else if c = ''..'' then resolve (butlast root) cs
      else resolve (root @ [c]) cs)"

lemma resolve_plain:
  "\<forall>c \<in> set cs. c \<noteq> [] \<and> c \<noteq> ''.'' \<and> c \<noteq> ''..'' \<Longrightarrow> resolve root cs = root @ cs"
  by (induction cs arbitrary: root) auto

lemma resolve_accepted:
  assumes "path_ok p"
  shows "resolve root (components p) = root @ components p"
  using assms by (intro resolve_plain) (auto simp: path_ok_iff dest: component_ok_plain)

section \<open>Properties\<close>

text \<open>
  C22: a path accepted by \<open>WirePath::new\<close> is returned unchanged and, joined to any root, resolves to a
  location strictly beneath that root, with one directory level per component: it cannot traverse
  upwards, restart at an absolute path or hide a separator.
\<close>
theorem wire_path_stays_beneath_root:
  assumes "wire_path_new s = Inr p"
  shows "p = s \<and> resolve root (components p) = root @ components p \<and> components p \<noteq> [] \<and>
    CHR 0x5C \<notin> set p \<and> (\<forall>c \<in> set (components p). c \<noteq> [] \<and> c \<noteq> ''.'' \<and> c \<noteq> ''..'' \<and>
      CHR ''/'' \<notin> set c \<and> length c \<le> 255)"
  using assms by (auto simp: wire_path_new_Inr_iff resolve_accepted path_ok_iff
      dest: component_ok_plain components_no_slash)

lemma wire_path_example: "wire_path_new ''docs/a.txt'' = Inr ''docs/a.txt''"
  by code_simp

theorem wire_path_stays_beneath_root_witness:
  "resolve [''srv'', ''root''] (components ''docs/a.txt'') = [''srv'', ''root'', ''docs'', ''a.txt'']"
  using wire_path_stays_beneath_root [OF wire_path_example, of "[''srv'', ''root'']"]
  by (simp add: components_def)

text \<open>
  The wire namespace is prefix-closed: every ancestor of an accepted path is itself accepted, so
  the directories implied by a record can be queried and materialized.
\<close>
theorem wire_path_ancestors_accepted:
  assumes "wire_path_new s = Inr p" and "0 < n"
  shows "wire_path_new (join_with ''/'' (take n (components p))) =
    Inr (join_with ''/'' (take n (components p)))"
  using assms by (simp add: wire_path_new_Inr_iff path_ok_parent)

theorem wire_path_ancestors_accepted_witness: "wire_path_new ''docs'' = Inr ''docs''"
  using wire_path_ancestors_accepted [OF wire_path_example, of 1] by (simp add: components_def)

text \<open>
  Windows device names are rejected in any component, whatever their case, extension or trailing
  blanks: when the part before the first dot, with trailing blanks removed, equals a reserved base
  name up to ASCII case, no path with that component is accepted.
\<close>
theorem wire_path_rejects_device_names:
  assumes "cmp \<in> set (components s)" and "base \<in> set RESERVED_BASE"
    and "eq_ignore_ascii_case
      (trim_end_matches [CHR '' '', CHR ''.''] (hd (split_on (CHR ''.'') cmp))) base"
  shows "\<exists>e. wire_path_new s = Inl e"
proof -
  have "reserved_component cmp"
    using assms(2,3) unfolding reserved_component_def by (auto simp: list_ex_iff Let_def)
  then have "validate_component cmp \<noteq> Inr ()"
    by (auto simp: validate_component_def)
  with assms(1) have "\<not> path_ok s" by (auto simp: path_ok_iff component_ok_def)
  then show ?thesis
    by (cases "wire_path_new s") (auto simp: wire_path_new_Inr_iff)
qed

theorem wire_path_rejects_device_names_witness: "\<exists>e. wire_path_new ''logs/con .txt'' = Inl e"
proof (rule wire_path_rejects_device_names [of "''con .txt''" _ "''CON''"])
  show "''con .txt'' \<in> set (components ''logs/con .txt'')" by (simp add: components_def)
  show "''CON'' \<in> set RESERVED_BASE" by (simp add: RESERVED_BASE_def)
  show "eq_ignore_ascii_case
    (trim_end_matches [CHR '' '', CHR ''.''] (hd (split_on (CHR ''.'') ''con .txt''))) ''CON''"
    by code_simp
qed

end
