(* ===== verification/Core_Version.thy ===== *)
theory Core_Version
  imports Core_Hash
begin

text \<open>
  Version vectors of \<^verbatim>\<open>crates/deltaweave-core/src/lib.rs\<close>: per-replica \<open>u64\<close> counters in a
  \<open>BTreeMap\<close>, with increment, observation, merge and the causal comparison. The locale
  \<open>causal_clock\<close> is the contract reconciliation relies on (a preorder with joins that the
  four-valued comparison decides); its consequences are proved once and it is interpreted on the
  version vectors at the end.
\<close>

section \<open>The contract of a causal clock\<close>

datatype causal_relation = Equal | Before | After | Concurrent

fun flip_relation :: "causal_relation \<Rightarrow> causal_relation" where
  "flip_relation Equal = Equal"
| "flip_relation Before = After"
| "flip_relation After = Before"
| "flip_relation Concurrent = Concurrent"

locale causal_clock =
  fixes le :: "'c \<Rightarrow> 'c \<Rightarrow> bool"
    and join :: "'c \<Rightarrow> 'c \<Rightarrow> 'c"
    and rel :: "'c \<Rightarrow> 'c \<Rightarrow> causal_relation"
  assumes le_refl: "le a a"
    and le_trans: "le a b \<Longrightarrow> le b c \<Longrightarrow> le a c"
    and join_left: "le a (join a b)"
    and join_right: "le b (join a b)"
    and join_least: "le a c \<Longrightarrow> le b c \<Longrightarrow> le (join a b) c"
    and rel_decides: "rel a b =
      (if le a b then if le b a then Equal else Before else if le b a then After else Concurrent)"
begin

lemma rel_swap: "rel b a = flip_relation (rel a b)"
  by (auto simp: rel_decides)

lemma rel_refl: "rel a a = Equal"
  by (simp add: rel_decides le_refl)

lemma rel_Before_iff: "rel a b = Before \<longleftrightarrow> le a b \<and> \<not> le b a"
  and rel_After_iff: "rel a b = After \<longleftrightarrow> le b a \<and> \<not> le a b"
  and rel_Equal_iff: "rel a b = Equal \<longleftrightarrow> le a b \<and> le b a"
  and rel_Concurrent_iff: "rel a b = Concurrent \<longleftrightarrow> \<not> le a b \<and> \<not> le b a"
  by (simp_all add: rel_decides)

lemma rel_Before_trans: "rel a b = Before \<Longrightarrow> rel b c = Before \<Longrightarrow> rel a c = Before"
  by (auto simp: rel_Before_iff intro: le_trans)

lemma join_after_concurrent:
  assumes "rel a b = Concurrent"
  shows "rel (join a b) a = After" and "rel (join a b) b = After"
  using assms join_left [of a b] join_right [of b a]
  by (auto simp: rel_Concurrent_iff rel_After_iff intro: le_trans)

lemma above_join_after:
  assumes "le (join a b) c" and "\<not> le c (join a b)"
  shows "rel c a = After" and "rel c b = After"
  using assms join_left [of a b] join_right [of b a]
  by (auto simp: rel_After_iff intro: le_trans)

lemma join_comm_le: "le (join a b) (join b a)"
  by (simp add: join_least join_left join_right)

end

section \<open>Version vectors\<close>

type_synonym replica_id = hash32
type_synonym version_vector = "(replica_id, u64) fmap"

datatype clock_error = CounterOverflow

definition vv_get :: "version_vector \<Rightarrow> replica_id \<Rightarrow> u64" where
  "vv_get v replica = get_or v replica 0"

definition vv_iter :: "version_vector \<Rightarrow> (replica_id \<times> u64) list" where
  "vv_iter v = sorted_list_of_fmap v"

definition vv_is_empty :: "version_vector \<Rightarrow> bool" where
  "vv_is_empty v \<longleftrightarrow> vv_iter v = []"

definition vv_increment :: "version_vector \<Rightarrow> replica_id \<Rightarrow> clock_error + (version_vector \<times> u64)" where
  "vv_increment v replica =
     and_then (ok_or (checked_add (vv_get v replica) 1) CounterOverflow)
       (\<lambda>counter. Inr (fmupd replica counter v, counter))"

definition vv_observe :: "version_vector \<Rightarrow> replica_id \<Rightarrow> u64 \<Rightarrow> version_vector" where
  "vv_observe v replica counter = fmupd replica (max (vv_get v replica) counter) v"

definition vv_merge :: "version_vector \<Rightarrow> version_vector \<Rightarrow> version_vector" where
  "vv_merge v other = fold (\<lambda>(replica, counter) w. vv_observe w replica counter) (vv_iter other) v"

definition vv_relation :: "version_vector \<Rightarrow> version_vector \<Rightarrow> causal_relation" where
  "vv_relation v other =
     (let replicas = sorted_list_of_fset (fmdom v |\<union>| fmdom other);
          (less, greater) = fold (\<lambda>replica (l, g).
             (l \<or> vv_get v replica < vv_get other replica,
              g \<or> vv_get other replica < vv_get v replica)) replicas (False, False)
      in case (less, greater) of
           (False, False) \<Rightarrow> Equal
         | (True, False) \<Rightarrow> Before
         | (False, True) \<Rightarrow> After
         | (True, True) \<Rightarrow> Concurrent)"

section \<open>Counter-wise characterisation\<close>

definition vv_le :: "version_vector \<Rightarrow> version_vector \<Rightarrow> bool" where
  "vv_le v w \<longleftrightarrow> (\<forall>r. vv_get v r \<le> vv_get w r)"

lemma vv_get_fmupd [simp]: "vv_get (fmupd a c v) r = (if a = r then c else vv_get v r)"
  by (simp add: vv_get_def)

lemma vv_get_empty [simp]: "vv_get fmempty r = 0"
  by (simp add: vv_get_def)

lemma vv_get_notin: "r |\<notin>| fmdom v \<Longrightarrow> vv_get v r = 0"
  by (simp add: vv_get_def get_or_def fmdom_notD)

lemma vv_get_observe: "vv_get (vv_observe v a c) r = (if a = r then max (vv_get v r) c else vv_get v r)"
  by (simp add: vv_observe_def)

lemma fmdom_vv_observe [simp]: "fmdom (vv_observe v a c) = finsert a (fmdom v)"
  by (simp add: vv_observe_def)

lemma fold_observe_lookup:
  assumes "distinct (map fst es)"
  shows "fmlookup (fold (\<lambda>(replica, counter) w. vv_observe w replica counter) es v) r =
    (case map_of es r of None \<Rightarrow> fmlookup v r | Some c \<Rightarrow> Some (max (vv_get v r) c))"
  using assms
proof (induction es arbitrary: v)
  case (Cons e es)
  obtain a c where e: "e = (a, c)" by (cases e)
  with Cons.prems have "map_of es a = None" by (simp add: map_of_eq_None_iff)
  with Cons e show ?case
    by (auto simp: vv_get_observe split: option.split) (simp_all add: vv_observe_def)
qed simp

lemma vv_merge_lookup:
  "fmlookup (vv_merge v w) r =
     (case fmlookup w r of None \<Rightarrow> fmlookup v r | Some c \<Rightarrow> Some (max (vv_get v r) c))"
  by (simp add: vv_merge_def vv_iter_def fold_observe_lookup)

lemma vv_get_merge [simp]: "vv_get (vv_merge v w) r = max (vv_get v r) (vv_get w r)"
  by (auto simp: vv_get_def get_or_def vv_merge_lookup split: option.split)

lemma fmdom_vv_merge [simp]: "fmdom (vv_merge v w) = fmdom v |\<union>| fmdom w"
  by (rule fset_eqI) (auto simp: fmlookup_dom_iff vv_merge_lookup split: option.split)

lemma vv_ext:
  assumes "fmdom v = fmdom w" and "\<And>r. vv_get v r = vv_get w r"
  shows "v = w"
proof (rule fmap_ext)
  fix r
  from assms(1) have "r |\<in>| fmdom v \<longleftrightarrow> r |\<in>| fmdom w" by simp
  with assms(2) [of r] show "fmlookup v r = fmlookup w r"
    by (cases "fmlookup v r"; cases "fmlookup w r") (auto simp: vv_get_def get_or_def fmlookup_dom_iff)
qed

lemma relation_fold:
  "fold (\<lambda>replica (l, g).
      (l \<or> vv_get v replica < vv_get w replica, g \<or> vv_get w replica < vv_get v replica)) rs (l, g) =
    (l \<or> (\<exists>r \<in> set rs. vv_get v r < vv_get w r), g \<or> (\<exists>r \<in> set rs. vv_get w r < vv_get v r))"
  by (induction rs arbitrary: l g) auto

lemma less_in_doms: "vv_get v r < vv_get w r \<Longrightarrow> r |\<in>| fmdom v |\<union>| fmdom w"
  using vv_get_notin [of r v] vv_get_notin [of r w] by fastforce

lemma vv_relation_le:
  "vv_relation v w =
     (if vv_le v w then if vv_le w v then Equal else Before
      else if vv_le w v then After else Concurrent)"
proof -
  let ?rs = "sorted_list_of_fset (fmdom v |\<union>| fmdom w)"
  have "(\<exists>r \<in> set ?rs. vv_get v r < vv_get w r) \<longleftrightarrow> \<not> vv_le w v"
    using less_in_doms [of v _ w] by (force simp: vv_le_def not_le)
  moreover have "(\<exists>r \<in> set ?rs. vv_get w r < vv_get v r) \<longleftrightarrow> \<not> vv_le v w"
    using less_in_doms [of w _ v] by (force simp: vv_le_def not_le)
  ultimately show ?thesis
    unfolding vv_relation_def Let_def relation_fold by (simp split: bool.split)
qed

interpretation vv: causal_clock vv_le vv_merge vv_relation
proof (unfold_locales, goal_cases)
  case 1 show ?case by (simp add: vv_le_def)
next
  case 2 then show ?case unfolding vv_le_def using order_trans by blast
next
  case 3 show ?case by (simp add: vv_le_def)
next
  case 4 show ?case by (simp add: vv_le_def)
next
  case 5 then show ?case by (simp add: vv_le_def)
next
  case 6 show ?case by (rule vv_relation_le)
qed

section \<open>Algebra of merging\<close>

lemma vv_merge_comm: "vv_merge v w = vv_merge w v"
  by (rule vv_ext) (auto simp: max.commute)

lemma vv_merge_assoc: "vv_merge (vv_merge u v) w = vv_merge u (vv_merge v w)"
  by (rule vv_ext) (auto simp: max.assoc)

lemma vv_merge_idem: "vv_merge v v = v"
  by (rule vv_ext) auto

text \<open>Vectors without explicit zero counters; on these the causal order is antisymmetric.\<close>

definition vv_normal :: "version_vector \<Rightarrow> bool" where
  "vv_normal v \<longleftrightarrow> fBall (fmdom v) (\<lambda>r. vv_get v r \<noteq> 0)"

lemma vv_normal_dom: "vv_normal v \<Longrightarrow> r |\<in>| fmdom v \<longleftrightarrow> vv_get v r \<noteq> 0"
  using vv_get_notin [of r v] by (auto simp: vv_normal_def)

lemma vv_normal_equal:
  assumes "vv_normal v" "vv_normal w" "vv_relation v w = Equal"
  shows "v = w"
proof (rule vv_ext)
  from assms(3) show eq: "vv_get v r = vv_get w r" for r
    by (auto simp: vv.rel_Equal_iff vv_le_def intro: antisym)
  with assms(1,2) show "fmdom v = fmdom w"
    by (intro fset_eqI) (simp add: vv_normal_dom)
qed

lemma vv_normal_merge: "vv_normal v \<Longrightarrow> vv_normal w \<Longrightarrow> vv_normal (vv_merge v w)"
  by (auto simp: vv_normal_def max_def)

lemma vv_normal_observe: "vv_normal v \<Longrightarrow> c \<noteq> 0 \<Longrightarrow> vv_normal (vv_observe v r c)"
  by (auto simp: vv_normal_def vv_get_observe max_def)

lemma vv_le_observe: "vv_le v (vv_observe v r c)"
  by (simp add: vv_le_def vv_get_observe)

lemma vv_increment_Inr:
  assumes "vv_increment v r = Inr (w, c)"
  shows "unat c = unat (vv_get v r) + 1" "w = fmupd r c v"
  using assms by (auto simp: vv_increment_def result_simps dest: checked_add_Some)

section \<open>Properties\<close>

text \<open>
  C24: \<open>VersionVector::relation\<close> decides the causal partial order of the counters: absent replicas
  count as zero, and the four answers are exactly mutual domination, strict domination either way,
  and neither.
\<close>
theorem vv_relation_exact:
  "(vv_relation v w = Equal \<longleftrightarrow> (\<forall>r. vv_get v r = vv_get w r)) \<and>
   (vv_relation v w = Before \<longleftrightarrow> (\<forall>r. vv_get v r \<le> vv_get w r) \<and> (\<exists>r. vv_get v r < vv_get w r)) \<and>
   (vv_relation v w = After \<longleftrightarrow> (\<forall>r. vv_get w r \<le> vv_get v r) \<and> (\<exists>r. vv_get w r < vv_get v r)) \<and>
   (vv_relation v w = Concurrent \<longleftrightarrow>
      (\<exists>r. vv_get v r < vv_get w r) \<and> (\<exists>r. vv_get w r < vv_get v r))"
proof (intro conjI)
  show "vv_relation v w = Equal \<longleftrightarrow> (\<forall>r. vv_get v r = vv_get w r)"
    by (auto simp: vv.rel_Equal_iff vv_le_def intro: antisym)
qed (simp_all add: vv.rel_Before_iff vv.rel_After_iff vv.rel_Concurrent_iff vv_le_def not_le conj_commute)

text \<open>
  \<open>VersionVector::merge\<close> is the join of the causal order: it is commutative, associative and
  idempotent as an operation on the stored maps, dominates both arguments, and is dominated by every
  vector that dominates both.
\<close>
theorem vv_merge_is_join:
  "vv_merge v w = vv_merge w v \<and> vv_merge (vv_merge u v) w = vv_merge u (vv_merge v w) \<and>
   vv_merge v v = v \<and> vv_le v (vv_merge v w) \<and> vv_le w (vv_merge v w) \<and>
   (vv_le v x \<and> vv_le w x \<longrightarrow> vv_le (vv_merge v w) x)"
  using vv_merge_comm vv_merge_assoc vv_merge_idem vv.join_left vv.join_right vv.join_least by blast

theorem vv_merge_is_join_witness:
  "vv_le (vv_merge (fmap_of_list [(hash_fill 1, 2)]) (fmap_of_list [(hash_fill 2, 3)]))
     (fmap_of_list [(hash_fill 1, 5), (hash_fill 2, 3)])"
proof -
  have "vv_le (fmap_of_list [(hash_fill 1, 2)]) (fmap_of_list [(hash_fill 1, 5), (hash_fill 2, 3)])"
    "vv_le (fmap_of_list [(hash_fill 2, 3)]) (fmap_of_list [(hash_fill 1, 5), (hash_fill 2, 3)])"
    by (simp_all add: vv_le_def)
  then show ?thesis using vv_merge_is_join by blast
qed

text \<open>
  A local edit always moves strictly forward: \<open>increment\<close> either fails because the replica's
  counter is at \<open>u64::MAX\<close>, or returns the old counter plus one and a vector that happened after the
  old one and differs from it at that replica only.
\<close>
theorem vv_increment_advances:
  "case vv_increment v r of
     Inl e \<Rightarrow> vv_get v r = - 1
   | Inr (w, c) \<Rightarrow> unat c = unat (vv_get v r) + 1 \<and> vv_relation w v = After \<and>
       (\<forall>q. vv_get w q = (if q = r then c else vv_get v q))"
proof (cases "vv_increment v r")
  case (Inl e)
  then have "2 ^ 64 \<le> unat (vv_get v r) + 1"
    by (simp add: vv_increment_def result_simps checked_add_None)
  then have "unat (vv_get v r) = unat (- 1 :: u64)"
    using unat_bound [of "vv_get v r"] by (simp add: unat_all_ones)
  with Inl show ?thesis by (simp add: word_unat_eq_iff)
next
  case (Inr p)
  obtain w c where p: "p = (w, c)" by (cases p)
  note inc = vv_increment_Inr [OF Inr [unfolded p]]
  then have "vv_get v r < c" by (simp add: word_less_nat_alt)
  then have "vv_relation w v = After"
    unfolding vv.rel_After_iff vv_le_def inc(2) by (auto simp: not_le intro: less_imp_le)
  with Inr p inc show ?thesis by simp
qed

end
