(* ===== verification/Core_Record.thy ===== *)
theory Core_Record
  imports Core_Path Core_Version
begin

text \<open>
  \<open>SyncRecord\<close> of \<^verbatim>\<open>crates/deltaweave-core/src/lib.rs\<close>: the causal, portable state of one path, its
  validation, and the canonical digest \<open>logical_hash\<close> that the Merkle tree is built from.
\<close>

section \<open>Records\<close>

definition SYNC_RECORD_SCHEMA_V1 :: u16 where
  "SYNC_RECORD_SCHEMA_V1 = 1"

datatype sync_entry_kind = File | Directory | Symlink | Other

record sync_record =
  sr_schema_version :: u16
  sr_path :: wire_path
  sr_kind :: sync_entry_kind
  sr_size :: u64
  sr_content_hash :: "hash32 option"
  sr_readonly :: bool
  sr_version :: version_vector
  sr_tombstone :: bool

datatype sync_record_error =
    UnsupportedSchema u16
  | MissingFileHash
  | UnexpectedContentMetadata

definition record_validate :: "sync_record \<Rightarrow> sync_record_error + unit" where
  "record_validate r =
     (if sr_schema_version r \<noteq> SYNC_RECORD_SCHEMA_V1
        then Inl (UnsupportedSchema (sr_schema_version r))
      else if sr_tombstone r then Inr ()
      else case sr_kind r of
        File \<Rightarrow> if sr_content_hash r = None then Inl MissingFileHash else Inr ()
      | _ \<Rightarrow> if sr_size r \<noteq> 0 \<or> sr_content_hash r \<noteq> None
          then Inl UnexpectedContentMetadata else Inr ())"

definition update_sized :: "u8 list \<Rightarrow> u8 list" where
  "update_sized bytes = to_le_bytes (of_nat (length bytes) :: u64) @ bytes"

fun kind_byte :: "sync_entry_kind \<Rightarrow> u8" where
  "kind_byte File = 0"
| "kind_byte Directory = 1"
| "kind_byte Symlink = 2"
| "kind_byte Other = 3"

definition content_bytes :: "hash32 option \<Rightarrow> u8 list" where
  "content_bytes h = (case h of Some hash \<Rightarrow> 1 # as_bytes hash | None \<Rightarrow> [0])"

definition bool_byte :: "bool \<Rightarrow> u8" where
  "bool_byte b = (if b then 1 else 0)"

definition version_bytes :: "version_vector \<Rightarrow> u8 list" where
  "version_bytes v =
     concat (map (\<lambda>(replica, counter). as_bytes replica @ to_le_bytes counter) (vv_iter v))"

definition record_encoding :: "sync_record \<Rightarrow> u8 list" where
  "record_encoding r =
     update_sized (str_bytes (sr_path r)) @ [kind_byte (sr_kind r)] @ to_le_bytes (sr_size r) @
     content_bytes (sr_content_hash r) @ [bool_byte (sr_readonly r), bool_byte (sr_tombstone r)] @
     version_bytes (sr_version r)"

definition logical_hash :: "externs \<Rightarrow> sync_record \<Rightarrow> hash32" where
  "logical_hash E r = blake3_derive E ''deltaweave sync record v1'' (record_encoding r)"

definition same_state :: "sync_record \<Rightarrow> sync_record \<Rightarrow> bool" where
  "same_state a b \<longleftrightarrow>
     sr_path a = sr_path b \<and> sr_kind a = sr_kind b \<and> sr_size a = sr_size b \<and>
     sr_content_hash a = sr_content_hash b \<and> sr_readonly a = sr_readonly b \<and>
     sr_tombstone a = sr_tombstone b"

definition live :: "sync_record \<Rightarrow> bool" where
  "live r \<longleftrightarrow> \<not> sr_tombstone r"

section \<open>Validity and equality\<close>

definition record_ok :: "sync_record \<Rightarrow> bool" where
  "record_ok r \<longleftrightarrow> record_validate r = Inr ()"

lemma record_ok_iff:
  "record_ok r \<longleftrightarrow> sr_schema_version r = 1 \<and>
     (live r \<longrightarrow> (if sr_kind r = File then sr_content_hash r \<noteq> None
                else sr_size r = 0 \<and> sr_content_hash r = None))"
  by (cases "sr_kind r")
    (auto simp: record_ok_def record_validate_def SYNC_RECORD_SCHEMA_V1_def live_def)

lemma same_state_refl [simp]: "same_state a a"
  by (simp add: same_state_def)

lemma same_state_sym: "same_state a b \<longleftrightarrow> same_state b a"
  by (auto simp: same_state_def)

lemma sync_record_eqI:
  assumes "sr_schema_version a = sr_schema_version b" "same_state a b"
    and "sr_version a = sr_version b"
  shows "a = (b :: sync_record)"
  using assms by (cases a; cases b) (simp add: same_state_def)

section \<open>The encoding is canonical\<close>

lemma kind_byte_inject [simp]: "kind_byte k = kind_byte l \<longleftrightarrow> k = l"
  by (cases k; cases l) simp_all

lemma bool_byte_inject [simp]: "bool_byte a = bool_byte b \<longleftrightarrow> a = b"
  by (simp add: bool_byte_def)

lemma content_bytes_append_inject:
  "content_bytes g @ us = content_bytes h @ vs \<longleftrightarrow> g = h \<and> us = vs"
  by (auto simp: content_bytes_def split: option.split)

lemma version_bytes_inject [simp]: "version_bytes v = version_bytes w \<longleftrightarrow> v = w"
proof -
  let ?f = "\<lambda>(replica, counter). as_bytes replica @ to_le_bytes (counter :: u64)"
  have "version_bytes v = version_bytes w \<longleftrightarrow> vv_iter v = vv_iter w"
    unfolding version_bytes_def
    by (rule concat_map_fixed_width_inject [where n = 40]) (auto simp: to_le_bytes_inject)
  then show ?thesis by (simp add: vv_iter_def)
qed

lemma update_sized_append_inject:
  assumes "length xs < 2 ^ 64" "length ys < 2 ^ 64"
  shows "update_sized xs @ us = update_sized ys @ vs \<longleftrightarrow> xs = ys \<and> us = vs"
proof
  assume eq: "update_sized xs @ us = update_sized ys @ vs"
  then have "to_le_bytes (of_nat (length xs) :: u64) = to_le_bytes (of_nat (length ys) :: u64)"
    and rest: "xs @ us = ys @ vs" by (simp_all add: update_sized_def)
  then have "length xs mod 2 ^ 64 = length ys mod 2 ^ 64"
    by (simp add: to_le_bytes_inject word_of_nat_eq_iff take_bit_eq_mod)
  with assms have "length xs = length ys" by simp
  with rest show "xs = ys \<and> us = vs" by simp
qed simp

lemma record_encoding_inject:
  assumes "length (sr_path a) < 2 ^ 64" "length (sr_path b) < 2 ^ 64"
  shows "record_encoding a = record_encoding b \<longleftrightarrow>
    same_state a b \<and> sr_version a = sr_version b"
  using assms
  by (auto simp: record_encoding_def same_state_def update_sized_append_inject
      content_bytes_append_inject to_le_bytes_inject)

section \<open>Properties\<close>

text \<open>
  The bytes hashed by \<open>SyncRecord::logical_hash\<close> are a canonical form: for accepted paths they
  coincide exactly when the two records have the same state and the same stored version vector, so
  every edit, rename, deletion and causal step changes the hashed bytes.
\<close>
theorem record_encoding_canonical:
  assumes "path_ok (sr_path a)" and "path_ok (sr_path b)"
  shows "record_encoding a = record_encoding b \<longleftrightarrow>
    same_state a b \<and> sr_version a = sr_version b"
  using assms by (intro record_encoding_inject) (auto simp: path_ok_iff)

definition example_record :: "string \<Rightarrow> u8 \<Rightarrow> u64 \<Rightarrow> u8 \<Rightarrow> sync_record" where
  "example_record p replica counter content =
     \<lparr>sr_schema_version = 1, sr_path = p, sr_kind = File, sr_size = 3,
      sr_content_hash = Some (hash_fill content), sr_readonly = False,
      sr_version = fmap_of_list [(hash_fill replica, counter)], sr_tombstone = False\<rparr>"

theorem record_encoding_canonical_witness:
  "record_encoding (example_record ''a.txt'' 1 1 7) \<noteq> record_encoding (example_record ''a.txt'' 1 2 7)"
proof -
  have "path_ok ''a.txt''" by code_simp
  moreover have "fmap_of_list [(hash_fill 1, 1 :: u64)] \<noteq> fmap_of_list [(hash_fill 1, 2)]"
  proof
    assume "fmap_of_list [(hash_fill 1, 1 :: u64)] = fmap_of_list [(hash_fill 1, 2)]"
    then have "vv_get (fmap_of_list [(hash_fill 1, 1)]) (hash_fill 1) =
        vv_get (fmap_of_list [(hash_fill 1, 2)]) (hash_fill 1)" by (rule arg_cong)
    then show False by simp
  qed
  ultimately show ?thesis
    using record_encoding_canonical [of "example_record ''a.txt'' 1 1 7" "example_record ''a.txt'' 1 2 7"]
    by (simp add: example_record_def)
qed

end
