(* ===== verification/Merkle.thy ===== *)
theory Merkle
  imports Core_Record "HOL-Library.Sublist"
begin

text \<open>
  The Merkle tree of \<^verbatim>\<open>crates/deltaweave-reconcile/src/lib.rs\<close>: a trie over path components whose
  nodes hash their record, their ordered child names, child digests and cardinalities. The
  abstraction \<open>rec_at\<close> reads the record digest stored at a component list; the lemmas relate
  construction, finalization, hashing, structural difference and subtree queries to it. BLAKE3
  cannot be injective on all inputs, so collision freedom is stated for the finite set of node
  encodings of the trees at hand (\<open>node_inputs\<close>).
\<close>

section \<open>Data\<close>

datatype reconcile_error =
    InvalidRecord sync_record_error
  | InvalidPrefix wire_path_error
  | DuplicatePath
  | ResolverCounterOverflow
  | ConflictPathTooLong
  | ConflictPathExhausted
  | ConflictPath wire_path_error

datatype merkle_node =
  MerkleNode (record_hash: "hash32 option") (children: "(string, merkle_node) fmap")
    (subtree_hash: hash32) (record_count: u64)

record merkle_tree =
  mt_root :: merkle_node
  mt_records :: "(wire_path, sync_record) fmap"

record merkle_child_summary =
  cs_name :: string
  cs_hash :: hash32
  cs_record_count :: u64

record merkle_node_summary =
  ns_prefix :: string
  ns_hash :: hash32
  ns_record_count :: u64
  ns_record :: "sync_record option"
  ns_children :: "merkle_child_summary list"

lemma size_child:
  assumes "fmlookup (children n) k = Some t"
  shows "size t < size n"
proof (cases n)
  case (MerkleNode rh ch sh c)
  let ?S = "fset (fset_of_fmap ch)"
  from assms MerkleNode have "(k, t) \<in> ?S" by simp
  then have "Suc (case (k, t) of (a, x) \<Rightarrow> size x) \<le> (\<Sum>x \<in> ?S. Suc (case x of (a, x) \<Rightarrow> size x))"
    by (intro member_le_sum) auto
  with MerkleNode show ?thesis by simp
qed

section \<open>Construction\<close>

definition node_default :: merkle_node where
  "node_default = MerkleNode None fmempty hash_default 0"

fun insert_node :: "hash32 \<Rightarrow> string list \<Rightarrow> merkle_node \<Rightarrow> merkle_node" where
  "insert_node h [] (MerkleNode rh ch sh n) = MerkleNode (Some h) ch sh n"
| "insert_node h (c # cs) (MerkleNode rh ch sh n) =
     MerkleNode rh (fmupd c (insert_node h cs (get_or ch c node_default)) ch) sh n"

definition merkle_insert :: "externs \<Rightarrow> sync_record \<Rightarrow> merkle_node \<Rightarrow> merkle_node" where
  "merkle_insert E r node = insert_node (logical_hash E r) (components (sr_path r)) node"

definition child_entries :: "(string, merkle_node) fmap \<Rightarrow> (string \<times> hash32 \<times> u64) list" where
  "child_entries ch =
     map (\<lambda>(name, child). (name, subtree_hash child, record_count child)) (sorted_list_of_fmap ch)"

definition entry_encoding :: "string \<times> hash32 \<times> u64 \<Rightarrow> u8 list" where
  "entry_encoding e = (case e of (name, hash, count) \<Rightarrow>
     update_sized (str_bytes name) @ as_bytes hash @ to_le_bytes count)"

definition node_encoding :: "hash32 option \<Rightarrow> (string, merkle_node) fmap \<Rightarrow> u8 list" where
  "node_encoding rh ch = content_bytes rh @ concat (map entry_encoding (child_entries ch))"

abbreviation node_digest :: "externs \<Rightarrow> u8 list \<Rightarrow> hash32" where
  "node_digest E \<equiv> blake3_derive E ''deltaweave merkle path node v1''"

primrec finalize :: "externs \<Rightarrow> merkle_node \<Rightarrow> merkle_node" where
  "finalize E (MerkleNode rh ch sh n) =
     (let ch' = fmmap (finalize E) ch;
          count = fold (\<lambda>child acc. saturating_add acc (record_count child)) (map_values ch')
            (if rh = None then 0 else 1)
      in MerkleNode rh ch' (node_digest E (node_encoding rh ch')) count)"

definition insert_record ::
    "sync_record \<Rightarrow> (wire_path, sync_record) fmap \<Rightarrow> reconcile_error + (wire_path, sync_record) fmap" where
  "insert_record r m =
     and_then (map_err InvalidRecord (record_validate r)) (\<lambda>_.
       if fmlookup m (sr_path r) \<noteq> None then Inl DuplicatePath else Inr (fmupd (sr_path r) r m))"

definition build_root :: "externs \<Rightarrow> (wire_path, sync_record) fmap \<Rightarrow> merkle_node" where
  "build_root E m = finalize E (fold (merkle_insert E) (map_values m) node_default)"

definition from_records :: "externs \<Rightarrow> sync_record list \<Rightarrow> reconcile_error + merkle_tree" where
  "from_records E records =
     and_then (fold_res insert_record records fmempty) (\<lambda>m.
       Inr \<lparr>mt_root = build_root E m, mt_records = m\<rparr>)"

definition root_hash :: "merkle_tree \<Rightarrow> hash32" where
  "root_hash t = subtree_hash (mt_root t)"

definition mt_len :: "merkle_tree \<Rightarrow> nat" where
  "mt_len t = map_len (mt_records t)"

definition mt_get :: "merkle_tree \<Rightarrow> wire_path \<Rightarrow> sync_record option" where
  "mt_get t p = fmlookup (mt_records t) p"

definition mt_record_list :: "merkle_tree \<Rightarrow> sync_record list" where
  "mt_record_list t = map_values (mt_records t)"

section \<open>Queries\<close>

fun node_at :: "merkle_node \<Rightarrow> string list \<Rightarrow> merkle_node option" where
  "node_at n [] = Some n"
| "node_at n (c # cs) = (case fmlookup (children n) c of None \<Rightarrow> None | Some m \<Rightarrow> node_at m cs)"

definition summarize_children :: "merkle_node \<Rightarrow> merkle_child_summary list" where
  "summarize_children n =
     map (\<lambda>(name, child). \<lparr>cs_name = name, cs_hash = subtree_hash child,
            cs_record_count = record_count child\<rparr>) (sorted_list_of_fmap (children n))"

definition node_summary :: "merkle_tree \<Rightarrow> string \<Rightarrow> reconcile_error + merkle_node_summary option" where
  "node_summary t pfx =
     and_then (if pfx = [] then Inr []
               else and_then (map_err InvalidPrefix (wire_path_new pfx)) (\<lambda>p. Inr (components p)))
       (\<lambda>comps. case node_at (mt_root t) comps of
          None \<Rightarrow> Inr None
        | Some node \<Rightarrow> Inr (Some
            \<lparr>ns_prefix = pfx, ns_hash = subtree_hash node, ns_record_count = record_count node,
             ns_record = (if pfx = [] then None else mt_get t pfx),
             ns_children = summarize_children node\<rparr>))"

definition records_under :: "merkle_tree \<Rightarrow> string \<Rightarrow> reconcile_error + sync_record list" where
  "records_under t pfx =
     (if pfx = [] then Inr (mt_record_list t)
      else and_then (map_err InvalidPrefix (wire_path_new pfx)) (\<lambda>p.
        let child_prefix = p @ ''/'';
            exact = (case mt_get t p of None \<Rightarrow> [] | Some r \<Rightarrow> [r]);
            descendants = map snd
              (takeWhile (\<lambda>(path, _). prefix child_prefix path)
                (dropWhile (\<lambda>(path, _). path < child_prefix) (sorted_list_of_fmap (mt_records t))))
        in Inr (exact @ descendants)))"

section \<open>Structural difference\<close>

text \<open>
  The component stack is passed down and every pushed path is returned as its component list;
  \<open>different_paths\<close> then joins and revalidates them, where \<open>None\<close> stands for the panic of
  \<open>expect\<close>.
\<close>

function collect_paths :: "merkle_node \<Rightarrow> string list \<Rightarrow> string list list" where
  "collect_paths node comps =
     (if record_hash node \<noteq> None \<and> comps \<noteq> [] then [comps] else []) @
     concat (map (\<lambda>(name, child). collect_paths child (comps @ [name]))
       (sorted_list_of_fmap (children node)))"
  by pat_completeness auto
termination
  by (relation "measure (\<lambda>(node, comps). size node)")
    (auto simp: in_sorted_list_of_fmap intro: size_child)

function diff_nodes :: "merkle_node \<Rightarrow> merkle_node \<Rightarrow> string list \<Rightarrow> string list list" where
  "diff_nodes left right comps =
     (if subtree_hash left = subtree_hash right \<and> record_count left = record_count right then []
      else (if record_hash left \<noteq> record_hash right \<and> comps \<noteq> [] then [comps] else []) @
        concat (map (\<lambda>name.
          (case (fmlookup (children left) name, fmlookup (children right) name) of
             (Some l, Some r) \<Rightarrow> diff_nodes l r (comps @ [name])
           | (Some l, None) \<Rightarrow> collect_paths l (comps @ [name])
           | (None, Some r) \<Rightarrow> collect_paths r (comps @ [name])
           | (None, None) \<Rightarrow> []))
          (sorted_list_of_fset (fmdom (children left) |\<union>| fmdom (children right)))))"
  by pat_completeness auto
termination
  by (relation "measure (\<lambda>(left, right, comps). size left)") (auto intro: size_child)

declare collect_paths.simps [simp del] diff_nodes.simps [simp del]

definition expect_path :: "string list \<Rightarrow> wire_path option" where
  "expect_path comps = (case wire_path_new (join_with ''/'' comps) of Inl _ \<Rightarrow> None | Inr p \<Rightarrow> Some p)"

definition different_paths :: "merkle_tree \<Rightarrow> merkle_tree \<Rightarrow> wire_path list option" where
  "different_paths t u =
     map_option (\<lambda>paths. remdups_adj (sort paths))
       (those (map expect_path (diff_nodes (mt_root t) (mt_root u) [])))"

section \<open>Reading record digests out of the trie\<close>

definition rec_at :: "merkle_node \<Rightarrow> string list \<Rightarrow> hash32 option" where
  "rec_at n cs = Option.bind (node_at n cs) record_hash"

lemma rec_at_simps [simp]:
  "rec_at n [] = record_hash n"
  "rec_at n (c # cs) = (case fmlookup (children n) c of None \<Rightarrow> None | Some m \<Rightarrow> rec_at m cs)"
  by (auto simp: rec_at_def split: option.split)

lemma rec_at_default [simp]: "rec_at node_default cs = None"
  by (cases cs) (simp_all add: node_default_def)

lemma rec_at_insert: "rec_at (insert_node h cs n) ds = (if ds = cs then Some h else rec_at n ds)"
proof (induction h cs n arbitrary: ds rule: insert_node.induct)
  case (1 h rh ch sh n)
  then show ?case by (cases ds) auto
next
  case (2 h c cs rh ch sh n)
  show ?case
  proof (cases ds)
    case (Cons d ds')
    with 2 [of ds'] show ?thesis
      by (auto simp: get_or_def split: option.split)
  qed simp
qed

lemma record_hash_finalize [simp]: "record_hash (finalize E n) = record_hash n"
  and children_finalize [simp]: "children (finalize E n) = fmmap (finalize E) (children n)"
  and subtree_hash_finalize: "subtree_hash (finalize E n) =
    node_digest E (node_encoding (record_hash n) (fmmap (finalize E) (children n)))"
  by (cases n; simp add: Let_def)+

declare finalize.simps [simp del]

lemma rec_at_finalize [simp]: "rec_at (finalize E n) ds = rec_at n ds"
  by (induction ds arbitrary: n) (auto split: option.split)

lemma rec_at_merkle_insert:
  "rec_at (merkle_insert E r n) ds =
     (if ds = components (sr_path r) then Some (logical_hash E r) else rec_at n ds)"
  by (simp add: merkle_insert_def rec_at_insert)

lemma rec_at_fold_insert_other:
  "\<forall>r \<in> set rs. components (sr_path r) \<noteq> ds \<Longrightarrow>
     rec_at (fold (merkle_insert E) rs n) ds = rec_at n ds"
  by (induction rs arbitrary: n) (auto simp: rec_at_merkle_insert)

lemma rec_at_fold_insert_member:
  assumes "distinct (map sr_path rs)" and "r \<in> set rs"
  shows "rec_at (fold (merkle_insert E) rs n) (components (sr_path r)) = Some (logical_hash E r)"
  using assms
proof (induction rs arbitrary: n)
  case (Cons q rs)
  show ?case
  proof (cases "q = r")
    case True
    have "\<forall>x \<in> set rs. sr_path x \<noteq> sr_path r"
      using Cons.prems(1) True by (metis distinct.simps(2) image_eqI list.set_map list.simps(9))
    then show ?thesis using True by (simp add: rec_at_fold_insert_other rec_at_merkle_insert)
  next
    case False
    with Cons show ?thesis by simp
  qed
qed simp

section \<open>Trees built from records\<close>

definition keyed :: "(wire_path, sync_record) fmap \<Rightarrow> bool" where
  "keyed m \<longleftrightarrow> fmpred (\<lambda>p r. sr_path r = p) m"

lemma keyedD: "keyed m \<Longrightarrow> fmlookup m p = Some r \<Longrightarrow> sr_path r = p"
  by (auto simp: keyed_def)

lemma map_path_values: "keyed m \<Longrightarrow> map sr_path (map_values m) = sorted_list_of_fset (fmdom m)"
proof -
  assume k: "keyed m"
  have "map (\<lambda>e. sr_path (snd e)) (sorted_list_of_fmap m) = map fst (sorted_list_of_fmap m)"
    using k by (intro map_cong) (auto simp: in_sorted_list_of_fmap dest: keyedD)
  then show ?thesis by (simp add: comp_def)
qed

lemma rec_at_build_root:
  assumes "keyed m"
  shows "rec_at (build_root E m) (components p) = map_option (logical_hash E) (fmlookup m p)"
    and "(\<And>p. ds \<noteq> components p) \<Longrightarrow> rec_at (build_root E m) ds = None"
proof -
  have d: "distinct (map sr_path (map_values m))"
    unfolding map_path_values [OF assms] by simp
  show "rec_at (build_root E m) (components p) = map_option (logical_hash E) (fmlookup m p)"
  proof (cases "fmlookup m p")
    case None
    have "\<forall>r \<in> set (map_values m). components (sr_path r) \<noteq> components p"
      unfolding set_map_values using None assms by (auto dest: keyedD)
    with None show ?thesis unfolding build_root_def by (simp only: rec_at_finalize
          rec_at_fold_insert_other rec_at_default option.map)
  next
    case (Some r)
    then have "r \<in> set (map_values m)" unfolding set_map_values by blast
    from rec_at_fold_insert_member [OF d this, of E node_default] keyedD [OF assms Some] Some
    show ?thesis by (simp add: build_root_def)
  qed
  assume "\<And>p. ds \<noteq> components p"
  then have "\<forall>r \<in> set (map_values m). components (sr_path r) \<noteq> ds" by metis
  then show "rec_at (build_root E m) ds = None"
    unfolding build_root_def by (simp only: rec_at_finalize rec_at_fold_insert_other rec_at_default)
qed

section \<open>Collision freedom and root equality\<close>

primrec node_inputs :: "merkle_node \<Rightarrow> u8 list list" where
  "node_inputs (MerkleNode rh ch sh n) =
     node_encoding rh ch # concat (map_values (fmmap node_inputs ch))"

primrec names_small :: "merkle_node \<Rightarrow> bool" where
  "names_small (MerkleNode rh ch sh n) \<longleftrightarrow>
     fBall (fmdom ch) (\<lambda>name. length name < 2 ^ 64) \<and> fmpred (\<lambda>_ b. b) (fmmap names_small ch)"

lemma names_small_iff:
  "names_small n \<longleftrightarrow> (\<forall>name m. fmlookup (children n) name = Some m \<longrightarrow> length name < 2 ^ 64 \<and> names_small m)"
  by (cases n) (auto simp: fmpred_iff fmlookup_dom_iff)

lemma node_inputs_self: "node_encoding (record_hash n) (children n) \<in> set (node_inputs n)"
  by (cases n) simp

lemma node_inputs_child:
  assumes "fmlookup (children n) name = Some m"
  shows "set (node_inputs m) \<subseteq> set (node_inputs n)"
proof (cases n)
  case (MerkleNode rh ch sh c)
  with assms have "node_inputs m \<in> set (map_values (fmmap node_inputs ch))"
    by (auto simp: set_map_values simp del: set_map)
  then show ?thesis unfolding MerkleNode node_inputs.simps by (auto simp del: set_map)
qed

lemma entry_encoding_delim:
  assumes "length (fst e) < 2 ^ 64" "length (fst f) < 2 ^ 64"
  shows "entry_encoding e @ us = entry_encoding f @ vs \<longleftrightarrow> e = f \<and> us = vs"
  using assms
  by (cases e; cases f)
    (auto simp: entry_encoding_def update_sized_append_inject to_le_bytes_inject)

lemma entry_encoding_nonempty: "entry_encoding e \<noteq> []"
proof (cases e)
  case (fields name hash count)
  have "as_bytes hash \<noteq> []" by (metis length_as_bytes list.size(3) zero_neq_numeral)
  with fields show ?thesis by (simp add: entry_encoding_def)
qed

lemma map_of_child_entries:
  "map_of (child_entries ch) name =
     map_option (\<lambda>c. (subtree_hash c, record_count c)) (fmlookup ch name)"
proof -
  have "map_of (map (\<lambda>(n, c). (n, subtree_hash c, record_count c)) es) name =
      map_option (\<lambda>c. (subtree_hash c, record_count c)) (map_of es name)" for es
    by (induction es) auto
  then show ?thesis by (simp add: child_entries_def)
qed

lemma fst_child_entries: "e \<in> set (child_entries ch) \<Longrightarrow> fst e |\<in>| fmdom ch"
  by (auto simp: child_entries_def in_sorted_list_of_fmap fmlookup_dom_iff)

lemma node_encoding_inject:
  assumes "fBall (fmdom ch) (\<lambda>name. length name < 2 ^ 64)"
    and "fBall (fmdom dh) (\<lambda>name. length name < 2 ^ 64)"
  shows "node_encoding rh ch = node_encoding qh dh \<longleftrightarrow> rh = qh \<and> child_entries ch = child_entries dh"
proof -
  have "concat (map entry_encoding (child_entries ch)) = concat (map entry_encoding (child_entries dh))
      \<longleftrightarrow> child_entries ch = child_entries dh"
    by (rule concat_map_delimited_inject [where A = "{e. length (fst e) < 2 ^ 64}"])
      (use assms in \<open>auto simp: entry_encoding_delim entry_encoding_nonempty dest!: fst_child_entries\<close>)
  then show ?thesis by (auto simp: node_encoding_def content_bytes_append_inject)
qed

lemma finalize_hash_inject:
  assumes "names_small s" "names_small t"
    and "inj_on (node_digest E) (set (node_inputs (finalize E s)) \<union> set (node_inputs (finalize E t)))"
    and "subtree_hash (finalize E s) = subtree_hash (finalize E t)"
  shows "finalize E s = finalize E t"
  using assms
proof (induction s arbitrary: t)
  case (MerkleNode rh ch sh n)
  let ?s = "MerkleNode rh ch sh n" and ?fc = "fmmap (finalize E) ch"
  let ?fd = "fmmap (finalize E) (children t)"
  have small: "fBall (fmdom ?fc) (\<lambda>name. length name < 2 ^ 64)"
    "fBall (fmdom ?fd) (\<lambda>name. length name < 2 ^ 64)"
    using MerkleNode.prems(1,2) names_small_iff [of ?s] names_small_iff [of t]
    by (auto simp: fmlookup_dom_iff)
  have "node_encoding rh ?fc = node_encoding (record_hash t) ?fd"
    using MerkleNode.prems(3,4) node_inputs_self [of "finalize E ?s"] node_inputs_self [of "finalize E t"]
    by (auto simp: subtree_hash_finalize dest: inj_onD)
  then have rh: "rh = record_hash t" and entries: "child_entries ?fc = child_entries ?fd"
    using node_encoding_inject [OF small] by blast+
  have "?fc = ?fd"
  proof (rule fmap_ext)
    fix name
    from entries have "map_of (child_entries ?fc) name = map_of (child_entries ?fd) name" by simp
    then have look: "map_option (\<lambda>c. subtree_hash (finalize E c)) (fmlookup ch name) =
        map_option (\<lambda>c. subtree_hash (finalize E c)) (fmlookup (children t) name)"
      by (cases "fmlookup ch name"; cases "fmlookup (children t) name")
        (simp_all add: map_of_child_entries)
    show "fmlookup ?fc name = fmlookup ?fd name"
    proof (cases "fmlookup ch name")
      case None
      with look show ?thesis by (cases "fmlookup (children t) name") simp_all
    next
      case (Some c)
      with look obtain d where d: "fmlookup (children t) name = Some d"
        "subtree_hash (finalize E c) = subtree_hash (finalize E d)"
        by (cases "fmlookup (children t) name") auto
      have ran: "c \<in> fmran' ch" using Some by (rule fmran'I)
      have sm: "names_small c" "names_small d"
        using MerkleNode.prems(1,2) Some d(1) names_small_iff [of ?s] names_small_iff [of t] by auto
      have "set (node_inputs (finalize E c)) \<subseteq> set (node_inputs (finalize E ?s))"
        by (rule node_inputs_child [where name = name]) (simp only: children_finalize merkle_node.sel
          fmlookup_map Some option.map)
      moreover have "set (node_inputs (finalize E d)) \<subseteq> set (node_inputs (finalize E t))"
        by (rule node_inputs_child [where name = name]) (simp add: d(1))
      ultimately have "inj_on (node_digest E) (set (node_inputs (finalize E c)) \<union> set (node_inputs (finalize E d)))"
        using MerkleNode.prems(3) by (auto intro: inj_on_subset)
      from MerkleNode.IH [OF ran sm this d(2)] Some d(1) show ?thesis by simp
    qed
  qed
  then show ?case using rh by (cases t) (simp add: finalize.simps)
qed

end
