(* ===== verification/Merkle_Diff.thy ===== *)
theory Merkle_Diff
  imports Merkle
begin

text \<open>
  What the Merkle tree is for: building is independent of input order, equal roots mean equal
  snapshots, the structural difference finds exactly the changed paths, and the range-based subtree
  query equals a full scan. Statements about digests assume that BLAKE3 does not collide on the node
  and record encodings of the trees involved.
\<close>

section \<open>Well-formed trees\<close>

definition tree_wf :: "externs \<Rightarrow> merkle_tree \<Rightarrow> bool" where
  "tree_wf E t \<longleftrightarrow> mt_root t = build_root E (mt_records t) \<and>
     fmpred (\<lambda>p r. sr_path r = p \<and> path_ok p \<and> record_ok r) (mt_records t)"

lemma tree_wf_keyed: "tree_wf E t \<Longrightarrow> keyed (mt_records t)"
  by (auto simp: tree_wf_def keyed_def fmpred_iff)

lemma tree_wfD:
  assumes "tree_wf E t" "mt_get t p = Some r"
  shows "sr_path r = p" "path_ok p" "record_ok r"
  using assms by (auto simp: tree_wf_def mt_get_def fmpred_iff)

lemma insert_record_Inr:
  "insert_record r m = Inr m' \<longleftrightarrow>
     record_ok r \<and> fmlookup m (sr_path r) = None \<and> m' = fmupd (sr_path r) r m"
  by (auto simp: insert_record_def result_simps record_ok_def)

lemma insert_records_Inr:
  "fold_res insert_record rs m = Inr m' \<longleftrightarrow>
     (\<forall>r \<in> set rs. record_ok r \<and> fmlookup m (sr_path r) = None) \<and> distinct (map sr_path rs) \<and>
     m' = fold (\<lambda>r. fmupd (sr_path r) r) rs m"
proof (induction rs arbitrary: m)
  case (Cons r rs)
  have "(\<forall>q \<in> set rs. fmlookup (fmupd (sr_path r) r m) (sr_path q) = None) \<longleftrightarrow>
      (\<forall>q \<in> set rs. fmlookup m (sr_path q) = None) \<and> sr_path r \<notin> sr_path ` set rs"
    by (simp add: image_iff) metis
  then show ?case
    unfolding fold_res.simps and_then_Inr_iff insert_record_Inr by (simp add: Cons.IH) blast
qed auto

definition index_records :: "sync_record list \<Rightarrow> (wire_path, sync_record) fmap" where
  "index_records rs = fold (\<lambda>r. fmupd (sr_path r) r) rs fmempty"

lemma lookup_fold_records:
  assumes "distinct (map sr_path rs)"
  shows "fmlookup (fold (\<lambda>r. fmupd (sr_path r) r) rs m) p = Some r \<longleftrightarrow>
    r \<in> set rs \<and> sr_path r = p \<or> p \<notin> sr_path ` set rs \<and> fmlookup m p = Some r"
  using assms
proof (induction rs arbitrary: m)
  case (Cons q rs)
  have new: "sr_path x \<noteq> sr_path q" if "x \<in> set rs" for x
    using Cons.prems that by (metis distinct.simps(2) image_eqI list.set_map list.simps(9))
  have IH: "fmlookup (fold (\<lambda>r. fmupd (sr_path r) r) (q # rs) m) p = Some r \<longleftrightarrow>
      r \<in> set rs \<and> sr_path r = p \<or> p \<notin> sr_path ` set rs \<and> fmlookup (fmupd (sr_path q) q m) p = Some r"
    using Cons by simp
  show ?case
  proof (cases "p = sr_path q")
    case True
    then have "p \<notin> sr_path ` set rs" using new by (metis imageE)
    then have "fmlookup (fold (\<lambda>r. fmupd (sr_path r) r) (q # rs) m) p = Some r \<longleftrightarrow> r = q"
      using IH True new by auto
    then show ?thesis using True new by auto
  next
    case False
    with IH show ?thesis by auto
  qed
qed simp

lemma lookup_index_records:
  assumes "distinct (map sr_path rs)"
  shows "fmlookup (index_records rs) p = Some r \<longleftrightarrow> r \<in> set rs \<and> sr_path r = p"
  using lookup_fold_records [OF assms, of fmempty p r] by (simp add: index_records_def)

lemma from_records_Inr:
  "from_records E rs = Inr t \<longleftrightarrow>
     (\<forall>r \<in> set rs. record_ok r) \<and> distinct (map sr_path rs) \<and>
     t = \<lparr>mt_root = build_root E (index_records rs), mt_records = index_records rs\<rparr>"
  by (auto simp: from_records_def and_then_Inr_iff insert_records_Inr index_records_def)

lemma from_records_wf:
  assumes "from_records E rs = Inr t" and "\<forall>r \<in> set rs. path_ok (sr_path r)"
  shows "tree_wf E t"
  using assms by (auto simp: from_records_Inr tree_wf_def fmpred_iff lookup_index_records)

lemma index_records_perm:
  assumes "distinct (map sr_path rs)" "distinct (map sr_path qs)" "set rs = set qs"
  shows "index_records rs = index_records qs"
proof (rule fmap_ext)
  fix p
  have "fmlookup (index_records rs) p = Some r \<longleftrightarrow> fmlookup (index_records qs) p = Some r" for r
    using assms by (simp add: lookup_index_records)
  then show "fmlookup (index_records rs) p = fmlookup (index_records qs) p"
    by (metis not_None_eq)
qed

section \<open>Component names stay short\<close>

lemma names_small_insert:
  "\<forall>c \<in> set cs. length c < 2 ^ 64 \<Longrightarrow> names_small n \<Longrightarrow> names_small (insert_node h cs n)"
proof (induction h cs n rule: insert_node.induct)
  case (1 h rh ch sh n)
  then show ?case by simp
next
  case (2 h c cs rh ch sh n)
  have "names_small (get_or ch c node_default)"
    using 2(3) names_small_iff [of "MerkleNode rh ch sh n"]
    by (auto simp: get_or_def names_small_iff [of node_default] node_default_def split: option.split)
  with 2 show ?case
    unfolding insert_node.simps names_small_iff [of "MerkleNode _ _ _ _"] by simp
qed

definition raw_root :: "externs \<Rightarrow> (wire_path, sync_record) fmap \<Rightarrow> merkle_node" where
  "raw_root E m = fold (merkle_insert E) (map_values m) node_default"

lemma names_small_fold:
  "\<forall>r \<in> set rs. path_ok (sr_path r) \<Longrightarrow> names_small n \<Longrightarrow> names_small (fold (merkle_insert E) rs n)"
proof (induction rs arbitrary: n)
  case (Cons r rs)
  then have "\<forall>c \<in> set (components (sr_path r)). length c < 2 ^ 64"
    by (fastforce simp: path_ok_iff dest: component_ok_plain(4))
  with Cons show ?case by (simp add: merkle_insert_def names_small_insert)
qed simp

lemma tree_wf_root:
  assumes "tree_wf E t"
  shows "mt_root t = finalize E (raw_root E (mt_records t))" "names_small (raw_root E (mt_records t))"
proof -
  show "mt_root t = finalize E (raw_root E (mt_records t))"
    using assms by (simp add: tree_wf_def build_root_def raw_root_def)
  have "\<forall>r \<in> set (map_values (mt_records t)). path_ok (sr_path r)"
    unfolding set_map_values using assms by (auto simp: tree_wf_def fmpred_iff)
  then show "names_small (raw_root E (mt_records t))"
    unfolding raw_root_def by (rule names_small_fold) (simp add: node_default_def)
qed

lemma rec_at_tree:
  assumes "tree_wf E t"
  shows "rec_at (mt_root t) (components p) = map_option (logical_hash E) (mt_get t p)"
    and "(\<And>p. ds \<noteq> components p) \<Longrightarrow> rec_at (mt_root t) ds = None"
  using assms rec_at_build_root [OF tree_wf_keyed [OF assms], where E = E]
  by (simp_all add: tree_wf_def mt_get_def)

section \<open>The difference of two tries\<close>

lemma stacked_paths_split:
  "{comps @ ds | ds. P ds \<and> comps @ ds \<noteq> []} =
     (if P [] \<and> comps \<noteq> [] then {comps} else {}) \<union>
     (\<Union>name. {(comps @ [name]) @ ds | ds. P (name # ds) \<and> (comps @ [name]) @ ds \<noteq> []})"
proof -
  have "x \<in> {comps @ ds | ds. P ds \<and> comps @ ds \<noteq> []} \<longleftrightarrow>
      (P [] \<and> comps \<noteq> [] \<and> x = comps) \<or> (\<exists>name ds. P (name # ds) \<and> x = comps @ name # ds)" for x
  proof
    assume "x \<in> {comps @ ds | ds. P ds \<and> comps @ ds \<noteq> []}"
    then obtain ds where "x = comps @ ds" "P ds" "comps @ ds \<noteq> []" by blast
    then show "(P [] \<and> comps \<noteq> [] \<and> x = comps) \<or> (\<exists>name ds. P (name # ds) \<and> x = comps @ name # ds)"
      by (cases ds) auto
  next
    assume "(P [] \<and> comps \<noteq> [] \<and> x = comps) \<or> (\<exists>name ds. P (name # ds) \<and> x = comps @ name # ds)"
    then show "x \<in> {comps @ ds | ds. P ds \<and> comps @ ds \<noteq> []}"
    proof (elim disjE exE conjE)
      assume "P []" "comps \<noteq> []" "x = comps"
      then show ?thesis by (intro CollectI exI [of _ "[]"]) simp
    next
      fix name ds assume "P (name # ds)" "x = comps @ name # ds"
      then show ?thesis by (intro CollectI exI [of _ "name # ds"]) simp
    qed
  qed
  then show ?thesis by auto
qed

lemma set_collect_paths:
  "set (collect_paths node comps) = {comps @ ds | ds. rec_at node ds \<noteq> None \<and> comps @ ds \<noteq> []}"
proof (induction node comps rule: collect_paths.induct)
  case (1 node comps)
  let ?child = "\<lambda>name. {(comps @ [name]) @ ds | ds. rec_at node (name # ds) \<noteq> None \<and> (comps @ [name]) @ ds \<noteq> []}"
  have child: "set (collect_paths child (comps @ [name])) = ?child name"
    if "(name, child) \<in> set (sorted_list_of_fmap (children node))" for name child
    using 1 [OF that refl] that by (simp add: in_sorted_list_of_fmap)
  have "(\<Union>name. ?child name) = (\<Union>(name, child) \<in> set (sorted_list_of_fmap (children node)). ?child name)"
    by (force simp: in_sorted_list_of_fmap split: option.splits)
  also have "\<dots> = (\<Union>(name, child) \<in> set (sorted_list_of_fmap (children node)).
      set (collect_paths child (comps @ [name])))"
    using child by (intro SUP_cong) auto
  finally show ?case
    unfolding stacked_paths_split [of comps "\<lambda>ds. rec_at node ds \<noteq> None"]
      collect_paths.simps [of node comps] by (auto simp: case_prod_unfold)
qed


definition diff_set :: "merkle_node \<Rightarrow> merkle_node \<Rightarrow> string list \<Rightarrow> string list set" where
  "diff_set s t comps = {comps @ ds | ds. rec_at s ds \<noteq> rec_at t ds \<and> comps @ ds \<noteq> []}"

lemma diff_set_child:
  assumes "fmlookup (children s) name = cs" "fmlookup (children t) name = ct"
  shows "{(comps @ [name]) @ ds | ds. rec_at s (name # ds) \<noteq> rec_at t (name # ds) \<and> (comps @ [name]) @ ds \<noteq> []} =
    (case (cs, ct) of
       (Some l, Some r) \<Rightarrow> diff_set l r (comps @ [name])
     | (Some l, None) \<Rightarrow> set (collect_paths l (comps @ [name]))
     | (None, Some r) \<Rightarrow> set (collect_paths r (comps @ [name]))
     | (None, None) \<Rightarrow> {})"
  using assms unfolding set_collect_paths
  by (cases cs; cases ct) (auto simp: diff_set_def, metis option.exhaust)

lemma diff_set_unfold:
  "diff_set s t comps =
     (if record_hash s \<noteq> record_hash t \<and> comps \<noteq> [] then {comps} else {}) \<union>
     (\<Union>name. (case (fmlookup (children s) name, fmlookup (children t) name) of
         (Some l, Some r) \<Rightarrow> diff_set l r (comps @ [name])
       | (Some l, None) \<Rightarrow> set (collect_paths l (comps @ [name]))
       | (None, Some r) \<Rightarrow> set (collect_paths r (comps @ [name]))
       | (None, None) \<Rightarrow> {}))"
  unfolding diff_set_def stacked_paths_split [of comps "\<lambda>ds. rec_at s ds \<noteq> rec_at t ds"]
    diff_set_child [OF refl refl, unfolded diff_set_def] by simp

abbreviation pair_inputs :: "merkle_node \<Rightarrow> merkle_node \<Rightarrow> u8 list set" where
  "pair_inputs s t \<equiv> set (node_inputs s) \<union> set (node_inputs t)"

lemma set_diff_nodes:
  assumes "names_small s" "names_small t"
    and "inj_on (node_digest E) (pair_inputs (finalize E s) (finalize E t))"
  shows "set (diff_nodes (finalize E s) (finalize E t) comps) = diff_set (finalize E s) (finalize E t) comps"
  using assms
proof (induction s arbitrary: t comps)
  case (MerkleNode rh ch sh n)
  let ?s = "MerkleNode rh ch sh n"
  let ?S = "finalize E ?s" and ?T = "finalize E t"
  show ?case
  proof (cases "subtree_hash ?S = subtree_hash ?T \<and> record_count ?S = record_count ?T")
    case True
    then have "?S = ?T" using finalize_hash_inject [OF MerkleNode.prems] by blast
    then show ?thesis using True by (simp add: diff_nodes.simps [of ?T ?T] diff_set_def)
  next
    case False
    let ?body = "\<lambda>name. (case (fmlookup (children ?S) name, fmlookup (children ?T) name) of
             (Some l, Some r) \<Rightarrow> diff_nodes l r (comps @ [name])
           | (Some l, None) \<Rightarrow> collect_paths l (comps @ [name])
           | (None, Some r) \<Rightarrow> collect_paths r (comps @ [name])
           | (None, None) \<Rightarrow> [])"
    let ?spec = "\<lambda>name. (case (fmlookup (children ?S) name, fmlookup (children ?T) name) of
         (Some l, Some r) \<Rightarrow> diff_set l r (comps @ [name])
       | (Some l, None) \<Rightarrow> set (collect_paths l (comps @ [name]))
       | (None, Some r) \<Rightarrow> set (collect_paths r (comps @ [name]))
       | (None, None) \<Rightarrow> {})"
    let ?names = "fmdom (children ?S) |\<union>| fmdom (children ?T)"
    have step: "set (?body name) = ?spec name" for name
    proof (cases "fmlookup ch name"; cases "fmlookup (children t) name")
      fix c d assume c: "fmlookup ch name = Some c" and d: "fmlookup (children t) name = Some d"
      have "names_small c" "names_small d"
        using MerkleNode.prems(1,2) c d names_small_iff [of ?s] names_small_iff [of t] by auto
      moreover have "set (node_inputs (finalize E c)) \<subseteq> set (node_inputs ?S)"
        by (rule node_inputs_child [where name = name]) (simp add: c)
      moreover have "set (node_inputs (finalize E d)) \<subseteq> set (node_inputs ?T)"
        by (rule node_inputs_child [where name = name]) (simp add: d)
      ultimately have "set (diff_nodes (finalize E c) (finalize E d) (comps @ [name])) =
          diff_set (finalize E c) (finalize E d) (comps @ [name])"
        using MerkleNode.prems(3) fmran'I [OF c]
        by (intro MerkleNode.IH) (auto intro: inj_on_subset)
      with c d show ?thesis by simp
    qed simp_all
    have out: "?spec name = {}" if "name |\<notin>| ?names" for name
      using that by (simp add: fmdom_notD)
    have "set (diff_nodes ?S ?T comps) =
        (if record_hash ?S \<noteq> record_hash ?T \<and> comps \<noteq> [] then {comps} else {}) \<union>
        (\<Union>name \<in> fset ?names. set (?body name))"
      using False unfolding diff_nodes.simps [of ?S ?T comps] by (simp only: if_False set_append
          set_concat set_map sorted_list_of_fset_simps image_image if_distrib list.set split: if_split) auto
    also have "(\<Union>name \<in> fset ?names. set (?body name)) = (\<Union>name. ?spec name)"
      using out by (simp only: step) blast
    finally show ?thesis by (simp only: diff_set_unfold [of ?S ?T])
  qed
qed


section \<open>Snapshots\<close>

text \<open>BLAKE3 does not collide on the encodings of two snapshots: their nodes, and their records.\<close>

abbreviation record_digest :: "externs \<Rightarrow> u8 list \<Rightarrow> hash32" where
  "record_digest E \<equiv> blake3_derive E ''deltaweave sync record v1''"

definition tree_records :: "merkle_tree \<Rightarrow> sync_record set" where
  "tree_records t = {r. \<exists>p. mt_get t p = Some r}"

definition no_collision :: "externs \<Rightarrow> merkle_tree \<Rightarrow> merkle_tree \<Rightarrow> bool" where
  "no_collision E t u \<longleftrightarrow>
     inj_on (node_digest E) (pair_inputs (mt_root t) (mt_root u)) \<and>
     inj_on (record_digest E) (record_encoding ` (tree_records t \<union> tree_records u))"

lemma logical_hash_eq_iff:
  assumes "no_collision E t u" "tree_wf E t" "tree_wf E u" "a \<in> tree_records t" "b \<in> tree_records u"
  shows "logical_hash E a = logical_hash E b \<longleftrightarrow> a = b"
proof
  assume "logical_hash E a = logical_hash E b"
  with assms(1,4,5) have enc: "record_encoding a = record_encoding b"
    by (auto simp: no_collision_def logical_hash_def dest: inj_onD)
  have a: "path_ok (sr_path a)" "record_ok a" and b: "path_ok (sr_path b)" "record_ok b"
    using assms tree_wfD by (auto simp: tree_records_def)
  then have "same_state a b" "sr_version a = sr_version b"
    using enc record_encoding_inject [of a b] by (auto simp: path_ok_iff)
  with a(2) b(2) show "a = b" by (auto intro: sync_record_eqI simp: record_ok_iff)
qed simp

lemma rec_at_differs_iff:
  assumes "no_collision E t u" "tree_wf E t" "tree_wf E u"
  shows "rec_at (mt_root t) (components p) \<noteq> rec_at (mt_root u) (components p) \<longleftrightarrow> mt_get t p \<noteq> mt_get u p"
  unfolding rec_at_tree(1) [OF assms(2)] rec_at_tree(1) [OF assms(3)]
  using logical_hash_eq_iff [OF assms]
  by (cases "mt_get t p"; cases "mt_get u p") (auto simp: tree_records_def)

lemma diff_roots:
  assumes "no_collision E t u" "tree_wf E t" "tree_wf E u"
  shows "set (diff_nodes (mt_root t) (mt_root u) []) = components ` {p. mt_get t p \<noteq> mt_get u p}"
proof -
  have "set (diff_nodes (mt_root t) (mt_root u) []) = diff_set (mt_root t) (mt_root u) []"
    using assms(1) unfolding no_collision_def
      tree_wf_root(1) [OF assms(2)] tree_wf_root(1) [OF assms(3)]
    by (intro set_diff_nodes tree_wf_root(2) assms(2,3)) simp_all
  also have "\<dots> = {ds. rec_at (mt_root t) ds \<noteq> rec_at (mt_root u) ds \<and> ds \<noteq> []}"
    by (simp add: diff_set_def)
  also have "\<dots> = components ` {p. mt_get t p \<noteq> mt_get u p}"
  proof (rule set_eqI)
    fix ds
    show "ds \<in> {ds. rec_at (mt_root t) ds \<noteq> rec_at (mt_root u) ds \<and> ds \<noteq> []} \<longleftrightarrow>
        ds \<in> components ` {p. mt_get t p \<noteq> mt_get u p}"
    proof (cases "\<exists>p. ds = components p")
      case True
      then obtain p where p: "ds = components p" by blast
      show ?thesis unfolding p using rec_at_differs_iff [OF assms, of p] by (simp add: image_iff)
    next
      case False
      then show ?thesis
        using rec_at_tree(2) [OF assms(2), of ds] rec_at_tree(2) [OF assms(3), of ds] by auto
    qed
  qed
  finally show ?thesis .
qed

lemma those_map_Some: "\<forall>x \<in> set xs. f x = Some (g x) \<Longrightarrow> those (map f xs) = Some (map g xs)"
  by (induction xs) auto

lemma different_paths_eq:
  assumes "no_collision E t u" "tree_wf E t" "tree_wf E u"
  shows "different_paths t u = Some (sorted_list_of_set {p. mt_get t p \<noteq> mt_get u p})"
proof -
  let ?ds = "diff_nodes (mt_root t) (mt_root u) []" and ?D = "{p. mt_get t p \<noteq> mt_get u p}"
  have "expect_path ds = Some (join_with ''/'' ds)" if ds: "ds \<in> set ?ds" for ds
  proof -
    obtain p where p: "ds = components p" "mt_get t p \<noteq> mt_get u p"
      using ds unfolding diff_roots [OF assms] by blast
    then have "path_ok p"
      using tree_wfD(2) [OF assms(2), of p] tree_wfD(2) [OF assms(3), of p]
      by (cases "mt_get t p"; cases "mt_get u p") auto
    then have "wire_path_new p = Inr p" by (simp add: wire_path_new_Inr_iff)
    with p show ?thesis by (simp add: expect_path_def)
  qed
  then have "those (map expect_path ?ds) = Some (map (join_with ''/'') ?ds)"
    by (intro those_map_Some) blast
  moreover have "set (map (join_with ''/'') ?ds) = ?D"
    by (simp add: diff_roots [OF assms] image_image)
  ultimately show ?thesis by (simp add: different_paths_def remdups_adj_sort)
qed

lemma root_hash_eq_iff:
  assumes "no_collision E t u" "tree_wf E t" "tree_wf E u"
  shows "root_hash t = root_hash u \<longleftrightarrow> mt_records t = mt_records u"
proof
  assume "root_hash t = root_hash u"
  then have eq: "mt_root t = mt_root u"
    using assms(1) unfolding root_hash_def no_collision_def
      tree_wf_root(1) [OF assms(2)] tree_wf_root(1) [OF assms(3)]
    by (intro finalize_hash_inject tree_wf_root(2) assms(2,3)) simp_all
  have "mt_get t p = mt_get u p" for p
    using rec_at_differs_iff [OF assms, of p] eq by simp
  then show "mt_records t = mt_records u"
    by (intro fmap_ext) (simp add: mt_get_def)
next
  assume "mt_records t = mt_records u"
  with assms(2,3) show "root_hash t = root_hash u"
    by (simp add: tree_wf_def root_hash_def)
qed

section \<open>Range scans over the ordered record map\<close>

lemma range_scan_eq_filter:
  fixes c :: "'a :: linorder"
  assumes "sorted (map f es)"
    and below: "\<And>x. P x \<Longrightarrow> c \<le> x"
    and convex: "\<And>x y. c \<le> x \<Longrightarrow> x \<le> y \<Longrightarrow> P y \<Longrightarrow> P x"
  shows "takeWhile (\<lambda>e. P (f e)) (dropWhile (\<lambda>e. f e < c) es) = filter (\<lambda>e. P (f e)) es"
  using assms(1)
proof (induction es)
  case (Cons e es)
  show ?case
  proof (cases "f e < c")
    case True
    then have "\<not> P (f e)" using below by (meson not_le)
    with True Cons show ?thesis by simp
  next
    case False
    have ge: "c \<le> f x" "f e \<le> f x" if "x \<in> set es" for x
      using False Cons.prems that by force+
    then have "dropWhile (\<lambda>e. f e < c) es = es"
      by (cases es) (auto simp: not_less)
    moreover have "filter (\<lambda>e. P (f e)) es = []" if "\<not> P (f e)"
      using that ge convex [of "f e"] False by (metis filter_False not_le)
    ultimately show ?thesis using False Cons by auto
  qed
qed simp

lemma prefix_lexicographic:
  fixes c x y :: "'a :: linorder list"
  shows "prefix c y \<Longrightarrow> c \<le> y"
    and "c \<le> x \<Longrightarrow> x \<le> y \<Longrightarrow> prefix c y \<Longrightarrow> prefix c x"
proof -
  show "prefix c y \<Longrightarrow> c \<le> y" for c y :: "'a list"
    by (induction c arbitrary: y) (auto simp: prefix_def)
  show "c \<le> x \<Longrightarrow> x \<le> y \<Longrightarrow> prefix c y \<Longrightarrow> prefix c x"
  proof (induction c arbitrary: x y)
    case (Cons a c)
    then obtain y' where y: "y = a # y'" "prefix c y'" by (cases y) auto
    from Cons.prems(1) obtain b x' where x: "x = b # x'" by (cases x) auto
    with Cons.prems y have "b = a" "c \<le> x'" "x' \<le> y'" by auto
    with Cons.IH [of x' y'] x y show ?case by simp
  qed simp
qed

lemma filter_first_or:
  assumes "sorted_wrt (<) (map f es)" and "\<And>x. P x \<Longrightarrow> (a :: 'a :: linorder) < x"
  shows "filter (\<lambda>e. f e = a \<or> P (f e)) es =
    filter (\<lambda>e. f e = a) es @ filter (\<lambda>e. P (f e)) es"
  using assms(1)
proof (induction es)
  case (Cons e es)
  have "filter (\<lambda>e. f e = a) es = []" if "P (f e)"
    using that assms(2) Cons.prems by (fastforce simp: filter_empty_conv)
  moreover have "f e \<noteq> a" if "P (f e)" using that assms(2) by force
  ultimately show ?case using Cons by auto
qed simp

lemma filter_key_eq:
  assumes "distinct (map fst es)"
  shows "map snd (filter (\<lambda>e. fst e = a) es) = (case map_of es a of None \<Rightarrow> [] | Some v \<Rightarrow> [v])"
  using assms
proof (induction es)
  case (Cons e es)
  have "map_of es (fst e) = None" using Cons.prems by (simp add: map_of_eq_None_iff)
  with Cons show ?case by (cases e) (auto split: option.split)
qed simp

definition beneath :: "string \<Rightarrow> wire_path \<Rightarrow> bool" where
  "beneath pfx p \<longleftrightarrow> pfx = [] \<or> p = pfx \<or> prefix (pfx @ ''/'') p"

lemma records_under_eq:
  assumes "tree_wf E t" "pfx = [] \<or> path_ok pfx"
  shows "records_under t pfx = Inr (filter (\<lambda>r. beneath pfx (sr_path r)) (mt_record_list t))"
proof (cases "pfx = []")
  case True
  then show ?thesis by (simp add: records_under_def beneath_def)
next
  case False
  with assms(2) have new: "wire_path_new pfx = Inr pfx" by (simp add: wire_path_new_Inr_iff)
  let ?es = "sorted_list_of_fmap (mt_records t)" and ?c = "pfx @ ''/''"
  have srt: "sorted_wrt (<) (map fst ?es)" "sorted (map fst ?es)" "distinct (map fst ?es)"
    by (simp_all add: strict_sorted_iff)
  have scan: "takeWhile (\<lambda>e. prefix ?c (fst e)) (dropWhile (\<lambda>e. fst e < ?c) ?es) =
      filter (\<lambda>e. prefix ?c (fst e)) ?es"
    by (rule range_scan_eq_filter) (auto intro: prefix_lexicographic srt(2))
  have gt: "pfx < x" if "prefix ?c x" for x
  proof -
    have "prefix pfx x" "pfx \<noteq> x" using that by (auto simp: prefix_def)
    then show ?thesis using prefix_lexicographic(1) [of pfx x] by simp
  qed
  have first: "filter (\<lambda>e. fst e = pfx \<or> prefix ?c (fst e)) ?es =
      filter (\<lambda>e. fst e = pfx) ?es @ filter (\<lambda>e. prefix ?c (fst e)) ?es"
    by (rule filter_first_or [OF srt(1)]) (rule gt)
  have keys: "sr_path (snd e) = fst e" if "e \<in> set ?es" for e
    using that tree_wfD(1) [OF assms(1), of "fst e" "snd e"]
    by (metis in_sorted_list_of_fmap mt_get_def prod.collapse)
  have "filter (\<lambda>r. beneath pfx (sr_path r)) (mt_record_list t) =
      map snd (filter (\<lambda>e. beneath pfx (sr_path (snd e))) ?es)"
    by (simp add: mt_record_list_def filter_map comp_def)
  also have "filter (\<lambda>e. beneath pfx (sr_path (snd e))) ?es =
      filter (\<lambda>e. fst e = pfx \<or> prefix ?c (fst e)) ?es"
    by (rule filter_cong) (use False keys in \<open>auto simp: beneath_def\<close>)
  also have "map snd \<dots> = (case mt_get t pfx of None \<Rightarrow> [] | Some r \<Rightarrow> [r]) @
      map snd (filter (\<lambda>e. prefix ?c (fst e)) ?es)"
    unfolding first map_append filter_key_eq [OF srt(3)] by (simp add: mt_get_def)
  finally show ?thesis
    using False scan by (simp add: records_under_def new result_simps case_prod_unfold)
qed

section \<open>Properties\<close>

lemma lookup_from_records:
  assumes "from_records E rs = Inr t"
  shows "mt_get t p = Some r \<longleftrightarrow> r \<in> set rs \<and> sr_path r = p"
  using assms by (auto simp: from_records_Inr mt_get_def lookup_index_records)

lemma from_records_same_map:
  assumes "from_records E rs = Inr t" "from_records E qs = Inr u"
  shows "mt_records t = mt_records u \<longleftrightarrow> set rs = set qs"
proof
  assume "mt_records t = mt_records u"
  then have "mt_get t p = mt_get u p" for p by (simp add: mt_get_def)
  then show "set rs = set qs"
    using lookup_from_records [OF assms(1)] lookup_from_records [OF assms(2)] by (metis subsetI subset_antisym)
next
  assume "set rs = set qs"
  with assms show "mt_records t = mt_records u"
    by (auto simp: from_records_Inr intro: index_records_perm)
qed

text \<open>
  C20: Two snapshots built by \<open>MerkleTree::from_records\<close> from valid paths have the same root hash
  exactly when they hold the same set of records, whatever the order the records were supplied in,
  provided BLAKE3 does not collide on the node and record encodings of the two trees.
\<close>

theorem root_hash_identifies_snapshot:
  assumes "from_records E rs = Inr t" "from_records E qs = Inr u"
    and "\<forall>r \<in> set rs \<union> set qs. path_ok (sr_path r)"
    and "no_collision E t u"
  shows "root_hash t = root_hash u \<longleftrightarrow> set rs = set qs"
  using root_hash_eq_iff [OF assms(4)] assms(1,2,3) from_records_same_map [OF assms(1,2)]
  by (auto simp: from_records_wf)

text \<open>
  A digest that separates inputs of different length: enough for the two small snapshots below,
  whose node encodings have lengths 1, 33 and 50.
\<close>

definition length_digest :: externs where
  "length_digest = ref_hex (\<lambda>bs. hash_fill (of_nat (length bs))) (\<lambda>_ bs. hash_fill (of_nat (length bs)))"

abbreviation example_a :: sync_record where
  "example_a \<equiv> example_record ''a'' 1 1 7"

definition empty_tree :: merkle_tree where
  "empty_tree = \<lparr>mt_root = build_root length_digest (index_records []), mt_records = index_records []\<rparr>"

definition one_tree :: merkle_tree where
  "one_tree = \<lparr>mt_root = build_root length_digest (index_records [example_a]),
     mt_records = index_records [example_a]\<rparr>"

lemma example_a_ok: "path_ok (sr_path example_a)" "record_ok example_a"
proof -
  have "path_ok ''a''" by code_simp
  then show "path_ok (sr_path example_a)" by (simp add: example_record_def)
  show "record_ok example_a" by (simp add: record_ok_iff example_record_def)
qed

lemma example_trees:
  "from_records length_digest [] = Inr empty_tree" "from_records length_digest [example_a] = Inr one_tree"
  by (simp_all add: from_records_Inr empty_tree_def one_tree_def example_a_ok(2))

lemma fmmap_single: "fmmap f (fmupd k v fmempty) = fmupd k (f v) fmempty"
  by (rule fmap_ext) simp

lemma example_no_collision: "no_collision length_digest empty_tree one_tree"
proof -
  have root: "mt_root empty_tree = finalize length_digest node_default"
    "mt_root one_tree = finalize length_digest (MerkleNode None
       (fmupd ''a'' (MerkleNode (Some (logical_hash length_digest example_a)) fmempty hash_default 0) fmempty)
       hash_default 0)"
    by (simp_all add: empty_tree_def one_tree_def build_root_def index_records_def merkle_insert_def
        example_record_def components_def node_default_def get_or_def)
  have "map length (node_inputs (mt_root empty_tree)) = [1]"
    by (simp add: root node_default_def finalize.simps node_encoding_def content_bytes_def child_entries_def)
  moreover have "map length (node_inputs (mt_root one_tree)) = [50, 33]"
    by (simp add: root finalize.simps node_encoding_def content_bytes_def child_entries_def
        entry_encoding_def update_sized_def Let_def fmmap_single)
  ultimately obtain a b c where abc: "node_inputs (mt_root empty_tree) = [a]"
    "node_inputs (mt_root one_tree) = [b, c]" "length a = 1" "length b = 50" "length c = 33"
    by (auto simp: map_eq_Cons_conv)
  then have "inj_on (node_digest length_digest) (pair_inputs (mt_root empty_tree) (mt_root one_tree))"
    by (auto simp: length_digest_def ref_hex_def inj_on_def)
  moreover have "tree_records empty_tree = {}" "tree_records one_tree = {example_a}"
    using lookup_from_records [OF example_trees(1)] lookup_from_records [OF example_trees(2)]
    by (auto simp: tree_records_def)
  ultimately show ?thesis by (simp add: no_collision_def)
qed

theorem root_hash_identifies_snapshot_witness:
  "root_hash empty_tree \<noteq> root_hash one_tree"
  using root_hash_identifies_snapshot [OF example_trees _ example_no_collision] example_a_ok by simp

text \<open>
  C19: \<open>MerkleTree::different_paths\<close> returns, sorted and without duplicates, exactly the paths at which
  the two snapshots hold different records or only one of them holds a record; it never panics on
  the path it rebuilds from the component stack, although it prunes every subtree whose digest and
  cardinality agree.
\<close>

theorem different_paths_exact:
  assumes "from_records E rs = Inr t" "from_records E qs = Inr u"
    and "\<forall>r \<in> set rs \<union> set qs. path_ok (sr_path r)"
    and "no_collision E t u"
  shows "different_paths t u = Some (sorted_list_of_set {p. mt_get t p \<noteq> mt_get u p})"
  using different_paths_eq [OF assms(4)] assms(1,2,3) by (simp add: from_records_wf)

theorem different_paths_exact_witness: "different_paths empty_tree one_tree = Some [''a'']"
proof -
  have get: "mt_get empty_tree p = None" "mt_get one_tree p = (if p = ''a'' then Some example_a else None)" for p
    by (simp_all add: mt_get_def empty_tree_def one_tree_def index_records_def example_record_def)
  have "different_paths empty_tree one_tree =
      Some (sorted_list_of_set {p. mt_get empty_tree p \<noteq> mt_get one_tree p})"
    by (rule different_paths_exact [OF example_trees _ example_no_collision]) (simp add: example_a_ok)
  then show ?thesis by (simp add: get)
qed

text \<open>
  \<open>MerkleTree::records_under\<close> answers a subtree query by a lookup and one range scan of the
  ordered record map; the answer is the canonical full scan filtered to the path itself and the paths
  below it at a component boundary, so siblings that merely share a textual prefix are left out.
\<close>

theorem records_under_full_scan:
  assumes "from_records E rs = Inr t" "\<forall>r \<in> set rs. path_ok (sr_path r)"
    and "wire_path_new pfx = Inr p"
  shows "records_under t pfx =
    Inr (filter (\<lambda>r. sr_path r = p \<or> prefix (p @ ''/'') (sr_path r)) (mt_record_list t))"
proof -
  from assms(3) have p: "p = pfx" "path_ok pfx" by (auto simp: wire_path_new_Inr_iff)
  then have "pfx \<noteq> []" by (auto simp: path_ok_iff)
  with p records_under_eq [OF from_records_wf [OF assms(1,2)], of pfx] show ?thesis
    by (simp add: beneath_def)
qed

theorem records_under_full_scan_witness:
  "records_under one_tree ''a'' = Inr [example_a]"
proof -
  have "wire_path_new ''a'' = Inr ''a''" by code_simp
  from records_under_full_scan [OF example_trees(2) _ this] example_a_ok(1) show ?thesis
    by (simp add: mt_record_list_def one_tree_def index_records_def) (simp add: example_record_def)
qed

end
