(* ===== verification/Merge.thy ===== *)
theory Merge
  imports Merkle_Diff
begin

text \<open>
  The causal merge of \<^verbatim>\<open>crates/deltaweave-reconcile/src/lib.rs\<close>: \<open>merge_snapshots\<close> with its fast path
  and its per-path loop, deterministic conflict resolution, the allocation of portable conflict
  names, and \<open>actions_to_reach\<close>. The loop threads the occupied names, the merged map, the audit
  entries and the counters of the source as one \<open>merge_state\<close>.
\<close>

section \<open>Data\<close>

datatype conflict_reason = ConcurrentEdit | EqualClockDivergence

record conflict_record =
  cr_path :: wire_path
  cr_conflict_path :: "wire_path option"
  cr_winner_hash :: hash32
  cr_loser_hash :: hash32
  cr_reason :: conflict_reason

record merge_stats =
  equal_count :: nat
  selected_left :: nat
  selected_right :: nat
  conflict_count :: nat
  conflict_copies :: nat

record merge_result =
  mr_records :: "sync_record list"
  mr_conflicts :: "conflict_record list"
  mr_stats :: merge_stats

datatype apply_action = Materialize sync_record | Delete sync_record

record merge_state =
  ms_occupied :: "wire_path fset"
  ms_merged :: "(wire_path, sync_record) fmap"
  ms_conflicts :: "conflict_record list"
  ms_stats :: merge_stats

definition zero_stats :: merge_stats where
  "zero_stats = \<lparr>equal_count = 0, selected_left = 0, selected_right = 0, conflict_count = 0,
     conflict_copies = 0\<rparr>"

section \<open>Portable conflict names\<close>

text \<open>Searches from the right, as \<open>str::rsplit_once\<close> and \<open>str::rfind\<close>.\<close>

definition rsplit_once :: "char \<Rightarrow> string \<Rightarrow> (string \<times> string) option" where
  "rsplit_once c s = (if c \<in> set s
     then Some (rev (tl (dropWhile (\<lambda>d. d \<noteq> c) (rev s))), rev (takeWhile (\<lambda>d. d \<noteq> c) (rev s)))
     else None)"

definition rfind :: "char \<Rightarrow> string \<Rightarrow> nat option" where
  "rfind c s = map_option (\<lambda>(front, _). length front) (rsplit_once c s)"

fun decimal :: "nat \<Rightarrow> string" where
  "decimal n = (if n < 10 then [char_of (48 + n)] else decimal (n div 10) @ [char_of (48 + n mod 10)])"

declare decimal.simps [simp del]

definition is_char_boundary :: "string \<Rightarrow> nat \<Rightarrow> bool" where
  "is_char_boundary s i \<longleftrightarrow> i = 0 \<or> i = length s \<or>
     i < length s \<and> \<not> (128 \<le> byte_of (s ! i) \<and> byte_of (s ! i) < 192)"

primrec floor_boundary :: "string \<Rightarrow> nat \<Rightarrow> nat" where
  "floor_boundary s 0 = 0"
| "floor_boundary s (Suc n) = (if is_char_boundary s (Suc n) then Suc n else floor_boundary s n)"

definition truncate_utf8 :: "string \<Rightarrow> nat \<Rightarrow> string" where
  "truncate_utf8 value maximum_bytes =
     (if length value \<le> maximum_bytes then value else take (floor_boundary value maximum_bytes) value)"

definition split_extension :: "string \<Rightarrow> string \<times> string" where
  "split_extension name = (case rfind (CHR ''.'') name of
     Some index \<Rightarrow> if 0 < index then (take index name, drop index name) else (name, [])
   | None \<Rightarrow> (name, []))"

definition build_conflict_path :: "wire_path \<Rightarrow> string \<Rightarrow> nat option \<Rightarrow> reconcile_error + wire_path" where
  "build_conflict_path original token counter =
     (let (parent, name) = (case rsplit_once (CHR ''/'') original of
            None \<Rightarrow> (None, original) | Some (parent, name) \<Rightarrow> (Some parent, name));
          (stem, extension) = split_extension name;
          serial = (case counter of None \<Rightarrow> [] | Some value \<Rightarrow> ''-'' @ decimal value);
          suffix = ''.conflict-'' @ token @ serial;
          parent_bytes = (case parent of None \<Rightarrow> 0 | Some value \<Rightarrow> length value + 1)
      in if 4096 < parent_bytes then Inl ConflictPathTooLong
      else let component_budget = min (4096 - parent_bytes) 255
      in if component_budget \<le> length suffix then Inl ConflictPathTooLong
      else let extension = (if length suffix + length extension < component_budget then extension else []);
               stem_budget = component_budget - length suffix - length extension;
               stem = truncate_utf8 stem stem_budget;
               cmp = stem @ suffix @ extension;
               value = (case parent of None \<Rightarrow> cmp | Some parent \<Rightarrow> parent @ ''/'' @ cmp)
      in map_err ConflictPath (wire_path_new value))"

text \<open>The two search loops of \<open>allocate_conflict_path\<close> return the first candidate not occupied.\<close>

fun first_free :: "('a \<Rightarrow> reconcile_error + wire_path) \<Rightarrow> wire_path fset \<Rightarrow> 'a list \<Rightarrow>
    reconcile_error + wire_path option" where
  "first_free build occupied [] = Inr None"
| "first_free build occupied (x # xs) =
     and_then (build x) (\<lambda>path.
       if path |\<notin>| occupied then Inr (Some path) else first_free build occupied xs)"

definition allocate_conflict_path ::
    "externs \<Rightarrow> sync_record \<Rightarrow> wire_path fset \<Rightarrow> reconcile_error + wire_path" where
  "allocate_conflict_path E loser occupied =
     (let token = to_hex E (logical_hash E loser)
      in and_then (first_free (\<lambda>n. build_conflict_path (sr_path loser) (take n token) None) occupied
                     [12, 16, 24, 32, 48, 64])
         (\<lambda>found. case found of Some path \<Rightarrow> Inr path | None \<Rightarrow>
            and_then (first_free (\<lambda>c. build_conflict_path (sr_path loser) token (Some c)) occupied
                        [1..<10001])
            (\<lambda>found. case found of Some path \<Rightarrow> Inr path | None \<Rightarrow> Inl ConflictPathExhausted)))"

section \<open>Conflict resolution\<close>

definition state_encoding :: "sync_record \<Rightarrow> u8 list" where
  "state_encoding r = [kind_byte (sr_kind r)] @ to_le_bytes (sr_size r) @
     content_bytes (sr_content_hash r) @ [bool_byte (sr_readonly r), bool_byte (sr_tombstone r)]"

definition state_hash :: "externs \<Rightarrow> sync_record \<Rightarrow> hash32" where
  "state_hash E r = blake3_derive E ''deltaweave sync state winner v1'' (state_encoding r)"

definition conflict_resolver_replica :: "externs \<Rightarrow> replica_id" where
  "conflict_resolver_replica E = digest E (str_bytes ''deltaweave deterministic conflict resolver v1'')"

definition should_preserve_loser :: "sync_record \<Rightarrow> sync_record \<Rightarrow> bool" where
  "should_preserve_loser winner loser \<longleftrightarrow>
     \<not> sr_tombstone loser \<and> sr_kind loser = File \<and>
     (sr_tombstone winner \<or> sr_content_hash winner \<noteq> sr_content_hash loser)"

text \<open>The winner and the loser of a conflict, and the version vector both are stamped with.\<close>

definition choose_winner :: "externs \<Rightarrow> sync_record \<Rightarrow> sync_record \<Rightarrow> sync_record \<times> sync_record" where
  "choose_winner E left right =
     (let left_directory = \<not> sr_tombstone left \<and> sr_kind left = Directory;
          right_directory = \<not> sr_tombstone right \<and> sr_kind right = Directory
      in if left_directory \<and> \<not> right_directory then (left, right)
         else if \<not> left_directory \<and> right_directory then (right, left)
         else if state_hash E right \<le> state_hash E left then (left, right)
         else (right, left))"

definition resolved_version :: "externs \<Rightarrow> sync_record \<Rightarrow> sync_record \<Rightarrow> reconcile_error + version_vector" where
  "resolved_version E left right =
     (let merged = vv_merge (sr_version left) (sr_version right);
          resolver = conflict_resolver_replica E
      in and_then (ok_or (checked_add (vv_get merged resolver) 1) ResolverCounterOverflow)
           (\<lambda>counter. Inr (vv_observe merged resolver counter)))"

definition resolve_conflict ::
    "externs \<Rightarrow> sync_record \<Rightarrow> sync_record \<Rightarrow> conflict_reason \<Rightarrow> merge_state \<Rightarrow> reconcile_error + merge_state" where
  "resolve_conflict E left right reason st =
     (let (winner, loser) = choose_winner E left right
      in and_then (resolved_version E left right) (\<lambda>version.
         let canonical = winner\<lparr>sr_version := version\<rparr>;
             merged = fmupd (sr_path canonical) canonical (ms_merged st);
             entry = (\<lambda>conflict_path. \<lparr>cr_path = sr_path left, cr_conflict_path = conflict_path,
               cr_winner_hash = logical_hash E winner, cr_loser_hash = logical_hash E loser,
               cr_reason = reason\<rparr>)
         in if should_preserve_loser winner loser then
              and_then (allocate_conflict_path E loser (ms_occupied st)) (\<lambda>path.
                let preserved = loser\<lparr>sr_path := path, sr_version := version, sr_tombstone := False\<rparr>
                in Inr \<lparr>ms_occupied = finsert path (ms_occupied st),
                     ms_merged = fmupd path preserved merged,
                     ms_conflicts = ms_conflicts st @ [entry (Some path)],
                     ms_stats = (ms_stats st)\<lparr>conflict_copies := conflict_copies (ms_stats st) + 1,
                       conflict_count := conflict_count (ms_stats st) + 1\<rparr>\<rparr>)
            else Inr (st\<lparr>ms_merged := merged, ms_conflicts := ms_conflicts st @ [entry None],
                   ms_stats := (ms_stats st)\<lparr>conflict_count := conflict_count (ms_stats st) + 1\<rparr>\<rparr>)))"

section \<open>Merging\<close>

definition take_left :: "sync_record \<Rightarrow> wire_path \<Rightarrow> merge_state \<Rightarrow> merge_state" where
  "take_left r path st = st\<lparr>ms_merged := fmupd path r (ms_merged st),
     ms_stats := (ms_stats st)\<lparr>selected_left := selected_left (ms_stats st) + 1\<rparr>\<rparr>"

definition take_right :: "sync_record \<Rightarrow> wire_path \<Rightarrow> merge_state \<Rightarrow> merge_state" where
  "take_right r path st = st\<lparr>ms_merged := fmupd path r (ms_merged st),
     ms_stats := (ms_stats st)\<lparr>selected_right := selected_right (ms_stats st) + 1\<rparr>\<rparr>"

definition take_equal :: "sync_record \<Rightarrow> wire_path \<Rightarrow> merge_state \<Rightarrow> merge_state" where
  "take_equal r path st = st\<lparr>ms_merged := fmupd path r (ms_merged st),
     ms_stats := (ms_stats st)\<lparr>equal_count := equal_count (ms_stats st) + 1\<rparr>\<rparr>"

text \<open>One iteration of the loop; the last case is the \<open>unreachable!\<close> arm.\<close>

definition merge_path ::
    "externs \<Rightarrow> merkle_tree \<Rightarrow> merkle_tree \<Rightarrow> wire_path \<Rightarrow> merge_state \<Rightarrow> reconcile_error + merge_state" where
  "merge_path E left right path st =
     (case (mt_get left path, mt_get right path) of
        (Some l, None) \<Rightarrow> Inr (take_left l path st)
      | (None, Some r) \<Rightarrow> Inr (take_right r path st)
      | (Some l, Some r) \<Rightarrow>
          (case vv_relation (sr_version l) (sr_version r) of
             Before \<Rightarrow> Inr (take_right r path st)
           | After \<Rightarrow> Inr (take_left l path st)
           | Equal \<Rightarrow> if same_state l r then Inr (take_equal l path st)
               else resolve_conflict E l r EqualClockDivergence st
           | Concurrent \<Rightarrow> if same_state l r
               then Inr (take_equal (l\<lparr>sr_version := vv_merge (sr_version l) (sr_version r)\<rparr>) path st)
               else resolve_conflict E l r ConcurrentEdit st)
      | (None, None) \<Rightarrow> Inr st)"

definition merge_paths :: "merkle_tree \<Rightarrow> merkle_tree \<Rightarrow> wire_path fset" where
  "merge_paths left right = fmdom (mt_records left) |\<union>| fmdom (mt_records right)"

definition initial_merge :: "wire_path fset \<Rightarrow> merge_state" where
  "initial_merge paths = \<lparr>ms_occupied = paths, ms_merged = fmempty, ms_conflicts = [], ms_stats = zero_stats\<rparr>"

definition merge_snapshots :: "externs \<Rightarrow> merkle_tree \<Rightarrow> merkle_tree \<Rightarrow> reconcile_error + merge_result" where
  "merge_snapshots E left right =
     (if root_hash left = root_hash right \<and> mt_len left = mt_len right
      then Inr \<lparr>mr_records = mt_record_list left, mr_conflicts = [],
                mr_stats = zero_stats\<lparr>equal_count := mt_len left\<rparr>\<rparr>
      else let paths = merge_paths left right
      in and_then (fold_res (merge_path E left right) (sorted_list_of_fset paths) (initial_merge paths))
           (\<lambda>st. Inr \<lparr>mr_records = map_values (ms_merged st),
              mr_conflicts = sort_key cr_path (ms_conflicts st), mr_stats = ms_stats st\<rparr>))"

definition result_tree :: "externs \<Rightarrow> merge_result \<Rightarrow> reconcile_error + merkle_tree" where
  "result_tree E res = from_records E (mr_records res)"

section \<open>Actions\<close>

text \<open>\<open>None\<close> is the panic of \<open>different_paths\<close>.\<close>

definition action_for :: "merkle_tree \<Rightarrow> merkle_tree \<Rightarrow> wire_path \<Rightarrow> apply_action list" where
  "action_for current desired path = (case mt_get desired path of
     None \<Rightarrow> []
   | Some record \<Rightarrow> if mt_get current path = Some record then []
       else if sr_tombstone record then [Delete record] else [Materialize record])"

definition actions_to_reach ::
    "externs \<Rightarrow> merkle_tree \<Rightarrow> merge_result \<Rightarrow> reconcile_error + apply_action list option" where
  "actions_to_reach E current desired =
     and_then (result_tree E desired) (\<lambda>desired_tree.
       Inr (map_option (\<lambda>paths. concat (map (action_for current desired_tree) paths))
         (different_paths current desired_tree)))"

end
