(* ===== verification/Merge_Laws.thy ===== *)
theory Merge_Laws
  imports Merge
begin

text \<open>
  What \<open>merge_snapshots\<close> promises. Every path ends with a record that its two inputs determine
  (\<open>canonical\<close>), every losing live file gets a copy under a fresh sibling name, and nothing else is
  added (\<open>merge_spec\<close>); the properties of the merge follow from that description.
\<close>

section \<open>Conflict names\<close>

lemma rsplit_once_Some:
  assumes "rsplit_once c s = Some (a, b)"
  shows "s = a @ c # b" "c \<notin> set b"
proof -
  let ?r = "rev s" and ?P = "\<lambda>d. d \<noteq> c"
  from assms have c: "c \<in> set s" and ab: "a = rev (tl (dropWhile ?P ?r))" "b = rev (takeWhile ?P ?r)"
    by (auto simp: rsplit_once_def split: if_splits)
  from c have ne: "dropWhile ?P ?r \<noteq> []" by (auto simp: dropWhile_eq_Nil_conv)
  then obtain t where t: "dropWhile ?P ?r = c # t"
    using hd_dropWhile [OF ne] by (cases "dropWhile ?P ?r") auto
  then have "?r = rev b @ c # rev a" using ab takeWhile_dropWhile_id [of ?P ?r] by simp
  then have "rev ?r = rev (rev b @ c # rev a)" by (rule arg_cong)
  then show "s = a @ c # b" by simp
  show "c \<notin> set b" unfolding ab by (auto dest: set_takeWhileD)
qed

lemma rsplit_once_None: "rsplit_once c s = None \<longleftrightarrow> c \<notin> set s"
  by (simp add: rsplit_once_def)

lemma split_on_append_last: "c \<notin> set b \<Longrightarrow> split_on c (a @ c # b) = split_on c a @ [b]"
proof (induction a)
  case (Cons x a)
  obtain p ps where "split_on c a = p # ps" by (meson neq_Nil_conv split_on_not_Nil)
  with Cons show ?case by simp
qed (simp add: split_on_simple)

lemma set_decimal: "set (decimal n) \<subseteq> set ''0123456789''"
proof (induction n rule: decimal.induct)
  case (1 n)
  have "list_all (\<lambda>k. char_of (48 + k) \<in> set ''0123456789'') [0..<10]" by code_simp
  then have digit: "char_of (48 + k) \<in> set ''0123456789''" if "k < 10" for k :: nat
    using that by (simp add: list_all_iff del: upt.simps upt_rec_numeral)
  show ?case
    using 1 digit [of n] digit [of "n mod 10"] by (subst decimal.simps) auto
qed

lemma set_truncate: "set (truncate_utf8 s n) \<subseteq> set s"
  by (auto simp: truncate_utf8_def dest: in_set_takeD)

lemma set_split_extension: "split_extension s = (a, b) \<Longrightarrow> set a \<subseteq> set s \<and> set b \<subseteq> set s"
  by (auto simp: split_extension_def dest: in_set_takeD in_set_dropD split: option.splits if_splits)

lemma hex_no_slash: "CHR ''/'' \<notin> set hex_chars"
  by (simp add: hex_chars_def)

lemma build_conflict_path_Inr:
  assumes "build_conflict_path p token counter = Inr q" and "CHR ''/'' \<notin> set token"
  shows "path_ok q" "butlast (components q) = butlast (components p)"
proof -
  obtain parent name where pn: "(case rsplit_once (CHR ''/'') p of
       None \<Rightarrow> (None, p) | Some (parent, name) \<Rightarrow> (Some parent, name)) = (parent, name)"
    by (metis surj_pair)
  obtain stem ext where se: "split_extension name = (stem, ext)" by (metis surj_pair)
  let ?serial = "case counter of None \<Rightarrow> [] | Some value \<Rightarrow> ''-'' @ decimal value"
  have name: "CHR ''/'' \<notin> set name"
    using pn by (auto simp: rsplit_once_None dest: rsplit_once_Some split: option.splits)
  have serial: "CHR ''/'' \<notin> set ?serial"
    using set_decimal by (auto split: option.split)
  from assms(1) [unfolded build_conflict_path_def pn se Let_def prod.case]
  obtain n e where e: "e = ext \<or> e = []" and
    q: "wire_path_new (case parent of
          None \<Rightarrow> truncate_utf8 stem n @ (''.conflict-'' @ token @ ?serial) @ e
        | Some a \<Rightarrow> a @ ''/'' @ truncate_utf8 stem n @ (''.conflict-'' @ token @ ?serial) @ e) = Inr q"
    by (auto simp: map_err_Inr_iff split: if_splits)
  let ?cmp = "truncate_utf8 stem n @ (''.conflict-'' @ token @ ?serial) @ e"
  have cmp: "CHR ''/'' \<notin> set ?cmp"
    using assms(2) name serial e set_split_extension [OF se] set_truncate [of stem n] by auto
  show "path_ok q" using q by (auto simp: wire_path_new_Inr_iff)
  show "butlast (components q) = butlast (components p)"
  proof (cases parent)
    case None
    with pn have "CHR ''/'' \<notin> set p" by (auto simp: rsplit_once_None split: option.splits)
    with None q cmp show ?thesis by (auto simp: wire_path_new_Inr_iff components_def split_on_simple)
  next
    case (Some a)
    with pn have "p = a @ CHR ''/'' # name" by (auto dest: rsplit_once_Some split: option.splits)
    moreover have "q = a @ CHR ''/'' # ?cmp" using Some q by (auto simp: wire_path_new_Inr_iff)
    ultimately show ?thesis
      using name cmp by (simp add: components_def split_on_append_last del: append_assoc)
  qed
qed

lemma first_free_Some:
  "first_free build occ xs = Inr (Some q) \<Longrightarrow> q |\<notin>| occ \<and> (\<exists>x \<in> set xs. build x = Inr q)"
  by (induction xs) (auto simp: result_simps split: if_splits)

lemma allocate_conflict_path_Inr:
  assumes "allocate_conflict_path E loser occ = Inr q" and "hex_crate_ok E"
  shows "q |\<notin>| occ" "path_ok q" "butlast (components q) = butlast (components (sr_path loser))"
proof -
  let ?token = "to_hex E (logical_hash E loser)"
  have tok: "CHR ''/'' \<notin> set ?token" "CHR ''/'' \<notin> set (take n ?token)" for n
    using set_to_hex [OF assms(2)] hex_no_slash by (auto dest!: in_set_takeD)
  from assms(1) have "q |\<notin>| occ \<and> (\<exists>token counter. CHR ''/'' \<notin> set token \<and>
      build_conflict_path (sr_path loser) token counter = Inr q)"
    unfolding allocate_conflict_path_def Let_def and_then_Inr_iff
    using tok by (auto simp: and_then_Inr_iff simp del: upt.simps first_free.simps
      dest!: first_free_Some split: option.splits; blast)
  then show "q |\<notin>| occ" "path_ok q" "butlast (components q) = butlast (components (sr_path loser))"
    using build_conflict_path_Inr by blast+
qed

section \<open>Resolving one conflict\<close>

lemma choose_winner_cases: "choose_winner E l r = (l, r) \<or> choose_winner E l r = (r, l)"
  by (simp add: choose_winner_def Let_def)

lemma choose_winner_swap:
  "state_hash E l \<noteq> state_hash E r \<Longrightarrow> choose_winner E r l = choose_winner E l r"
  by (auto simp: choose_winner_def Let_def)

lemma resolved_version_swap: "resolved_version E r l = resolved_version E l r"
  by (simp add: resolved_version_def vv_merge_comm [of "sr_version r"])

lemma resolved_version_above:
  assumes "resolved_version E l r = Inr v"
  shows "vv_relation v (sr_version l) = After" "vv_relation v (sr_version r) = After"
proof -
  let ?m = "vv_merge (sr_version l) (sr_version r)" and ?res = "conflict_resolver_replica E"
  from assms obtain c where c: "checked_add (vv_get ?m ?res) 1 = Some c" "v = vv_observe ?m ?res c"
    unfolding resolved_version_def Let_def by (auto simp: result_simps)
  then have "vv_get ?m ?res < c" by (auto simp: word_less_nat_alt dest: checked_add_Some)
  then have "vv_get ?m ?res < vv_get v ?res" using c(2) by (simp add: vv_get_observe del: vv_get_merge)
  then have "\<not> vv_le v ?m" unfolding vv_le_def by (meson not_le)
  with vv.above_join_after [OF vv_le_observe [of ?m ?res c]] c(2)
  show "vv_relation v (sr_version l) = After" "vv_relation v (sr_version r) = After" by simp_all
qed

lemma resolved_version_normal:
  assumes "resolved_version E l r = Inr v" "vv_normal (sr_version l)" "vv_normal (sr_version r)"
  shows "vv_normal v"
proof -
  let ?m = "vv_merge (sr_version l) (sr_version r)" and ?res = "conflict_resolver_replica E"
  from assms(1) obtain c where c: "checked_add (vv_get ?m ?res) 1 = Some c" "v = vv_observe ?m ?res c"
    unfolding resolved_version_def Let_def by (auto simp: result_simps)
  from checked_add_Some [OF c(1)] have "c \<noteq> 0" by auto
  with c(2) assms(2,3) show ?thesis by (simp add: vv_normal_observe vv_normal_merge)
qed

section \<open>What the merge computes\<close>

definition conflicting :: "sync_record \<Rightarrow> sync_record \<Rightarrow> bool" where
  "conflicting l r \<longleftrightarrow> vv_relation (sr_version l) (sr_version r) \<in> {Equal, Concurrent} \<and> \<not> same_state l r"

definition resolution :: "externs \<Rightarrow> sync_record \<Rightarrow> sync_record \<Rightarrow> sync_record option" where
  "resolution E l r = (case resolved_version E l r of
     Inl _ \<Rightarrow> None | Inr v \<Rightarrow> Some ((fst (choose_winner E l r))\<lparr>sr_version := v\<rparr>))"

fun canonical :: "externs \<Rightarrow> sync_record option \<Rightarrow> sync_record option \<Rightarrow> sync_record option" where
  "canonical E None r = r"
| "canonical E (Some l) None = Some l"
| "canonical E (Some l) (Some r) =
     (if conflicting l r then resolution E l r
      else case vv_relation (sr_version l) (sr_version r) of
        Before \<Rightarrow> Some r
      | After \<Rightarrow> Some l
      | Equal \<Rightarrow> Some l
      | Concurrent \<Rightarrow> Some (l\<lparr>sr_version := vv_merge (sr_version l) (sr_version r)\<rparr>))"

fun copy_of :: "externs \<Rightarrow> sync_record option \<Rightarrow> sync_record option \<Rightarrow> sync_record option" where
  "copy_of E (Some l) (Some r) =
     (let (winner, loser) = choose_winner E l r
      in if conflicting l r \<and> should_preserve_loser winner loser
         then (case resolved_version E l r of
           Inl _ \<Rightarrow> None | Inr v \<Rightarrow> Some (loser\<lparr>sr_version := v, sr_tombstone := False\<rparr>))
         else None)"
| "copy_of E _ _ = None"

abbreviation canonical_at :: "externs \<Rightarrow> merkle_tree \<Rightarrow> merkle_tree \<Rightarrow> wire_path \<Rightarrow> sync_record option" where
  "canonical_at E t u p \<equiv> canonical E (mt_get t p) (mt_get u p)"

abbreviation copy_at :: "externs \<Rightarrow> merkle_tree \<Rightarrow> merkle_tree \<Rightarrow> wire_path \<Rightarrow> sync_record option" where
  "copy_at E t u p \<equiv> copy_of E (mt_get t p) (mt_get u p)"

text \<open>One successful iteration, in these terms.\<close>

definition merged_step :: "externs \<Rightarrow> merkle_tree \<Rightarrow> merkle_tree \<Rightarrow> wire_path \<Rightarrow> merge_state \<Rightarrow> merge_state \<Rightarrow> bool" where
  "merged_step E t u p st st' \<longleftrightarrow> (\<exists>k. canonical_at E t u p = Some k \<and>
     (case copy_at E t u p of
        None \<Rightarrow> ms_merged st' = fmupd p k (ms_merged st) \<and> ms_occupied st' = ms_occupied st
      | Some c \<Rightarrow> \<exists>q. q |\<notin>| ms_occupied st \<and> path_ok q \<and>
          butlast (components q) = butlast (components p) \<and>
          ms_merged st' = fmupd q (c\<lparr>sr_path := q\<rparr>) (fmupd p k (ms_merged st)) \<and>
          ms_occupied st' = finsert q (ms_occupied st)))"

lemma resolve_conflict_step:
  assumes "resolve_conflict E l r reason st = Inr st'" and "hex_crate_ok E"
    and "mt_get t p = Some l" "mt_get u p = Some r" "sr_path l = p" "sr_path r = p" "conflicting l r"
  shows "merged_step E t u p st st'"
proof -
  obtain w x where wx: "choose_winner E l r = (w, x)" by (cases "choose_winner E l r")
  then have paths: "sr_path w = p" "sr_path x = p"
    using choose_winner_cases [of E l r] assms(5,6) by auto
  obtain v where v: "resolved_version E l r = Inr v"
    using assms(1) by (auto simp: resolve_conflict_def wx and_then_Inr_iff)
  have can: "canonical_at E t u p = Some (w\<lparr>sr_version := v\<rparr>)"
    using assms(3,4,7) wx v by (simp add: resolution_def)
  show ?thesis
  proof (cases "should_preserve_loser w x")
    case True
    then obtain q where q: "allocate_conflict_path E x (ms_occupied st) = Inr q"
      using assms(1) by (auto simp: resolve_conflict_def wx v and_then_Inr_iff Let_def)
    have "copy_at E t u p = Some (x\<lparr>sr_version := v, sr_tombstone := False\<rparr>)"
      using True assms(3,4,7) wx v by simp
    with q can allocate_conflict_path_Inr [OF q assms(2)] assms(1) True paths show ?thesis
      by (cases x) (auto simp: merged_step_def resolve_conflict_def wx v Let_def intro!: exI [of _ q])
  next
    case False
    then have "copy_at E t u p = None" using assms(3,4) wx by simp
    with can assms(1) False paths show ?thesis
      by (auto simp: merged_step_def resolve_conflict_def wx v Let_def)
  qed
qed

lemma merge_path_step:
  assumes "merge_path E t u p st = Inr st'" and "hex_crate_ok E"
    and "tree_wf E t" "tree_wf E u" and "p |\<in>| merge_paths t u"
  shows "merged_step E t u p st st'"
proof (cases "mt_get t p"; cases "mt_get u p")
  fix l r assume lr: "mt_get t p = Some l" "mt_get u p = Some r"
  note paths = tree_wfD(1) [OF assms(3) lr(1)] tree_wfD(1) [OF assms(4) lr(2)]
  show ?thesis
  proof (cases "conflicting l r")
    case True
    then obtain reason where "resolve_conflict E l r reason st = Inr st'"
      using assms(1) lr by (auto simp: merge_path_def conflicting_def)
    from resolve_conflict_step [OF this assms(2) lr paths True] show ?thesis .
  next
    case False
    then show ?thesis
      using assms(1) lr
      by (cases "choose_winner E l r") (auto simp: merge_path_def merged_step_def conflicting_def
          take_left_def take_right_def take_equal_def split: causal_relation.splits)
  qed
next
  assume "mt_get t p = None" "mt_get u p = None"
  then show ?thesis using assms(5) by (auto simp: merge_paths_def mt_get_def fmlookup_dom_iff)
qed (use assms(1) in \<open>auto simp: merge_path_def merged_step_def take_left_def take_right_def\<close>)

section \<open>The loop\<close>

definition merged_ok ::
    "externs \<Rightarrow> merkle_tree \<Rightarrow> merkle_tree \<Rightarrow> wire_path set \<Rightarrow> (wire_path, sync_record) fmap \<Rightarrow> bool" where
  "merged_ok E t u D m \<longleftrightarrow>
     (\<forall>p \<in> D. canonical_at E t u p \<noteq> None \<and> fmlookup m p = canonical_at E t u p) \<and>
     (\<forall>q k. q |\<notin>| merge_paths t u \<longrightarrow> fmlookup m q = Some k \<longrightarrow>
        (\<exists>p \<in> D. \<exists>c. copy_at E t u p = Some c \<and> k = c\<lparr>sr_path := q\<rparr> \<and> path_ok q \<and>
           butlast (components q) = butlast (components p))) \<and>
     (\<forall>p \<in> D. \<forall>c. copy_at E t u p = Some c \<longrightarrow>
        (\<exists>q. q |\<notin>| merge_paths t u \<and> fmlookup m q = Some (c\<lparr>sr_path := q\<rparr>) \<and>
           butlast (components q) = butlast (components p)))"

lemma merged_okD:
  assumes "merged_ok E t u D m"
  shows "p \<in> D \<Longrightarrow> fmlookup m p = canonical_at E t u p" "p \<in> D \<Longrightarrow> canonical_at E t u p \<noteq> None"
    and "q |\<notin>| merge_paths t u \<Longrightarrow> fmlookup m q = Some k \<Longrightarrow>
      \<exists>p \<in> D. \<exists>c. copy_at E t u p = Some c \<and> k = c\<lparr>sr_path := q\<rparr> \<and> path_ok q \<and>
           butlast (components q) = butlast (components p)"
    and "p \<in> D \<Longrightarrow> copy_at E t u p = Some c \<Longrightarrow>
      \<exists>q. q |\<notin>| merge_paths t u \<and> fmlookup m q = Some (c\<lparr>sr_path := q\<rparr>) \<and>
           butlast (components q) = butlast (components p)"
  using assms unfolding merged_ok_def by blast+

lemma merged_ok_canonical:
  assumes "merged_ok E t u D m" "canonical_at E t u p = Some k" "copy_at E t u p = None"
    and "p |\<in>| merge_paths t u"
  shows "merged_ok E t u (insert p D) (fmupd p k m)"
  unfolding merged_ok_def
proof (intro conjI ballI allI impI, goal_cases)
  case (1 d) then show ?case using assms merged_okD(2) [OF assms(1)] by auto
next
  case (2 d) then show ?case using assms merged_okD(1) [OF assms(1)] by auto
next
  case (3 q k')
  then have "fmlookup m q = Some k'" using assms(4) by (auto split: if_splits)
  from merged_okD(3) [OF assms(1) 3(1) this] show ?case by blast
next
  case (4 d c)
  then have "d \<in> D" using assms(3) by auto
  from merged_okD(4) [OF assms(1) this 4(2)] assms(4) show ?case by (metis fmupd_lookup)
qed

lemma merged_ok_both:
  assumes "merged_ok E t u D m" "canonical_at E t u p = Some k" "copy_at E t u p = Some c"
    and "p |\<in>| merge_paths t u" "path_ok q" "butlast (components q) = butlast (components p)"
    and "q |\<notin>| merge_paths t u" "q |\<notin>| fmdom m" "D \<subseteq> fset (merge_paths t u)"
  shows "merged_ok E t u (insert p D) (fmupd q (c\<lparr>sr_path := q\<rparr>) (fmupd p k m))"
  unfolding merged_ok_def
proof (intro conjI ballI allI impI, goal_cases)
  case (1 d) then show ?case using assms(2) merged_okD(2) [OF assms(1)] by auto
next
  case (2 d)
  then have "d \<noteq> q" using assms(4,7,9) by auto
  with 2 assms(2) merged_okD(1) [OF assms(1)] show ?case by auto
next
  case (3 a k')
  show ?case
  proof (cases "a = q")
    case True
    with 3 assms show ?thesis by auto
  next
    case False
    with 3 assms(4) have "fmlookup m a = Some k'" by (auto split: if_splits)
    with merged_okD(3) [OF assms(1) 3(1)] show ?thesis by blast
  qed
next
  case (4 d c')
  show ?case
  proof (cases "d = p")
    case True
    with 4 assms show ?thesis by (intro exI [of _ q]) auto
  next
    case False
    with 4 merged_okD(4) [OF assms(1), of d c'] obtain a where a: "a |\<notin>| merge_paths t u"
      "fmlookup m a = Some (c'\<lparr>sr_path := a\<rparr>)" "butlast (components a) = butlast (components d)" by blast
    with assms(4,8) have "a \<noteq> q" "a \<noteq> p" by (auto simp: fmlookup_dom_iff)
    with a show ?thesis by (intro exI [of _ a]) auto
  qed
qed

definition merge_inv :: "externs \<Rightarrow> merkle_tree \<Rightarrow> merkle_tree \<Rightarrow> wire_path set \<Rightarrow> merge_state \<Rightarrow> bool" where
  "merge_inv E t u D st \<longleftrightarrow>
     merge_paths t u |\<subseteq>| ms_occupied st \<and> fmdom (ms_merged st) |\<subseteq>| ms_occupied st \<and>
     D \<subseteq> fset (merge_paths t u) \<and> merged_ok E t u D (ms_merged st)"

lemma merge_inv_step:
  assumes "merge_inv E t u D st" "merged_step E t u p st st'" "p |\<in>| merge_paths t u"
  shows "merge_inv E t u (insert p D) st'"
proof -
  from assms(1) have inv: "merge_paths t u |\<subseteq>| ms_occupied st" "fmdom (ms_merged st) |\<subseteq>| ms_occupied st"
    "D \<subseteq> fset (merge_paths t u)" "merged_ok E t u D (ms_merged st)" by (auto simp: merge_inv_def)
  from assms(2) obtain k where k: "canonical_at E t u p = Some k" and
    step: "case copy_at E t u p of
        None \<Rightarrow> ms_merged st' = fmupd p k (ms_merged st) \<and> ms_occupied st' = ms_occupied st
      | Some c \<Rightarrow> \<exists>q. q |\<notin>| ms_occupied st \<and> path_ok q \<and>
          butlast (components q) = butlast (components p) \<and>
          ms_merged st' = fmupd q (c\<lparr>sr_path := q\<rparr>) (fmupd p k (ms_merged st)) \<and>
          ms_occupied st' = finsert q (ms_occupied st)"
    unfolding merged_step_def by blast
  show ?thesis
  proof (cases "copy_at E t u p")
    case None
    with step merged_ok_canonical [OF inv(4) k None assms(3)] inv assms(3) show ?thesis
      by (auto simp: merge_inv_def)
  next
    case (Some c)
    with step obtain q where q: "q |\<notin>| ms_occupied st" "path_ok q"
      "butlast (components q) = butlast (components p)"
      "ms_merged st' = fmupd q (c\<lparr>sr_path := q\<rparr>) (fmupd p k (ms_merged st))"
      "ms_occupied st' = finsert q (ms_occupied st)" by auto
    moreover have "q |\<notin>| merge_paths t u" "q |\<notin>| fmdom (ms_merged st)" using q(1) inv by auto
    ultimately show ?thesis
      using merged_ok_both [OF inv(4) k Some assms(3) q(2,3) _ _ inv(3)] inv assms(3)
      by (auto simp: merge_inv_def)
  qed
qed

lemma merge_inv_fold:
  assumes "fold_res (merge_path E t u) ps st = Inr st'" "merge_inv E t u D st"
    and "set ps \<subseteq> fset (merge_paths t u)" and "hex_crate_ok E" "tree_wf E t" "tree_wf E u"
  shows "merge_inv E t u (D \<union> set ps) st'"
  using assms(1-3)
proof (induction ps arbitrary: D st)
  case (Cons p ps)
  then obtain s where s: "merge_path E t u p st = Inr s" "fold_res (merge_path E t u) ps s = Inr st'"
    by (auto simp: and_then_Inr_iff)
  have "merge_inv E t u (insert p D) s"
    using merge_inv_step merge_path_step [OF s(1) assms(4-6)] Cons.prems by simp
  from Cons.IH [OF s(2) this] Cons.prems(3) show ?case by simp
qed simp

section \<open>The merged map\<close>

lemma record_ok_update [simp]:
  "record_ok (r\<lparr>sr_version := v\<rparr>) \<longleftrightarrow> record_ok r" "record_ok (r\<lparr>sr_path := p\<rparr>) \<longleftrightarrow> record_ok r"
  by (simp_all add: record_ok_iff live_def)

lemma conflict_parts:
  assumes "choose_winner E l r = (w, x)"
  shows "{w, x} = {l, r}"
  using choose_winner_cases [of E l r] assms by auto

lemma canonical_valid:
  assumes "tree_wf E t" "tree_wf E u" "canonical_at E t u p = Some k"
  shows "sr_path k = p" "path_ok p" "record_ok k"
proof -
  have t: "mt_get t p = Some l \<Longrightarrow> sr_path l = p \<and> path_ok p \<and> record_ok l"
    and u: "mt_get u p = Some l \<Longrightarrow> sr_path l = p \<and> path_ok p \<and> record_ok l" for l
    using tree_wfD assms(1,2) by blast+
  have "sr_path k = p \<and> path_ok p \<and> record_ok k"
  proof (cases "mt_get t p"; cases "mt_get u p")
    fix l r assume lr: "mt_get t p = Some l" "mt_get u p = Some r"
    obtain w x where "choose_winner E l r = (w, x)" by (cases "choose_winner E l r")
    with conflict_parts [OF this] lr t [of l] u [of r] assms(3) show ?thesis
      by (auto simp: resolution_def split: if_splits causal_relation.splits sum.splits)
  qed (use assms(3) t u in auto)
  then show "sr_path k = p" "path_ok p" "record_ok k" by blast+
qed

lemma copy_of_Some:
  assumes "copy_at E t u p = Some c"
  obtains l r w x v where "mt_get t p = Some l" "mt_get u p = Some r" "conflicting l r"
    "choose_winner E l r = (w, x)" "should_preserve_loser w x" "resolved_version E l r = Inr v"
    "c = x\<lparr>sr_version := v, sr_tombstone := False\<rparr>"
proof (cases "mt_get t p"; cases "mt_get u p")
  fix l r assume lr: "mt_get t p = Some l" "mt_get u p = Some r"
  obtain w x where "choose_winner E l r = (w, x)" by (cases "choose_winner E l r")
  with that lr assms show ?thesis by (auto split: if_splits sum.splits)
qed (use assms in auto)

lemma copy_valid:
  assumes "tree_wf E t" "tree_wf E u" "copy_at E t u p = Some c"
  shows "record_ok c" "live c" "sr_kind c = File"
proof -
  from assms(3) obtain l r w x v where c: "mt_get t p = Some l" "mt_get u p = Some r"
    "choose_winner E l r = (w, x)" "should_preserve_loser w x" "c = x\<lparr>sr_version := v, sr_tombstone := False\<rparr>"
    by (rule copy_of_Some)
  have "record_ok x"
    using conflict_parts [OF c(3)] tree_wfD(3) [OF assms(1) c(1)] tree_wfD(3) [OF assms(2) c(2)]
    by (auto simp: doubleton_eq_iff)
  with c(4,5) show "record_ok c" "live c" "sr_kind c = File"
    by (auto simp: record_ok_iff live_def should_preserve_loser_def)
qed

definition merged_map :: "externs \<Rightarrow> merkle_tree \<Rightarrow> merkle_tree \<Rightarrow> (wire_path, sync_record) fmap \<Rightarrow> bool" where
  "merged_map E t u m \<longleftrightarrow> merged_ok E t u (fset (merge_paths t u)) m"

lemma merged_map_valid:
  assumes "merged_map E t u m" "tree_wf E t" "tree_wf E u" "fmlookup m q = Some k"
  shows "sr_path k = q" "path_ok q" "record_ok k"
proof -
  note m = assms(1) [unfolded merged_map_def]
  have "sr_path k = q \<and> path_ok q \<and> record_ok k"
  proof (cases "q |\<in>| merge_paths t u")
    case True
    with merged_okD(1) [OF m, of q] assms(4) canonical_valid [OF assms(2,3), of q k] show ?thesis by simp
  next
    case False
    from merged_okD(3) [OF m this assms(4)] copy_valid(1) [OF assms(2,3)] show ?thesis by auto
  qed
  then show "sr_path k = q" "path_ok q" "record_ok k" by blast+
qed

lemma merge_same_records:
  assumes "mt_records t = mt_records u"
  shows "merged_map E t u (mt_records t)"
proof -
  have get: "mt_get u p = mt_get t p" for p using assms by (simp add: mt_get_def)
  have "canonical_at E t u p = mt_get t p" "copy_at E t u p = None" for p
    by (cases "mt_get t p"; simp add: get conflicting_def vv.rel_refl)+
  then show ?thesis
    using assms by (auto simp: merged_map_def merged_ok_def merge_paths_def mt_get_def fmlookup_dom_iff)
qed

lemma merge_snapshots_map:
  assumes "merge_snapshots E t u = Inr res" "hex_crate_ok E" "tree_wf E t" "tree_wf E u" "no_collision E t u"
  obtains m where "mr_records res = map_values m" "merged_map E t u m"
proof (cases "root_hash t = root_hash u \<and> mt_len t = mt_len u")
  case True
  then have "mt_records t = mt_records u" using root_hash_eq_iff [OF assms(5,3,4)] by blast
  from that [OF _ merge_same_records [OF this]] True assms(1) show ?thesis
    by (auto simp: merge_snapshots_def mt_record_list_def)
next
  case False
  with assms(1) obtain st where st: "fold_res (merge_path E t u) (sorted_list_of_fset (merge_paths t u))
      (initial_merge (merge_paths t u)) = Inr st" "mr_records res = map_values (ms_merged st)"
    by (auto simp: merge_snapshots_def and_then_Inr_iff Let_def)
  have "merge_inv E t u {} (initial_merge (merge_paths t u))"
    by (simp add: merge_inv_def initial_merge_def merged_ok_def)
  from merge_inv_fold [OF st(1) this _ assms(2-4)] have "merged_map E t u (ms_merged st)"
    by (simp add: merge_inv_def merged_map_def)
  with st(2) that show ?thesis by blast
qed

lemma index_map_values: "keyed m \<Longrightarrow> index_records (map_values m) = m"
proof (rule fmap_ext)
  fix p assume k: "keyed m"
  have d: "distinct (map sr_path (map_values m))" unfolding map_path_values [OF k] by simp
  have "fmlookup (index_records (map_values m)) p = Some r \<longleftrightarrow> fmlookup m p = Some r" for r
    using k unfolding lookup_index_records [OF d] set_map_values by (auto dest: keyedD)
  then show "fmlookup (index_records (map_values m)) p = fmlookup m p" by (metis not_None_eq)
qed

lemma merged_map_tree:
  assumes "merged_map E t u m" "tree_wf E t" "tree_wf E u" "mr_records res = map_values m"
  obtains v where "result_tree E res = Inr v" "mt_records v = m" "tree_wf E v"
proof -
  note valid = merged_map_valid [OF assms(1-3)]
  then have k: "keyed m" by (auto simp: keyed_def fmpred_iff)
  have "\<forall>r \<in> set (map_values m). record_ok r" unfolding set_map_values using valid by blast
  moreover have "distinct (map sr_path (map_values m))" unfolding map_path_values [OF k] by simp
  ultimately have "result_tree E res = Inr \<lparr>mt_root = build_root E m, mt_records = m\<rparr>"
    unfolding result_tree_def assms(4) from_records_Inr index_map_values [OF k] by blast
  moreover have "tree_wf E \<lparr>mt_root = build_root E m, mt_records = m\<rparr>"
    using valid by (auto simp: tree_wf_def fmpred_iff)
  ultimately show ?thesis using that by force
qed

section \<open>Causality of the result\<close>

lemma vv_le_relation: "vv_relation a b = Before \<Longrightarrow> vv_le a b" "vv_relation a b = After \<Longrightarrow> vv_le b a"
  by (simp_all add: vv.rel_Before_iff vv.rel_After_iff)

lemma canonical_above:
  assumes "canonical E lo ro = Some k" "lo = Some x \<or> ro = Some x"
  shows "vv_le (sr_version x) (sr_version k)"
proof (cases lo; cases ro)
  fix l r assume lr: "lo = Some l" "ro = Some r"
  with assms(2) have x: "x = l \<or> x = r" by auto
  show ?thesis
  proof (cases "conflicting l r")
    case True
    with assms(1) lr obtain v where "resolved_version E l r = Inr v" "sr_version k = v"
      by (auto simp: resolution_def split: sum.splits)
    with resolved_version_above [of E l r v] x show ?thesis by (auto dest: vv_le_relation)
  next
    case False
    with assms(1) lr x show ?thesis
      by (auto simp: vv.le_refl vv.join_left vv.join_right vv.rel_Equal_iff dest: vv_le_relation
          split: causal_relation.splits)
  qed
qed (use assms in \<open>auto simp: vv.le_refl\<close>)

lemma Before_after: "vv_relation a b = After \<Longrightarrow> vv_relation b a = Before"
  using vv.rel_swap [of b a] by simp

lemma canonical_settles:
  assumes "canonical E lo ro = Some k" "lo = Some x \<or> ro = Some x"
    and eq: "\<And>l r. lo = Some l \<Longrightarrow> ro = Some r \<Longrightarrow>
      vv_relation (sr_version l) (sr_version r) = Equal \<Longrightarrow> same_state l r \<Longrightarrow> l = r"
  shows "k = x \<or> vv_relation (sr_version x) (sr_version k) = Before"
proof (cases lo; cases ro)
  fix l r assume lr: "lo = Some l" "ro = Some r"
  with assms(2) have x: "x = l \<or> x = r" by auto
  show ?thesis
  proof (cases "conflicting l r")
    case True
    with assms(1) lr obtain v where "resolved_version E l r = Inr v" "sr_version k = v"
      by (auto simp: resolution_def split: sum.splits)
    with resolved_version_above [of E l r v] x show ?thesis by (auto dest: Before_after)
  next
    case False
    show ?thesis
    proof (cases "vv_relation (sr_version l) (sr_version r)")
      case Equal
      with False lr assms(1) eq [OF lr] x show ?thesis by (auto simp: conflicting_def)
    next
      case Concurrent
      with False lr assms(1) x vv.join_after_concurrent [OF Concurrent] show ?thesis
        by (auto dest: Before_after)
    next
      case Before
      with False lr assms(1) x show ?thesis by auto
    next
      case After
      with False lr assms(1) x show ?thesis by (auto dest: Before_after)
    qed
  qed
qed (use assms(1,2) in auto)

definition normal_tree :: "merkle_tree \<Rightarrow> bool" where
  "normal_tree t \<longleftrightarrow> fmpred (\<lambda>_ r. vv_normal (sr_version r)) (mt_records t)"

lemma equal_records:
  assumes "tree_wf E t" "tree_wf E u" "normal_tree t" "normal_tree u"
    and "mt_get t p = Some l" "mt_get u p = Some r"
    and "vv_relation (sr_version l) (sr_version r) = Equal" "same_state l r"
  shows "l = r"
proof (rule sync_record_eqI)
  show "sr_schema_version l = sr_schema_version r"
    using tree_wfD(3) [OF assms(1,5)] tree_wfD(3) [OF assms(2,6)] by (simp add: record_ok_iff)
  show "sr_version l = sr_version r"
    using assms(3-7) by (intro vv_normal_equal) (auto simp: normal_tree_def mt_get_def fmpred_iff)
qed (rule assms(8))

section \<open>Merging with a later snapshot\<close>

definition settled :: "merkle_tree \<Rightarrow> merkle_tree \<Rightarrow> bool" where
  "settled a v \<longleftrightarrow> (\<forall>p x. mt_get a p = Some x \<longrightarrow>
     (\<exists>k. mt_get v p = Some k \<and> (k = x \<or> vv_relation (sr_version x) (sr_version k) = Before)))"

lemma settled_merge_path:
  assumes "settled a v"
  shows "\<exists>st'. merge_path E a v p st = Inr st' \<and> ms_conflicts st' = ms_conflicts st"
proof (cases "mt_get a p")
  case None
  then show ?thesis by (auto simp: merge_path_def take_right_def split: option.split)
next
  case (Some x)
  with assms obtain k where "mt_get v p = Some k" "k = x \<or> vv_relation (sr_version x) (sr_version k) = Before"
    unfolding settled_def by blast
  with Some show ?thesis
    by (auto simp: merge_path_def take_right_def take_equal_def vv.rel_refl)
qed

lemma settled_fold:
  "settled a v \<Longrightarrow> \<exists>st'. fold_res (merge_path E a v) ps st = Inr st' \<and> ms_conflicts st' = ms_conflicts st"
proof (induction ps arbitrary: st)
  case (Cons p ps)
  from settled_merge_path [OF Cons.prems] obtain s where
    s: "merge_path E a v p st = Inr s" "ms_conflicts s = ms_conflicts st" by blast
  with Cons.IH [OF Cons.prems, of s] show ?case by auto
qed simp

lemma settled_map:
  assumes "settled a v" "merged_map E a v m"
  shows "m = mt_records v"
proof (rule fmap_ext)
  fix p
  note m = assms(2) [unfolded merged_map_def]
  have copy: "copy_at E a v p = None" and can: "canonical_at E a v p = mt_get v p" for p
    using assms(1) unfolding settled_def
    by (cases "mt_get a p"; cases "mt_get v p";
        fastforce simp: conflicting_def vv.rel_refl Let_def split: prod.split)+
  show "fmlookup m p = fmlookup (mt_records v) p"
  proof (cases "p |\<in>| merge_paths a v")
    case True
    with merged_okD(1) [OF m] can show ?thesis by (simp add: mt_get_def)
  next
    case False
    then have "fmlookup m p = None" using merged_okD(3) [OF m False] copy by (metis option.distinct(1) option.exhaust)
    with False show ?thesis by (auto simp: merge_paths_def fmlookup_dom_iff)
  qed
qed

lemma settled_merge:
  assumes "settled a v" "tree_wf E a" "tree_wf E v" "no_collision E a v" "hex_crate_ok E"
  obtains res where "merge_snapshots E a v = Inr res" "mr_records res = mt_record_list v" "mr_conflicts res = []"
proof -
  obtain st where "fold_res (merge_path E a v) (sorted_list_of_fset (merge_paths a v))
      (initial_merge (merge_paths a v)) = Inr st" "ms_conflicts st = []"
    using settled_fold [OF assms(1)] by (metis initial_merge_def merge_state.select_convs(3))
  then obtain res where res: "merge_snapshots E a v = Inr res" "mr_conflicts res = []"
    by (cases "root_hash a = root_hash v \<and> mt_len a = mt_len v") (auto simp: merge_snapshots_def Let_def)
  from merge_snapshots_map [OF res(1) assms(5,2,3,4)] obtain m where
    "mr_records res = map_values m" "merged_map E a v m" .
  with settled_map [OF assms(1)] res that show ?thesis by (simp add: mt_record_list_def)
qed

lemma merged_map_settled:
  assumes "merged_map E t u m" "mt_records v = m" "tree_wf E t" "tree_wf E u"
    and "normal_tree t" "normal_tree u"
  shows "settled t v" "settled u v"
proof -
  note m = assms(1) [unfolded merged_map_def]
  have "\<exists>k. mt_get v p = Some k \<and> (k = x \<or> vv_relation (sr_version x) (sr_version k) = Before)"
    if x: "mt_get t p = Some x \<or> mt_get u p = Some x" for p x
  proof -
    have p: "p \<in> fset (merge_paths t u)" using x by (auto simp: merge_paths_def mt_get_def fmlookup_dom_iff)
    from merged_okD(2) [OF m p] obtain k where k: "canonical_at E t u p = Some k" by blast
    have "mt_get v p = Some k" using merged_okD(1) [OF m p] k assms(2) by (simp add: mt_get_def)
    moreover have "k = x \<or> vv_relation (sr_version x) (sr_version k) = Before"
      by (rule canonical_settles [OF k x]) (rule equal_records [OF assms(3-6)])
    ultimately show ?thesis by blast
  qed
  then show "settled t v" "settled u v" by (auto simp: settled_def)
qed

section \<open>Exchanging the two snapshots\<close>

definition flip_stats :: "merge_stats \<Rightarrow> merge_stats" where
  "flip_stats s = s\<lparr>selected_left := selected_right s, selected_right := selected_left s\<rparr>"

definition flip_state :: "merge_state \<Rightarrow> merge_state" where
  "flip_state st = st\<lparr>ms_stats := flip_stats (ms_stats st)\<rparr>"

definition flip_result :: "merge_result \<Rightarrow> merge_result" where
  "flip_result res = res\<lparr>mr_stats := flip_stats (mr_stats res)\<rparr>"

lemma fold_res_simulation:
  assumes "\<And>x s. x \<in> set xs \<Longrightarrow> g x (h s) = map_sum id h (f x s)"
  shows "fold_res g xs (h s) = map_sum id h (fold_res f xs s)"
  using assms
proof (induction xs arbitrary: s)
  case (Cons x xs)
  then show ?case by (cases "f x s") auto
qed simp

lemma state_encoding_inject:
  "state_encoding l = state_encoding r \<longleftrightarrow> sr_path l = sr_path r \<and> same_state l r"
  if "sr_path l = sr_path r"
  using that by (auto simp: state_encoding_def same_state_def content_bytes_append_inject to_le_bytes_inject)

definition state_digest_ok :: "externs \<Rightarrow> merkle_tree \<Rightarrow> merkle_tree \<Rightarrow> bool" where
  "state_digest_ok E t u \<longleftrightarrow> inj_on (blake3_derive E ''deltaweave sync state winner v1'')
     (state_encoding ` (tree_records t \<union> tree_records u))"

lemma state_hash_differs:
  assumes "state_digest_ok E t u" "mt_get t p = Some l" "mt_get u p = Some r"
    and "sr_path l = sr_path r" "\<not> same_state l r"
  shows "state_hash E l \<noteq> state_hash E r"
proof
  assume "state_hash E l = state_hash E r"
  moreover have "l \<in> tree_records t" "r \<in> tree_records u" using assms(2,3) by (auto simp: tree_records_def)
  ultimately have "state_encoding l = state_encoding r"
    using assms(1) by (auto simp: state_digest_ok_def state_hash_def dest: inj_onD)
  with assms(4,5) show False by (simp add: state_encoding_inject)
qed

lemma resolve_conflict_flip:
  assumes "state_hash E l \<noteq> state_hash E r" "sr_path l = sr_path r"
  shows "resolve_conflict E r l reason (flip_state st) = map_sum id flip_state (resolve_conflict E l r reason st)"
proof -
  obtain w x where "choose_winner E l r = (w, x)" by (cases "choose_winner E l r")
  moreover from this have "choose_winner E r l = (w, x)" using choose_winner_swap [OF assms(1)] by simp
  moreover obtain e v where "resolved_version E l r = Inl e \<or> resolved_version E l r = Inr v"
    by (cases "resolved_version E l r") auto
  moreover obtain e' q where "allocate_conflict_path E x (ms_occupied st) = Inl e' \<or>
      allocate_conflict_path E x (ms_occupied st) = Inr q"
    by (cases "allocate_conflict_path E x (ms_occupied st)") auto
  ultimately show ?thesis
    by (auto simp: resolve_conflict_def resolved_version_swap [of E r l] flip_state_def flip_stats_def
        Let_def assms(2))
qed

lemma merge_path_flip:
  assumes wf: "tree_wf E t" "tree_wf E u" and n: "normal_tree t" "normal_tree u" and d: "state_digest_ok E t u"
  shows "merge_path E u t p (flip_state st) = map_sum id flip_state (merge_path E t u p st)"
proof (cases "mt_get t p"; cases "mt_get u p")
  fix l r assume lr: "mt_get t p = Some l" "mt_get u p = Some r"
  have path: "sr_path l = sr_path r" using tree_wfD(1) [OF wf(1) lr(1)] tree_wfD(1) [OF wf(2) lr(2)] by simp
  note resolve = resolve_conflict_flip [OF state_hash_differs [OF d lr path] path]
  note eq = equal_records [OF wf n lr]
  have swap: "vv_relation (sr_version r) (sr_version l) = flip_relation (vv_relation (sr_version l) (sr_version r))"
    by (rule vv.rel_swap)
  have upd: "r\<lparr>sr_version := v\<rparr> = l\<lparr>sr_version := v\<rparr>" if "same_state l r" for v
    using that tree_wfD(3) [OF wf(1) lr(1)] tree_wfD(3) [OF wf(2) lr(2)]
    by (intro sync_record_eqI) (auto simp: record_ok_iff same_state_def)
  show ?thesis
  proof (cases "vv_relation (sr_version l) (sr_version r)")
    case Equal
    then show ?thesis
      using eq resolve lr swap
      by (cases "same_state l r") (auto simp: merge_path_def same_state_sym [of r l] take_equal_def
          flip_state_def flip_stats_def)
  next
    case Concurrent
    then show ?thesis
      using resolve lr swap upd
      by (cases "same_state l r") (auto simp: merge_path_def same_state_sym [of r l] take_equal_def
          flip_state_def flip_stats_def vv_merge_comm [of "sr_version r"])
  qed (use lr swap in \<open>auto simp: merge_path_def take_left_def take_right_def flip_state_def flip_stats_def\<close>)
qed (auto simp: merge_path_def take_left_def take_right_def flip_state_def flip_stats_def)

lemma merge_snapshots_flip:
  assumes "tree_wf E t" "tree_wf E u" "normal_tree t" "normal_tree u"
    and "state_digest_ok E t u" "no_collision E t u"
  shows "merge_snapshots E u t = map_sum id flip_result (merge_snapshots E t u)"
proof (cases "root_hash t = root_hash u \<and> mt_len t = mt_len u")
  case True
  then have "mt_records t = mt_records u" using root_hash_eq_iff [OF assms(6,1,2)] by blast
  with True show ?thesis
    by (simp add: merge_snapshots_def mt_record_list_def mt_len_def flip_result_def flip_stats_def zero_stats_def)
next
  case False
  let ?ps = "merge_paths t u"
  have ps: "merge_paths u t = ?ps" by (simp add: merge_paths_def sup_commute)
  have init: "flip_state (initial_merge ?ps) = initial_merge ?ps"
    by (simp add: flip_state_def flip_stats_def initial_merge_def zero_stats_def)
  have "fold_res (merge_path E u t) (sorted_list_of_fset ?ps) (flip_state (initial_merge ?ps)) =
      map_sum id flip_state (fold_res (merge_path E t u) (sorted_list_of_fset ?ps) (initial_merge ?ps))"
    by (rule fold_res_simulation) (rule merge_path_flip [OF assms(1-5)])
  then have "fold_res (merge_path E u t) (sorted_list_of_fset ?ps) (initial_merge ?ps) =
      map_sum id flip_state (fold_res (merge_path E t u) (sorted_list_of_fset ?ps) (initial_merge ?ps))"
    by (simp only: init)
  moreover have "\<not> (root_hash u = root_hash t \<and> mt_len u = mt_len t)" using False by auto
  ultimately show ?thesis
    using False by (cases "fold_res (merge_path E t u) (sorted_list_of_fset ?ps) (initial_merge ?ps)")
      (auto simp: merge_snapshots_def Let_def ps flip_result_def flip_state_def)
qed

end
