(* ===== verification/Merge_Props.thy ===== *)
theory Merge_Props
  imports Merge_Laws
begin

text \<open>
  The properties of \<open>merge_snapshots\<close>, \<open>allocate_conflict_path\<close> and \<open>actions_to_reach\<close>, each with a
  concrete instance. The instances merge two one-file snapshots that edited the same path
  concurrently, under a digest that is injective on the byte strings involved.
\<close>

section \<open>Applying actions\<close>

text \<open>The index adopts the record of every action it applies.\<close>

definition adopt :: "apply_action \<Rightarrow> (wire_path, sync_record) fmap \<Rightarrow> (wire_path, sync_record) fmap" where
  "adopt action m = (case action of Materialize r \<Rightarrow> fmupd (sr_path r) r m | Delete r \<Rightarrow> fmupd (sr_path r) r m)"

lemma adopt_action_for:
  assumes "tree_wf E v"
  shows "fmlookup (fold adopt (action_for cur v p) m) q =
    (if q = p \<and> action_for cur v p \<noteq> [] then mt_get v p else fmlookup m q)"
  using tree_wfD(1) [OF assms, of p]
  by (auto simp: action_for_def adopt_def split: option.splits)

lemma adopt_actions:
  assumes "tree_wf E v"
  shows "fmlookup (fold adopt (concat (map (action_for cur v) ps)) m) q =
    (if q \<in> set ps \<and> action_for cur v q \<noteq> [] then mt_get v q else fmlookup m q)"
  by (induction ps arbitrary: m) (auto simp: adopt_action_for [OF assms])

lemma actions_to_reach_lookup:
  assumes "tree_wf E cur" "result_tree E res = Inr v" "tree_wf E v" "no_collision E cur v"
  obtains acts where "actions_to_reach E cur res = Inr (Some acts)"
    "\<forall>q. fmlookup (fold adopt acts (mt_records cur)) q =
       (case mt_get v q of None \<Rightarrow> mt_get cur q | Some k \<Rightarrow> Some k)"
    "acts = [] \<longleftrightarrow> (\<forall>q k. mt_get v q = Some k \<longrightarrow> mt_get cur q = Some k)"
    "\<forall>a \<in> set acts. case a of Materialize r \<Rightarrow> live r \<and> mt_get v (sr_path r) = Some r
       | Delete r \<Rightarrow> \<not> live r \<and> mt_get v (sr_path r) = Some r"
proof -
  let ?D = "{p. mt_get cur p \<noteq> mt_get v p}"
  let ?acts = "concat (map (action_for cur v) (sorted_list_of_set ?D))"
  have fin: "finite ?D"
  proof (rule finite_subset)
    show "?D \<subseteq> fset (fmdom (mt_records cur) |\<union>| fmdom (mt_records v))"
      by (auto simp: mt_get_def fmlookup_dom_iff)
  qed simp
  have eq: "actions_to_reach E cur res = Inr (Some ?acts)"
    by (simp add: actions_to_reach_def assms(2) different_paths_eq [OF assms(4,1,3)])
  moreover have "\<forall>q. fmlookup (fold adopt ?acts (mt_records cur)) q =
       (case mt_get v q of None \<Rightarrow> mt_get cur q | Some k \<Rightarrow> Some k)"
    using fin by (auto simp: adopt_actions [OF assms(3)] action_for_def mt_get_def split: option.split)
  moreover have "?acts = [] \<longleftrightarrow> (\<forall>q k. mt_get v q = Some k \<longrightarrow> mt_get cur q = Some k)"
    using fin by (auto simp: action_for_def split: option.splits if_splits)
  moreover have "\<forall>a \<in> set ?acts. case a of Materialize r \<Rightarrow> live r \<and> mt_get v (sr_path r) = Some r
       | Delete r \<Rightarrow> \<not> live r \<and> mt_get v (sr_path r) = Some r"
    using fin tree_wfD(1) [OF assms(3)]
    by (auto simp: action_for_def live_def split: option.splits if_splits)
  ultimately show ?thesis using that by blast
qed

section \<open>Surviving content\<close>

lemma canonical_or_copy:
  assumes "conflicting l r" "resolved_version E l r = Inr v" "x \<in> {l, r}" "live x" "sr_kind x = File"
    and "record_ok l" "record_ok r"
  shows "(\<exists>k. canonical E (Some l) (Some r) = Some k \<and> live k \<and> sr_kind k = File \<and>
             sr_content_hash k = sr_content_hash x) \<or>
         (\<exists>c. copy_of E (Some l) (Some r) = Some c \<and> live c \<and> sr_kind c = File \<and>
             sr_content_hash c = sr_content_hash x)"
proof -
  obtain w y where wy: "choose_winner E l r = (w, y)" by (cases "choose_winner E l r")
  have can: "canonical E (Some l) (Some r) = Some (w\<lparr>sr_version := v\<rparr>)"
    using assms(1,2) wy by (simp add: resolution_def)
  have parts: "{w, y} = {l, r}" by (rule conflict_parts [OF wy])
  then have ok: "record_ok w" "x = w \<or> x = y" using assms(3,6,7) by auto
  show ?thesis
  proof (cases "x = w")
    case True
    with can assms(4,5) show ?thesis by (simp add: live_def)
  next
    case False
    with ok have x: "x = y" by simp
    show ?thesis
    proof (cases "should_preserve_loser w y")
      case True
      then have "copy_of E (Some l) (Some r) = Some (y\<lparr>sr_version := v, sr_tombstone := False\<rparr>)"
        using assms(1,2) wy by simp
      with x assms(4,5) show ?thesis by (simp add: live_def)
    next
      case False
      with x assms(4,5) have w: "live w" "sr_content_hash w = sr_content_hash x"
        by (auto simp: should_preserve_loser_def live_def)
      moreover have "sr_content_hash x \<noteq> None"
        using assms(3-7) by (auto simp: record_ok_iff)
      ultimately have "sr_kind w = File" using ok(1) by (auto simp: record_ok_iff split: if_splits)
      with can w show ?thesis by (simp add: live_def)
    qed
  qed
qed

lemma merged_map_survives:
  assumes m: "merged_map E t u m" and wf: "tree_wf E t" "tree_wf E u"
    and x: "mt_get t p = Some x \<or> mt_get u p = Some x" "live x" "sr_kind x = File"
  shows "(\<exists>q k. fmlookup m q = Some k \<and> live k \<and> sr_kind k = File \<and> sr_content_hash k = sr_content_hash x) \<or>
    (\<exists>y. (mt_get t p = Some y \<or> mt_get u p = Some y) \<and> vv_relation (sr_version x) (sr_version y) = Before)"
proof -
  note ok = m [unfolded merged_map_def]
  have p: "p \<in> fset (merge_paths t u)" using x(1) by (auto simp: merge_paths_def mt_get_def fmlookup_dom_iff)
  from merged_okD(1,2) [OF ok p] obtain k where k: "canonical_at E t u p = Some k" "fmlookup m p = Some k" by auto
  show ?thesis
  proof (cases "mt_get t p"; cases "mt_get u p")
    fix l r assume lr: "mt_get t p = Some l" "mt_get u p = Some r"
    show ?thesis
    proof (cases "conflicting l r")
      case True
      with k lr obtain v where v: "resolved_version E l r = Inr v"
        by (auto simp: resolution_def split: sum.splits)
      have "x \<in> {l, r}" using x(1) lr by auto
      from canonical_or_copy [OF True v this x(2,3) tree_wfD(3) [OF wf(1) lr(1)] tree_wfD(3) [OF wf(2) lr(2)]]
      show ?thesis
      proof (elim disjE exE conjE)
        fix c assume c: "copy_of E (Some l) (Some r) = Some c" "live c" "sr_kind c = File"
          "sr_content_hash c = sr_content_hash x"
        then have "copy_at E t u p = Some c" using lr by simp
        from merged_okD(4) [OF ok p this] obtain q where "fmlookup m q = Some (c\<lparr>sr_path := q\<rparr>)" by blast
        with c show ?thesis by (intro disjI1 exI [of _ q] exI [of _ "c\<lparr>sr_path := q\<rparr>"]) (simp add: live_def)
      qed (use k lr in auto)
    next
      case False
      show ?thesis
      proof (cases "vv_relation (sr_version l) (sr_version r)")
        case Before
        with False lr k x show ?thesis by auto
      next
        case After
        with False lr k x show ?thesis by (auto dest: Before_after)
      next
        case Equal
        then have "live k \<and> sr_kind k = File \<and> sr_content_hash k = sr_content_hash x"
          using False lr k(1) x by (auto simp: conflicting_def same_state_def live_def)
        with k(2) show ?thesis by blast
      next
        case Concurrent
        then have "live k \<and> sr_kind k = File \<and> sr_content_hash k = sr_content_hash x"
          using False lr k(1) x by (auto simp: conflicting_def same_state_def live_def)
        with k(2) show ?thesis by blast
      qed
    qed
  qed (use k x in auto)
qed

section \<open>A concurrent edit\<close>

text \<open>
  A digest of the length and the byte sum of its input. It is injective on the encodings of the two
  example snapshots, which edited \<open>a\<close> on two replicas.
\<close>

definition mix :: "u8 list \<Rightarrow> hash32" where
  "mix bs = from_bytes (of_nat (length bs) # sum_list bs # replicate 30 0)"

definition mix_digest :: externs where
  "mix_digest = ref_hex mix (\<lambda>_. mix)"

lemma as_bytes_mix [simp]: "as_bytes (mix bs) = of_nat (length bs) # sum_list bs # replicate 30 0"
  by (simp add: mix_def)

lemma mix_inject: "mix bs = mix cs \<longleftrightarrow> of_nat (length bs) = (of_nat (length cs) :: u8) \<and> sum_list bs = sum_list cs"
  by (metis as_bytes_mix list.inject mix_def)

definition edit_1 :: sync_record where "edit_1 = example_record ''a'' 1 1 7"
definition edit_2 :: sync_record where "edit_2 = example_record ''a'' 2 1 9"

definition single_tree :: "sync_record \<Rightarrow> merkle_tree" where
  "single_tree r = \<lparr>mt_root = build_root mix_digest (index_records [r]), mt_records = index_records [r]\<rparr>"

definition tree_1 :: merkle_tree where "tree_1 = single_tree edit_1"
definition tree_2 :: merkle_tree where "tree_2 = single_tree edit_2"

lemma edits_ok:
  "path_ok (sr_path edit_1)" "record_ok edit_1" "path_ok (sr_path edit_2)" "record_ok edit_2"
proof -
  have "path_ok ''a''" by code_simp
  then show "path_ok (sr_path edit_1)" "path_ok (sr_path edit_2)"
    by (simp_all add: edit_1_def edit_2_def example_record_def)
qed (simp_all add: record_ok_iff example_record_def edit_1_def edit_2_def)

lemma single_tree_wf: "path_ok (sr_path r) \<Longrightarrow> record_ok r \<Longrightarrow> tree_wf mix_digest (single_tree r)"
  by (rule from_records_wf [of _ "[r]"]) (simp_all add: from_records_Inr single_tree_def)

lemma mt_get_single: "mt_get (single_tree r) p = (if p = sr_path r then Some r else None)"
  by (simp add: mt_get_def single_tree_def index_records_def)

lemma trees_wf: "tree_wf mix_digest tree_1" "tree_wf mix_digest tree_2"
  by (simp_all add: tree_1_def tree_2_def single_tree_wf edits_ok)

lemma trees_normal: "normal_tree tree_1" "normal_tree tree_2"
  by (auto simp: normal_tree_def tree_1_def tree_2_def single_tree_def index_records_def fmpred_iff
      vv_normal_def edit_1_def edit_2_def example_record_def)

lemma trees_records: "tree_records tree_1 = {edit_1}" "tree_records tree_2 = {edit_2}"
  by (auto simp: tree_records_def tree_1_def tree_2_def mt_get_single)

lemma one_bytes: "sum_list (to_le_bytes (1 :: u64)) = 1" "sum_list (to_le_bytes (3 :: u64)) = 3"
  by code_simp+

lemma version_sum: "sum_list (version_bytes (fmupd (hash_fill r) 1 fmempty)) = 32 * r + 1"
  by (simp add: version_bytes_def vv_iter_def one_bytes sum_list_replicate)

lemma edit_sum:
  "sum_list (record_encoding (example_record ''a'' r 1 x)) = 103 + 32 * x + 32 * r"
  "length (record_encoding (example_record ''a'' r 1 x)) = 93"
proof -
  have "sum_list (str_bytes ''a'') = 97" by code_simp
  then show "sum_list (record_encoding (example_record ''a'' r 1 x)) = 103 + 32 * x + 32 * r"
    by (simp add: record_encoding_def example_record_def update_sized_def one_bytes version_sum
        content_bytes_def bool_byte_def sum_list_replicate)
  show "length (record_encoding (example_record ''a'' r 1 x)) = 93"
    by (simp add: record_encoding_def example_record_def update_sized_def content_bytes_def version_bytes_def
        vv_iter_def)
qed

definition leaf_bytes :: "sync_record \<Rightarrow> u8 list" where
  "leaf_bytes r = 1 # as_bytes (mix (record_encoding r))"

definition root_bytes :: "sync_record \<Rightarrow> u8 list" where
  "root_bytes r = 0 # entry_encoding (''a'', mix (leaf_bytes r), 1)"

lemma single_inputs:
  assumes "sr_path r = ''a''"
  shows "node_inputs (mt_root (single_tree r)) = [root_bytes r, leaf_bytes r]"
proof -
  have root: "mt_root (single_tree r) = finalize mix_digest (MerkleNode None
       (fmupd ''a'' (MerkleNode (Some (mix (record_encoding r))) fmempty hash_default 0) fmempty) hash_default 0)"
    using assms by (simp add: single_tree_def build_root_def index_records_def merkle_insert_def
        components_def node_default_def get_or_def logical_hash_def mix_digest_def ref_hex_def)
  have "saturating_add 0 1 = (1 :: u64)" by (simp add: saturating_add_def)
  then show ?thesis
    by (simp add: root finalize.simps node_encoding_def content_bytes_def child_entries_def Let_def
        fmmap_single leaf_bytes_def root_bytes_def) (simp add: mix_digest_def ref_hex_def)
qed

lemma edit_inputs:
  "node_inputs (mt_root tree_1) = [root_bytes edit_1, leaf_bytes edit_1]"
  "node_inputs (mt_root tree_2) = [root_bytes edit_2, leaf_bytes edit_2]"
  by (simp_all add: tree_1_def tree_2_def single_inputs edit_1_def edit_2_def example_record_def)

lemma trees_no_collision: "no_collision mix_digest tree_1 tree_2"
proof -
  have leaf: "length (leaf_bytes r) = 33"
    "sum_list (leaf_bytes r) = 1 + of_nat (length (record_encoding r)) + sum_list (record_encoding r)" for r
    by (simp_all add: leaf_bytes_def sum_list_replicate)
  have "sum_list (str_bytes ''a'') = 97" by code_simp
  then have root: "length (root_bytes r) = 50"
    "sum_list (root_bytes r) = 132 + sum_list (leaf_bytes r)" for r
    by (simp_all add: root_bytes_def entry_encoding_def update_sized_def one_bytes leaf(1) sum_list_replicate)
  have derive: "blake3_derive mix_digest = (\<lambda>_. mix)" by (simp add: mix_digest_def ref_hex_def)
  have "sum_list (leaf_bytes edit_1) = 197" "sum_list (leaf_bytes edit_2) = (37 :: u8)"
    by (simp_all add: leaf edit_1_def edit_2_def edit_sum)
  then show ?thesis
    by (auto simp: no_collision_def edit_inputs trees_records derive inj_on_def mix_inject leaf(1) root)
      (simp_all add: edit_1_def edit_2_def edit_sum)
qed

lemma trees_state_ok: "state_digest_ok mix_digest tree_1 tree_2"
  by (auto simp: state_digest_ok_def trees_records inj_on_def mix_digest_def ref_hex_def mix_inject
      state_encoding_def edit_1_def edit_2_def example_record_def content_bytes_def sum_list_replicate)

definition edit_version :: version_vector where
  "edit_version = vv_observe (vv_merge (sr_version edit_1) (sr_version edit_2))
     (conflict_resolver_replica mix_digest) 1"

definition conflict_name :: wire_path where
  "conflict_name = ''a.conflict-5dc700000000''"

definition merged_edits :: merge_result where
  "merged_edits =
     \<lparr>mr_records = [edit_1\<lparr>sr_version := edit_version\<rparr>,
        edit_2\<lparr>sr_path := conflict_name, sr_version := edit_version, sr_tombstone := False\<rparr>],
      mr_conflicts = [\<lparr>cr_path = ''a'', cr_conflict_path = Some conflict_name,
        cr_winner_hash = logical_hash mix_digest edit_1, cr_loser_hash = logical_hash mix_digest edit_2,
        cr_reason = ConcurrentEdit\<rparr>],
      mr_stats = \<lparr>equal_count = 0, selected_left = 0, selected_right = 0, conflict_count = 1,
        conflict_copies = 1\<rparr>\<rparr>"

lemma edit_fields [simp]: "sr_path edit_1 = ''a''" "sr_path edit_2 = ''a''"
  by (simp_all add: edit_1_def edit_2_def example_record_def)

lemma edits_concurrent: "vv_relation (sr_version edit_1) (sr_version edit_2) = Concurrent"
proof -
  have "\<not> vv_le (sr_version edit_1) (sr_version edit_2)"
    unfolding vv_le_def by (rule notI, drule spec [of _ "hash_fill 1"]) (simp add: edit_1_def edit_2_def example_record_def)
  moreover have "\<not> vv_le (sr_version edit_2) (sr_version edit_1)"
    unfolding vv_le_def by (rule notI, drule spec [of _ "hash_fill 2"]) (simp add: edit_1_def edit_2_def example_record_def)
  ultimately show ?thesis by (simp add: vv.rel_Concurrent_iff)
qed

lemma edit_winner: "choose_winner mix_digest edit_1 edit_2 = (edit_1, edit_2)"
proof -
  have "state_hash mix_digest edit_2 \<le> state_hash mix_digest edit_1"
    by (simp add: state_hash_def mix_digest_def ref_hex_def less_eq_hash32.rep_eq state_encoding_def
        edit_1_def edit_2_def example_record_def content_bytes_def sum_list_replicate bool_byte_def one_bytes)
  then show ?thesis by (simp add: choose_winner_def edit_1_def edit_2_def example_record_def)
qed

lemma edit_resolved: "resolved_version mix_digest edit_1 edit_2 = Inr edit_version"
proof -
  have "hash_fill b \<noteq> conflict_resolver_replica mix_digest" for b
  proof
    assume "hash_fill b = conflict_resolver_replica mix_digest"
    then have "hd (as_bytes (conflict_resolver_replica mix_digest)) = hd (as_bytes (hash_fill b))"
      "last (as_bytes (conflict_resolver_replica mix_digest)) = last (as_bytes (hash_fill b))" by simp_all
    then have "(45 :: u8) = b" "0 = b"
      by (simp_all add: conflict_resolver_replica_def digest_def mix_digest_def ref_hex_def)
    then show False by simp
  qed
  then show ?thesis
    by (simp add: resolved_version_def edit_version_def edit_1_def edit_2_def example_record_def
        checked_add_def ok_or_def Let_def)
qed

lemma edit_token: "take 12 (to_hex mix_digest (logical_hash mix_digest edit_2)) = ''5dc700000000''"
proof -
  have "as_bytes (logical_hash mix_digest edit_2) = 93 # 199 # replicate 30 0"
    by (simp add: logical_hash_def mix_digest_def ref_hex_def edit_2_def edit_sum)
  moreover have "take 12 (ref_encode (93 # 199 # replicate 30 0)) = ''5dc700000000''" by code_simp
  ultimately show ?thesis by (simp add: to_hex_def mix_digest_def ref_hex_def)
qed

lemma edit_conflict_path: "allocate_conflict_path mix_digest edit_2 {|''a''|} = Inr conflict_name"
proof -
  have "build_conflict_path ''a'' ''5dc700000000'' None = Inr conflict_name"
    unfolding conflict_name_def by code_simp
  moreover have "conflict_name \<noteq> ''a''" by (simp add: conflict_name_def)
  ultimately show ?thesis by (simp add: allocate_conflict_path_def Let_def edit_token)
qed

lemma two_values: "map snd (sorted_list_of_fmap (fmupd conflict_name r (fmupd ''a'' q fmempty))) = [q, r]"
proof -
  have "sorted_list_of_fset (fset_of_list [conflict_name, ''a'']) = [''a'', conflict_name]"
    unfolding sorted_list_of_fset_of_list by (simp add: conflict_name_def)
  then have "sorted_list_of_fset {|conflict_name, ''a''|} = [''a'', conflict_name]" by simp
  then show ?thesis by (simp add: sorted_list_of_fmap_def) (simp add: conflict_name_def)
qed

lemma edits_merge: "merge_snapshots mix_digest tree_1 tree_2 = Inr merged_edits"
proof -
  have get: "mt_get tree_1 ''a'' = Some edit_1" "mt_get tree_2 ''a'' = Some edit_2"
    by (simp_all add: tree_1_def tree_2_def mt_get_single)
  have content: "sr_content_hash edit_1 \<noteq> sr_content_hash edit_2" "\<not> sr_tombstone edit_2" "sr_kind edit_2 = File"
    by (simp_all add: edit_1_def edit_2_def example_record_def)
  have "root_hash tree_1 \<noteq> root_hash tree_2"
    using root_hash_eq_iff [OF trees_no_collision trees_wf] get content by (auto simp: mt_get_def)
  moreover have "merge_paths tree_1 tree_2 = {|''a''|}"
    by (simp add: merge_paths_def tree_1_def tree_2_def single_tree_def index_records_def)
  moreover have "\<not> same_state edit_1 edit_2" using content by (simp add: same_state_def)
  ultimately show ?thesis
    using content get
    by (simp add: merge_snapshots_def Let_def merge_path_def edits_concurrent resolve_conflict_def
        edit_winner edit_resolved should_preserve_loser_def initial_merge_def edit_conflict_path
        merged_edits_def zero_stats_def two_values)
qed

section \<open>Properties\<close>

text \<open>
  C1: no live file is lost by a merge. For every live file of either snapshot, the merged namespace
  holds a live file with the same content hash, unless the other snapshot has a causally later record
  of that very path (a newer edit or deletion that had seen it).
\<close>
theorem merge_keeps_live_files:
  assumes "merge_snapshots E t u = Inr res" "hex_crate_ok E" "tree_wf E t" "tree_wf E u" "no_collision E t u"
    and "mt_get t p = Some x \<or> mt_get u p = Some x" "live x" "sr_kind x = File"
  shows "(\<exists>k \<in> set (mr_records res). live k \<and> sr_kind k = File \<and> sr_content_hash k = sr_content_hash x) \<or>
    (\<exists>y. (mt_get t p = Some y \<or> mt_get u p = Some y) \<and> vv_relation (sr_version x) (sr_version y) = Before)"
proof -
  from merge_snapshots_map [OF assms(1-5)] obtain m where
    m: "mr_records res = map_values m" "merged_map E t u m" .
  have "k \<in> set (mr_records res)" if "fmlookup m q = Some k" for q k
    unfolding m(1) set_map_values using that by blast
  with merged_map_survives [OF m(2) assms(3,4,6-8)] show ?thesis by blast
qed

theorem merge_keeps_live_files_witness:
  "(\<exists>k \<in> set (mr_records merged_edits). live k \<and> sr_kind k = File \<and> sr_content_hash k = sr_content_hash edit_2)"
proof -
  have get: "mt_get tree_2 ''a'' = Some edit_2" "mt_get tree_1 ''a'' = Some edit_1"
    by (simp_all add: tree_1_def tree_2_def mt_get_single)
  moreover have "live edit_2" "sr_kind edit_2 = File" by (simp_all add: edit_2_def example_record_def live_def)
  moreover have "vv_relation (sr_version edit_2) (sr_version y) \<noteq> Before"
    if "mt_get tree_1 ''a'' = Some y \<or> mt_get tree_2 ''a'' = Some y" for y
    using that get vv.rel_swap [of "sr_version edit_2" "sr_version edit_1"] edits_concurrent
    by (auto simp: vv.rel_refl)
  ultimately show ?thesis
    using merge_keeps_live_files [OF edits_merge _ trees_wf trees_no_collision, of "''a''" edit_2]
    by (auto simp: mix_digest_def ref_hex_ok)
qed

text \<open>
  C21: a merge yields a valid snapshot: \<open>MergeResult::tree\<close> accepts it, every path of either input is
  present with a version vector that dominates the inputs' vectors there, and every additional path is
  a live conflict copy that lies in the same directory as a path both inputs hold and is named by
  neither.
\<close>
theorem merge_result_is_snapshot:
  assumes "merge_snapshots E t u = Inr res" "hex_crate_ok E" "tree_wf E t" "tree_wf E u" "no_collision E t u"
  shows "\<exists>v. result_tree E res = Inr v \<and> tree_wf E v \<and> mt_record_list v = mr_records res \<and>
    (\<forall>p x. mt_get t p = Some x \<or> mt_get u p = Some x \<longrightarrow>
       (\<exists>k. mt_get v p = Some k \<and> vv_le (sr_version x) (sr_version k))) \<and>
    (\<forall>q k. mt_get v q = Some k \<and> mt_get t q = None \<and> mt_get u q = None \<longrightarrow>
       live k \<and> sr_kind k = File \<and>
       (\<exists>p. mt_get t p \<noteq> None \<and> mt_get u p \<noteq> None \<and> butlast (components q) = butlast (components p)))"
proof -
  from merge_snapshots_map [OF assms] obtain m where m: "mr_records res = map_values m" "merged_map E t u m" .
  from merged_map_tree [OF m(2) assms(3,4) m(1)] obtain v where
    v: "result_tree E res = Inr v" "mt_records v = m" "tree_wf E v" .
  note ok = m(2) [unfolded merged_map_def]
  have "\<exists>k. mt_get v p = Some k \<and> vv_le (sr_version x) (sr_version k)"
    if x: "mt_get t p = Some x \<or> mt_get u p = Some x" for p x
  proof -
    have p: "p \<in> fset (merge_paths t u)" using x by (auto simp: merge_paths_def mt_get_def fmlookup_dom_iff)
    from merged_okD(1,2) [OF ok p] v(2) obtain k where "canonical_at E t u p = Some k" "mt_get v p = Some k"
      by (auto simp: mt_get_def)
    with canonical_above [OF _ x] show ?thesis by blast
  qed
  moreover have "live k \<and> sr_kind k = File \<and>
       (\<exists>p. mt_get t p \<noteq> None \<and> mt_get u p \<noteq> None \<and> butlast (components q) = butlast (components p))"
    if q: "mt_get v q = Some k" "mt_get t q = None" "mt_get u q = None" for q k
  proof -
    have "q |\<notin>| merge_paths t u" using q by (auto simp: merge_paths_def mt_get_def fmlookup_dom_iff)
    from merged_okD(3) [OF ok this, of k] q(1) v(2) obtain p c where
      p: "copy_at E t u p = Some c" "k = c\<lparr>sr_path := q\<rparr>" "butlast (components q) = butlast (components p)"
      by (auto simp: mt_get_def)
    from p(1) have "mt_get t p \<noteq> None \<and> mt_get u p \<noteq> None" by (rule copy_of_Some) auto
    with p copy_valid [OF assms(3,4) p(1)] show ?thesis by (auto simp: live_def)
  qed
  ultimately show ?thesis using v m(1) by (auto simp: mt_record_list_def)
qed

theorem merge_result_is_snapshot_witness:
  "\<exists>v. result_tree mix_digest merged_edits = Inr v \<and> mt_record_list v = mr_records merged_edits \<and>
     (\<exists>k. mt_get v ''a'' = Some k \<and> vv_le (sr_version edit_2) (sr_version k))"
proof -
  have "mt_get tree_2 ''a'' = Some edit_2" by (simp add: tree_2_def mt_get_single)
  with merge_result_is_snapshot [OF edits_merge _ trees_wf trees_no_collision] show ?thesis
    by (auto simp: mix_digest_def ref_hex_ok)
qed

text \<open>
  C3: merging is independent of orientation. Exchanging the two snapshots yields the same records and
  the same conflict audit, or the same error, with the left and right counters exchanged; this holds
  for version vectors without explicit zero counters when the winner digest does not collide on the
  record states involved.
\<close>
theorem merge_orientation_independent:
  assumes "tree_wf E t" "tree_wf E u" "normal_tree t" "normal_tree u"
    and "state_digest_ok E t u" "no_collision E t u"
  shows "merge_snapshots E u t = map_sum id flip_result (merge_snapshots E t u)"
  using assms by (rule merge_snapshots_flip)

theorem merge_orientation_independent_witness:
  "merge_snapshots mix_digest tree_2 tree_1 = Inr merged_edits"
  using merge_orientation_independent [OF trees_wf trees_normal trees_state_ok trees_no_collision]
  by (simp add: edits_merge flip_result_def flip_stats_def merged_edits_def)

text \<open>
  C2: a merge settles: once a result has been adopted, merging either original snapshot with it again
  returns exactly its records and reports no conflict, so repeated exchange between the replicas
  reaches a fixed point.
\<close>
theorem merge_converges:
  assumes "merge_snapshots E t u = Inr res" "result_tree E res = Inr v" "hex_crate_ok E"
    and "tree_wf E t" "tree_wf E u" "normal_tree t" "normal_tree u"
    and "no_collision E t u" "no_collision E t v" "no_collision E u v"
  shows "(\<exists>res'. merge_snapshots E t v = Inr res' \<and> mr_records res' = mr_records res \<and> mr_conflicts res' = []) \<and>
    (\<exists>res'. merge_snapshots E u v = Inr res' \<and> mr_records res' = mr_records res \<and> mr_conflicts res' = [])"
proof -
  from merge_snapshots_map [OF assms(1,3-5,8)] obtain m where m: "mr_records res = map_values m" "merged_map E t u m" .
  from merged_map_tree [OF m(2) assms(4,5) m(1)] assms(2) have v: "mt_records v = m" "tree_wf E v" by auto
  note settled = merged_map_settled [OF m(2) v(1) assms(4-7)]
  have "mt_record_list v = mr_records res" using m(1) v(1) by (simp add: mt_record_list_def)
  with settled_merge [OF settled(1) assms(4) v(2) assms(9,3)] settled_merge [OF settled(2) assms(5) v(2) assms(10,3)]
  show ?thesis by metis
qed

definition adopted :: merge_result where
  "adopted = \<lparr>mr_records = [example_a], mr_conflicts = [], mr_stats = zero_stats\<lparr>selected_right := 1\<rparr>\<rparr>"

lemma adopted_facts:
  "tree_wf length_digest empty_tree" "tree_wf length_digest one_tree"
  "normal_tree empty_tree" "normal_tree one_tree" "no_collision length_digest one_tree one_tree"
  "merge_snapshots length_digest empty_tree one_tree = Inr adopted"
  "result_tree length_digest adopted = Inr one_tree" "hex_crate_ok length_digest"
proof -
  show wf: "tree_wf length_digest empty_tree" "tree_wf length_digest one_tree"
    using from_records_wf [OF example_trees(1)] from_records_wf [OF example_trees(2)] example_a_ok by simp_all
  show "normal_tree empty_tree" "normal_tree one_tree"
    by (auto simp: normal_tree_def empty_tree_def one_tree_def index_records_def fmpred_iff vv_normal_def
        example_record_def)
  show "no_collision length_digest one_tree one_tree"
    using example_no_collision by (auto simp: no_collision_def intro: inj_on_subset)
  have "mt_records empty_tree = fmempty" "mt_records one_tree = fmupd ''a'' example_a fmempty"
    by (simp_all add: empty_tree_def one_tree_def index_records_def example_record_def)
  moreover have "root_hash empty_tree \<noteq> root_hash one_tree"
    using root_hash_eq_iff [OF example_no_collision wf] calculation
    by (metis fmempty_lookup fmupd_lookup option.distinct(1))
  ultimately show "merge_snapshots length_digest empty_tree one_tree = Inr adopted"
    by (simp add: merge_snapshots_def Let_def merge_paths_def merge_path_def mt_get_def take_right_def
        initial_merge_def adopted_def zero_stats_def)
  show "result_tree length_digest adopted = Inr one_tree"
    by (simp add: result_tree_def adopted_def example_trees(2))
  show "hex_crate_ok length_digest" by (simp add: length_digest_def ref_hex_ok)
qed

theorem merge_converges_witness:
  "\<exists>res'. merge_snapshots length_digest empty_tree one_tree = Inr res' \<and> mr_records res' = [example_a] \<and>
     mr_conflicts res' = []"
  using merge_converges [OF adopted_facts(6,7,8,1,2,3,4) example_no_collision example_no_collision adopted_facts(5)]
  by (simp add: adopted_def)

text \<open>
  \<open>actions_to_reach\<close> computes exactly the work that is missing: it never panics on a valid
  snapshot, adopting its actions makes every record of the desired namespace current and leaves other
  paths alone, it is empty exactly when nothing is missing, and it deletes only tombstones and
  materializes only live records.
\<close>
theorem actions_reach_desired:
  assumes "tree_wf E cur" "result_tree E res = Inr v" "tree_wf E v" "no_collision E cur v"
  shows "\<exists>acts. actions_to_reach E cur res = Inr (Some acts) \<and>
    (\<forall>q. fmlookup (fold adopt acts (mt_records cur)) q =
       (case mt_get v q of None \<Rightarrow> mt_get cur q | Some k \<Rightarrow> Some k)) \<and>
    (acts = [] \<longleftrightarrow> (\<forall>q k. mt_get v q = Some k \<longrightarrow> mt_get cur q = Some k)) \<and>
    (\<forall>a \<in> set acts. case a of Materialize r \<Rightarrow> live r \<and> mt_get v (sr_path r) = Some r
       | Delete r \<Rightarrow> \<not> live r \<and> mt_get v (sr_path r) = Some r)"
  by (rule actions_to_reach_lookup [OF assms]) (intro exI conjI, assumption+)

theorem actions_reach_desired_witness:
  "\<exists>acts. actions_to_reach length_digest empty_tree adopted = Inr (Some acts) \<and> acts \<noteq> [] \<and>
     fmlookup (fold adopt acts (mt_records empty_tree)) ''a'' = Some example_a"
proof -
  have get: "mt_get empty_tree ''a'' = None" "mt_get one_tree ''a'' = Some example_a"
    by (simp_all add: mt_get_def empty_tree_def one_tree_def index_records_def example_record_def)
  from actions_reach_desired [OF adopted_facts(1,7,2) example_no_collision] obtain acts where
    acts: "actions_to_reach length_digest empty_tree adopted = Inr (Some acts)"
      "\<forall>q. fmlookup (fold adopt acts (mt_records empty_tree)) q =
         (case mt_get one_tree q of None \<Rightarrow> mt_get empty_tree q | Some k \<Rightarrow> Some k)"
      "acts = [] \<longleftrightarrow> (\<forall>q k. mt_get one_tree q = Some k \<longrightarrow> mt_get empty_tree q = Some k)" by blast
  moreover have "acts \<noteq> []" using acts(3) get by auto
  ultimately show ?thesis using get by auto
qed

text \<open>
  Conflict names can be refused although room is left. The stem of a losing file is cut to the
  bytes that its extension leaves over, and the cut can turn an accepted name into a reserved device
  name. For a file \<open>CONX\<close> with a 230-byte extension the first candidate is rejected as \<open>ReservedName\<close>,
  and \<open>allocate_conflict_path\<close> propagates that error instead of trying another candidate.
\<close>
theorem conflict_name_can_be_reserved:
  "path_ok (''CONX.'' @ replicate 229 CHR ''e'') \<and>
   (\<exists>name. build_conflict_path (''CONX.'' @ replicate 229 CHR ''e'') ''5dc700000000'' None =
      Inl (ConflictPath (ReservedName name)))"
proof -
  have "path_ok (''CONX.'' @ replicate 229 CHR ''e'')" by code_simp
  moreover have "build_conflict_path (''CONX.'' @ replicate 229 CHR ''e'') ''5dc700000000'' None =
      Inl (ConflictPath (ReservedName (''CON.conflict-5dc700000000.'' @ replicate 229 CHR ''e'')))"
    by code_simp
  ultimately show ?thesis by blast
qed

end
