(* ===== verification/Core_Manifest.thy ===== *)
theory Core_Manifest
  imports Core_Hash
begin

text \<open>
  Chunking profiles and file manifests of \<^verbatim>\<open>crates/deltaweave-core/src/lib.rs\<close>: the FastCDC
  parameters with their validation, the per-file list of content-addressed extents, the structural
  validation every manifest passes before it is stored or trusted, and the domain-separated
  manifest identity. The abstract contract \<open>manifest_spec\<close> says what an accepted manifest is.
\<close>

section \<open>Chunking profiles\<close>

definition MANIFEST_SCHEMA_V1 :: u16 where
  "MANIFEST_SCHEMA_V1 = 1"

record chunking_profile =
  cp_version :: u16
  cp_min_size :: u32
  cp_avg_size :: u32
  cp_max_size :: u32

definition DEFAULT_PROFILE :: chunking_profile where
  "DEFAULT_PROFILE = \<lparr>cp_version = 1, cp_min_size = 64 * 1024, cp_avg_size = 256 * 1024,
     cp_max_size = 1024 * 1024\<rparr>"

definition LARGE_FILE_PROFILE :: chunking_profile where
  "LARGE_FILE_PROFILE = \<lparr>cp_version = 1, cp_min_size = 512 * 1024, cp_avg_size = 1024 * 1024,
     cp_max_size = 4 * 1024 * 1024\<rparr>"

definition for_file_size :: "chunking_profile \<Rightarrow> u64 \<Rightarrow> chunking_profile" where
  "for_file_size p sz =
     (if cp_version p = cp_version DEFAULT_PROFILE \<and>
         cp_min_size p = cp_min_size DEFAULT_PROFILE \<and>
         cp_avg_size p = cp_avg_size DEFAULT_PROFILE \<and>
         cp_max_size p = cp_max_size DEFAULT_PROFILE \<and>
         8 * 1024 * 1024 * 1024 \<le> sz
      then LARGE_FILE_PROFILE else p)"

datatype profile_error =
    UnsupportedProfileVersion u16
  | MinimumOutOfRange u32
  | AverageOutOfRange u32
  | MaximumOutOfRange u32
  | InvalidOrdering
  | OddSize

definition profile_validate :: "chunking_profile \<Rightarrow> profile_error + unit" where
  "profile_validate p =
     (if cp_version p \<noteq> 1 then Inl (UnsupportedProfileVersion (cp_version p))
      else if \<not> (64 \<le> cp_min_size p \<and> cp_min_size p \<le> 1048576)
        then Inl (MinimumOutOfRange (cp_min_size p))
      else if \<not> (256 \<le> cp_avg_size p \<and> cp_avg_size p \<le> 4194304)
        then Inl (AverageOutOfRange (cp_avg_size p))
      else if \<not> (1024 \<le> cp_max_size p \<and> cp_max_size p \<le> 16777216)
        then Inl (MaximumOutOfRange (cp_max_size p))
      else if \<not> (cp_min_size p < cp_avg_size p \<and> cp_avg_size p < cp_max_size p)
        then Inl InvalidOrdering
      else if list_ex (\<lambda>sz. sz mod 2 \<noteq> 0) [cp_min_size p, cp_avg_size p, cp_max_size p]
        then Inl OddSize
      else Inr ())"

lemma profile_validate_default [simp]: "profile_validate DEFAULT_PROFILE = Inr ()"
  by (simp add: profile_validate_def DEFAULT_PROFILE_def)

lemma profile_validate_large [simp]: "profile_validate LARGE_FILE_PROFILE = Inr ()"
  by (simp add: profile_validate_def LARGE_FILE_PROFILE_def)

lemma profile_validate_for_file_size:
  "profile_validate p = Inr () \<Longrightarrow> profile_validate (for_file_size p sz) = Inr ()"
  by (simp add: for_file_size_def)

section \<open>Manifests\<close>

record chunk_descriptor =
  cd_offset :: u64
  cd_length :: u32
  cd_hash :: hash32

record file_manifest =
  fm_schema_version :: u16
  fm_size :: u64
  fm_file_hash :: hash32
  fm_profile :: chunking_profile
  fm_chunks :: "chunk_descriptor list"

datatype manifest_error =
    UnsupportedManifestVersion u16
  | Profile profile_error
  | ChunksForEmptyFile
  | InvalidEmptyHash
  | MissingChunks
  | NonContiguous nat u64 u64
  | EmptyChunk nat
  | ChunkTooLarge nat u32 u32
  | InconsistentDuplicateChunk hash32 u32 u32
  | SizeOverflow
  | SizeMismatch u64 u64

text \<open>The loop of \<open>FileManifest::validate\<close>: the index, the expected offset and \<open>lengths_by_hash\<close>.\<close>

fun validate_chunks ::
    "u32 \<Rightarrow> nat \<Rightarrow> u64 \<Rightarrow> (hash32, u32) fmap \<Rightarrow> chunk_descriptor list \<Rightarrow> manifest_error + u64"
where
  "validate_chunks maxsz index expected_offset lengths [] = Inr expected_offset"
| "validate_chunks maxsz index expected_offset lengths (chunk # rest) =
     (if cd_offset chunk \<noteq> expected_offset
        then Inl (NonContiguous index expected_offset (cd_offset chunk))
      else if cd_length chunk = 0 then Inl (EmptyChunk index)
      else if maxsz < cd_length chunk then Inl (ChunkTooLarge index (cd_length chunk) maxsz)
      else
        (case fmlookup lengths (cd_hash chunk) of
           Some previous \<Rightarrow>
             if previous \<noteq> cd_length chunk
             then Inl (InconsistentDuplicateChunk (cd_hash chunk) previous (cd_length chunk))
             else and_then (ok_or (checked_add expected_offset (ucast (cd_length chunk))) SizeOverflow)
               (\<lambda>nxt. validate_chunks maxsz (Suc index) nxt
                  (fmupd (cd_hash chunk) (cd_length chunk) lengths) rest)
         | None \<Rightarrow> and_then (ok_or (checked_add expected_offset (ucast (cd_length chunk))) SizeOverflow)
               (\<lambda>nxt. validate_chunks maxsz (Suc index) nxt
                  (fmupd (cd_hash chunk) (cd_length chunk) lengths) rest)))"

definition manifest_validate :: "externs \<Rightarrow> file_manifest \<Rightarrow> manifest_error + unit" where
  "manifest_validate E m =
     (if fm_schema_version m \<noteq> MANIFEST_SCHEMA_V1
        then Inl (UnsupportedManifestVersion (fm_schema_version m))
      else and_then (map_err Profile (profile_validate (fm_profile m))) (\<lambda>_.
        if fm_size m = 0 then
          (if fm_chunks m \<noteq> [] then Inl ChunksForEmptyFile
           else if fm_file_hash m \<noteq> digest E [] then Inl InvalidEmptyHash
           else Inr ())
        else if fm_chunks m = [] then Inl MissingChunks
        else and_then (validate_chunks (cp_max_size (fm_profile m)) 0 0 fmempty (fm_chunks m))
          (\<lambda>expected_offset.
             if expected_offset \<noteq> fm_size m
             then Inl (SizeMismatch (fm_size m) expected_offset) else Inr ())))"

definition chunk_encoding :: "chunk_descriptor \<Rightarrow> u8 list" where
  "chunk_encoding c = to_be_bytes (cd_offset c) @ to_be_bytes (cd_length c) @ as_bytes (cd_hash c)"

definition manifest_encoding :: "file_manifest \<Rightarrow> u8 list" where
  "manifest_encoding m =
     to_be_bytes (fm_schema_version m) @ to_be_bytes (fm_size m) @ as_bytes (fm_file_hash m) @
     to_be_bytes (cp_version (fm_profile m)) @ to_be_bytes (cp_min_size (fm_profile m)) @
     to_be_bytes (cp_avg_size (fm_profile m)) @ to_be_bytes (cp_max_size (fm_profile m)) @
     concat (map chunk_encoding (fm_chunks m))"

definition manifest_hash :: "externs \<Rightarrow> file_manifest \<Rightarrow> hash32" where
  "manifest_hash E m = blake3_derive E ''deltaweave manifest v1'' (manifest_encoding m)"

section \<open>What an accepted manifest is\<close>

definition chunk_len :: "chunk_descriptor \<Rightarrow> nat" where
  "chunk_len c = unat (cd_length c)"

definition total_len :: "chunk_descriptor list \<Rightarrow> nat" where
  "total_len cs = sum_list (map chunk_len cs)"

fun contiguous_from :: "nat \<Rightarrow> chunk_descriptor list \<Rightarrow> bool" where
  "contiguous_from off [] = True"
| "contiguous_from off (c # cs) = (unat (cd_offset c) = off \<and> contiguous_from (off + chunk_len c) cs)"

definition lengths_consistent :: "chunk_descriptor list \<Rightarrow> bool" where
  "lengths_consistent cs \<longleftrightarrow>
     (\<forall>c \<in> set cs. \<forall>d \<in> set cs. cd_hash c = cd_hash d \<longrightarrow> cd_length c = cd_length d)"

definition manifest_spec :: "externs \<Rightarrow> file_manifest \<Rightarrow> bool" where
  "manifest_spec E m \<longleftrightarrow>
     fm_schema_version m = 1 \<and> profile_validate (fm_profile m) = Inr () \<and>
     contiguous_from 0 (fm_chunks m) \<and>
     (\<forall>c \<in> set (fm_chunks m). 0 < cd_length c \<and> cd_length c \<le> cp_max_size (fm_profile m)) \<and>
     lengths_consistent (fm_chunks m) \<and>
     total_len (fm_chunks m) = unat (fm_size m) \<and>
     (fm_size m = 0 \<longrightarrow> fm_file_hash m = digest E [])"

lemma total_len_simps [simp]:
  "total_len [] = 0" "total_len (c # cs) = chunk_len c + total_len cs"
  "total_len (cs @ ds) = total_len cs + total_len ds"
  by (simp_all add: total_len_def)

definition fits_seen :: "(hash32, u32) fmap \<Rightarrow> chunk_descriptor list \<Rightarrow> bool" where
  "fits_seen lengths cs \<longleftrightarrow> lengths_consistent cs \<and>
     (\<forall>c \<in> set cs. \<forall>l. fmlookup lengths (cd_hash c) = Some l \<longrightarrow> l = cd_length c)"

lemma lengths_consistent_Cons:
  "lengths_consistent (c # cs) \<longleftrightarrow> lengths_consistent cs \<and>
     (\<forall>d \<in> set cs. cd_hash d = cd_hash c \<longrightarrow> cd_length d = cd_length c)"
  (is "?l \<longleftrightarrow> ?r")
proof
  show "?l \<Longrightarrow> ?r"
    unfolding lengths_consistent_def by (meson list.set_intros(1) list.set_intros(2))
next
  assume r: ?r
  show ?l unfolding lengths_consistent_def
  proof (intro ballI impI)
    fix x y
    assume "x \<in> set (c # cs)" "y \<in> set (c # cs)" "cd_hash x = cd_hash y"
    then consider "x = c" "y = c" | "x = c" "y \<in> set cs" | "x \<in> set cs" "y = c"
      | "x \<in> set cs" "y \<in> set cs" by auto
    then show "cd_length x = cd_length y"
      using r \<open>cd_hash x = cd_hash y\<close> unfolding lengths_consistent_def by cases metis+
  qed
qed

lemma fits_seen_Cons:
  "fits_seen lengths (c # cs) \<longleftrightarrow>
     (\<forall>l. fmlookup lengths (cd_hash c) = Some l \<longrightarrow> l = cd_length c) \<and>
     fits_seen (fmupd (cd_hash c) (cd_length c) lengths) cs"
proof -
  have "(cd_hash d = cd_hash c \<longrightarrow> cd_length d = cd_length c) \<and>
      (\<forall>l. fmlookup lengths (cd_hash d) = Some l \<longrightarrow> l = cd_length d) \<longleftrightarrow>
      (\<forall>l. fmlookup (fmupd (cd_hash c) (cd_length c) lengths) (cd_hash d) = Some l
        \<longrightarrow> l = cd_length d)"
    if "\<forall>l. fmlookup lengths (cd_hash c) = Some l \<longrightarrow> l = cd_length c" for d
    using that by (cases "cd_hash d = cd_hash c") auto
  then show ?thesis
    unfolding fits_seen_def lengths_consistent_Cons by (simp only: list.set ball_simps) blast
qed

lemma unat_ucast_u32 [simp]: "unat (ucast (x :: u32) :: u64) = unat x"
  by (simp add: unsigned_ucast_eq take_bit_nat_eq_self unat_bound [THEN order_less_trans])

lemma checked_add_len:
  "checked_add (off :: u64) (ucast (cd_length c)) = Some n \<longleftrightarrow>
     unat off + chunk_len c < 2 ^ 64 \<and> n = off + ucast (cd_length c)"
  by (auto simp: checked_add_def chunk_len_def split: if_splits)

lemma validate_chunks_iff:
  "validate_chunks maxsz i off lengths cs = Inr fin \<longleftrightarrow>
     contiguous_from (unat off) cs \<and> (\<forall>c \<in> set cs. 0 < cd_length c \<and> cd_length c \<le> maxsz) \<and>
     fits_seen lengths cs \<and> unat fin = unat off + total_len cs"
proof (induction cs arbitrary: i off lengths)
  case Nil
  then show ?case by (auto simp: fits_seen_def lengths_consistent_def word_unat_eq_iff)
next
  case (Cons c cs)
  let ?n = "off + ucast (cd_length c)"
  have step: "validate_chunks maxsz i off lengths (c # cs) = Inr fin \<longleftrightarrow>
      cd_offset c = off \<and> cd_length c \<noteq> 0 \<and> cd_length c \<le> maxsz \<and>
      (\<forall>l. fmlookup lengths (cd_hash c) = Some l \<longrightarrow> l = cd_length c) \<and>
      unat off + chunk_len c < 2 ^ 64 \<and>
      validate_chunks maxsz (Suc i) ?n (fmupd (cd_hash c) (cd_length c) lengths) cs = Inr fin"
    by (auto simp: result_simps checked_add_len split: option.splits if_splits)
  have n: "unat ?n = unat off + chunk_len c" if "unat off + chunk_len c < 2 ^ 64"
    using that by (simp add: unat_word_ariths chunk_len_def)
  have "unat fin < 2 ^ 64" using unat_bound [of fin] by simp
  then show ?case
    unfolding step Cons.IH fits_seen_Cons [of lengths]
    using n by (auto simp: word_gt_0 word_unat_eq_iff)
qed

lemma total_len_pos: "\<forall>c \<in> set cs. 0 < cd_length c \<Longrightarrow> total_len cs = 0 \<longleftrightarrow> cs = []"
  by (cases cs) (auto simp: chunk_len_def unat_gt_0 word_gt_0)

lemma manifest_validate_spec: "manifest_validate E m = Inr () \<longleftrightarrow> manifest_spec E m"
proof (cases "fm_size m = 0")
  case True
  then show ?thesis
    using total_len_pos [of "fm_chunks m"]
    by (auto simp: manifest_validate_def manifest_spec_def result_simps MANIFEST_SCHEMA_V1_def
        lengths_consistent_def)
next
  case False
  then have "total_len (fm_chunks m) \<noteq> unat (fm_size m)" if "fm_chunks m = []"
    using that by (simp add: unat_gt_0)
  with False show ?thesis
    by (auto simp: manifest_validate_def manifest_spec_def result_simps MANIFEST_SCHEMA_V1_def
        validate_chunks_iff fits_seen_def)
qed

section \<open>Extents tile the file\<close>

lemma contiguous_from_nth:
  "contiguous_from off cs \<Longrightarrow> i < length cs \<Longrightarrow>
     unat (cd_offset (cs ! i)) = off + total_len (take i cs)"
proof (induction cs arbitrary: off i)
  case (Cons c cs)
  then show ?case by (cases i) auto
qed simp

definition covers :: "chunk_descriptor \<Rightarrow> nat \<Rightarrow> bool" where
  "covers c k \<longleftrightarrow> unat (cd_offset c) \<le> k \<and> k < unat (cd_offset c) + chunk_len c"

lemma contiguous_from_covers_bounds:
  "contiguous_from off cs \<Longrightarrow> c \<in> set cs \<Longrightarrow> covers c k \<Longrightarrow> off \<le> k \<and> k < off + total_len cs"
  by (induction cs arbitrary: off) (fastforce simp: covers_def)+

lemma contiguous_from_covers_unique:
  "contiguous_from off cs \<Longrightarrow> off \<le> k \<Longrightarrow> k < off + total_len cs \<Longrightarrow>
     \<exists>!i. i < length cs \<and> covers (cs ! i) k"
proof (induction cs arbitrary: off)
  case (Cons c cs)
  show ?case
  proof (cases "k < off + chunk_len c")
    case True
    have "\<not> covers (cs ! i) k" if "i < length cs" for i
      using contiguous_from_covers_bounds [of "off + chunk_len c" cs "cs ! i" k] Cons.prems True that
      by auto
    with True Cons.prems show ?thesis
      by (intro ex1I [of _ 0]) (auto simp: covers_def nth_Cons' split: if_splits)
  next
    case False
    with Cons.prems have "\<exists>!i. i < length cs \<and> covers (cs ! i) k"
      by (intro Cons.IH [of "off + chunk_len c"]) auto
    then obtain i where i: "i < length cs" "covers (cs ! i) k"
      and uniq: "\<And>j. j < length cs \<Longrightarrow> covers (cs ! j) k \<Longrightarrow> j = i" by blast
    have "\<not> covers c k" using False Cons.prems by (auto simp: covers_def)
    then have "j = Suc i" if "j < length (c # cs)" "covers ((c # cs) ! j) k" for j
      using that uniq by (cases j) simp_all
    with i show ?thesis by (intro ex1I [of _ "Suc i"]) simp_all
  qed
qed simp

section \<open>Manifest identity\<close>

lemma chunk_encoding_inject: "chunk_encoding c = chunk_encoding d \<longleftrightarrow> c = (d :: chunk_descriptor)"
  by (cases c; cases d) (simp add: chunk_encoding_def to_be_bytes_inject)

lemma length_chunk_encoding: "length (chunk_encoding c) = 44"
  by (simp add: chunk_encoding_def)

lemma chunk_encodings_inject:
  "concat (map chunk_encoding cs) = concat (map chunk_encoding ds) \<longleftrightarrow> cs = ds"
  by (rule concat_map_fixed_width_inject [OF length_chunk_encoding])
    (simp_all add: chunk_encoding_inject)

section \<open>Properties\<close>

text \<open>
  \<open>FileManifest::validate\<close> accepts exactly the manifests of the contract: schema 1, a valid
  profile, extents that start at offset 0 and follow one another without gap or overlap, each
  non-empty and at most \<open>max_size\<close> long, one length per hash, lengths (as unbounded numbers) summing
  to the declared size, and BLAKE3's empty digest for an empty file.
\<close>
theorem manifest_validate_exact: "manifest_validate E m = Inr () \<longleftrightarrow> manifest_spec E m"
  by (rule manifest_validate_spec)

text \<open>
  Every byte position of a file described by an accepted manifest lies in exactly one of its
  chunks, so reassembly neither skips nor duplicates content.
\<close>
theorem manifest_extents_tile_file:
  assumes "manifest_validate E m = Inr ()" and "k < unat (fm_size m)"
  shows "\<exists>!i. i < length (fm_chunks m) \<and> covers (fm_chunks m ! i) k"
  using assms contiguous_from_covers_unique [of 0 "fm_chunks m" k]
  by (simp add: manifest_validate_spec manifest_spec_def)

definition example_manifest :: file_manifest where
  "example_manifest = \<lparr>fm_schema_version = 1, fm_size = 10, fm_file_hash = hash_fill 9,
     fm_profile = DEFAULT_PROFILE,
     fm_chunks = [\<lparr>cd_offset = 0, cd_length = 4, cd_hash = hash_fill 1\<rparr>,
                  \<lparr>cd_offset = 4, cd_length = 6, cd_hash = hash_fill 2\<rparr>]\<rparr>"

lemma example_manifest_valid: "manifest_validate E example_manifest = Inr ()"
  by (simp add: manifest_validate_def example_manifest_def MANIFEST_SCHEMA_V1_def
      checked_add_def ok_or_def DEFAULT_PROFILE_def [THEN arg_cong, of cp_max_size, simplified])

theorem manifest_extents_tile_file_witness:
  "\<exists>!i. i < length (fm_chunks example_manifest) \<and> covers (fm_chunks example_manifest ! i) 5"
proof -
  have "5 < unat (fm_size example_manifest)" by (simp add: example_manifest_def)
  with example_manifest_valid show ?thesis by (rule manifest_extents_tile_file)
qed

text \<open>
  the byte string hashed by \<open>manifest_hash\<close> determines the manifest, so two manifests share an
  identity only if BLAKE3 collides on their two distinct encodings.
\<close>
theorem manifest_encoding_inject:
  "manifest_encoding m = manifest_encoding n \<longleftrightarrow> m = (n :: file_manifest)"
proof -
  obtain sv sz fh pv pmin pavg pmax cs where
    m: "m = \<lparr>fm_schema_version = sv, fm_size = sz, fm_file_hash = fh,
      fm_profile = \<lparr>cp_version = pv, cp_min_size = pmin, cp_avg_size = pavg, cp_max_size = pmax\<rparr>,
      fm_chunks = cs\<rparr>" by (metis (full_types) chunking_profile.surjective
        file_manifest.surjective unit.exhaust)
  obtain sv' sz' fh' pv' pmin' pavg' pmax' cs' where
    n: "n = \<lparr>fm_schema_version = sv', fm_size = sz', fm_file_hash = fh',
      fm_profile = \<lparr>cp_version = pv', cp_min_size = pmin', cp_avg_size = pavg', cp_max_size = pmax'\<rparr>,
      fm_chunks = cs'\<rparr>" by (metis (full_types) chunking_profile.surjective
        file_manifest.surjective unit.exhaust)
  show ?thesis
    unfolding m n manifest_encoding_def
    by (simp add: to_be_bytes_inject chunk_encodings_inject)
qed

end
