(* ===== verification/Share_Ticket.thy ===== *)
theory Share_Ticket
  imports Core_Path Core_Version
begin

text \<open>
  Share keys of \<^verbatim>\<open>crates/deltaweave-net/src/share/ticket.rs\<close>: signed invitations, their text form,
  their verification, and the legacy continuity proof that binds an old replica to a new endpoint.
  Endpoint keys, share and invitation ids and secret keys are 32-byte arrays. The serializer
  (postcard), the signature scheme of the endpoint keys (ed25519) and the hex decoder are parameters
  (\<open>share_env\<close>); the clock and the random bytes drawn by the code are arguments.
\<close>

section \<open>Data\<close>

datatype share_error =
    InvalidTicket | UnsupportedVersion | Expired | InvitationRevoked | MemberRevoked | PermissionDenied
  | UnknownShare | NotMember | ReplicaClaimRejected | InvalidShareRecord | Busy | Offline
  | StateUnavailable | Protocol | OwnerMismatch | TransferFailed

datatype permission = ReadOnly | ReadWrite

type_synonym share_id = hash32
type_synonym invitation_id = hash32
type_synonym endpoint_id = hash32
type_synonym secret_key = hash32
type_synonym signature = "u8 list"

record endpoint_addr =
  ea_id :: endpoint_id
  ea_addrs :: "string fset"

record ticket_body =
  tb_version :: u8
  tb_share_id :: share_id
  tb_owner :: endpoint_id
  tb_name :: string
  tb_permission :: permission
  tb_invitation_id :: invitation_id
  tb_bearer :: hash32
  tb_issued_at :: u64
  tb_expires_at :: "u64 option"
  tb_address :: endpoint_addr

record share_ticket =
  st_body :: ticket_body
  st_signature :: signature

record ticket_preview =
  tp_share_id :: share_id
  tp_owner :: endpoint_id
  tp_name :: string
  tp_permission :: permission
  tp_invitation_id :: invitation_id
  tp_expires_at :: "u64 option"

record legacy_proof =
  lp_version :: u8
  lp_invitation :: invitation_id
  lp_share :: share_id
  lp_owner :: endpoint_id
  lp_new_endpoint :: endpoint_id
  lp_old_endpoint :: endpoint_id
  lp_replica :: replica_id
  lp_signature :: signature

type_synonym claim =
  "u8 \<times> invitation_id \<times> share_id \<times> endpoint_id \<times> endpoint_id \<times> endpoint_id \<times> replica_id"

text \<open>Serialization may fail, so the serializers return an option.\<close>

record share_env =
  se_hash :: externs
  pc_body :: "ticket_body \<Rightarrow> u8 list option"
  pc_ticket :: "share_ticket \<Rightarrow> u8 list option"
  pc_ticket_from :: "u8 list \<Rightarrow> share_ticket option"
  pc_claim :: "claim \<Rightarrow> u8 list option"
  hex_decode :: "string \<Rightarrow> u8 list option"
  key_public :: "secret_key \<Rightarrow> endpoint_id"
  key_sign :: "secret_key \<Rightarrow> u8 list \<Rightarrow> signature"
  key_verify :: "endpoint_id \<Rightarrow> u8 list \<Rightarrow> signature \<Rightarrow> bool"

definition PREFIX :: string where "PREFIX = ''dwshare3:''"
definition DOMAIN :: string where "DOMAIN = ''deltaweave/share/invitation/v3'' @ [CHR 0x00]"
definition PROOF_DOMAIN :: string where "PROOF_DOMAIN = ''deltaweave/share/legacy-claim/v3'' @ [CHR 0x00]"
definition MAX_TICKET_BYTES :: nat where "MAX_TICKET_BYTES = 8192"

section \<open>Tickets\<close>

definition signed_bytes :: "string \<Rightarrow> u8 list option \<Rightarrow> share_error + u8 list" where
  "signed_bytes domain serialized =
     and_then (ok_or serialized InvalidTicket) (\<lambda>bytes. Inr (str_bytes domain @ bytes))"

definition verify_at :: "share_env \<Rightarrow> share_ticket \<Rightarrow> u64 \<Rightarrow> share_error + unit" where
  "verify_at S ticket now = (let body = st_body ticket in
     if tb_version body \<noteq> 3 then Inl UnsupportedVersion
     else if tb_name body = [] \<or> 255 < length (tb_name body) \<or> list_ex is_control (chars (tb_name body)) \<or>
        ea_id (tb_address body) \<noteq> tb_owner body \<or> 16 < fcard (ea_addrs (tb_address body))
       then Inl InvalidTicket
     else and_then (ok_or (pc_ticket S ticket) InvalidTicket) (\<lambda>bytes.
       if MAX_TICKET_BYTES < length bytes then Inl InvalidTicket
       else and_then (signed_bytes DOMAIN (pc_body S body)) (\<lambda>signed.
         if \<not> key_verify S (tb_owner body) signed (st_signature ticket) then Inl InvalidTicket
         else case tb_expires_at body of
             Some expiry \<Rightarrow> if expiry \<le> now \<or> expiry \<le> tb_issued_at body then Inl Expired else Inr ()
           | None \<Rightarrow> Inr ())))"

text \<open>\<open>issue\<close> draws the invitation id and the bearer at random; they are arguments here.\<close>

definition ticket_issue ::
    "share_env \<Rightarrow> secret_key \<Rightarrow> share_id \<Rightarrow> string \<Rightarrow> permission \<Rightarrow> u64 option \<Rightarrow> endpoint_addr \<Rightarrow> u64 \<Rightarrow>
     invitation_id \<Rightarrow> hash32 \<Rightarrow> share_error + share_ticket" where
  "ticket_issue S key share_id name perm expires_at address issued_at invitation bearer =
     (let body = \<lparr>tb_version = 3, tb_share_id = share_id, tb_owner = key_public S key, tb_name = name,
            tb_permission = perm, tb_invitation_id = invitation, tb_bearer = bearer,
            tb_issued_at = issued_at, tb_expires_at = expires_at, tb_address = address\<rparr>
      in and_then (signed_bytes DOMAIN (pc_body S body)) (\<lambda>signed.
           let ticket = \<lparr>st_body = body, st_signature = key_sign S key signed\<rparr>
           in and_then (verify_at S ticket issued_at) (\<lambda>_. Inr ticket)))"

text \<open>\<open>None\<close> is the panic of \<open>expect\<close>.\<close>

definition ticket_encode :: "share_env \<Rightarrow> share_ticket \<Rightarrow> string option" where
  "ticket_encode S ticket = map_option (\<lambda>bytes. PREFIX @ hex_encode (se_hash S) bytes) (pc_ticket S ticket)"

definition parse_at :: "share_env \<Rightarrow> string \<Rightarrow> u64 \<Rightarrow> share_error + share_ticket" where
  "parse_at S encoded now =
     (if MAX_TICKET_BYTES * 2 + length PREFIX < length encoded then Inl InvalidTicket
      else and_then (ok_or (strip_prefix PREFIX encoded) UnsupportedVersion) (\<lambda>raw.
        and_then (ok_or (hex_decode S raw) InvalidTicket) (\<lambda>bytes.
        and_then (ok_or (pc_ticket_from S bytes) InvalidTicket) (\<lambda>ticket.
        and_then (ok_or (pc_ticket S ticket) InvalidTicket) (\<lambda>canonical.
        if canonical \<noteq> bytes then Inl InvalidTicket
        else and_then (verify_at S ticket now) (\<lambda>_. Inr ticket))))))"

definition ticket_preview_of :: "share_ticket \<Rightarrow> ticket_preview" where
  "ticket_preview_of ticket = (let body = st_body ticket in
     \<lparr>tp_share_id = tb_share_id body, tp_owner = tb_owner body, tp_name = tb_name body,
      tp_permission = tb_permission body, tp_invitation_id = tb_invitation_id body,
      tp_expires_at = tb_expires_at body\<rparr>)"

definition issuance_digest :: "share_env \<Rightarrow> share_ticket \<Rightarrow> share_error + hash32" where
  "issuance_digest S ticket =
     and_then (signed_bytes DOMAIN (pc_body S (st_body ticket))) (\<lambda>signed. Inr (digest (se_hash S) signed))"

section \<open>Legacy continuity proofs\<close>

definition proof_message :: "share_env \<Rightarrow> legacy_proof \<Rightarrow> share_error + u8 list" where
  "proof_message S p = signed_bytes PROOF_DOMAIN
     (pc_claim S (lp_version p, lp_invitation p, lp_share p, lp_owner p, lp_new_endpoint p,
        lp_old_endpoint p, lp_replica p))"

definition proof_create ::
    "share_env \<Rightarrow> share_ticket \<Rightarrow> secret_key \<Rightarrow> endpoint_id \<Rightarrow> replica_id \<Rightarrow> share_error + legacy_proof" where
  "proof_create S ticket old_key new_endpoint replica =
     (if replica \<noteq> digest (se_hash S) (as_bytes (key_public S old_key)) then Inl ReplicaClaimRejected
      else let draft = \<lparr>lp_version = 3, lp_invitation = tb_invitation_id (st_body ticket),
              lp_share = tb_share_id (st_body ticket), lp_owner = tb_owner (st_body ticket),
              lp_new_endpoint = new_endpoint, lp_old_endpoint = key_public S old_key,
              lp_replica = replica, lp_signature = key_sign S old_key []\<rparr>
      in and_then (proof_message S draft) (\<lambda>message. Inr (draft\<lparr>lp_signature := key_sign S old_key message\<rparr>)))"

definition proof_verify :: "share_env \<Rightarrow> legacy_proof \<Rightarrow> share_ticket \<Rightarrow> endpoint_id \<Rightarrow> share_error + replica_id" where
  "proof_verify S p ticket peer =
     (if lp_version p \<noteq> 3 \<or> lp_invitation p \<noteq> tb_invitation_id (st_body ticket) \<or>
         lp_share p \<noteq> tb_share_id (st_body ticket) \<or> lp_owner p \<noteq> tb_owner (st_body ticket) \<or>
         lp_new_endpoint p \<noteq> peer \<or> lp_old_endpoint p = peer \<or>
         lp_replica p \<noteq> digest (se_hash S) (as_bytes (lp_old_endpoint p))
       then Inl ReplicaClaimRejected
      else and_then (proof_message S p) (\<lambda>message.
        if \<not> key_verify S (lp_old_endpoint p) message (lp_signature p) then Inl ReplicaClaimRejected
        else Inr (lp_replica p)))"

section \<open>What a verified ticket guarantees\<close>

definition ticket_ok :: "share_env \<Rightarrow> share_ticket \<Rightarrow> bool" where
  "ticket_ok S ticket \<longleftrightarrow> (let body = st_body ticket in
     tb_version body = 3 \<and> tb_name body \<noteq> [] \<and> length (tb_name body) \<le> 255 \<and>
     (\<forall>c \<in> set (chars (tb_name body)). \<not> is_control c) \<and> ea_id (tb_address body) = tb_owner body \<and>
     fcard (ea_addrs (tb_address body)) \<le> 16 \<and>
     (\<exists>bytes. pc_ticket S ticket = Some bytes \<and> length bytes \<le> MAX_TICKET_BYTES) \<and>
     (\<exists>bytes. pc_body S body = Some bytes \<and>
        key_verify S (tb_owner body) (str_bytes DOMAIN @ bytes) (st_signature ticket)))"

definition unexpired :: "share_ticket \<Rightarrow> u64 \<Rightarrow> bool" where
  "unexpired ticket now \<longleftrightarrow> (\<forall>e. tb_expires_at (st_body ticket) = Some e \<longrightarrow>
     now < e \<and> tb_issued_at (st_body ticket) < e)"

lemma verify_at_iff: "verify_at S ticket now = Inr u \<longleftrightarrow> ticket_ok S ticket \<and> unexpired ticket now"
  by (cases "pc_ticket S ticket"; cases "pc_body S (st_body ticket)"; cases "tb_expires_at (st_body ticket)")
    (auto simp: verify_at_def ticket_ok_def unexpired_def Let_def signed_bytes_def ok_or_def
      list_ex_iff not_less not_le)

lemma strip_prefix_Some: "strip_prefix p s = Some r \<longleftrightarrow> s = p @ r"
  by (induction p s rule: strip_prefix.induct) auto

lemma issuance_digest_ok: "ticket_ok S ticket \<Longrightarrow> \<exists>h. issuance_digest S ticket = Inr h"
  by (auto simp: issuance_digest_def ticket_ok_def signed_bytes_def Let_def ok_or_def)

text \<open>The documented behaviour of the third-party codecs and signatures that round trips rely on.\<close>

definition share_crates_ok :: "share_env \<Rightarrow> bool" where
  "share_crates_ok S \<longleftrightarrow>
     (\<forall>t bytes. pc_ticket S t = Some bytes \<longrightarrow> pc_ticket_from S bytes = Some t) \<and>
     (\<forall>bytes. hex_decode S (hex_encode (se_hash S) bytes) = Some bytes) \<and>
     (\<forall>bytes. length (hex_encode (se_hash S) bytes) = 2 * length bytes) \<and>
     (\<forall>k m. key_verify S (key_public S k) m (key_sign S k m))"

section \<open>Properties\<close>

text \<open>
  C32: share keys round-trip: a ticket that the owner issues encodes to a text that parses back to exactly
  that ticket at any time before its expiry, and is refused as expired from then on.
\<close>
theorem issued_ticket_round_trip:
  assumes "share_crates_ok S"
    and "ticket_issue S key share name perm expires address issued invitation bearer = Inr ticket"
  shows "\<exists>text. ticket_encode S ticket = Some text \<and>
    (\<forall>now. parse_at S text now = (case expires of
       Some e \<Rightarrow> if now < e then Inr ticket else Inl Expired | None \<Rightarrow> Inr ticket))"
proof -
  from assms(2) have ok: "ticket_ok S ticket" "unexpired ticket issued"
    and body: "tb_expires_at (st_body ticket) = expires" "tb_issued_at (st_body ticket) = issued"
    by (auto simp: ticket_issue_def Let_def result_simps verify_at_iff)
  then obtain bytes where bytes: "pc_ticket S ticket = Some bytes" "length bytes \<le> MAX_TICKET_BYTES"
    by (auto simp: ticket_ok_def Let_def)
  let ?text = "PREFIX @ hex_encode (se_hash S) bytes"
  from ok(2) body have late: "issued < e" if "expires = Some e" for e
    using that by (simp add: unexpired_def)
  have "parse_at S ?text now = and_then (verify_at S ticket now) (\<lambda>_. Inr ticket)" for now
  proof -
    have "strip_prefix PREFIX ?text = Some (hex_encode (se_hash S) bytes)" by (simp add: strip_prefix_Some)
    then show ?thesis
      using assms(1) bytes by (simp add: parse_at_def share_crates_ok_def ok_or_def)
  qed
  moreover have "verify_at S ticket now = Inl Expired" if "expires = Some e" "e \<le> now" for e now
    using ok(1) body that late [OF that(1)] bytes
    by (auto simp: verify_at_def ticket_ok_def Let_def signed_bytes_def ok_or_def list_ex_iff not_less)
  moreover have "verify_at S ticket now = Inr ()" if "\<forall>e. expires = Some e \<longrightarrow> now < e" for now
    using ok(1) body that late by (simp add: verify_at_iff unexpired_def)
  ultimately have "\<forall>now. parse_at S ?text now = (case expires of
       Some e \<Rightarrow> if now < e then Inr ticket else Inl Expired | None \<Rightarrow> Inr ticket)"
    by (auto split: option.split)
  with bytes show ?thesis by (auto simp: ticket_encode_def)
qed

text \<open>
  A legacy proof is bound to every field of its context: when it verifies, it names this
  invitation, share, owner and peer, its replica is the digest of the old endpoint key, that key is not
  the peer's own, and it has signed all of them; a proof made by \<open>create\<close> for another device verifies
  and returns the claimed replica.
\<close>
theorem legacy_proof_bound:
  "(proof_verify S p ticket peer = Inr replica \<longleftrightarrow>
     lp_version p = 3 \<and> lp_invitation p = tb_invitation_id (st_body ticket) \<and>
     lp_share p = tb_share_id (st_body ticket) \<and> lp_owner p = tb_owner (st_body ticket) \<and>
     lp_new_endpoint p = peer \<and> lp_old_endpoint p \<noteq> peer \<and>
     replica = lp_replica p \<and> replica = digest (se_hash S) (as_bytes (lp_old_endpoint p)) \<and>
     (\<exists>message. proof_message S p = Inr message \<and> key_verify S (lp_old_endpoint p) message (lp_signature p))) \<and>
   (share_crates_ok S \<and> proof_create S ticket key peer replica = Inr p \<and> key_public S key \<noteq> peer \<longrightarrow>
     proof_verify S p ticket peer = Inr replica)"
proof (intro conjI impI)
  show "proof_verify S p ticket peer = Inr replica \<longleftrightarrow>
     lp_version p = 3 \<and> lp_invitation p = tb_invitation_id (st_body ticket) \<and>
     lp_share p = tb_share_id (st_body ticket) \<and> lp_owner p = tb_owner (st_body ticket) \<and>
     lp_new_endpoint p = peer \<and> lp_old_endpoint p \<noteq> peer \<and>
     replica = lp_replica p \<and> replica = digest (se_hash S) (as_bytes (lp_old_endpoint p)) \<and>
     (\<exists>message. proof_message S p = Inr message \<and> key_verify S (lp_old_endpoint p) message (lp_signature p))"
    by (cases "proof_message S p") (auto simp: proof_verify_def)
  assume "share_crates_ok S \<and> proof_create S ticket key peer replica = Inr p \<and> key_public S key \<noteq> peer"
  then have crates: "share_crates_ok S" and made: "proof_create S ticket key peer replica = Inr p"
    and new: "key_public S key \<noteq> peer" by blast+
  from made obtain message where "proof_message S p = Inr message" "lp_signature p = key_sign S key message"
    "lp_old_endpoint p = key_public S key"
    by (auto simp: proof_create_def proof_message_def Let_def and_then_Inr_iff split: if_splits)
  moreover have "key_verify S (key_public S key) message (key_sign S key message)"
    using crates by (simp add: share_crates_ok_def)
  ultimately show "proof_verify S p ticket peer = Inr replica"
    using made new by (auto simp: proof_verify_def)
      (auto simp: proof_create_def Let_def and_then_Inr_iff split: if_splits)
qed

section \<open>A concrete environment\<close>

text \<open>
  For the instances below: a serializer that knows the example ticket, the reference hex codec, and a
  signature that tags the message with the key.
\<close>

definition example_body :: "permission \<Rightarrow> ticket_body" where
  "example_body perm = \<lparr>tb_version = 3, tb_share_id = hash_fill 1, tb_owner = hash_fill 9, tb_name = ''Files'',
     tb_permission = perm, tb_invitation_id = hash_fill 2, tb_bearer = hash_fill 3, tb_issued_at = 100,
     tb_expires_at = Some 200, tb_address = \<lparr>ea_id = hash_fill 9, ea_addrs = {||}\<rparr>\<rparr>"

definition body_bytes :: "ticket_body \<Rightarrow> u8 list" where
  "body_bytes b = [if tb_permission b = ReadOnly then 0 else 1]"

definition example_ticket :: "permission \<Rightarrow> share_ticket" where
  "example_ticket perm = \<lparr>st_body = example_body perm,
     st_signature = as_bytes (hash_fill 9) @ str_bytes DOMAIN @ body_bytes (example_body perm)\<rparr>"

definition ref_share :: share_env where
  "ref_share =
     \<lparr>se_hash = ref_hex (\<lambda>bs. hash_fill (of_nat (length bs))) (\<lambda>_ bs. hash_fill (of_nat (length bs))),
      pc_body = (\<lambda>b. Some (body_bytes b)),
      pc_ticket = (\<lambda>t. if t = example_ticket ReadOnly then Some [0]
         else if t = example_ticket ReadWrite then Some [1] else None),
      pc_ticket_from = (\<lambda>bs. if bs = [0] then Some (example_ticket ReadOnly)
         else if bs = [1] then Some (example_ticket ReadWrite) else None),
      pc_claim = (\<lambda>c. Some []),
      hex_decode = (\<lambda>s. if \<exists>bs. ref_encode bs = s then Some (inv ref_encode s) else None),
      key_public = (\<lambda>k. k), key_sign = (\<lambda>k m. as_bytes k @ m),
      key_verify = (\<lambda>k m s. s = as_bytes k @ m)\<rparr>"

lemma example_ticket_distinct: "example_ticket ReadOnly \<noteq> example_ticket ReadWrite"
  by (simp add: example_ticket_def example_body_def)

lemma ref_share_ok: "share_crates_ok ref_share"
proof -
  have "inj ref_encode" by (rule injI) (simp add: ref_encode_inject)
  then have "inv ref_encode (ref_encode bs) = bs" for bs by (rule inv_f_f)
  then show ?thesis
    using example_ticket_distinct
    by (auto simp: share_crates_ok_def ref_share_def ref_hex_def length_ref_encode split: if_splits)
qed

lemma example_issue:
  "ticket_issue ref_share (hash_fill 9) (hash_fill 1) ''Files'' perm (Some 200)
     \<lparr>ea_id = hash_fill 9, ea_addrs = {||}\<rparr> 100 (hash_fill 2) (hash_fill 3) = Inr (example_ticket perm)"
proof -
  have "list_ex is_control (chars ''Files'') = False" by code_simp
  then have "verify_at ref_share (example_ticket perm) 100 = Inr ()"
    using example_ticket_distinct
    by (cases perm) (simp_all add: verify_at_def Let_def ref_share_def signed_bytes_def ok_or_def
        MAX_TICKET_BYTES_def example_ticket_def example_body_def fcard_fempty del: chars.simps)
  then show ?thesis
    by (simp add: ticket_issue_def Let_def signed_bytes_def ok_or_def)
      (simp add: ref_share_def example_ticket_def example_body_def)
qed

theorem issued_ticket_round_trip_witness:
  "\<exists>text. ticket_encode ref_share (example_ticket ReadOnly) = Some text \<and>
     parse_at ref_share text 150 = Inr (example_ticket ReadOnly) \<and> parse_at ref_share text 200 = Inl Expired"
  using issued_ticket_round_trip [OF ref_share_ok example_issue [of ReadOnly]] by fastforce

theorem legacy_proof_bound_witness:
  "\<exists>p. proof_verify ref_share p (example_ticket ReadOnly) (hash_fill 7) = Inr (hash_fill 32)"
proof -
  obtain p where "proof_create ref_share (example_ticket ReadOnly) (hash_fill 5) (hash_fill 7) (hash_fill 32) = Inr p"
    by (simp add: proof_create_def proof_message_def signed_bytes_def ok_or_def Let_def ref_share_def
        digest_def ref_hex_def)
  moreover have "key_public ref_share (hash_fill 5) \<noteq> hash_fill 7" by (simp add: ref_share_def)
  ultimately show ?thesis using legacy_proof_bound ref_share_ok by blast
qed

end
