(* ===== verification/Share_Registry.thy ===== *)
theory Share_Registry
  imports Share_Ticket "HOL-Library.Product_Lexorder"
begin

text \<open>
  The owner's share catalog of \<^verbatim>\<open>crates/deltaweave-net/src/share/registry.rs\<close>: shares, issued
  invitations, memberships and outbound relationships, kept in one record that every operation reads,
  changes and commits as a whole. An operation that fails commits nothing. The catalog value stands
  for the database row; its serialized length is a parameter because the code bounds it.
\<close>

section \<open>Data\<close>

definition MAX_MEMBERS :: nat where "MAX_MEMBERS = 4096"
definition MAX_REPLICAS :: nat where "MAX_REPLICAS = 4096"
definition MAX_CATALOG_BYTES :: nat where "MAX_CATALOG_BYTES = 16 * 1024 * 1024"

record owned_share_config =
  oc_share_id :: share_id
  oc_owner :: endpoint_id
  oc_name :: string
  oc_root :: string
  oc_state_root :: string
  oc_replica :: replica_id
  oc_min_free_space_bytes :: u64

record membership =
  mb_share_id :: share_id
  mb_owner :: endpoint_id
  mb_endpoint :: endpoint_id
  mb_permission :: permission
  mb_replica :: replica_id
  mb_enrolled_at :: u64
  mb_revoked_at :: "u64 option"
  mb_epoch :: u64

record invitation =
  iv_id :: invitation_id
  iv_share_id :: share_id
  iv_permission :: permission
  iv_expires_at :: "u64 option"
  iv_revoked_at :: "u64 option"
  iv_digest :: hash32

record member_relationship =
  rl_membership :: membership
  rl_address :: endpoint_addr

record share_entry =
  se_ready :: bool
  se_config :: owned_share_config
  se_invitations :: "(invitation_id, invitation) fmap"
  se_members :: "(endpoint_id, membership) fmap"
  se_known :: "replica_id fset"

record catalog =
  ct_version :: u8
  ct_owner :: endpoint_id
  ct_shares :: "(share_id, share_entry) fmap"
  ct_relationships :: "(endpoint_id \<times> share_id, member_relationship) fmap"

record registry_env =
  rg_share :: share_env
  rg_catalog_len :: "catalog \<Rightarrow> nat"

definition resolver :: "registry_env \<Rightarrow> replica_id" where
  "resolver R = digest (se_hash (rg_share R)) (str_bytes ''deltaweave deterministic conflict resolver v1'')"

section \<open>Transactions\<close>

definition reg_read :: "registry_env \<Rightarrow> catalog \<Rightarrow> share_error + catalog" where
  "reg_read R cat = and_then (ensure (rg_catalog_len R cat \<le> MAX_CATALOG_BYTES) StateUnavailable) (\<lambda>_. Inr cat)"

definition reg_update ::
    "registry_env \<Rightarrow> (catalog \<Rightarrow> share_error + (catalog \<times> 'a)) \<Rightarrow> catalog \<Rightarrow> share_error + (catalog \<times> 'a)" where
  "reg_update R f cat =
     and_then (reg_read R cat) (\<lambda>c. and_then (f c) (\<lambda>(c', result).
       and_then (ensure (rg_catalog_len R c' \<le> MAX_CATALOG_BYTES) StateUnavailable) (\<lambda>_. Inr (c', result))))"

definition fresh_catalog :: "endpoint_id \<Rightarrow> catalog" where
  "fresh_catalog owner = \<lparr>ct_version = 3, ct_owner = owner, ct_shares = fmempty, ct_relationships = fmempty\<rparr>"

definition registry_open :: "registry_env \<Rightarrow> catalog option \<Rightarrow> endpoint_id \<Rightarrow> share_error + catalog" where
  "registry_open R stored owner =
     and_then (reg_read R (case stored of None \<Rightarrow> fresh_catalog owner | Some cat \<Rightarrow> cat)) (\<lambda>cat.
       and_then (ensure (ct_version cat = 3 \<and> ct_owner cat = owner) StateUnavailable) (\<lambda>_. Inr cat))"

definition share_lookup :: "catalog \<Rightarrow> share_id \<Rightarrow> share_error + share_entry" where
  "share_lookup cat share = ok_or (fmlookup (ct_shares cat) share) UnknownShare"

definition put_entry :: "share_id \<Rightarrow> share_entry \<Rightarrow> catalog \<Rightarrow> catalog" where
  "put_entry share entry cat = cat\<lparr>ct_shares := fmupd share entry (ct_shares cat)\<rparr>"

section \<open>Shares\<close>

definition insert_share ::
    "registry_env \<Rightarrow> owned_share_config \<Rightarrow> replica_id fset \<Rightarrow> catalog \<Rightarrow> share_error + (catalog \<times> unit)" where
  "insert_share R config known = reg_update R (\<lambda>cat.
     and_then (ensure (oc_owner config = ct_owner cat \<and> oc_replica config \<noteq> resolver R) ReplicaClaimRejected) (\<lambda>_.
     and_then (ensure (map_len (ct_shares cat) < 256 \<and> fmlookup (ct_shares cat) (oc_share_id config) = None) Busy) (\<lambda>_.
       let known = finsert (resolver R) (finsert (oc_replica config) known)
       in Inr (put_entry (oc_share_id config)
            \<lparr>se_ready = False, se_config = config, se_invitations = fmempty, se_members = fmempty,
             se_known = known\<rparr> cat, ()))))"

definition is_ready :: "registry_env \<Rightarrow> catalog \<Rightarrow> share_id \<Rightarrow> share_error + bool" where
  "is_ready R cat share = and_then (reg_read R cat) (\<lambda>c.
     and_then (share_lookup c share) (\<lambda>entry. Inr (se_ready entry)))"

definition mark_ready :: "registry_env \<Rightarrow> share_id \<Rightarrow> catalog \<Rightarrow> share_error + (catalog \<times> unit)" where
  "mark_ready R share = reg_update R (\<lambda>cat.
     and_then (share_lookup cat share) (\<lambda>entry. Inr (put_entry share (entry\<lparr>se_ready := True\<rparr>) cat, ())))"

definition configs :: "registry_env \<Rightarrow> catalog \<Rightarrow> share_error + owned_share_config list" where
  "configs R cat = and_then (reg_read R cat) (\<lambda>c. Inr (map se_config (map_values (ct_shares c))))"

definition reg_config :: "registry_env \<Rightarrow> catalog \<Rightarrow> share_id \<Rightarrow> share_error + owned_share_config" where
  "reg_config R cat share = and_then (reg_read R cat) (\<lambda>c.
     and_then (share_lookup c share) (\<lambda>entry. Inr (se_config entry)))"

definition remember_replicas ::
    "registry_env \<Rightarrow> share_id \<Rightarrow> replica_id list \<Rightarrow> catalog \<Rightarrow> share_error + (catalog \<times> unit)" where
  "remember_replicas R share known = reg_update R (\<lambda>cat.
     and_then (share_lookup cat share) (\<lambda>entry.
       let entry' = entry\<lparr>se_known := se_known entry |\<union>| fset_of_list known\<rparr>
       in and_then (ensure (fcard (se_known entry') \<le> MAX_REPLICAS) InvalidShareRecord) (\<lambda>_.
            Inr (put_entry share entry' cat, ()))))"

definition reg_known :: "registry_env \<Rightarrow> catalog \<Rightarrow> share_id \<Rightarrow> share_error + replica_id fset" where
  "reg_known R cat share = and_then (reg_read R cat) (\<lambda>c.
     and_then (share_lookup c share) (\<lambda>entry. Inr (se_known entry)))"

section \<open>Invitations\<close>

definition reg_issue ::
    "registry_env \<Rightarrow> u64 \<Rightarrow> share_ticket \<Rightarrow> catalog \<Rightarrow> share_error + (catalog \<times> unit)" where
  "reg_issue R now ticket cat = (let body = st_body ticket in
     and_then (verify_at (rg_share R) ticket now) (\<lambda>_. reg_update R (\<lambda>cat.
       and_then (share_lookup cat (tb_share_id body)) (\<lambda>entry.
       and_then (ensure (oc_owner (se_config entry) = tb_owner body \<and>
                         oc_name (se_config entry) = tb_name body) InvalidTicket) (\<lambda>_.
       and_then (ensure (map_len (se_invitations entry) < 4096) Busy) (\<lambda>_.
       and_then (issuance_digest (rg_share R) ticket) (\<lambda>dig.
         Inr (put_entry (tb_share_id body) (entry\<lparr>se_invitations := fmupd (tb_invitation_id body)
           \<lparr>iv_id = tb_invitation_id body, iv_share_id = tb_share_id body,
            iv_permission = tb_permission body, iv_expires_at = tb_expires_at body,
            iv_revoked_at = None, iv_digest = dig\<rparr> (se_invitations entry)\<rparr>) cat, ())))))) cat))"

definition validate_entry :: "registry_env \<Rightarrow> u64 \<Rightarrow> share_entry \<Rightarrow> share_ticket \<Rightarrow> share_error + unit" where
  "validate_entry R now entry ticket = (let body = st_body ticket in
     and_then (verify_at (rg_share R) ticket now) (\<lambda>_.
     and_then (ok_or (fmlookup (se_invitations entry) (tb_invitation_id body)) InvalidTicket) (\<lambda>issuance.
     and_then (ensure (iv_revoked_at issuance = None) InvitationRevoked) (\<lambda>_.
     and_then (issuance_digest (rg_share R) ticket) (\<lambda>dig.
       ensure (iv_digest issuance = dig \<and> iv_share_id issuance = tb_share_id body \<and>
               iv_permission issuance = tb_permission body \<and> iv_expires_at issuance = tb_expires_at body \<and>
               oc_owner (se_config entry) = tb_owner body) InvalidTicket)))))"

definition reg_validate :: "registry_env \<Rightarrow> u64 \<Rightarrow> catalog \<Rightarrow> share_ticket \<Rightarrow> share_error + unit" where
  "reg_validate R now cat ticket = and_then (reg_read R cat) (\<lambda>c.
     and_then (share_lookup c (tb_share_id (st_body ticket))) (\<lambda>entry. validate_entry R now entry ticket))"

definition invitations :: "registry_env \<Rightarrow> catalog \<Rightarrow> share_id \<Rightarrow> share_error + invitation list" where
  "invitations R cat share = and_then (reg_read R cat) (\<lambda>c.
     and_then (share_lookup c share) (\<lambda>entry. Inr (map_values (se_invitations entry))))"

definition revoke_key ::
    "registry_env \<Rightarrow> u64 \<Rightarrow> share_id \<Rightarrow> invitation_id \<Rightarrow> catalog \<Rightarrow> share_error + (catalog \<times> unit)" where
  "revoke_key R now share invite = reg_update R (\<lambda>cat.
     and_then (share_lookup cat share) (\<lambda>entry.
     and_then (ok_or (fmlookup (se_invitations entry) invite) InvalidTicket) (\<lambda>issuance.
       let issuance' = issuance\<lparr>iv_revoked_at :=
             (case iv_revoked_at issuance of None \<Rightarrow> Some now | Some at \<Rightarrow> Some at)\<rparr>
       in Inr (put_entry share (entry\<lparr>se_invitations := fmupd invite issuance' (se_invitations entry)\<rparr>) cat, ()))))"

section \<open>Members\<close>

text \<open>
  The replica of a new member is drawn at random until it is unknown. The values the generator returns
  are an argument; \<open>None\<close> means that the loop is still drawing after all of them.
\<close>

fun draw_replica :: "replica_id fset \<Rightarrow> replica_id list \<Rightarrow> replica_id option" where
  "draw_replica known [] = None"
| "draw_replica known (r # rs) = (if r |\<notin>| known then Some r else draw_replica known rs)"

definition choose_replica ::
    "registry_env \<Rightarrow> share_entry \<Rightarrow> share_ticket \<Rightarrow> endpoint_id \<Rightarrow> legacy_proof option \<Rightarrow> replica_id list \<Rightarrow>
     (share_error + replica_id) option" where
  "choose_replica R entry ticket peer lp draws = (case lp of
     Some p \<Rightarrow> Some (and_then (proof_verify (rg_share R) p ticket peer) (\<lambda>replica.
       and_then (ensure (replica \<noteq> oc_replica (se_config entry) \<and> replica \<noteq> resolver R \<and>
           \<not> (\<exists>member \<in> set (map_values (se_members entry)). mb_replica member = replica))
         ReplicaClaimRejected) (\<lambda>_. Inr replica)))
   | None \<Rightarrow>
       if fcard (se_known entry) < MAX_REPLICAS then map_option Inr (draw_replica (se_known entry) draws)
       else Some (Inl Busy))"

definition add_member ::
    "registry_env \<Rightarrow> u64 \<Rightarrow> catalog \<Rightarrow> share_entry \<Rightarrow> share_ticket \<Rightarrow> endpoint_id \<Rightarrow> replica_id \<Rightarrow>
     share_error + (catalog \<times> membership)" where
  "add_member R now cat entry ticket peer replica =
     and_then (ensure (replica |\<in>| se_known entry \<or> fcard (se_known entry) < MAX_REPLICAS) Busy) (\<lambda>_.
       let member = \<lparr>mb_share_id = oc_share_id (se_config entry), mb_owner = ct_owner cat,
             mb_endpoint = peer, mb_permission = tb_permission (st_body ticket), mb_replica = replica,
             mb_enrolled_at = now, mb_revoked_at = None, mb_epoch = 1\<rparr>;
           entry' = entry\<lparr>se_known := finsert replica (se_known entry),
             se_members := fmupd peer member (se_members entry)\<rparr>
       in Inr (put_entry (tb_share_id (st_body ticket)) entry' cat, member))"

definition existing_member ::
    "registry_env \<Rightarrow> catalog \<Rightarrow> membership \<Rightarrow> share_ticket \<Rightarrow> endpoint_id \<Rightarrow> legacy_proof option \<Rightarrow>
     share_error + (catalog \<times> membership)" where
  "existing_member R cat member ticket peer lp =
     and_then (ensure (mb_revoked_at member = None) MemberRevoked) (\<lambda>_. case lp of
         None \<Rightarrow> Inr (cat, member)
       | Some p \<Rightarrow> and_then (proof_verify (rg_share R) p ticket peer) (\<lambda>replica.
           and_then (ensure (replica = mb_replica member) ReplicaClaimRejected) (\<lambda>_. Inr (cat, member))))"

definition enroll_entry ::
    "registry_env \<Rightarrow> u64 \<Rightarrow> share_ticket \<Rightarrow> endpoint_id \<Rightarrow> legacy_proof option \<Rightarrow> replica_id list \<Rightarrow>
     catalog \<Rightarrow> share_entry \<Rightarrow> (share_error + (catalog \<times> membership)) option" where
  "enroll_entry R now ticket peer lp draws cat entry =
     (case validate_entry R now entry ticket of Inl e \<Rightarrow> Some (Inl e) | Inr _ \<Rightarrow>
      (case fmlookup (se_members entry) peer of
         Some member \<Rightarrow> Some (existing_member R cat member ticket peer lp)
       | None \<Rightarrow>
           if \<not> map_len (se_members entry) < MAX_MEMBERS then Some (Inl Busy)
           else map_option (\<lambda>chosen. and_then chosen (add_member R now cat entry ticket peer))
                  (choose_replica R entry ticket peer lp draws)))"

definition commit ::
    "registry_env \<Rightarrow> share_error + (catalog \<times> 'a) \<Rightarrow> share_error + (catalog \<times> 'a)" where
  "commit R r = and_then r (\<lambda>(c', result).
     and_then (ensure (rg_catalog_len R c' \<le> MAX_CATALOG_BYTES) StateUnavailable) (\<lambda>_. Inr (c', result)))"

definition enroll ::
    "registry_env \<Rightarrow> u64 \<Rightarrow> share_ticket \<Rightarrow> endpoint_id \<Rightarrow> legacy_proof option \<Rightarrow> replica_id list \<Rightarrow>
     catalog \<Rightarrow> (share_error + (catalog \<times> membership)) option" where
  "enroll R now ticket peer lp draws cat =
     (case reg_read R cat of Inl e \<Rightarrow> Some (Inl e) | Inr c \<Rightarrow>
      if peer = ct_owner c then Some (Inl OwnerMismatch)
      else (case share_lookup c (tb_share_id (st_body ticket)) of Inl e \<Rightarrow> Some (Inl e) | Inr entry \<Rightarrow>
        map_option (commit R) (enroll_entry R now ticket peer lp draws c entry)))"

definition authorize :: "registry_env \<Rightarrow> catalog \<Rightarrow> share_id \<Rightarrow> endpoint_id \<Rightarrow> bool \<Rightarrow> share_error + membership" where
  "authorize R cat share peer write = and_then (reg_read R cat) (\<lambda>c.
     and_then (share_lookup c share) (\<lambda>entry.
     and_then (ok_or (fmlookup (se_members entry) peer) NotMember) (\<lambda>member.
     and_then (ensure (mb_revoked_at member = None) MemberRevoked) (\<lambda>_.
     and_then (ensure (\<not> write \<or> mb_permission member = ReadWrite) PermissionDenied) (\<lambda>_. Inr member)))))"

definition members :: "registry_env \<Rightarrow> catalog \<Rightarrow> share_id \<Rightarrow> share_error + membership list" where
  "members R cat share = and_then (reg_read R cat) (\<lambda>c.
     and_then (share_lookup c share) (\<lambda>entry. Inr (map_values (se_members entry))))"

definition revoke_member ::
    "registry_env \<Rightarrow> u64 \<Rightarrow> share_id \<Rightarrow> endpoint_id \<Rightarrow> catalog \<Rightarrow> share_error + (catalog \<times> unit)" where
  "revoke_member R now share peer = reg_update R (\<lambda>cat.
     and_then (share_lookup cat share) (\<lambda>entry.
     and_then (ok_or (fmlookup (se_members entry) peer) NotMember) (\<lambda>member.
       if mb_revoked_at member = None then
         and_then (ok_or (checked_add (mb_epoch member) 1) StateUnavailable) (\<lambda>epoch.
           Inr (put_entry share (entry\<lparr>se_members := fmupd peer
             (member\<lparr>mb_revoked_at := Some now, mb_epoch := epoch\<rparr>) (se_members entry)\<rparr>) cat, ()))
       else Inr (cat, ()))))"

section \<open>Relationships with other owners\<close>

definition store_relationship ::
    "registry_env \<Rightarrow> member_relationship \<Rightarrow> catalog \<Rightarrow> share_error + (catalog \<times> unit)" where
  "store_relationship R rel = reg_update R (\<lambda>cat. let member = rl_membership rel in
     and_then (ensure (mb_endpoint member = ct_owner cat \<and> mb_owner member = ea_id (rl_address rel) \<and>
                       mb_owner member \<noteq> ct_owner cat) OwnerMismatch) (\<lambda>_.
       let key = (mb_owner member, mb_share_id member)
       in and_then (case fmlookup (ct_relationships cat) key of
              None \<Rightarrow> Inr ()
            | Some existing \<Rightarrow> ensure (mb_replica (rl_membership existing) = mb_replica member) ReplicaClaimRejected)
          (\<lambda>_. Inr (cat\<lparr>ct_relationships := fmupd key rel (ct_relationships cat)\<rparr>, ()))))"

definition relationships :: "registry_env \<Rightarrow> catalog \<Rightarrow> share_error + member_relationship list" where
  "relationships R cat = and_then (reg_read R cat) (\<lambda>c. Inr (map_values (ct_relationships c)))"

definition relationship ::
    "registry_env \<Rightarrow> catalog \<Rightarrow> endpoint_id \<Rightarrow> share_id \<Rightarrow> share_error + member_relationship" where
  "relationship R cat owner share = and_then (reg_read R cat) (\<lambda>c.
     ok_or (fmlookup (ct_relationships c) (owner, share)) NotMember)"

end
