(* ===== verification/Share_Wire.thy ===== *)
theory Share_Wire
  imports Share_Registry
begin

text \<open>
  The opening exchange of a share connection (\<^verbatim>\<open>crates/deltaweave-net/src/share/wire.rs\<close>): the hello of the
  connecting device, which must be in its canonical encoding, and the reply of the owner.
\<close>

datatype share_operation =
    OpValidate share_ticket
  | OpEnroll share_ticket "legacy_proof option"
  | OpSession

record hello =
  hl_version :: u8
  hl_share_id :: share_id
  hl_operation :: share_operation

datatype share_reply =
    Validated ticket_preview
  | Enrolled membership
  | Accepted
  | ReplyError share_error

text \<open>The \<open>postcard\<close> encoding of a hello is a parameter.\<close>

record hello_codec =
  hc_bytes :: "hello \<Rightarrow> u8 list"
  hc_from :: "u8 list \<Rightarrow> hello option"

definition read_hello :: "hello_codec \<Rightarrow> u8 list \<Rightarrow> share_error + hello" where
  "read_hello K bytes =
     and_then (ensure (length bytes \<le> 16384) Protocol) (\<lambda>_.
     and_then (ok_or (hc_from K bytes) Protocol) (\<lambda>hello.
     and_then (ensure (hl_version hello = 3) UnsupportedVersion) (\<lambda>_.
     and_then (ensure (hc_bytes K hello = bytes) Protocol) (\<lambda>_. Inr hello))))"

lemma read_hello_Inr:
  "read_hello K bytes = Inr h \<longleftrightarrow> length bytes \<le> 16384 \<and> hc_from K bytes = Some h \<and> hl_version h = 3 \<and> hc_bytes K h = bytes"
  by (auto simp: read_hello_def and_then_Inr_iff ensure_def ok_or_def split: option.splits)

end
