(* ===== verification/Fs_Tree.thy ===== *)
theory Fs_Tree
  imports DW_Prelude "HOL-Library.Multiset" "HOL-Library.Sublist"
begin

text \<open>
  The file system the store works on: a tree of files, symbolic links, directories and other objects,
  with the metadata the code reads (identity, times, read-only flag, link count). Paths are absolute
  component lists. The calls of \<^verbatim>\<open>std::fs\<close> and \<^verbatim>\<open>rustix::fs\<close> that the store uses are functions on
  the tree: \<open>symlink_metadata\<close> resolves symbolic links in all but the last component, \<open>canonicalize\<close> and
  \<open>metadata\<close> in every component. The modification time of a directory whose entries change is not
  tracked: the store only reads the times of the object an operation is about.
\<close>

section \<open>The tree\<close>

record node_meta =
  nm_identity :: "(u64 \<times> u64) option"
  nm_modified_ns :: "128 word option"
  nm_changed_ns :: "128 word option"
  nm_readonly :: bool
  nm_nlink :: nat

datatype fs_node =
    FileNode (node_meta: node_meta) (node_bytes: "u8 list")
  | LinkNode (node_meta: node_meta) (node_target: string)
  | DirNode (node_meta: node_meta) (node_children: "(string, fs_node) fmap")
  | OtherNode (node_meta: node_meta)

type_synonym fs_path = "string list"

datatype io_kind = IoNotFound | IoAlreadyExists | IoNotADirectory | IoIsADirectory | IoTooManyLinks | IoDirectoryNotEmpty | IoOther

definition is_dir_node :: "fs_node \<Rightarrow> bool" where
  "is_dir_node n = (case n of DirNode _ _ \<Rightarrow> True | _ \<Rightarrow> False)"

definition is_file_node :: "fs_node \<Rightarrow> bool" where
  "is_file_node n = (case n of FileNode _ _ \<Rightarrow> True | _ \<Rightarrow> False)"

definition set_meta :: "(node_meta \<Rightarrow> node_meta) \<Rightarrow> fs_node \<Rightarrow> fs_node" where
  "set_meta f n = (case n of FileNode m b \<Rightarrow> FileNode (f m) b | LinkNode m t \<Rightarrow> LinkNode (f m) t
     | DirNode m ch \<Rightarrow> DirNode (f m) ch | OtherNode m \<Rightarrow> OtherNode (f m))"

fun fs_lookup :: "fs_node \<Rightarrow> fs_path \<Rightarrow> fs_node option" where
  "fs_lookup n [] = Some n"
| "fs_lookup (DirNode m ch) (c # cs) = (case fmlookup ch c of None \<Rightarrow> None | Some n \<Rightarrow> fs_lookup n cs)"
| "fs_lookup n (c # cs) = None"

text \<open>Setting (\<open>Some\<close>) or removing (\<open>None\<close>) the entry at a path whose parent is a directory.\<close>

fun fs_put :: "fs_node option \<Rightarrow> fs_path \<Rightarrow> fs_node \<Rightarrow> fs_node" where
  "fs_put v [] n = (case v of None \<Rightarrow> n | Some n' \<Rightarrow> n')"
| "fs_put v [c] (DirNode m ch) = DirNode m (case v of None \<Rightarrow> fmdrop c ch | Some n \<Rightarrow> fmupd c n ch)"
| "fs_put v (c # d # cs) (DirNode m ch) = (case fmlookup ch c of
     None \<Rightarrow> DirNode m ch | Some n \<Rightarrow> DirNode m (fmupd c (fs_put v (d # cs) n) ch))"
| "fs_put v (c # cs) n = n"

definition is_real_dir :: "fs_node \<Rightarrow> fs_path \<Rightarrow> bool" where
  "is_real_dir fs p = (case fs_lookup fs p of Some n \<Rightarrow> is_dir_node n | None \<Rightarrow> False)"

section \<open>Path resolution\<close>

text \<open>The host follows at most 40 symbolic links in one resolution.\<close>

function fs_walk :: "nat \<Rightarrow> fs_node \<Rightarrow> fs_path \<Rightarrow> string list \<Rightarrow> io_kind + fs_path" where
  "fs_walk fuel fs acc [] = Inr acc"
| "fs_walk fuel fs acc (c # cs) =
     (if c = [] \<or> c = ''.'' then fs_walk fuel fs acc cs
      else if c = ''..'' then fs_walk fuel fs (butlast acc) cs
      else case fs_lookup fs (acc @ [c]) of
        None \<Rightarrow> Inl IoNotFound
      | Some (LinkNode m target) \<Rightarrow> (case fuel of
          0 \<Rightarrow> Inl IoTooManyLinks
        | Suc fuel' \<Rightarrow> fs_walk fuel' fs (if take 1 target = ''/'' then [] else acc) (split_on (CHR ''/'') target @ cs))
      | Some (DirNode m ch) \<Rightarrow> fs_walk fuel fs (acc @ [c]) cs
      | Some _ \<Rightarrow> if cs = [] then Inr (acc @ [c]) else Inl IoNotADirectory)"
  by pat_completeness auto
termination
  by (relation "measures [\<lambda>(fuel, fs, acc, cs). fuel, \<lambda>(fuel, fs, acc, cs). length cs]") auto

definition fs_canonicalize :: "fs_node \<Rightarrow> fs_path \<Rightarrow> io_kind + fs_path" where
  "fs_canonicalize fs p = fs_walk 40 fs [] p"

definition fs_metadata :: "fs_node \<Rightarrow> fs_path \<Rightarrow> io_kind + fs_node" where
  "fs_metadata fs p = and_then (fs_canonicalize fs p) (\<lambda>q. ok_or (fs_lookup fs q) IoNotFound)"

definition fs_is_dir :: "fs_node \<Rightarrow> fs_path \<Rightarrow> bool" where
  "fs_is_dir fs p = (case fs_metadata fs p of Inr n \<Rightarrow> is_dir_node n | Inl _ \<Rightarrow> False)"

definition fs_is_file :: "fs_node \<Rightarrow> fs_path \<Rightarrow> bool" where
  "fs_is_file fs p = (case fs_metadata fs p of Inr n \<Rightarrow> is_file_node n | Inl _ \<Rightarrow> False)"

definition fs_exists :: "fs_node \<Rightarrow> fs_path \<Rightarrow> bool" where
  "fs_exists fs p = (case fs_metadata fs p of Inr n \<Rightarrow> True | Inl _ \<Rightarrow> False)"

text \<open>The entry a path names: its parent is resolved, its last component is not followed.\<close>

definition fs_entry :: "fs_node \<Rightarrow> fs_path \<Rightarrow> io_kind + fs_path" where
  "fs_entry fs p = (if p = [] then Inr [] else
     and_then (fs_canonicalize fs (butlast p)) (\<lambda>d.
       if is_real_dir fs d then Inr (d @ [last p]) else Inl IoNotADirectory))"

definition fs_stat :: "fs_node \<Rightarrow> fs_path \<Rightarrow> io_kind + fs_node" where
  "fs_stat fs p = and_then (fs_entry fs p) (\<lambda>q. ok_or (fs_lookup fs q) IoNotFound)"

text \<open>Every component of the path is a directory itself: no symbolic link on the way.\<close>

definition real_path :: "fs_node \<Rightarrow> fs_path \<Rightarrow> bool" where
  "real_path fs p = list_all (\<lambda>k. is_real_dir fs (take k p)) [0..<Suc (length p)]"

section \<open>Looking up and updating\<close>

lemma fs_lookup_append:
  "fs_lookup n (p @ q) = (case fs_lookup n p of None \<Rightarrow> None | Some n' \<Rightarrow> fs_lookup n' q)"
  by (induction n p rule: fs_lookup.induct) (auto split: option.splits)

lemma fs_lookup_dir: "fs_lookup n p = Some n' \<Longrightarrow> p \<noteq> [] \<Longrightarrow> is_dir_node n"
  by (cases n; cases p) (auto simp: is_dir_node_def)

lemma is_dir_node_put [simp]: "p \<noteq> [] \<Longrightarrow> is_dir_node (fs_put v p n) = is_dir_node n"
  by (induction v p n rule: fs_put.induct) (auto simp: is_dir_node_def split: option.splits)

lemma fs_lookup_put_same:
  "p \<noteq> [] \<Longrightarrow> is_real_dir n (butlast p) \<Longrightarrow> fs_lookup (fs_put v p n) p = v"
  by (induction v p n rule: fs_put.induct)
     (auto simp: is_real_dir_def is_dir_node_def split: option.splits fs_node.splits if_splits)

text \<open>An update at \<open>p\<close> is invisible at a path that neither extends \<open>p\<close> nor is extended by it.\<close>

definition apart :: "fs_path \<Rightarrow> fs_path \<Rightarrow> bool" where
  "apart p q \<longleftrightarrow> \<not> prefix p q \<and> \<not> prefix q p"

lemma apart_sym: "apart p q \<longleftrightarrow> apart q p"
  by (auto simp: apart_def)

lemma apart_simps [simp]:
  "\<not> apart [] q" "\<not> apart p []" "apart (c # p) (d # q) \<longleftrightarrow> c \<noteq> d \<or> apart p q"
  by (auto simp: apart_def)

lemma apart_append: "apart (r @ p) (r @ q) \<longleftrightarrow> apart p q"
  by (induction r) auto

lemma fs_lookup_put_apart: "apart p q \<Longrightarrow> fs_lookup (fs_put v p n) q = fs_lookup n q"
proof (induction v p n arbitrary: q rule: fs_put.induct)
  case (2 v c m ch)
  then show ?case by (cases q) (auto split: option.splits)
next
  case (3 v c d cs m ch)
  then show ?case by (cases q) (auto split: option.splits)
qed auto

text \<open>Above the updated path the directory is the old one, updated below.\<close>

lemma fs_lookup_put_above:
  "r \<noteq> [] \<Longrightarrow> fs_lookup (fs_put v (q @ r) n) q = map_option (fs_put v r) (fs_lookup n q)"
proof (induction q arbitrary: n)
  case (Cons c q)
  show ?case
  proof (cases n)
    case (DirNode m ch)
    from Cons.prems obtain d cs where "q @ r = d # cs" by (cases "q @ r") auto
    with DirNode Cons show ?thesis by (auto split: option.splits)
  qed auto
qed simp

lemma is_real_dir_put:
  assumes "\<not> prefix p q"
  shows "is_real_dir (fs_put v p n) q \<longleftrightarrow> is_real_dir n q"
proof (cases "prefix q p")
  case True
  then obtain r where "p = q @ r" by (auto elim: prefixE)
  moreover from this assms have "r \<noteq> []" by auto
  ultimately show ?thesis by (auto simp: is_real_dir_def fs_lookup_put_above split: option.splits)
next
  case False
  with assms show ?thesis by (simp add: is_real_dir_def fs_lookup_put_apart apart_def)
qed

lemma real_path_iff: "real_path fs p \<longleftrightarrow> (\<forall>q. prefix q p \<longrightarrow> is_real_dir fs q)"
proof
  assume *: "real_path fs p"
  show "\<forall>q. prefix q p \<longrightarrow> is_real_dir fs q"
  proof (intro allI impI)
    fix q assume "prefix q p"
    then have "q = take (length q) p" "length q \<le> length p" by (auto elim: prefixE)
    with * show "is_real_dir fs q" unfolding real_path_def list_all_iff
      by (metis atLeastLessThan_iff le0 less_Suc_eq_le set_upt)
  qed
qed (auto simp: real_path_def list_all_iff take_is_prefix)

lemma real_path_put:
  "\<not> prefix p q \<Longrightarrow> real_path (fs_put v p n) q \<longleftrightarrow> real_path n q"
  unfolding real_path_iff by (metis is_real_dir_put prefix_order.trans)

lemma real_path_prefix: "real_path fs p \<Longrightarrow> prefix q p \<Longrightarrow> real_path fs q"
  unfolding real_path_iff by (meson prefix_order.trans)

lemma real_path_real_dir: "real_path fs p \<Longrightarrow> is_real_dir fs p"
  unfolding real_path_iff by simp

text \<open>A directory reached by lookup is reached through directories only.\<close>

lemma real_path_dir: "is_real_dir fs p \<Longrightarrow> real_path fs p"
proof (unfold real_path_iff, intro allI impI)
  fix q assume "is_real_dir fs p" "prefix q p"
  then obtain r where "p = q @ r" by (auto elim: prefixE)
  with \<open>is_real_dir fs p\<close> show "is_real_dir fs q"
    by (cases "r = []") (auto simp: is_real_dir_def fs_lookup_append dest: fs_lookup_dir split: option.splits)
qed

lemma real_path_eq: "real_path fs p = is_real_dir fs p"
  using real_path_dir real_path_real_dir by blast

lemma lookup_parent_dir: "fs_lookup fs p = Some n \<Longrightarrow> p \<noteq> [] \<Longrightarrow> is_real_dir fs (butlast p)"
proof -
  assume *: "fs_lookup fs p = Some n" "p \<noteq> []"
  then have "fs_lookup fs (butlast p @ [last p]) = Some n" by simp
  then show ?thesis
    by (auto simp: is_real_dir_def fs_lookup_append dest: fs_lookup_dir split: option.splits)
qed

section \<open>Resolving paths without symbolic links\<close>

definition plain_path :: "fs_path \<Rightarrow> bool" where
  "plain_path p = list_all (\<lambda>c. c \<noteq> [] \<and> c \<noteq> ''.'' \<and> c \<noteq> ''..'') p"

lemma plain_path_append [simp]: "plain_path (p @ q) \<longleftrightarrow> plain_path p \<and> plain_path q"
  by (simp add: plain_path_def)

lemma plain_path_prefix: "plain_path p \<Longrightarrow> prefix q p \<Longrightarrow> plain_path q"
  by (auto elim: prefixE)

lemma fs_walk_real:
  assumes "plain_path cs" and "is_real_dir fs (acc @ cs)"
  shows "fs_walk fuel fs acc cs = Inr (acc @ cs)"
  using assms
proof (induction cs arbitrary: acc)
  case (Cons c cs)
  then have "real_path fs (acc @ c # cs)" by (simp add: real_path_eq)
  then have "is_real_dir fs (acc @ [c])" unfolding real_path_iff by simp
  then obtain m ch where "fs_lookup fs (acc @ [c]) = Some (DirNode m ch)"
    by (auto simp: is_real_dir_def is_dir_node_def split: option.splits fs_node.splits)
  with Cons show ?case by (simp add: plain_path_def)
qed simp

lemma fs_canonicalize_real: "plain_path p \<Longrightarrow> is_real_dir fs p \<Longrightarrow> fs_canonicalize fs p = Inr p"
  by (simp add: fs_canonicalize_def fs_walk_real)

lemma fs_is_dir_real: "plain_path p \<Longrightarrow> is_real_dir fs p \<Longrightarrow> fs_is_dir fs p"
  by (auto simp: fs_is_dir_def fs_metadata_def fs_canonicalize_real is_real_dir_def ok_or_def split: option.splits)

lemma plain_path_butlast: "plain_path p \<Longrightarrow> plain_path (butlast p)"
  by (auto simp: plain_path_def list_all_iff dest: in_set_butlastD)

lemma fs_stat_real:
  assumes "plain_path p" "p \<noteq> []" "is_real_dir fs (butlast p)"
  shows "fs_stat fs p = ok_or (fs_lookup fs p) IoNotFound"
  using assms by (simp add: fs_stat_def fs_entry_def fs_canonicalize_real plain_path_butlast)

section \<open>What a tree holds\<close>

text \<open>
  Every object of a tree, directories without their entries, with the two metadata fields cleared that
  a change of permissions or a rename updates.
\<close>

definition settled :: "node_meta \<Rightarrow> node_meta" where
  "settled m = m\<lparr>nm_changed_ns := None, nm_readonly := False\<rparr>"

primrec objects :: "fs_node \<Rightarrow> fs_node multiset" where
  "objects (FileNode m b) = {#FileNode (settled m) b#}"
| "objects (LinkNode m t) = {#LinkNode (settled m) t#}"
| "objects (OtherNode m) = {#OtherNode (settled m)#}"
| "objects (DirNode m ch) = add_mset (DirNode (settled m) fmempty)
     (\<Sum>c\<in>fset (fmdom ch). case fmlookup (fmmap objects ch) c of None \<Rightarrow> {#} | Some x \<Rightarrow> x)"

abbreviation opt_objects :: "fs_node option \<Rightarrow> fs_node multiset" where
  "opt_objects v \<equiv> (case v of None \<Rightarrow> {#} | Some n \<Rightarrow> objects n)"

lemma objects_DirNode: "objects (DirNode m ch) =
  add_mset (DirNode (settled m) fmempty) (\<Sum>c\<in>fset (fmdom ch). opt_objects (fmlookup ch c))"
  by (auto intro!: sum.cong split: option.splits)

declare objects.simps(4) [simp del]

lemma sum_fmdom_split:
  "(\<Sum>c\<in>fset (fmdom ch). opt_objects (fmlookup ch c)) =
    opt_objects (fmlookup ch a) + (\<Sum>c\<in>fset (fmdom ch) - {a}. opt_objects (fmlookup ch c))"
proof (cases "a \<in> fset (fmdom ch)")
  case True
  then show ?thesis by (simp add: sum.remove)
next
  case False
  then have "fmlookup ch a = None" by (meson fmdom_notD)
  with False show ?thesis by simp
qed

lemma objects_upd:
  "objects (DirNode m (fmupd a n ch)) + opt_objects (fmlookup ch a) = objects (DirNode m ch) + objects n"
proof -
  have "(\<Sum>c\<in>fset (fmdom ch) - {a}. opt_objects (fmlookup (fmupd a n ch) c)) =
      (\<Sum>c\<in>fset (fmdom ch) - {a}. opt_objects (fmlookup ch c))"
    by (rule sum.cong) auto
  with sum_fmdom_split [of "fmupd a n ch" a] sum_fmdom_split [of ch a]
  show ?thesis by (simp add: objects_DirNode insert_Diff_if)
qed

lemma objects_drop: "objects (DirNode m (fmdrop a ch)) + opt_objects (fmlookup ch a) = objects (DirNode m ch)"
proof -
  have "(\<Sum>c\<in>fset (fmdom (fmdrop a ch)). opt_objects (fmlookup (fmdrop a ch) c)) =
      (\<Sum>c\<in>fset (fmdom ch) - {a}. opt_objects (fmlookup ch c))"
    by (rule sum.cong) auto
  with sum_fmdom_split [of ch a] show ?thesis by (simp add: objects_DirNode)
qed

lemma multiset_exchange:
  fixes a b c d e f :: "'a multiset"
  assumes "a + b = c + d" and "e + c = f + a"
  shows "e + b = f + d"
proof -
  from assms have "e + b + c = f + d + c" by (metis add.assoc add.commute)
  then show ?thesis by simp
qed

lemma objects_put:
  assumes "p \<noteq> []" "is_real_dir fs (butlast p)"
  shows "objects (fs_put v p fs) + opt_objects (fs_lookup fs p) = objects fs + opt_objects v"
  using assms
proof (induction v p fs rule: fs_put.induct)
  case (2 v c m ch)
  then show ?case using objects_upd [of m c _ ch] objects_drop [of m c ch]
    by (cases v; cases "fmlookup ch c") simp_all
next
  case (3 v c d cs m ch)
  then obtain n where n: "fmlookup ch c = Some n"
    by (auto simp: is_real_dir_def split: option.splits)
  with 3 have "objects (fs_put v (d # cs) n) + opt_objects (fs_lookup n (d # cs)) = objects n + opt_objects v"
    by (auto simp: is_real_dir_def)
  moreover from objects_upd [of m c "fs_put v (d # cs) n" ch] n
  have "objects (DirNode m (fmupd c (fs_put v (d # cs) n) ch)) + objects n =
      objects (DirNode m ch) + objects (fs_put v (d # cs) n)" by simp
  ultimately have "objects (DirNode m (fmupd c (fs_put v (d # cs) n) ch)) + opt_objects (fs_lookup n (d # cs)) =
      objects (DirNode m ch) + opt_objects v"
    by (rule multiset_exchange)
  with n show ?case by simp
qed (auto simp: is_real_dir_def is_dir_node_def split: if_splits)

end
