(* ===== verification/Crash_Logic.thy ===== *)
theory Crash_Logic
  imports DW_Prelude
begin

text \<open>
  Programs that change durable state, may fail with an error and may be interrupted at any point. A
  program maps a state to an outcome and the state left behind: \<open>Done\<close> with a result, \<open>Failed\<close> with the
  error that the \<open>?\<close> operator propagates, or \<open>Halted\<close> when the process was interrupted, which nothing
  catches. Two ways to reason about them: \<open>wp\<close>, a weakest precondition with one postcondition per
  outcome, and \<open>keeps\<close>, a relation between the states before and after, whatever the outcome.
\<close>

datatype ('e, 'a) outcome = Done 'a | Failed 'e | Halted

type_synonym ('s, 'e, 'a) prog = "'s \<Rightarrow> ('e, 'a) outcome \<times> 's"

named_theorems wp_simps \<open>weakest preconditions of program constructs\<close>
named_theorems keeps_intros \<open>programs whose every run relates the state before to the state after\<close>

section \<open>Constructs\<close>

definition ret :: "'a \<Rightarrow> ('s, 'e, 'a) prog" where
  "ret x s = (Done x, s)"

definition fail :: "'e \<Rightarrow> ('s, 'e, 'a) prog" where
  "fail e s = (Failed e, s)"

definition and_do :: "('s, 'e, 'a) prog \<Rightarrow> ('a \<Rightarrow> ('s, 'e, 'b) prog) \<Rightarrow> ('s, 'e, 'b) prog" where
  "and_do p f s = (case p s of (Done x, t) \<Rightarrow> f x t | (Failed e, t) \<Rightarrow> (Failed e, t) | (Halted, t) \<Rightarrow> (Halted, t))"

definition require :: "bool \<Rightarrow> 'e \<Rightarrow> ('s, 'e, unit) prog" where
  "require b e = (if b then ret () else fail e)"

definition lift_res :: "'e + 'a \<Rightarrow> ('s, 'e, 'a) prog" where
  "lift_res r = (case r of Inl e \<Rightarrow> fail e | Inr x \<Rightarrow> ret x)"

text \<open>\<open>let _ = p\<close>: the error of \<open>p\<close> is dropped.\<close>

definition attempt :: "('s, 'e, 'a) prog \<Rightarrow> ('s, 'e, unit) prog" where
  "attempt p s = (case p s of (Halted, t) \<Rightarrow> (Halted, t) | (_, t) \<Rightarrow> (Done (), t))"

text \<open>\<open>if let Err(error) = p { h; return Err(error) }\<close>\<close>

definition on_failure :: "('s, 'e, 'a) prog \<Rightarrow> ('s, 'e, 'b) prog \<Rightarrow> ('s, 'e, 'a) prog" where
  "on_failure p h s = (case p s of (Failed e, t) \<Rightarrow> and_do h (\<lambda>_. fail e) t | (Done x, t) \<Rightarrow> (Done x, t) | (Halted, t) \<Rightarrow> (Halted, t))"

text \<open>\<open>match p { Ok(x) => Ok(f x), Err(e) => h e }\<close> for a fallible step.\<close>

definition catch :: "('s, 'e, 'a) prog \<Rightarrow> ('e \<Rightarrow> ('s, 'e, 'a) prog) \<Rightarrow> ('s, 'e, 'a) prog" where
  "catch p h s = (case p s of (Failed e, t) \<Rightarrow> h e t | (Done x, t) \<Rightarrow> (Done x, t) | (Halted, t) \<Rightarrow> (Halted, t))"

fun for_each :: "('x \<Rightarrow> ('s, 'e, unit) prog) \<Rightarrow> 'x list \<Rightarrow> ('s, 'e, unit) prog" where
  "for_each f [] = ret ()"
| "for_each f (x # xs) = and_do (f x) (\<lambda>_. for_each f xs)"

fun map_each :: "('x \<Rightarrow> ('s, 'e, 'y) prog) \<Rightarrow> 'x list \<Rightarrow> ('s, 'e, 'y list) prog" where
  "map_each f [] = ret []"
| "map_each f (x # xs) = and_do (f x) (\<lambda>y. and_do (map_each f xs) (\<lambda>ys. ret (y # ys)))"

lemma and_do_Done: "and_do p f s = (Done y, t) \<longleftrightarrow> (\<exists>x u. p s = (Done x, u) \<and> f x u = (Done y, t))"
  by (auto simp: and_do_def split: prod.split outcome.split)

section \<open>Weakest preconditions\<close>

definition wp :: "('s, 'e, 'a) prog \<Rightarrow> ('a \<Rightarrow> 's \<Rightarrow> bool) \<Rightarrow> ('e \<Rightarrow> 's \<Rightarrow> bool) \<Rightarrow> ('s \<Rightarrow> bool) \<Rightarrow> 's \<Rightarrow> bool" where
  "wp p Q F C s = (case p s of (Done x, t) \<Rightarrow> Q x t | (Failed e, t) \<Rightarrow> F e t | (Halted, t) \<Rightarrow> C t)"

lemma wp_ret [wp_simps]: "wp (ret x) Q F C s = Q x s"
  by (simp add: wp_def ret_def)

lemma wp_fail [wp_simps]: "wp (fail e) Q F C s = F e s"
  by (simp add: wp_def fail_def)

lemma wp_and_do [wp_simps]: "wp (and_do p f) Q F C s = wp p (\<lambda>x. wp (f x) Q F C) F C s"
  by (auto simp: wp_def and_do_def split: prod.split outcome.split)

lemma wp_require [wp_simps]: "wp (require b e) Q F C s = (if b then Q () s else F e s)"
  by (simp add: require_def wp_simps)

lemma wp_lift_res [wp_simps]: "wp (lift_res r) Q F C s = (case r of Inl e \<Rightarrow> F e s | Inr x \<Rightarrow> Q x s)"
  by (simp add: lift_res_def wp_simps split: sum.split)

lemma wp_attempt [wp_simps]: "wp (attempt p) Q F C s = wp p (\<lambda>_. Q ()) (\<lambda>_. Q ()) C s"
  by (auto simp: wp_def attempt_def split: prod.split outcome.split)

lemma wp_on_failure [wp_simps]:
  "wp (on_failure p h) Q F C s = wp p Q (\<lambda>e. wp h (\<lambda>_. F e) F C) C s"
  by (auto simp: wp_def on_failure_def and_do_def fail_def split: prod.split outcome.split)

lemma wp_catch [wp_simps]: "wp (catch p h) Q F C s = wp p Q (\<lambda>e. wp (h e) Q F C) C s"
  by (auto simp: wp_def catch_def split: prod.split outcome.split)

lemma wp_if [wp_simps]: "wp (if b then p else q) Q F C s = (if b then wp p Q F C s else wp q Q F C s)"
  by simp

lemma wp_case_option [wp_simps]:
  "wp (case x of None \<Rightarrow> p | Some y \<Rightarrow> q y) Q F C s = (case x of None \<Rightarrow> wp p Q F C s | Some y \<Rightarrow> wp (q y) Q F C s)"
  by (simp split: option.split)

lemma wp_mono:
  assumes "wp p Q F C s" and "\<And>x t. Q x t \<Longrightarrow> Q' x t" and "\<And>e t. F e t \<Longrightarrow> F' e t" and "\<And>t. C t \<Longrightarrow> C' t"
  shows "wp p Q' F' C' s"
  using assms by (auto simp: wp_def split: prod.splits outcome.splits)

lemma wp_conj:
  "wp p (\<lambda>x t. Q x t \<and> Q' x t) (\<lambda>e t. F e t \<and> F' e t) (\<lambda>t. C t \<and> C' t) s \<longleftrightarrow> wp p Q F C s \<and> wp p Q' F' C' s"
  by (auto simp: wp_def split: prod.splits outcome.splits)

text \<open>What a weakest precondition says of the run itself.\<close>

lemma wp_Done: "wp p Q F C s \<Longrightarrow> p s = (Done x, t) \<Longrightarrow> Q x t"
  and wp_Failed: "wp p Q F C s \<Longrightarrow> p s = (Failed e, t) \<Longrightarrow> F e t"
  and wp_Halted: "wp p Q F C s \<Longrightarrow> p s = (Halted, t) \<Longrightarrow> C t"
  by (simp_all add: wp_def)

lemma wp_total: "wp p Q (\<lambda>_ _. False) (\<lambda>_. False) s \<Longrightarrow> \<exists>x t. p s = (Done x, t) \<and> Q x t"
  by (auto simp: wp_def split: prod.splits outcome.splits)

section \<open>Relations every run keeps\<close>

definition keeps :: "('s \<Rightarrow> 's \<Rightarrow> bool) \<Rightarrow> ('s, 'e, 'a) prog \<Rightarrow> bool" where
  "keeps R p \<longleftrightarrow> (\<forall>s. R s (snd (p s)))"

lemma keepsD: "keeps R p \<Longrightarrow> R s (snd (p s))"
  by (simp add: keeps_def)

locale progress =
  fixes R :: "'s \<Rightarrow> 's \<Rightarrow> bool"
  assumes R_refl: "R s s" and R_trans: "R s t \<Longrightarrow> R t u \<Longrightarrow> R s u"
begin

lemma keeps_ret: "keeps R (ret x)"
  and keeps_fail: "keeps R (fail e)"
  and keeps_require: "keeps R (require b e)"
  and keeps_lift_res: "keeps R (lift_res r)"
  by (auto simp: keeps_def ret_def fail_def require_def lift_res_def R_refl split: sum.split)

lemma keeps_catch:
  assumes "keeps R p" "\<And>e. keeps R (h e)"
  shows "keeps R (catch p h)"
proof (unfold keeps_def, rule allI)
  fix s
  obtain r t where p: "p s = (r, t)" by fastforce
  with assms(1) have "R s t" by (auto dest: keepsD [of _ _ s])
  moreover have "R t (snd (h e t))" for e using assms(2) by (rule keepsD)
  ultimately show "R s (snd (catch p h s))"
    by (cases r) (auto simp: catch_def p intro: R_trans)
qed

lemma keeps_and_do:
  assumes "keeps R p" "\<And>x. keeps R (f x)"
  shows "keeps R (and_do p f)"
proof (unfold keeps_def, rule allI)
  fix s
  obtain r t where p: "p s = (r, t)" by fastforce
  with assms(1) have "R s t" by (auto dest: keepsD [of _ _ s])
  moreover have "R t (snd (f x t))" for x using assms(2) by (rule keepsD)
  ultimately show "R s (snd (and_do p f s))"
    by (cases r) (auto simp: and_do_def p intro: R_trans)
qed

lemma keeps_attempt: "keeps R p \<Longrightarrow> keeps R (attempt p)"
proof (unfold keeps_def, rule allI)
  fix s assume "\<forall>s. R s (snd (p s))"
  then have "R s (snd (p s))" ..
  then show "R s (snd (attempt p s))" by (cases "p s"; cases "fst (p s)") (auto simp: attempt_def)
qed

lemma keeps_on_failure:
  assumes "keeps R p" "keeps R h"
  shows "keeps R (on_failure p h)"
proof -
  have "on_failure p h = catch p (\<lambda>e. and_do h (\<lambda>_. fail e))"
    by (auto simp: fun_eq_iff on_failure_def catch_def split: prod.split outcome.split)
  with assms show ?thesis by (simp add: keeps_catch keeps_and_do keeps_fail)
qed

lemma keeps_for_each: "(\<And>x. keeps R (f x)) \<Longrightarrow> keeps R (for_each f xs)"
  by (induction xs) (simp_all add: keeps_ret keeps_and_do)

lemma keeps_map_each: "(\<And>x. keeps R (f x)) \<Longrightarrow> keeps R (map_each f xs)"
  by (induction xs) (simp_all add: keeps_ret keeps_and_do)

lemmas keeps_constructs = keeps_ret keeps_fail keeps_require keeps_lift_res keeps_and_do keeps_attempt
  keeps_catch keeps_on_failure keeps_for_each keeps_map_each

end

lemma keeps_if: "(b \<Longrightarrow> keeps R p) \<Longrightarrow> (\<not> b \<Longrightarrow> keeps R q) \<Longrightarrow> keeps R (if b then p else q)"
  by simp

lemma keeps_case_option: "keeps R p \<Longrightarrow> (\<And>x. keeps R (q x)) \<Longrightarrow> keeps R (case v of None \<Rightarrow> p | Some x \<Rightarrow> q x)"
  by (simp split: option.split)

lemma keeps_case_prod: "(\<And>x y. keeps R (f x y)) \<Longrightarrow> keeps R (case v of (x, y) \<Rightarrow> f x y)"
  by (simp split: prod.split)

lemma keeps_let: "(\<And>x. keeps R (f x)) \<Longrightarrow> keeps R (let x = v in f x)"
  by simp

lemmas [keeps_intros] = keeps_if keeps_case_option keeps_case_prod keeps_let

end
