(* ===== verification/Cdc.thy ===== *)
theory Cdc
  imports Core_Manifest
begin

text \<open>
  \<^verbatim>\<open>crates/deltaweave-cdc/src/lib.rs\<close>: manifest construction from a FastCDC stream, verified chunk
  reads and the delta plan a receiver computes. FastCDC is a third-party crate: its chunk stream is
  the parameter \<open>cdc\<close>, and \<open>fastcdc_ok\<close> states its documented behaviour (contiguous non-empty
  slices of the source within the configured maximum). A seekable reader is the parameter
  \<open>reader\<close>; \<open>cursor\<close> is the reader over a byte buffer.
\<close>

section \<open>Errors, chunk streams and readers\<close>

type_synonym io_error = string

datatype cdc_error =
    CdcProfile profile_error
  | CdcManifest manifest_error
  | FastCdc io_error
  | CdcIo io_error
  | ChunkLengthOverflow nat
  | UnexpectedOffset u64 u64
  | FileSizeOverflow
  | LengthMismatch u32 u32
  | HashMismatch hash32 hash32

record raw_chunk =
  rc_offset :: u64
  rc_length :: nat
  rc_data :: "u8 list"

type_synonym fastcdc = "u8 list \<Rightarrow> nat \<Rightarrow> nat \<Rightarrow> nat \<Rightarrow> (io_error + raw_chunk) list"
type_synonym reader = "nat \<Rightarrow> nat \<Rightarrow> io_error + u8 list"

definition cursor :: "u8 list \<Rightarrow> reader" where
  "cursor bytes off len =
     (if off + len \<le> length bytes then Inr (take len (drop off bytes)) else Inl ''UnexpectedEof'')"

section \<open>Operations\<close>

definition u32_try_from :: "nat \<Rightarrow> u32 option" where
  "u32_try_from n = (if n < 2 ^ 32 then Some (of_nat n) else None)"

text \<open>The loop state: the bytes fed to the file hasher, the descriptors, the expected offset.\<close>

definition manifest_step ::
    "externs \<Rightarrow> io_error + raw_chunk \<Rightarrow> u8 list \<times> chunk_descriptor list \<times> u64 \<Rightarrow>
     cdc_error + (u8 list \<times> chunk_descriptor list \<times> u64)" where
  "manifest_step E item state = (case state of (hashed, chunks, expected_offset) \<Rightarrow>
     and_then (map_err FastCdc item) (\<lambda>chunk.
       if rc_offset chunk \<noteq> expected_offset
         then Inl (UnexpectedOffset expected_offset (rc_offset chunk))
       else and_then (ok_or (u32_try_from (rc_length chunk)) (ChunkLengthOverflow (rc_length chunk)))
         (\<lambda>len. and_then (ok_or (checked_add expected_offset (ucast len)) FileSizeOverflow)
           (\<lambda>nxt. Inr (hashed @ rc_data chunk,
              chunks @ [\<lparr>cd_offset = rc_offset chunk, cd_length = len,
                         cd_hash = digest E (rc_data chunk)\<rparr>], nxt)))))"

definition manifest_from_reader ::
    "externs \<Rightarrow> fastcdc \<Rightarrow> u8 list \<Rightarrow> chunking_profile \<Rightarrow> cdc_error + file_manifest" where
  "manifest_from_reader E cdc source profile =
     and_then (map_err CdcProfile (profile_validate profile)) (\<lambda>_.
     and_then (fold_res (manifest_step E)
       (cdc source (unat (cp_min_size profile)) (unat (cp_avg_size profile)) (unat (cp_max_size profile)))
       ([], [], 0)) (\<lambda>(hashed, chunks, expected_offset).
       let manifest = \<lparr>fm_schema_version = MANIFEST_SCHEMA_V1, fm_size = expected_offset,
         fm_file_hash = blake3_hash E hashed, fm_profile = profile, fm_chunks = chunks\<rparr>
       in and_then (map_err CdcManifest (manifest_validate E manifest)) (\<lambda>_. Inr manifest)))"

definition manifest_from_path ::
    "externs \<Rightarrow> fastcdc \<Rightarrow> io_error + u8 list \<Rightarrow> chunking_profile \<Rightarrow> cdc_error + file_manifest" where
  "manifest_from_path E cdc file profile =
     and_then (map_err CdcIo file) (\<lambda>bytes.
       manifest_from_reader E cdc bytes (for_file_size profile (of_nat (length bytes))))"

definition verify_chunk :: "externs \<Rightarrow> chunk_descriptor \<Rightarrow> u8 list \<Rightarrow> cdc_error + unit" where
  "verify_chunk E descriptor bytes =
     and_then (ok_or (u32_try_from (length bytes)) (ChunkLengthOverflow (length bytes)))
       (\<lambda>actual_length.
          if actual_length \<noteq> cd_length descriptor
            then Inl (LengthMismatch (cd_length descriptor) actual_length)
          else if digest E bytes \<noteq> cd_hash descriptor
            then Inl (HashMismatch (cd_hash descriptor) (digest E bytes))
          else Inr ())"

definition read_chunk :: "externs \<Rightarrow> reader \<Rightarrow> chunk_descriptor \<Rightarrow> cdc_error + u8 list" where
  "read_chunk E reader descriptor =
     and_then (map_err CdcIo (reader (unat (cd_offset descriptor)) (unat (cd_length descriptor))))
       (\<lambda>bytes. and_then (verify_chunk E descriptor bytes) (\<lambda>_. Inr bytes))"

record delta_plan =
  dp_missing :: "hash32 list"
  dp_transfer_bytes :: u64
  dp_reused_extents :: nat

definition delta_step ::
    "hash32 set \<Rightarrow> chunk_descriptor \<Rightarrow> hash32 set \<times> delta_plan \<Rightarrow> hash32 set \<times> delta_plan" where
  "delta_step available chunk state = (case state of (scheduled, plan) \<Rightarrow>
     if cd_hash chunk \<in> available
       then (scheduled, plan\<lparr>dp_reused_extents := dp_reused_extents plan + 1\<rparr>)
     else if cd_hash chunk \<notin> scheduled
       then (insert (cd_hash chunk) scheduled,
         plan\<lparr>dp_missing := dp_missing plan @ [cd_hash chunk],
              dp_transfer_bytes := saturating_add (dp_transfer_bytes plan) (ucast (cd_length chunk))\<rparr>)
     else (scheduled, plan))"

definition delta_plan_build :: "file_manifest \<Rightarrow> hash32 list \<Rightarrow> delta_plan" where
  "delta_plan_build manifest available =
     snd (fold (delta_step (set available)) (fm_chunks manifest)
       ({}, \<lparr>dp_missing = [], dp_transfer_bytes = 0, dp_reused_extents = 0\<rparr>))"

section \<open>Verified reads\<close>

lemma u32_try_from_Some: "u32_try_from n = Some w \<longleftrightarrow> n < 2 ^ 32 \<and> unat w = n"
  by (auto simp: u32_try_from_def unat_of_nat take_bit_nat_eq_self word_unat_eq_iff
      intro: unat_bound [where 'a = 32, simplified])

lemma verify_chunk_Inr:
  "verify_chunk E d bytes = Inr () \<longleftrightarrow> length bytes = chunk_len d \<and> digest E bytes = cd_hash d"
proof -
  have "chunk_len d < 2 ^ 32" unfolding chunk_len_def using unat_bound [of "cd_length d"] by simp
  then show ?thesis
    by (auto simp: verify_chunk_def result_simps u32_try_from_Some chunk_len_def word_unat_eq_iff
        split: if_splits)
qed

lemma read_chunk_Inr:
  "read_chunk E reader d = Inr bytes \<longleftrightarrow>
     reader (unat (cd_offset d)) (unat (cd_length d)) = Inr bytes \<and>
     length bytes = chunk_len d \<and> digest E bytes = cd_hash d"
  by (auto simp: read_chunk_def result_simps verify_chunk_Inr)

section \<open>Manifest construction\<close>

fun raw_contiguous :: "nat \<Rightarrow> raw_chunk list \<Rightarrow> bool" where
  "raw_contiguous off [] = True"
| "raw_contiguous off (c # cs) =
     (unat (rc_offset c) = off \<and> rc_length c = length (rc_data c) \<and> raw_contiguous (off + rc_length c) cs)"

text \<open>
  FastCDC's documented contract: the iterator yields the source cut into consecutive non-empty
  slices no longer than the maximum size, each with its offset and length.
\<close>

definition fastcdc_ok :: "fastcdc \<Rightarrow> u8 list \<Rightarrow> chunking_profile \<Rightarrow> raw_chunk list \<Rightarrow> bool" where
  "fastcdc_ok cdc source p rcs \<longleftrightarrow>
     cdc source (unat (cp_min_size p)) (unat (cp_avg_size p)) (unat (cp_max_size p)) = map Inr rcs \<and>
     raw_contiguous 0 rcs \<and> concat (map rc_data rcs) = source \<and>
     (\<forall>c \<in> set rcs. 0 < rc_length c \<and> rc_length c \<le> unat (cp_max_size p))"

definition describe_chunk :: "externs \<Rightarrow> raw_chunk \<Rightarrow> chunk_descriptor" where
  "describe_chunk E c = \<lparr>cd_offset = rc_offset c, cd_length = of_nat (rc_length c),
     cd_hash = digest E (rc_data c)\<rparr>"

lemma chunk_len_describe: "rc_length c < 2 ^ 32 \<Longrightarrow> chunk_len (describe_chunk E c) = rc_length c"
  by (simp add: chunk_len_def describe_chunk_def unat_of_nat take_bit_nat_eq_self)

lemma manifest_loop:
  assumes "raw_contiguous (unat off) rcs" and "\<forall>c \<in> set rcs. rc_length c < 2 ^ 32"
    and "unat off + length (concat (map rc_data rcs)) < 2 ^ 64"
  shows "\<exists>fin. fold_res (manifest_step E) (map Inr rcs) (hashed, cs, off) =
      Inr (hashed @ concat (map rc_data rcs), cs @ map (describe_chunk E) rcs, fin) \<and>
    unat fin = unat off + length (concat (map rc_data rcs))"
  using assms
proof (induction rcs arbitrary: off hashed cs)
  case (Cons c rcs)
  let ?nxt = "off + ucast (of_nat (rc_length c) :: u32) :: u64"
  from Cons.prems have c: "rc_offset c = off" "rc_length c < 2 ^ 32" "rc_length c = length (rc_data c)"
    by (simp_all add: word_unat_eq_iff)
  have u: "unat (of_nat (rc_length c) :: u32) = rc_length c"
    using c by (simp add: unat_of_nat take_bit_nat_eq_self)
  with Cons.prems c have add: "checked_add off (ucast (of_nat (rc_length c) :: u32)) = Some ?nxt"
    by (simp add: checked_add_def)
  then have nxt: "unat ?nxt = unat off + rc_length c"
    using u by (auto dest: checked_add_Some)
  have step: "manifest_step E (Inr c) (hashed, cs, off) =
      Inr (hashed @ rc_data c, cs @ [describe_chunk E c], ?nxt)"
    using c add by (simp add: manifest_step_def u32_try_from_def ok_or_def describe_chunk_def)
  show ?case
    using Cons.IH [of ?nxt "hashed @ rc_data c" "cs @ [describe_chunk E c]"] Cons.prems c nxt step
    by (simp add: add.assoc)
qed simp

lemma raw_contiguous_described:
  "raw_contiguous off rcs \<Longrightarrow> \<forall>c \<in> set rcs. rc_length c < 2 ^ 32 \<Longrightarrow>
     contiguous_from off (map (describe_chunk E) rcs) \<and>
     total_len (map (describe_chunk E) rcs) = length (concat (map rc_data rcs))"
  by (induction rcs arbitrary: off) (auto simp: chunk_len_describe, simp add: describe_chunk_def)

lemma describe_consistent:
  assumes "inj_on (digest E) (rc_data ` set rcs)" and "\<forall>c \<in> set rcs. rc_length c = length (rc_data c)"
  shows "lengths_consistent (map (describe_chunk E) rcs)"
  unfolding lengths_consistent_def
proof (intro ballI impI)
  fix x y
  assume "x \<in> set (map (describe_chunk E) rcs)" "y \<in> set (map (describe_chunk E) rcs)"
    and eq: "cd_hash x = cd_hash y"
  then obtain c d where c: "c \<in> set rcs" "x = describe_chunk E c"
    and d: "d \<in> set rcs" "y = describe_chunk E d" by auto
  with eq assms(1) have "rc_data c = rc_data d"
    by (auto simp: describe_chunk_def dest: inj_onD)
  with c d assms(2) show "cd_length x = cd_length y" by (simp add: describe_chunk_def)
qed

lemma raw_contiguous_length:
  "raw_contiguous off rcs \<Longrightarrow> \<forall>c \<in> set rcs. rc_length c = length (rc_data c)"
  by (induction rcs arbitrary: off) auto

lemma profile_max_bound:
  "profile_validate p = Inr () \<Longrightarrow> unat (cp_max_size p) \<le> 16777216"
  by (auto simp: profile_validate_def word_le_nat_alt split: if_splits)

lemma manifest_from_reader_ok:
  assumes "profile_validate p = Inr ()" and cdc: "fastcdc_ok cdc source p rcs"
    and "length source < 2 ^ 64" and inj: "inj_on (digest E) (rc_data ` set rcs)"
  shows "\<exists>m. manifest_from_reader E cdc source p = Inr m \<and>
    fm_chunks m = map (describe_chunk E) rcs \<and> unat (fm_size m) = length source \<and>
    fm_file_hash m = digest E source \<and> fm_profile m = p \<and> manifest_spec E m"
proof -
  from cdc have rc: "raw_contiguous 0 rcs" "concat (map rc_data rcs) = source"
    and bounds: "\<forall>c \<in> set rcs. 0 < rc_length c \<and> rc_length c \<le> unat (cp_max_size p)"
    by (simp_all add: fastcdc_ok_def)
  with profile_max_bound [OF assms(1)] have small: "\<forall>c \<in> set rcs. rc_length c < 2 ^ 32"
    by fastforce
  obtain fin where loop: "fold_res (manifest_step E) (map Inr rcs) ([], [], 0) =
      Inr (source, map (describe_chunk E) rcs, fin)" and fin: "unat fin = length source"
    using manifest_loop [of 0 rcs E "[]" "[]"] rc small assms(3) by auto
  let ?m = "\<lparr>fm_schema_version = MANIFEST_SCHEMA_V1, fm_size = fin,
    fm_file_hash = blake3_hash E source, fm_profile = p, fm_chunks = map (describe_chunk E) rcs\<rparr>"
  have len: "0 < cd_length (describe_chunk E c) \<and> cd_length (describe_chunk E c) \<le> cp_max_size p"
    if "c \<in> set rcs" for c
    using bounds small that
    by (simp add: describe_chunk_def word_gt_0 word_le_nat_alt unat_of_nat take_bit_nat_eq_self
        unat_gt_0 [symmetric])
  have empty: "source = []" if "fin = 0" using fin that by simp
  have "manifest_spec E ?m"
    unfolding manifest_spec_def
    using assms(1) rc small len fin raw_contiguous_described [OF rc(1) small, of E]
      describe_consistent [OF inj] raw_contiguous_length [OF rc(1)] empty
    by (simp add: MANIFEST_SCHEMA_V1_def digest_def del: concat_eq_Nil_conv)
  with loop cdc assms(1) fin show ?thesis
    by (simp add: manifest_from_reader_def fastcdc_ok_def manifest_validate_spec [symmetric] digest_def)
qed


section \<open>Reading the chunks back\<close>

lemma cursor_slice:
  "cursor (pre @ d @ post) (length pre) (length d) = Inr d"
  by (simp add: cursor_def)

lemma read_described:
  assumes "raw_contiguous (length pre) rcs" and "\<forall>c \<in> set rcs. rc_length c < 2 ^ 32"
  shows "map (read_chunk E (cursor (pre @ concat (map rc_data rcs) @ post))) (map (describe_chunk E) rcs) =
    map (\<lambda>c. Inr (rc_data c)) rcs"
  using assms
proof (induction rcs arbitrary: pre)
  case (Cons c rcs)
  then have c: "unat (rc_offset c) = length pre" "rc_length c = length (rc_data c)"
    "rc_length c < 2 ^ 32" by simp_all
  then have "read_chunk E (cursor (pre @ (rc_data c @ concat (map rc_data rcs)) @ post)) (describe_chunk E c)
      = Inr (rc_data c)"
    unfolding read_chunk_Inr
    using cursor_slice [of pre "rc_data c" "concat (map rc_data rcs) @ post"] chunk_len_describe [of c E]
    by (simp add: describe_chunk_def unat_of_nat take_bit_nat_eq_self chunk_len_def)
  with Cons.IH [of "pre @ rc_data c"] Cons.prems c show ?case by simp
qed simp

section \<open>The delta plan\<close>

fun first_uses :: "hash32 set \<Rightarrow> chunk_descriptor list \<Rightarrow> chunk_descriptor list" where
  "first_uses seen [] = []"
| "first_uses seen (c # cs) =
     (if cd_hash c \<in> seen then first_uses seen cs
      else c # first_uses (insert (cd_hash c) seen) cs)"

lemma first_uses_hashes:
  "distinct (map cd_hash (first_uses seen cs)) \<and>
   set (map cd_hash (first_uses seen cs)) = cd_hash ` set cs - seen"
  by (induction cs arbitrary: seen) auto

lemma delta_fold:
  assumes "scheduled \<inter> available = {}"
    and "unat (dp_transfer_bytes plan) + total_len (first_uses (scheduled \<union> available) cs) < 2 ^ 64"
  shows "dp_missing (snd (fold (delta_step available) cs (scheduled, plan))) =
      dp_missing plan @ map cd_hash (first_uses (scheduled \<union> available) cs) \<and>
    unat (dp_transfer_bytes (snd (fold (delta_step available) cs (scheduled, plan)))) =
      unat (dp_transfer_bytes plan) + total_len (first_uses (scheduled \<union> available) cs) \<and>
    dp_reused_extents (snd (fold (delta_step available) cs (scheduled, plan))) =
      dp_reused_extents plan + length (filter (\<lambda>c. cd_hash c \<in> available) cs)"
  using assms
proof (induction cs arbitrary: scheduled plan)
  case (Cons c cs)
  consider "cd_hash c \<in> available" | "cd_hash c \<notin> available" "cd_hash c \<in> scheduled"
    | "cd_hash c \<notin> available" "cd_hash c \<notin> scheduled" by blast
  then show ?case
  proof cases
    case 1
    with Cons.prems Cons.IH [of scheduled "plan\<lparr>dp_reused_extents := dp_reused_extents plan + 1\<rparr>"]
    show ?thesis by (simp add: delta_step_def)
  next
    case 2
    with Cons.prems Cons.IH [of scheduled plan] show ?thesis by (simp add: delta_step_def)
  next
    case 3
    let ?b = "saturating_add (dp_transfer_bytes plan) (ucast (cd_length c))"
    let ?plan = "plan\<lparr>dp_missing := dp_missing plan @ [cd_hash c], dp_transfer_bytes := ?b\<rparr>"
    have "unat (dp_transfer_bytes plan) + chunk_len c < 2 ^ 64" using 3 Cons.prems(2) by simp
    then have b: "unat ?b = unat (dp_transfer_bytes plan) + chunk_len c"
      by (simp add: unat_saturating_add chunk_len_def)
    have "insert (cd_hash c) scheduled \<inter> available = {}" using 3 Cons.prems(1) by simp
    with 3 Cons.prems b Cons.IH [of "insert (cd_hash c) scheduled" ?plan]
    show ?thesis by (simp add: delta_step_def)
  qed
qed simp

lemma total_len_first_uses: "total_len (first_uses seen cs) \<le> total_len cs"
  by (induction cs arbitrary: seen) (auto intro: le_SucI trans_le_add2)

lemma delta_plan_build_exact:
  assumes "total_len (fm_chunks m) < 2 ^ 64"
  shows "dp_missing (delta_plan_build m available) =
      map cd_hash (first_uses (set available) (fm_chunks m))"
    and "unat (dp_transfer_bytes (delta_plan_build m available)) =
      total_len (first_uses (set available) (fm_chunks m))"
    and "dp_reused_extents (delta_plan_build m available) =
      length (filter (\<lambda>c. cd_hash c \<in> set available) (fm_chunks m))"
  using delta_fold [of "{}" "set available" "\<lparr>dp_missing = [], dp_transfer_bytes = 0, dp_reused_extents = 0\<rparr>"
      "fm_chunks m"] assms total_len_first_uses [of "set available" "fm_chunks m"]
  by (auto simp: delta_plan_build_def)

section \<open>Properties\<close>

text \<open>
  C23: chunking and reading back is the identity. For a valid profile, any source below \<open>2^64\<close> bytes
  and a FastCDC stream that meets its contract, on whose slices BLAKE3 does not collide,
  \<open>manifest_from_reader\<close> succeeds with a valid manifest of the source's length and digest, and
  reading each descriptor with \<open>read_chunk\<close> succeeds and yields slices whose concatenation is the
  source.
\<close>
theorem manifest_read_back:
  assumes "profile_validate p = Inr ()" and "fastcdc_ok cdc source p rcs"
    and "length source < 2 ^ 64" and "inj_on (digest E) (rc_data ` set rcs)"
  shows "\<exists>m parts. manifest_from_reader E cdc source p = Inr m \<and> manifest_validate E m = Inr () \<and>
    unat (fm_size m) = length source \<and> fm_file_hash m = digest E source \<and>
    map (read_chunk E (cursor source)) (fm_chunks m) = map Inr parts \<and> concat parts = source"
proof -
  obtain m where m: "manifest_from_reader E cdc source p = Inr m"
    "fm_chunks m = map (describe_chunk E) rcs" "unat (fm_size m) = length source"
    "fm_file_hash m = digest E source" "manifest_spec E m"
    using manifest_from_reader_ok [OF assms] by blast
  have "\<forall>c \<in> set rcs. rc_length c < 2 ^ 32"
    using assms(2) profile_max_bound [OF assms(1)] by (fastforce simp: fastcdc_ok_def)
  then have "map (read_chunk E (cursor source)) (fm_chunks m) = map Inr (map rc_data rcs)"
    using read_described [of "[]" rcs E "[]"] assms(2) m(2)
    by (simp add: fastcdc_ok_def comp_def)
  with m assms(2) show ?thesis
    by (intro exI [of _ m] exI [of _ "map rc_data rcs"])
      (simp add: manifest_validate_spec fastcdc_ok_def)
qed

definition one_chunk_cdc :: fastcdc where
  "one_chunk_cdc source mn av mx =
     (if source = [] then [] else [Inr \<lparr>rc_offset = 0, rc_length = length source, rc_data = source\<rparr>])"

theorem manifest_read_back_witness:
  "\<exists>m parts. manifest_from_reader (ref_hex (\<lambda>_. hash_fill 1) (\<lambda>_ _. hash_fill 2)) one_chunk_cdc
       [1, 2, 3] DEFAULT_PROFILE = Inr m \<and>
     map (read_chunk (ref_hex (\<lambda>_. hash_fill 1) (\<lambda>_ _. hash_fill 2)) (cursor [1, 2, 3])) (fm_chunks m) =
       map Inr parts \<and> concat parts = [1, 2, 3]"
proof -
  let ?rcs = "[\<lparr>rc_offset = 0, rc_length = 3, rc_data = [1, 2, 3 :: u8]\<rparr>]"
  have "fastcdc_ok one_chunk_cdc [1, 2, 3] DEFAULT_PROFILE ?rcs"
    by (simp add: fastcdc_ok_def one_chunk_cdc_def DEFAULT_PROFILE_def)
  from manifest_read_back [OF profile_validate_default this,
      of "ref_hex (\<lambda>_. hash_fill 1) (\<lambda>_ _. hash_fill 2)"]
  show ?thesis by auto
qed

text \<open>
  Nothing unverified leaves \<open>read_chunk\<close>. Whatever a reader returns, bytes are handed on only when
  their length and digest are those of the descriptor; otherwise the result is an error.
\<close>
theorem read_chunk_verified:
  "case read_chunk E reader d of
     Inr bytes \<Rightarrow> length bytes = unat (cd_length d) \<and> digest E bytes = cd_hash d \<and>
       reader (unat (cd_offset d)) (unat (cd_length d)) = Inr bytes
   | Inl e \<Rightarrow> (\<forall>bytes. reader (unat (cd_offset d)) (unat (cd_length d)) = Inr bytes \<longrightarrow>
       length bytes \<noteq> unat (cd_length d) \<or> digest E bytes \<noteq> cd_hash d)"
proof (cases "read_chunk E reader d")
  case (Inl e)
  then have "\<not> (reader (unat (cd_offset d)) (unat (cd_length d)) = Inr bytes \<and>
      length bytes = chunk_len d \<and> digest E bytes = cd_hash d)" for bytes
    using read_chunk_Inr [of E reader d bytes] by simp
  with Inl show ?thesis by (auto simp: chunk_len_def)
next
  case (Inr bytes)
  then show ?thesis using read_chunk_Inr [of E reader d bytes] by (simp add: chunk_len_def)
qed

theorem read_chunk_verified_witness:
  "\<exists>e. read_chunk (ref_hex (\<lambda>_. hash_fill 1) (\<lambda>_ _. hash_fill 2)) (cursor [5])
     \<lparr>cd_offset = 0, cd_length = 1, cd_hash = hash_fill 9\<rparr> = Inl e"
  using read_chunk_verified [where E = "ref_hex (\<lambda>_. hash_fill 1) (\<lambda>_ _. hash_fill 2)"
      and reader = "cursor [5]" and d = "\<lparr>cd_offset = 0, cd_length = 1, cd_hash = hash_fill 9\<rparr>"]
  by (auto simp: digest_def ref_hex_def split: sum.splits)

text \<open>
  The delta plan requests each absent chunk exactly once, in first-use order, and nothing else:
  the missing list is duplicate-free, equals the manifest's hashes minus the inventory, its payload is
  counted without overflow, and together with the inventory it covers every extent.
\<close>
theorem delta_plan_minimal:
  assumes "manifest_validate E m = Inr ()"
  shows "distinct (dp_missing (delta_plan_build m available)) \<and>
    set (dp_missing (delta_plan_build m available)) = cd_hash ` set (fm_chunks m) - set available \<and>
    dp_missing (delta_plan_build m available) = map cd_hash (first_uses (set available) (fm_chunks m)) \<and>
    unat (dp_transfer_bytes (delta_plan_build m available)) =
      total_len (first_uses (set available) (fm_chunks m)) \<and>
    dp_reused_extents (delta_plan_build m available) =
      length (filter (\<lambda>c. cd_hash c \<in> set available) (fm_chunks m))"
proof -
  have "total_len (fm_chunks m) < 2 ^ 64"
    using assms unat_bound [of "fm_size m"] by (simp add: manifest_validate_spec manifest_spec_def)
  note exact = delta_plan_build_exact [OF this, of available]
  show ?thesis unfolding exact using first_uses_hashes [of "set available" "fm_chunks m"] by simp
qed

theorem delta_plan_minimal_witness:
  "dp_missing (delta_plan_build example_manifest [hash_fill 1]) = [hash_fill 2]"
  using delta_plan_minimal [OF example_manifest_valid, of "[hash_fill 1]"]
  by (simp add: example_manifest_def)

end
