(* ===== verification/Store_World.thy ===== *)
theory Store_World
  imports Fs_Tree Crash_Logic Cdc Core_Record
begin

text \<open>
  The state the store works on and the calls that read or change it
  (\<^verbatim>\<open>crates/deltaweave-store/src/lib.rs\<close>, \<^verbatim>\<open>preservation.rs\<close>): one file system tree, the tables of
  the metadata database, the sequence counter of temporary names and the file handle being written.
  The database commits one transaction per call. Every call first consumes one event of a script that
  stands for the rest of the world: nothing, an I/O failure, an interruption of the process, or a
  concurrent edit of the file system by somebody else. An exhausted script is an undisturbed run.
  The definitions follow the Linux variants of the platform-dependent functions.
\<close>

section \<open>Data\<close>

datatype preservation_error = RecoveryUnavailable | LocalChanged | RecoveryStateUnavailable

datatype store_error =
    Preservation preservation_error | IoFailure io_kind | Refused string | UnsupportedObject
  | BadManifest manifest_error | BadRecord sync_record_error | CdcFailure cdc_error

datatype path_change_state =
  Prepared | Preserved | Materialized | Indexed | Committed | Aborted | RollingBack | RolledBack

record path_observation =
  po_identity :: "(u64 \<times> u64) option"
  po_kind :: u8
  po_size :: u64
  po_modified_ns :: "128 word option"
  po_readonly :: bool
  po_hash :: hash32

datatype path_target = FileTarget file_manifest | DirectoryTarget | AbsentTarget

record causal_binding =
  cb_record :: sync_record
  cb_precondition :: "sync_record option"
  cb_authorization :: "u8 list option"

record path_change =
  pc_version :: u16
  pc_id :: string
  pc_root :: fs_path
  pc_path :: wire_path
  pc_vault :: fs_path
  pc_artifact :: fs_path
  pc_staging :: fs_path
  pc_expected :: "path_observation option"
  pc_target :: path_target
  pc_state :: path_change_state
  pc_preserve_tree :: bool
  pc_causal :: "causal_binding option"
  pc_metadata_only :: bool
  pc_rollback_artifact :: fs_path

datatype operation_state = OperationPrepared | OperationCommitted

record operation_record =
  or_id :: hash32
  or_path :: wire_path
  or_file_hash :: hash32
  or_state :: operation_state

text \<open>
  \<open>store_env\<close> collects what the store calls and does not define: the digest functions, the \<open>postcard\<close>
  encoding of an observation, the process id, the metadata the host gives to an object created or
  changed at a moment, and the optional host service that reserves a recovery directory.
\<close>

record store_env =
  sv_externs :: externs
  sv_observation_bytes :: "path_observation \<Rightarrow> u8 list"
  sv_pid :: nat
  sv_host :: "nat \<Rightarrow> node_meta"
  sv_state_root :: fs_path
  sv_reserver :: "(fs_path \<Rightarrow> nat \<Rightarrow> fs_node \<Rightarrow> store_error + (fs_node \<times> fs_path)) option"

text \<open>Where a call removed or replaced an object that it was not asked to keep.\<close>

datatype discard_place = ReplacedAt fs_path | RemovedAt fs_path

datatype env_event = Proceed | Fault | Interrupt | LocalEdit "fs_node \<Rightarrow> fs_node"

text \<open>
  Two fields are histories that no operation reads: \<open>w_displaced\<close> has the objects that concurrent edits
  removed, \<open>w_discards\<close> what the store's own calls removed or replaced, with the path the call was given.
\<close>

record world =
  w_fs :: fs_node
  w_journal :: "(string, path_change) fmap"
  w_manifests :: "(wire_path, file_manifest) fmap"
  w_operations :: "(hash32, operation_record) fmap"
  w_sequence :: nat
  w_draft :: "(fs_path \<times> fs_node) option"
  w_clock :: nat
  w_script :: "env_event list"
  w_displaced :: "fs_node multiset"
  w_discards :: "(discard_place \<times> fs_node) list"

type_synonym 'a sprog = "(world, store_error, 'a) prog"

definition draft_objects :: "world \<Rightarrow> fs_node multiset" where
  "draft_objects w = (case w_draft w of None \<Rightarrow> {#} | Some (p, n) \<Rightarrow> objects n)"

text \<open>Everything on the file system except the file this process is writing.\<close>

definition kept_objects :: "world \<Rightarrow> fs_node multiset" where
  "kept_objects w = objects (w_fs w) - draft_objects w"

section \<open>Calls\<close>

definition apply_edit :: "(fs_node \<Rightarrow> fs_node) \<Rightarrow> world \<Rightarrow> world" where
  "apply_edit f w = (let w' = w\<lparr>w_fs := f (w_fs w)\<rparr>
     in w'\<lparr>w_displaced := w_displaced w + (kept_objects w - kept_objects w')\<rparr>)"

definition tick :: "unit sprog" where
  "tick w = (case w_script w of
     [] \<Rightarrow> (Done (), w)
   | Proceed # es \<Rightarrow> (Done (), w\<lparr>w_script := es\<rparr>)
   | Fault # es \<Rightarrow> (Failed (IoFailure IoOther), w\<lparr>w_script := es\<rparr>)
   | Interrupt # es \<Rightarrow> (Halted, w\<lparr>w_script := es\<rparr>)
   | LocalEdit f # es \<Rightarrow> (Done (), apply_edit f (w\<lparr>w_script := es\<rparr>)))"

definition query :: "(fs_node \<Rightarrow> store_error + 'a) \<Rightarrow> 'a sprog" where
  "query f = and_do tick (\<lambda>_ w. lift_res (f (w_fs w)) w)"

definition update_fs :: "(nat \<Rightarrow> fs_node \<Rightarrow> store_error + fs_node) \<Rightarrow> unit sprog" where
  "update_fs f = and_do tick (\<lambda>_ w. case f (w_clock w) (w_fs w) of
     Inl e \<Rightarrow> (Failed e, w) | Inr fs \<Rightarrow> (Done (), w\<lparr>w_fs := fs, w_clock := Suc (w_clock w)\<rparr>))"

text \<open>A change of the tree that may remove an object, which is the victim, at a place.\<close>

definition discard_fs :: "discard_place \<Rightarrow> (fs_node \<Rightarrow> fs_node option) \<Rightarrow> (nat \<Rightarrow> fs_node \<Rightarrow> store_error + fs_node) \<Rightarrow> unit sprog" where
  "discard_fs place victim f = and_do tick (\<lambda>_ w. case f (w_clock w) (w_fs w) of
     Inl e \<Rightarrow> (Failed e, w)
   | Inr fs \<Rightarrow> (Done (), w\<lparr>w_fs := fs, w_clock := Suc (w_clock w),
       w_discards := w_discards w @ (case victim (w_fs w) of None \<Rightarrow> [] | Some n \<Rightarrow> [(place, n)])\<rparr>))"

definition read_db :: "(world \<Rightarrow> 'a) \<Rightarrow> 'a sprog" where
  "read_db f = and_do tick (\<lambda>_ w. (Done (f w), w))"

definition put_change :: "path_change \<Rightarrow> unit sprog" where
  "put_change c = and_do tick (\<lambda>_ w. (Done (), w\<lparr>w_journal := fmupd (pc_id c) c (w_journal w)\<rparr>))"

definition put_operation :: "operation_record \<Rightarrow> unit sprog" where
  "put_operation op = and_do tick (\<lambda>_ w. (Done (), w\<lparr>w_operations := fmupd (or_id op) op (w_operations w)\<rparr>))"

definition put_manifest :: "store_env \<Rightarrow> wire_path \<Rightarrow> file_manifest \<Rightarrow> unit sprog" where
  "put_manifest S path manifest = and_do (lift_res (map_err BadManifest (manifest_validate (sv_externs S) manifest))) (\<lambda>_.
     and_do tick (\<lambda>_ w. (Done (), w\<lparr>w_manifests := fmupd path manifest (w_manifests w)\<rparr>)))"

text \<open>\<open>TEMP_SEQUENCE.fetch_add(1)\<close>, a counter of the process.\<close>

definition fetch_sequence :: "nat sprog" where
  "fetch_sequence w = (Done (w_sequence w), w\<lparr>w_sequence := Suc (w_sequence w)\<rparr>)"

definition io :: "io_kind + 'a \<Rightarrow> store_error + 'a" where
  "io r = map_err IoFailure r"

definition new_meta :: "store_env \<Rightarrow> nat \<Rightarrow> node_meta" where
  "new_meta S now = (sv_host S now)\<lparr>nm_readonly := False, nm_nlink := 1\<rparr>"

definition touch :: "store_env \<Rightarrow> nat \<Rightarrow> fs_node \<Rightarrow> fs_node" where
  "touch S now = set_meta (\<lambda>m. m\<lparr>nm_changed_ns := nm_changed_ns (sv_host S now)\<rparr>)"

definition fs_create_dir :: "node_meta \<Rightarrow> fs_path \<Rightarrow> fs_node \<Rightarrow> io_kind + fs_node" where
  "fs_create_dir m p fs = and_then (fs_entry fs p) (\<lambda>q.
     if q = [] \<or> fs_lookup fs q \<noteq> None then Inl IoAlreadyExists else Inr (fs_put (Some (DirNode m fmempty)) q fs))"

text \<open>
  \<open>real_parent\<close> opens every ancestor without following links; \<open>renameat2\<close> with \<open>RENAME_NOREPLACE\<close>
  refuses an occupied destination, and a directory cannot be moved into itself.
\<close>

definition fs_rename_noreplace :: "(fs_node \<Rightarrow> fs_node) \<Rightarrow> fs_path \<Rightarrow> fs_path \<Rightarrow> fs_node \<Rightarrow> io_kind + fs_node" where
  "fs_rename_noreplace moved src dst fs =
     (if src = [] \<or> dst = [] \<or> \<not> real_path fs (butlast src) \<or> \<not> real_path fs (butlast dst) then Inl IoNotADirectory
      else case fs_lookup fs src of None \<Rightarrow> Inl IoNotFound | Some n \<Rightarrow>
        if fs_lookup fs dst \<noteq> None then Inl IoAlreadyExists
        else if prefix src dst then Inl IoOther
        else Inr (fs_put (Some (moved n)) dst (fs_put None src fs)))"

definition fs_create_new :: "node_meta \<Rightarrow> fs_path \<Rightarrow> fs_node \<Rightarrow> io_kind + fs_node" where
  "fs_create_new m p fs =
     (if p = [] \<or> \<not> real_path fs (butlast p) then Inl IoNotADirectory
      else if fs_lookup fs p \<noteq> None then Inl IoAlreadyExists
      else Inr (fs_put (Some (FileNode m [])) p fs))"

definition symlink_metadata :: "fs_path \<Rightarrow> fs_node sprog" where
  "symlink_metadata p = query (\<lambda>fs. io (fs_stat fs p))"

text \<open>\<open>symlink_metadata(p).is_ok()\<close>, and \<open>is_err_and(NotFound)\<close>: the call itself does not fail.\<close>

definition stat_is_ok :: "fs_path \<Rightarrow> bool sprog" where
  "stat_is_ok p = query (\<lambda>fs. Inr (case fs_stat fs p of Inr _ \<Rightarrow> True | Inl _ \<Rightarrow> False))"

definition stat_not_found :: "fs_path \<Rightarrow> bool sprog" where
  "stat_not_found p = query (\<lambda>fs. Inr (fs_stat fs p = Inl IoNotFound))"

definition path_exists :: "fs_path \<Rightarrow> bool sprog" where
  "path_exists p = query (\<lambda>fs. Inr (fs_exists fs p))"

definition create_dir :: "store_env \<Rightarrow> fs_path \<Rightarrow> unit sprog" where
  "create_dir S p = update_fs (\<lambda>now fs. io (fs_create_dir (new_meta S now) p fs))"

text \<open>\<open>create_dir_all\<close>: every missing ancestor in turn, then the directory.\<close>

definition create_dir_all :: "store_env \<Rightarrow> fs_path \<Rightarrow> unit sprog" where
  "create_dir_all S p = for_each (\<lambda>k. let q = take k p in
     and_do (query (\<lambda>fs. Inr (fs_is_dir fs q))) (\<lambda>there. if there then ret () else create_dir S q)) [1..<Suc (length p)]"

definition sync_directory :: "fs_path \<Rightarrow> unit sprog" where
  "sync_directory p = query (\<lambda>fs. and_then (io (fs_metadata fs p)) (\<lambda>_. Inr ()))"

definition rename_noreplace :: "store_env \<Rightarrow> fs_path \<Rightarrow> fs_path \<Rightarrow> unit sprog" where
  "rename_noreplace S src dst = update_fs (\<lambda>now fs. io (fs_rename_noreplace (touch S now) src dst fs))"

definition capture_into_vault :: "store_env \<Rightarrow> fs_path \<Rightarrow> fs_path \<Rightarrow> unit sprog" where
  "capture_into_vault S src dst = rename_noreplace S src dst"

text \<open>\<open>open_nofollow\<close> for reading: real ancestors and a leaf that is not a symbolic link.\<close>

definition fs_open_nofollow :: "fs_path \<Rightarrow> fs_node \<Rightarrow> io_kind + fs_node" where
  "fs_open_nofollow p fs =
     (if p = [] \<or> \<not> real_path fs (butlast p) then Inl IoNotADirectory
      else case fs_lookup fs p of None \<Rightarrow> Inl IoNotFound | Some (LinkNode _ _) \<Rightarrow> Inl IoTooManyLinks | Some n \<Rightarrow> Inr n)"

definition fs_read_file :: "fs_path \<Rightarrow> fs_node \<Rightarrow> io_kind + u8 list" where
  "fs_read_file p fs = and_then (fs_open_nofollow p fs) (\<lambda>n. case n of
     FileNode _ b \<Rightarrow> Inr b | DirNode _ _ \<Rightarrow> Inl IoIsADirectory | _ \<Rightarrow> Inl IoOther)"

text \<open>Creating, writing and closing the one file a process writes at a time.\<close>

definition open_new_file :: "store_env \<Rightarrow> fs_path \<Rightarrow> unit sprog" where
  "open_new_file S p = and_do tick (\<lambda>_ w. case fs_create_new (new_meta S (w_clock w)) p (w_fs w) of
     Inl e \<Rightarrow> (Failed (IoFailure e), w)
   | Inr fs \<Rightarrow> (Done (), w\<lparr>w_fs := fs, w_draft := Some (p, FileNode (new_meta S (w_clock w)) []),
                          w_clock := Suc (w_clock w)\<rparr>))"

text \<open>A write reaches the file the handle refers to; when that file was moved away, the path is unaffected.\<close>

definition written :: "store_env \<Rightarrow> nat \<Rightarrow> u8 list \<Rightarrow> fs_node \<Rightarrow> fs_node" where
  "written S now bytes n = (case n of FileNode m b \<Rightarrow>
     FileNode (m\<lparr>nm_modified_ns := nm_modified_ns (sv_host S now), nm_changed_ns := nm_changed_ns (sv_host S now)\<rparr>) (b @ bytes)
   | _ \<Rightarrow> n)"

definition write_all :: "store_env \<Rightarrow> u8 list \<Rightarrow> unit sprog" where
  "write_all S bytes = and_do tick (\<lambda>_ w. case w_draft w of
     None \<Rightarrow> (Failed (IoFailure IoOther), w)
   | Some (p, n) \<Rightarrow>
       if p \<noteq> [] \<and> fs_lookup (w_fs w) p = Some n
       then (Done (), w\<lparr>w_fs := fs_put (Some (written S (w_clock w) bytes n)) p (w_fs w),
                        w_draft := Some (p, written S (w_clock w) bytes n), w_clock := Suc (w_clock w)\<rparr>)
       else (Done (), w\<lparr>w_clock := Suc (w_clock w)\<rparr>))"

definition sync_and_close :: "unit sprog" where
  "sync_and_close = and_do tick (\<lambda>_ w. (Done (), w\<lparr>w_draft := None\<rparr>))"

section \<open>Observations\<close>

definition observed :: "node_meta \<Rightarrow> u8 \<Rightarrow> u64 \<Rightarrow> hash32 \<Rightarrow> path_observation" where
  "observed m kind sz h = \<lparr>po_identity = nm_identity m, po_kind = kind, po_size = sz,
     po_modified_ns = nm_modified_ns m, po_readonly = nm_readonly m, po_hash = h\<rparr>"

primrec observe_node :: "store_env \<Rightarrow> fs_node \<Rightarrow> path_observation option" where
  "observe_node S (FileNode m b) = Some (observed m 0 (of_nat (length b)) (digest (sv_externs S) b))"
| "observe_node S (LinkNode m t) = Some (observed m 2 (of_nat (length t)) (digest (sv_externs S) (str_bytes t)))"
| "observe_node S (OtherNode m) = None"
| "observe_node S (DirNode m ch) = map_option (\<lambda>parts. observed m 1 0 (digest (sv_externs S) (concat parts)))
     (those (map (\<lambda>(name, child). map_option (\<lambda>ob. str_bytes name @ sv_observation_bytes S ob) child)
       (sorted_list_of_fmap (fmmap (observe_node S) ch))))"

primrec holds_file :: "fs_node \<Rightarrow> bool" where
  "holds_file (FileNode m b) = True"
| "holds_file (LinkNode m t) = False"
| "holds_file (OtherNode m) = False"
| "holds_file (DirNode m ch) = list_ex (\<lambda>(name, h). h) (sorted_list_of_fmap (fmmap holds_file ch))"

text \<open>\<open>PathObservation::at\<close>; file contents are read through handles that refuse symbolic links on the way.\<close>

definition observe_path :: "store_env \<Rightarrow> fs_path \<Rightarrow> fs_node \<Rightarrow> store_error + path_observation option" where
  "observe_path S p fs = (case fs_stat fs p of
     Inl e \<Rightarrow> if e = IoNotFound then Inr None else Inl (IoFailure e)
   | Inr n \<Rightarrow>
       if holds_file n \<and> \<not> real_path fs (butlast p) then Inl (IoFailure IoNotADirectory)
       else case observe_node S n of None \<Rightarrow> Inl UnsupportedObject | Some ob \<Rightarrow> Inr (Some ob))"

definition observe_at :: "store_env \<Rightarrow> fs_path \<Rightarrow> path_observation option sprog" where
  "observe_at S p = query (observe_path S p)"

definition matches_record :: "path_observation \<Rightarrow> sync_record \<Rightarrow> bool" where
  "matches_record ob r \<longleftrightarrow> \<not> sr_tombstone r \<and> po_readonly ob = sr_readonly r \<and>
     (case sr_kind r of
        File \<Rightarrow> po_kind ob = 0 \<and> po_size ob = sr_size r \<and> Some (po_hash ob) = sr_content_hash r
      | Directory \<Rightarrow> po_kind ob = 1
      | Symlink \<Rightarrow> po_kind ob = 2
      | Other \<Rightarrow> False)"

end
