(* ===== verification/Chunk_Store.thy ===== *)
theory Chunk_Store
  imports Store_World Merge
begin

text \<open>
  The content-addressed chunk store of \<^verbatim>\<open>crates/deltaweave-store/src/lib.rs\<close>: chunk files named by
  their digest, installed through a temporary file and a rename, verified on every read, corrupt files
  moved to quarantine; and the helpers of the same file that the path journal calls.
\<close>

section \<open>Paths\<close>

definition MAX_STORED_CHUNK_BYTES :: nat where "MAX_STORED_CHUNK_BYTES = 16 * 1024 * 1024"

definition chunks_dir :: "store_env \<Rightarrow> fs_path" where "chunks_dir S = sv_state_root S @ [''chunks'']"
definition temporary_dir :: "store_env \<Rightarrow> fs_path" where "temporary_dir S = sv_state_root S @ [''tmp'']"
definition trash_dir :: "store_env \<Rightarrow> fs_path" where "trash_dir S = sv_state_root S @ [''trash'']"

definition chunk_path :: "store_env \<Rightarrow> hash32 \<Rightarrow> fs_path" where
  "chunk_path S hash = (let encoded = to_hex (sv_externs S) hash in chunks_dir S @ [take 2 encoded, drop 2 encoded])"

definition unique_name :: "store_env \<Rightarrow> string \<Rightarrow> hash32 \<Rightarrow> nat \<Rightarrow> string" where
  "unique_name S kind hash sequence =
     kind @ ''-'' @ decimal (sv_pid S) @ ''-'' @ to_hex (sv_externs S) hash @ ''-'' @ decimal sequence @ ''.part''"

definition unique_path :: "store_env \<Rightarrow> fs_path \<Rightarrow> string \<Rightarrow> hash32 \<Rightarrow> fs_path sprog" where
  "unique_path S root kind hash = and_do fetch_sequence (\<lambda>sequence. ret (root @ [unique_name S kind hash sequence]))"

text \<open>\<open>checked_destination\<close> walks the ancestors of the destination below a real root.\<close>

fun destination_below :: "fs_node \<Rightarrow> fs_path \<Rightarrow> string list \<Rightarrow> store_error + fs_path" where
  "destination_below fs cur [] = Inr cur"
| "destination_below fs cur [c] = Inr (cur @ [c])"
| "destination_below fs cur (c # d # cs) = (case fs_stat fs (cur @ [c]) of
     Inl e \<Rightarrow> if e = IoNotFound then destination_below fs (cur @ [c]) (d # cs) else Inl (IoFailure e)
   | Inr n \<Rightarrow> if is_dir_node n then destination_below fs (cur @ [c]) (d # cs)
       else Inl (Refused ''destination ancestor is not a real directory''))"

definition checked_destination_at :: "fs_path \<Rightarrow> wire_path \<Rightarrow> fs_node \<Rightarrow> store_error + fs_path" where
  "checked_destination_at root path fs = and_then (io (fs_stat fs root)) (\<lambda>n.
     and_then (ensure (is_dir_node n) (Refused ''destination root must be a real directory'')) (\<lambda>_.
       destination_below fs root (components path)))"

definition checked_destination :: "fs_path \<Rightarrow> wire_path \<Rightarrow> fs_path sprog" where
  "checked_destination root path = query (checked_destination_at root path)"

section \<open>Verifying content\<close>

fun chunks_match :: "externs \<Rightarrow> u8 list \<Rightarrow> chunk_descriptor list \<Rightarrow> bool" where
  "chunks_match E bytes [] \<longleftrightarrow> bytes = []"
| "chunks_match E bytes (c # cs) \<longleftrightarrow>
     unat (cd_length c) \<le> length bytes \<and> digest E (take (unat (cd_length c)) bytes) = cd_hash c \<and>
     chunks_match E (drop (unat (cd_length c)) bytes) cs"

definition bytes_match_manifest :: "externs \<Rightarrow> u8 list \<Rightarrow> file_manifest \<Rightarrow> bool" where
  "bytes_match_manifest E bytes manifest \<longleftrightarrow>
     of_nat (length bytes) = fm_size manifest \<and> chunks_match E bytes (fm_chunks manifest) \<and>
     digest E bytes = fm_file_hash manifest"

definition matches_manifest_at :: "store_env \<Rightarrow> fs_path \<Rightarrow> file_manifest \<Rightarrow> fs_node \<Rightarrow> store_error + bool" where
  "matches_manifest_at S p manifest fs = and_then (io (fs_read_file p fs)) (\<lambda>bytes.
     Inr (bytes_match_manifest (sv_externs S) bytes manifest))"

definition file_matches_manifest :: "store_env \<Rightarrow> fs_path \<Rightarrow> file_manifest \<Rightarrow> bool sprog" where
  "file_matches_manifest S p manifest = query (matches_manifest_at S p manifest)"

text \<open>Reading a chunk follows links like \<open>File::open\<close>; a directory opens and then fails to read.\<close>

definition read_chunk_file :: "store_env \<Rightarrow> hash32 \<Rightarrow> fs_node \<Rightarrow> store_error + u8 list" where
  "read_chunk_file S hash fs = and_then (io (fs_metadata fs (chunk_path S hash))) (\<lambda>n. case n of
     FileNode _ bytes \<Rightarrow> Inr bytes | DirNode _ _ \<Rightarrow> Inl (IoFailure IoIsADirectory) | _ \<Rightarrow> Inl (IoFailure IoOther))"

definition verified_bytes :: "store_env \<Rightarrow> hash32 \<Rightarrow> nat \<Rightarrow> fs_node \<Rightarrow> store_error + u8 list" where
  "verified_bytes S hash max_bytes fs = and_then (read_chunk_file S hash fs) (\<lambda>bytes.
     and_then (ensure (length bytes \<le> max_bytes) (Refused ''chunk exceeds its size bound'')) (\<lambda>_.
     and_then (ensure (digest (sv_externs S) bytes = hash) (Refused ''chunk is corrupt'')) (\<lambda>_. Inr bytes)))"

definition read_verified_bounded :: "store_env \<Rightarrow> hash32 \<Rightarrow> nat \<Rightarrow> u8 list sprog" where
  "read_verified_bounded S hash max_bytes = query (verified_bytes S hash max_bytes)"

definition read_verified :: "store_env \<Rightarrow> hash32 \<Rightarrow> u8 list sprog" where
  "read_verified S hash = read_verified_bounded S hash MAX_STORED_CHUNK_BYTES"

definition verify_bounded :: "store_env \<Rightarrow> hash32 \<Rightarrow> nat \<Rightarrow> u64 sprog" where
  "verify_bounded S hash max_bytes = query (\<lambda>fs.
     and_then (verified_bytes S hash max_bytes fs) (\<lambda>bytes. Inr (of_nat (length bytes))))"

definition is_file :: "fs_path \<Rightarrow> bool sprog" where
  "is_file p = query (\<lambda>fs. Inr (fs_is_file fs p))"

definition chunk_contains :: "store_env \<Rightarrow> hash32 \<Rightarrow> bool sprog" where
  "chunk_contains S hash = is_file (chunk_path S hash)"

section \<open>Installing chunks\<close>

text \<open>\<open>rename(2)\<close> replaces a file; a directory only replaces an empty directory.\<close>

definition fs_rename :: "(fs_node \<Rightarrow> fs_node) \<Rightarrow> fs_path \<Rightarrow> fs_path \<Rightarrow> fs_node \<Rightarrow> io_kind + fs_node" where
  "fs_rename moved src dst fs = and_then (fs_entry fs src) (\<lambda>p. and_then (fs_entry fs dst) (\<lambda>q.
     case fs_lookup fs p of None \<Rightarrow> Inl IoNotFound | Some n \<Rightarrow>
       if p = q then Inr fs
       else if p = [] \<or> q = [] \<or> prefix p q then Inl IoOther
       else if prefix q p then Inl IoDirectoryNotEmpty
       else case fs_lookup fs q of
         None \<Rightarrow> Inr (fs_put (Some (moved n)) q (fs_put None p fs))
       | Some (DirNode _ ch) \<Rightarrow>
           if \<not> is_dir_node n then Inl IoIsADirectory
           else if ch \<noteq> fmempty then Inl IoDirectoryNotEmpty
           else Inr (fs_put (Some (moved n)) q (fs_put None p fs))
       | Some _ \<Rightarrow> if is_dir_node n then Inl IoNotADirectory
           else Inr (fs_put (Some (moved n)) q (fs_put None p fs))))"

text \<open>The object a path names, without following a link at its end.\<close>

definition fs_named :: "fs_path \<Rightarrow> fs_node \<Rightarrow> fs_node option" where
  "fs_named p fs = (case fs_entry fs p of Inl _ \<Rightarrow> None | Inr q \<Rightarrow> fs_lookup fs q)"

definition rename_victim :: "fs_path \<Rightarrow> fs_path \<Rightarrow> fs_node \<Rightarrow> fs_node option" where
  "rename_victim src dst fs = (if fs_entry fs src = fs_entry fs dst then None else fs_named dst fs)"

definition rename :: "store_env \<Rightarrow> fs_path \<Rightarrow> fs_path \<Rightarrow> unit sprog" where
  "rename S src dst = discard_fs (ReplacedAt dst) (rename_victim src dst) (\<lambda>now fs. io (fs_rename (touch S now) src dst fs))"

definition fs_remove_file :: "fs_path \<Rightarrow> fs_node \<Rightarrow> io_kind + fs_node" where
  "fs_remove_file p fs = and_then (fs_entry fs p) (\<lambda>q. case fs_lookup fs q of
     None \<Rightarrow> Inl IoNotFound | Some n \<Rightarrow> if is_dir_node n then Inl IoIsADirectory else Inr (fs_put None q fs))"

definition remove_file :: "fs_path \<Rightarrow> unit sprog" where
  "remove_file p = discard_fs (RemovedAt p) (fs_named p) (\<lambda>_ fs. io (fs_remove_file p fs))"

definition quarantine_chunk :: "store_env \<Rightarrow> hash32 \<Rightarrow> unit sprog" where
  "quarantine_chunk S hash = and_do (unique_path S (trash_dir S) ''corrupt'' hash) (\<lambda>quarantine.
     and_do (create_dir_all S (butlast quarantine)) (\<lambda>_. rename S (chunk_path S hash) quarantine))"

text \<open>The result is the parent directory to synchronise, or nothing when a verified chunk was there.\<close>

definition install_new_chunk :: "store_env \<Rightarrow> hash32 \<Rightarrow> u8 list \<Rightarrow> fs_path option sprog" where
  "install_new_chunk S hash bytes = (let destination = chunk_path S hash in
     and_do (create_dir_all S (butlast destination)) (\<lambda>_.
     and_do (unique_path S (temporary_dir S) ''chunk'' hash) (\<lambda>temporary.
     and_do (open_new_file S temporary) (\<lambda>_.
     and_do (write_all S bytes) (\<lambda>_.
     and_do sync_and_close (\<lambda>_.
       catch (and_do (rename S temporary destination) (\<lambda>_. ret (Some (butlast destination)))) (\<lambda>error.
         and_do (is_file destination) (\<lambda>present.
           if present then
             catch (and_do (verify_bounded S hash (length bytes)) (\<lambda>_.
                      and_do (attempt (remove_file temporary)) (\<lambda>_. ret None)))
                   (\<lambda>e. and_do (attempt (remove_file temporary)) (\<lambda>_. fail e))
           else and_do (attempt (remove_file temporary)) (\<lambda>_. fail error)))))))))"

definition install_validated_chunk :: "store_env \<Rightarrow> hash32 \<Rightarrow> u8 list \<Rightarrow> fs_path option sprog" where
  "install_validated_chunk S hash bytes =
     and_do (is_file (chunk_path S hash)) (\<lambda>present.
       if present then
         and_do (catch (and_do (verify_bounded S hash (length bytes)) (\<lambda>_. ret True)) (\<lambda>_. ret False)) (\<lambda>valid.
           if valid then ret None
           else and_do (quarantine_chunk S hash) (\<lambda>_. install_new_chunk S hash bytes))
       else install_new_chunk S hash bytes)"

definition check_chunk :: "store_env \<Rightarrow> hash32 \<times> u8 list \<Rightarrow> unit sprog" where
  "check_chunk S chunk = (case chunk of (hash, bytes) \<Rightarrow>
     and_do (require (length bytes \<le> MAX_STORED_CHUNK_BYTES) (Refused ''chunk exceeds the stored size'')) (\<lambda>_.
       require (digest (sv_externs S) bytes = hash) (Refused ''refusing chunk with another digest'')))"

definition put_verified :: "store_env \<Rightarrow> hash32 \<Rightarrow> u8 list \<Rightarrow> bool sprog" where
  "put_verified S hash bytes =
     and_do (check_chunk S (hash, bytes)) (\<lambda>_.
     and_do (install_validated_chunk S hash bytes) (\<lambda>installed. case installed of
        Some parent \<Rightarrow> and_do (sync_directory parent) (\<lambda>_. ret True)
      | None \<Rightarrow> ret False))"

text \<open>The loop of \<open>install_validated_batch\<close>: it stops at the first error and keeps it for later.\<close>

fun install_chunks :: "store_env \<Rightarrow> (hash32 \<times> u8 list) list \<Rightarrow> fs_path fset \<Rightarrow> nat \<Rightarrow>
    (fs_path fset \<times> nat \<times> store_error option) sprog" where
  "install_chunks S [] parents stored = ret (parents, stored, None)"
| "install_chunks S ((hash, bytes) # chunks) parents stored =
     and_do (catch (and_do (install_validated_chunk S hash bytes) (\<lambda>installed. ret (Inr installed))) (\<lambda>e. ret (Inl e))) (\<lambda>r.
       case r of Inl e \<Rightarrow> ret (parents, stored, Some e)
       | Inr (Some parent) \<Rightarrow> install_chunks S chunks (finsert parent parents) (Suc stored)
       | Inr None \<Rightarrow> install_chunks S chunks parents stored)"

fun sync_parents :: "fs_path list \<Rightarrow> store_error option \<Rightarrow> store_error option sprog" where
  "sync_parents [] first = ret first"
| "sync_parents (p # ps) first =
     and_do (catch (and_do (sync_directory p) (\<lambda>_. ret first)) (\<lambda>e. ret (if first = None then Some e else first)))
       (sync_parents ps)"

definition install_validated_batch :: "store_env \<Rightarrow> (hash32 \<times> u8 list) list \<Rightarrow> nat sprog" where
  "install_validated_batch S chunks = and_do (install_chunks S chunks {||} 0) (\<lambda>(parents, stored, install_error).
     and_do (sync_parents (sorted_list_of_fset parents) None) (\<lambda>sync_error.
       case install_error of Some e \<Rightarrow> fail e
       | None \<Rightarrow> (case sync_error of Some e \<Rightarrow> fail e | None \<Rightarrow> ret stored)))"

definition put_verified_batch :: "store_env \<Rightarrow> (hash32 \<times> u8 list) list \<Rightarrow> nat sprog" where
  "put_verified_batch S chunks = and_do (for_each (check_chunk S) chunks) (\<lambda>_. install_validated_batch S chunks)"

record verified_chunk =
  vc_hash :: hash32
  vc_bytes :: "u8 list"

definition verified_chunk_validate :: "externs \<Rightarrow> chunk_descriptor \<Rightarrow> u8 list \<Rightarrow> store_error + verified_chunk" where
  "verified_chunk_validate E descriptor bytes =
     and_then (ensure (length bytes \<le> MAX_STORED_CHUNK_BYTES) (Refused ''chunk exceeds the stored size'')) (\<lambda>_.
     and_then (map_err CdcFailure (verify_chunk E descriptor bytes)) (\<lambda>_.
       Inr \<lparr>vc_hash = cd_hash descriptor, vc_bytes = bytes\<rparr>))"

definition put_validated_batch :: "store_env \<Rightarrow> verified_chunk list \<Rightarrow> nat sprog" where
  "put_validated_batch S chunks = install_validated_batch S (map (\<lambda>c. (vc_hash c, vc_bytes c)) chunks)"

section \<open>Metadata of installed files\<close>

record materialization_observation =
  mo_file_hash :: hash32
  mo_identity :: "(u64 \<times> u64) option"
  mo_size :: u64
  mo_modified_ns :: "128 word option"
  mo_changed_ns :: "128 word option"
  mo_readonly :: bool

definition materialization_at :: "fs_path \<Rightarrow> hash32 \<Rightarrow> fs_node \<Rightarrow> store_error + materialization_observation" where
  "materialization_at p file_hash fs = and_then (io (fs_stat fs p)) (\<lambda>n. case n of
     FileNode m b \<Rightarrow> Inr \<lparr>mo_file_hash = file_hash, mo_identity = nm_identity m, mo_size = of_nat (length b),
        mo_modified_ns = nm_modified_ns m, mo_changed_ns = nm_changed_ns m, mo_readonly = nm_readonly m\<rparr>
   | _ \<Rightarrow> Inl (Refused ''not a regular file''))"

definition materialization_observation_of :: "fs_path \<Rightarrow> hash32 \<Rightarrow> materialization_observation sprog" where
  "materialization_observation_of p file_hash = query (materialization_at p file_hash)"

definition has_unique_file_link :: "node_meta \<Rightarrow> bool" where
  "has_unique_file_link m \<longleftrightarrow> nm_nlink m = 1"

definition set_readonly_node :: "store_env \<Rightarrow> nat \<Rightarrow> bool \<Rightarrow> fs_node \<Rightarrow> fs_node" where
  "set_readonly_node S now readonly = set_meta (\<lambda>m. m\<lparr>nm_readonly := readonly, nm_changed_ns := nm_changed_ns (sv_host S now)\<rparr>)"

definition readonly_update :: "store_env \<Rightarrow> fs_path \<Rightarrow> bool \<Rightarrow> nat \<Rightarrow> fs_node \<Rightarrow> store_error + fs_node" where
  "readonly_update S p readonly now fs = and_then (io (fs_open_nofollow p fs)) (\<lambda>n.
     if nm_readonly (node_meta n) = readonly then Inr fs
     else if is_file_node n \<and> \<not> has_unique_file_link (node_meta n)
       then Inl (Refused ''refusing to change permissions on a hardlinked file'')
     else Inr (fs_put (Some (set_readonly_node S now readonly n)) p fs))"

definition apply_readonly :: "store_env \<Rightarrow> fs_path \<Rightarrow> bool \<Rightarrow> unit sprog" where
  "apply_readonly S p readonly = update_fs (readonly_update S p readonly)"

definition after_readonly_update :: "store_env \<Rightarrow> materialization_observation \<Rightarrow> fs_path \<Rightarrow> bool \<Rightarrow>
    materialization_observation sprog" where
  "after_readonly_update S ob p readonly =
     and_do (materialization_observation_of p (mo_file_hash ob)) (\<lambda>before.
     and_do (require (before = ob) (Refused ''materialized file changed before readonly update'')) (\<lambda>_.
     and_do (symlink_metadata p) (\<lambda>n.
     and_do (require (has_unique_file_link (node_meta n)) (Refused ''refusing a file with other hard links'')) (\<lambda>_.
     and_do (apply_readonly S p readonly) (\<lambda>_.
     and_do (materialization_observation_of p (mo_file_hash ob)) (\<lambda>after.
     and_do (require (mo_identity after = mo_identity before \<and> mo_size after = mo_size before \<and>
                      mo_modified_ns after = mo_modified_ns before) (Refused ''changed during readonly update'')) (\<lambda>_.
     and_do (require (mo_readonly after = readonly) (Refused ''readonly state did not match'')) (\<lambda>_. ret after))))))))"

definition operation_id :: "externs \<Rightarrow> wire_path \<Rightarrow> file_manifest \<Rightarrow> hash32" where
  "operation_id E path manifest =
     blake3_derive E ''deltaweave operation v1'' (str_bytes path @ as_bytes (manifest_hash E manifest))"

definition committed_operation :: "externs \<Rightarrow> wire_path \<Rightarrow> file_manifest \<Rightarrow> operation_record" where
  "committed_operation E path manifest = \<lparr>or_id = operation_id E path manifest, or_path = path,
     or_file_hash = fm_file_hash manifest, or_state = OperationCommitted\<rparr>"

end
