(* ===== verification/Index.thy ===== *)
theory Index
  imports Merge
begin

text \<open>
  The authoritative local index of \<^verbatim>\<open>crates/deltaweave-index/src/lib.rs\<close>: records, retries and
  counters, the traversal of a root, the scan that turns observations into causal records, retry
  backoff, rename correlation and collision groups. The file system is represented by the results of
  the calls the code makes on it: a directory listing is a tree of listing results, a hashing attempt
  is a function argument.
\<close>

section \<open>Data\<close>

definition INDEX_SCHEMA_V1 :: u16 where "INDEX_SCHEMA_V1 = 1"
definition RETRY_BASE_MS :: u64 where "RETRY_BASE_MS = 500"
definition RETRY_MAX_MS :: u64 where "RETRY_MAX_MS = 5 * 60 * 1000"

datatype entry_kind = FileEntry | DirectoryEntry | SymlinkEntry | OtherEntry

record file_identity =
  fi_namespace :: u64
  fi_object :: u64

record fingerprint =
  fp_identity :: "file_identity option"
  fp_size :: u64
  fp_modified_ns :: "128 word option"
  fp_changed_ns :: "128 word option"
  fp_readonly :: bool

record path_record =
  pr_schema_version :: u16
  pr_path :: wire_path
  pr_collision_key :: string
  pr_kind :: entry_kind
  pr_identity :: "file_identity option"
  pr_size :: u64
  pr_modified_ns :: "128 word option"
  pr_readonly :: bool
  pr_content_hash :: "hash32 option"
  pr_version :: version_vector
  pr_tombstone :: bool
  pr_generation :: u64

record retry_record =
  rr_path :: wire_path
  rr_attempts :: u32
  rr_not_before_ms :: u64
  rr_last_error :: string

record collision_group =
  cg_key :: string
  cg_paths :: "wire_path list"

datatype scan_change = Created wire_path | Modified wire_path | Deleted wire_path | Renamed wire_path wire_path

datatype scan_issue_kind =
  NonPortablePath | EnumerationFailed | HashFailed | MutatedDuringRead | RetryDeferred | PathCollision

record scan_issue =
  si_path :: string
  si_kind :: scan_issue_kind
  si_message :: string

record scan_report =
  sp_generation :: u64
  sp_live_records :: nat
  sp_tombstones :: nat
  sp_files_hashed :: nat
  sp_unchanged :: nat
  sp_retries_queued :: nat
  sp_changes :: "scan_change list"
  sp_collisions :: "collision_group list"
  sp_issues :: "scan_issue list"

record raw_entry =
  re_local_path :: "string list"
  re_path :: wire_path
  re_kind :: entry_kind
  re_fingerprint :: fingerprint

record scanned_entry =
  sc_path :: wire_path
  sc_kind :: entry_kind
  sc_fingerprint :: fingerprint
  sc_content_hash :: "hash32 option"

record traversal =
  tv_candidates :: "raw_entry list"
  tv_uncertain_paths :: "wire_path fset"
  tv_uncertain_prefixes :: "wire_path list"
  tv_preserve_all_missing :: bool
  tv_issues :: "scan_issue list"

datatype index_error =
    GenerationOverflow | ReplicaCounterOverflow | RenameSourceDisappeared | RootUnreadable string
  | UnsupportedRecordSchema | CorruptIndexRow
  | InvalidAdoption sync_record_error | RemoteAdvancesLocalCounter | NotALiveFile | ObservationMismatch
  | MetadataTooLarge | TombstoneWithObservation | ObjectStillExists | InspectFailed | KindMismatch
  | ReadonlyMismatch | HashVerificationFailed string | ContentMismatch | ObservationOnNonFile
  | SymlinkAncestor | InvalidAncestor | DuplicateAuthoritativePath | UnsupportedAuthoritativeKind
  | AuthoritativeCollision | MissingAncestor | TraversalIncomplete | NamespaceDiffers

record index_state =
  ix_records :: "(wire_path, path_record) fmap"
  ix_retries :: "(wire_path, retry_record) fmap"
  ix_generation :: u64
  ix_replica_counter :: u64
  ix_share_metadata :: "u8 list option"

text \<open>
  The opened index: its canonical root and ignored paths as component lists, its replica, and the library
  functions it uses (NFKC and case folding of a component, \<open>Path::display\<close>, the \<open>{:?}\<close> form of a string).
\<close>

record local_index =
  li_root :: "string list"
  li_ignored_paths :: "string list list"
  li_replica :: replica_id
  li_fold_component :: "string \<Rightarrow> string"
  li_display :: "string list \<Rightarrow> string"
  li_debug :: "string \<Rightarrow> string"

section \<open>Metadata\<close>

text \<open>
  What \<open>symlink_metadata\<close> reports on Unix; \<open>md_modified\<close> is the modification time since the epoch when there
  is one.
\<close>

datatype file_type = SymlinkType | FileType | DirType | OtherType

record metadata =
  md_type :: file_type
  md_len :: u64
  md_modified :: "128 word option"
  md_ctime :: int
  md_ctime_nsec :: int
  md_dev :: u64
  md_ino :: u64
  md_readonly :: bool

fun entry_kind_of :: "file_type \<Rightarrow> entry_kind" where
  "entry_kind_of SymlinkType = SymlinkEntry"
| "entry_kind_of FileType = FileEntry"
| "entry_kind_of DirType = DirectoryEntry"
| "entry_kind_of OtherType = OtherEntry"

definition change_time_ns :: "metadata \<Rightarrow> 128 word option" where
  "change_time_ns m = (if 0 \<le> md_ctime m \<and> 0 \<le> md_ctime_nsec m
     then Some (saturating_add (saturating_mul (word_of_int (md_ctime m)) 1000000000) (word_of_int (md_ctime_nsec m)))
     else None)"

definition identity_of :: "metadata \<Rightarrow> file_identity option" where
  "identity_of m = (if md_ino m = 0 then None else Some \<lparr>fi_namespace = md_dev m, fi_object = md_ino m\<rparr>)"

definition metadata_fingerprint :: "metadata \<Rightarrow> entry_kind \<Rightarrow> fingerprint" where
  "metadata_fingerprint m kind = \<lparr>fp_identity = identity_of m,
     fp_size = (if kind = FileEntry then md_len m else 0),
     fp_modified_ns = (if kind = FileEntry then md_modified m else None),
     fp_changed_ns = (if kind = FileEntry then change_time_ns m else None),
     fp_readonly = (kind = FileEntry \<and> md_readonly m)\<rparr>"

section \<open>Projection and keys\<close>

fun to_sync_kind :: "entry_kind \<Rightarrow> sync_entry_kind" where
  "to_sync_kind FileEntry = File"
| "to_sync_kind DirectoryEntry = Directory"
| "to_sync_kind SymlinkEntry = Symlink"
| "to_sync_kind OtherEntry = Other"

fun from_sync_kind :: "sync_entry_kind \<Rightarrow> entry_kind" where
  "from_sync_kind File = FileEntry"
| "from_sync_kind Directory = DirectoryEntry"
| "from_sync_kind Symlink = SymlinkEntry"
| "from_sync_kind Other = OtherEntry"

definition to_sync_record :: "path_record \<Rightarrow> sync_record" where
  "to_sync_record r = \<lparr>sr_schema_version = SYNC_RECORD_SCHEMA_V1, sr_path = pr_path r,
     sr_kind = to_sync_kind (pr_kind r), sr_size = pr_size r, sr_content_hash = pr_content_hash r,
     sr_readonly = pr_readonly r, sr_version = pr_version r, sr_tombstone = pr_tombstone r\<rparr>"

definition collision_key :: "local_index \<Rightarrow> wire_path \<Rightarrow> string" where
  "collision_key I path = join_with ''/'' (map (li_fold_component I) (components path))"

definition to_record :: "local_index \<Rightarrow> scanned_entry \<Rightarrow> version_vector \<Rightarrow> u64 \<Rightarrow> path_record" where
  "to_record I e version generation =
     \<lparr>pr_schema_version = INDEX_SCHEMA_V1, pr_path = sc_path e, pr_collision_key = collision_key I (sc_path e),
      pr_kind = sc_kind e, pr_identity = fp_identity (sc_fingerprint e), pr_size = fp_size (sc_fingerprint e),
      pr_modified_ns = fp_modified_ns (sc_fingerprint e), pr_readonly = fp_readonly (sc_fingerprint e),
      pr_content_hash = sc_content_hash e, pr_version = version, pr_tombstone = False,
      pr_generation = generation\<rparr>"

definition into_scanned :: "raw_entry \<Rightarrow> hash32 option \<Rightarrow> scanned_entry" where
  "into_scanned e content_hash = \<lparr>sc_path = re_path e, sc_kind = re_kind e,
     sc_fingerprint = re_fingerprint e, sc_content_hash = content_hash\<rparr>"

definition record_matches :: "path_record \<Rightarrow> scanned_entry \<Rightarrow> bool" where
  "record_matches r e \<longleftrightarrow>
     pr_kind r = sc_kind e \<and> pr_identity r = fp_identity (sc_fingerprint e) \<and>
     pr_size r = fp_size (sc_fingerprint e) \<and> pr_modified_ns r = fp_modified_ns (sc_fingerprint e) \<and>
     pr_readonly r = fp_readonly (sc_fingerprint e) \<and> pr_content_hash r = sc_content_hash e"

definition record_fingerprint_matches :: "path_record \<Rightarrow> raw_entry \<Rightarrow> bool" where
  "record_fingerprint_matches r e \<longleftrightarrow>
     pr_kind r = re_kind e \<and> pr_identity r = fp_identity (re_fingerprint e) \<and>
     pr_size r = fp_size (re_fingerprint e) \<and> pr_modified_ns r = fp_modified_ns (re_fingerprint e) \<and>
     pr_readonly r = fp_readonly (re_fingerprint e)"

definition next_replica_counter :: "u64 \<Rightarrow> version_vector \<Rightarrow> replica_id \<Rightarrow> index_error + u64" where
  "next_replica_counter global version replica =
     ok_or (checked_add (max global (vv_get version replica)) 1) ReplicaCounterOverflow"

definition starts_below :: "wire_path \<Rightarrow> wire_path \<Rightarrow> bool" where
  "starts_below pfx path \<longleftrightarrow> path = pfx \<or>
     (case strip_prefix pfx path of None \<Rightarrow> False | Some rest \<Rightarrow> rest \<noteq> [] \<and> hd rest = CHR ''/'')"

definition should_preserve :: "wire_path \<Rightarrow> wire_path fset \<Rightarrow> wire_path list \<Rightarrow> bool" where
  "should_preserve path preserved uncertain_prefixes \<longleftrightarrow>
     path |\<in>| preserved \<or> list_ex (\<lambda>pfx. starts_below pfx path) uncertain_prefixes"

text \<open>\<open>message.chars().take(1024)\<close> on UTF-8 bytes: a character is a byte and its continuation bytes.\<close>

fun take_chars :: "nat \<Rightarrow> string \<Rightarrow> string" where
  "take_chars 0 s = []"
| "take_chars (Suc n) [] = []"
| "take_chars (Suc n) (c # cs) =
     c # takeWhile (\<lambda>d. 128 \<le> byte_of d \<and> byte_of d < 192) cs @
     take_chars n (dropWhile (\<lambda>d. 128 \<le> byte_of d \<and> byte_of d < 192) cs)"

definition bounded_message :: "string \<Rightarrow> string" where
  "bounded_message message = take_chars 1024 message"

definition path_is_ignored :: "local_index \<Rightarrow> string list \<Rightarrow> bool" where
  "path_is_ignored I local \<longleftrightarrow> list_ex (\<lambda>ignored. prefix ignored local) (li_ignored_paths I)"

definition wire_path_is_ignored :: "local_index \<Rightarrow> wire_path \<Rightarrow> bool" where
  "wire_path_is_ignored I path \<longleftrightarrow> path_is_ignored I (li_root I @ components path)"

section \<open>Retries\<close>

definition saturating_sub :: "'a::len word \<Rightarrow> 'a word \<Rightarrow> 'a word" where
  "saturating_sub a b = (if b \<le> a then a - b else 0)"

definition is_due :: "retry_record \<Rightarrow> u64 \<Rightarrow> bool" where
  "is_due retry now_ms \<longleftrightarrow> rr_not_before_ms retry \<le> now_ms"

definition schedule_retry :: "retry_record option \<Rightarrow> wire_path \<Rightarrow> u64 \<Rightarrow> string \<Rightarrow> retry_record" where
  "schedule_retry previous path now_ms message =
     (let attempts = (case previous of None \<Rightarrow> 1 | Some retry \<Rightarrow> saturating_add (rr_attempts retry) 1);
          shift = min (saturating_sub attempts 1) 31;
          delay = min (saturating_mul RETRY_BASE_MS (push_bit (unat shift) 1)) RETRY_MAX_MS
      in \<lparr>rr_path = path, rr_attempts = attempts, rr_not_before_ms = saturating_add now_ms delay,
          rr_last_error = bounded_message message\<rparr>)"

section \<open>Portable paths\<close>

definition cont_byte :: "char \<Rightarrow> bool" where
  "cont_byte c \<longleftrightarrow> 128 \<le> byte_of c \<and> byte_of c < 192"

text \<open>\<open>OsStr::to_str\<close>: well-formed UTF-8.\<close>

fun utf8_valid :: "string \<Rightarrow> bool" where
  "utf8_valid [] = True"
| "utf8_valid (a # s) =
     (let x = byte_of a in
      if x < 128 then utf8_valid s
      else if x < 194 then False
      else if x < 224 then (case s of b # s1 \<Rightarrow> cont_byte b \<and> utf8_valid s1 | _ \<Rightarrow> False)
      else if x < 240 then (case s of b # c # s2 \<Rightarrow>
          cont_byte b \<and> cont_byte c \<and> (x = 224 \<longrightarrow> 160 \<le> byte_of b) \<and> (x = 237 \<longrightarrow> byte_of b < 160) \<and> utf8_valid s2
        | _ \<Rightarrow> False)
      else if x < 245 then (case s of b # c # d # s3 \<Rightarrow>
          cont_byte b \<and> cont_byte c \<and> cont_byte d \<and> (x = 240 \<longrightarrow> 144 \<le> byte_of b) \<and> (x = 244 \<longrightarrow> byte_of b < 144) \<and>
          utf8_valid s3
        | _ \<Rightarrow> False)
      else False)"

fun wire_error_text :: "local_index \<Rightarrow> wire_path_error \<Rightarrow> string" where
  "wire_error_text I Empty = ''path is empty''"
| "wire_error_text I NotRelative = ''path must be relative and use '' @ [CHR 0x27] @ ''/'' @ [CHR 0x27] @ '' separators''"
| "wire_error_text I TooLong = ''path exceeds 4096 UTF-8 bytes''"
| "wire_error_text I (InvalidComponent c) = ''invalid path component '' @ li_debug I c"
| "wire_error_text I (ComponentTooLong c) = ''path component exceeds 255 UTF-8 bytes: '' @ li_debug I c"
| "wire_error_text I (ReservedName c) = ''reserved Windows path component '' @ li_debug I c"

fun strip_components :: "string list \<Rightarrow> string list \<Rightarrow> string list option" where
  "strip_components [] local = Some local"
| "strip_components (r # root) [] = None"
| "strip_components (r # root) (c # local) = (if r = c then strip_components root local else None)"

definition portable_path :: "local_index \<Rightarrow> string list \<Rightarrow> string + wire_path" where
  "portable_path I local = (case strip_components (li_root I) local of
     None \<Rightarrow> Inl ''path escaped root: prefix not found''
   | Some comps \<Rightarrow> if list_all utf8_valid comps
       then map_err (wire_error_text I) (wire_path_new (join_with ''/'' comps))
       else Inl ''path is not valid UTF-8'')"

section \<open>Traversal\<close>

text \<open>
  What \<open>read_dir\<close> and \<open>symlink_metadata\<close> report below a directory: the listing may fail as a whole, an
  entry may fail, its metadata may fail, and a directory entry has a listing of its own. Names are bytes,
  in the order of \<open>sort_by_key(file_name)\<close>.
\<close>

datatype listing = ListingFailed string | Listing "listed list"
and listed =
    ListedError string
  | NoMetadata string string
  | ListedEntry string metadata listing

definition add_issue :: "local_index \<Rightarrow> string list \<Rightarrow> scan_issue_kind \<Rightarrow> string \<Rightarrow> traversal \<Rightarrow> traversal" where
  "add_issue I local kind message tv = tv\<lparr>tv_issues := tv_issues tv @
     [\<lparr>si_path = li_display I local, si_kind = kind, si_message = bounded_message message\<rparr>]\<rparr>"

definition mark_directory_uncertain :: "local_index \<Rightarrow> string list \<Rightarrow> bool \<Rightarrow> traversal \<Rightarrow> traversal" where
  "mark_directory_uncertain I dir is_root tv =
     (if is_root then tv\<lparr>tv_preserve_all_missing := True\<rparr>
      else case portable_path I dir of
        Inl _ \<Rightarrow> tv
      | Inr path \<Rightarrow> tv\<lparr>tv_uncertain_prefixes := tv_uncertain_prefixes tv @ [path]\<rparr>)"

text \<open>The first loop of \<open>collect_directory\<close>, which keeps the readable entries.\<close>

fun collect_errors :: "local_index \<Rightarrow> string list \<Rightarrow> bool \<Rightarrow> listed list \<Rightarrow> traversal \<Rightarrow> index_error + traversal" where
  "collect_errors I dir is_root [] tv = Inr tv"
| "collect_errors I dir is_root (ListedError message # es) tv =
     (if is_root then Inl (RootUnreadable message)
      else collect_errors I dir is_root es
        (add_issue I dir EnumerationFailed message (mark_directory_uncertain I dir False tv)))"
| "collect_errors I dir is_root (_ # es) tv = collect_errors I dir is_root es tv"

fun collect_directory :: "local_index \<Rightarrow> string list \<Rightarrow> bool \<Rightarrow> listing \<Rightarrow> traversal \<Rightarrow> index_error + traversal"
and collect_entries :: "local_index \<Rightarrow> string list \<Rightarrow> bool \<Rightarrow> listed list \<Rightarrow> traversal \<Rightarrow> index_error + traversal"
and collect_entry :: "local_index \<Rightarrow> string list \<Rightarrow> bool \<Rightarrow> listed \<Rightarrow> traversal \<Rightarrow> index_error + traversal"
where
  "collect_directory I dir is_root (ListingFailed message) tv =
     (if is_root then Inl (RootUnreadable message)
      else Inr (add_issue I dir EnumerationFailed message (mark_directory_uncertain I dir False tv)))"
| "collect_directory I dir is_root (Listing entries) tv =
     and_then (collect_errors I dir is_root entries tv) (collect_entries I dir is_root entries)"
| "collect_entries I dir is_root [] tv = Inr tv"
| "collect_entries I dir is_root (e # es) tv =
     and_then (collect_entry I dir is_root e tv) (collect_entries I dir is_root es)"
| "collect_entry I dir is_root (ListedError message) tv = Inr tv"
| "collect_entry I dir is_root (NoMetadata name message) tv =
     (let local = dir @ [name] in
      if path_is_ignored I local then Inr tv
      else case portable_path I local of
        Inl error \<Rightarrow> Inr (add_issue I local NonPortablePath error (mark_directory_uncertain I dir is_root tv))
      | Inr path \<Rightarrow> Inr (add_issue I local EnumerationFailed message
            (tv\<lparr>tv_uncertain_paths := finsert path (tv_uncertain_paths tv),
                tv_uncertain_prefixes := tv_uncertain_prefixes tv @ [path]\<rparr>)))"
| "collect_entry I dir is_root (ListedEntry name m sub) tv =
     (let local = dir @ [name] in
      if path_is_ignored I local then Inr tv
      else case portable_path I local of
        Inl error \<Rightarrow> Inr (add_issue I local NonPortablePath error (mark_directory_uncertain I dir is_root tv))
      | Inr path \<Rightarrow>
          let kind = entry_kind_of (md_type m);
              tv' = tv\<lparr>tv_candidates := tv_candidates tv @
                [\<lparr>re_local_path = local, re_path = path, re_kind = kind, re_fingerprint = metadata_fingerprint m kind\<rparr>]\<rparr>
          in if kind = DirectoryEntry then collect_directory I local False sub tv' else Inr tv')"

end
