(* ===== verification/Net_Wire.thy ===== *)
theory Net_Wire
  imports Merkle_Diff Core_Manifest Share_Wire Chunk_Store Index
begin

text \<open>
  The reconciliation protocol as it appears on the wire (\<^verbatim>\<open>crates/deltaweave-net/src/lib.rs\<close>): requests,
  responses, chunk frames and the opening frames of a share. One side of a connection is a program over a log of what it sent and received;
  the other side is a function from that log to the next frame, or to nothing when the connection is lost.
  Since the function sees everything that was sent, it stands for any peer, honest or not. Frames are the
  decoded messages; the length of their \<open>postcard\<close> encoding, which bounds a control frame, is a parameter.
\<close>

section \<open>Messages\<close>

record sync_apply_receipt =
  ar_path :: wire_path
  ar_record_hash :: hash32
  ar_transferred_bytes :: u64
  ar_reused_extents :: nat

record remote_snapshot =
  rs_records :: "sync_record list"
  rs_root_hash :: hash32
  rs_record_count :: u64
  rs_queried_nodes :: nat

record pull_receipt =
  pl_record :: sync_record
  pl_manifest :: file_manifest
  pl_transferred_bytes :: u64
  pl_reused_extents :: nat

datatype sync_wire_request =
    QueryNode string
  | PullRecord sync_record
  | PushRecord sync_record file_manifest
  | ApplyMetadata sync_record
  | RequestChunks "hash32 list"
  | Finish

datatype sync_wire_response =
    Node "merkle_node_summary option"
  | PullManifest sync_record file_manifest
  | NeedChunks "hash32 list"
  | Applied sync_apply_receipt
  | Finished
  | Error string
  | ShareError share_error

record pull_manifest_receipt =
  pm_record :: sync_record
  pm_manifest :: file_manifest
  pm_transferred_bytes :: u64
  pm_reused_extents :: nat

record chunk_header =
  ch_hash :: hash32
  ch_length :: u32

datatype wire_frame =
    Request sync_wire_request
  | Response sync_wire_response
  | Chunk chunk_header
  | Payload "u8 list"
  | HelloBytes "u8 list"
  | ShareReply share_reply

datatype wire_event = Opened | Sent wire_frame | Received wire_frame

type_synonym wire_log = "wire_event list"

record wire_peer =
  wp_next :: "wire_log \<Rightarrow> wire_frame option"
  wp_encoded :: "wire_frame \<Rightarrow> nat"

section \<open>Errors\<close>

datatype sync_error =
    InStore store_error | InIndex index_error | InShare share_error | InReconcile reconcile_error
  | InRecord sync_record_error | InManifest manifest_error | InCdc cdc_error | InPath wire_path_error
  | ConnectionLost | Rejected string | LocalStorage sync_error

section \<open>Frames\<close>

type_synonym 'a wprog = "(wire_log, sync_error, 'a) prog"

definition open_connection :: "unit wprog" where
  "open_connection log = (Done (), log @ [Opened])"

text \<open>A hello is sent as the bytes of its encoding; a payload is no control frame.\<close>

definition MAX_CONTROL_FRAME :: nat where "MAX_CONTROL_FRAME = 16 * 1024 * 1024"

definition control_length :: "wire_peer \<Rightarrow> wire_frame \<Rightarrow> nat" where
  "control_length peer f = (case f of Payload bytes \<Rightarrow> 0 | HelloBytes bytes \<Rightarrow> length bytes | _ \<Rightarrow> wp_encoded peer f)"

definition fits_control :: "wire_peer \<Rightarrow> wire_frame \<Rightarrow> bool" where
  "fits_control peer f \<longleftrightarrow> control_length peer f \<le> MAX_CONTROL_FRAME"

definition write_frame :: "wire_peer \<Rightarrow> wire_frame \<Rightarrow> unit wprog" where
  "write_frame peer f log = (if fits_control peer f then (Done (), log @ [Sent f])
     else (Failed (Rejected ''control frame exceeds its limit''), log))"

definition write_payload :: "u8 list \<Rightarrow> unit wprog" where
  "write_payload bytes log = (Done (), log @ [Sent (Payload bytes)])"

text \<open>Deserialising a \<open>WirePath\<close> validates it, so a frame with an invalid path does not decode.\<close>

definition path_decodes :: "wire_path \<Rightarrow> bool" where
  "path_decodes p = (case wire_path_new p of Inl _ \<Rightarrow> False | Inr _ \<Rightarrow> True)"

fun request_decodes :: "sync_wire_request \<Rightarrow> bool" where
  "request_decodes (PullRecord r) = path_decodes (sr_path r)"
| "request_decodes (PushRecord r m) = path_decodes (sr_path r)"
| "request_decodes (ApplyMetadata r) = path_decodes (sr_path r)"
| "request_decodes _ = True"

fun response_decodes :: "sync_wire_response \<Rightarrow> bool" where
  "response_decodes (Node (Some summary)) = (case ns_record summary of None \<Rightarrow> True | Some r \<Rightarrow> path_decodes (sr_path r))"
| "response_decodes (PullManifest r m) = path_decodes (sr_path r)"
| "response_decodes (Applied receipt) = path_decodes (ar_path receipt)"
| "response_decodes _ = True"

definition frame_decodes :: "wire_frame \<Rightarrow> bool" where
  "frame_decodes f = (case f of Request r \<Rightarrow> request_decodes r | Response r \<Rightarrow> response_decodes r | _ \<Rightarrow> True)"

text \<open>What the peer sends next; a control frame is read when its length is allowed and it decodes.\<close>

definition next_frame :: "wire_peer \<Rightarrow> wire_frame wprog" where
  "next_frame peer log = (case wp_next peer log of
     None \<Rightarrow> (Failed ConnectionLost, log) | Some f \<Rightarrow> (Done f, log @ [Received f]))"

definition read_frame :: "wire_peer \<Rightarrow> wire_frame wprog" where
  "read_frame peer =
     and_do (next_frame peer) (\<lambda>f.
     and_do (require (fits_control peer f) (Rejected ''remote control frame exceeds its limit'')) (\<lambda>_.
     and_do (require (frame_decodes f) (Rejected ''malformed control frame'')) (\<lambda>_. ret f)))"

lemma path_decodes_iff: "path_decodes p \<longleftrightarrow> path_ok p"
  by (auto simp: path_decodes_def wire_path_new_def path_ok_def and_then_def split: sum.split)

text \<open>A frame that does not decode as the expected message is an error of the reader.\<close>

definition read_response :: "wire_peer \<Rightarrow> sync_wire_response wprog" where
  "read_response peer = and_do (read_frame peer) (\<lambda>f. case f of
     Response r \<Rightarrow> ret r | _ \<Rightarrow> fail (Rejected ''frame does not decode''))"

definition read_request :: "wire_peer \<Rightarrow> sync_wire_request wprog" where
  "read_request peer = and_do (read_frame peer) (\<lambda>f. case f of
     Request r \<Rightarrow> ret r | _ \<Rightarrow> fail (Rejected ''frame does not decode''))"

definition read_chunk_header :: "wire_peer \<Rightarrow> chunk_header wprog" where
  "read_chunk_header peer = and_do (read_frame peer) (\<lambda>f. case f of
     Chunk h \<Rightarrow> ret h | _ \<Rightarrow> fail (Rejected ''frame does not decode''))"

definition read_exact :: "wire_peer \<Rightarrow> nat \<Rightarrow> u8 list wprog" where
  "read_exact peer n = and_do (next_frame peer) (\<lambda>f. case f of
     Payload bytes \<Rightarrow> if length bytes = n then ret bytes else fail ConnectionLost | _ \<Rightarrow> fail ConnectionLost)"

definition read_sync_response :: "wire_peer \<Rightarrow> sync_wire_response wprog" where
  "read_sync_response peer = and_do (read_response peer) (\<lambda>r. case r of
     ShareError e \<Rightarrow> fail (InShare e) | _ \<Rightarrow> ret r)"

end
