(* ===== verification/Path_Journal.thy ===== *)
theory Path_Journal
  imports Chunk_Store
begin

text \<open>
  The journal of path changes (\<^verbatim>\<open>crates/deltaweave-store/src/preservation.rs\<close>): one attempt replaces
  the object at a path by a verified target. It is prepared in a private vault, captures the expected
  object by a rename, installs the target without replacing anything, and is resumed or rolled back
  after an interruption. An operation that takes \<open>&mut PathChange\<close> returns the updated change.
\<close>

section \<open>The vault\<close>

definition path_text :: "fs_path \<Rightarrow> string" where
  "path_text p = ''/'' @ join_with ''/'' p"

text \<open>\<open>Path::with_extension\<close> on the last component: the text after its last dot is replaced.\<close>

definition file_stem :: "string \<Rightarrow> string" where
  "file_stem name = (let before = rev (drop 1 (dropWhile (\<lambda>c. c \<noteq> CHR ''.'') (rev name)))
     in if before = [] then name else before)"

definition with_extension :: "fs_path \<Rightarrow> string \<Rightarrow> fs_path" where
  "with_extension p ext = butlast p @ [file_stem (last p) @ ''.'' @ ext]"

definition validate_real_directory :: "fs_path \<Rightarrow> unit sprog" where
  "validate_real_directory p = and_do (query (\<lambda>fs. Inr (real_path fs p))) (\<lambda>ok.
     require ok (Refused ''recovery path contains a symlink or non-directory''))"

definition same_volume_at :: "fs_path \<Rightarrow> fs_path \<Rightarrow> fs_node \<Rightarrow> store_error + bool" where
  "same_volume_at l r fs = and_then (io (fs_metadata fs l)) (\<lambda>m. and_then (io (fs_metadata fs r)) (\<lambda>n.
     and_then (ok_or (nm_identity (node_meta m)) (Refused ''filesystem identity unavailable'')) (\<lambda>i.
     and_then (ok_or (nm_identity (node_meta n)) (Refused ''filesystem identity unavailable'')) (\<lambda>j. Inr (fst i = fst j)))))"

definition same_volume :: "fs_path \<Rightarrow> fs_path \<Rightarrow> bool sprog" where
  "same_volume l r = query (same_volume_at l r)"

definition reserve_recovery :: "store_env \<Rightarrow> fs_path \<Rightarrow> fs_path sprog" where
  "reserve_recovery S candidate = (case sv_reserver S of
     None \<Rightarrow> fail (Refused ''private same-volume recovery requires host namespace admission'')
   | Some reserve \<Rightarrow> and_do tick (\<lambda>_ w. case reserve candidate (w_clock w) (w_fs w) of
       Inl e \<Rightarrow> (Failed e, w)
     | Inr (fs, reserved) \<Rightarrow> (Done reserved, w\<lparr>w_fs := fs, w_clock := Suc (w_clock w)\<rparr>)))"

definition external_vault :: "store_env \<Rightarrow> fs_path \<Rightarrow> fs_path sprog" where
  "external_vault S root =
     and_do (require (root \<noteq> []) (Refused ''no private same-volume recovery placement'')) (\<lambda>_.
     let parent = butlast root;
         candidate = parent @ [''.deltaweave-'' @ to_hex (sv_externs S) (digest (sv_externs S) (str_bytes (path_text root))) @ ''.recovery'']
     in and_do (validate_real_directory parent) (\<lambda>_.
        and_do (query (\<lambda>fs. case fs_stat fs candidate of
            Inr n \<Rightarrow> ensure (is_dir_node n) (Refused ''recovery vault is not a real directory'')
          | Inl e \<Rightarrow> if e = IoNotFound then Inr () else Inl (IoFailure e))) (\<lambda>_.
        and_do (reserve_recovery S candidate) (\<lambda>reserved.
        and_do (validate_real_directory candidate) (\<lambda>_.
        and_do (query (\<lambda>fs. io (fs_canonicalize fs candidate))) (\<lambda>canonical.
        and_do (require (canonical = reserved) (Refused ''recovery reservation changed destination'')) (\<lambda>_.
          ret reserved)))))))"

definition select_vault :: "store_env \<Rightarrow> fs_path \<Rightarrow> fs_path \<Rightarrow> fs_path sprog" where
  "select_vault S root destination_parent =
     and_do (validate_real_directory (trash_dir S)) (\<lambda>_.
     and_do (same_volume destination_parent (trash_dir S)) (\<lambda>same.
     and_do (if same then ret (trash_dir S) else external_vault S root) (\<lambda>candidate.
     and_do (validate_real_directory candidate) (\<lambda>_.
     and_do (query (\<lambda>fs. io (fs_canonicalize fs candidate))) (\<lambda>vault.
     and_do (require (\<not> prefix root vault \<and> \<not> prefix vault root) (Refused ''recovery vault overlaps shared namespace'')) (\<lambda>_.
     and_do (same_volume destination_parent vault) (\<lambda>same.
     and_do (require same (Refused ''no private same-volume recovery placement'')) (\<lambda>_. ret vault))))))))"

definition vault :: "store_env \<Rightarrow> fs_path \<Rightarrow> fs_path \<Rightarrow> fs_path sprog" where
  "vault S root destination_parent =
     catch (select_vault S root destination_parent) (\<lambda>_. fail (Preservation RecoveryUnavailable))"

section \<open>Checks on a journal entry\<close>

text \<open>The nearest existing directory above the destination.\<close>

fun nearest_directory :: "fs_node \<Rightarrow> fs_path \<Rightarrow> nat \<Rightarrow> fs_path option" where
  "nearest_directory fs p 0 = (if fs_is_dir fs [] then Some [] else None)"
| "nearest_directory fs p (Suc k) = (if fs_is_dir fs (take (Suc k) p) then Some (take (Suc k) p) else nearest_directory fs p k)"

definition is_ascii_alphanumeric :: "char \<Rightarrow> bool" where
  "is_ascii_alphanumeric ch = list_ex (\<lambda>(low, high). low \<le> byte_of ch \<and> byte_of ch \<le> high) [(48, 57), (65, 90), (97, 122)]"

definition valid_id :: "string \<Rightarrow> bool" where
  "valid_id s \<longleftrightarrow> s \<noteq> [] \<and> list_all (\<lambda>ch. is_ascii_alphanumeric ch \<or> ch = CHR ''-'') s"

definition destination_of :: "path_change \<Rightarrow> fs_path" where
  "destination_of c = pc_root c @ components (pc_path c)"

definition artifact_recorded :: "path_change_state \<Rightarrow> bool" where
  "artifact_recorded s \<longleftrightarrow> s = Preserved \<or> s = Materialized \<or> s = Indexed \<or> s = Committed"

text \<open>The object at a path carries the identity that was expected.\<close>

definition identity_check :: "fs_path \<Rightarrow> path_observation \<Rightarrow> unit sprog" where
  "identity_check p expected = query (\<lambda>fs. case fs_stat fs p of
     Inr n \<Rightarrow> ensure (nm_identity (node_meta n) = po_identity expected) (Preservation RecoveryStateUnavailable)
   | Inl e \<Rightarrow> Inl (Preservation RecoveryStateUnavailable))"

definition validate_change :: "store_env \<Rightarrow> path_change \<Rightarrow> unit sprog" where
  "validate_change S c =
     and_do (require (pc_version c = 1 \<and> valid_id (pc_id c)) (Refused ''invalid path-change binding'')) (\<lambda>_.
     and_do (query (\<lambda>fs. ok_or (nearest_directory fs (butlast (destination_of c)) (length (butlast (destination_of c))))
                                (Refused ''recovery root missing''))) (\<lambda>parent.
     and_do (vault S (pc_root c) parent) (\<lambda>v.
     and_do (require (v = pc_vault c \<and> pc_artifact c = v @ [pc_id c] @ components (pc_path c) \<and>
               pc_staging c = with_extension (v @ [pc_id c]) ''incoming'' \<and>
               pc_rollback_artifact c = with_extension (v @ [pc_id c]) ''rollback'')
               (Refused ''invalid recovery journal paths'')) (\<lambda>_.
     and_do (validate_real_directory (butlast (pc_artifact c))) (\<lambda>_.
     and_do (validate_real_directory (butlast (pc_staging c))) (\<lambda>_.
       case pc_expected c of None \<Rightarrow> ret ()
       | Some expected \<Rightarrow>
           if \<not> pc_metadata_only c \<and> artifact_recorded (pc_state c) then identity_check (pc_artifact c) expected
           else ret ()))))))"

section \<open>Preparing\<close>

text \<open>Allocation of the attempt's own directory: the sequence number grows until the name is free.\<close>

definition attempt_name :: "store_env \<Rightarrow> fs_path \<Rightarrow> nat \<Rightarrow> string" where
  "attempt_name S root sequence =
     ''change-'' @ to_hex (sv_externs S) (digest (sv_externs S) (str_bytes (path_text root))) @ ''-'' @
     decimal (sv_pid S) @ ''-'' @ decimal sequence"

fun allocate_directory :: "nat \<Rightarrow> store_env \<Rightarrow> fs_path \<Rightarrow> fs_path \<Rightarrow> string sprog" where
  "allocate_directory 0 S v root = fail (Refused ''attempts exhausted'')"
| "allocate_directory (Suc fuel) S v root = and_do fetch_sequence (\<lambda>sequence.
     let name = attempt_name S root sequence in
     catch (and_do (create_dir S (v @ [name])) (\<lambda>_. ret name)) (\<lambda>e.
       if e = IoFailure IoAlreadyExists then allocate_directory fuel S v root else fail e))"

definition vault_entries :: "fs_node \<Rightarrow> fs_path \<Rightarrow> nat" where
  "vault_entries fs v = (case fs_lookup fs v of Some (DirNode _ ch) \<Rightarrow> fcard (fmdom ch) | _ \<Rightarrow> 0)"

text \<open>Every occupied name was tried once after as many attempts as the vault has entries.\<close>

definition allocate_attempt :: "store_env \<Rightarrow> fs_path \<Rightarrow> fs_path \<Rightarrow> string sprog" where
  "allocate_attempt S v root w = allocate_directory (Suc (vault_entries (w_fs w) v)) S v root w"

definition new_change :: "fs_path \<Rightarrow> fs_path \<Rightarrow> string \<Rightarrow> wire_path \<Rightarrow> path_target \<Rightarrow> path_observation option \<Rightarrow> bool \<Rightarrow> path_change" where
  "new_change root v name path target expected preserve_tree =
     \<lparr>pc_version = 1, pc_id = name, pc_root = root, pc_path = path, pc_vault = v,
      pc_artifact = v @ [name] @ components path, pc_staging = with_extension (v @ [name]) ''incoming'',
      pc_expected = expected, pc_target = target, pc_state = Prepared, pc_preserve_tree = preserve_tree,
      pc_causal = None, pc_metadata_only = False, pc_rollback_artifact = with_extension (v @ [name]) ''rollback''\<rparr>"

fun stage_chunks :: "store_env \<Rightarrow> chunk_descriptor list \<Rightarrow> u8 list \<Rightarrow> u8 list sprog" where
  "stage_chunks S [] hashed = ret hashed"
| "stage_chunks S (chunk # chunks) hashed =
     and_do (read_verified S (cd_hash chunk)) (\<lambda>bytes.
     and_do (require (length bytes = unat (cd_length chunk)) (Refused ''cached extent has incorrect length'')) (\<lambda>_.
     and_do (write_all S bytes) (\<lambda>_. stage_chunks S chunks (hashed @ bytes))))"

definition stage_file :: "store_env \<Rightarrow> fs_path \<Rightarrow> file_manifest \<Rightarrow> unit sprog" where
  "stage_file S staging manifest =
     and_do (lift_res (map_err BadManifest (manifest_validate (sv_externs S) manifest))) (\<lambda>_.
     and_do (open_new_file S staging) (\<lambda>_.
     and_do (stage_chunks S (fm_chunks manifest) []) (\<lambda>hashed.
     and_do (require (digest (sv_externs S) hashed = fm_file_hash manifest) (Refused ''materialized file hash mismatch'')) (\<lambda>_.
     and_do sync_and_close (\<lambda>_. sync_directory (butlast staging))))))"

definition directory_not_empty :: "fs_path \<Rightarrow> fs_node \<Rightarrow> store_error + bool" where
  "directory_not_empty p fs = and_then (io (fs_metadata fs p)) (\<lambda>n. case n of
     DirNode _ ch \<Rightarrow> Inr (ch \<noteq> fmempty) | _ \<Rightarrow> Inl (IoFailure IoNotADirectory))"

definition refuse_full_directory :: "path_observation option \<Rightarrow> bool \<Rightarrow> fs_path \<Rightarrow> unit sprog" where
  "refuse_full_directory expected preserve_tree destination = (case expected of
     Some ob \<Rightarrow> if \<not> preserve_tree \<and> po_kind ob = 1 then
         and_do (query (directory_not_empty destination)) (\<lambda>full. require (\<not> full) (IoFailure IoDirectoryNotEmpty))
       else ret ()
   | None \<Rightarrow> ret ())"

definition prepare_path_change :: "store_env \<Rightarrow> fs_path \<Rightarrow> wire_path \<Rightarrow> path_target \<Rightarrow> path_observation option \<Rightarrow> bool \<Rightarrow>
    path_change sprog" where
  "prepare_path_change S root_arg path target expected preserve_tree =
     and_do (query (\<lambda>fs. io (fs_canonicalize fs root_arg))) (\<lambda>root.
     and_do (checked_destination root path) (\<lambda>destination.
     and_do (observe_at S destination) (\<lambda>seen.
     and_do (require (seen = expected) (Preservation LocalChanged)) (\<lambda>_.
     and_do (refuse_full_directory expected preserve_tree destination) (\<lambda>_.
     and_do (create_dir_all S (butlast destination)) (\<lambda>_.
     and_do (checked_destination root path) (\<lambda>_.
     and_do (vault S root (butlast destination)) (\<lambda>v.
     and_do (allocate_attempt S v root) (\<lambda>name.
     let c = new_change root v name path target expected preserve_tree in
     and_do (create_dir_all S (butlast (pc_artifact c))) (\<lambda>_.
     and_do (sync_directory (v @ [name])) (\<lambda>_.
     and_do (sync_directory v) (\<lambda>_.
     and_do (put_change c) (\<lambda>_.
     and_do (case target of FileTarget manifest \<Rightarrow> stage_file S (pc_staging c) manifest | _ \<Rightarrow> ret ()) (\<lambda>_.
       ret c))))))))))))))"

section \<open>Capturing and installing\<close>

definition abort_path_change :: "store_env \<Rightarrow> path_change \<Rightarrow> path_change sprog" where
  "abort_path_change S c =
     and_do (validate_change S c) (\<lambda>_.
     and_do (checked_destination (pc_root c) (pc_path c)) (\<lambda>destination.
     and_do (stat_is_ok (pc_artifact c)) (\<lambda>held.
     and_do (if held then
               and_do (attempt (rename_noreplace S (pc_artifact c) destination)) (\<lambda>_.
               and_do (sync_directory (butlast destination)) (\<lambda>_. sync_directory (butlast (pc_artifact c))))
             else ret ()) (\<lambda>_.
     let c' = c\<lparr>pc_state := Aborted\<rparr> in
     and_do (put_change c') (\<lambda>_. ret c')))))"

definition sync_preserved_file :: "fs_path \<Rightarrow> unit sprog" where
  "sync_preserved_file p = query (\<lambda>fs. and_then (io (fs_open_nofollow p fs)) (\<lambda>_. Inr ()))"

definition observed_kind :: "path_observation option \<Rightarrow> u8 option" where
  "observed_kind ob = map_option po_kind ob"

text \<open>Staging must be a regular file with the manifest's content.\<close>

definition staged_file_ok :: "store_env \<Rightarrow> path_change \<Rightarrow> file_manifest \<Rightarrow> bool sprog" where
  "staged_file_ok S c manifest = and_do (observe_at S (pc_staging c)) (\<lambda>ob.
     if observed_kind ob = Some 0 then file_matches_manifest S (pc_staging c) manifest else ret False)"

definition capture_object :: "store_env \<Rightarrow> path_change \<Rightarrow> fs_path \<Rightarrow> unit sprog" where
  "capture_object S c destination =
     and_do (capture_into_vault S destination (pc_artifact c)) (\<lambda>_.
     and_do (sync_directory (butlast destination)) (\<lambda>_.
     and_do (sync_directory (butlast (pc_artifact c))) (\<lambda>_.
     and_do (if observed_kind (pc_expected c) = Some 0 then sync_preserved_file (pc_artifact c) else ret ()) (\<lambda>_.
     and_do (observe_at S (pc_artifact c)) (\<lambda>ob.
       if ob \<noteq> pc_expected c
       then and_do (abort_path_change S c) (\<lambda>_. fail (Refused ''captured local state changed; retry reconciliation''))
       else ret ())))))"

definition capture_path_change :: "store_env \<Rightarrow> path_change \<Rightarrow> path_change sprog" where
  "capture_path_change S c =
     and_do (validate_change S c) (\<lambda>_.
     and_do (require (pc_state c = Prepared) (Refused ''path change is not prepared'')) (\<lambda>_.
     and_do (checked_destination (pc_root c) (pc_path c)) (\<lambda>destination.
     and_do (observe_at S destination) (\<lambda>seen.
     and_do (require (seen = pc_expected c) (Preservation LocalChanged)) (\<lambda>_.
     and_do (case pc_target c of FileTarget manifest \<Rightarrow>
               and_do (staged_file_ok S c manifest) (\<lambda>ok. require ok (Refused ''incoming staging changed before capture''))
             | _ \<Rightarrow> ret ()) (\<lambda>_.
     and_do (if pc_expected c \<noteq> None \<and> \<not> pc_metadata_only c then capture_object S c destination else ret ()) (\<lambda>_.
     let c' = c\<lparr>pc_state := Preserved\<rparr> in
     and_do (put_change c') (\<lambda>_. ret c'))))))))"

definition install_file :: "store_env \<Rightarrow> path_change \<Rightarrow> file_manifest \<Rightarrow> fs_path \<Rightarrow> unit sprog" where
  "install_file S c manifest destination =
     and_do (observe_at S (pc_staging c)) (\<lambda>ob.
     and_do (require (case ob of None \<Rightarrow> False | Some seen \<Rightarrow> po_kind seen = 0 \<and> po_hash seen = fm_file_hash manifest)
               (Refused ''incoming staging changed'')) (\<lambda>_.
     and_do (file_matches_manifest S (pc_staging c) manifest) (\<lambda>ok.
     and_do (require ok (Refused ''incoming staging changed'')) (\<lambda>_.
     and_do (rename_noreplace S (pc_staging c) destination) (\<lambda>_.
       put_manifest S (pc_path c) manifest)))))"

definition install_target :: "store_env \<Rightarrow> path_change \<Rightarrow> fs_path \<Rightarrow> unit sprog" where
  "install_target S c destination =
     and_do (case pc_target c of
         FileTarget manifest \<Rightarrow> install_file S c manifest destination
       | DirectoryTarget \<Rightarrow>
           if pc_metadata_only c then
             and_do (observe_at S destination) (\<lambda>seen. require (seen = pc_expected c) (Preservation LocalChanged))
           else create_dir S destination
       | AbsentTarget \<Rightarrow>
           and_do (stat_not_found destination) (\<lambda>gone. require gone (Refused ''local object recreated after capture''))) (\<lambda>_.
     sync_directory (butlast destination))"

definition materialize_path_change :: "store_env \<Rightarrow> path_change \<Rightarrow> path_change sprog" where
  "materialize_path_change S c =
     and_do (validate_change S c) (\<lambda>_.
     and_do (require (pc_state c = Preserved) (Refused ''path change has not captured its precondition'')) (\<lambda>_.
     and_do (checked_destination (pc_root c) (pc_path c)) (\<lambda>destination.
     and_do (if pc_expected c \<noteq> None \<and> \<not> pc_metadata_only c then
               and_do (observe_at S (pc_artifact c)) (\<lambda>ob.
                 if ob \<noteq> pc_expected c
                 then and_do (abort_path_change S c) (\<lambda>_. fail (Refused ''preserved local object changed before installation''))
                 else ret ())
             else ret ()) (\<lambda>_.
     and_do (on_failure (install_target S c destination) (abort_path_change S c)) (\<lambda>_.
     let c' = c\<lparr>pc_state := Materialized\<rparr> in
     and_do (put_change c') (\<lambda>_. ret c'))))))"

section \<open>Causal changes\<close>

definition read_observation :: "store_env \<Rightarrow> fs_path \<Rightarrow> wire_path \<Rightarrow> path_observation option sprog" where
  "read_observation S root path = and_do (checked_destination root path) (observe_at S)"

definition precondition_holds :: "path_observation option \<Rightarrow> sync_record option \<Rightarrow> bool" where
  "precondition_holds expected precondition = (case (expected, precondition) of
     (None, None) \<Rightarrow> True
   | (None, Some previous) \<Rightarrow> sr_tombstone previous
   | (Some ob, Some previous) \<Rightarrow> matches_record ob previous
   | (Some ob, None) \<Rightarrow> False)"

definition causal_target :: "sync_record \<Rightarrow> file_manifest option \<Rightarrow> store_error + path_target" where
  "causal_target r manifest =
     (if sr_tombstone r then Inr AbsentTarget
      else if sr_kind r = Directory then Inr DirectoryTarget
      else and_then (ok_or manifest (Refused ''causal file has no manifest'')) (\<lambda>m.
        and_then (ensure (sr_kind r = File \<and> sr_content_hash r = Some (fm_file_hash m) \<and> sr_size r = fm_size m)
                    (Refused ''manifest differs from causal target'')) (\<lambda>_. Inr (FileTarget m))))"

definition apply_causal_record :: "store_env \<Rightarrow> fs_path \<Rightarrow> causal_binding \<Rightarrow> file_manifest option \<Rightarrow> path_change sprog" where
  "apply_causal_record S root binding manifest = (let r = cb_record binding in
     and_do (lift_res (map_err BadRecord (record_validate r))) (\<lambda>_.
     and_do (require (case cb_authorization binding of None \<Rightarrow> True | Some bytes \<Rightarrow> length bytes \<le> 2 * 1024 * 1024)
               (Refused ''authorization recovery context exceeds limit'')) (\<lambda>_.
     and_do (read_observation S root (sr_path r)) (\<lambda>expected.
     and_do (require (precondition_holds expected (cb_precondition binding)) (Preservation LocalChanged)) (\<lambda>_.
     let metadata_only = \<not> sr_tombstone r \<and> sr_kind r = Directory \<and> observed_kind expected = Some 1 in
     and_do (lift_res (causal_target r manifest)) (\<lambda>target.
     and_do (prepare_path_change S root (sr_path r) target expected metadata_only) (\<lambda>prepared.
     let c = prepared\<lparr>pc_causal := Some binding, pc_metadata_only := metadata_only\<rparr> in
     and_do (put_change c) (\<lambda>_.
     and_do (capture_path_change S c) (materialize_path_change S)))))))))"

definition observe_path_change :: "store_env \<Rightarrow> path_change \<Rightarrow> materialization_observation sprog" where
  "observe_path_change S c = and_do (validate_change S c) (\<lambda>_.
     case pc_target c of
       FileTarget manifest \<Rightarrow>
         and_do (checked_destination (pc_root c) (pc_path c)) (\<lambda>destination.
         and_do (file_matches_manifest S destination manifest) (\<lambda>ok.
         and_do (require ok (Preservation LocalChanged)) (\<lambda>_.
           materialization_observation_of destination (fm_file_hash manifest))))
     | _ \<Rightarrow> fail (Refused ''path change is not a file''))"

definition set_readonly :: "store_env \<Rightarrow> fs_path \<Rightarrow> wire_path \<Rightarrow> bool \<Rightarrow> unit sprog" where
  "set_readonly S root path readonly = and_do (checked_destination root path) (\<lambda>destination. apply_readonly S destination readonly)"

section \<open>Completing\<close>

definition path_changes :: "path_change list sprog" where
  "path_changes = read_db (\<lambda>w. map_values (w_journal w))"

definition mark_path_change_indexed :: "store_env \<Rightarrow> string \<Rightarrow> unit sprog" where
  "mark_path_change_indexed S ident = and_do path_changes (\<lambda>changes.
     case find (\<lambda>c. pc_id c = ident) changes of
       None \<Rightarrow> fail (Refused ''unknown path change'')
     | Some c \<Rightarrow>
         and_do (validate_change S c) (\<lambda>_.
         and_do (require (pc_state c = Materialized \<or> pc_state c = Indexed \<or> pc_state c = Committed)
                   (Refused ''path change not materialized'')) (\<lambda>_.
         and_do (put_change (c\<lparr>pc_state := Indexed\<rparr>)) (\<lambda>_.
           put_change (c\<lparr>pc_state := Committed\<rparr>)))))"

definition target_matches_record :: "path_target \<Rightarrow> sync_record \<Rightarrow> bool" where
  "target_matches_record target r = (case target of
     FileTarget m \<Rightarrow> \<not> sr_tombstone r \<and> sr_kind r = File \<and> sr_content_hash r = Some (fm_file_hash m) \<and> sr_size r = fm_size m
   | DirectoryTarget \<Rightarrow> \<not> sr_tombstone r \<and> sr_kind r = Directory
   | AbsentTarget \<Rightarrow> sr_tombstone r)"

definition completes :: "fs_path \<Rightarrow> sync_record \<Rightarrow> path_change \<Rightarrow> bool" where
  "completes root r c \<longleftrightarrow> pc_root c = root \<and> pc_path c = sr_path r \<and> pc_state c = Materialized \<and>
     target_matches_record (pc_target c) r \<and> (case pc_causal c of None \<Rightarrow> True | Some binding \<Rightarrow> cb_record binding = r)"

definition mark_record_indexed :: "store_env \<Rightarrow> fs_path \<Rightarrow> sync_record \<Rightarrow> unit sprog" where
  "mark_record_indexed S root r = and_do path_changes (\<lambda>changes.
     for_each (\<lambda>c. if completes root r c then mark_path_change_indexed S (pc_id c) else ret ()) changes)"

section \<open>Recovering\<close>

definition target_installed :: "store_env \<Rightarrow> path_target \<Rightarrow> fs_path \<Rightarrow> bool sprog" where
  "target_installed S target destination = (case target of
     FileTarget manifest \<Rightarrow>
       and_do (query (\<lambda>fs. Inr (case fs_stat fs destination of Inr n \<Rightarrow> is_file_node n | Inl _ \<Rightarrow> False))) (\<lambda>regular.
         if regular then file_matches_manifest S destination manifest else ret False)
   | DirectoryTarget \<Rightarrow> query (\<lambda>fs. Inr (case fs_stat fs destination of Inr n \<Rightarrow> is_dir_node n | Inl _ \<Rightarrow> False))
   | AbsentTarget \<Rightarrow> stat_not_found destination)"

definition resume_prepared :: "store_env \<Rightarrow> path_change \<Rightarrow> path_change sprog" where
  "resume_prepared S c = and_do (stat_is_ok (pc_artifact c)) (\<lambda>held.
     if held then
       and_do (observe_at S (pc_artifact c)) (\<lambda>ob.
       and_do (require (ob = pc_expected c) (Refused ''captured recovery object changed'')) (\<lambda>_.
       and_do (if observed_kind (pc_expected c) = Some 0 then sync_preserved_file (pc_artifact c) else ret ()) (\<lambda>_.
       let c' = c\<lparr>pc_state := Preserved\<rparr> in
       and_do (put_change c') (\<lambda>_. ret c'))))
     else case pc_target c of
         FileTarget _ \<Rightarrow> and_do (path_exists (pc_staging c)) (\<lambda>staged.
           if \<not> staged then abort_path_change S c else capture_path_change S c)
       | _ \<Rightarrow> capture_path_change S c)"

definition resume_preserved :: "store_env \<Rightarrow> path_change \<Rightarrow> path_change sprog" where
  "resume_preserved S c = and_do (checked_destination (pc_root c) (pc_path c)) (\<lambda>destination.
     and_do (target_installed S (pc_target c) destination) (\<lambda>installed.
       if installed then
         and_do (if pc_metadata_only c \<or> pc_expected c = None then ret True else stat_is_ok (pc_artifact c)) (\<lambda>ok.
         and_do (require ok (Preservation RecoveryStateUnavailable)) (\<lambda>_.
         let c' = c\<lparr>pc_state := Materialized\<rparr> in
         and_do (put_change c') (\<lambda>_. ret c')))
       else materialize_path_change S c))"

definition resume_path_change :: "store_env \<Rightarrow> path_change \<Rightarrow> path_change sprog" where
  "resume_path_change S c =
     and_do (validate_change S c) (\<lambda>_.
     and_do (if pc_state c = Prepared then resume_prepared S c else ret c) (\<lambda>c'.
       if pc_state c' = Preserved then resume_preserved S c' else ret c'))"

definition target_matches_observation :: "path_target \<Rightarrow> path_observation \<Rightarrow> bool" where
  "target_matches_observation target ob = (case target of
     FileTarget m \<Rightarrow> po_kind ob = 0 \<and> po_size ob = fm_size m \<and> po_hash ob = fm_file_hash m
   | DirectoryTarget \<Rightarrow> po_kind ob = 1
   | AbsentTarget \<Rightarrow> False)"

definition finish_rollback :: "path_change \<Rightarrow> path_change sprog" where
  "finish_rollback c = (let c' = c\<lparr>pc_state := RolledBack\<rparr> in and_do (put_change c') (\<lambda>_. ret c'))"

definition rollback_metadata :: "store_env \<Rightarrow> path_change \<Rightarrow> fs_path \<Rightarrow> path_observation option \<Rightarrow> path_change sprog" where
  "rollback_metadata S c destination current = (case (current, pc_expected c) of
     (Some ob, Some expected) \<Rightarrow>
       and_do (require (ob\<lparr>po_readonly := po_readonly expected\<rparr> = expected) (Preservation LocalChanged)) (\<lambda>_.
       and_do (apply_readonly S destination (po_readonly expected)) (\<lambda>_. finish_rollback c))
   | _ \<Rightarrow> fail (Preservation RecoveryStateUnavailable))"

text \<open>The incoming object moves to the rollback artifact, the captured one back to the destination.\<close>

definition restore_captured :: "store_env \<Rightarrow> path_change \<Rightarrow> fs_path \<Rightarrow> path_observation option \<Rightarrow> path_change sprog" where
  "restore_captured S c destination current =
     (let c' = c\<lparr>pc_state := RollingBack\<rparr> in
      and_do (put_change c') (\<lambda>_.
      and_do (if current \<noteq> None then
                and_do (capture_into_vault S destination (pc_rollback_artifact c)) (\<lambda>_.
                and_do (sync_directory (butlast destination)) (\<lambda>_.
                and_do (sync_directory (butlast (pc_rollback_artifact c))) (\<lambda>_.
                and_do (observe_at S (pc_rollback_artifact c)) (\<lambda>ob.
                  require (ob = current) (Preservation LocalChanged)))))
              else ret ()) (\<lambda>_.
      and_do (if pc_expected c \<noteq> None then
                and_do (catch (rename_noreplace S (pc_artifact c) destination) (\<lambda>_. fail (Preservation LocalChanged))) (\<lambda>_.
                and_do (sync_directory (butlast destination)) (\<lambda>_.
                  sync_directory (butlast (pc_artifact c))))
              else ret ()) (\<lambda>_.
        finish_rollback c'))))"

definition rollback_checks :: "path_change \<Rightarrow> path_observation option \<Rightarrow> unit sprog" where
  "rollback_checks c current =
     and_do (case current of
         Some ob \<Rightarrow>
           and_do (if target_matches_observation (pc_target c) ob then stat_not_found (pc_rollback_artifact c) else ret False) (\<lambda>ok.
             require ok (Preservation LocalChanged))
       | None \<Rightarrow> require (\<not> (pc_state c = Materialized \<and> pc_target c \<noteq> AbsentTarget)) (Preservation LocalChanged)) (\<lambda>_.
     case pc_expected c of
       Some expected \<Rightarrow> identity_check (pc_artifact c) expected
     | None \<Rightarrow> ret ())"

definition same_identity :: "path_observation option \<Rightarrow> path_observation option \<Rightarrow> bool" where
  "same_identity current expected = (case (current, expected) of
     (Some ob, Some ex) \<Rightarrow> po_identity ob = po_identity ex | _ \<Rightarrow> False)"

definition rollback_causal_change :: "store_env \<Rightarrow> path_change \<Rightarrow> path_change sprog" where
  "rollback_causal_change S c =
     and_do (validate_change S c) (\<lambda>_.
     and_do (require (pc_causal c \<noteq> None) (Refused ''rollback requires a causal binding'')) (\<lambda>_.
     and_do (checked_destination (pc_root c) (pc_path c)) (\<lambda>destination.
     and_do (observe_at S destination) (\<lambda>current.
       if pc_metadata_only c then rollback_metadata S c destination current
       else
         and_do (if pc_state c = Prepared \<or> pc_state c = Aborted
                 then and_do (path_exists (pc_artifact c)) (\<lambda>held. ret (\<not> held \<and> current = pc_expected c))
                 else ret False) (\<lambda>untouched.
         if untouched then finish_rollback c
         else
           and_do (if pc_state c = RollingBack \<and> same_identity current (pc_expected c)
                   then and_do (stat_is_ok (pc_artifact c)) (\<lambda>held. ret (\<not> held)) else ret False) (\<lambda>restored.
           if restored then finish_rollback c
           else and_do (rollback_checks c current) (\<lambda>_. restore_captured S c destination current)))))))"

definition recover_change :: "store_env \<Rightarrow> path_change \<Rightarrow> unit sprog" where
  "recover_change S c = and_do (validate_change S c) (\<lambda>_.
     if (pc_state c = Prepared \<or> pc_state c = Preserved) \<and> pc_causal c = None
     then and_do (abort_path_change S c) (\<lambda>_. ret ())
     else if pc_state c = Indexed then put_change (c\<lparr>pc_state := Committed\<rparr>)
     else ret ())"

definition recover_path_changes :: "store_env \<Rightarrow> fs_path \<Rightarrow> path_change list sprog" where
  "recover_path_changes S root = and_do path_changes (\<lambda>changes.
     and_do (for_each (recover_change S) (filter (\<lambda>c. pc_root c = root) changes)) (\<lambda>_. path_changes))"

end
