(* ===== verification/Store_Ops.thy ===== *)
theory Store_Ops
  imports Path_Journal
begin

text \<open>
  The operations of \<open>Store\<close> (\<^verbatim>\<open>crates/deltaweave-store/src/lib.rs\<close>) that the transfer engine calls:
  which chunks are missing, ingesting a local file, and materialising or removing one path through the
  journal. The lock that serialises them is not modelled: one program runs at a time.
\<close>

section \<open>Ingesting\<close>

fun missing_after :: "store_env \<Rightarrow> chunk_descriptor list \<Rightarrow> hash32 list \<Rightarrow> hash32 list sprog" where
  "missing_after S [] seen = ret []"
| "missing_after S (c # cs) seen =
     (if cd_hash c \<in> set seen then missing_after S cs seen
      else and_do (catch (and_do (verify_bounded S (cd_hash c) (unat (cd_length c))) (\<lambda>_. ret False)) (\<lambda>_. ret True)) (\<lambda>absent.
        and_do (missing_after S cs (cd_hash c # seen)) (\<lambda>rest. ret (if absent then cd_hash c # rest else rest))))"

definition missing_chunks :: "store_env \<Rightarrow> file_manifest \<Rightarrow> hash32 list sprog" where
  "missing_chunks S manifest = missing_after S (fm_chunks manifest) []"

text \<open>The bytes to admit: every missing chunk once.\<close>

fun missing_bytes :: "hash32 list \<Rightarrow> chunk_descriptor list \<Rightarrow> hash32 list \<Rightarrow> u64 \<Rightarrow> store_error + u64" where
  "missing_bytes missing [] counted total_bytes = Inr total_bytes"
| "missing_bytes missing (c # cs) counted total_bytes =
     (if cd_hash c \<in> set missing \<and> cd_hash c \<notin> set counted then
        and_then (ok_or (checked_add total_bytes (ucast (cd_length c))) (Refused ''local CAS admission byte count overflow''))
          (missing_bytes missing cs (cd_hash c # counted))
      else missing_bytes missing cs counted total_bytes)"

definition source_bytes :: "fs_path \<Rightarrow> fs_node \<Rightarrow> store_error + u8 list" where
  "source_bytes p fs = and_then (io (fs_metadata fs p)) (\<lambda>n. case n of
     FileNode _ b \<Rightarrow> Inr b | DirNode _ _ \<Rightarrow> Inl (IoFailure IoIsADirectory) | _ \<Rightarrow> Inl (IoFailure IoOther))"

text \<open>The admission callback is an argument: it may refuse a number of bytes.\<close>

fun ingest_chunks :: "store_env \<Rightarrow> (u64 \<Rightarrow> unit sprog) \<Rightarrow> fs_path \<Rightarrow> chunk_descriptor list \<Rightarrow> hash32 list \<Rightarrow> unit sprog" where
  "ingest_chunks S admit source [] missing = ret ()"
| "ingest_chunks S admit source (c # cs) missing =
     and_do (query (\<lambda>fs. and_then (source_bytes source fs) (\<lambda>content.
        map_err CdcFailure (read_chunk (sv_externs S) (cursor content) c)))) (\<lambda>bytes.
     and_do (if cd_hash c \<in> set missing then admit (ucast (cd_length c)) else ret ()) (\<lambda>_.
     and_do (put_verified S (cd_hash c) bytes) (\<lambda>_.
       ingest_chunks S admit source cs (removeAll (cd_hash c) missing))))"

definition ingest_file_with_admission :: "store_env \<Rightarrow> fastcdc \<Rightarrow> fs_path \<Rightarrow> chunking_profile \<Rightarrow> (u64 \<Rightarrow> unit sprog) \<Rightarrow>
    file_manifest sprog" where
  "ingest_file_with_admission S cdc source profile admit =
     and_do (query (\<lambda>fs. and_then (source_bytes source fs) (\<lambda>content.
        map_err CdcFailure (manifest_from_path (sv_externs S) cdc (Inr content) profile)))) (\<lambda>manifest.
     and_do (missing_chunks S manifest) (\<lambda>missing.
     and_do (lift_res (missing_bytes missing (fm_chunks manifest) [] 0)) (\<lambda>bytes.
     and_do (admit bytes) (\<lambda>_.
     and_do (ingest_chunks S admit source (fm_chunks manifest) missing) (\<lambda>_. ret manifest)))))"

definition ingest_file :: "store_env \<Rightarrow> fastcdc \<Rightarrow> fs_path \<Rightarrow> chunking_profile \<Rightarrow> file_manifest sprog" where
  "ingest_file S cdc source profile = ingest_file_with_admission S cdc source profile (\<lambda>_. ret ())"

section \<open>Materialising\<close>

record materialize_outcome =
  mc_destination :: fs_path
  mc_bytes_written :: u64
  mc_replaced_existing :: bool
  mc_preserved_path :: "fs_path option"
  mc_operation_id :: "string option"
  mc_already_current :: bool
  mc_observation :: materialization_observation

fun check_cached :: "store_env \<Rightarrow> chunk_descriptor list \<Rightarrow> u8 list \<Rightarrow> u8 list sprog" where
  "check_cached S [] hashed = ret hashed"
| "check_cached S (c # cs) hashed =
     and_do (read_verified S (cd_hash c)) (\<lambda>bytes.
     and_do (require (length bytes = unat (cd_length c)) (Refused ''cached extent has incorrect length'')) (\<lambda>_.
       check_cached S cs (hashed @ bytes)))"

definition already_current :: "store_env \<Rightarrow> file_manifest \<Rightarrow> fs_path \<Rightarrow> bool sprog" where
  "already_current S manifest destination =
     and_do (query (\<lambda>fs. case fs_stat fs destination of
         Inr n \<Rightarrow> Inr (is_file_node n \<and> has_unique_file_link (node_meta n))
       | Inl e \<Rightarrow> if e = IoNotFound then Inr False else Inl (IoFailure e))) (\<lambda>candidate.
       if candidate then file_matches_manifest S destination manifest else ret False)"

definition run_change :: "store_env \<Rightarrow> fs_path \<Rightarrow> wire_path \<Rightarrow> path_target \<Rightarrow> path_change sprog" where
  "run_change S root path target =
     and_do (read_observation S root path) (\<lambda>expected.
     and_do (prepare_path_change S root path target expected False) (\<lambda>c.
     and_do (capture_path_change S c) (materialize_path_change S)))"

definition materialize :: "store_env \<Rightarrow> file_manifest \<Rightarrow> wire_path \<Rightarrow> fs_path \<Rightarrow> materialize_outcome sprog" where
  "materialize S manifest path root =
     and_do (lift_res (map_err BadManifest (manifest_validate (sv_externs S) manifest))) (\<lambda>_.
     and_do (create_dir_all S root) (\<lambda>_.
     and_do (checked_destination root path) (\<lambda>destination.
     and_do (already_current S manifest destination) (\<lambda>current.
       if current then
         and_do (put_manifest S path manifest) (\<lambda>_.
         and_do (put_operation (committed_operation (sv_externs S) path manifest)) (\<lambda>_.
         and_do (materialization_observation_of destination (fm_file_hash manifest)) (\<lambda>ob.
           ret \<lparr>mc_destination = destination, mc_bytes_written = 0, mc_replaced_existing = False, mc_preserved_path = None,
                mc_operation_id = None, mc_already_current = True, mc_observation = ob\<rparr>)))
       else
         let operation = (committed_operation (sv_externs S) path manifest)\<lparr>or_state := OperationPrepared\<rparr> in
         and_do (put_operation operation) (\<lambda>_.
         and_do (check_cached S (fm_chunks manifest) []) (\<lambda>hashed.
         and_do (require (digest (sv_externs S) hashed = fm_file_hash manifest) (Refused ''materialized file hash mismatch'')) (\<lambda>_.
         and_do (run_change S root path (FileTarget manifest)) (\<lambda>c.
         and_do (put_operation (operation\<lparr>or_state := OperationCommitted\<rparr>)) (\<lambda>_.
         and_do (materialization_observation_of destination (fm_file_hash manifest)) (\<lambda>ob.
           ret \<lparr>mc_destination = destination, mc_bytes_written = fm_size manifest, mc_replaced_existing = pc_expected c \<noteq> None,
                mc_preserved_path = (if pc_expected c = None then None else Some (pc_artifact c)),
                mc_operation_id = Some (pc_id c), mc_already_current = False, mc_observation = ob\<rparr>))))))))))"

definition materialize_directory :: "store_env \<Rightarrow> wire_path \<Rightarrow> fs_path \<Rightarrow> fs_path sprog" where
  "materialize_directory S path root =
     and_do (create_dir_all S root) (\<lambda>_.
     and_do (checked_destination root path) (\<lambda>destination.
     and_do (query (\<lambda>fs. Inr (case fs_stat fs destination of Inr n \<Rightarrow> is_dir_node n | Inl _ \<Rightarrow> False))) (\<lambda>there.
       if there then ret destination
       else and_do (run_change S root path DirectoryTarget) (\<lambda>_. ret destination))))"

record remove_outcome =
  rm_destination :: fs_path
  rm_removed :: bool
  rm_preserved_in_trash :: bool
  rm_preserved_path :: "fs_path option"

definition remove_path :: "store_env \<Rightarrow> wire_path \<Rightarrow> fs_path \<Rightarrow> remove_outcome sprog" where
  "remove_path S path root =
     and_do (create_dir_all S root) (\<lambda>_.
     and_do (checked_destination root path) (\<lambda>destination.
     and_do (query (\<lambda>fs. case fs_stat fs destination of
         Inr n \<Rightarrow> Inr True | Inl e \<Rightarrow> if e = IoNotFound then Inr False else Inl (IoFailure e))) (\<lambda>there.
       if \<not> there then
         ret \<lparr>rm_destination = destination, rm_removed = False, rm_preserved_in_trash = False, rm_preserved_path = None\<rparr>
       else and_do (run_change S root path AbsentTarget) (\<lambda>c.
         ret \<lparr>rm_destination = destination, rm_removed = True, rm_preserved_in_trash = True,
              rm_preserved_path = Some (pc_artifact c)\<rparr>))))"

end
