(* ===== verification/Index_Scan.thy ===== *)
theory Index_Scan
  imports Index "HOL-Library.AList"
begin

text \<open>
  The scan of \<^verbatim>\<open>crates/deltaweave-index/src/lib.rs\<close>: which candidates are hashed, reused or deferred
  (\<open>scan_internal\<close>), rename correlation, and \<open>apply_scan\<close>, which turns the observations into causal records,
  retries and a report and commits them in one transaction. A result of hashing is a function from the
  candidate to \<open>Ok\<close> or a failure; the database is the committed \<open>index_state\<close>.
\<close>

section \<open>Stored rows\<close>

definition valid_row :: "local_index \<Rightarrow> wire_path \<Rightarrow> path_record \<Rightarrow> bool" where
  "valid_row I key r \<longleftrightarrow> pr_schema_version r = INDEX_SCHEMA_V1 \<and> key = pr_path r \<and>
     pr_collision_key r = collision_key I (pr_path r)"

definition check_row :: "local_index \<Rightarrow> wire_path \<times> path_record \<Rightarrow> unit \<Rightarrow> index_error + unit" where
  "check_row I row _ = (case row of (key, r) \<Rightarrow>
     and_then (ensure (pr_schema_version r = INDEX_SCHEMA_V1) UnsupportedRecordSchema) (\<lambda>_.
     and_then (ensure (key = pr_path r) CorruptIndexRow) (\<lambda>_.
       ensure (pr_collision_key r = collision_key I (pr_path r)) CorruptIndexRow)))"

definition records_map :: "local_index \<Rightarrow> index_state \<Rightarrow> index_error + (wire_path, path_record) fmap" where
  "records_map I st = and_then (fold_res (check_row I) (sorted_list_of_fmap (ix_records st)) ()) (\<lambda>_. Inr (ix_records st))"

definition check_retry :: "wire_path \<times> retry_record \<Rightarrow> unit \<Rightarrow> index_error + unit" where
  "check_retry row _ = (case row of (key, retry) \<Rightarrow> ensure (key = rr_path retry) CorruptIndexRow)"

definition retries_map :: "index_state \<Rightarrow> index_error + (wire_path, retry_record) fmap" where
  "retries_map st = and_then (fold_res check_retry (sorted_list_of_fmap (ix_retries st)) ()) (\<lambda>_. Inr (ix_retries st))"

text \<open>
  One write transaction. Rows of records are inserted or replaced, never removed; retries that are not in
  the new map are removed.
\<close>

definition commit_state_with_share_metadata ::
    "(wire_path, path_record) fmap \<Rightarrow> (wire_path, retry_record) fmap \<Rightarrow> u64 \<Rightarrow> u64 \<Rightarrow> u8 list option \<Rightarrow>
     index_state \<Rightarrow> index_state" where
  "commit_state_with_share_metadata records retries generation counter share_metadata st =
     \<lparr>ix_records = ix_records st ++\<^sub>f records,
      ix_retries = fmfilter (\<lambda>key. key |\<in>| fmdom retries) (ix_retries st) ++\<^sub>f retries,
      ix_generation = generation, ix_replica_counter = counter,
      ix_share_metadata = (case share_metadata of None \<Rightarrow> ix_share_metadata st | Some metadata \<Rightarrow> Some metadata)\<rparr>"

definition commit_state ::
    "(wire_path, path_record) fmap \<Rightarrow> (wire_path, retry_record) fmap \<Rightarrow> u64 \<Rightarrow> u64 \<Rightarrow> index_state \<Rightarrow> index_state" where
  "commit_state records retries generation counter st =
     commit_state_with_share_metadata records retries generation counter None st"

section \<open>Collisions and report order\<close>

definition push_group :: "'k \<Rightarrow> 'v \<Rightarrow> ('k \<times> 'v list) list \<Rightarrow> ('k \<times> 'v list) list" where
  "push_group k v groups = AList.map_default k [v] (\<lambda>vs. vs @ [v]) groups"

definition add_collision :: "path_record \<Rightarrow> (string, wire_path list) fmap \<Rightarrow> (string, wire_path list) fmap" where
  "add_collision r groups = fmupd (pr_collision_key r) (get_or groups (pr_collision_key r) [] @ [pr_path r]) groups"

definition collision_groups :: "path_record list \<Rightarrow> collision_group list" where
  "collision_groups records =
     map (\<lambda>(key, paths). \<lparr>cg_key = key, cg_paths = sort paths\<rparr>)
       (filter (\<lambda>(key, paths). 1 < length paths) (sorted_list_of_fmap (fold add_collision records fmempty)))"

fun change_key :: "scan_change \<Rightarrow> string \<times> string" where
  "change_key (Created path) = (path, ''created'')"
| "change_key (Modified path) = (path, ''modified'')"
| "change_key (Deleted path) = (path, ''deleted'')"
| "change_key (Renamed from to) = (from, ''renamed'')"

section \<open>Rename correlation\<close>

type_synonym identity_groups = "((entry_kind \<times> file_identity) \<times> wire_path list) list"

definition vanished :: "(wire_path, scanned_entry) fmap \<Rightarrow> wire_path fset \<Rightarrow> wire_path list \<Rightarrow> bool \<Rightarrow> wire_path \<Rightarrow> path_record \<Rightarrow> bool" where
  "vanished current preserved uncertain preserve_all path r \<longleftrightarrow>
     \<not> (preserve_all \<or> pr_tombstone r \<or> path |\<in>| fmdom current \<or> should_preserve path preserved uncertain)"

definition appeared :: "(wire_path, path_record) fmap \<Rightarrow> wire_path \<Rightarrow> bool" where
  "appeared previous path \<longleftrightarrow> (case fmlookup previous path of None \<Rightarrow> True | Some r \<Rightarrow> pr_tombstone r)"

definition add_old :: "(wire_path, scanned_entry) fmap \<Rightarrow> wire_path fset \<Rightarrow> wire_path list \<Rightarrow> bool \<Rightarrow>
    wire_path \<times> path_record \<Rightarrow> identity_groups \<Rightarrow> identity_groups" where
  "add_old current preserved uncertain preserve_all row groups = (case row of (path, r) \<Rightarrow>
     if \<not> vanished current preserved uncertain preserve_all path r then groups
     else case pr_identity r of None \<Rightarrow> groups | Some identity \<Rightarrow> push_group (pr_kind r, identity) path groups)"

definition add_new :: "(wire_path, path_record) fmap \<Rightarrow> wire_path \<times> scanned_entry \<Rightarrow> identity_groups \<Rightarrow> identity_groups" where
  "add_new previous row groups = (case row of (path, e) \<Rightarrow>
     if \<not> appeared previous path then groups
     else case fp_identity (sc_fingerprint e) of None \<Rightarrow> groups
       | Some identity \<Rightarrow> push_group (sc_kind e, identity) path groups)"

definition correlate_group :: "(wire_path, path_record) fmap \<Rightarrow> (wire_path, scanned_entry) fmap \<Rightarrow> identity_groups \<Rightarrow>
    (entry_kind \<times> file_identity) \<times> wire_path list \<Rightarrow> (wire_path, wire_path) fmap \<Rightarrow> (wire_path, wire_path) fmap" where
  "correlate_group previous current new_groups grp renames = (case grp of (identity, old_paths) \<Rightarrow>
     case map_of new_groups identity of None \<Rightarrow> renames
     | Some new_paths \<Rightarrow>
         if length old_paths = 1 \<and> length new_paths = 1 then
           let old_path = hd old_paths; new_path = hd new_paths
           in (case (fmlookup previous old_path, fmlookup current new_path) of
                 (Some old, Some new) \<Rightarrow> if record_matches old new then fmupd new_path old_path renames else renames
               | _ \<Rightarrow> renames)
         else renames)"

text \<open>
  The hash maps of \<open>correlate_renames\<close> are association lists in order of first insertion; the result does
  not depend on that order (\<open>renames_exact\<close>).
\<close>

definition correlate_renames :: "(wire_path, path_record) fmap \<Rightarrow> (wire_path, scanned_entry) fmap \<Rightarrow> wire_path fset \<Rightarrow>
    wire_path list \<Rightarrow> bool \<Rightarrow> (wire_path, wire_path) fmap" where
  "correlate_renames previous current preserved uncertain preserve_all =
     (let old_groups = fold (add_old current preserved uncertain preserve_all) (sorted_list_of_fmap previous) [];
          new_groups = fold (add_new previous) (sorted_list_of_fmap current) []
      in fold (correlate_group previous current new_groups) old_groups fmempty)"

section \<open>Applying a scan\<close>

record scan_state =
  ss_next :: "(wire_path, path_record) fmap"
  ss_counter :: u64
  ss_changes :: "scan_change list"
  ss_unchanged :: nat
  ss_renamed :: "wire_path fset"

definition bury :: "path_record \<Rightarrow> version_vector \<Rightarrow> u64 \<Rightarrow> path_record" where
  "bury r version generation = r\<lparr>pr_version := version, pr_tombstone := True, pr_generation := generation\<rparr>"

definition apply_rename :: "local_index \<Rightarrow> u64 \<Rightarrow> wire_path \<Rightarrow> path_record \<Rightarrow> scanned_entry \<Rightarrow> scan_state \<Rightarrow> index_error + scan_state" where
  "apply_rename I generation from source e ss =
     and_then (next_replica_counter (ss_counter ss) (pr_version source) (li_replica I)) (\<lambda>counter.
       let version = vv_observe (pr_version source) (li_replica I) counter
       in Inr (ss\<lparr>ss_counter := counter,
            ss_next := fmupd (sc_path e) (to_record I e version generation)
              (fmupd from (bury source version generation) (ss_next ss)),
            ss_renamed := finsert from (ss_renamed ss),
            ss_changes := ss_changes ss @ [Renamed from (sc_path e)]\<rparr>))"

definition apply_write :: "local_index \<Rightarrow> u64 \<Rightarrow> path_record option \<Rightarrow> scanned_entry \<Rightarrow> scan_state \<Rightarrow> index_error + scan_state" where
  "apply_write I generation existing e ss =
     (let (version, change) = (case existing of
            Some r \<Rightarrow> (pr_version r, if pr_tombstone r then Created (sc_path e) else Modified (sc_path e))
          | None \<Rightarrow> (fmempty, Created (sc_path e)))
      in and_then (next_replica_counter (ss_counter ss) version (li_replica I)) (\<lambda>counter.
        Inr (ss\<lparr>ss_counter := counter,
          ss_next := fmupd (sc_path e) (to_record I e (vv_observe version (li_replica I) counter) generation) (ss_next ss),
          ss_changes := ss_changes ss @ [change]\<rparr>)))"

definition apply_entry :: "local_index \<Rightarrow> (wire_path, path_record) fmap \<Rightarrow> (wire_path, wire_path) fmap \<Rightarrow> u64 \<Rightarrow>
    wire_path \<times> scanned_entry \<Rightarrow> scan_state \<Rightarrow> index_error + scan_state" where
  "apply_entry I previous renames generation row ss = (case row of (path, e) \<Rightarrow>
     if (case fmlookup previous path of None \<Rightarrow> False | Some r \<Rightarrow> \<not> pr_tombstone r \<and> record_matches r e)
     then Inr (ss\<lparr>ss_unchanged := ss_unchanged ss + 1\<rparr>)
     else case fmlookup renames path of
       Some from \<Rightarrow> and_then (ok_or (fmlookup previous from) RenameSourceDisappeared) (\<lambda>source.
         apply_rename I generation from source e ss)
     | None \<Rightarrow> apply_write I generation (fmlookup previous path) e ss)"

definition apply_missing :: "local_index \<Rightarrow> (wire_path, scanned_entry) fmap \<Rightarrow> wire_path fset \<Rightarrow> wire_path list \<Rightarrow> bool \<Rightarrow> u64 \<Rightarrow>
    wire_path \<times> path_record \<Rightarrow> scan_state \<Rightarrow> index_error + scan_state" where
  "apply_missing I current preserved uncertain preserve_all generation row ss = (case row of (path, r) \<Rightarrow>
     if pr_tombstone r \<or> path |\<in>| fmdom current \<or> path |\<in>| ss_renamed ss \<or> preserve_all \<or>
        should_preserve path preserved uncertain
     then Inr ss
     else and_then (next_replica_counter (ss_counter ss) (pr_version r) (li_replica I)) (\<lambda>counter.
       Inr (ss\<lparr>ss_counter := counter,
         ss_next := fmupd path (bury r (vv_observe (pr_version r) (li_replica I) counter) generation) (ss_next ss),
         ss_changes := ss_changes ss @ [Deleted path]\<rparr>)))"

fun settle_retry :: "scan_change \<Rightarrow> (wire_path, retry_record) fmap \<Rightarrow> (wire_path, retry_record) fmap" where
  "settle_retry (Deleted path) retries = fmdrop path retries"
| "settle_retry (Renamed from to) retries = fmdrop to (fmdrop from retries)"
| "settle_retry _ retries = retries"

record hash_failure =
  hf_path :: wire_path
  hf_message :: string

definition add_failure :: "u64 \<Rightarrow> hash_failure \<Rightarrow> (wire_path, retry_record) fmap \<Rightarrow> (wire_path, retry_record) fmap" where
  "add_failure now_ms failure retries =
     (let retry = schedule_retry (fmlookup retries (hf_path failure)) (hf_path failure) now_ms (hf_message failure)
      in fmupd (rr_path retry) retry retries)"

definition next_retries :: "local_index \<Rightarrow> (wire_path, retry_record) fmap \<Rightarrow> (wire_path, scanned_entry) fmap \<Rightarrow> wire_path fset \<Rightarrow>
    wire_path list \<Rightarrow> bool \<Rightarrow> scan_change list \<Rightarrow> hash_failure list \<Rightarrow> u64 \<Rightarrow> (wire_path, retry_record) fmap" where
  "next_retries I previous current preserved uncertain preserve_all changes failures now_ms =
     (let retained = fmfilter (\<lambda>path. \<not> wire_path_is_ignored I path \<and>
            (path |\<in>| fmdom current \<or> preserve_all \<or> should_preserve path preserved uncertain)) previous;
          pending = fmdrop_fset (fmdom current) retained
      in fold (add_failure now_ms) failures (fold settle_retry changes pending))"

definition collision_issue :: "local_index \<Rightarrow> collision_group \<Rightarrow> scan_issue" where
  "collision_issue I grp = \<lparr>si_path = join_with '', '' (cg_paths grp), si_kind = PathCollision,
     si_message = decimal (length (cg_paths grp)) @ '' paths share cross-platform collision key '' @ li_debug I (cg_key grp)\<rparr>"

definition live_values :: "(wire_path, path_record) fmap \<Rightarrow> path_record list" where
  "live_values records = filter (\<lambda>r. \<not> pr_tombstone r) (map_values records)"

definition collect_current :: "scanned_entry list \<Rightarrow> (wire_path, scanned_entry) fmap" where
  "collect_current scanned = fold (\<lambda>e. fmupd (sc_path e) e) scanned fmempty"

definition apply_scan :: "local_index \<Rightarrow> (wire_path, path_record) fmap \<Rightarrow> (wire_path, retry_record) fmap \<Rightarrow> scanned_entry list \<Rightarrow>
    wire_path fset \<Rightarrow> wire_path list \<Rightarrow> bool \<Rightarrow> hash_failure list \<Rightarrow> scan_issue list \<Rightarrow> nat \<Rightarrow> u64 \<Rightarrow> index_state \<Rightarrow>
    index_error + (index_state \<times> scan_report)" where
  "apply_scan I previous previous_retries scanned preserved uncertain preserve_all failures issues files_hashed now_ms st =
     and_then (ok_or (checked_add (ix_generation st) 1) GenerationOverflow) (\<lambda>generation.
       let current = collect_current scanned;
           renames = correlate_renames previous current preserved uncertain preserve_all;
           start = \<lparr>ss_next = previous, ss_counter = ix_replica_counter st, ss_changes = [], ss_unchanged = 0, ss_renamed = {||}\<rparr>
       in and_then (fold_res (apply_entry I previous renames generation) (sorted_list_of_fmap current) start) (\<lambda>written.
       and_then (fold_res (apply_missing I current preserved uncertain preserve_all generation) (sorted_list_of_fmap previous) written) (\<lambda>ss.
       let retries = next_retries I previous_retries current preserved uncertain preserve_all (ss_changes ss) failures now_ms;
           collisions = collision_groups (live_values (ss_next ss));
           live = length (live_values (ss_next ss))
       in Inr (commit_state (ss_next ss) retries generation (ss_counter ss) st,
            \<lparr>sp_generation = generation, sp_live_records = live, sp_tombstones = map_len (ss_next ss) - live,
             sp_files_hashed = files_hashed, sp_unchanged = ss_unchanged ss, sp_retries_queued = map_len retries,
             sp_changes = sort_key change_key (ss_changes ss), sp_collisions = collisions,
             sp_issues = sort_key si_path (issues @ map (collision_issue I) collisions)\<rparr>))))"

section \<open>The scan\<close>

record file_hash_failure =
  hx_kind :: scan_issue_kind
  hx_message :: string

record scan_plan =
  sl_scanned :: "scanned_entry list"
  sl_hash_candidates :: "raw_entry list"
  sl_preserved :: "wire_path fset"
  sl_issues :: "scan_issue list"

definition needs_verification :: "string list list option \<Rightarrow> raw_entry \<Rightarrow> bool" where
  "needs_verification changed_paths c = (case changed_paths of None \<Rightarrow> True
     | Some changed \<Rightarrow> list_ex (\<lambda>path. re_local_path c = path \<or> prefix path (re_local_path c)) changed)"

definition reusable :: "raw_entry \<Rightarrow> path_record option \<Rightarrow> bool" where
  "reusable c existing = (case existing of None \<Rightarrow> False
     | Some r \<Rightarrow> \<not> pr_tombstone r \<and> pr_content_hash r \<noteq> None \<and> record_fingerprint_matches r c)"

definition classify_candidate :: "local_index \<Rightarrow> string list list option \<Rightarrow> u64 \<Rightarrow> (wire_path, path_record) fmap \<Rightarrow>
    (wire_path, retry_record) fmap \<Rightarrow> raw_entry \<Rightarrow> scan_plan \<Rightarrow> scan_plan" where
  "classify_candidate I changed_paths now_ms previous retries c plan =
     (if re_kind c \<noteq> FileEntry then plan\<lparr>sl_scanned := sl_scanned plan @ [into_scanned c None]\<rparr>
      else if \<not> needs_verification changed_paths c \<and> reusable c (fmlookup previous (re_path c))
      then plan\<lparr>sl_scanned := sl_scanned plan @
             [into_scanned c (case fmlookup previous (re_path c) of None \<Rightarrow> None | Some r \<Rightarrow> pr_content_hash r)]\<rparr>
      else case fmlookup retries (re_path c) of
        Some retry \<Rightarrow> if \<not> is_due retry now_ms
          then plan\<lparr>sl_preserved := finsert (re_path c) (sl_preserved plan),
                 sl_issues := sl_issues plan @ [\<lparr>si_path = li_display I (re_local_path c), si_kind = RetryDeferred,
                   si_message = ''retry attempt '' @ decimal (unat (rr_attempts retry)) @ '' deferred until '' @
                     decimal (unat (rr_not_before_ms retry))\<rparr>]\<rparr>
          else plan\<lparr>sl_hash_candidates := sl_hash_candidates plan @ [c]\<rparr>
      | None \<Rightarrow> plan\<lparr>sl_hash_candidates := sl_hash_candidates plan @ [c]\<rparr>)"

text \<open>The workers of \<open>hash_files\<close> finish in any order; the outcomes are sorted by path.\<close>

definition hash_files :: "(raw_entry \<Rightarrow> file_hash_failure + hash32) \<Rightarrow> raw_entry list \<Rightarrow>
    (raw_entry \<times> (file_hash_failure + hash32)) list" where
  "hash_files hash candidates = map (\<lambda>c. (c, hash c)) (sort_key re_path candidates)"

record hash_state =
  hs_scanned :: "scanned_entry list"
  hs_preserved :: "wire_path fset"
  hs_issues :: "scan_issue list"
  hs_failures :: "hash_failure list"
  hs_files_hashed :: nat

definition take_outcome :: "local_index \<Rightarrow> raw_entry \<times> (file_hash_failure + hash32) \<Rightarrow> hash_state \<Rightarrow> hash_state" where
  "take_outcome I outcome hs = (case outcome of
     (c, Inr hash) \<Rightarrow> hs\<lparr>hs_files_hashed := hs_files_hashed hs + 1,
       hs_scanned := hs_scanned hs @ [into_scanned c (Some hash)]\<rparr>
   | (c, Inl failure) \<Rightarrow> hs\<lparr>hs_preserved := finsert (re_path c) (hs_preserved hs),
       hs_issues := hs_issues hs @ [\<lparr>si_path = li_display I (re_local_path c), si_kind = hx_kind failure,
         si_message = bounded_message (hx_message failure)\<rparr>],
       hs_failures := hs_failures hs @ [\<lparr>hf_path = re_path c, hf_message = bounded_message (hx_message failure)\<rparr>]\<rparr>)"

definition empty_traversal :: traversal where
  "empty_traversal = \<lparr>tv_candidates = [], tv_uncertain_paths = {||}, tv_uncertain_prefixes = [],
     tv_preserve_all_missing = False, tv_issues = []\<rparr>"

definition ignored_prefixes :: "local_index \<Rightarrow> wire_path list" where
  "ignored_prefixes I = List.map_filter (\<lambda>ignored. case portable_path I ignored of Inl _ \<Rightarrow> None | Inr path \<Rightarrow> Some path)
     (li_ignored_paths I)"

definition scan_internal :: "local_index \<Rightarrow> string list list option \<Rightarrow> u64 \<Rightarrow> listing \<Rightarrow> (raw_entry \<Rightarrow> file_hash_failure + hash32) \<Rightarrow>
    index_state \<Rightarrow> index_error + (index_state \<times> scan_report)" where
  "scan_internal I changed_paths now_ms root_listing hash st =
     and_then (records_map I st) (\<lambda>previous.
     and_then (retries_map st) (\<lambda>retries.
     and_then (collect_directory I (li_root I) True root_listing
         (empty_traversal\<lparr>tv_uncertain_prefixes := ignored_prefixes I\<rparr>)) (\<lambda>tv.
       let plan = fold (classify_candidate I changed_paths now_ms previous retries) (tv_candidates tv)
             \<lparr>sl_scanned = [], sl_hash_candidates = [], sl_preserved = tv_uncertain_paths tv, sl_issues = tv_issues tv\<rparr>;
           hs = fold (take_outcome I) (hash_files hash (sl_hash_candidates plan))
             \<lparr>hs_scanned = sl_scanned plan, hs_preserved = sl_preserved plan, hs_issues = sl_issues plan,
              hs_failures = [], hs_files_hashed = 0\<rparr>
       in apply_scan I previous retries (hs_scanned hs) (hs_preserved hs) (tv_uncertain_prefixes tv)
            (tv_preserve_all_missing tv) (hs_failures hs) (hs_issues hs) (hs_files_hashed hs) now_ms st)))"

definition scan :: "local_index \<Rightarrow> u64 \<Rightarrow> listing \<Rightarrow> (raw_entry \<Rightarrow> file_hash_failure + hash32) \<Rightarrow> index_state \<Rightarrow>
    index_error + (index_state \<times> scan_report)" where
  "scan I now_ms root_listing hash st = scan_internal I None now_ms root_listing hash st"

definition scan_incremental :: "local_index \<Rightarrow> string list list \<Rightarrow> u64 \<Rightarrow> listing \<Rightarrow> (raw_entry \<Rightarrow> file_hash_failure + hash32) \<Rightarrow>
    index_state \<Rightarrow> index_error + (index_state \<times> scan_report)" where
  "scan_incremental I changed_paths now_ms root_listing hash st = scan_internal I (Some changed_paths) now_ms root_listing hash st"

end
