(* ===== verification/Index_Laws.thy ===== *)
theory Index_Laws
  imports Index_Scan
begin

text \<open>
  Laws of the scan: what the rename correlation finds, what the two loops of \<open>apply_scan\<close> leave at every
  path, and that the traversal accounts for every path it could not rule out.
\<close>

section \<open>Groups\<close>

lemma map_of_push_group:
  "map_of (push_group k v groups) k' =
     (if k = k' then Some (case map_of groups k of None \<Rightarrow> [v] | Some vs \<Rightarrow> vs @ [v]) else map_of groups k')"
  unfolding push_group_def by (induction groups) auto

lemma distinct_push_group: "distinct (map fst groups) \<Longrightarrow> distinct (map fst (push_group k v groups))"
  unfolding push_group_def by (rule distinct_map_default)

lemma fold_push_group:
  fixes key :: "'a \<times> 'b \<Rightarrow> 'k option"
  shows "map_of (fold (\<lambda>row g. case key row of None \<Rightarrow> g | Some k \<Rightarrow> push_group k (fst row) g) rows groups) k =
    (let ps = map fst (filter (\<lambda>row. key row = Some k) rows) in
     case map_of groups k of None \<Rightarrow> (if ps = [] then None else Some ps) | Some vs \<Rightarrow> Some (vs @ ps))"
proof (induction rows arbitrary: groups)
  case (Cons row rows)
  show ?case
  proof (cases "key row")
    case None
    with Cons show ?thesis by simp
  next
    case (Some k')
    with Cons [of "push_group k' (fst row) groups"] show ?thesis
      by (auto simp: map_of_push_group Let_def split: option.splits)
  qed
qed (auto split: option.splits)

lemma distinct_fold_push_group:
  "distinct (map fst groups) \<Longrightarrow>
   distinct (map fst (fold (\<lambda>row g. case key row of None \<Rightarrow> g | Some k \<Rightarrow> push_group k (fst row) g) rows groups))"
  by (induction rows arbitrary: groups) (auto intro: distinct_push_group split: option.splits)

lemma single_of_distinct: "set xs = {x} \<Longrightarrow> distinct xs \<Longrightarrow> xs = [x]"
  by (cases xs; cases "tl xs") auto

lemma filter_fst_single:
  assumes "distinct (map fst rows)"
  shows "map fst (filter P rows) = [x] \<longleftrightarrow>
    (\<exists>v. (x, v) \<in> set rows \<and> P (x, v)) \<and> (\<forall>y w. (y, w) \<in> set rows \<and> P (y, w) \<longrightarrow> y = x)"
    (is "?l \<longleftrightarrow> ?r")
proof
  assume ?l
  then have "set (map fst (filter P rows)) = {x}" by simp
  then show ?r by force
next
  assume r: ?r
  then have "set (map fst (filter P rows)) = {x}" by force
  moreover have "distinct (map fst (filter P rows))" using assms by (rule distinct_map_filter)
  ultimately show ?l by (rule single_of_distinct)
qed

section \<open>Rename correlation\<close>

definition old_key :: "(wire_path, scanned_entry) fmap \<Rightarrow> wire_path fset \<Rightarrow> wire_path list \<Rightarrow> bool \<Rightarrow>
    wire_path \<times> path_record \<Rightarrow> (entry_kind \<times> file_identity) option" where
  "old_key current preserved uncertain preserve_all row =
     (if vanished current preserved uncertain preserve_all (fst row) (snd row)
      then map_option (Pair (pr_kind (snd row))) (pr_identity (snd row)) else None)"

definition new_key :: "(wire_path, path_record) fmap \<Rightarrow> wire_path \<times> scanned_entry \<Rightarrow> (entry_kind \<times> file_identity) option" where
  "new_key previous row =
     (if appeared previous (fst row)
      then map_option (Pair (sc_kind (snd row))) (fp_identity (sc_fingerprint (snd row))) else None)"

lemma add_old_key: "add_old current preserved uncertain preserve_all = (\<lambda>row g.
    case old_key current preserved uncertain preserve_all row of None \<Rightarrow> g | Some k \<Rightarrow> push_group k (fst row) g)"
  by (auto simp: fun_eq_iff add_old_def old_key_def split: option.splits)

lemma add_new_key: "add_new previous = (\<lambda>row g.
    case new_key previous row of None \<Rightarrow> g | Some k \<Rightarrow> push_group k (fst row) g)"
  by (auto simp: fun_eq_iff add_new_def new_key_def split: option.splits)

text \<open>The only vanished record, and the only new entry, of a kind and identity.\<close>

definition sole_old :: "(wire_path, path_record) fmap \<Rightarrow> (wire_path, scanned_entry) fmap \<Rightarrow> wire_path fset \<Rightarrow> wire_path list \<Rightarrow>
    bool \<Rightarrow> entry_kind \<times> file_identity \<Rightarrow> wire_path \<Rightarrow> bool" where
  "sole_old previous current preserved uncertain preserve_all k from \<longleftrightarrow>
     (\<exists>r. fmlookup previous from = Some r \<and> old_key current preserved uncertain preserve_all (from, r) = Some k) \<and>
     (\<forall>p r. fmlookup previous p = Some r \<and> old_key current preserved uncertain preserve_all (p, r) = Some k \<longrightarrow> p = from)"

definition sole_new :: "(wire_path, path_record) fmap \<Rightarrow> (wire_path, scanned_entry) fmap \<Rightarrow> entry_kind \<times> file_identity \<Rightarrow>
    wire_path \<Rightarrow> bool" where
  "sole_new previous current k to \<longleftrightarrow>
     (\<exists>e. fmlookup current to = Some e \<and> new_key previous (to, e) = Some k) \<and>
     (\<forall>p e. fmlookup current p = Some e \<and> new_key previous (p, e) = Some k \<longrightarrow> p = to)"

lemma group_single:
  fixes key :: "'k::linorder \<times> 'v \<Rightarrow> 'i option"
  shows "map_of (fold (\<lambda>row g. case key row of None \<Rightarrow> g | Some k \<Rightarrow> push_group k (fst row) g) (sorted_list_of_fmap m) []) k = Some [x] \<longleftrightarrow>
    (\<exists>v. fmlookup m x = Some v \<and> key (x, v) = Some k) \<and> (\<forall>y w. fmlookup m y = Some w \<and> key (y, w) = Some k \<longrightarrow> y = x)"
  using filter_fst_single [of "sorted_list_of_fmap m" "\<lambda>row. key row = Some k" x]
  by (auto simp: fold_push_group in_sorted_list_of_fmap Let_def)

definition hit :: "(wire_path, path_record) fmap \<Rightarrow> (wire_path, scanned_entry) fmap \<Rightarrow> identity_groups \<Rightarrow>
    (entry_kind \<times> file_identity) \<times> wire_path list \<Rightarrow> wire_path \<Rightarrow> wire_path \<Rightarrow> bool" where
  "hit previous current news g to from \<longleftrightarrow> snd g = [from] \<and> map_of news (fst g) = Some [to] \<and>
    (\<exists>r e. fmlookup previous from = Some r \<and> fmlookup current to = Some e \<and> record_matches r e)"

lemma correlate_group_lookup:
  "fmlookup (correlate_group previous current news g renames) to =
     (if \<exists>from. hit previous current news g to from then Some (hd (snd g)) else fmlookup renames to)"
  unfolding correlate_group_def hit_def
  by (cases g) (auto simp: Let_def length_Suc_conv split: option.splits)

lemma fold_correlate:
  assumes "distinct (map fst olds)"
    and "\<And>k k'. map_of news k = Some [to] \<Longrightarrow> map_of news k' = Some [to] \<Longrightarrow> k = k'"
  shows "fmlookup (fold (correlate_group previous current news) olds renames) to = Some from \<longleftrightarrow>
    (\<exists>g \<in> set olds. hit previous current news g to from) \<or>
    fmlookup renames to = Some from \<and> (\<forall>g \<in> set olds. \<forall>f. \<not> hit previous current news g to f)"
  using assms(1)
proof (induction olds arbitrary: renames)
  case (Cons g olds)
  have *: "fmlookup (fold (correlate_group previous current news) olds (correlate_group previous current news g renames)) to = Some from \<longleftrightarrow>
      (\<exists>g \<in> set olds. hit previous current news g to from) \<or>
      fmlookup (correlate_group previous current news g renames) to = Some from \<and> (\<forall>g \<in> set olds. \<forall>f. \<not> hit previous current news g to f)"
    by (rule Cons.IH) (use Cons.prems in simp)
  have other: "\<not> hit previous current news g' to f'" if g': "g' \<in> set olds" and h: "hit previous current news g to f" for g' f f'
  proof
    assume "hit previous current news g' to f'"
    with h have "fst g = fst g'" by (auto simp: hit_def intro: assms(2))
    with g' Cons.prems show False by (auto simp: image_iff)
  qed
  show ?case
  proof (cases "\<exists>f. hit previous current news g to f")
    case True
    then obtain f where f: "hit previous current news g to f" by blast
    then have [simp]: "snd g = [f]" by (simp add: hit_def)
    from f other have "\<forall>g \<in> set olds. \<forall>f. \<not> hit previous current news g to f" by blast
    moreover have "hit previous current news g to from \<longleftrightarrow> f = from" using f by (auto simp: hit_def)
    ultimately show ?thesis using True by (auto simp: * correlate_group_lookup)
  next
    case False
    then show ?thesis by (auto simp: * correlate_group_lookup)
  qed
qed simp

lemma bex_pair: "(\<exists>g \<in> S. snd g = x \<and> Q (fst g) \<and> R) \<longleftrightarrow> (\<exists>k. (k, x) \<in> S \<and> Q k \<and> R)"
  by force

lemma sole_old_single:
  "map_of (fold (add_old current preserved uncertain preserve_all) (sorted_list_of_fmap previous) []) k = Some [from] \<longleftrightarrow>
     sole_old previous current preserved uncertain preserve_all k from"
  unfolding add_old_key group_single sole_old_def ..

lemma sole_new_single:
  "map_of (fold (add_new previous) (sorted_list_of_fmap current) []) k = Some [to] \<longleftrightarrow> sole_new previous current k to"
  unfolding add_new_key group_single sole_new_def ..

lemma renames_exact:
  "fmlookup (correlate_renames previous current preserved uncertain preserve_all) to = Some from \<longleftrightarrow>
    (\<exists>k r e. sole_old previous current preserved uncertain preserve_all k from \<and> sole_new previous current k to \<and>
       fmlookup previous from = Some r \<and> fmlookup current to = Some e \<and> record_matches r e)"
proof -
  let ?olds = "fold (add_old current preserved uncertain preserve_all) (sorted_list_of_fmap previous) []"
  let ?news = "fold (add_new previous) (sorted_list_of_fmap current) []"
  have d: "distinct (map fst ?olds)" unfolding add_old_key by (rule distinct_fold_push_group) simp
  have "fmlookup (fold (correlate_group previous current ?news) ?olds fmempty) to = Some from \<longleftrightarrow>
      (\<exists>g \<in> set ?olds. hit previous current ?news g to from)"
    by (subst fold_correlate [OF d]) (auto simp: sole_new_single sole_new_def)
  also have "\<dots> \<longleftrightarrow> (\<exists>k. map_of ?olds k = Some [from] \<and> map_of ?news k = Some [to] \<and>
      (\<exists>r e. fmlookup previous from = Some r \<and> fmlookup current to = Some e \<and> record_matches r e))"
    unfolding hit_def map_of_eq_Some_iff [OF d] by (rule bex_pair)
  finally show ?thesis
    unfolding correlate_renames_def Let_def sole_old_single sole_new_single by blast
qed

lemma renames_source:
  assumes "fmlookup (correlate_renames previous current preserved uncertain preserve_all) to = Some from"
  obtains r e where "fmlookup previous from = Some r" "vanished current preserved uncertain preserve_all from r"
    "fmlookup current to = Some e" "appeared previous to" "record_matches r e"
  using assms unfolding renames_exact sole_old_def sole_new_def old_key_def new_key_def
  by (auto split: if_splits)

lemma renames_inject:
  assumes "fmlookup (correlate_renames previous current preserved uncertain preserve_all) to = Some from"
    "fmlookup (correlate_renames previous current preserved uncertain preserve_all) to' = Some from"
  shows "to = to'"
proof -
  from assms obtain k k' where k: "sole_old previous current preserved uncertain preserve_all k from" "sole_new previous current k to"
    and k': "sole_old previous current preserved uncertain preserve_all k' from" "sole_new previous current k' to'"
    unfolding renames_exact by blast
  have "k = k'" using k(1) k'(1) unfolding sole_old_def by auto
  with k(2) k'(2) show ?thesis unfolding sole_new_def by blast
qed

section \<open>The loops of \<open>apply_scan\<close>\<close>

text \<open>\<open>v\<close> extends \<open>base\<close> by a counter of this replica above \<open>lo\<close> and at most \<open>hi\<close>.\<close>

definition advanced :: "replica_id \<Rightarrow> u64 \<Rightarrow> u64 \<Rightarrow> version_vector \<Rightarrow> version_vector \<Rightarrow> bool" where
  "advanced q lo hi base v \<longleftrightarrow> (\<exists>c. lo < c \<and> c \<le> hi \<and> vv_get base q < c \<and> v = vv_observe base q c)"

lemma next_replica_counter_Inr:
  assumes "next_replica_counter g v q = Inr c"
  shows "g < c" "vv_get v q < c"
  using assms unfolding next_replica_counter_def
  by (auto simp: result_simps word_less_nat_alt unat_max_word dest!: checked_add_Some)

lemma advancedI:
  "next_replica_counter lo v q = Inr c \<Longrightarrow> advanced q lo c v (vv_observe v q c)"
  using next_replica_counter_Inr [of lo v q c] unfolding advanced_def by blast

lemma advanced_mono: "advanced q lo hi base v \<Longrightarrow> lo' \<le> lo \<Longrightarrow> hi \<le> hi' \<Longrightarrow> advanced q lo' hi' base v"
  unfolding advanced_def by (auto intro: le_less_trans order_trans)

lemma advanced_after: "advanced q lo hi base v \<Longrightarrow> vv_relation v base = After"
  unfolding advanced_def
  by (auto simp: vv.rel_After_iff vv_le_observe vv_le_def vv_get_observe not_le max_def)

lemma advanced_get:
  assumes "advanced q lo hi base v"
  shows "lo < vv_get v q" "vv_get v q \<le> hi" "r \<noteq> q \<Longrightarrow> vv_get v r = vv_get base r"
  using assms unfolding advanced_def by (auto simp: vv_get_observe max_def)

definition entry_changed :: "(wire_path, path_record) fmap \<Rightarrow> wire_path \<Rightarrow> scanned_entry \<Rightarrow> bool" where
  "entry_changed previous path e \<longleftrightarrow>
     \<not> (case fmlookup previous path of None \<Rightarrow> False | Some r \<Rightarrow> \<not> pr_tombstone r \<and> record_matches r e)"

definition entry_base :: "(wire_path, path_record) fmap \<Rightarrow> (wire_path, wire_path) fmap \<Rightarrow> wire_path \<Rightarrow> version_vector" where
  "entry_base previous renames path =
     (case fmlookup previous (case fmlookup renames path of None \<Rightarrow> path | Some from \<Rightarrow> from) of
        None \<Rightarrow> fmempty | Some r \<Rightarrow> pr_version r)"

definition sources :: "(wire_path, path_record) fmap \<Rightarrow> (wire_path, wire_path) fmap \<Rightarrow> (wire_path \<times> scanned_entry) list \<Rightarrow> wire_path set" where
  "sources previous renames rows = {from. \<exists>(path, e) \<in> set rows. entry_changed previous path e \<and> fmlookup renames path = Some from}"

text \<open>What the first loop leaves at a path.\<close>

definition written_at :: "local_index \<Rightarrow> (wire_path, path_record) fmap \<Rightarrow> (wire_path, wire_path) fmap \<Rightarrow> u64 \<Rightarrow> u64 \<Rightarrow> u64 \<Rightarrow>
    (wire_path \<times> scanned_entry) list \<Rightarrow> path_record option \<Rightarrow> wire_path \<Rightarrow> path_record option \<Rightarrow> bool" where
  "written_at I previous renames generation lo hi rows before path after \<longleftrightarrow>
     (case map_of rows path of
        Some e \<Rightarrow> if entry_changed previous path e
          then \<exists>v. advanced (li_replica I) lo hi (entry_base previous renames path) v \<and> after = Some (to_record I e v generation)
          else after = before
      | None \<Rightarrow> if path \<in> sources previous renames rows
          then \<exists>r v. fmlookup previous path = Some r \<and> advanced (li_replica I) lo hi (pr_version r) v \<and> after = Some (bury r v generation)
          else after = before)"

lemma apply_entry_Inr:
  assumes "apply_entry I previous renames generation (path, e) ss = Inr ss'" "sc_path e = path"
  obtains (same) "\<not> entry_changed previous path e" "ss' = ss\<lparr>ss_unchanged := ss_unchanged ss + 1\<rparr>"
  | (rename) src source v where "entry_changed previous path e" "fmlookup renames path = Some src" "fmlookup previous src = Some source"
      "advanced (li_replica I) (ss_counter ss) (ss_counter ss') (pr_version source) v" "ss_counter ss \<le> ss_counter ss'"
      "ss_next ss' = fmupd path (to_record I e v generation) (fmupd src (bury source v generation) (ss_next ss))"
      "ss_renamed ss' = finsert src (ss_renamed ss)" "ss_changes ss' = ss_changes ss @ [Renamed src path]"
  | (overwrite) v change where "entry_changed previous path e" "fmlookup renames path = None"
      "advanced (li_replica I) (ss_counter ss) (ss_counter ss') (entry_base previous renames path) v" "ss_counter ss \<le> ss_counter ss'"
      "ss_next ss' = fmupd path (to_record I e v generation) (ss_next ss)"
      "ss_renamed ss' = ss_renamed ss" "ss_changes ss' = ss_changes ss @ [change]" "change = Created path \<or> change = Modified path"
proof (cases "entry_changed previous path e")
  case False
  with assms same show ?thesis by (auto simp: apply_entry_def entry_changed_def)
next
  case changed: True
  then have unfold: "apply_entry I previous renames generation (path, e) ss = (case fmlookup renames path of
       Some from \<Rightarrow> and_then (ok_or (fmlookup previous from) RenameSourceDisappeared) (\<lambda>source. apply_rename I generation from source e ss)
     | None \<Rightarrow> apply_write I generation (fmlookup previous path) e ss)"
    by (simp add: apply_entry_def entry_changed_def)
  show ?thesis
  proof (cases "fmlookup renames path")
    case (Some src)
    with assms unfold obtain source where source: "fmlookup previous src = Some source" "apply_rename I generation src source e ss = Inr ss'"
      by (auto simp: result_simps)
    then obtain c where c: "next_replica_counter (ss_counter ss) (pr_version source) (li_replica I) = Inr c"
      and ss': "ss' = ss\<lparr>ss_counter := c,
            ss_next := fmupd (sc_path e) (to_record I e (vv_observe (pr_version source) (li_replica I) c) generation)
              (fmupd src (bury source (vv_observe (pr_version source) (li_replica I) c) generation) (ss_next ss)),
            ss_renamed := finsert src (ss_renamed ss),
            ss_changes := ss_changes ss @ [Renamed src (sc_path e)]\<rparr>"
      unfolding apply_rename_def Let_def by (auto simp: result_simps)
    show ?thesis
      by (rule rename [OF changed Some source(1)]) (use advancedI [OF c] next_replica_counter_Inr(1) [OF c] ss' assms(2) in auto)
  next
    case None
    with assms unfold have w: "apply_write I generation (fmlookup previous path) e ss = Inr ss'" by simp
    have base: "entry_base previous renames path = (case fmlookup previous path of None \<Rightarrow> fmempty | Some r \<Rightarrow> pr_version r)"
      by (simp add: entry_base_def None)
    from w obtain c change where c: "next_replica_counter (ss_counter ss) (entry_base previous renames path) (li_replica I) = Inr c"
      and ss': "ss' = ss\<lparr>ss_counter := c,
          ss_next := fmupd (sc_path e) (to_record I e (vv_observe (entry_base previous renames path) (li_replica I) c) generation) (ss_next ss),
          ss_changes := ss_changes ss @ [change]\<rparr>" and change: "change = Created path \<or> change = Modified path"
      unfolding apply_write_def Let_def base using assms(2) by (auto simp: result_simps split: option.splits if_splits)
    show ?thesis
      by (rule overwrite [OF changed None]) (use advancedI [OF c] next_replica_counter_Inr(1) [OF c] ss' change assms(2) in auto)
  qed
qed

lemma sources_Cons:
  "sources previous renames ((path, e) # rows) =
     (if entry_changed previous path e then set_option (fmlookup renames path) else {}) \<union> sources previous renames rows"
  unfolding sources_def by auto

lemma written_at_mono:
  "written_at I previous renames generation lo hi rows before path after \<Longrightarrow> lo' \<le> lo \<Longrightarrow> hi \<le> hi' \<Longrightarrow>
   written_at I previous renames generation lo' hi' rows before path after"
  unfolding written_at_def by (auto intro: advanced_mono split: option.splits if_splits)

lemma written_at_other:
  assumes "path \<noteq> p" "entry_changed previous p e \<Longrightarrow> fmlookup renames p \<noteq> Some path"
  shows "written_at I previous renames generation lo hi ((p, e) # rows) before path after \<longleftrightarrow>
    written_at I previous renames generation lo hi rows before path after"
proof -
  have "path \<in> sources previous renames ((p, e) # rows) \<longleftrightarrow> path \<in> sources previous renames rows"
    using assms(2) by (auto simp: sources_Cons)
  with assms(1) show ?thesis by (simp add: written_at_def)
qed

lemma written_entries:
  assumes "fold_res (apply_entry I previous renames generation) rows ss = Inr ss'" "distinct (map fst rows)"
    "\<And>path e. (path, e) \<in> set rows \<Longrightarrow> sc_path e = path"
    "\<And>path path' src. path \<in> fst ` set rows \<Longrightarrow> fmlookup renames path' = Some src \<Longrightarrow> src \<noteq> path"
  shows "ss_counter ss \<le> ss_counter ss' \<and>
    fset (ss_renamed ss') = fset (ss_renamed ss) \<union> sources previous renames rows \<and>
    (\<forall>path. written_at I previous renames generation (ss_counter ss) (ss_counter ss') rows
       (fmlookup (ss_next ss) path) path (fmlookup (ss_next ss') path))"
  using assms
proof (induction rows arbitrary: ss)
  case Nil
  then show ?case by (auto simp: sources_def written_at_def)
next
  case (Cons row rows)
  obtain p e where row: "row = (p, e)" by (cases row)
  from Cons.prems(1) obtain ss1 where step: "apply_entry I previous renames generation (p, e) ss = Inr ss1"
    and rest: "fold_res (apply_entry I previous renames generation) rows ss1 = Inr ss'"
    by (auto simp: result_simps row)
  have IH: "ss_counter ss1 \<le> ss_counter ss'" "fset (ss_renamed ss') = fset (ss_renamed ss1) \<union> sources previous renames rows"
    "\<And>path. written_at I previous renames generation (ss_counter ss1) (ss_counter ss') rows
       (fmlookup (ss_next ss1) path) path (fmlookup (ss_next ss') path)"
  proof -
    have d: "distinct (map fst rows)" using Cons.prems(2) by simp
    have "ss_counter ss1 \<le> ss_counter ss' \<and> fset (ss_renamed ss') = fset (ss_renamed ss1) \<union> sources previous renames rows \<and>
      (\<forall>path. written_at I previous renames generation (ss_counter ss1) (ss_counter ss') rows
         (fmlookup (ss_next ss1) path) path (fmlookup (ss_next ss') path))"
    proof (rule Cons.IH [OF rest d])
      show "sc_path e = path" if "(path, e) \<in> set rows" for path e
        by (rule Cons.prems(3)) (use that in simp)
      show "src \<noteq> path" if "path \<in> fst ` set rows" "fmlookup renames path' = Some src" for path path' src
        by (rule Cons.prems(4) [OF _ that(2)]) (use that in simp)
    qed
    then show "ss_counter ss1 \<le> ss_counter ss'" "fset (ss_renamed ss') = fset (ss_renamed ss1) \<union> sources previous renames rows"
      "\<And>path. written_at I previous renames generation (ss_counter ss1) (ss_counter ss') rows
         (fmlookup (ss_next ss1) path) path (fmlookup (ss_next ss') path)" by blast+
  qed
  have e: "sc_path e = p" using Cons.prems(3) [of p e] by (simp add: row)
  have pd: "map_of rows p = None" using Cons.prems(2) by (simp add: row map_of_eq_None_iff)
  have ps: "p \<notin> sources previous renames rows"
    using Cons.prems(4) [of p] unfolding sources_def row by auto
  have p': "fmlookup (ss_next ss') p = fmlookup (ss_next ss1) p"
    using IH(3) [of p] pd ps by (simp add: written_at_def)
  from step e show ?case
  proof (cases rule: apply_entry_Inr)
    case same
    have "written_at I previous renames generation (ss_counter ss) (ss_counter ss') (row # rows)
        (fmlookup (ss_next ss) path) path (fmlookup (ss_next ss') path)" for path
    proof (cases "path = p")
      case True
      with same p' show ?thesis unfolding row by (simp add: written_at_def)
    next
      case False
      with IH(3) [of path] same show ?thesis unfolding row by (subst written_at_other) simp_all
    qed
    with IH same show ?thesis unfolding row by (simp add: sources_Cons)
  next
    case (rename src source v)
    have src: "src \<notin> fst ` set (row # rows)" using Cons.prems(4) rename(2) by blast
    then have srcn: "map_of rows src = None" "src \<noteq> p" unfolding row by (auto simp: map_of_eq_None_iff)
    have adv: "advanced (li_replica I) (ss_counter ss) (ss_counter ss') (pr_version source) v"
      by (rule advanced_mono [OF rename(4)]) (use IH in auto)
    have eb: "entry_base previous renames p = pr_version source" by (simp add: entry_base_def rename)
    have "written_at I previous renames generation (ss_counter ss) (ss_counter ss') (row # rows)
        (fmlookup (ss_next ss) path) path (fmlookup (ss_next ss') path)" for path
    proof (cases "path = p")
      case True
      with rename(1) adv eb show ?thesis unfolding row by (auto simp: written_at_def p' rename(6))
    next
      case False
      show ?thesis
      proof (cases "path = src")
        case True
        with IH(3) [of src] srcn have "fmlookup (ss_next ss') src = Some (bury source v generation) \<or>
            (\<exists>w. advanced (li_replica I) (ss_counter ss) (ss_counter ss') (pr_version source) w \<and>
              fmlookup (ss_next ss') src = Some (bury source w generation))"
          by (auto simp: written_at_def rename(3,6) split: if_splits intro: advanced_mono [OF _ rename(5) order_refl])
        with True srcn adv rename(1,2,3) show ?thesis
          unfolding row by (auto simp: written_at_def sources_Cons)
      next
        case False
        with \<open>path \<noteq> p\<close> have "fmlookup (ss_next ss1) path = fmlookup (ss_next ss) path" by (simp add: rename(6))
        with written_at_mono [OF IH(3) rename(5) order_refl, of path] False \<open>path \<noteq> p\<close> rename(1,2) show ?thesis
          unfolding row by (subst written_at_other) simp_all
      qed
    qed
    with IH rename show ?thesis unfolding row by (auto simp: sources_Cons)
  next
    case (overwrite v change)
    have adv: "advanced (li_replica I) (ss_counter ss) (ss_counter ss') (entry_base previous renames p) v"
      by (rule advanced_mono [OF overwrite(3)]) (use IH in auto)
    have "written_at I previous renames generation (ss_counter ss) (ss_counter ss') (row # rows)
        (fmlookup (ss_next ss) path) path (fmlookup (ss_next ss') path)" for path
    proof (cases "path = p")
      case True
      with overwrite(1) adv show ?thesis unfolding row by (auto simp: written_at_def p' overwrite(5))
    next
      case False
      then have "fmlookup (ss_next ss1) path = fmlookup (ss_next ss) path" by (simp add: overwrite(5))
      with written_at_mono [OF IH(3) overwrite(4) order_refl, of path] False overwrite(1,2) show ?thesis
        unfolding row by (subst written_at_other) simp_all
    qed
    with IH overwrite show ?thesis unfolding row by (auto simp: sources_Cons)
  qed
qed

text \<open>What the second loop leaves at a path.\<close>

definition removed_at :: "local_index \<Rightarrow> (wire_path \<Rightarrow> path_record \<Rightarrow> bool) \<Rightarrow> u64 \<Rightarrow> u64 \<Rightarrow> u64 \<Rightarrow>
    (wire_path \<times> path_record) list \<Rightarrow> path_record option \<Rightarrow> wire_path \<Rightarrow> path_record option \<Rightarrow> bool" where
  "removed_at I gone generation lo hi rows before path after \<longleftrightarrow>
     (case map_of rows path of
        Some r \<Rightarrow> if gone path r
          then \<exists>v. advanced (li_replica I) lo hi (pr_version r) v \<and> after = Some (bury r v generation)
          else after = before
      | None \<Rightarrow> after = before)"

lemma removed_at_mono:
  "removed_at I gone generation lo hi rows before path after \<Longrightarrow> lo' \<le> lo \<Longrightarrow> hi \<le> hi' \<Longrightarrow>
   removed_at I gone generation lo' hi' rows before path after"
  unfolding removed_at_def by (auto intro: advanced_mono split: option.splits if_splits)

lemma removed_entries:
  assumes "fold_res (apply_missing I current preserved uncertain preserve_all generation) rows ss = Inr ss'" "distinct (map fst rows)"
  shows "ss_counter ss \<le> ss_counter ss' \<and> ss_renamed ss' = ss_renamed ss \<and>
    (\<forall>path. removed_at I (\<lambda>path r. vanished current preserved uncertain preserve_all path r \<and> path |\<notin>| ss_renamed ss)
       generation (ss_counter ss) (ss_counter ss') rows (fmlookup (ss_next ss) path) path (fmlookup (ss_next ss') path))"
  using assms
proof (induction rows arbitrary: ss)
  case Nil
  then show ?case by (simp add: removed_at_def)
next
  case (Cons row rows)
  obtain p r where row: "row = (p, r)" by (cases row)
  let ?gone = "\<lambda>path r. vanished current preserved uncertain preserve_all path r \<and> path |\<notin>| ss_renamed ss"
  from Cons.prems(1) obtain ss1 where step: "apply_missing I current preserved uncertain preserve_all generation (p, r) ss = Inr ss1"
    and rest: "fold_res (apply_missing I current preserved uncertain preserve_all generation) rows ss1 = Inr ss'"
    by (auto simp: result_simps row)
  have d: "distinct (map fst rows)" "map_of rows p = None" using Cons.prems(2) by (auto simp: row map_of_eq_None_iff)
  note ih = Cons.IH [OF rest d(1)]
  have p': "fmlookup (ss_next ss') p = fmlookup (ss_next ss1) p" using ih d(2) by (auto simp: removed_at_def dest: spec [of _ p])
  show ?case
  proof (cases "?gone p r")
    case False
    then have ss1: "ss1 = ss" using step by (auto simp: apply_missing_def vanished_def)
    have "removed_at I ?gone generation (ss_counter ss) (ss_counter ss') (row # rows)
        (fmlookup (ss_next ss) path) path (fmlookup (ss_next ss') path)" for path
    proof (cases "path = p")
      case True
      with False p' ss1 show ?thesis unfolding row by (auto simp: removed_at_def)
    next
      case False
      then show ?thesis using ih unfolding row ss1 by (simp add: removed_at_def)
    qed
    with ih ss1 show ?thesis by simp
  next
    case True
    then have c0: "\<not> (pr_tombstone r \<or> p |\<in>| fmdom current \<or> p |\<in>| ss_renamed ss \<or> preserve_all \<or> should_preserve p preserved uncertain)"
      by (auto simp: vanished_def)
    then obtain c where c: "next_replica_counter (ss_counter ss) (pr_version r) (li_replica I) = Inr c"
      and ss1: "ss1 = ss\<lparr>ss_counter := c,
         ss_next := fmupd p (bury r (vv_observe (pr_version r) (li_replica I) c) generation) (ss_next ss),
         ss_changes := ss_changes ss @ [Deleted p]\<rparr>"
      using step unfolding apply_missing_def by (auto simp: result_simps)
    have le: "ss_counter ss \<le> ss_counter ss1" using next_replica_counter_Inr(1) [OF c] ss1 by simp
    have adv: "advanced (li_replica I) (ss_counter ss) (ss_counter ss') (pr_version r) (vv_observe (pr_version r) (li_replica I) c)"
      by (rule advanced_mono [OF advancedI [OF c]]) (use ih ss1 in auto)
    have "removed_at I ?gone generation (ss_counter ss) (ss_counter ss') (row # rows)
        (fmlookup (ss_next ss) path) path (fmlookup (ss_next ss') path)" for path
    proof (cases "path = p")
      case t: True
      have "fmlookup (ss_next ss') p = Some (bury r (vv_observe (pr_version r) (li_replica I) c) generation)"
        by (simp add: p') (simp add: ss1)
      with True adv t show ?thesis unfolding row by (auto simp: removed_at_def)
    next
      case False
      have "removed_at I ?gone generation (ss_counter ss1) (ss_counter ss') rows
         (fmlookup (ss_next ss1) path) path (fmlookup (ss_next ss') path)"
        using ih by (simp add: ss1)
      from removed_at_mono [OF this le order_refl] False show ?thesis unfolding row by (simp add: removed_at_def ss1)
    qed
    with ih le ss1 show ?thesis by (auto intro: order_trans)
  qed
qed

section \<open>The committed records\<close>

lemma current_path: "fmlookup (collect_current scanned) p = Some e \<Longrightarrow> sc_path e = p \<and> e \<in> set scanned"
proof -
  have "fmlookup (fold (\<lambda>e. fmupd (sc_path e) e) es m) p = Some e \<Longrightarrow> sc_path e = p \<and> e \<in> set es \<or> fmlookup m p = Some e" for es m
    by (induction es arbitrary: m) (fastforce split: if_splits)+
  then show "fmlookup (collect_current scanned) p = Some e \<Longrightarrow> ?thesis" unfolding collect_current_def by fastforce
qed

lemma current_dom: "fset (fmdom (collect_current scanned)) = sc_path ` set scanned"
proof -
  have "fset (fmdom (fold (\<lambda>e. fmupd (sc_path e) e) es m)) = fset (fmdom m) \<union> sc_path ` set es" for es and m :: "(wire_path, scanned_entry) fmap"
    by (induction es arbitrary: m) auto
  then show ?thesis unfolding collect_current_def by simp
qed

text \<open>
  \<open>scan_record\<close> says what a scan commits at a path: an observed entry is recorded as it was observed, with
  its old version when nothing changed and an advanced one otherwise; a vanished record becomes a tombstone
  with an advanced version; every other row is kept.
\<close>

definition scan_record :: "local_index \<Rightarrow> (wire_path, path_record) fmap \<Rightarrow> (wire_path, scanned_entry) fmap \<Rightarrow> wire_path fset \<Rightarrow>
    wire_path list \<Rightarrow> bool \<Rightarrow> u64 \<Rightarrow> u64 \<Rightarrow> u64 \<Rightarrow> wire_path \<Rightarrow> path_record option \<Rightarrow> bool" where
  "scan_record I previous current preserved uncertain preserve_all generation lo hi path after \<longleftrightarrow>
     (case fmlookup current path of
        Some e \<Rightarrow> if entry_changed previous path e
          then \<exists>v. advanced (li_replica I) lo hi
                 (entry_base previous (correlate_renames previous current preserved uncertain preserve_all) path) v \<and>
               after = Some (to_record I e v generation)
          else after = fmlookup previous path
      | None \<Rightarrow> (case fmlookup previous path of
          Some r \<Rightarrow> if vanished current preserved uncertain preserve_all path r
            then \<exists>v. advanced (li_replica I) lo hi (pr_version r) v \<and> after = Some (bury r v generation)
            else after = Some r
        | None \<Rightarrow> after = None))"

lemma sources_vanished:
  assumes "path \<in> sources previous (correlate_renames previous current preserved uncertain preserve_all) rows"
  obtains r where "fmlookup previous path = Some r" "vanished current preserved uncertain preserve_all path r"
    "fmlookup current path = None"
proof -
  from assms obtain to where "fmlookup (correlate_renames previous current preserved uncertain preserve_all) to = Some path"
    unfolding sources_def by auto
  then show ?thesis by (rule renames_source) (rule that; auto simp: vanished_def fmdom_notD)
qed

lemma scan_record_of_loops:
  assumes wa: "written_at I previous (correlate_renames previous current preserved uncertain preserve_all) generation lo mid
      (sorted_list_of_fmap current) (fmlookup previous path) path after1"
    and ma: "removed_at I (\<lambda>path r. vanished current preserved uncertain preserve_all path r \<and> path |\<notin>| renamed)
      generation mid hi (sorted_list_of_fmap previous) after1 path after2"
    and wr: "fset renamed = sources previous (correlate_renames previous current preserved uncertain preserve_all) (sorted_list_of_fmap current)"
    and le: "lo \<le> mid" "mid \<le> hi"
  shows "scan_record I previous current preserved uncertain preserve_all generation lo hi path after2"
proof (cases "fmlookup current path")
  case (Some e)
  then have "path |\<in>| fmdom current" by (rule fmdomI)
  then have "after2 = after1" using ma by (auto simp: removed_at_def vanished_def split: option.splits if_splits)
  with wa Some show ?thesis
    by (auto simp: written_at_def scan_record_def intro: advanced_mono [OF _ order_refl le(2)] split: if_splits)
next
  case None
  let ?src = "sources previous (correlate_renames previous current preserved uncertain preserve_all) (sorted_list_of_fmap current)"
  show ?thesis
  proof (cases "path \<in> ?src")
    case True
    then obtain r where r: "fmlookup previous path = Some r" "vanished current preserved uncertain preserve_all path r"
      by (rule sources_vanished)
    have "path |\<in>| renamed" using True wr by simp
    with r ma have "after2 = after1" by (auto simp: removed_at_def)
    with wa None True r show ?thesis
      by (auto simp: written_at_def scan_record_def intro: advanced_mono [OF _ order_refl le(2)])
  next
    case False
    then have "path |\<notin>| renamed" using wr by simp
    moreover have "after1 = fmlookup previous path" using wa None False by (simp add: written_at_def)
    moreover have "removed_at I (\<lambda>path r. vanished current preserved uncertain preserve_all path r \<and> path |\<notin>| renamed)
        generation lo hi (sorted_list_of_fmap previous) after1 path after2"
      by (rule removed_at_mono [OF ma le(1) order_refl])
    ultimately show ?thesis using None by (auto simp: removed_at_def scan_record_def split: option.splits)
  qed
qed

lemma apply_scan_Inr:
  assumes "apply_scan I previous retries0 scanned preserved uncertain preserve_all failures issues hashed now st = Inr (st', rep)"
  obtains generation and ss :: scan_state where "checked_add (ix_generation st) 1 = Some generation"
    "ix_replica_counter st \<le> ss_counter ss"
    "\<forall>path. scan_record I previous (collect_current scanned) preserved uncertain preserve_all generation
       (ix_replica_counter st) (ss_counter ss) path (fmlookup (ss_next ss) path)"
    "st' = commit_state (ss_next ss) (next_retries I retries0 (collect_current scanned) preserved uncertain preserve_all
       (ss_changes ss) failures now) generation (ss_counter ss) st"
    "sp_collisions rep = collision_groups (live_values (ss_next ss))"
proof -
  let ?current = "collect_current scanned"
  let ?renames = "correlate_renames previous ?current preserved uncertain preserve_all"
  let ?start = "\<lparr>ss_next = previous, ss_counter = ix_replica_counter st, ss_changes = [], ss_unchanged = 0, ss_renamed = {||}\<rparr>"
  from assms obtain generation written ss where g: "checked_add (ix_generation st) 1 = Some generation"
    and w: "fold_res (apply_entry I previous ?renames generation) (sorted_list_of_fmap ?current) ?start = Inr written"
    and m: "fold_res (apply_missing I ?current preserved uncertain preserve_all generation) (sorted_list_of_fmap previous) written = Inr ss"
    and st': "st' = commit_state (ss_next ss) (next_retries I retries0 ?current preserved uncertain preserve_all
       (ss_changes ss) failures now) generation (ss_counter ss) st"
    and rep: "sp_collisions rep = collision_groups (live_values (ss_next ss))"
    unfolding apply_scan_def Let_def by (auto simp: result_simps)
  have "ss_counter ?start \<le> ss_counter written \<and>
    fset (ss_renamed written) = fset (ss_renamed ?start) \<union> sources previous ?renames (sorted_list_of_fmap ?current) \<and>
    (\<forall>path. written_at I previous ?renames generation (ss_counter ?start) (ss_counter written) (sorted_list_of_fmap ?current)
       (fmlookup (ss_next ?start) path) path (fmlookup (ss_next written) path))"
  proof (rule written_entries [OF w])
    show "sc_path e = path" if "(path, e) \<in> set (sorted_list_of_fmap ?current)" for path e
      using that current_path [of scanned path e] by (simp add: in_sorted_list_of_fmap)
    show "src \<noteq> path" if "path \<in> fst ` set (sorted_list_of_fmap ?current)" "fmlookup ?renames path' = Some src" for path path' src
    proof -
      from that(2) obtain r where "vanished ?current preserved uncertain preserve_all src r" by (rule renames_source)
      moreover have "path |\<in>| fmdom ?current" using that(1) by (auto simp: in_sorted_list_of_fmap intro: fmdomI)
      ultimately show ?thesis by (auto simp: vanished_def)
    qed
  qed simp
  then have wc: "ix_replica_counter st \<le> ss_counter written"
    and wr: "fset (ss_renamed written) = sources previous ?renames (sorted_list_of_fmap ?current)"
    and wa: "\<And>path. written_at I previous ?renames generation (ix_replica_counter st) (ss_counter written) (sorted_list_of_fmap ?current)
       (fmlookup previous path) path (fmlookup (ss_next written) path)" by simp_all
  have mc: "ss_counter written \<le> ss_counter ss"
    and ma: "\<And>path. removed_at I (\<lambda>path r. vanished ?current preserved uncertain preserve_all path r \<and> path |\<notin>| ss_renamed written)
       generation (ss_counter written) (ss_counter ss) (sorted_list_of_fmap previous) (fmlookup (ss_next written) path) path (fmlookup (ss_next ss) path)"
    using removed_entries [OF m] by simp_all
  have "scan_record I previous ?current preserved uncertain preserve_all generation
       (ix_replica_counter st) (ss_counter ss) path (fmlookup (ss_next ss) path)" for path
    using scan_record_of_loops [OF wa ma wr wc mc] .
  then show ?thesis using that [OF g order_trans [OF wc mc] _ st' rep] by blast
qed

end
