(* ===== verification/Index_Traverse.thy ===== *)
theory Index_Traverse
  imports Index_Laws
begin

text \<open>
  The traversal accounts for every path it could not rule out: a path that the listings of its ancestor
  directories do not positively show to be absent ends up as a candidate, as an uncertain path or below an
  uncertain prefix. Together with the laws of the loops this bounds what a scan may delete.
\<close>

section \<open>Positive absence\<close>

text \<open>
  \<open>absent l cs\<close>: every directory on the way was listed completely, and the walk along the components ends
  at a name that is not there or at something that is not a directory.
\<close>

fun absent :: "listing \<Rightarrow> string list \<Rightarrow> bool" where
  "absent (ListingFailed message) cs = False"
| "absent (Listing es) [] = False"
| "absent (Listing es) (c # cs) = (\<forall>e \<in> set es. case e of
     ListedError message \<Rightarrow> False
   | NoMetadata name message \<Rightarrow> name \<noteq> c
   | ListedEntry name m sub \<Rightarrow> name = c \<longrightarrow> cs \<noteq> [] \<and> (entry_kind_of (md_type m) = DirectoryEntry \<longrightarrow> absent sub cs))"

definition covered :: "wire_path \<Rightarrow> traversal \<Rightarrow> bool" where
  "covered p tv \<longleftrightarrow> p \<in> re_path ` set (tv_candidates tv) \<or> tv_preserve_all_missing tv \<or>
     should_preserve p (tv_uncertain_paths tv) (tv_uncertain_prefixes tv)"

definition tv_le :: "traversal \<Rightarrow> traversal \<Rightarrow> bool" where
  "tv_le a b \<longleftrightarrow> set (tv_candidates a) \<subseteq> set (tv_candidates b) \<and> fset (tv_uncertain_paths a) \<subseteq> fset (tv_uncertain_paths b) \<and>
     set (tv_uncertain_prefixes a) \<subseteq> set (tv_uncertain_prefixes b) \<and> (tv_preserve_all_missing a \<longrightarrow> tv_preserve_all_missing b)"

lemma tv_le_refl [simp]: "tv_le a a"
  by (simp add: tv_le_def)

lemma tv_le_trans [trans]: "tv_le a b \<Longrightarrow> tv_le b c \<Longrightarrow> tv_le a c"
  unfolding tv_le_def by blast

lemma covered_mono: "covered p a \<Longrightarrow> tv_le a b \<Longrightarrow> covered p b"
  unfolding covered_def tv_le_def should_preserve_def list_ex_iff by blast

lemma tv_le_add_issue [simp]: "tv_le a (add_issue I local kind message b) \<longleftrightarrow> tv_le a b"
  by (simp add: tv_le_def add_issue_def)

lemma tv_le_mark: "tv_le a b \<Longrightarrow> tv_le a (mark_directory_uncertain I dir is_root b)"
  by (auto simp: tv_le_def mark_directory_uncertain_def split: sum.splits)

lemma collect_errors_le: "collect_errors I dir is_root es tv = Inr tv' \<Longrightarrow> tv_le tv tv'"
proof (induction I dir is_root es tv rule: collect_errors.induct)
  case (2 I dir is_root message es tv)
  then have "tv_le (add_issue I dir EnumerationFailed message (mark_directory_uncertain I dir False tv)) tv'"
    by (auto split: if_splits)
  moreover have "tv_le tv (add_issue I dir EnumerationFailed message (mark_directory_uncertain I dir False tv))"
    by (simp add: tv_le_mark)
  ultimately show ?case by (rule tv_le_trans [rotated])
qed auto

lemma collect_le:
  "collect_directory I dir is_root l tv = Inr tv' \<Longrightarrow> tv_le tv tv'"
  "collect_entries I dir is_root es tv = Inr tv' \<Longrightarrow> tv_le tv tv'"
  "collect_entry I dir is_root e tv = Inr tv' \<Longrightarrow> tv_le tv tv'"
proof (induction I dir is_root l tv and I dir is_root es tv and I dir is_root e tv
    arbitrary: tv' and tv' and tv' rule: collect_directory_collect_entries_collect_entry.induct)
  case (2 I dir is_root entries tv)
  then show ?case by (auto simp: result_simps intro: tv_le_trans dest: collect_errors_le)
next
  case (4 I dir is_root e es tv)
  then show ?case by (auto simp: result_simps intro: tv_le_trans)
next
  case (6 I dir is_root name message tv)
  then show ?case
    by (auto simp: Let_def tv_le_mark split: if_splits sum.splits) (auto simp: tv_le_def)
next
  case (7 I dir is_root name m sub tv)
  let ?kind = "entry_kind_of (md_type m)"
  let ?local = "dir @ [name]"
  let ?tv = "\<lambda>path. tv\<lparr>tv_candidates := tv_candidates tv @
    [\<lparr>re_local_path = ?local, re_path = path, re_kind = ?kind, re_fingerprint = metadata_fingerprint m ?kind\<rparr>]\<rparr>"
  have le: "tv_le tv (?tv path)" for path by (auto simp: tv_le_def)
  show ?case
  proof (cases "path_is_ignored I ?local")
    case False
    show ?thesis
    proof (cases "portable_path I ?local")
      case (Inr path)
      show ?thesis
      proof (cases "?kind = DirectoryEntry")
        case True
        with "7.prems" False Inr have "collect_directory I ?local False sub (?tv path) = Inr tv'" by (simp add: Let_def)
        from "7.IH" [OF refl False Inr refl refl True this] le show ?thesis by (rule tv_le_trans [rotated])
      qed (use "7.prems" False Inr le in \<open>auto simp: Let_def\<close>)
    qed (use "7.prems" False in \<open>auto simp: Let_def tv_le_mark\<close>)
  qed (use "7.prems" in simp)
qed (auto simp: tv_le_mark split: if_splits)

section \<open>Ancestors of a path\<close>

lemma strip_components_append [simp]: "strip_components root (root @ cs) = Some cs"
  by (induction root) auto

definition wire_ok :: "wire_path \<Rightarrow> bool" where
  "wire_ok p \<longleftrightarrow> path_ok p \<and> list_all utf8_valid (components p)"

lemma portable_ancestor:
  assumes "wire_ok p" "components p = pre @ cs" "pre \<noteq> []"
  shows "portable_path I (li_root I @ pre) = Inr (join_with ''/'' pre)"
proof -
  have t: "take (length pre) (components p) = pre" using assms(2) by simp
  have "path_ok (join_with ''/'' pre)"
    using path_ok_parent [of p "length pre"] assms(1,3) unfolding t wire_ok_def by simp
  moreover have "list_all utf8_valid pre" using assms(1,2) by (simp add: wire_ok_def)
  ultimately show ?thesis
    by (simp add: portable_path_def wire_path_new_Inr_iff map_err_Inr_iff)
qed

lemma strip_prefix_append [simp]: "strip_prefix p (p @ s) = Some s"
  by (induction p) auto

lemma join_append: "xs \<noteq> [] \<Longrightarrow> ys \<noteq> [] \<Longrightarrow> join_with sep (xs @ ys) = join_with sep xs @ sep @ join_with sep ys"
  by (induction sep xs rule: join_with.induct) (auto simp: join_with_Cons)

lemma starts_below_ancestor:
  assumes "components p = pre @ cs" "pre \<noteq> []"
  shows "starts_below (join_with ''/'' pre) p"
proof (cases "cs = []")
  case True
  then show ?thesis using assms join_components [of p] by (simp add: starts_below_def)
next
  case False
  have "p = join_with ''/'' pre @ ''/'' @ join_with ''/'' cs"
    using join_components [of p] assms join_append [OF assms(2) False, of "''/''"] by simp
  then show ?thesis by (simp add: starts_below_def)
qed

lemma covered_prefix:
  assumes "join_with ''/'' pre \<in> set (tv_uncertain_prefixes tv)" "components p = pre @ cs" "pre \<noteq> []"
  shows "covered p tv"
  using assms starts_below_ancestor [OF assms(2,3)] by (auto simp: covered_def should_preserve_def list_ex_iff)

lemma ignored_covered:
  assumes ok: "wire_ok p" "components p = pre @ cs" and ig: "path_is_ignored I (li_root I @ pre)"
    and root: "\<not> path_is_ignored I (li_root I)" and sub: "set (ignored_prefixes I) \<subseteq> set (tv_uncertain_prefixes tv)"
  shows "covered p tv"
proof -
  from ig obtain i where i: "i \<in> set (li_ignored_paths I)" "prefix i (li_root I @ pre)"
    by (auto simp: path_is_ignored_def list_ex_iff)
  moreover have "\<not> prefix i (li_root I)" using root i(1) by (auto simp: path_is_ignored_def list_ex_iff)
  ultimately obtain pre' rest where pre': "i = li_root I @ pre'" "pre = pre' @ rest" "pre' \<noteq> []"
    by (auto simp: prefix_def append_eq_append_conv2)
  have "portable_path I i = Inr (join_with ''/'' pre')"
    unfolding pre'(1) by (rule portable_ancestor [OF ok(1), of _ "rest @ cs"]) (use ok pre' in auto)
  then have "join_with ''/'' pre' \<in> set (ignored_prefixes I)"
    using i(1) unfolding ignored_prefixes_def List.map_filter_def by force
  then show ?thesis using sub ok(2) pre' by (intro covered_prefix [of pre' tv p "rest @ cs"]) auto
qed

section \<open>Coverage\<close>

lemma mark_covers:
  assumes "wire_ok p" "components p = pre @ cs" "is_root \<or> pre \<noteq> []"
  shows "covered p (add_issue I local kind message (mark_directory_uncertain I (li_root I @ pre) is_root tv))"
proof (cases is_root)
  case True
  then show ?thesis by (simp add: covered_def mark_directory_uncertain_def add_issue_def)
next
  case False
  then have pre: "pre \<noteq> []" using assms(3) by simp
  show ?thesis
    by (rule covered_prefix [OF _ assms(2) pre])
      (simp add: False mark_directory_uncertain_def portable_ancestor [OF assms(1,2) pre] add_issue_def)
qed

lemma collect_errors_covers:
  assumes "collect_errors I (li_root I @ pre) is_root es tv = Inr tv'" "ListedError message \<in> set es"
    "wire_ok p" "components p = pre @ cs" "is_root \<or> pre \<noteq> []"
  shows "covered p tv'"
  using assms(1,2,5)
proof (induction I "li_root I @ pre" is_root es tv rule: collect_errors.induct)
  case (2 I is_root m es tv)
  then have *: "\<not> is_root" "collect_errors I (li_root I @ pre) is_root es
      (add_issue I (li_root I @ pre) EnumerationFailed m (mark_directory_uncertain I (li_root I @ pre) False tv)) = Inr tv'"
    by (auto split: if_splits)
  show ?case
    by (rule covered_mono [OF mark_covers [OF assms(3,4)] collect_errors_le [OF *(2)]]) (use 2 *(1) in auto)
qed auto

text \<open>One entry keeps the path from being absent: it has the next name and leads on, or its kind is unknown.\<close>

fun leads :: "listed \<Rightarrow> string \<Rightarrow> string list \<Rightarrow> bool" where
  "leads (ListedError message) c cs = False"
| "leads (NoMetadata name message) c cs = (name = c)"
| "leads (ListedEntry name m sub) c cs = (name = c \<and> (cs = [] \<or> entry_kind_of (md_type m) = DirectoryEntry \<and> \<not> absent sub cs))"

lemma not_absent_Listing:
  assumes "\<not> absent (Listing es) (c # cs)"
  obtains message where "ListedError message \<in> set es" | e where "e \<in> set es" "leads e c cs"
proof -
  from assms obtain e where e: "e \<in> set es" "\<not> (case e of
     ListedError message \<Rightarrow> False
   | NoMetadata name message \<Rightarrow> name \<noteq> c
   | ListedEntry name m sub \<Rightarrow> name = c \<longrightarrow> cs \<noteq> [] \<and> (entry_kind_of (md_type m) = DirectoryEntry \<longrightarrow> absent sub cs))"
    by auto
  with that show ?thesis by (cases e) auto
qed

lemma candidate_covered:
  assumes "components p = pre @ [c]"
  shows "covered p (tv\<lparr>tv_candidates := tv_candidates tv @
    [\<lparr>re_local_path = local, re_path = join_with ''/'' (pre @ [c]), re_kind = kind, re_fingerprint = fp\<rparr>]\<rparr>)"
  using join_components [of p] assms by (simp add: covered_def)

lemma no_metadata_covers:
  assumes "collect_entry I (li_root I @ pre) is_root (NoMetadata c message) tv = Inr tv'" "wire_ok p" "components p = pre @ c # cs"
    "\<not> path_is_ignored I (li_root I)" "set (ignored_prefixes I) \<subseteq> set (tv_uncertain_prefixes tv)"
  shows "covered p tv'"
proof (cases "path_is_ignored I (li_root I @ pre @ [c])")
  case True
  then have "covered p tv" by (intro ignored_covered [OF assms(2) _ _ assms(4,5), of "pre @ [c]" cs]) (use assms(3) in auto)
  with True assms(1) show ?thesis by simp
next
  case False
  have "portable_path I (li_root I @ pre @ [c]) = Inr (join_with ''/'' (pre @ [c]))"
    using portable_ancestor [OF assms(2), of "pre @ [c]" cs] assms(3) by simp
  with False assms(1,3) show ?thesis
    by (intro covered_prefix [of "pre @ [c]" _ p cs]) (auto simp: add_issue_def)
qed

lemma collect_covers:
  fixes p
  assumes ok: "wire_ok p"
  shows "collect_directory I dir is_root l tv = Inr tv' \<Longrightarrow> dir = li_root I @ pre \<Longrightarrow> components p = pre @ c # cs \<Longrightarrow>
      is_root \<or> pre \<noteq> [] \<Longrightarrow> \<not> path_is_ignored I (li_root I) \<Longrightarrow>
      set (ignored_prefixes I) \<subseteq> set (tv_uncertain_prefixes tv) \<Longrightarrow> \<not> absent l (c # cs) \<Longrightarrow> covered p tv'"
    "collect_entries I dir is_root es tv = Inr tv' \<Longrightarrow> dir = li_root I @ pre \<Longrightarrow> components p = pre @ c # cs \<Longrightarrow>
      is_root \<or> pre \<noteq> [] \<Longrightarrow> \<not> path_is_ignored I (li_root I) \<Longrightarrow>
      set (ignored_prefixes I) \<subseteq> set (tv_uncertain_prefixes tv) \<Longrightarrow> x \<in> set es \<Longrightarrow> leads x c cs \<Longrightarrow> covered p tv'"
    "collect_entry I dir is_root e tv = Inr tv' \<Longrightarrow> dir = li_root I @ pre \<Longrightarrow> components p = pre @ c # cs \<Longrightarrow>
      is_root \<or> pre \<noteq> [] \<Longrightarrow> \<not> path_is_ignored I (li_root I) \<Longrightarrow>
      set (ignored_prefixes I) \<subseteq> set (tv_uncertain_prefixes tv) \<Longrightarrow> leads e c cs \<Longrightarrow> covered p tv'"
proof (induction I dir is_root l tv and I dir is_root es tv and I dir is_root e tv
    arbitrary: tv' pre c cs and tv' pre c cs x and tv' pre c cs rule: collect_directory_collect_entries_collect_entry.induct)
  case (1 I dir is_root message tv)
  then show ?case using mark_covers [OF ok "1.prems"(3), of False I] by (auto split: if_splits)
next
  case (2 I dir is_root entries tv)
  from "2.prems"(1) obtain tv1 where tv1: "collect_errors I dir is_root entries tv = Inr tv1" "collect_entries I dir is_root entries tv1 = Inr tv'"
    by (auto simp: result_simps)
  from "2.prems"(7) show ?case
  proof (cases rule: not_absent_Listing)
    case (1 message)
    from collect_errors_covers [OF tv1(1) [unfolded "2.prems"(2)] 1 ok "2.prems"(3,4)] collect_le(2) [OF tv1(2)]
    show ?thesis by (rule covered_mono)
  next
    case (2 x)
    have "set (ignored_prefixes I) \<subseteq> set (tv_uncertain_prefixes tv1)"
      using collect_errors_le [OF tv1(1)] "2.prems"(6) by (auto simp: tv_le_def)
    from "2.IH" [OF tv1 "2.prems"(2-5) this 2] show ?thesis .
  qed
next
  case (4 I dir is_root e es tv)
  then obtain tv1 where tv1: "collect_entry I dir is_root e tv = Inr tv1" "collect_entries I dir is_root es tv1 = Inr tv'"
    by (auto simp: result_simps)
  show ?case
  proof (cases "x = e")
    case True
    from "4.IH"(1) [OF tv1(1) "4.prems"(2-6)] "4.prems"(8) True have "covered p tv1" by simp
    with collect_le(2) [OF tv1(2)] show ?thesis by (rule covered_mono [rotated])
  next
    case False
    have "set (ignored_prefixes I) \<subseteq> set (tv_uncertain_prefixes tv1)"
      using collect_le(3) [OF tv1(1)] "4.prems"(6) by (auto simp: tv_le_def)
    from "4.IH"(2) [OF tv1 "4.prems"(2-5) this _ "4.prems"(8)] "4.prems"(7) False show ?thesis by simp
  qed
next
  case (6 I dir is_root name message tv)
  then show ?case using no_metadata_covers [OF _ ok "6.prems"(3,5,6)] by simp
next
  case (7 I dir is_root name m sub tv)
  let ?kind = "entry_kind_of (md_type m)"
  let ?pre = "pre @ [c]"
  have name: "name = c" using "7.prems"(7) by simp
  have dir: "dir = li_root I @ pre" by (rule "7.prems"(2))
  have local: "dir @ [name] = li_root I @ ?pre" by (simp add: name dir)
  have comps: "components p = ?pre @ cs" using "7.prems"(3) by simp
  show ?case
  proof (cases "path_is_ignored I (dir @ [name])")
    case True
    then have "covered p tv" using ignored_covered [OF ok comps _ "7.prems"(5,6)] local by simp
    with True "7.prems"(1) show ?thesis by simp
  next
    case False
    have pp: "portable_path I (dir @ [name]) = Inr (join_with ''/'' ?pre)"
      unfolding local by (rule portable_ancestor [OF ok comps]) simp
    let ?tv = "tv\<lparr>tv_candidates := tv_candidates tv @
       [\<lparr>re_local_path = dir @ [name], re_path = join_with ''/'' ?pre, re_kind = ?kind, re_fingerprint = metadata_fingerprint m ?kind\<rparr>]\<rparr>"
    have run: "(if ?kind = DirectoryEntry then collect_directory I (dir @ [name]) False sub ?tv else Inr ?tv) = Inr tv'"
      using "7.prems"(1) False pp by (simp add: Let_def)
    show ?thesis
    proof (cases "cs = []")
      case True
      then have "covered p ?tv" using candidate_covered comps by simp
      moreover have "tv_le ?tv tv'" using run by (auto split: if_splits dest: collect_le(1))
      ultimately show ?thesis by (rule covered_mono)
    next
      case cs: False
      then obtain c' cs' where cs': "cs = c' # cs'" by (cases cs) auto
      with "7.prems"(7) have k: "?kind = DirectoryEntry" "\<not> absent sub (c' # cs')" by auto
      have run': "collect_directory I (dir @ [name]) False sub ?tv = Inr tv'" using run k by simp
      have comps': "components p = ?pre @ c' # cs'" using comps cs' by simp
      have pre': "False \<or> ?pre \<noteq> []" by simp
      have sub': "set (ignored_prefixes I) \<subseteq> set (tv_uncertain_prefixes ?tv)" using "7.prems"(6) by simp
      show ?thesis
        by (rule "7.IH" [OF refl False pp refl refl k(1) run' local comps' pre' "7.prems"(5) sub' k(2)])
    qed
  qed
qed auto

end
