(* ===== verification/Index_Adopt.thy ===== *)
theory Index_Adopt
  imports Index_Traverse
begin

text \<open>
  Adoption of causal records by the local index (\<^verbatim>\<open>crates/deltaweave-index/src/lib.rs\<close>): single peer records,
  direct-push files and whole authoritative snapshots. The state of the disk is what the calls report:
  \<open>symlink_metadata\<close> of a path, the bytes read through an open file and the metadata seen after the read.
\<close>

section \<open>The disk\<close>

datatype stat_result = Stat metadata | NotFound | StatError string

datatype read_result = OpenFailed string | ReadFailed string | ReadBytes "u8 list"

record disk =
  dk_stat :: "string list \<Rightarrow> stat_result"
  dk_read :: "string list \<Rightarrow> read_result"
  dk_stat_after :: "string list \<Rightarrow> stat_result"

definition local_path :: "local_index \<Rightarrow> wire_path \<Rightarrow> string list" where
  "local_path I path = li_root I @ components path"

definition hash_stable_file :: "externs \<Rightarrow> disk \<Rightarrow> string list \<Rightarrow> fingerprint \<Rightarrow> file_hash_failure + hash32" where
  "hash_stable_file E D path before = (case dk_read D path of
     OpenFailed message \<Rightarrow> Inl \<lparr>hx_kind = HashFailed, hx_message = message\<rparr>
   | ReadFailed message \<Rightarrow> Inl \<lparr>hx_kind = HashFailed, hx_message = message\<rparr>
   | ReadBytes bytes \<Rightarrow> (case dk_stat_after D path of
       Stat m \<Rightarrow> let kind = entry_kind_of (md_type m) in
         if kind \<noteq> FileEntry \<or> before \<noteq> metadata_fingerprint m kind
         then Inl \<lparr>hx_kind = MutatedDuringRead,
           hx_message = ''file identity, size, permissions, or modification time changed while hashing''\<rparr>
         else Inr (digest E bytes)
     | NotFound \<Rightarrow> Inl \<lparr>hx_kind = MutatedDuringRead, hx_message = ''metadata disappeared after read: not found''\<rparr>
     | StatError message \<Rightarrow> Inl \<lparr>hx_kind = MutatedDuringRead, hx_message = ''metadata disappeared after read: '' @ message\<rparr>))"

text \<open>\<open>path_is_absent\<close> walks the components below the root.\<close>

fun absent_below :: "disk \<Rightarrow> string list \<Rightarrow> string list \<Rightarrow> index_error + bool" where
  "absent_below D current [] = Inr False"
| "absent_below D current (part # parts) = (case dk_stat D (current @ [part]) of
     NotFound \<Rightarrow> Inr True
   | StatError message \<Rightarrow> Inl InspectFailed
   | Stat m \<Rightarrow> if parts = [] then absent_below D (current @ [part]) parts
       else if md_type m = SymlinkType then Inl SymlinkAncestor
       else if md_type m \<noteq> DirType then Inr True
       else absent_below D (current @ [part]) parts)"

definition path_is_absent :: "local_index \<Rightarrow> disk \<Rightarrow> wire_path \<Rightarrow> index_error + bool" where
  "path_is_absent I D path = absent_below D (li_root I) (components path)"

section \<open>Observations\<close>

record observation =
  ob_file_hash :: hash32
  ob_identity :: "(u64 \<times> u64) option"
  ob_size :: u64
  ob_modified_ns :: "128 word option"
  ob_changed_ns :: "128 word option"
  ob_readonly :: bool

fun reliable_changed_ns_match :: "128 word option \<Rightarrow> 128 word option \<Rightarrow> bool" where
  "reliable_changed_ns_match (Some observed) (Some current) = (observed = current)"
| "reliable_changed_ns_match _ _ = False"

definition observation_trusts_no_rehash :: "observation option \<Rightarrow> fingerprint \<Rightarrow> sync_record \<Rightarrow> bool" where
  "observation_trusts_no_rehash obs fp r = (case obs of None \<Rightarrow> False | Some ob \<Rightarrow>
     if \<not> reliable_changed_ns_match (ob_changed_ns ob) (fp_changed_ns fp) then False
     else ob_file_hash ob = (case sr_content_hash r of None \<Rightarrow> hash_default | Some h \<Rightarrow> h) \<and>
       ob_size ob = fp_size fp \<and> ob_size ob = sr_size r \<and> ob_modified_ns ob = fp_modified_ns fp \<and>
       ob_readonly ob = fp_readonly fp \<and> ob_readonly ob = sr_readonly r \<and>
       ob_identity ob = map_option (\<lambda>identity. (fi_namespace identity, fi_object identity)) (fp_identity fp))"

section \<open>Verifying one record against the disk\<close>

definition tombstone_row :: "local_index \<Rightarrow> sync_record \<Rightarrow> path_record option \<Rightarrow> u64 \<Rightarrow> path_record" where
  "tombstone_row I r existing generation =
     (let row = (case existing of Some row \<Rightarrow> row | None \<Rightarrow>
            \<lparr>pr_schema_version = INDEX_SCHEMA_V1, pr_path = sr_path r, pr_collision_key = collision_key I (sr_path r),
             pr_kind = from_sync_kind (sr_kind r), pr_identity = None, pr_size = sr_size r, pr_modified_ns = None,
             pr_readonly = sr_readonly r, pr_content_hash = sr_content_hash r, pr_version = sr_version r,
             pr_tombstone = True, pr_generation = generation\<rparr>)
      in row\<lparr>pr_kind := from_sync_kind (sr_kind r), pr_size := sr_size r, pr_readonly := sr_readonly r,
           pr_content_hash := sr_content_hash r, pr_version := sr_version r, pr_tombstone := True,
           pr_generation := generation\<rparr>)"

definition adopted_hash :: "externs \<Rightarrow> disk \<Rightarrow> string list \<Rightarrow> sync_record \<Rightarrow> observation option \<Rightarrow> entry_kind \<Rightarrow> fingerprint \<Rightarrow>
    index_error + hash32 option" where
  "adopted_hash E D path r obs kind fp =
     (if kind = FileEntry then
        if observation_trusts_no_rehash obs fp r then Inr (map_option ob_file_hash obs)
        else and_then (map_err (\<lambda>failure. HashVerificationFailed (hx_message failure)) (hash_stable_file E D path fp)) (\<lambda>hash.
          and_then (ensure (fp_size fp = sr_size r \<and> Some hash = sr_content_hash r) ContentMismatch) (\<lambda>_. Inr (Some hash)))
      else and_then (ensure (obs = None) ObservationOnNonFile) (\<lambda>_. Inr None))"

definition live_row :: "local_index \<Rightarrow> sync_record \<Rightarrow> entry_kind \<Rightarrow> fingerprint \<Rightarrow> hash32 option \<Rightarrow> u64 \<Rightarrow> path_record" where
  "live_row I r kind fp content_hash generation =
     \<lparr>pr_schema_version = INDEX_SCHEMA_V1, pr_path = sr_path r, pr_collision_key = collision_key I (sr_path r),
      pr_kind = kind, pr_identity = fp_identity fp, pr_size = fp_size fp, pr_modified_ns = fp_modified_ns fp,
      pr_readonly = fp_readonly fp, pr_content_hash = content_hash, pr_version = sr_version r,
      pr_tombstone = False, pr_generation = generation\<rparr>"

definition verify_adopted_record :: "local_index \<Rightarrow> externs \<Rightarrow> disk \<Rightarrow> sync_record \<Rightarrow> observation option \<Rightarrow>
    (wire_path, path_record) fmap \<Rightarrow> u64 \<Rightarrow> index_error + path_record" where
  "verify_adopted_record I E D r obs records generation =
     (if sr_tombstone r then
        and_then (ensure (obs = None) TombstoneWithObservation) (\<lambda>_.
        and_then (path_is_absent I D (sr_path r)) (\<lambda>gone.
        and_then (ensure gone ObjectStillExists) (\<lambda>_.
          Inr (tombstone_row I r (fmlookup records (sr_path r)) generation))))
      else case dk_stat D (local_path I (sr_path r)) of
        Stat m \<Rightarrow>
          let kind = entry_kind_of (md_type m); fp = metadata_fingerprint m kind
          in and_then (ensure (kind = from_sync_kind (sr_kind r)) KindMismatch) (\<lambda>_.
             and_then (ensure (fp_readonly fp = sr_readonly r) ReadonlyMismatch) (\<lambda>_.
             and_then (adopted_hash E D (local_path I (sr_path r)) r obs kind fp) (\<lambda>content_hash.
               Inr (live_row I r kind fp content_hash generation))))
      | _ \<Rightarrow> Inl InspectFailed)"

section \<open>Adopting records\<close>

definition MAX_SHARE_METADATA :: nat where "MAX_SHARE_METADATA = 2 * 1024 * 1024"

definition commit_adopted_record :: "local_index \<Rightarrow> externs \<Rightarrow> disk \<Rightarrow> sync_record \<Rightarrow> observation option \<Rightarrow> u8 list option \<Rightarrow>
    index_state \<Rightarrow> index_error + index_state" where
  "commit_adopted_record I E D r obs share_metadata st =
     and_then (ok_or (checked_add (ix_generation st) 1) GenerationOverflow) (\<lambda>generation.
     and_then (records_map I st) (\<lambda>records.
     and_then (retries_map st) (\<lambda>retries.
     and_then (verify_adopted_record I E D r obs records generation) (\<lambda>adopted.
       Inr (commit_state_with_share_metadata (fmupd (sr_path r) adopted records) (fmdrop (sr_path r) retries) generation
              (max (ix_replica_counter st) (vv_get (sr_version r) (li_replica I))) share_metadata st)))))"

definition commit_remote_record :: "local_index \<Rightarrow> externs \<Rightarrow> disk \<Rightarrow> sync_record \<Rightarrow> observation option \<Rightarrow> u8 list option \<Rightarrow>
    index_state \<Rightarrow> index_error + index_state" where
  "commit_remote_record I E D r obs share_metadata st =
     and_then (ensure (vv_get (sr_version r) (li_replica I) \<le> ix_replica_counter st) RemoteAdvancesLocalCounter) (\<lambda>_.
       commit_adopted_record I E D r obs share_metadata st)"

definition adopt_materialized_file :: "local_index \<Rightarrow> externs \<Rightarrow> disk \<Rightarrow> wire_path \<Rightarrow> observation \<Rightarrow> index_state \<Rightarrow> index_error + index_state" where
  "adopt_materialized_file I E D path ob st =
     (let version = (case fmlookup (ix_records st) path of None \<Rightarrow> fmempty | Some row \<Rightarrow> pr_version row)
      in and_then (next_replica_counter (ix_replica_counter st) version (li_replica I)) (\<lambda>counter.
        commit_adopted_record I E D \<lparr>sr_schema_version = SYNC_RECORD_SCHEMA_V1, sr_path = path, sr_kind = File,
            sr_size = ob_size ob, sr_content_hash = Some (ob_file_hash ob), sr_readonly = ob_readonly ob,
            sr_version = vv_observe version (li_replica I) counter, sr_tombstone = False\<rparr> (Some ob) None st))"

definition check_record :: "sync_record \<Rightarrow> index_error + unit" where
  "check_record r = map_err InvalidAdoption (record_validate r)"

definition check_observation :: "sync_record \<Rightarrow> observation \<Rightarrow> index_error + unit" where
  "check_observation r ob =
     and_then (ensure (\<not> sr_tombstone r \<and> sr_kind r = File) NotALiveFile) (\<lambda>_.
       ensure (ob_size ob = sr_size r \<and> Some (ob_file_hash ob) = sr_content_hash r) ObservationMismatch)"

definition check_metadata :: "u8 list \<Rightarrow> index_error + unit" where
  "check_metadata metadata = ensure (length metadata \<le> MAX_SHARE_METADATA) MetadataTooLarge"

definition adopt_materialized_record :: "local_index \<Rightarrow> externs \<Rightarrow> disk \<Rightarrow> sync_record \<Rightarrow> observation \<Rightarrow> index_state \<Rightarrow> index_error + index_state" where
  "adopt_materialized_record I E D r ob st =
     and_then (check_record r) (\<lambda>_. and_then (check_observation r ob) (\<lambda>_.
       commit_remote_record I E D r (Some ob) None st))"

definition adopt_verified_record :: "local_index \<Rightarrow> externs \<Rightarrow> disk \<Rightarrow> sync_record \<Rightarrow> index_state \<Rightarrow> index_error + index_state" where
  "adopt_verified_record I E D r st = and_then (check_record r) (\<lambda>_. commit_remote_record I E D r None None st)"

definition set_share_metadata :: "u8 list \<Rightarrow> index_state \<Rightarrow> index_error + index_state" where
  "set_share_metadata metadata st = and_then (check_metadata metadata) (\<lambda>_. Inr (st\<lparr>ix_share_metadata := Some metadata\<rparr>))"

definition adopt_verified_record_with_share_metadata :: "local_index \<Rightarrow> externs \<Rightarrow> disk \<Rightarrow> sync_record \<Rightarrow> u8 list \<Rightarrow> index_state \<Rightarrow> index_error + index_state" where
  "adopt_verified_record_with_share_metadata I E D r metadata st =
     and_then (check_record r) (\<lambda>_. and_then (check_metadata metadata) (\<lambda>_.
       commit_remote_record I E D r None (Some metadata) st))"

definition adopt_materialized_record_with_share_metadata :: "local_index \<Rightarrow> externs \<Rightarrow> disk \<Rightarrow> sync_record \<Rightarrow> observation \<Rightarrow> u8 list \<Rightarrow>
    index_state \<Rightarrow> index_error + index_state" where
  "adopt_materialized_record_with_share_metadata I E D r ob metadata st =
     and_then (check_record r) (\<lambda>_. and_then (check_observation r ob) (\<lambda>_. and_then (check_metadata metadata) (\<lambda>_.
       commit_remote_record I E D r (Some ob) (Some metadata) st)))"

section \<open>Authoritative snapshots\<close>

definition ancestors_of :: "wire_path \<Rightarrow> nat \<Rightarrow> wire_path list" where
  "ancestors_of path stop = map (\<lambda>k. join_with ''/'' (take k (components path))) [1..<stop]"

definition add_name :: "local_index \<Rightarrow> wire_path \<Rightarrow> (string, wire_path) fmap \<Rightarrow> index_error + (string, wire_path) fmap" where
  "add_name I s names = and_then (map_err (\<lambda>_. InvalidAncestor) (wire_path_new s)) (\<lambda>path.
     case fmlookup names (collision_key I path) of
       None \<Rightarrow> Inr (fmupd (collision_key I path) path names)
     | Some previous \<Rightarrow> and_then (ensure (previous = path) AuthoritativeCollision) (\<lambda>_.
         Inr (fmupd (collision_key I path) path names)))"

definition admit_authoritative :: "local_index \<Rightarrow> sync_record \<Rightarrow> (wire_path, sync_record) fmap \<times> (string, wire_path) fmap \<Rightarrow>
    index_error + ((wire_path, sync_record) fmap \<times> (string, wire_path) fmap)" where
  "admit_authoritative I r tables = (case tables of (by_path, names) \<Rightarrow>
     and_then (check_record r) (\<lambda>_.
     and_then (ensure (fmlookup by_path (sr_path r) = None) DuplicateAuthoritativePath) (\<lambda>_.
       let by_path' = fmupd (sr_path r) r by_path
       in if sr_tombstone r then Inr (by_path', names)
          else and_then (ensure (sr_kind r = File \<or> sr_kind r = Directory) UnsupportedAuthoritativeKind) (\<lambda>_.
            and_then (fold_res (add_name I) (ancestors_of (sr_path r) (length (components (sr_path r)) + 1)) names) (\<lambda>names'.
              Inr (by_path', names'))))))"

definition check_parent :: "(wire_path, sync_record) fmap \<Rightarrow> wire_path \<Rightarrow> unit \<Rightarrow> index_error + unit" where
  "check_parent by_path s _ = and_then (map_err (\<lambda>_. InvalidAncestor) (wire_path_new s)) (\<lambda>parent.
     ensure (case fmlookup by_path parent of None \<Rightarrow> False | Some r \<Rightarrow> \<not> sr_tombstone r \<and> sr_kind r = Directory) MissingAncestor)"

definition check_ancestors :: "(wire_path, sync_record) fmap \<Rightarrow> sync_record \<Rightarrow> unit \<Rightarrow> index_error + unit" where
  "check_ancestors by_path r _ = fold_res (check_parent by_path) (ancestors_of (sr_path r) (length (components (sr_path r)))) ()"

definition adopt_row :: "local_index \<Rightarrow> externs \<Rightarrow> disk \<Rightarrow> (wire_path, path_record) fmap \<Rightarrow> u64 \<Rightarrow> sync_record \<Rightarrow>
    (wire_path, path_record) fmap \<times> u64 \<Rightarrow> index_error + ((wire_path, path_record) fmap \<times> u64)" where
  "adopt_row I E D previous generation r acc = (case acc of (adopted, counter) \<Rightarrow>
     and_then (verify_adopted_record I E D r None previous generation) (\<lambda>row.
       Inr (fmupd (sr_path r) row adopted, max counter (vv_get (sr_version r) (li_replica I)))))"

definition adopt_authoritative_snapshot :: "local_index \<Rightarrow> externs \<Rightarrow> disk \<Rightarrow> listing \<Rightarrow> sync_record list \<Rightarrow> u8 list \<Rightarrow>
    index_state \<Rightarrow> index_error + index_state" where
  "adopt_authoritative_snapshot I E D root_listing snapshot metadata st =
     and_then (check_metadata metadata) (\<lambda>_.
     and_then (fold_res (admit_authoritative I) snapshot (fmempty, fmempty)) (\<lambda>(by_path, _).
     and_then (fold_res (check_ancestors by_path) (filter (\<lambda>r. \<not> sr_tombstone r) snapshot) ()) (\<lambda>_.
     and_then (ok_or (checked_add (ix_generation st) 1) GenerationOverflow) (\<lambda>generation.
     and_then (records_map I st) (\<lambda>previous.
     and_then (fold_res (adopt_row I E D previous generation) snapshot (fmempty, ix_replica_counter st)) (\<lambda>(adopted, counter).
     and_then (collect_directory I (li_root I) True root_listing empty_traversal) (\<lambda>tv.
     and_then (ensure (tv_issues tv = [] \<and> tv_uncertain_paths tv = {||} \<and> \<not> tv_preserve_all_missing tv) TraversalIncomplete) (\<lambda>_.
     and_then (ensure (fset_of_list (map re_path (tv_candidates tv)) =
                       fset_of_list (map sr_path (filter (\<lambda>r. \<not> sr_tombstone r) snapshot))) NamespaceDiffers) (\<lambda>_.
       Inr \<lparr>ix_records = adopted, ix_retries = fmempty, ix_generation = generation, ix_replica_counter = counter,
            ix_share_metadata = Some metadata\<rparr>)))))))))"

end
