(* ===== verification/Share_Laws.thy ===== *)
theory Share_Laws
  imports Share_Registry
begin

text \<open>
  The share catalog as a state machine: which operations commit which changes, the catalog invariant
  by rule induction over committed operations, where permissions come from, and what revocation means.
\<close>

section \<open>Operations and runs\<close>

datatype reg_op =
    InsertShare owned_share_config "replica_id fset"
  | MarkReady share_id
  | RememberReplicas share_id "replica_id list"
  | Issue share_ticket
  | Enroll share_ticket endpoint_id "legacy_proof option" "replica_id list"
  | RevokeKey share_id invitation_id
  | RevokeMember share_id endpoint_id
  | StoreRelationship member_relationship

fun committed :: "share_error + (catalog \<times> 'a) \<Rightarrow> catalog option" where
  "committed (Inl e) = None"
| "committed (Inr (cat, r)) = Some cat"

fun run_op :: "registry_env \<Rightarrow> u64 \<Rightarrow> reg_op \<Rightarrow> catalog \<Rightarrow> catalog option" where
  "run_op R now (InsertShare config known) cat = committed (insert_share R config known cat)"
| "run_op R now (MarkReady share) cat = committed (mark_ready R share cat)"
| "run_op R now (RememberReplicas share known) cat = committed (remember_replicas R share known cat)"
| "run_op R now (Issue ticket) cat = committed (reg_issue R now ticket cat)"
| "run_op R now (Enroll ticket peer lp draws) cat =
     Option.bind (enroll R now ticket peer lp draws cat) committed"
| "run_op R now (RevokeKey share invite) cat = committed (revoke_key R now share invite cat)"
| "run_op R now (RevokeMember share peer) cat = committed (revoke_member R now share peer cat)"
| "run_op R now (StoreRelationship rel) cat = committed (store_relationship R rel cat)"

text \<open>A trace lists the committed operations; a refused operation leaves the catalog as it was.\<close>

inductive reaches :: "registry_env \<Rightarrow> catalog \<Rightarrow> (u64 \<times> reg_op) list \<Rightarrow> catalog \<Rightarrow> bool" for R cat0 where
  start: "reaches R cat0 [] cat0"
| step: "reaches R cat0 tr cat \<Longrightarrow> run_op R now op cat = Some cat' \<Longrightarrow> reaches R cat0 (tr @ [(now, op)]) cat'"

text \<open>The change an operation makes to an existing share.\<close>

inductive entry_change ::
    "registry_env \<Rightarrow> u64 \<Rightarrow> endpoint_id \<Rightarrow> reg_op \<Rightarrow> share_id \<Rightarrow> share_entry \<Rightarrow> share_entry \<Rightarrow> bool" for R now owner where
  ready: "entry_change R now owner (MarkReady share) share entry (entry\<lparr>se_ready := True\<rparr>)"
| remember: "entry_change R now owner (RememberReplicas share rs) share entry
     (entry\<lparr>se_known := se_known entry |\<union>| fset_of_list rs\<rparr>)"
| issue: "map_len (se_invitations entry) < 4096 \<Longrightarrow> tb_share_id (st_body ticket) = share \<Longrightarrow>
     ticket_ok (rg_share R) ticket \<Longrightarrow> iv_id iv = tb_invitation_id (st_body ticket) \<Longrightarrow> iv_share_id iv = share \<Longrightarrow>
     iv_permission iv = tb_permission (st_body ticket) \<Longrightarrow> iv_expires_at iv = tb_expires_at (st_body ticket) \<Longrightarrow>
     entry_change R now owner (Issue ticket) share entry
       (entry\<lparr>se_invitations := fmupd (iv_id iv) iv (se_invitations entry)\<rparr>)"
| enroll: "peer \<noteq> owner \<Longrightarrow> tb_share_id (st_body ticket) = share \<Longrightarrow>
     validate_entry R now entry ticket = Inr () \<Longrightarrow> fmlookup (se_members entry) peer = None \<Longrightarrow>
     map_len (se_members entry) < MAX_MEMBERS \<Longrightarrow>
     choose_replica R entry ticket peer lp draws = Some (Inr (mb_replica m)) \<Longrightarrow>
     mb_share_id m = oc_share_id (se_config entry) \<Longrightarrow> mb_owner m = owner \<Longrightarrow> mb_endpoint m = peer \<Longrightarrow>
     mb_permission m = tb_permission (st_body ticket) \<Longrightarrow> mb_revoked_at m = None \<Longrightarrow>
     entry_change R now owner (Enroll ticket peer lp draws) share entry
       (entry\<lparr>se_known := finsert (mb_replica m) (se_known entry), se_members := fmupd peer m (se_members entry)\<rparr>)"
| revoke_key: "fmlookup (se_invitations entry) invite = Some iv \<Longrightarrow> revoked \<noteq> None \<Longrightarrow>
     entry_change R now owner (RevokeKey share invite) share entry
       (entry\<lparr>se_invitations := fmupd invite (iv\<lparr>iv_revoked_at := revoked\<rparr>) (se_invitations entry)\<rparr>)"
| revoke_member: "fmlookup (se_members entry) peer = Some m \<Longrightarrow> mb_revoked_at m = None \<Longrightarrow>
     unat epoch = unat (mb_epoch m) + 1 \<Longrightarrow>
     entry_change R now owner (RevokeMember share peer) share entry
       (entry\<lparr>se_members := fmupd peer (m\<lparr>mb_revoked_at := Some now, mb_epoch := epoch\<rparr>) (se_members entry)\<rparr>)"

inductive catalog_change :: "registry_env \<Rightarrow> u64 \<Rightarrow> reg_op \<Rightarrow> catalog \<Rightarrow> catalog \<Rightarrow> bool" for R now where
  same: "catalog_change R now op cat cat"
| new_share: "oc_owner config = ct_owner cat \<Longrightarrow> oc_replica config \<noteq> resolver R \<Longrightarrow>
     map_len (ct_shares cat) < 256 \<Longrightarrow> fmlookup (ct_shares cat) (oc_share_id config) = None \<Longrightarrow>
     catalog_change R now (InsertShare config known) cat (put_entry (oc_share_id config)
       \<lparr>se_ready = False, se_config = config, se_invitations = fmempty, se_members = fmempty,
        se_known = finsert (resolver R) (finsert (oc_replica config) known)\<rparr> cat)"
| entry: "fmlookup (ct_shares cat) share = Some entry \<Longrightarrow>
     entry_change R now (ct_owner cat) op share entry entry' \<Longrightarrow>
     catalog_change R now op cat (put_entry share entry' cat)"
| relation: "mb_endpoint (rl_membership rel) = ct_owner cat \<Longrightarrow> mb_owner (rl_membership rel) \<noteq> ct_owner cat \<Longrightarrow>
     catalog_change R now (StoreRelationship rel) cat (cat\<lparr>ct_relationships :=
       fmupd (mb_owner (rl_membership rel), mb_share_id (rl_membership rel)) rel (ct_relationships cat)\<rparr>)"

lemma committed_Some: "committed r = Some cat \<longleftrightarrow> (\<exists>x. r = Inr (cat, x))"
  by (cases r rule: committed.cases) auto

lemma reg_update_Inr:
  "reg_update R f cat = Inr (cat', x) \<longleftrightarrow>
     rg_catalog_len R cat \<le> MAX_CATALOG_BYTES \<and> f cat = Inr (cat', x) \<and> rg_catalog_len R cat' \<le> MAX_CATALOG_BYTES"
  by (auto simp: reg_update_def reg_read_def result_simps split: prod.splits)

lemma share_lookup_Inr: "share_lookup cat share = Inr entry \<longleftrightarrow> fmlookup (ct_shares cat) share = Some entry"
  by (simp add: share_lookup_def result_simps)

lemmas reg_simps = committed_Some reg_update_Inr share_lookup_Inr result_simps Let_def

lemma enroll_Inr:
  assumes "enroll R now ticket peer lp draws cat = Some (Inr (cat', m))"
  obtains entry where "fmlookup (ct_shares cat) (tb_share_id (st_body ticket)) = Some entry" "peer \<noteq> ct_owner cat"
    "validate_entry R now entry ticket = Inr ()" "rg_catalog_len R cat' \<le> MAX_CATALOG_BYTES"
    "fmlookup (se_members entry) peer = Some m \<and> mb_revoked_at m = None \<and> cat' = cat \<or>
     fmlookup (se_members entry) peer = None \<and> map_len (se_members entry) < MAX_MEMBERS \<and>
       (\<exists>replica. choose_replica R entry ticket peer lp draws = Some (Inr replica) \<and>
          add_member R now cat entry ticket peer replica = Inr (cat', m))"
proof -
  from assms obtain entry where e: "share_lookup cat (tb_share_id (st_body ticket)) = Inr entry" "peer \<noteq> ct_owner cat"
    "map_option (commit R) (enroll_entry R now ticket peer lp draws cat entry) = Some (Inr (cat', m))"
    by (auto simp: enroll_def reg_read_def result_simps split: sum.splits if_splits)
  from e(3) have r: "enroll_entry R now ticket peer lp draws cat entry = Some (Inr (cat', m))"
    "rg_catalog_len R cat' \<le> MAX_CATALOG_BYTES"
    by (auto simp: commit_def result_simps split: prod.splits)
  from r(1) have "validate_entry R now entry ticket = Inr ()"
    "fmlookup (se_members entry) peer = Some m \<and> mb_revoked_at m = None \<and> cat' = cat \<or>
     fmlookup (se_members entry) peer = None \<and> map_len (se_members entry) < MAX_MEMBERS \<and>
       (\<exists>replica. choose_replica R entry ticket peer lp draws = Some (Inr replica) \<and>
          add_member R now cat entry ticket peer replica = Inr (cat', m))"
    by (auto simp: enroll_entry_def existing_member_def result_simps
        split: sum.splits option.splits if_splits)
  with that e r(2) show ?thesis by (simp add: share_lookup_Inr)
qed

lemma run_op_change: "run_op R now op cat = Some cat' \<Longrightarrow> catalog_change R now op cat cat'"
proof (induction R now op cat rule: run_op.induct)
  case (1 R now config known cat)
  then show ?case by (auto simp: insert_share_def reg_simps intro: catalog_change.new_share)
next
  case (2 R now share cat)
  then show ?case by (auto simp: mark_ready_def reg_simps intro: catalog_change.entry entry_change.ready)
next
  case (3 R now share known cat)
  then show ?case
    by (auto simp: remember_replicas_def reg_simps intro: catalog_change.entry entry_change.remember)
next
  case (4 R now ticket cat)
  then show ?case
    by (auto simp: reg_issue_def reg_simps verify_at_iff intro!: catalog_change.entry)
      (rule entry_change.issue [where iv = "\<lparr>iv_id = _, iv_share_id = _, iv_permission = _,
          iv_expires_at = _, iv_revoked_at = None, iv_digest = _\<rparr>", simplified]; simp)
next
  case (5 R now ticket peer lp draws cat)
  then obtain m where m: "enroll R now ticket peer lp draws cat = Some (Inr (cat', m))"
    by (cases "enroll R now ticket peer lp draws cat") (auto simp: committed_Some)
  from this show ?case
  proof (rule enroll_Inr)
    fix entry
    assume entry: "fmlookup (ct_shares cat) (tb_share_id (st_body ticket)) = Some entry" "peer \<noteq> ct_owner cat"
      "validate_entry R now entry ticket = Inr ()"
      and "fmlookup (se_members entry) peer = Some m \<and> mb_revoked_at m = None \<and> cat' = cat \<or>
       fmlookup (se_members entry) peer = None \<and> map_len (se_members entry) < MAX_MEMBERS \<and>
       (\<exists>replica. choose_replica R entry ticket peer lp draws = Some (Inr replica) \<and>
          add_member R now cat entry ticket peer replica = Inr (cat', m))"
    then show ?thesis
    proof (elim disjE conjE exE)
      assume "cat' = cat"
      then show ?thesis by (simp add: catalog_change.same)
    next
      fix replica assume new: "fmlookup (se_members entry) peer = None" "map_len (se_members entry) < MAX_MEMBERS"
        "choose_replica R entry ticket peer lp draws = Some (Inr replica)"
        "add_member R now cat entry ticket peer replica = Inr (cat', m)"
      from new(4) have m: "mb_replica m = replica" "mb_share_id m = oc_share_id (se_config entry)"
        "mb_owner m = ct_owner cat" "mb_endpoint m = peer" "mb_permission m = tb_permission (st_body ticket)"
        "mb_revoked_at m = None"
        "cat' = put_entry (tb_share_id (st_body ticket)) (entry\<lparr>se_known := finsert (mb_replica m) (se_known entry),
           se_members := fmupd peer m (se_members entry)\<rparr>) cat"
        by (auto simp: add_member_def result_simps Let_def)
      have "entry_change R now (ct_owner cat) (Enroll ticket peer lp draws) (tb_share_id (st_body ticket)) entry
          (entry\<lparr>se_known := finsert (mb_replica m) (se_known entry), se_members := fmupd peer m (se_members entry)\<rparr>)"
        using entry new m by (intro entry_change.enroll) simp_all
      with entry(1) m(7) show ?thesis by (auto intro: catalog_change.entry)
    qed
  qed
next
  case (6 R now share invite cat)
  then show ?case
    by (auto simp: revoke_key_def reg_simps intro!: catalog_change.entry entry_change.revoke_key split: option.split)
next
  case (7 R now share peer cat)
  then obtain entry m where e: "fmlookup (ct_shares cat) share = Some entry" "fmlookup (se_members entry) peer = Some m"
    by (auto simp: revoke_member_def reg_simps)
  show ?case
  proof (cases "mb_revoked_at m")
    case None
    with 7 e obtain epoch where "checked_add (mb_epoch m) 1 = Some epoch"
      "cat' = put_entry share (entry\<lparr>se_members := fmupd peer
             (m\<lparr>mb_revoked_at := Some now, mb_epoch := epoch\<rparr>) (se_members entry)\<rparr>) cat"
      by (auto simp: revoke_member_def reg_simps)
    with e None show ?thesis
      by (auto intro!: catalog_change.entry entry_change.revoke_member dest: checked_add_Some)
  next
    case (Some at)
    with 7 e have "cat' = cat" by (auto simp: revoke_member_def reg_simps)
    then show ?thesis by (simp add: catalog_change.same)
  qed
next
  case (8 R now rel cat)
  then show ?case by (auto simp: store_relationship_def reg_simps intro: catalog_change.relation)
qed

section \<open>The catalog invariant\<close>

definition entry_inv :: "registry_env \<Rightarrow> endpoint_id \<Rightarrow> share_id \<Rightarrow> share_entry \<Rightarrow> bool" where
  "entry_inv R owner share entry \<longleftrightarrow>
     oc_share_id (se_config entry) = share \<and> oc_owner (se_config entry) = owner \<and>
     oc_replica (se_config entry) \<noteq> resolver R \<and>
     {|resolver R, oc_replica (se_config entry)|} |\<subseteq>| se_known entry \<and>
     map_len (se_invitations entry) \<le> 4096 \<and> map_len (se_members entry) \<le> MAX_MEMBERS \<and>
     (\<forall>i iv. fmlookup (se_invitations entry) i = Some iv \<longrightarrow> iv_id iv = i \<and> iv_share_id iv = share) \<and>
     (\<forall>p m. fmlookup (se_members entry) p = Some m \<longrightarrow>
        mb_endpoint m = p \<and> mb_share_id m = share \<and> mb_owner m = owner \<and> p \<noteq> owner \<and>
        mb_replica m |\<in>| se_known entry \<and> mb_replica m \<notin> {resolver R, oc_replica (se_config entry)}) \<and>
     (\<forall>p q m n. fmlookup (se_members entry) p = Some m \<longrightarrow> fmlookup (se_members entry) q = Some n \<longrightarrow>
        mb_replica m = mb_replica n \<longrightarrow> p = q)"

definition catalog_inv :: "registry_env \<Rightarrow> endpoint_id \<Rightarrow> catalog \<Rightarrow> bool" where
  "catalog_inv R owner cat \<longleftrightarrow>
     ct_version cat = 3 \<and> ct_owner cat = owner \<and> map_len (ct_shares cat) \<le> 256 \<and>
     (\<forall>share entry. fmlookup (ct_shares cat) share = Some entry \<longrightarrow> entry_inv R owner share entry) \<and>
     (\<forall>o' s rel. fmlookup (ct_relationships cat) (o', s) = Some rel \<longrightarrow>
        mb_endpoint (rl_membership rel) = owner \<and> mb_owner (rl_membership rel) = o' \<and>
        mb_share_id (rl_membership rel) = s \<and> o' \<noteq> owner)"

lemma map_len_fmupd: "map_len (fmupd k v m) \<le> Suc (map_len m)"
  "fmlookup m k = Some w \<Longrightarrow> fcard (finsert k (fmdom m)) = map_len m"
  by (simp_all add: fcard_finsert_if fmlookup_dom_iff)

lemma draw_replica_Some: "draw_replica known rs = Some r \<Longrightarrow> r |\<notin>| known \<and> r \<in> set rs"
  by (induction rs) (auto split: if_splits)

lemma choose_replica_fresh:
  assumes "choose_replica R entry ticket peer lp draws = Some (Inr r)" "entry_inv R owner share entry"
  shows "r \<notin> {resolver R, oc_replica (se_config entry)}"
    and "fmlookup (se_members entry) p = Some m \<Longrightarrow> mb_replica m \<noteq> r"
proof -
  have "r \<notin> {resolver R, oc_replica (se_config entry)} \<and>
      (\<forall>p m. fmlookup (se_members entry) p = Some m \<longrightarrow> mb_replica m \<noteq> r)"
  proof (cases lp)
    case None
    with assms(1) have "r |\<notin>| se_known entry"
      by (auto simp: choose_replica_def dest: draw_replica_Some split: if_splits)
    with assms(2) show ?thesis unfolding entry_inv_def by blast
  next
    case (Some p)
    with assms(1) show ?thesis
      unfolding choose_replica_def set_map_values by (auto simp: result_simps)
  qed
  then show "r \<notin> {resolver R, oc_replica (se_config entry)}"
    "fmlookup (se_members entry) p = Some m \<Longrightarrow> mb_replica m \<noteq> r" by blast+
qed

lemma entry_inv_change:
  assumes "entry_change R now owner op share entry entry'" "entry_inv R owner share entry"
  shows "entry_inv R owner share entry'"
  using assms
proof (induction rule: entry_change.induct)
  case (ready share entry)
  then show ?case by (simp add: entry_inv_def)
next
  case (remember share rs entry)
  then show ?case unfolding entry_inv_def by auto
next
  case (issue entry ticket share iv)
  have "map_len (fmupd (iv_id iv) iv (se_invitations entry)) \<le> 4096"
    using issue.hyps(1) map_len_fmupd(1) [of "iv_id iv" iv "se_invitations entry"] by linarith
  with issue show ?case unfolding entry_inv_def by auto
next
  case (enroll peer ticket share entry lp draws m)
  have "map_len (fmupd peer m (se_members entry)) \<le> MAX_MEMBERS"
    using enroll.hyps(5) map_len_fmupd(1) [of peer m "se_members entry"] by linarith
  moreover note fresh = choose_replica_fresh [OF enroll.hyps(6) enroll.prems]
  moreover have "mb_share_id m = share" using enroll by (simp add: entry_inv_def)
  ultimately show ?case
    using enroll.prems enroll.hyps(1,8,9) unfolding entry_inv_def
    by (simp split: if_splits) (metis fresh(2))
next
  case (revoke_key entry invite iv revoked share)
  then show ?case by (auto simp: entry_inv_def map_len_fmupd(2))
next
  case (revoke_member entry peer m epoch share)
  then show ?case unfolding entry_inv_def by (auto simp: map_len_fmupd(2))
qed

lemma catalog_inv_put:
  assumes "catalog_inv R owner cat" "entry_inv R owner share entry'" "map_len (fmupd share entry' (ct_shares cat)) \<le> 256"
  shows "catalog_inv R owner (put_entry share entry' cat)"
  using assms by (auto simp: catalog_inv_def put_entry_def)

lemma catalog_inv_change:
  assumes "catalog_change R now op cat cat'" "catalog_inv R owner cat"
  shows "catalog_inv R owner cat'"
  using assms
proof (induction rule: catalog_change.induct)
  case (new_share config cat known)
  let ?e = "\<lparr>se_ready = False, se_config = config, se_invitations = fmempty, se_members = fmempty,
        se_known = finsert (resolver R) (finsert (oc_replica config) known)\<rparr>"
  have "entry_inv R owner (oc_share_id config) ?e"
    using new_share by (auto simp: entry_inv_def catalog_inv_def fcard_fempty)
  moreover have "map_len (fmupd (oc_share_id config) ?e (ct_shares cat)) \<le> 256"
    using new_share.hyps(3) map_len_fmupd(1) [of "oc_share_id config" ?e "ct_shares cat"] by linarith
  ultimately show ?case using new_share.prems by (intro catalog_inv_put)
next
  case (entry cat share entry op entry')
  then have "entry_inv R owner share entry'" "ct_owner cat = owner"
    using entry_inv_change by (auto simp: catalog_inv_def)
  moreover have "map_len (fmupd share entry' (ct_shares cat)) \<le> 256"
    using entry by (simp add: catalog_inv_def map_len_fmupd(2) [OF entry.hyps(1)])
  ultimately show ?case using entry.prems by (intro catalog_inv_put)
next
  case (relation rel cat)
  then show ?case by (auto simp: catalog_inv_def)
qed

lemma catalog_inv_fresh: "catalog_inv R owner (fresh_catalog owner)"
  by (simp add: catalog_inv_def fresh_catalog_def fcard_fempty)

lemma reaches_inv: "reaches R cat0 tr cat \<Longrightarrow> catalog_inv R owner cat0 \<Longrightarrow> catalog_inv R owner cat"
  by (induction rule: reaches.induct) (auto dest: run_op_change intro: catalog_inv_change)

section \<open>Where invitations and memberships come from\<close>

lemma validate_entry_Inr:
  "validate_entry R now entry ticket = Inr u \<longleftrightarrow>
     ticket_ok (rg_share R) ticket \<and> unexpired ticket now \<and>
     (\<exists>iv. fmlookup (se_invitations entry) (tb_invitation_id (st_body ticket)) = Some iv \<and>
        iv_revoked_at iv = None \<and> issuance_digest (rg_share R) ticket = Inr (iv_digest iv) \<and>
        iv_share_id iv = tb_share_id (st_body ticket) \<and> iv_permission iv = tb_permission (st_body ticket) \<and>
        iv_expires_at iv = tb_expires_at (st_body ticket) \<and> oc_owner (se_config entry) = tb_owner (st_body ticket))"
  unfolding validate_entry_def Let_def by (auto simp: result_simps verify_at_iff)

definition issued :: "(u64 \<times> reg_op) list \<Rightarrow> share_id \<Rightarrow> invitation_id \<Rightarrow> permission \<Rightarrow> bool" where
  "issued tr share invite perm \<longleftrightarrow> (\<exists>n t. (n, Issue t) \<in> set tr \<and> tb_share_id (st_body t) = share \<and>
     tb_invitation_id (st_body t) = invite \<and> tb_permission (st_body t) = perm)"

definition admitted :: "registry_env \<Rightarrow> (u64 \<times> reg_op) list \<Rightarrow> endpoint_id \<Rightarrow> share_id \<Rightarrow> endpoint_id \<Rightarrow> permission \<Rightarrow> bool" where
  "admitted R tr owner share peer perm \<longleftrightarrow> (\<exists>n t lp draws. (n, Enroll t peer lp draws) \<in> set tr \<and>
     tb_share_id (st_body t) = share \<and> tb_owner (st_body t) = owner \<and> tb_permission (st_body t) = perm \<and>
     ticket_ok (rg_share R) t \<and> unexpired t n \<and> issued tr share (tb_invitation_id (st_body t)) perm)"

definition traced :: "registry_env \<Rightarrow> (u64 \<times> reg_op) list \<Rightarrow> endpoint_id \<Rightarrow> share_id \<Rightarrow> share_entry \<Rightarrow> bool" where
  "traced R tr owner share entry \<longleftrightarrow>
     (\<forall>i iv. fmlookup (se_invitations entry) i = Some iv \<longrightarrow> issued tr share i (iv_permission iv)) \<and>
     (\<forall>p m. fmlookup (se_members entry) p = Some m \<longrightarrow> admitted R tr owner share p (mb_permission m))"

lemma issued_mono: "issued tr share i perm \<Longrightarrow> issued (tr @ [e]) share i perm"
  by (auto simp: issued_def)

lemma admitted_mono: "admitted R tr owner share p perm \<Longrightarrow> admitted R (tr @ [e]) owner share p perm"
proof -
  assume "admitted R tr owner share p perm"
  then obtain n t lp draws where t: "(n, Enroll t p lp draws) \<in> set tr" "tb_share_id (st_body t) = share"
    "tb_owner (st_body t) = owner" "tb_permission (st_body t) = perm" "ticket_ok (rg_share R) t" "unexpired t n"
    "issued tr share (tb_invitation_id (st_body t)) perm" unfolding admitted_def by blast
  then have "(n, Enroll t p lp draws) \<in> set (tr @ [e])" "issued (tr @ [e]) share (tb_invitation_id (st_body t)) perm"
    by (simp_all add: issued_mono)
  with t(2-6) show ?thesis unfolding admitted_def by blast
qed

lemma traced_mono: "traced R tr owner share entry \<Longrightarrow> traced R (tr @ [e]) owner share entry"
  by (auto simp: traced_def intro: issued_mono admitted_mono)

lemma traced_change:
  assumes "entry_change R now owner op share entry entry'" "traced R tr owner share entry" "entry_inv R owner share entry"
  shows "traced R (tr @ [(now, op)]) owner share entry'"
  using assms(1,2,3)
proof (induction rule: entry_change.induct)
  case (issue entry ticket share iv)
  have "issued (tr @ [(now, Issue ticket)]) share (iv_id iv) (iv_permission iv)"
    using issue.hyps unfolding issued_def by (intro exI [of _ now] exI [of _ ticket]) simp
  with traced_mono [OF issue.prems(1)] show ?case by (auto simp: traced_def)
next
  case (enroll peer ticket share entry lp draws m)
  from enroll.hyps(3) [unfolded validate_entry_Inr] obtain iv where
    iv: "fmlookup (se_invitations entry) (tb_invitation_id (st_body ticket)) = Some iv"
      "iv_permission iv = tb_permission (st_body ticket)"
    and ok: "ticket_ok (rg_share R) ticket" "unexpired ticket now" "oc_owner (se_config entry) = tb_owner (st_body ticket)"
    by blast
  let ?tr = "tr @ [(now, Enroll ticket peer lp draws)]"
  have "issued ?tr share (tb_invitation_id (st_body ticket)) (tb_permission (st_body ticket))"
    using enroll.prems(1) iv unfolding traced_def by (metis issued_mono)
  moreover have "tb_owner (st_body ticket) = owner" using ok(3) enroll.prems(2) by (simp add: entry_inv_def)
  ultimately have "admitted R ?tr owner share peer (mb_permission m)"
    using ok enroll.hyps(2,10) unfolding admitted_def
    by (intro exI [of _ now] exI [of _ ticket] exI [of _ lp] exI [of _ draws]) simp
  with traced_mono [OF enroll.prems(1)] show ?case by (auto simp: traced_def)
next
  case (revoke_key entry invite iv revoked share)
  with traced_mono [OF revoke_key.prems(1)] show ?case by (auto simp: traced_def)
next
  case (revoke_member entry peer m epoch share)
  with traced_mono [OF revoke_member.prems(1)] show ?case by (auto simp: traced_def)
qed (auto simp: traced_def intro: issued_mono admitted_mono)

definition all_traced :: "registry_env \<Rightarrow> (u64 \<times> reg_op) list \<Rightarrow> endpoint_id \<Rightarrow> catalog \<Rightarrow> bool" where
  "all_traced R tr owner cat \<longleftrightarrow>
     (\<forall>share entry. fmlookup (ct_shares cat) share = Some entry \<longrightarrow> traced R tr owner share entry)"

lemma all_traced_change:
  assumes "catalog_change R now op cat cat'" "all_traced R tr owner cat" "catalog_inv R owner cat"
  shows "all_traced R (tr @ [(now, op)]) owner cat'"
  using assms
proof (induction rule: catalog_change.induct)
  case (entry cat share entry op entry')
  then have "traced R (tr @ [(now, op)]) owner share entry'"
    by (intro traced_change) (auto simp: all_traced_def catalog_inv_def)
  with entry show ?case by (auto simp: all_traced_def put_entry_def intro: traced_mono)
qed (auto simp: all_traced_def put_entry_def traced_def intro: issued_mono admitted_mono)

lemma reaches_traced:
  assumes "reaches R (fresh_catalog owner) tr cat"
  shows "all_traced R tr owner cat"
  using assms
proof (induction rule: reaches.induct)
  case start
  then show ?case by (simp add: all_traced_def fresh_catalog_def)
next
  case (step tr cat now op cat')
  with run_op_change reaches_inv [OF _ catalog_inv_fresh] show ?case by (blast intro: all_traced_change)
qed

lemma authorize_Inr:
  "authorize R cat share peer write = Inr m \<longleftrightarrow>
     rg_catalog_len R cat \<le> MAX_CATALOG_BYTES \<and>
     (\<exists>entry. fmlookup (ct_shares cat) share = Some entry \<and> fmlookup (se_members entry) peer = Some m) \<and>
     mb_revoked_at m = None \<and> (write \<longrightarrow> mb_permission m = ReadWrite)"
  by (auto simp: authorize_def reg_read_def reg_simps)

section \<open>Memberships only move forward\<close>

definition member_at :: "catalog \<Rightarrow> share_id \<Rightarrow> endpoint_id \<Rightarrow> membership option" where
  "member_at cat share peer = Option.bind (fmlookup (ct_shares cat) share) (\<lambda>entry. fmlookup (se_members entry) peer)"

definition later_member :: "membership \<Rightarrow> membership \<Rightarrow> bool" where
  "later_member m m' \<longleftrightarrow> mb_permission m' = mb_permission m \<and> mb_replica m' = mb_replica m \<and>
     (mb_revoked_at m \<noteq> None \<longrightarrow> m' = m) \<and> unat (mb_epoch m) \<le> unat (mb_epoch m')"

lemma later_member_refl [simp]: "later_member m m"
  by (simp add: later_member_def)

lemma later_member_trans: "later_member a b \<Longrightarrow> later_member b c \<Longrightarrow> later_member a c"
  by (auto simp: later_member_def)

lemma entry_change_member:
  assumes "entry_change R now owner op share entry entry'" "fmlookup (se_members entry) p = Some m"
  shows "\<exists>m'. fmlookup (se_members entry') p = Some m' \<and> later_member m m'"
  using assms
  by (induction rule: entry_change.induct) (auto simp: later_member_def)

lemma member_at_change:
  assumes "catalog_change R now op cat cat'" "member_at cat share p = Some m"
  shows "\<exists>m'. member_at cat' share p = Some m' \<and> later_member m m'"
  using assms
proof (induction rule: catalog_change.induct)
  case (entry cat s entry op entry')
  show ?case
  proof (cases "s = share")
    case True
    with entry have "fmlookup (se_members entry) p = Some m" by (simp add: member_at_def)
    from entry_change_member [OF entry.hyps(2) this] True show ?thesis
      by (auto simp: member_at_def put_entry_def)
  next
    case False
    with entry.prems show ?thesis by (auto simp: member_at_def put_entry_def)
  qed
qed (auto simp: member_at_def put_entry_def)

lemma member_at_reaches:
  assumes "reaches R cat tr cat'" "member_at cat share p = Some m"
  shows "\<exists>m'. member_at cat' share p = Some m' \<and> later_member m m'"
  using assms
proof (induction rule: reaches.induct)
  case (step tr cat1 now op cat2)
  then obtain m1 where m1: "member_at cat1 share p = Some m1" "later_member m m1" by blast
  from member_at_change [OF run_op_change [OF step.hyps(2)] m1(1)] m1(2) show ?case
    by (blast intro: later_member_trans)
qed auto

lemma run_op_len: "run_op R now op cat = Some cat' \<Longrightarrow> rg_catalog_len R cat' \<le> MAX_CATALOG_BYTES"
proof (induction R now op cat rule: run_op.induct)
  case (5 R now ticket peer lp draws cat)
  then obtain m where "enroll R now ticket peer lp draws cat = Some (Inr (cat', m))"
    by (cases "enroll R now ticket peer lp draws cat") (auto simp: committed_Some)
  then show ?case by (rule enroll_Inr)
qed (auto simp: insert_share_def mark_ready_def remember_replicas_def reg_issue_def revoke_key_def
    revoke_member_def store_relationship_def reg_simps)

lemma reaches_len:
  "reaches R cat tr cat' \<Longrightarrow> rg_catalog_len R cat \<le> MAX_CATALOG_BYTES \<Longrightarrow> rg_catalog_len R cat' \<le> MAX_CATALOG_BYTES"
  by (induction rule: reaches.induct) (auto dest: run_op_len)

lemma enroll_revoked:
  assumes "member_at cat (tb_share_id (st_body ticket)) peer = Some m" "mb_revoked_at m \<noteq> None"
  shows "\<exists>e. enroll R now ticket peer lp draws cat = Some (Inl e)"
proof -
  from assms(1) obtain entry where e: "fmlookup (ct_shares cat) (tb_share_id (st_body ticket)) = Some entry"
    "fmlookup (se_members entry) peer = Some m" by (auto simp: member_at_def bind_eq_Some_conv)
  have "\<exists>err. enroll_entry R now ticket peer lp draws cat entry = Some (Inl err)"
    using e(2) assms(2) by (auto simp: enroll_entry_def existing_member_def ensure_def split: sum.split)
  with e(1) show ?thesis
    by (auto simp: enroll_def share_lookup_def ok_or_def reg_read_def ensure_def commit_def)
qed

section \<open>Revoked invitations\<close>

definition invitation_at :: "catalog \<Rightarrow> share_id \<Rightarrow> invitation_id \<Rightarrow> invitation option" where
  "invitation_at cat share i = Option.bind (fmlookup (ct_shares cat) share) (\<lambda>entry. fmlookup (se_invitations entry) i)"

definition reissues :: "share_id \<Rightarrow> invitation_id \<Rightarrow> reg_op \<Rightarrow> bool" where
  "reissues share i op \<longleftrightarrow> (\<exists>t. op = Issue t \<and> tb_share_id (st_body t) = share \<and> tb_invitation_id (st_body t) = i)"

lemma invitation_revoked_change:
  assumes "catalog_change R now op cat cat'" "\<not> reissues share i op"
    and "invitation_at cat share i = Some iv" "iv_revoked_at iv \<noteq> None"
  shows "\<exists>iv'. invitation_at cat' share i = Some iv' \<and> iv_revoked_at iv' \<noteq> None"
  using assms
proof (induction rule: catalog_change.induct)
  case (entry cat s entry op entry')
  show ?case
  proof (cases "s = share")
    case True
    with entry have "fmlookup (se_invitations entry) i = Some iv" by (simp add: invitation_at_def)
    with entry.hyps(2) entry.prems True have "\<exists>iv'. fmlookup (se_invitations entry') i = Some iv' \<and> iv_revoked_at iv' \<noteq> None"
      by (induction rule: entry_change.induct) (auto simp: reissues_def)
    with True show ?thesis by (auto simp: invitation_at_def put_entry_def)
  next
    case False
    with entry.prems show ?thesis by (auto simp: invitation_at_def put_entry_def)
  qed
qed (auto simp: invitation_at_def put_entry_def)

lemma invitation_revoked_reaches:
  assumes "reaches R cat tr cat'" "\<forall>(n, op) \<in> set tr. \<not> reissues share i op"
    and "invitation_at cat share i = Some iv" "iv_revoked_at iv \<noteq> None"
  shows "\<exists>iv'. invitation_at cat' share i = Some iv' \<and> iv_revoked_at iv' \<noteq> None"
  using assms
proof (induction rule: reaches.induct)
  case (step tr cat1 now op cat2)
  then obtain iv1 where "invitation_at cat1 share i = Some iv1" "iv_revoked_at iv1 \<noteq> None" by auto
  with invitation_revoked_change [OF run_op_change [OF step.hyps(2)]] step.prems(1) show ?case by auto
qed auto

section \<open>Enrollment returns\<close>

lemma draw_replica_returns:
  assumes "fcard known < card (set draws)"
  shows "draw_replica known draws \<noteq> None"
proof
  assume "draw_replica known draws = None"
  then have "set draws \<subseteq> fset known"
    by (induction draws) (auto split: if_splits)
  then have "card (set draws) \<le> fcard known" by (simp add: fcard.rep_eq card_mono)
  with assms show False by simp
qed

section \<open>Revoked members\<close>

lemma revoked_member_forever:
  assumes "run_op R now (RevokeMember share peer) cat = Some cat'" "reaches R cat' tr cat''"
  obtains m where "member_at cat'' share peer = Some m" "mb_revoked_at m \<noteq> None"
    "rg_catalog_len R cat'' \<le> MAX_CATALOG_BYTES"
proof -
  from assms(1) obtain entry m where e: "fmlookup (ct_shares cat) share = Some entry" "fmlookup (se_members entry) peer = Some m"
    by (auto simp: revoke_member_def reg_simps)
  have "\<exists>m'. member_at cat' share peer = Some m' \<and> mb_revoked_at m' \<noteq> None"
  proof (cases "mb_revoked_at m")
    case None
    with assms(1) e show ?thesis by (auto simp: revoke_member_def reg_simps member_at_def put_entry_def)
  next
    case (Some at)
    with assms(1) e show ?thesis by (auto simp: revoke_member_def reg_simps member_at_def)
  qed
  then obtain m1 where "member_at cat' share peer = Some m1" "mb_revoked_at m1 \<noteq> None" by blast
  with member_at_reaches [OF assms(2)] obtain m2 where "member_at cat'' share peer = Some m2" "mb_revoked_at m2 \<noteq> None"
    by (metis later_member_def)
  with reaches_len [OF assms(2) run_op_len [OF assms(1)]] that show ?thesis by blast
qed

lemma authorize_revoked:
  assumes "member_at cat share peer = Some m" "mb_revoked_at m \<noteq> None" "rg_catalog_len R cat \<le> MAX_CATALOG_BYTES"
  shows "authorize R cat share peer write = Inl MemberRevoked"
  using assms
  by (auto simp: authorize_def reg_read_def ensure_def share_lookup_def ok_or_def member_at_def bind_eq_Some_conv)

end
