(* ===== verification/Share_Runtime.thy ===== *)
theory Share_Runtime
  imports Share_Laws Core_Record
begin

text \<open>
  The owner's acceptance of remote mutations, from
  \<^verbatim>\<open>crates/deltaweave-net/src/share/runtime.rs\<close>: per-replica counter ceilings, the check of a
  candidate record against them (\<open>candidate_metadata_for\<close>), the bounded audit log and the epoch-pinned
  authorization of a session. The
  index supplies the current records and stores the causal state; both are arguments and results here,
  and their serialized sizes, which the code bounds, are parameters.
\<close>

section \<open>Data\<close>

record mutation_provenance =
  mp_peer :: endpoint_id
  mp_membership_epoch :: u64
  mp_path :: wire_path
  mp_operation :: string
  mp_record_hash :: hash32
  mp_accepted_at :: u64

record causal_state =
  cs_version :: u8
  cs_share :: share_id
  cs_owner_replica :: replica_id
  cs_ceilings :: "(replica_id, u64) fmap"
  cs_audit :: "mutation_provenance list"

record recovery_context =
  rc_version :: u8
  rc_share :: share_id
  rc_owner :: endpoint_id
  rc_peer :: endpoint_id
  rc_epoch :: u64
  rc_record_hash :: hash32

record runtime_env =
  rt_registry :: registry_env
  rt_version_len :: "version_vector \<Rightarrow> nat"
  rt_state_len :: "causal_state \<Rightarrow> nat"

record owned_runtime =
  or_config :: owned_share_config
  or_enabled :: bool

section \<open>Causal state\<close>

definition causal_state_of :: "owned_share_config \<Rightarrow> causal_state option \<Rightarrow> share_error + causal_state" where
  "causal_state_of config stored =
     (let state = (case stored of Some s \<Rightarrow> s | None \<Rightarrow>
            \<lparr>cs_version = 3, cs_share = oc_share_id config, cs_owner_replica = oc_replica config,
             cs_ceilings = fmempty, cs_audit = []\<rparr>)
      in and_then (ensure (cs_version state = 3 \<and> cs_share state = oc_share_id config \<and>
            cs_owner_replica state = oc_replica config \<and> map_len (cs_ceilings state) \<le> MAX_REPLICAS \<and>
            length (cs_audit state) \<le> 512) StateUnavailable) (\<lambda>_. Inr state))"

definition raise_ceiling :: "replica_id \<Rightarrow> u64 \<Rightarrow> (replica_id, u64) fmap \<Rightarrow> (replica_id, u64) fmap" where
  "raise_ceiling replica counter ceilings = fmupd replica (max (get_or ceilings replica 0) counter) ceilings"

definition raise_all :: "version_vector \<Rightarrow> (replica_id, u64) fmap \<Rightarrow> (replica_id, u64) fmap" where
  "raise_all version ceilings = fold (\<lambda>(replica, counter). raise_ceiling replica counter) (vv_iter version) ceilings"

definition observe_record ::
    "sync_record \<Rightarrow> (replica_id, u64) fmap \<Rightarrow> share_error + (replica_id, u64) fmap" where
  "observe_record r ceilings =
     and_then (ensure (length (vv_iter (sr_version r)) \<le> MAX_REPLICAS) InvalidShareRecord) (\<lambda>_.
       Inr (raise_all (sr_version r) ceilings))"

text \<open>Up to the registry: the new catalog, which is committed, and the state to store.\<close>

definition remember_ceilings ::
    "runtime_env \<Rightarrow> owned_share_config \<Rightarrow> sync_record list \<Rightarrow> catalog \<Rightarrow> causal_state option \<Rightarrow>
     share_error + (catalog \<times> causal_state)" where
  "remember_ceilings T config index_records cat stored =
     and_then (causal_state_of config stored) (\<lambda>state.
       let start = raise_ceiling (resolver (rt_registry T)) 0 (raise_ceiling (oc_replica config) 0 (cs_ceilings state))
       in and_then (fold_res observe_record index_records start) (\<lambda>ceilings.
       and_then (ensure (map_len ceilings \<le> MAX_REPLICAS) InvalidShareRecord) (\<lambda>_.
       and_then (remember_replicas (rt_registry T) (oc_share_id config)
                   (map fst (sorted_list_of_fmap ceilings)) cat) (\<lambda>(cat', _).
         Inr (cat', state\<lparr>cs_ceilings := ceilings\<rparr>)))))"

text \<open>The whole refresh: the index stores at most 2 MiB of metadata.\<close>

definition refresh_causal_state ::
    "runtime_env \<Rightarrow> owned_share_config \<Rightarrow> sync_record list \<Rightarrow> catalog \<Rightarrow> causal_state option \<Rightarrow>
     share_error + (catalog \<times> causal_state)" where
  "refresh_causal_state T config index_records cat stored =
     and_then (remember_ceilings T config index_records cat stored) (\<lambda>(cat', state).
     and_then (ensure (rt_state_len T state \<le> 2 * 1024 * 1024) TransferFailed) (\<lambda>_. Inr (cat', state)))"

section \<open>Accepting a candidate record\<close>

definition counter_allowed ::
    "runtime_env \<Rightarrow> membership \<Rightarrow> replica_id fset \<Rightarrow> (replica_id, u64) fmap \<Rightarrow> replica_id \<times> u64 \<Rightarrow> unit \<Rightarrow>
     share_error + unit" where
  "counter_allowed T member known ceilings entry _ = (case entry of (replica, counter) \<Rightarrow>
     and_then (ensure (replica |\<in>| known) InvalidShareRecord) (\<lambda>_.
       let ceiling = get_or ceilings replica 0
       in if replica = resolver (rt_registry T) then
            and_then (ok_or (checked_add ceiling 1) InvalidShareRecord) (\<lambda>limit.
              ensure (counter \<le> limit) InvalidShareRecord)
          else if replica \<noteq> mb_replica member then ensure (counter \<le> ceiling) InvalidShareRecord
          else Inr ()))"

definition push_audit :: "mutation_provenance \<Rightarrow> mutation_provenance list \<Rightarrow> mutation_provenance list" where
  "push_audit entry audit = (let audit' = audit @ [entry]
     in if 512 < length audit' then tl audit' else audit')"

text \<open>The part after the refresh: the metadata to commit together with the record.\<close>

definition accept_candidate ::
    "runtime_env \<Rightarrow> owned_share_config \<Rightarrow> u64 \<Rightarrow> membership \<Rightarrow> endpoint_id \<Rightarrow> sync_record \<Rightarrow> catalog \<Rightarrow> causal_state option \<Rightarrow>
     share_error + causal_state" where
  "accept_candidate T config now member peer r cat stored =
     and_then (causal_state_of config stored) (\<lambda>state.
     and_then (reg_known (rt_registry T) cat (oc_share_id config)) (\<lambda>known.
     and_then (ensure (length (vv_iter (sr_version r)) \<le> MAX_REPLICAS \<and>
                       rt_version_len T (sr_version r) \<le> 256 * 1024) InvalidShareRecord) (\<lambda>_.
     and_then (fold_res (counter_allowed T member known (cs_ceilings state)) (vv_iter (sr_version r)) ()) (\<lambda>_.
       let state' = state\<lparr>cs_ceilings := raise_all (sr_version r) (cs_ceilings state),
             cs_audit := push_audit \<lparr>mp_peer = peer, mp_membership_epoch = mb_epoch member,
               mp_path = sr_path r, mp_operation = (if sr_tombstone r then ''delete'' else ''adopt''),
               mp_record_hash = logical_hash (se_hash (rg_share (rt_registry T))) r, mp_accepted_at = now\<rparr>
               (cs_audit state)\<rparr>
       in and_then (ensure (rt_state_len T state' \<le> 2 * 1024 * 1024) InvalidShareRecord) (\<lambda>_. Inr state')))))"

text \<open>
  Returns the catalog and stored state left by the refresh, and the metadata that is committed together
  with the record.
\<close>

definition candidate_metadata_for ::
    "runtime_env \<Rightarrow> owned_share_config \<Rightarrow> u64 \<Rightarrow> sync_record list \<Rightarrow> endpoint_id \<Rightarrow> u64 \<Rightarrow> sync_record \<Rightarrow>
     catalog \<Rightarrow> causal_state option \<Rightarrow> share_error + (catalog \<times> causal_state \<times> causal_state)" where
  "candidate_metadata_for T config now index_records peer epoch r cat stored =
     and_then (authorize (rt_registry T) cat (oc_share_id config) peer True) (\<lambda>member.
     and_then (ensure (mb_epoch member = epoch) MemberRevoked) (\<lambda>_.
     and_then (refresh_causal_state T config index_records cat stored) (\<lambda>(cat', refreshed).
     and_then (accept_candidate T config now member peer r cat' (Some refreshed)) (\<lambda>metadata.
       Inr (cat', refreshed, metadata)))))"

section \<open>Sessions\<close>

definition auth_check ::
    "runtime_env \<Rightarrow> owned_runtime \<Rightarrow> catalog \<Rightarrow> endpoint_id \<Rightarrow> u64 \<Rightarrow> bool \<Rightarrow> share_error + membership" where
  "auth_check T rt cat peer epoch write =
     and_then (ensure (or_enabled rt) Busy) (\<lambda>_.
     and_then (authorize (rt_registry T) cat (oc_share_id (or_config rt)) peer write) (\<lambda>member.
     and_then (ensure (mb_epoch member = epoch) MemberRevoked) (\<lambda>_. Inr member)))"

definition recovery_context_for ::
    "runtime_env \<Rightarrow> owned_runtime \<Rightarrow> catalog \<Rightarrow> endpoint_id \<Rightarrow> u64 \<Rightarrow> sync_record \<Rightarrow> share_error + recovery_context" where
  "recovery_context_for T rt cat peer epoch r =
     and_then (auth_check T rt cat peer epoch True) (\<lambda>_.
       Inr \<lparr>rc_version = 1, rc_share = oc_share_id (or_config rt), rc_owner = oc_owner (or_config rt),
         rc_peer = peer, rc_epoch = epoch,
         rc_record_hash = logical_hash (se_hash (rg_share (rt_registry T))) r\<rparr>)"

section \<open>Ceilings\<close>

lemma get_raise_ceiling:
  "get_or (raise_ceiling r c m) q 0 = (if q = r then max (get_or m r 0) c else get_or m q 0)"
  by (simp add: raise_ceiling_def)

lemma raise_all_merge: "raise_all version m = vv_merge m version"
proof -
  have "(\<lambda>(replica, counter). raise_ceiling replica counter) = (\<lambda>(replica, counter) w. vv_observe w replica counter)"
    by (auto simp: fun_eq_iff raise_ceiling_def vv_observe_def vv_get_def)
  then show ?thesis by (simp add: raise_all_def vv_merge_def)
qed

lemma get_raise_all: "get_or (raise_all v m) q 0 = max (get_or m q 0) (vv_get v q)"
  unfolding raise_all_merge using vv_get_merge [of m v q] by (simp add: vv_get_def)

lemma observe_record_Inr:
  "observe_record r m = Inr m' \<longleftrightarrow> length (vv_iter (sr_version r)) \<le> MAX_REPLICAS \<and> m' = raise_all (sr_version r) m"
  by (auto simp: observe_record_def result_simps)

lemma fold_observe_ceiling:
  assumes "fold_res observe_record rs m = Inr m'"
  shows "get_or m q 0 \<le> get_or m' q 0" "r \<in> set rs \<Longrightarrow> vv_get (sr_version r) q \<le> get_or m' q 0"
    "c \<in> {get_or m' q 0} \<Longrightarrow> c = get_or m q 0 \<or> (\<exists>r \<in> set rs. c = vv_get (sr_version r) q)"
  using assms
proof (induction rs arbitrary: m)
  case (Cons x rs)
  { case 1
    then have "fold_res observe_record rs (raise_all (sr_version x) m) = Inr m'"
      by (auto simp: observe_record_Inr and_then_Inr_iff)
    from Cons.IH(1) [OF this] show ?case by (simp add: get_raise_all)
  next
    case 2
    then have f: "fold_res observe_record rs (raise_all (sr_version x) m) = Inr m'"
      by (auto simp: observe_record_Inr and_then_Inr_iff)
    from 2(1) consider "r = x" | "r \<in> set rs" by auto
    then show ?case
    proof cases
      case 1
      with Cons.IH(1) [OF f] show ?thesis by (simp add: get_raise_all)
    next
      case 2
      with Cons.IH(2) [OF _ f] show ?thesis by blast
    qed
  next
    case 3
    then have f: "fold_res observe_record rs (raise_all (sr_version x) m) = Inr m'"
      by (auto simp: observe_record_Inr and_then_Inr_iff)
    from Cons.IH(3) [OF 3(1) f] show ?case by (auto simp: get_raise_all max_def split: if_splits)
  }
qed (auto simp: result_simps)

lemma fold_observe_dom:
  "fold_res observe_record rs m = Inr m' \<Longrightarrow> fmdom m |\<subseteq>| fmdom m'"
proof (induction rs arbitrary: m)
  case (Cons x rs)
  then have "fold_res observe_record rs (raise_all (sr_version x) m) = Inr m'"
    by (auto simp: observe_record_Inr and_then_Inr_iff)
  from Cons.IH [OF this] show ?case by (auto simp: raise_all_merge)
qed (simp add: result_simps)

lemma causal_state_of_Some:
  "causal_state_of config (Some s) = Inr s' \<longleftrightarrow> s' = s \<and> cs_version s = 3 \<and> cs_share s = oc_share_id config \<and>
     cs_owner_replica s = oc_replica config \<and> map_len (cs_ceilings s) \<le> MAX_REPLICAS \<and> length (cs_audit s) \<le> 512"
  by (auto simp: causal_state_of_def result_simps)

lemma counters_allowed:
  assumes "fold_res (counter_allowed T member known ceilings) es () = Inr ()" "(q, c) \<in> set es"
  shows "q |\<in>| known" "q = mb_replica member \<or> c \<le> get_or ceilings q 0 \<or>
    q = resolver (rt_registry T) \<and> unat c \<le> unat (get_or ceilings q 0) + 1"
proof -
  have "counter_allowed T member known ceilings (q, c) () = Inr ()"
    using assms
  proof (induction es)
    case (Cons e es)
    then show ?case by (auto simp: and_then_Inr_iff)
  qed simp
  then show "q |\<in>| known" "q = mb_replica member \<or> c \<le> get_or ceilings q 0 \<or>
    q = resolver (rt_registry T) \<and> unat c \<le> unat (get_or ceilings q 0) + 1"
    by (auto simp: counter_allowed_def result_simps Let_def word_le_nat_alt dest!: checked_add_Some split: if_splits)
qed

lemma refresh_Inr:
  assumes "refresh_causal_state T config rs cat stored = Inr (cat', state)"
  obtains old where "causal_state_of config stored = Inr old" "cs_audit state = cs_audit old"
    "cs_version state = cs_version old" "cs_share state = cs_share old" "cs_owner_replica state = cs_owner_replica old"
    "map_len (cs_ceilings state) \<le> MAX_REPLICAS"
    "\<And>q. get_or (cs_ceilings old) q 0 \<le> get_or (cs_ceilings state) q 0"
    "\<And>r q. r \<in> set rs \<Longrightarrow> vv_get (sr_version r) q \<le> get_or (cs_ceilings state) q 0"
    "\<And>q. get_or (cs_ceilings state) q 0 = get_or (cs_ceilings old) q 0 \<or>
       (\<exists>r \<in> set rs. get_or (cs_ceilings state) q 0 = vv_get (sr_version r) q)"
    "run_op (rt_registry T) now (RememberReplicas (oc_share_id config) (map fst (sorted_list_of_fmap (cs_ceilings state)))) cat = Some cat'"
proof -
  from assms obtain old ceilings where old: "causal_state_of config stored = Inr old"
    "fold_res observe_record rs (raise_ceiling (resolver (rt_registry T)) 0 (raise_ceiling (oc_replica config) 0 (cs_ceilings old))) = Inr ceilings"
    "map_len ceilings \<le> MAX_REPLICAS"
    "remember_replicas (rt_registry T) (oc_share_id config) (map fst (sorted_list_of_fmap ceilings)) cat = Inr (cat', ())"
    "state = old\<lparr>cs_ceilings := ceilings\<rparr>"
    unfolding refresh_causal_state_def remember_ceilings_def Let_def by (auto simp: result_simps split: prod.splits)
  have start: "get_or (raise_ceiling (resolver (rt_registry T)) 0 (raise_ceiling (oc_replica config) 0 (cs_ceilings old))) q 0 =
      get_or (cs_ceilings old) q 0" for q
    by (simp add: get_raise_ceiling)
  show ?thesis
  proof (rule that [OF old(1)])
    show "get_or (cs_ceilings old) q 0 \<le> get_or (cs_ceilings state) q 0" for q
      using fold_observe_ceiling(1) [OF old(2), of q] by (simp add: start old(5))
    show "vv_get (sr_version r) q \<le> get_or (cs_ceilings state) q 0" if "r \<in> set rs" for r q
      using fold_observe_ceiling(2) [OF old(2) that, of q] by (simp add: old(5))
    show "get_or (cs_ceilings state) q 0 = get_or (cs_ceilings old) q 0 \<or>
       (\<exists>r \<in> set rs. get_or (cs_ceilings state) q 0 = vv_get (sr_version r) q)" for q
      using fold_observe_ceiling(3) [OF old(2), of "get_or (cs_ceilings state) q 0" q] by (simp add: start old(5))
  qed (use old in \<open>simp_all add: committed_Some\<close>)
qed

end
