(* ===== verification/Replica.thy ===== *)
theory Replica
  imports Net_Wire Store_Ops Index_Adopt Share_Runtime
begin

text \<open>
  One replica: the store and the local index over the same file system. The index reads the file system
  through the calls of \<^verbatim>\<open>std::fs\<close>: a directory listing, \<open>symlink_metadata\<close> and the bytes of an opened file are
  computed from the tree of the store's world. A call of the index is atomic; a scan is two calls, the
  traversal and the hashing with the commit, so that an edit may fall between them. On top of both, the
  recovery of interrupted causal changes and the causal admission of an incoming record
  (\<^verbatim>\<open>crates/deltaweave-net/src/lib.rs\<close>).
\<close>

section \<open>The file system as the index sees it\<close>

text \<open>Times are nanoseconds; a missing identity is inode 0 and a missing change time is negative.\<close>

definition metadata_of :: "file_type \<Rightarrow> nat \<Rightarrow> node_meta \<Rightarrow> metadata" where
  "metadata_of kind len m = \<lparr>md_type = kind, md_len = of_nat len, md_modified = nm_modified_ns m,
     md_ctime = (case nm_changed_ns m of None \<Rightarrow> - 1 | Some t \<Rightarrow> uint t div 1000000000),
     md_ctime_nsec = (case nm_changed_ns m of None \<Rightarrow> 0 | Some t \<Rightarrow> uint t mod 1000000000),
     md_dev = (case nm_identity m of None \<Rightarrow> 0 | Some (dev, ino) \<Rightarrow> dev),
     md_ino = (case nm_identity m of None \<Rightarrow> 0 | Some (dev, ino) \<Rightarrow> ino),
     md_readonly = nm_readonly m\<rparr>"

definition stat_metadata :: "fs_node \<Rightarrow> metadata" where
  "stat_metadata n = (case n of
     FileNode m b \<Rightarrow> metadata_of FileType (length b) m
   | LinkNode m t \<Rightarrow> metadata_of SymlinkType (length t) m
   | DirNode m ch \<Rightarrow> metadata_of DirType 0 m
   | OtherNode m \<Rightarrow> metadata_of OtherType 0 m)"

primrec listed_of :: "fs_node \<Rightarrow> string \<Rightarrow> listed" where
  "listed_of (FileNode m b) = (\<lambda>name. ListedEntry name (metadata_of FileType (length b) m) (ListingFailed []))"
| "listed_of (LinkNode m t) = (\<lambda>name. ListedEntry name (metadata_of SymlinkType (length t) m) (ListingFailed []))"
| "listed_of (OtherNode m) = (\<lambda>name. ListedEntry name (metadata_of OtherType 0 m) (ListingFailed []))"
| "listed_of (DirNode m ch) = (\<lambda>name. ListedEntry name (metadata_of DirType 0 m)
     (Listing (map (\<lambda>(child, listed). listed child) (sorted_list_of_fmap (fmmap listed_of ch)))))"

definition listing_at :: "fs_path \<Rightarrow> fs_node \<Rightarrow> listing" where
  "listing_at p fs = (case fs_metadata fs p of
     Inr (DirNode m ch) \<Rightarrow> Listing (map (\<lambda>(name, child). listed_of child name) (sorted_list_of_fmap ch))
   | _ \<Rightarrow> ListingFailed ''directory cannot be read'')"

definition fs_disk :: "fs_node \<Rightarrow> disk" where
  "fs_disk fs = (let stat = (\<lambda>p. case fs_stat fs p of
        Inr n \<Rightarrow> Stat (stat_metadata n)
      | Inl e \<Rightarrow> if e = IoNotFound then NotFound else StatError ''metadata cannot be read'')
     in \<lparr>dk_stat = stat,
         dk_read = (\<lambda>p. case fs_metadata fs p of
            Inl e \<Rightarrow> OpenFailed ''file cannot be opened''
          | Inr (FileNode m b) \<Rightarrow> ReadBytes b
          | Inr _ \<Rightarrow> ReadFailed ''file cannot be read''),
         dk_stat_after = stat\<rparr>)"

section \<open>State\<close>

text \<open>
  The environment of a replica: the opened store and index (the index root is the synchronised root), the
  clock, the chunker, the peer at the other end of the connection, the free space the host reports for a
  path at a moment, and the choice of the scheduler whether a background task runs before it is awaited.
  The registry of shares is changed by other tasks of the process meanwhile: every visit to it first applies
  the next of the revisions that are still to come.
\<close>

record replica_env =
  rv_store :: store_env
  rv_index :: local_index
  rv_now_ms :: "nat \<Rightarrow> u64"
  rv_cdc :: fastcdc
  rv_peer :: wire_peer
  rv_available :: "world \<Rightarrow> fs_path \<Rightarrow> io_kind + u64"
  rv_eager :: "world \<Rightarrow> bool"

abbreviation rv_root :: "replica_env \<Rightarrow> fs_path" where
  "rv_root V \<equiv> li_root (rv_index V)"

abbreviation rv_externs :: "replica_env \<Rightarrow> externs" where
  "rv_externs V \<equiv> sv_externs (rv_store V)"

text \<open>
  What an owned share keeps besides its store and index: the registry's catalog, whether it is enabled, and
  the connections that are tracked, by number.
\<close>

record share_state =
  sh_catalog :: catalog
  sh_enabled :: bool
  sh_connections :: "(nat, endpoint_id) fmap"
  sh_next_connection :: nat

record replica =
  rp_world :: world
  rp_index :: index_state
  rp_log :: wire_log
  rp_share :: share_state
  rp_revisions :: "(share_state \<Rightarrow> share_state) list"

type_synonym 'a rprog = "(replica, sync_error, 'a) prog"

definition on_store :: "'a sprog \<Rightarrow> 'a rprog" where
  "on_store p s = (case p (rp_world s) of
     (Done x, w) \<Rightarrow> (Done x, s\<lparr>rp_world := w\<rparr>)
   | (Failed e, w) \<Rightarrow> (Failed (InStore e), s\<lparr>rp_world := w\<rparr>)
   | (Halted, w) \<Rightarrow> (Halted, s\<lparr>rp_world := w\<rparr>))"

text \<open>One transaction of the index on the file system of the moment.\<close>

definition on_index :: "(world \<Rightarrow> index_state \<Rightarrow> index_error + index_state \<times> 'a) \<Rightarrow> 'a rprog" where
  "on_index f = and_do (on_store tick) (\<lambda>_ s. case f (rp_world s) (rp_index s) of
     Inl e \<Rightarrow> (Failed (InIndex e), s) | Inr (st, x) \<Rightarrow> (Done x, s\<lparr>rp_index := st\<rparr>))"

definition index_commit :: "(world \<Rightarrow> index_state \<Rightarrow> index_error + index_state) \<Rightarrow> unit rprog" where
  "index_commit f = on_index (\<lambda>w st. and_then (f w st) (\<lambda>st'. Inr (st', ())))"

definition index_read :: "(index_state \<Rightarrow> index_error + 'a) \<Rightarrow> 'a rprog" where
  "index_read f = on_index (\<lambda>w st. and_then (f st) (\<lambda>x. Inr (st, x)))"

definition on_wire :: "'a wprog \<Rightarrow> 'a rprog" where
  "on_wire p s = (case p (rp_log s) of (r, log) \<Rightarrow> (r, s\<lparr>rp_log := log\<rparr>))"

section \<open>Calls of the index\<close>

definition scan_index :: "replica_env \<Rightarrow> scan_report rprog" where
  "scan_index V =
     and_do (on_store (query (\<lambda>fs. Inr (listing_at (rv_root V) fs)))) (\<lambda>root_listing.
       on_index (\<lambda>w. scan (rv_index V) (rv_now_ms V (w_clock w)) root_listing
         (\<lambda>c. hash_stable_file (rv_externs V) (fs_disk (w_fs w)) (re_local_path c) (re_fingerprint c))))"

text \<open>A row whose path is not a portable path does not decode.\<close>

definition sync_records :: "local_index \<Rightarrow> index_state \<Rightarrow> index_error + sync_record list" where
  "sync_records I st =
     and_then (ensure (list_all path_decodes (map pr_path (map_values (ix_records st)))) CorruptIndexRow) (\<lambda>_.
     and_then (records_map I st) (\<lambda>records. Inr (map to_sync_record (map_values records))))"

definition read_records :: "replica_env \<Rightarrow> sync_record list rprog" where
  "read_records V = index_read (sync_records (rv_index V))"

definition index_get :: "wire_path \<Rightarrow> path_record option rprog" where
  "index_get path = index_read (\<lambda>st. Inr (fmlookup (ix_records st) path))"

definition replica_counter :: "u64 rprog" where
  "replica_counter = index_read (\<lambda>st. Inr (ix_replica_counter st))"

definition to_observation :: "materialization_observation \<Rightarrow> observation" where
  "to_observation mo = \<lparr>ob_file_hash = mo_file_hash mo, ob_identity = mo_identity mo, ob_size = mo_size mo,
     ob_modified_ns = mo_modified_ns mo, ob_changed_ns = mo_changed_ns mo, ob_readonly = mo_readonly mo\<rparr>"

definition adopt_verified :: "replica_env \<Rightarrow> sync_record \<Rightarrow> u8 list option \<Rightarrow> unit rprog" where
  "adopt_verified V r share_metadata = index_commit (\<lambda>w st. case share_metadata of
     None \<Rightarrow> adopt_verified_record (rv_index V) (rv_externs V) (fs_disk (w_fs w)) r st
   | Some bytes \<Rightarrow> adopt_verified_record_with_share_metadata (rv_index V) (rv_externs V) (fs_disk (w_fs w)) r bytes st)"

definition adopt_materialized :: "replica_env \<Rightarrow> sync_record \<Rightarrow> materialization_observation \<Rightarrow> u8 list option \<Rightarrow> unit rprog" where
  "adopt_materialized V r mo share_metadata = index_commit (\<lambda>w st. case share_metadata of
     None \<Rightarrow> adopt_materialized_record (rv_index V) (rv_externs V) (fs_disk (w_fs w)) r (to_observation mo) st
   | Some bytes \<Rightarrow> adopt_materialized_record_with_share_metadata (rv_index V) (rv_externs V) (fs_disk (w_fs w)) r (to_observation mo) bytes st)"

section \<open>Causal admission\<close>

definition ensure_index_report_safe :: "scan_report \<Rightarrow> unit rprog" where
  "ensure_index_report_safe report =
     and_do (require (sp_collisions report = []) (Rejected ''filesystem scan has cross-platform path collisions'')) (\<lambda>_.
       require (sp_issues report = [] \<and> sp_retries_queued report = 0) (Rejected ''filesystem scan is incomplete''))"

definition causally_applicable :: "sync_record option \<Rightarrow> sync_record \<Rightarrow> sync_error + unit" where
  "causally_applicable current incoming = (case current of None \<Rightarrow> Inr () | Some r \<Rightarrow>
     (case vv_relation (sr_version r) (sr_version incoming) of
        Before \<Rightarrow> Inr ()
      | Equal \<Rightarrow> if same_state r incoming then Inr ()
          else Inl (Rejected ''incoming record reuses an existing causal version for different state'')
      | After \<Rightarrow> Inl (Rejected ''incoming record is causally stale'')
      | Concurrent \<Rightarrow> Inl (Rejected ''incoming record is concurrent; reconcile it before applying'')))"

definition ensure_index_causally_applicable :: "replica_env \<Rightarrow> sync_record \<Rightarrow> unit rprog" where
  "ensure_index_causally_applicable V incoming =
     and_do replica_counter (\<lambda>counter.
     and_do (require (vv_get (sr_version incoming) (li_replica (rv_index V)) \<le> counter)
               (Rejected ''incoming record advances the local replica counter'')) (\<lambda>_.
     and_do (index_get (sr_path incoming)) (\<lambda>current.
       lift_res (causally_applicable (map_option to_sync_record current) incoming))))"

definition ensure_causally_applicable :: "replica_env \<Rightarrow> sync_record \<Rightarrow> unit rprog" where
  "ensure_causally_applicable V incoming =
     and_do (scan_index V) (\<lambda>report.
     and_do (ensure_index_report_safe report) (\<lambda>_.
       ensure_index_causally_applicable V incoming))"

section \<open>Recovery of interrupted causal changes\<close>

datatype index_recovery = AdoptChange "u8 list option" | RollbackChange

definition adopt_change :: "replica_env \<Rightarrow> path_change \<Rightarrow> sync_record \<Rightarrow> u8 list option \<Rightarrow> unit rprog" where
  "adopt_change V c r share_metadata =
     (if \<not> sr_tombstone r \<and> sr_kind r = File then
        and_do (on_store (and_do (observe_path_change (rv_store V) c) (\<lambda>ob.
          after_readonly_update (rv_store V) ob (rv_root V @ components (sr_path r)) (sr_readonly r)))) (\<lambda>observation.
        adopt_materialized V r observation share_metadata)
      else
        and_do (if sr_tombstone r then ret () else on_store (set_readonly (rv_store V) (rv_root V) (sr_path r) (sr_readonly r))) (\<lambda>_.
        adopt_verified V r share_metadata))"

definition recover_causal_change :: "replica_env \<Rightarrow> (causal_binding \<Rightarrow> index_recovery rprog) \<Rightarrow> path_change \<Rightarrow> unit rprog" where
  "recover_causal_change V permit c = (case pc_causal c of None \<Rightarrow> ret () | Some binding \<Rightarrow>
     if pc_root c \<noteq> rv_root V \<or> pc_state c = Committed \<or> pc_state c = Aborted \<or> pc_state c = RolledBack then ret ()
     else
       and_do (index_get (sr_path (cb_record binding))) (\<lambda>row. let current = map_option to_sync_record row in
       if current = Some (cb_record binding) then on_store (mark_path_change_indexed (rv_store V) (pc_id c))
       else
         and_do (require (current = cb_precondition binding) (InShare StateUnavailable)) (\<lambda>_.
         if pc_state c = RollingBack then and_do (on_store (rollback_causal_change (rv_store V) c)) (\<lambda>_. ret ())
         else
           and_do (ensure_index_causally_applicable V (cb_record binding)) (\<lambda>_.
           and_do (permit binding) (\<lambda>decision. case decision of
             RollbackChange \<Rightarrow> and_do (on_store (rollback_causal_change (rv_store V) c)) (\<lambda>_. ret ())
           | AdoptChange share_metadata \<Rightarrow>
               and_do (on_store (resume_path_change (rv_store V) c)) (\<lambda>resumed.
               if pc_state resumed = Aborted then ret ()
               else
                 and_do (require (pc_state resumed = Materialized) (InShare StateUnavailable)) (\<lambda>_.
                 and_do (adopt_change V resumed (cb_record binding) share_metadata) (\<lambda>_.
                   on_store (mark_path_change_indexed (rv_store V) (pc_id c))))))))))"

definition recover_causal_index_with :: "replica_env \<Rightarrow> (causal_binding \<Rightarrow> index_recovery rprog) \<Rightarrow> unit rprog" where
  "recover_causal_index_with V permit =
     and_do (on_store (recover_path_changes (rv_store V) (rv_root V))) (for_each (recover_causal_change V permit))"

definition recover_causal_index :: "replica_env \<Rightarrow> unit rprog" where
  "recover_causal_index V = recover_causal_index_with V (\<lambda>binding.
     and_do (require (cb_authorization binding = None) (InShare StateUnavailable)) (\<lambda>_. ret (AdoptChange None)))"

end
