(* ===== verification/Share_Session.thy ===== *)
theory Share_Session
  imports Replica
begin

text \<open>
  The authorization a share session carries (\<open>Authorization\<close> and \<open>OwnedRuntime\<close> of
  \<^verbatim>\<open>crates/deltaweave-net/src/share/runtime.rs\<close>), as programs over a replica: every check reads the registry as
  it is at that moment, the causal state is read from and written to the index, and the recovery of an
  interrupted change asks the registry again.
\<close>

section \<open>Sessions\<close>

text \<open>The postcard encodings of the causal state and of the recovery context are parameters.\<close>

record share_session =
  ss_registry :: registry_env
  ss_config :: owned_share_config
  ss_peer :: endpoint_id
  ss_epoch :: u64
  ss_now :: "nat \<Rightarrow> u64"
  ss_version_len :: "version_vector \<Rightarrow> nat"
  ss_state_bytes :: "causal_state \<Rightarrow> u8 list"
  ss_state_from :: "u8 list \<Rightarrow> causal_state option"
  ss_context_bytes :: "recovery_context \<Rightarrow> u8 list"
  ss_context_from :: "u8 list \<Rightarrow> recovery_context option"

definition session_runtime :: "share_session \<Rightarrow> runtime_env" where
  "session_runtime A = \<lparr>rt_registry = ss_registry A, rt_version_len = ss_version_len A,
     rt_state_len = (\<lambda>state. length (ss_state_bytes A state))\<rparr>"

section \<open>The registry and the causal state\<close>

text \<open>One transaction of the registry: the revisions that are due come first.\<close>

definition enter_share :: "share_state rprog" where
  "enter_share = and_do (on_store tick) (\<lambda>_ s. case rp_revisions s of
     [] \<Rightarrow> (Done (rp_share s), s)
   | g # gs \<Rightarrow> (Done (g (rp_share s)), s\<lparr>rp_share := g (rp_share s), rp_revisions := gs\<rparr>))"

definition commit_share :: "share_state \<Rightarrow> share_error + (catalog \<times> 'a) \<Rightarrow> 'a rprog" where
  "commit_share sh r s = (case r of Inl e \<Rightarrow> (Failed (InShare e), s)
     | Inr (cat, x) \<Rightarrow> (Done x, s\<lparr>rp_share := sh\<lparr>sh_catalog := cat\<rparr>\<rparr>))"

definition visit_share :: "(share_state \<Rightarrow> share_error + (catalog \<times> 'a)) \<Rightarrow> 'a rprog" where
  "visit_share f = and_do enter_share (\<lambda>sh. commit_share sh (f sh))"

definition read_share :: "(share_state \<Rightarrow> share_error + 'a) \<Rightarrow> 'a rprog" where
  "read_share f = visit_share (\<lambda>sh. and_then (f sh) (\<lambda>x. Inr (sh_catalog sh, x)))"

definition read_clock :: "nat rprog" where
  "read_clock s = (Done (w_clock (rp_world s)), s)"

definition session_check :: "share_session \<Rightarrow> bool \<Rightarrow> membership rprog" where
  "session_check A write_access = read_share (\<lambda>sh. auth_check (session_runtime A)
     \<lparr>or_config = ss_config A, or_enabled = sh_enabled sh\<rparr> (sh_catalog sh) (ss_peer A) (ss_epoch A) write_access)"

definition stored_state :: "share_session \<Rightarrow> causal_state option rprog" where
  "stored_state A = and_do (index_read (\<lambda>st. Inr (ix_share_metadata st))) (\<lambda>bytes. case bytes of
     None \<Rightarrow> ret None
   | Some b \<Rightarrow> (case ss_state_from A b of None \<Rightarrow> fail (Rejected ''share state does not decode'') | Some state \<Rightarrow> ret (Some state)))"

definition session_refresh :: "replica_env \<Rightarrow> share_session \<Rightarrow> unit rprog" where
  "session_refresh V A =
     and_do (stored_state A) (\<lambda>stored.
     and_do (lift_res (map_err InShare (causal_state_of (ss_config A) stored))) (\<lambda>_.
     and_do (read_records V) (\<lambda>records.
     and_do (visit_share (\<lambda>sh. remember_ceilings (session_runtime A) (ss_config A) records (sh_catalog sh) stored)) (\<lambda>state.
       index_commit (\<lambda>_. set_share_metadata (ss_state_bytes A state))))))"

definition session_member :: "share_session \<Rightarrow> endpoint_id \<Rightarrow> membership rprog" where
  "session_member A peer = read_share (\<lambda>sh. authorize (ss_registry A) (sh_catalog sh) (oc_share_id (ss_config A)) peer True)"

definition session_candidate :: "replica_env \<Rightarrow> share_session \<Rightarrow> endpoint_id \<Rightarrow> u64 \<Rightarrow> sync_record \<Rightarrow> u8 list rprog" where
  "session_candidate V A peer epoch r =
     and_do (session_member A peer) (\<lambda>member.
     and_do (require (mb_epoch member = epoch) (InShare MemberRevoked)) (\<lambda>_.
     and_do (session_refresh V A) (\<lambda>_.
     and_do (stored_state A) (\<lambda>stored.
     and_do read_clock (\<lambda>now.
     and_do (read_share (\<lambda>sh. accept_candidate (session_runtime A) (ss_config A) (ss_now A now) member peer r
               (sh_catalog sh) stored)) (\<lambda>state. ret (ss_state_bytes A state)))))))"

section \<open>Operations of an authorization\<close>

definition candidate_metadata :: "replica_env \<Rightarrow> share_session \<Rightarrow> sync_record \<Rightarrow> u8 list rprog" where
  "candidate_metadata V A r = and_do (session_check A True) (\<lambda>_. session_candidate V A (ss_peer A) (ss_epoch A) r)"

definition session_context :: "share_session \<Rightarrow> sync_record \<Rightarrow> u8 list rprog" where
  "session_context A r =
     and_do (read_share (\<lambda>sh. recovery_context_for (session_runtime A) \<lparr>or_config = ss_config A, or_enabled = sh_enabled sh\<rparr>
               (sh_catalog sh) (ss_peer A) (ss_epoch A) r)) (\<lambda>context.
       ret (ss_context_bytes A context))"

definition session_decision :: "replica_env \<Rightarrow> share_session \<Rightarrow> causal_binding \<Rightarrow> index_recovery rprog" where
  "session_decision V A binding =
     and_do (lift_res (ok_or (cb_authorization binding) (InShare StateUnavailable))) (\<lambda>bytes.
     and_do (lift_res (ok_or (ss_context_from A bytes) (InShare StateUnavailable))) (\<lambda>context.
     and_do (require (rc_version context = 1 \<and> rc_share context = oc_share_id (ss_config A) \<and>
               rc_owner context = oc_owner (ss_config A) \<and>
               rc_record_hash context = logical_hash (se_hash (rg_share (ss_registry A))) (cb_record binding)) (InShare StateUnavailable)) (\<lambda>_.
     and_do (catch (and_do (session_member A (rc_peer context)) (\<lambda>member. ret (Inr member))) (\<lambda>e. ret (Inl e))) (\<lambda>r. case r of
         Inr member \<Rightarrow>
           if mb_epoch member = rc_epoch context then
             and_do (session_candidate V A (rc_peer context) (rc_epoch context) (cb_record binding)) (\<lambda>metadata.
               ret (AdoptChange (Some metadata)))
           else ret RollbackChange
       | Inl e \<Rightarrow> if e = InShare MemberRevoked \<or> e = InShare PermissionDenied then ret RollbackChange
           else fail (InShare StateUnavailable)))))"

definition recover_session :: "replica_env \<Rightarrow> share_session \<Rightarrow> unit rprog" where
  "recover_session V A = recover_causal_index_with V (session_decision V A)"

text \<open>\<open>causal_binding\<close> of \<^verbatim>\<open>lib.rs\<close>.\<close>

definition causal_binding :: "share_session option \<Rightarrow> sync_record \<Rightarrow> causal_binding rprog" where
  "causal_binding authorization r =
     and_do (index_get (sr_path r)) (\<lambda>current.
     and_do (case authorization of None \<Rightarrow> ret None
             | Some A \<Rightarrow> and_do (session_context A r) (\<lambda>bytes. ret (Some bytes))) (\<lambda>context.
       ret \<lparr>cb_record = r, cb_precondition = map_option to_sync_record current, cb_authorization = context\<rparr>))"

end
