(* ===== verification/Journal_Slots.thy ===== *)
theory Journal_Slots
  imports Path_Journal
begin

text \<open>
  Reasoning about one journaled change by the four places it uses: the destination, the artifact, the
  staging file and the rollback artifact. \<open>at_slots\<close> reads off what each place holds; \<open>sound\<close> is the weakest
  precondition of an undisturbed but interruptible run, in terms of the file system and the journal.
\<close>

section \<open>The four places\<close>

datatype slot = Dest | Art | Stage | Roll

fun loc :: "path_change \<Rightarrow> slot \<Rightarrow> fs_path" where
  "loc c Dest = destination_of c"
| "loc c Art = pc_artifact c"
| "loc c Stage = pc_staging c"
| "loc c Roll = pc_rollback_artifact c"

text \<open>Objects up to their change time, which a rename may update.\<close>

definition unstamped :: "fs_node \<Rightarrow> fs_node" where
  "unstamped = set_meta (\<lambda>m. m\<lparr>nm_changed_ns := None\<rparr>)"

definition slot_at :: "fs_node \<Rightarrow> fs_path \<Rightarrow> fs_node option" where
  "slot_at fs p = map_option unstamped (fs_lookup fs p)"

definition dir_meta :: "fs_node \<Rightarrow> fs_path \<Rightarrow> node_meta option" where
  "dir_meta fs p = (case fs_lookup fs p of Some (DirNode m _) \<Rightarrow> Some m | _ \<Rightarrow> None)"

definition ready :: "store_env \<Rightarrow> path_change \<Rightarrow> fs_node \<Rightarrow> bool" where
  "ready S c fs \<longleftrightarrow>
     pc_version c = 1 \<and> valid_id (pc_id c) \<and>
     pc_root c \<noteq> [] \<and> plain_path (pc_root c) \<and> components (pc_path c) \<noteq> [] \<and> plain_path (components (pc_path c)) \<and>
     plain_path (trash_dir S) \<and> apart (pc_root c) (trash_dir S) \<and> pc_vault c = trash_dir S \<and>
     pc_artifact c = trash_dir S @ [pc_id c] @ components (pc_path c) \<and>
     pc_staging c = with_extension (trash_dir S @ [pc_id c]) ''incoming'' \<and>
     pc_rollback_artifact c = with_extension (trash_dir S @ [pc_id c]) ''rollback'' \<and>
     dir_meta fs (butlast (pc_artifact c)) \<noteq> None \<and>
     (\<exists>m n i j. dir_meta fs (butlast (destination_of c)) = Some m \<and> dir_meta fs (trash_dir S) = Some n \<and>
        nm_identity m = Some i \<and> nm_identity n = Some j \<and> fst i = fst j)"

definition at_slots :: "store_env \<Rightarrow> path_change \<Rightarrow> fs_node \<Rightarrow> (slot \<Rightarrow> fs_node option) \<Rightarrow> bool" where
  "at_slots S c fs \<sigma> \<longleftrightarrow> ready S c fs \<and> (\<forall>i. slot_at fs (loc c i) = \<sigma> i)"

lemma unstamped_simps [simp]:
  "is_dir_node (unstamped n) = is_dir_node n" "is_file_node (unstamped n) = is_file_node n"
  "holds_file (unstamped n) = holds_file n" "observe_node S (unstamped n) = observe_node S n"
  "nm_identity (node_meta (unstamped n)) = nm_identity (node_meta n)"
  "unstamped (unstamped n) = unstamped n" "unstamped (touch S now n) = unstamped n"
  by (cases n; simp add: unstamped_def touch_def set_meta_def is_dir_node_def is_file_node_def observed_def)+

lemma dir_meta_real: "dir_meta fs p \<noteq> None \<longleftrightarrow> is_real_dir fs p"
  by (auto simp: dir_meta_def is_real_dir_def is_dir_node_def split: option.split fs_node.split)

lemma dir_meta_put:
  assumes "\<not> prefix p q"
  shows "dir_meta (fs_put v p fs) q = dir_meta fs q"
proof (cases "prefix q p")
  case True
  then obtain r where r: "p = q @ r" by (auto elim: prefixE)
  with assms have "r \<noteq> []" by auto
  then have "(case fs_put v r n of DirNode m _ \<Rightarrow> Some m | _ \<Rightarrow> None) = (case n of DirNode m _ \<Rightarrow> Some m | _ \<Rightarrow> None)" for n
    by (cases "(v, r, n)" rule: fs_put.cases) (auto split: option.split)
  with r \<open>r \<noteq> []\<close> show ?thesis by (auto simp: dir_meta_def fs_lookup_put_above split: option.split)
next
  case False
  with assms show ?thesis by (simp add: dir_meta_def fs_lookup_put_apart apart_def)
qed

lemma apart_extend: "apart p q \<Longrightarrow> apart (p @ x) (q @ y)"
proof (induction p arbitrary: q)
  case (Cons a p)
  then show ?case by (cases q) auto
qed simp

lemma file_stem_valid: "valid_id s \<Longrightarrow> file_stem s = s"
proof -
  assume "valid_id s"
  then have "CHR ''.'' \<notin> set s"
    by (auto simp: valid_id_def is_ascii_alphanumeric_def byte_of_def list_all_iff)
  then have *: "dropWhile (\<lambda>c. c \<noteq> CHR ''.'') (rev s) = []" by (auto simp: dropWhile_eq_Nil_conv)
  show ?thesis unfolding file_stem_def * by simp
qed

lemma with_extension_valid: "valid_id s \<Longrightarrow> with_extension (v @ [s]) ext = v @ [s @ ''.'' @ ext]"
  by (simp add: with_extension_def file_stem_valid)

lemma valid_id_plain: "valid_id s \<Longrightarrow> plain_path [s]"
  by (auto simp: valid_id_def is_ascii_alphanumeric_def byte_of_def plain_path_def)

lemma ready_loc:
  assumes "ready S c fs"
  shows "loc c i \<noteq> []" "plain_path (loc c i)" "is_real_dir fs (butlast (loc c i))"
    and "i \<noteq> j \<Longrightarrow> apart (loc c i) (loc c j)"
    and "\<not> prefix (loc c i) (butlast (pc_artifact c))" "\<not> prefix (loc c i) (butlast (destination_of c))"
    "\<not> prefix (loc c i) (trash_dir S)"
proof -
  note r = assms [unfolded ready_def]
  have paths: "pc_artifact c = trash_dir S @ [pc_id c] @ components (pc_path c)"
    "pc_staging c = trash_dir S @ [pc_id c @ ''.incoming'']"
    "pc_rollback_artifact c = trash_dir S @ [pc_id c @ ''.rollback'']"
    using r by (simp_all add: with_extension_valid)
  have plain: "plain_path [pc_id c]" "plain_path [pc_id c @ ''.incoming'']" "plain_path [pc_id c @ ''.rollback'']"
    using r valid_id_plain by (auto simp: plain_path_def)
  have comps: "components (pc_path c) \<noteq> []" "pc_root c \<noteq> []" using r by auto
  then show "loc c i \<noteq> []" by (cases i) (simp_all add: paths destination_of_def)
  have "plain_path (trash_dir S)" "plain_path (pc_root c)" "plain_path (components (pc_path c))" using r by auto
  with plain show "plain_path (loc c i)" by (cases i) (auto simp: paths destination_of_def plain_path_def)
  have "is_real_dir fs (trash_dir S)" "is_real_dir fs (butlast (destination_of c))" "is_real_dir fs (butlast (pc_artifact c))"
    using r by (auto simp flip: dir_meta_real)
  then show "is_real_dir fs (butlast (loc c i))" by (cases i) (simp_all add: paths)
  have "apart (pc_root c) (trash_dir S)" using r by auto
  then have outside: "apart (pc_root c @ x) (trash_dir S @ y)" "apart (trash_dir S @ y) (pc_root c @ x)" for x y
    by (auto intro: apart_extend simp: apart_sym [of "trash_dir S"])
  show "apart (loc c i) (loc c j)" if "i \<noteq> j"
    using that by (cases i; cases j) (auto simp: paths destination_of_def outside [simplified] apart_append)
  have short: "\<not> prefix xs (butlast xs)" if "xs \<noteq> []" for xs :: fs_path
    using that prefix_length_le [of xs "butlast xs"] by (cases xs) auto
  show "\<not> prefix (loc c i) (butlast (pc_artifact c))"
    using outside short comps by (cases i) (auto simp: paths destination_of_def butlast_append apart_def dest: prefix_length_le)
  show "\<not> prefix (loc c i) (butlast (destination_of c))"
    using outside short comps by (cases i) (auto simp: paths destination_of_def butlast_append apart_def dest: prefix_length_le)
  show "\<not> prefix (loc c i) (trash_dir S)"
    using outside [of _ "[]"] comps by (cases i) (auto simp: paths destination_of_def apart_def dest: prefix_length_le)
qed

lemma ready_put:
  assumes "ready S c fs"
  shows "ready S c (fs_put v (loc c i) fs)"
  using assms
  unfolding ready_def dir_meta_put [OF ready_loc(5) [OF assms]] dir_meta_put [OF ready_loc(6) [OF assms]]
    dir_meta_put [OF ready_loc(7) [OF assms]] .

lemma at_slots_put:
  assumes "at_slots S c fs \<sigma>"
  shows "at_slots S c (fs_put v (loc c i) fs) (\<sigma>(i := map_option unstamped v))"
proof -
  from assms have r: "ready S c fs" and \<sigma>: "\<And>i. slot_at fs (loc c i) = \<sigma> i" by (auto simp: at_slots_def)
  have "slot_at (fs_put v (loc c i) fs) (loc c j) = (\<sigma>(i := map_option unstamped v)) j" for j
    using \<sigma> [of j] ready_loc [OF r, of i]
    by (cases "j = i") (auto simp: slot_at_def fs_lookup_put_same fs_lookup_put_apart ready_loc(4) [OF r])
  with r show ?thesis by (simp add: at_slots_def ready_put)
qed

lemma at_slots_lookup:
  assumes "at_slots S c fs \<sigma>"
  shows "fs_lookup fs (loc c i) = None \<longleftrightarrow> \<sigma> i = None"
    and "\<sigma> i = Some n \<Longrightarrow> \<exists>n'. fs_lookup fs (loc c i) = Some n' \<and> n = unstamped n'"
proof -
  from assms have "map_option unstamped (fs_lookup fs (loc c i)) = \<sigma> i" by (simp add: at_slots_def slot_at_def)
  then show "fs_lookup fs (loc c i) = None \<longleftrightarrow> \<sigma> i = None"
    and "\<sigma> i = Some n \<Longrightarrow> \<exists>n'. fs_lookup fs (loc c i) = Some n' \<and> n = unstamped n'" by auto
qed

lemma at_slots_stat:
  assumes "at_slots S c fs \<sigma>"
  shows "fs_stat fs (loc c i) = ok_or (fs_lookup fs (loc c i)) IoNotFound"
proof -
  from assms have r: "ready S c fs" by (simp add: at_slots_def)
  show ?thesis by (intro fs_stat_real ready_loc [OF r])
qed

section \<open>Undisturbed runs\<close>

text \<open>
  A calm script has no failures and no edits; interruptions only when \<open>b\<close> holds. Under such a script a
  run ends with a result that satisfies \<open>Q\<close>, or is interrupted in a state that satisfies \<open>I\<close>; it does not fail.
\<close>

definition calm :: "bool \<Rightarrow> world \<Rightarrow> bool" where
  "calm b w \<longleftrightarrow> list_all (\<lambda>e. e = Proceed \<or> b \<and> e = Interrupt) (w_script w)"

definition sound :: "bool \<Rightarrow> 'a sprog \<Rightarrow> ('a \<Rightarrow> fs_node \<Rightarrow> (string, path_change) fmap \<Rightarrow> bool) \<Rightarrow>
    (fs_node \<Rightarrow> (string, path_change) fmap \<Rightarrow> bool) \<Rightarrow> fs_node \<Rightarrow> (string, path_change) fmap \<Rightarrow> bool" where
  "sound b p Q I fs J \<longleftrightarrow> (\<forall>w. w_fs w = fs \<longrightarrow> w_journal w = J \<longrightarrow> calm b w \<longrightarrow>
     wp p (\<lambda>x w'. calm b w' \<and> Q x (w_fs w') (w_journal w')) (\<lambda>_ _. False)
       (\<lambda>w'. b \<and> calm b w' \<and> I (w_fs w') (w_journal w')) w)"

named_theorems sound_intros \<open>rules for undisturbed runs\<close>

lemma sound_ret [sound_intros]: "Q x fs J \<Longrightarrow> sound b (ret x) Q I fs J"
  by (simp add: sound_def wp_simps)

lemma sound_require [sound_intros]: "c \<Longrightarrow> Q () fs J \<Longrightarrow> sound b (require c e) Q I fs J"
  by (simp add: sound_def wp_simps)

lemma sound_lift_res [sound_intros]: "r = Inr x \<Longrightarrow> Q x fs J \<Longrightarrow> sound b (lift_res r) Q I fs J"
  by (simp add: sound_def wp_simps)

lemma sound_and_do [sound_intros]:
  "sound b p (\<lambda>x fs J. sound b (f x) Q I fs J) I fs J \<Longrightarrow> sound b (and_do p f) Q I fs J"
  unfolding sound_def wp_and_do by (blast intro: wp_mono)

lemma sound_on_failure [sound_intros]: "sound b p Q I fs J \<Longrightarrow> sound b (on_failure p h) Q I fs J"
  and sound_catch [sound_intros]: "sound b p Q I fs J \<Longrightarrow> sound b (catch p k) Q I fs J"
  unfolding sound_def wp_on_failure wp_catch by (blast intro: wp_mono)+

lemma sound_attempt [sound_intros]: "sound b p (\<lambda>_. Q ()) I fs J \<Longrightarrow> sound b (attempt p) Q I fs J"
  unfolding sound_def wp_attempt by (blast intro: wp_mono)

lemma sound_mono:
  assumes "sound b p Q I fs J" and "\<And>x fs J. Q x fs J \<Longrightarrow> Q' x fs J" and "\<And>fs J. b \<Longrightarrow> I fs J \<Longrightarrow> I' fs J"
  shows "sound b p Q' I' fs J"
  using assms unfolding sound_def by (blast intro: wp_mono)

lemma sound_tick:
  assumes "b \<Longrightarrow> I fs J"
    and "\<And>w. w_fs w = fs \<Longrightarrow> w_journal w = J \<Longrightarrow> calm b w \<Longrightarrow>
      wp (f ()) (\<lambda>x w'. calm b w' \<and> Q x (w_fs w') (w_journal w')) (\<lambda>_ _. False)
        (\<lambda>w'. b \<and> calm b w' \<and> I (w_fs w') (w_journal w')) w"
  shows "sound b (and_do tick f) Q I fs J"
  unfolding sound_def
proof (intro allI impI)
  fix w assume w: "w_fs w = fs" "w_journal w = J" "calm b w"
  show "wp (and_do tick f) (\<lambda>x w'. calm b w' \<and> Q x (w_fs w') (w_journal w')) (\<lambda>_ _. False)
      (\<lambda>w'. b \<and> calm b w' \<and> I (w_fs w') (w_journal w')) w"
  proof (cases "w_script w")
    case Nil
    with w assms show ?thesis by (simp add: wp_and_do wp_def [of tick] tick_def)
  next
    case (Cons e es)
    with w have "e = Proceed \<or> b \<and> e = Interrupt" "calm b (w\<lparr>w_script := es\<rparr>)" by (auto simp: calm_def)
    with w Cons assms show ?thesis by (auto simp: wp_and_do wp_def [of tick] tick_def)
  qed
qed

lemma sound_query:
  "(b \<Longrightarrow> I fs J) \<Longrightarrow> f fs = Inr x \<Longrightarrow> Q x fs J \<Longrightarrow> sound b (query f) Q I fs J"
  unfolding query_def by (rule sound_tick) (simp_all add: lift_res_def wp_def ret_def)

lemma sound_update_fs:
  assumes "b \<Longrightarrow> I fs J" and "\<And>now. \<exists>fs'. f now fs = Inr fs' \<and> Q () fs' J"
  shows "sound b (update_fs f) Q I fs J"
  unfolding update_fs_def
proof (rule sound_tick)
  fix w assume w: "w_fs w = fs" "w_journal w = J" "calm b w"
  obtain fs' where "f (w_clock w) fs = Inr fs'" "Q () fs' J" using assms(2) by blast
  with w show "wp (\<lambda>w. case f (w_clock w) (w_fs w) of Inl e \<Rightarrow> (Failed e, w)
        | Inr fs \<Rightarrow> (Done (), w\<lparr>w_fs := fs, w_clock := Suc (w_clock w)\<rparr>))
      (\<lambda>x w'. calm b w' \<and> Q x (w_fs w') (w_journal w')) (\<lambda>_ _. False)
      (\<lambda>w'. b \<and> calm b w' \<and> I (w_fs w') (w_journal w')) w"
    by (simp add: wp_def calm_def)
qed (rule assms(1))

lemma sound_put_change [sound_intros]:
  "(b \<Longrightarrow> I fs J) \<Longrightarrow> Q () fs (fmupd (pc_id c) c J) \<Longrightarrow> sound b (put_change c) Q I fs J"
  unfolding put_change_def by (rule sound_tick) (simp_all add: wp_def calm_def)

lemma sound_read_journal:
  "(b \<Longrightarrow> I fs J) \<Longrightarrow> Q (map_values J) fs J \<Longrightarrow> sound b path_changes Q I fs J"
  unfolding path_changes_def read_db_def by (rule sound_tick) (simp_all add: wp_def calm_def)

lemma sound_put_manifest [sound_intros]:
  "(b \<Longrightarrow> I fs J) \<Longrightarrow> manifest_validate (sv_externs S) m = Inr () \<Longrightarrow> Q () fs J \<Longrightarrow>
   sound b (put_manifest S path m) Q I fs J"
  unfolding put_manifest_def
  by (rule sound_and_do, rule sound_lift_res [where x = "()"], simp, rule sound_tick) (simp_all add: wp_def calm_def)

lemma sound_result:
  assumes "sound False p Q I fs J" "w_fs w = fs" "w_journal w = J" "w_script w = []"
  obtains x w' where "p w = (Done x, w')" "Q x (w_fs w') (w_journal w')"
proof -
  from assms have "wp p (\<lambda>x w'. Q x (w_fs w') (w_journal w')) (\<lambda>_ _. False) (\<lambda>_. False) w"
    by (auto simp: sound_def calm_def intro: wp_mono)
  with that show ?thesis by (blast dest: wp_total)
qed

section \<open>Calls on the four places\<close>

lemma at_slots_ready: "at_slots S c fs \<sigma> \<Longrightarrow> ready S c fs"
  by (simp add: at_slots_def)

lemma at_slots_dirs:
  assumes "at_slots S c fs \<sigma>"
  shows "real_path fs (butlast (loc c i))" "loc c i \<noteq> []" "plain_path (loc c i)"
    "is_real_dir fs (butlast (loc c i))" "plain_path (butlast (loc c i))"
  using ready_loc [OF at_slots_ready [OF assms], of i] by (simp_all add: real_path_eq plain_path_butlast)

lemma at_slots_file:
  assumes "at_slots S c fs \<sigma>" "\<sigma> i = Some (FileNode m bytes)"
  obtains m' where "fs_lookup fs (loc c i) = Some (FileNode m' bytes)"
proof -
  from at_slots_lookup(2) [OF assms] obtain n where "fs_lookup fs (loc c i) = Some n" "FileNode m bytes = unstamped n"
    by blast
  with that show ?thesis by (cases n) (auto simp: unstamped_def set_meta_def)
qed

lemma sound_observe [sound_intros]:
  assumes "at_slots S c fs \<sigma>" "b \<Longrightarrow> I fs J"
    and "case \<sigma> i of None \<Rightarrow> Q None fs J | Some n \<Rightarrow> (\<exists>ob. observe_node S n = Some ob \<and> Q (Some ob) fs J)"
  shows "sound b (observe_at S (loc c i)) Q I fs J"
  using assms at_slots_dirs(1) [OF assms(1), of i] at_slots_stat [OF assms(1), of i] at_slots_lookup [OF assms(1), of i]
  unfolding observe_at_def
  by (cases "\<sigma> i") (auto simp: observe_path_def ok_or_def intro!: sound_query)

lemma sound_stat_is_ok [sound_intros]:
  assumes "at_slots S c fs \<sigma>" "b \<Longrightarrow> I fs J" "Q (\<sigma> i \<noteq> None) fs J"
  shows "sound b (stat_is_ok (loc c i)) Q I fs J"
  unfolding stat_is_ok_def
  by (rule sound_query [where x = "\<sigma> i \<noteq> None"])
     (use assms at_slots_stat [OF assms(1), of i] at_slots_lookup(1) [OF assms(1), of i] in
       \<open>auto simp: ok_or_def split: option.splits\<close>)

lemma sound_stat_not_found [sound_intros]:
  assumes "at_slots S c fs \<sigma>" "b \<Longrightarrow> I fs J" "Q (\<sigma> i = None) fs J"
  shows "sound b (stat_not_found (loc c i)) Q I fs J"
  unfolding stat_not_found_def
  by (rule sound_query [where x = "\<sigma> i = None"])
     (use assms at_slots_stat [OF assms(1), of i] at_slots_lookup(1) [OF assms(1), of i] in
       \<open>auto simp: ok_or_def split: option.splits\<close>)

lemma fs_metadata_dir:
  assumes "plain_path p" "dir_meta fs p = Some m"
  shows "\<exists>ch. fs_metadata fs p = Inr (DirNode m ch)"
  using assms dir_meta_real [of fs p]
  by (auto simp: fs_metadata_def fs_canonicalize_real dir_meta_def ok_or_def split: option.splits fs_node.splits)

lemma sound_sync_directory [sound_intros]:
  assumes "at_slots S c fs \<sigma>" "b \<Longrightarrow> I fs J" "Q () fs J"
  shows "sound b (sync_directory (butlast (loc c i))) Q I fs J"
proof -
  obtain m where "dir_meta fs (butlast (loc c i)) = Some m"
    using at_slots_dirs(4) [OF assms(1), of i] by (auto simp flip: dir_meta_real)
  with fs_metadata_dir [OF at_slots_dirs(5) [OF assms(1)]] obtain ch where
    "fs_metadata fs (butlast (loc c i)) = Inr (DirNode m ch)" by blast
  with assms show ?thesis unfolding sync_directory_def io_def by (auto intro!: sound_query)
qed

lemma sound_identity_check [sound_intros]:
  assumes "at_slots S c fs \<sigma>" "b \<Longrightarrow> I fs J" "\<sigma> i = Some n" "nm_identity (node_meta n) = po_identity ob" "Q () fs J"
  shows "sound b (identity_check (loc c i) ob) Q I fs J"
  using assms at_slots_stat [OF assms(1), of i] at_slots_lookup(2) [OF assms(1,3)]
  unfolding identity_check_def by (auto simp: ok_or_def ensure_def intro!: sound_query)

lemma sound_sync_preserved [sound_intros]:
  assumes "at_slots S c fs \<sigma>" "b \<Longrightarrow> I fs J" "\<sigma> i = Some (FileNode m bytes)" "Q () fs J"
  shows "sound b (sync_preserved_file (loc c i)) Q I fs J"
proof -
  obtain m' where "fs_lookup fs (loc c i) = Some (FileNode m' bytes)" by (rule at_slots_file [OF assms(1,3)])
  with assms at_slots_dirs(1,2) [OF assms(1), of i] show ?thesis unfolding sync_preserved_file_def
    by (auto simp: io_def fs_open_nofollow_def intro!: sound_query)
qed

lemma sound_matches_manifest [sound_intros]:
  assumes "at_slots S c fs \<sigma>" "b \<Longrightarrow> I fs J" "\<sigma> i = Some (FileNode m bytes)"
    "Q (bytes_match_manifest (sv_externs S) bytes manifest) fs J"
  shows "sound b (file_matches_manifest S (loc c i) manifest) Q I fs J"
proof -
  obtain m' where "fs_lookup fs (loc c i) = Some (FileNode m' bytes)" by (rule at_slots_file [OF assms(1,3)])
  with assms at_slots_dirs(1,2) [OF assms(1), of i] show ?thesis unfolding file_matches_manifest_def
    by (auto simp: matches_manifest_at_def io_def fs_read_file_def fs_open_nofollow_def intro!: sound_query)
qed

lemma fs_walk_real_append:
  assumes "plain_path cs" and "is_real_dir fs (acc @ cs)"
  shows "fs_walk fuel fs acc (cs @ ds) = fs_walk fuel fs (acc @ cs) ds"
  using assms
proof (induction cs arbitrary: acc)
  case (Cons c cs)
  then have "real_path fs (acc @ c # cs)" by (simp add: real_path_eq)
  then have "is_real_dir fs (acc @ [c])" unfolding real_path_iff by simp
  then obtain m ch where "fs_lookup fs (acc @ [c]) = Some (DirNode m ch)"
    by (auto simp: is_real_dir_def is_dir_node_def split: option.splits fs_node.splits)
  with Cons show ?case by (simp add: plain_path_def)
qed simp

lemma sound_path_exists:
  assumes "at_slots S c fs \<sigma>" "b \<Longrightarrow> I fs J"
    "\<And>held. (\<sigma> i = None \<longrightarrow> \<not> held) \<Longrightarrow> (\<forall>n. \<sigma> i = Some n \<and> is_file_node n \<longrightarrow> held) \<Longrightarrow> Q held fs J"
  shows "sound b (path_exists (loc c i)) Q I fs J"
proof -
  note d = at_slots_dirs [OF assms(1), of i]
  have walk: "fs_walk 40 fs [] (loc c i) = fs_walk 40 fs (butlast (loc c i)) [last (loc c i)]"
    using fs_walk_real_append [of "butlast (loc c i)" fs "[]" 40 "[last (loc c i)]"] d by simp
  have "plain_path [last (loc c i)]" using d by (metis append_butlast_last_id plain_path_append)
  then have none: "fs_lookup fs (loc c i) = None \<Longrightarrow> \<not> fs_exists fs (loc c i)"
    and there: "fs_lookup fs (loc c i) = Some n \<Longrightarrow> is_file_node n \<Longrightarrow> fs_exists fs (loc c i)" for n
    using d by (simp_all add: fs_exists_def fs_metadata_def fs_canonicalize_def walk plain_path_def ok_or_def
        is_file_node_def split: fs_node.splits)
  have "\<sigma> i = None \<longrightarrow> \<not> fs_exists fs (loc c i)" using none at_slots_lookup(1) [OF assms(1), of i] by simp
  moreover have "\<forall>n. \<sigma> i = Some n \<and> is_file_node n \<longrightarrow> fs_exists fs (loc c i)"
    using there at_slots_lookup(2) [OF assms(1), of i] by (metis unstamped_simps(2))
  ultimately show ?thesis unfolding path_exists_def using assms(2,3)
    by (intro sound_query [where x = "fs_exists fs (loc c i)"]) simp_all
qed

lemma destination_below_real:
  assumes "plain_path (root @ cs)" "is_real_dir fs (butlast (root @ cs))" "cs \<noteq> []"
  shows "destination_below fs root cs = Inr (root @ cs)"
  using assms
proof (induction cs arbitrary: root rule: induct_list012)
  case (3 c d cs)
  from 3(4) have "real_path fs (root @ [c])"
    by (auto simp: butlast_append simp flip: real_path_eq intro: real_path_prefix)
  moreover from this have "is_real_dir fs root" unfolding real_path_iff by simp
  moreover have "plain_path (root @ [c])" using 3(3) by (simp add: plain_path_def)
  ultimately have "\<exists>n. fs_stat fs (root @ [c]) = Inr n \<and> is_dir_node n"
    by (simp add: fs_stat_real real_path_eq) (auto simp: is_real_dir_def ok_or_def split: option.splits)
  with 3(2) [of "root @ [c]"] 3(3-4) show ?case by auto
qed simp_all

lemma sound_checked_destination [sound_intros]:
  assumes "at_slots S c fs \<sigma>" "b \<Longrightarrow> I fs J" "Q (loc c Dest) fs J"
  shows "sound b (checked_destination (pc_root c) (pc_path c)) Q I fs J"
proof -
  note d = at_slots_dirs [OF assms(1), of Dest]
  from at_slots_ready [OF assms(1)] have r: "pc_root c \<noteq> []" "plain_path (pc_root c)" "components (pc_path c) \<noteq> []" by (auto simp: ready_def)
  with d(1) have "real_path fs (pc_root c)"
    by (auto simp: destination_of_def butlast_append intro: real_path_prefix)
  then have "is_real_dir fs (butlast (pc_root c))" "is_real_dir fs (pc_root c)"
    unfolding real_path_iff by (auto simp: prefixeq_butlast)
  then obtain n where "fs_stat fs (pc_root c) = Inr n" "is_dir_node n"
    using r by (auto simp: fs_stat_real is_real_dir_def ok_or_def split: option.splits)
  moreover have "destination_below fs (pc_root c) (components (pc_path c)) = Inr (loc c Dest)"
    using destination_below_real [of "pc_root c" "components (pc_path c)" fs] d r by (simp add: destination_of_def)
  ultimately show ?thesis using assms unfolding checked_destination_def
    by (auto simp: checked_destination_at_def io_def ensure_def intro!: sound_query)
qed

lemma sound_validate_real_directory:
  "is_real_dir fs p \<Longrightarrow> (b \<Longrightarrow> I fs J) \<Longrightarrow> Q () fs J \<Longrightarrow> sound b (validate_real_directory p) Q I fs J"
  unfolding validate_real_directory_def
  by (intro sound_and_do sound_query [where x = True] sound_require) (simp_all add: real_path_eq)

lemma nearest_directory_real:
  "plain_path p \<Longrightarrow> is_real_dir fs p \<Longrightarrow> nearest_directory fs p (length p) = Some p"
  by (cases "length p") (simp_all add: fs_is_dir_real del: length_0_conv, simp add: fs_is_dir_real)

lemma sound_vault:
  assumes "at_slots S c fs \<sigma>" "b \<Longrightarrow> I fs J" "Q (pc_vault c) fs J"
  shows "sound b (vault S (pc_root c) (butlast (destination_of c))) Q I fs J"
proof -
  note d = at_slots_dirs [OF assms(1), of Dest]
  from at_slots_ready [OF assms(1)] obtain m n where mn: "dir_meta fs (butlast (destination_of c)) = Some m" "dir_meta fs (trash_dir S) = Some n"
    "map_option fst (nm_identity m) = map_option fst (nm_identity n)" "nm_identity m \<noteq> None"
    and t: "plain_path (trash_dir S)" "pc_vault c = trash_dir S" "apart (pc_root c) (trash_dir S)"
    by (auto simp: ready_def)
  obtain ch ch' where "fs_metadata fs (butlast (destination_of c)) = Inr (DirNode m ch)"
    "fs_metadata fs (trash_dir S) = Inr (DirNode n ch')"
    using fs_metadata_dir mn(1,2) t(1) d(5) by (metis loc.simps(1))
  then have same: "same_volume_at (butlast (destination_of c)) (trash_dir S) fs = Inr True"
    using mn by (cases "nm_identity n") (auto simp: same_volume_at_def io_def ok_or_def)
  have real: "is_real_dir fs (trash_dir S)" using mn(2) by (auto simp flip: dir_meta_real)
  note query = sound_query [of b I fs J, OF assms(2)]
  show ?thesis unfolding vault_def select_vault_def same_volume_def
    using t assms(3)
    by (intro sound_catch sound_and_do sound_validate_real_directory query sound_require sound_ret real assms(2) same)
       (auto intro!: sound_ret sound_and_do sound_validate_real_directory query sound_require real assms(2) same
         simp: io_def fs_canonicalize_real real apart_def)
qed

lemma sound_validate_change [sound_intros]:
  assumes "at_slots S c fs \<sigma>" "b \<Longrightarrow> I fs J" "Q () fs J"
    and "\<And>ex. pc_expected c = Some ex \<Longrightarrow> \<not> pc_metadata_only c \<Longrightarrow> artifact_recorded (pc_state c) \<Longrightarrow>
      \<exists>n. \<sigma> Art = Some n \<and> nm_identity (node_meta n) = po_identity ex"
  shows "sound b (validate_change S c) Q I fs J"
proof -
  have near: "nearest_directory fs (butlast (destination_of c)) (length (butlast (destination_of c))) = Some (butlast (destination_of c))"
    using at_slots_dirs(4,5) [OF assms(1), of Dest] by (intro nearest_directory_real) simp_all
  have real: "is_real_dir fs (butlast (pc_artifact c))" "is_real_dir fs (butlast (pc_staging c))"
    using at_slots_dirs(4) [OF assms(1), of Art] at_slots_dirs(4) [OF assms(1), of Stage] by simp_all
  have last: "sound b (case pc_expected c of None \<Rightarrow> ret ()
      | Some ex \<Rightarrow> if \<not> pc_metadata_only c \<and> artifact_recorded (pc_state c) then identity_check (pc_artifact c) ex else ret ()) Q I fs J"
  proof (cases "pc_expected c")
    case (Some ex)
    show ?thesis
    proof (cases "\<not> pc_metadata_only c \<and> artifact_recorded (pc_state c)")
      case True
      with Some assms(4) obtain n where "\<sigma> Art = Some n" "nm_identity (node_meta n) = po_identity ex" by blast
      then have "sound b (identity_check (loc c Art) ex) Q I fs J"
        using assms(2,3) by (intro sound_identity_check [OF assms(1)]) simp_all
      with True Some show ?thesis by simp
    qed (auto simp: Some intro: sound_ret assms(3))
  qed (simp add: sound_ret assms(3))
  from at_slots_ready [OF assms(1)] show ?thesis
    unfolding validate_change_def ready_def
    by (intro sound_and_do sound_require sound_query [where x = "butlast (destination_of c)"] sound_vault [OF assms(1)]
        sound_validate_real_directory real assms(2) last) (auto simp: near [simplified] ok_or_def)
qed

lemma sound_rename:
  assumes "at_slots S c fs \<sigma>" "b \<Longrightarrow> I fs J" "i \<noteq> j" "\<sigma> i = Some n" "\<sigma> j = None"
    and "\<And>fs'. at_slots S c fs' (\<sigma>(i := None, j := Some n)) \<Longrightarrow> Q () fs' J"
  shows "sound b (rename_noreplace S (loc c i) (loc c j)) Q I fs J"
proof -
  obtain n' where n': "fs_lookup fs (loc c i) = Some n'" "n = unstamped n'"
    using at_slots_lookup(2) [OF assms(1,4)] by blast
  moreover have "fs_lookup fs (loc c j) = None" using at_slots_lookup(1) [OF assms(1)] assms(5) by simp
  moreover have "\<not> prefix (loc c i) (loc c j)"
    using ready_loc(4) [OF at_slots_ready [OF assms(1)] assms(3)] by (simp add: apart_def)
  ultimately have "fs_rename_noreplace (touch S now) (loc c i) (loc c j) fs =
      Inr (fs_put (Some (touch S now n')) (loc c j) (fs_put None (loc c i) fs))" for now
    using at_slots_dirs [OF assms(1), of i] at_slots_dirs [OF assms(1), of j] by (simp add: fs_rename_noreplace_def)
  moreover have "at_slots S c (fs_put (Some (touch S now n')) (loc c j) (fs_put None (loc c i) fs)) (\<sigma>(i := None, j := Some n))" for now
    using at_slots_put [OF at_slots_put [OF assms(1), of None i], of "Some (touch S now n')" j] n' by simp
  ultimately show ?thesis unfolding rename_noreplace_def io_def
    using assms(2,6) by (intro sound_update_fs) auto
qed

lemma sound_create_dir:
  assumes "at_slots S c fs \<sigma>" "b \<Longrightarrow> I fs J" "\<sigma> i = None"
    and "\<And>fs' m. at_slots S c fs' (\<sigma>(i := Some (DirNode m fmempty))) \<Longrightarrow> Q () fs' J"
  shows "sound b (create_dir S (loc c i)) Q I fs J"
proof -
  have "fs_entry fs (loc c i) = Inr (loc c i)"
    using at_slots_dirs [OF assms(1), of i] by (simp add: fs_entry_def fs_canonicalize_real)
  moreover have "fs_lookup fs (loc c i) = None" using at_slots_lookup(1) [OF assms(1)] assms(3) by simp
  ultimately have "fs_create_dir m (loc c i) fs = Inr (fs_put (Some (DirNode m fmempty)) (loc c i) fs)" for m
    using at_slots_dirs(2) [OF assms(1), of i] by (simp add: fs_create_dir_def)
  moreover have "\<exists>m'. at_slots S c (fs_put (Some (DirNode m fmempty)) (loc c i) fs) (\<sigma>(i := Some (DirNode m' fmempty)))" for m
    using at_slots_put [OF assms(1), of "Some (DirNode m fmempty)" i] by (auto simp: unstamped_def set_meta_def)
  ultimately have "\<exists>fs'. map_err IoFailure (fs_create_dir (new_meta S now) (loc c i) fs) = Inr fs' \<and> Q () fs' J" for now
    using assms(4) by (metis map_err_simps(2))
  with assms(2) show ?thesis unfolding create_dir_def io_def by (intro sound_update_fs) simp_all
qed

end
