(* ===== verification/Journal_Recovery.thy ===== *)
theory Journal_Recovery
  imports Journal_Slots
begin

text \<open>
  What a journaled change promises, as an abstract machine, and that the code implements it: the durable
  state of one change is its journaled stage and the content of its four places; \<open>change_step\<close> lists the
  atomic moves between such states. Every run of the code, interrupted anywhere, ends in a state the
  machine can reach, and from each of those states the code completes the change or undoes it.
\<close>

section \<open>The abstract machine\<close>

type_synonym change_view = "path_change_state \<times> (slot \<Rightarrow> fs_node option)"

definition expected_object :: "store_env \<Rightarrow> path_change \<Rightarrow> fs_node option \<Rightarrow> bool" where
  "expected_object S c v = (case v of None \<Rightarrow> pc_expected c = None
     | Some n \<Rightarrow> pc_expected c \<noteq> None \<and> observe_node S n = pc_expected c)"

definition staged_object :: "store_env \<Rightarrow> path_change \<Rightarrow> fs_node option \<Rightarrow> bool" where
  "staged_object S c v = (case pc_target c of
     FileTarget m \<Rightarrow> (\<exists>k bytes. v = Some (FileNode k bytes) \<and> bytes_match_manifest (sv_externs S) bytes m) \<and>
       manifest_validate (sv_externs S) m = Inr ()
   | _ \<Rightarrow> True)"

definition installed_object :: "store_env \<Rightarrow> path_change \<Rightarrow> fs_node option \<Rightarrow> bool" where
  "installed_object S c v = (case pc_target c of
     FileTarget m \<Rightarrow> \<exists>k bytes. v = Some (FileNode k bytes) \<and> bytes_match_manifest (sv_externs S) bytes m
   | DirectoryTarget \<Rightarrow> \<exists>k. v = Some (DirNode k fmempty)
   | AbsentTarget \<Rightarrow> v = None)"

inductive change_step :: "store_env \<Rightarrow> path_change \<Rightarrow> change_view \<Rightarrow> change_view \<Rightarrow> bool" for S c where
  detach: "\<sigma> Dest = Some n \<Longrightarrow> \<sigma> Art = None \<Longrightarrow> expected_object S c (Some n) \<Longrightarrow>
    change_step S c (Prepared, \<sigma>) (Prepared, \<sigma>(Dest := None, Art := Some n))"
| preserve: "\<sigma> Dest = None \<Longrightarrow> expected_object S c (\<sigma> Art) \<Longrightarrow> change_step S c (Prepared, \<sigma>) (Preserved, \<sigma>)"
| install_file: "pc_target c = FileTarget m \<Longrightarrow> \<sigma> Stage = Some n \<Longrightarrow> staged_object S c (\<sigma> Stage) \<Longrightarrow> \<sigma> Dest = None \<Longrightarrow>
    change_step S c (Preserved, \<sigma>) (Preserved, \<sigma>(Stage := None, Dest := Some n))"
| install_directory: "pc_target c = DirectoryTarget \<Longrightarrow> \<sigma> Dest = None \<Longrightarrow>
    change_step S c (Preserved, \<sigma>) (Preserved, \<sigma>(Dest := Some (DirNode k fmempty)))"
| finish: "installed_object S c (\<sigma> Dest) \<Longrightarrow> change_step S c (Preserved, \<sigma>) (Materialized, \<sigma>)"
| roll_back: "stage \<in> {Prepared, Preserved, Materialized, RollingBack} \<Longrightarrow> change_step S c (stage, \<sigma>) (RollingBack, \<sigma>)"
| evict: "\<sigma> Dest = Some n \<Longrightarrow> \<sigma> Roll = None \<Longrightarrow> installed_object S c (\<sigma> Dest) \<Longrightarrow> (pc_expected c = None \<or> \<sigma> Art \<noteq> None) \<Longrightarrow>
    change_step S c (RollingBack, \<sigma>) (RollingBack, \<sigma>(Dest := None, Roll := Some n))"
| restore: "\<sigma> Art = Some n \<Longrightarrow> \<sigma> Dest = None \<Longrightarrow>
    change_step S c (RollingBack, \<sigma>) (RollingBack, \<sigma>(Art := None, Dest := Some n))"
| undone: "stage \<in> {Prepared, RollingBack} \<Longrightarrow> expected_object S c (\<sigma> Dest) \<Longrightarrow> \<sigma> Art = None \<Longrightarrow>
    change_step S c (stage, \<sigma>) (RolledBack, \<sigma>)"

inductive_simps change_step_done: "change_step S c (RolledBack, \<sigma>) y"

abbreviation reaches :: "store_env \<Rightarrow> path_change \<Rightarrow> change_view \<Rightarrow> change_view \<Rightarrow> bool" where
  "reaches S c \<equiv> (change_step S c)\<^sup>*\<^sup>*"

text \<open>The file system and the journal hold an abstract state of the change.\<close>

definition holds_view :: "store_env \<Rightarrow> path_change \<Rightarrow> fs_node \<Rightarrow> (string, path_change) fmap \<Rightarrow> change_view \<Rightarrow> bool" where
  "holds_view S c fs J x \<longleftrightarrow> at_slots S c fs (snd x) \<and> fmlookup J (pc_id c) = Some (c\<lparr>pc_state := fst x\<rparr>)"

definition somewhere :: "store_env \<Rightarrow> path_change \<Rightarrow> change_view \<Rightarrow> fs_node \<Rightarrow> (string, path_change) fmap \<Rightarrow> bool" where
  "somewhere S c x fs J \<longleftrightarrow> (\<exists>y. reaches S c x y \<and> holds_view S c fs J y)"

lemma at_slots_state [simp]: "at_slots S (c\<lparr>pc_state := s\<rparr>) fs \<sigma> = at_slots S c fs \<sigma>"
proof -
  have "loc (c\<lparr>pc_state := s\<rparr>) i = loc c i" for i by (cases i) (simp_all add: destination_of_def)
  then show ?thesis by (simp add: at_slots_def ready_def destination_of_def)
qed

lemma loc_state [simp]: "loc (c\<lparr>pc_state := s\<rparr>) i = loc c i"
  by (cases i) (simp_all add: destination_of_def)

lemma somewhereI: "reaches S c x (st, \<sigma>) \<Longrightarrow> at_slots S c fs \<sigma> \<Longrightarrow> fmlookup J (pc_id c) = Some (c\<lparr>pc_state := st\<rparr>) \<Longrightarrow>
  somewhere S c x fs J"
  unfolding somewhere_def holds_view_def by (metis fst_conv snd_conv)

lemma expected_identity:
  assumes "expected_object S c (Some n)" "pc_expected c = Some ex"
  shows "nm_identity (node_meta n) = po_identity ex"
  using assms by (cases n) (auto simp: expected_object_def observed_def)

section \<open>Capturing\<close>

lemmas loc_folds = loc.simps [symmetric]

declare loc.simps [simp del]

lemma sound_observe_expected:
  assumes "at_slots S c fs \<sigma>" "b \<Longrightarrow> I fs J" "expected_object S c (\<sigma> i)" "Q (pc_expected c) fs J"
  shows "sound b (observe_at S (loc c i)) Q I fs J"
  using assms(2-) by (intro sound_observe [OF assms(1)]) (auto simp: expected_object_def split: option.splits)

lemma sound_observe_bind:
  assumes "at_slots S c fs \<sigma>" "b \<Longrightarrow> I fs J" "\<sigma> i = None \<or> Option.bind (\<sigma> i) (observe_node S) \<noteq> None"
    and "Q (Option.bind (\<sigma> i) (observe_node S)) fs J"
  shows "sound b (observe_at S (loc c i)) Q I fs J"
  using assms(2-) by (intro sound_observe [OF assms(1)]) (auto split: option.splits)

lemma sound_sync_captured:
  assumes at: "at_slots S c fs \<sigma>" and "b \<Longrightarrow> I fs J" and art: "\<sigma> Art = Some n" "expected_object S c (Some n)" and "Q () fs J"
  shows "sound b (if observed_kind (pc_expected c) = Some 0 then sync_preserved_file (loc c Art) else ret ()) Q I fs J"
proof -
  from art(2) have obs: "observe_node S n = pc_expected c" by (simp add: expected_object_def)
  show ?thesis
  proof (cases n)
    case (FileNode k bytes)
    with assms show ?thesis by (auto intro!: sound_sync_preserved [OF at] sound_ret)
  qed (use assms(5) obs in \<open>auto simp: observed_kind_def observed_def intro!: sound_ret\<close>)
qed

lemma sound_staged_file:
  assumes "at_slots S c fs \<sigma>" "b \<Longrightarrow> I fs J" "pc_target c = FileTarget m" "staged_object S c (\<sigma> Stage)" "Q True fs J"
  shows "sound b (staged_file_ok S c m) Q I fs J"
proof -
  from assms obtain k bytes where st: "\<sigma> Stage = Some (FileNode k bytes)" "bytes_match_manifest (sv_externs S) bytes m"
    by (auto simp: staged_object_def)
  show ?thesis unfolding staged_file_ok_def loc_folds
    by (rule sound_and_do, rule sound_observe [OF assms(1)], erule assms(2))
       (auto simp: st observed_kind_def observed_def intro!: sound_matches_manifest [OF assms(1) _ st(1)] assms(2,5))
qed

lemma sound_capture_object:
  assumes at: "at_slots S c fs \<sigma>" and st: "pc_state c = Prepared" "fmlookup J (pc_id c) = Some c"
    and reach: "reaches S c x (Prepared, \<sigma>)"
    and dest: "\<sigma> Dest = Some n" "expected_object S c (\<sigma> Dest)" "\<sigma> Art = None"
    and Q: "\<And>fs'. at_slots S c fs' (\<sigma>(Dest := None, Art := Some n)) \<Longrightarrow> reaches S c x (Prepared, \<sigma>(Dest := None, Art := Some n)) \<Longrightarrow> Q () fs' J"
  shows "sound b (capture_object S c (loc c Dest)) Q (somewhere S c x) fs J"
proof -
  have c: "c\<lparr>pc_state := Prepared\<rparr> = c" using st(1) by simp
  have here: "somewhere S c x fs J" using somewhereI [OF reach at] st(2) c by simp
  let ?\<sigma> = "\<sigma>(Dest := None, Art := Some n)"
  have reach': "reaches S c x (Prepared, ?\<sigma>)"
    using reach detach [of \<sigma> n S c] dest by (simp add: rtranclp.rtrancl_into_rtrancl)
  have there: "somewhere S c x fs' J" if "at_slots S c fs' ?\<sigma>" for fs'
    using somewhereI [OF reach' that] st(2) c by simp
  have obs: "observe_node S n = pc_expected c" "pc_expected c \<noteq> None" using dest by (auto simp: expected_object_def)
  show ?thesis unfolding capture_object_def capture_into_vault_def loc_folds
    apply (rule sound_and_do, rule sound_rename [OF at], rule here, simp, rule dest, rule dest)
    apply (rule sound_and_do, rule sound_sync_directory, assumption, erule there)
    apply (rule sound_and_do, rule sound_sync_directory, assumption, erule there)
    apply (rule sound_and_do, rule sound_sync_captured [where n = n], assumption, erule there, simp, rule dest(2) [unfolded dest(1)])
    apply (rule sound_and_do, rule sound_observe, assumption, erule there)
    using obs Q reach' by (auto intro!: sound_ret)
qed

abbreviation detached :: "(slot \<Rightarrow> fs_node option) \<Rightarrow> slot \<Rightarrow> fs_node option" where
  "detached \<sigma> \<equiv> \<sigma>(Dest := None, Art := \<sigma> Dest)"

lemma sound_capture:
  assumes at: "at_slots S c fs \<sigma>" and st: "pc_state c = Prepared" "fmlookup J (pc_id c) = Some c" "\<not> pc_metadata_only c"
    and reach: "reaches S c x (Prepared, \<sigma>)"
    and dest: "expected_object S c (\<sigma> Dest)" "\<sigma> Art = None" and staged: "staged_object S c (\<sigma> Stage)"
    and Q: "\<And>fs' J'. at_slots S c fs' (detached \<sigma>) \<Longrightarrow> fmlookup J' (pc_id c) = Some (c\<lparr>pc_state := Preserved\<rparr>) \<Longrightarrow>
      reaches S c x (Preserved, detached \<sigma>) \<Longrightarrow> Q (c\<lparr>pc_state := Preserved\<rparr>) fs' J'"
  shows "sound b (capture_path_change S c) Q (somewhere S c x) fs J"
proof -
  have c: "c\<lparr>pc_state := Prepared\<rparr> = c" using st(1) by simp
  have here: "somewhere S c x fs J" using somewhereI [OF reach at] st(2) c by simp
  have finish: "sound b (and_do (put_change (c\<lparr>pc_state := Preserved\<rparr>)) (\<lambda>_. ret (c\<lparr>pc_state := Preserved\<rparr>))) Q (somewhere S c x) fs' J"
    if at': "at_slots S c fs' (detached \<sigma>)" and reach': "reaches S c x (Prepared, detached \<sigma>)" for fs'
  proof -
    have "expected_object S c ((detached \<sigma>) Art)" using dest by simp
    then have "reaches S c x (Preserved, detached \<sigma>)"
      using rtranclp.rtrancl_into_rtrancl [OF reach'] preserve [of "detached \<sigma>" S c] by simp
    moreover have "somewhere S c x fs' J" using somewhereI [OF reach' at'] st(2) c by simp
    ultimately show ?thesis using at' by (intro sound_and_do sound_put_change sound_ret Q) simp_all
  qed
  have captured: "sound b (if pc_expected c \<noteq> None \<and> \<not> pc_metadata_only c then capture_object S c (loc c Dest) else ret ())
      (\<lambda>_ fs' J'. sound b (and_do (put_change (c\<lparr>pc_state := Preserved\<rparr>)) (\<lambda>_. ret (c\<lparr>pc_state := Preserved\<rparr>))) Q (somewhere S c x) fs' J')
      (somewhere S c x) fs J"
  proof (cases "\<sigma> Dest")
    case None
    moreover from this dest(2) have "detached \<sigma> = \<sigma>" by auto
    ultimately show ?thesis using dest(1) finish [of fs] at reach by (auto simp: expected_object_def intro!: sound_ret)
  next
    case (Some n)
    with dest(1) have "pc_expected c \<noteq> None" by (auto simp: expected_object_def)
    with Some st show ?thesis
      by (auto intro!: sound_capture_object [OF at st(1,2) reach Some dest] finish)
  qed
  have stage: "sound b (case pc_target c of FileTarget m \<Rightarrow> and_do (staged_file_ok S c m)
      (\<lambda>ok. require ok (Refused ''incoming staging changed before capture'')) | _ \<Rightarrow> ret ()) R (somewhere S c x) fs J"
    if "R () fs J" for R
    using that staged here
    by (cases "pc_target c") (auto intro!: sound_ret sound_and_do sound_require sound_staged_file [OF at])
  show ?thesis unfolding capture_path_change_def Let_def
    apply (rule sound_and_do, rule sound_validate_change [OF at], rule here)
     apply (rule sound_and_do, rule sound_require, rule st)
     apply (rule sound_and_do, rule sound_checked_destination [OF at], rule here)
     apply (rule sound_and_do, rule sound_observe_expected [OF at], rule here, rule dest)
     apply (rule sound_and_do, rule sound_require, rule refl)
     apply (rule sound_and_do, rule stage, rule sound_and_do, rule captured)
    using st by (simp add: artifact_recorded_def)
qed

section \<open>Installing\<close>

text \<open>Installing moves the staged file to the destination or creates the directory there.\<close>

definition installs :: "path_change \<Rightarrow> (slot \<Rightarrow> fs_node option) \<Rightarrow> (slot \<Rightarrow> fs_node option) \<Rightarrow> bool" where
  "installs c \<sigma> \<sigma>' = (case pc_target c of
     FileTarget _ \<Rightarrow> \<sigma>' = \<sigma>(Stage := None, Dest := \<sigma> Stage)
   | DirectoryTarget \<Rightarrow> \<exists>k. \<sigma>' = \<sigma>(Dest := Some (DirNode k fmempty))
   | AbsentTarget \<Rightarrow> \<sigma>' = \<sigma>)"

lemma sound_install_target:
  assumes at: "at_slots S c fs \<sigma>" and st: "pc_state c = Preserved" "fmlookup J (pc_id c) = Some c" "\<not> pc_metadata_only c"
    and reach: "reaches S c x (Preserved, \<sigma>)" and dest: "\<sigma> Dest = None" and staged: "staged_object S c (\<sigma> Stage)"
    and Q: "\<And>fs' \<sigma>'. at_slots S c fs' \<sigma>' \<Longrightarrow> installs c \<sigma> \<sigma>' \<Longrightarrow> installed_object S c (\<sigma>' Dest) \<Longrightarrow>
      reaches S c x (Preserved, \<sigma>') \<Longrightarrow> Q () fs' J"
  shows "sound b (install_target S c (loc c Dest)) Q (somewhere S c x) fs J"
proof -
  have c: "c\<lparr>pc_state := Preserved\<rparr> = c" using st(1) by simp
  have near: "somewhere S c x fs' J" if "at_slots S c fs' \<sigma>'" "reaches S c x (Preserved, \<sigma>')" for fs' \<sigma>'
    using somewhereI [OF that(2,1)] st(2) c by simp
  have here: "somewhere S c x fs J" using near at reach by blast
  have sync: "sound b (sync_directory (butlast (loc c Dest))) Q (somewhere S c x) fs' J"
    if "at_slots S c fs' \<sigma>'" "installs c \<sigma> \<sigma>'" "installed_object S c (\<sigma>' Dest)" "reaches S c x (Preserved, \<sigma>')" for fs' \<sigma>'
    using that near Q by (intro sound_sync_directory [OF that(1)]) blast+
  show ?thesis
  proof (cases "pc_target c")
    case (FileTarget m)
    from staged FileTarget obtain k bytes where inc: "\<sigma> Stage = Some (FileNode k bytes)"
      "bytes_match_manifest (sv_externs S) bytes m" and valid: "manifest_validate (sv_externs S) m = Inr ()"
      by (auto simp: staged_object_def)
    let ?\<sigma> = "\<sigma>(Stage := None, Dest := Some (FileNode k bytes))"
    have step: "reaches S c x (Preserved, ?\<sigma>)"
      using rtranclp.rtrancl_into_rtrancl [OF reach] install_file [OF FileTarget inc(1) staged dest] by simp
    have inst: "installs c \<sigma> ?\<sigma>" "installed_object S c (?\<sigma> Dest)"
      using FileTarget inc by (auto simp: installs_def installed_object_def)
    show ?thesis unfolding install_target_def install_file_def loc_folds FileTarget path_target.case
      apply (rule sound_and_do, rule sound_and_do, rule sound_observe [OF at], rule here)
      apply (simp add: inc observed_def)
      apply (rule sound_and_do, rule sound_require)
      using inc(2) apply (simp add: bytes_match_manifest_def)
      apply (rule sound_and_do, rule sound_matches_manifest [OF at], rule here, rule inc)
      apply (rule sound_and_do, rule sound_require, rule inc)
      apply (rule sound_and_do, rule sound_rename [OF at], rule here, simp, rule inc, rule dest)
      apply (rule sound_put_manifest, erule near, rule step, rule valid)
      using inst step sync by blast
  next
    case DirectoryTarget
    have "sound b (create_dir S (loc c Dest)) (\<lambda>_. sound b (sync_directory (butlast (loc c Dest))) Q (somewhere S c x)) (somewhere S c x) fs J"
    proof (rule sound_create_dir [OF at], rule here, rule dest)
      fix fs' k assume at': "at_slots S c fs' (\<sigma>(Dest := Some (DirNode k fmempty)))"
      show "sound b (sync_directory (butlast (loc c Dest))) Q (somewhere S c x) fs' J"
        using rtranclp.rtrancl_into_rtrancl [OF reach] install_directory [where \<sigma> = \<sigma> and c = c and S = S and k = k] DirectoryTarget dest
        by (intro sync [OF at']) (auto simp: installs_def installed_object_def)
    qed
    then show ?thesis unfolding install_target_def DirectoryTarget path_target.case using st by (auto intro: sound_and_do)
  next
    case AbsentTarget
    then have "installs c \<sigma> \<sigma>" "installed_object S c (\<sigma> Dest)" using dest by (auto simp: installs_def installed_object_def)
    with AbsentTarget show ?thesis unfolding install_target_def
      by (auto intro!: sound_and_do sound_stat_not_found [OF at] sound_require here sync [OF at] simp: dest reach)
  qed
qed

lemma sound_materialize:
  assumes at: "at_slots S c fs \<sigma>" and st: "pc_state c = Preserved" "fmlookup J (pc_id c) = Some c" "\<not> pc_metadata_only c"
    and reach: "reaches S c x (Preserved, \<sigma>)" and dest: "\<sigma> Dest = None" and art: "expected_object S c (\<sigma> Art)"
    and staged: "staged_object S c (\<sigma> Stage)"
    and Q: "\<And>fs' J' \<sigma>'. at_slots S c fs' \<sigma>' \<Longrightarrow> installs c \<sigma> \<sigma>' \<Longrightarrow> installed_object S c (\<sigma>' Dest) \<Longrightarrow>
      fmlookup J' (pc_id c) = Some (c\<lparr>pc_state := Materialized\<rparr>) \<Longrightarrow> reaches S c x (Materialized, \<sigma>') \<Longrightarrow>
      Q (c\<lparr>pc_state := Materialized\<rparr>) fs' J'"
  shows "sound b (materialize_path_change S c) Q (somewhere S c x) fs J"
proof -
  have c: "c\<lparr>pc_state := Preserved\<rparr> = c" using st(1) by simp
  have near: "somewhere S c x fs' J" if "at_slots S c fs' \<sigma>'" "reaches S c x (Preserved, \<sigma>')" for fs' \<sigma>'
    using somewhereI [OF that(2,1)] st(2) c by simp
  have here: "somewhere S c x fs J" using near at reach by blast
  have entry: "sound b (and_do (put_change (c\<lparr>pc_state := Materialized\<rparr>)) (\<lambda>_. ret (c\<lparr>pc_state := Materialized\<rparr>))) Q (somewhere S c x) fs' J"
    if "at_slots S c fs' \<sigma>'" "installs c \<sigma> \<sigma>'" "installed_object S c (\<sigma>' Dest)" "reaches S c x (Preserved, \<sigma>')" for fs' \<sigma>'
    using that near Q [OF that(1,2,3)] rtranclp.rtrancl_into_rtrancl [OF that(4)] finish [of S c \<sigma>']
    by (intro sound_and_do sound_put_change sound_ret) auto
  have ident: "\<exists>n. \<sigma> Art = Some n \<and> nm_identity (node_meta n) = po_identity ex" if "pc_expected c = Some ex" for ex
    using art that by (cases "\<sigma> Art") (auto simp: expected_object_def intro: expected_identity [of S c])
  have check: "sound b (if pc_expected c \<noteq> None \<and> \<not> pc_metadata_only c then and_do (observe_at S (loc c Art)) (\<lambda>ob.
      if ob \<noteq> pc_expected c then and_do (abort_path_change S c)
        (\<lambda>_. fail (Refused ''preserved local object changed before installation'')) else ret ()) else ret ()) R (somewhere S c x) fs J"
    if "R () fs J" for R
    using that here by (auto intro!: sound_and_do sound_observe_expected [OF at _ art] sound_ret)
  show ?thesis unfolding materialize_path_change_def loc_folds Let_def
    apply (rule sound_and_do, rule sound_validate_change [OF at], rule here)
     apply (rule sound_and_do, rule sound_require, rule st)
     apply (rule sound_and_do, rule sound_checked_destination [OF at], rule here)
     apply (rule sound_and_do, rule check)
     apply (rule sound_and_do, rule sound_on_failure, rule sound_install_target [OF at st reach dest staged])
     apply (rule entry; assumption)
    using ident by blast
qed

section \<open>Where a change can be\<close>

text \<open>
  The states reachable from the prepared one: the original object is at the destination or in the artifact,
  never both, and the destination holds nothing, the original or the target.
\<close>

definition restored :: "(slot \<Rightarrow> fs_node option) \<Rightarrow> (slot \<Rightarrow> fs_node option) \<Rightarrow> bool" where
  "restored \<sigma>0 \<sigma> \<longleftrightarrow> \<sigma> Dest = \<sigma>0 Dest \<and> \<sigma> Art = None"

definition along :: "store_env \<Rightarrow> path_change \<Rightarrow> (slot \<Rightarrow> fs_node option) \<Rightarrow> change_view \<Rightarrow> bool" where
  "along S c \<sigma>0 x = (case x of (st, \<sigma>) \<Rightarrow> (case st of
     Prepared \<Rightarrow> \<sigma> Roll = None \<and> \<sigma> Stage = \<sigma>0 Stage \<and> (restored \<sigma>0 \<sigma> \<or> \<sigma> Art = \<sigma>0 Dest \<and> \<sigma> Dest = None)
   | Preserved \<Rightarrow> \<sigma> Roll = None \<and> \<sigma> Art = \<sigma>0 Dest \<and>
       (\<sigma> Dest = None \<and> \<sigma> Stage = \<sigma>0 Stage \<or> installed_object S c (\<sigma> Dest))
   | Materialized \<Rightarrow> \<sigma> Roll = None \<and> \<sigma> Art = \<sigma>0 Dest \<and> installed_object S c (\<sigma> Dest)
   | RollingBack \<Rightarrow> restored \<sigma>0 \<sigma> \<or>
       \<sigma> Art = \<sigma>0 Dest \<and> (\<sigma> Dest = None \<or> installed_object S c (\<sigma> Dest) \<and> \<sigma> Roll = None)
   | RolledBack \<Rightarrow> restored \<sigma>0 \<sigma>
   | _ \<Rightarrow> False))"

definition prepared_slots :: "store_env \<Rightarrow> path_change \<Rightarrow> (slot \<Rightarrow> fs_node option) \<Rightarrow> bool" where
  "prepared_slots S c \<sigma>0 \<longleftrightarrow> expected_object S c (\<sigma>0 Dest) \<and> \<sigma>0 Art = None \<and> staged_object S c (\<sigma>0 Stage) \<and>
     \<sigma>0 Roll = None \<and> \<not> pc_metadata_only c"

lemma along_start: "prepared_slots S c \<sigma>0 \<Longrightarrow> along S c \<sigma>0 (Prepared, \<sigma>0)"
  by (simp add: along_def prepared_slots_def restored_def)

lemma staged_installed: "pc_target c = FileTarget m \<Longrightarrow> staged_object S c v \<Longrightarrow> installed_object S c v"
  by (auto simp: staged_object_def installed_object_def)

lemma expected_None: "expected_object S c v \<Longrightarrow> v = None \<longleftrightarrow> pc_expected c = None"
  by (auto simp: expected_object_def split: option.splits)

lemma along_step:
  assumes "change_step S c x y" "along S c \<sigma>0 x" "prepared_slots S c \<sigma>0"
  shows "along S c \<sigma>0 y"
  using assms
proof (induction rule: change_step.induct)
  case (preserve \<sigma>)
  then show ?case by (auto simp: along_def restored_def prepared_slots_def)
next
  case (install_file m \<sigma> n)
  then show ?case by (auto simp: along_def intro: staged_installed)
next
  case (install_directory \<sigma> k)
  then show ?case by (auto simp: along_def installed_object_def)
next
  case (roll_back st \<sigma>)
  then show ?case by (auto simp: along_def)
next
  case (evict \<sigma> n)
  then show ?case using expected_None [of S c "\<sigma>0 Dest"] by (auto simp: along_def restored_def prepared_slots_def)
next
  case (undone st \<sigma>)
  then show ?case using expected_None [of S c "\<sigma>0 Dest"] expected_None [of S c "\<sigma> Dest"]
    by (auto simp: along_def restored_def prepared_slots_def)
qed (auto simp: along_def restored_def)

lemma along_reaches: "reaches S c x y \<Longrightarrow> along S c \<sigma>0 x \<Longrightarrow> prepared_slots S c \<sigma>0 \<Longrightarrow> along S c \<sigma>0 y"
  by (induction rule: rtranclp_induct) (auto intro: along_step)

section \<open>Resuming\<close>

text \<open>The machine does not depend on the stage a change carries in memory.\<close>

lemma object_state [simp]:
  "expected_object S (c\<lparr>pc_state := s\<rparr>) = expected_object S c" "staged_object S (c\<lparr>pc_state := s\<rparr>) = staged_object S c"
  "installed_object S (c\<lparr>pc_state := s\<rparr>) = installed_object S c"
  by (auto simp: fun_eq_iff expected_object_def staged_object_def installed_object_def split: option.split path_target.split)

lemma change_step_state': "change_step S (c\<lparr>pc_state := s\<rparr>) x y \<Longrightarrow> change_step S c x y"
  by (induction rule: change_step.induct) (auto intro: change_step.intros)

lemma change_step_state [simp]: "change_step S (c\<lparr>pc_state := s\<rparr>) = change_step S c"
proof -
  have "change_step S c x y \<Longrightarrow> change_step S (c\<lparr>pc_state := s\<rparr>) x y" for x y
    using change_step_state' [where c = "c\<lparr>pc_state := s\<rparr>" and s = "pc_state c"] by simp
  then show ?thesis by (auto simp: fun_eq_iff dest: change_step_state')
qed

lemma somewhere_state [simp]: "somewhere S (c\<lparr>pc_state := s\<rparr>) = somewhere S c"
  by (simp add: fun_eq_iff somewhere_def holds_view_def)

lemma along_state [simp]: "along S (c\<lparr>pc_state := s\<rparr>) = along S c"
  by (auto simp: fun_eq_iff along_def split: path_change_state.split)

lemma prepared_slots_state [simp]: "prepared_slots S (c\<lparr>pc_state := s\<rparr>) = prepared_slots S c"
  by (simp add: fun_eq_iff prepared_slots_def)

lemma entry_here:
  assumes "at_slots S c fs \<sigma>" "fmlookup J (pc_id c) = Some c" "reaches S c x (pc_state c, \<sigma>)"
  shows "somewhere S c x fs J"
  using somewhereI [OF assms(3,1)] assms(2) by simp

lemma sound_target_installed:
  assumes "at_slots S c fs \<sigma>" "b \<Longrightarrow> I fs J" "\<sigma> Dest = None \<or> installed_object S c (\<sigma> Dest)"
    and "Q (installed_object S c (\<sigma> Dest)) fs J"
  shows "sound b (target_installed S (pc_target c) (loc c Dest)) Q I fs J"
proof (cases "pc_target c")
  case (FileTarget m)
  note stat = at_slots_stat [OF assms(1), of Dest]
  show ?thesis
  proof (cases "\<sigma> Dest")
    case None
    with at_slots_lookup(1) [OF assms(1), of Dest] stat assms FileTarget show ?thesis
      by (auto simp: target_installed_def ok_or_def installed_object_def intro!: sound_and_do sound_query [where x = False] sound_ret)
  next
    case (Some n)
    with assms(3) FileTarget obtain k bytes where n: "\<sigma> Dest = Some (FileNode k bytes)" "bytes_match_manifest (sv_externs S) bytes m"
      by (auto simp: installed_object_def)
    obtain k' where "fs_lookup fs (loc c Dest) = Some (FileNode k' bytes)" by (rule at_slots_file [OF assms(1) n(1)])
    with stat n assms FileTarget show ?thesis
      by (auto simp: target_installed_def ok_or_def installed_object_def is_file_node_def
          intro!: sound_and_do sound_query [where x = True] sound_matches_manifest [OF assms(1)])
  qed
next
  case DirectoryTarget
  have "(case fs_stat fs (loc c Dest) of Inr n \<Rightarrow> is_dir_node n | Inl _ \<Rightarrow> False) = installed_object S c (\<sigma> Dest)"
  proof (cases "\<sigma> Dest")
    case None
    with at_slots_stat [OF assms(1), of Dest] at_slots_lookup(1) [OF assms(1), of Dest] DirectoryTarget show ?thesis
      by (simp add: installed_object_def ok_or_def)
  next
    case (Some n)
    then obtain n' where "fs_lookup fs (loc c Dest) = Some n'" "n = unstamped n'"
      using at_slots_lookup(2) [OF assms(1)] by blast
    moreover have "is_dir_node n" using assms(3) Some DirectoryTarget by (auto simp: installed_object_def is_dir_node_def)
    ultimately show ?thesis using assms(3) Some at_slots_stat [OF assms(1), of Dest] by (simp add: ok_or_def)
  qed
  with assms DirectoryTarget show ?thesis
    by (auto simp: target_installed_def intro!: sound_query [where x = "installed_object S c (\<sigma> Dest)"])
next
  case AbsentTarget
  with assms show ?thesis
    by (auto simp: target_installed_def installed_object_def intro!: sound_stat_not_found [OF assms(1)])
qed

lemma expected_art_identity:
  assumes "expected_object S c v" "pc_expected c = Some ex"
  shows "\<exists>n. v = Some n \<and> nm_identity (node_meta n) = po_identity ex"
  using assms expected_identity [of S c _ ex] by (cases v) (auto simp: expected_object_def)

lemma sound_resume_preserved:
  assumes at: "at_slots S c fs \<sigma>" and st: "pc_state c = Preserved" and entry: "fmlookup J (pc_id c) = Some c"
    and pre: "prepared_slots S c \<sigma>0" and al: "along S c \<sigma>0 (Preserved, \<sigma>)" and reach: "reaches S c x (Preserved, \<sigma>)"
    and Q: "\<And>fs' J' \<sigma>'. at_slots S c fs' \<sigma>' \<Longrightarrow> fmlookup J' (pc_id c) = Some (c\<lparr>pc_state := Materialized\<rparr>) \<Longrightarrow>
      along S c \<sigma>0 (Materialized, \<sigma>') \<Longrightarrow> reaches S c x (Materialized, \<sigma>') \<Longrightarrow> Q (c\<lparr>pc_state := Materialized\<rparr>) fs' J'"
  shows "sound b (resume_preserved S c) Q (somewhere S c x) fs J"
proof -
  have here: "somewhere S c x fs J" using entry_here [OF at entry] reach st by simp
  from al pre have art: "expected_object S c (\<sigma> Art)" and meta: "\<not> pc_metadata_only c" by (auto simp: along_def prepared_slots_def)
  have nxt: "along S c \<sigma>0 (Materialized, \<sigma>')" if "reaches S c x (Materialized, \<sigma>')" "reaches S c (Preserved, \<sigma>) (Materialized, \<sigma>')" for \<sigma>'
    using along_reaches [OF that(2) al pre] .
  have complete: "sound b (and_do (if pc_metadata_only c \<or> pc_expected c = None then ret True else stat_is_ok (loc c Art)) (\<lambda>ok.
        and_do (require ok (Preservation RecoveryStateUnavailable)) (\<lambda>_.
        and_do (put_change (c\<lparr>pc_state := Materialized\<rparr>)) (\<lambda>_. ret (c\<lparr>pc_state := Materialized\<rparr>))))) Q (somewhere S c x) fs J"
    if inst: "installed_object S c (\<sigma> Dest)"
  proof -
    have "reaches S c x (Materialized, \<sigma>)" using rtranclp.rtrancl_into_rtrancl [OF reach] finish [of S c \<sigma>] inst by simp
    moreover have "along S c \<sigma>0 (Materialized, \<sigma>)" using al inst by (auto simp: along_def)
    moreover have "pc_expected c \<noteq> None \<longrightarrow> \<sigma> Art \<noteq> None" using expected_None [OF art] by simp
    ultimately show ?thesis using at Q here
      by (auto intro!: sound_and_do sound_ret sound_require sound_put_change sound_stat_is_ok [OF at])
  qed
  have more: "sound b (materialize_path_change S c) Q (somewhere S c x) fs J" if "\<not> installed_object S c (\<sigma> Dest)"
  proof -
    from that al have dest: "\<sigma> Dest = None" "\<sigma> Stage = \<sigma>0 Stage" by (auto simp: along_def)
    with pre have "staged_object S c (\<sigma> Stage)" by (simp add: prepared_slots_def)
    then show ?thesis
    proof (rule sound_materialize [OF at st entry meta reach dest(1) art])
      fix fs' J' \<sigma>' assume "at_slots S c fs' \<sigma>'" "installs c \<sigma> \<sigma>'" "installed_object S c (\<sigma>' Dest)"
        "fmlookup J' (pc_id c) = Some (c\<lparr>pc_state := Materialized\<rparr>)" "reaches S c x (Materialized, \<sigma>')"
      moreover from this al have "along S c \<sigma>0 (Materialized, \<sigma>')"
        by (auto simp: along_def installs_def split: path_target.splits)
      ultimately show "Q (c\<lparr>pc_state := Materialized\<rparr>) fs' J'" by (intro Q)
    qed
  qed
  from al have "\<sigma> Dest = None \<or> installed_object S c (\<sigma> Dest)" by (auto simp: along_def)
  then show ?thesis unfolding resume_preserved_def loc_folds Let_def
    apply (intro sound_and_do sound_checked_destination [OF at] here)
    apply (rule sound_target_installed [OF at], rule here, assumption)
    using complete more by auto
qed

lemma sound_resume_prepared:
  assumes at: "at_slots S c fs \<sigma>" and st: "pc_state c = Prepared" and entry: "fmlookup J (pc_id c) = Some c"
    and pre: "prepared_slots S c \<sigma>0" and al: "along S c \<sigma>0 (Prepared, \<sigma>)" and reach: "reaches S c x (Prepared, \<sigma>)"
    and Q: "\<And>fs' J' \<sigma>'. at_slots S c fs' \<sigma>' \<Longrightarrow> fmlookup J' (pc_id c) = Some (c\<lparr>pc_state := Preserved\<rparr>) \<Longrightarrow>
      along S c \<sigma>0 (Preserved, \<sigma>') \<Longrightarrow> reaches S c x (Preserved, \<sigma>') \<Longrightarrow> Q (c\<lparr>pc_state := Preserved\<rparr>) fs' J'"
  shows "sound b (resume_prepared S c) Q (somewhere S c x) fs J"
proof -
  have here: "somewhere S c x fs J" using entry_here [OF at entry] reach st by simp
  from al pre have staged: "staged_object S c (\<sigma> Stage)" "\<not> pc_metadata_only c" by (auto simp: along_def prepared_slots_def)
  show ?thesis
  proof (cases "\<sigma> Art")
    case None
    with al pre have dest: "expected_object S c (\<sigma> Dest)" "\<sigma> Dest = \<sigma>0 Dest" "\<sigma> Roll = None" "\<sigma> Stage = \<sigma>0 Stage"
      by (auto simp: along_def restored_def prepared_slots_def)
    have capture: "sound b (capture_path_change S c) Q (somewhere S c x) fs J"
    proof (rule sound_capture [OF at st entry staged(2) reach dest(1) None staged(1)])
      fix fs' J' assume "at_slots S c fs' (detached \<sigma>)" "fmlookup J' (pc_id c) = Some (c\<lparr>pc_state := Preserved\<rparr>)"
        "reaches S c x (Preserved, detached \<sigma>)"
      moreover from dest have "along S c \<sigma>0 (Preserved, detached \<sigma>)" by (simp add: along_def)
      ultimately show "Q (c\<lparr>pc_state := Preserved\<rparr>) fs' J'" by (intro Q)
    qed
    have "sound b (case pc_target c of FileTarget _ \<Rightarrow> and_do (path_exists (loc c Stage)) (\<lambda>staged.
        if \<not> staged then abort_path_change S c else capture_path_change S c) | _ \<Rightarrow> capture_path_change S c) Q (somewhere S c x) fs J"
    proof (cases "pc_target c")
      case (FileTarget m)
      with staged obtain k bytes where "\<sigma> Stage = Some (FileNode k bytes)" by (auto simp: staged_object_def)
      with FileTarget capture here show ?thesis
        by (auto simp: is_file_node_def intro!: sound_and_do sound_path_exists [OF at])
    qed (simp_all add: capture)
    then show ?thesis unfolding resume_prepared_def loc_folds using None here
      by (auto intro!: sound_and_do sound_stat_is_ok [OF at])
  next
    case (Some n)
    with al pre have art: "\<sigma> Art = \<sigma>0 Dest" "\<sigma> Dest = None" "expected_object S c (\<sigma> Art)"
      by (auto simp: along_def restored_def prepared_slots_def)
    have "reaches S c x (Preserved, \<sigma>)"
      using rtranclp.rtrancl_into_rtrancl [OF reach] preserve [of \<sigma> S c] art by simp
    moreover have "along S c \<sigma>0 (Preserved, \<sigma>)" using al art by (auto simp: along_def)
    ultimately have put: "sound b (and_do (put_change (c\<lparr>pc_state := Preserved\<rparr>)) (\<lambda>_. ret (c\<lparr>pc_state := Preserved\<rparr>))) Q (somewhere S c x) fs J"
      using at here Q by (auto intro!: sound_and_do sound_put_change sound_ret)
    show ?thesis unfolding resume_prepared_def loc_folds Let_def
      apply (rule sound_and_do, rule sound_stat_is_ok [OF at], rule here)
      apply (simp only: Some option.simps not_False_eq_True if_True)
      apply (rule sound_and_do, rule sound_observe_expected [OF at], rule here, rule art)
      apply (rule sound_and_do, rule sound_require, rule refl)
      apply (rule sound_and_do, rule sound_sync_captured [OF at], rule here, rule Some, rule art(3) [unfolded Some])
      by (rule put)
  qed
qed

text \<open>
  A change that was prepared and not begun to be undone completes: the target is at the destination and the
  original in the artifact.
\<close>

lemma sound_resume:
  assumes at: "at_slots S c fs \<sigma>" and st: "pc_state c \<in> {Prepared, Preserved, Materialized}"
    and entry: "fmlookup J (pc_id c) = Some c" and pre: "prepared_slots S c \<sigma>0"
    and al: "along S c \<sigma>0 (pc_state c, \<sigma>)" and reach: "reaches S c x (pc_state c, \<sigma>)"
    and Q: "\<And>fs' J' \<sigma>'. at_slots S c fs' \<sigma>' \<Longrightarrow> fmlookup J' (pc_id c) = Some (c\<lparr>pc_state := Materialized\<rparr>) \<Longrightarrow>
      along S c \<sigma>0 (Materialized, \<sigma>') \<Longrightarrow> reaches S c x (Materialized, \<sigma>') \<Longrightarrow> Q (c\<lparr>pc_state := Materialized\<rparr>) fs' J'"
  shows "sound b (resume_path_change S c) Q (somewhere S c x) fs J"
proof -
  have here: "somewhere S c x fs J" using entry_here [OF at entry reach] .
  have later: "sound b (resume_preserved S (c\<lparr>pc_state := Preserved\<rparr>)) Q (somewhere S c x) fs' J'"
    if "at_slots S c fs' \<sigma>'" "fmlookup J' (pc_id c) = Some (c\<lparr>pc_state := Preserved\<rparr>)" "along S c \<sigma>0 (Preserved, \<sigma>')"
      "reaches S c x (Preserved, \<sigma>')" for fs' J' \<sigma>'
    using sound_resume_preserved [of S "c\<lparr>pc_state := Preserved\<rparr>" fs' \<sigma>' J' \<sigma>0 x Q b] that pre Q by simp
  have main: "sound b (and_do (if pc_state c = Prepared then resume_prepared S c else ret c)
      (\<lambda>c'. if pc_state c' = Preserved then resume_preserved S c' else ret c')) Q (somewhere S c x) fs J"
  proof (cases "pc_state c")
    case Prepared
    show ?thesis
      apply (rule sound_and_do)
      apply (simp add: Prepared)
      apply (rule sound_resume_prepared [OF at Prepared entry pre])
      using al reach Prepared later by auto
  next
    case Preserved
    then have "c\<lparr>pc_state := Preserved\<rparr> = c" by simp
    with Preserved later [OF at] entry al reach show ?thesis by (auto intro!: sound_and_do sound_ret)
  next
    case Materialized
    then have "c\<lparr>pc_state := Materialized\<rparr> = c" by simp
    with Materialized Q [OF at] entry al reach show ?thesis by (auto intro!: sound_and_do sound_ret)
  qed (use st in auto)
  have "\<exists>n. \<sigma> Art = Some n \<and> nm_identity (node_meta n) = po_identity ex"
    if "pc_expected c = Some ex" "artifact_recorded (pc_state c)" for ex
  proof -
    have "expected_object S c (\<sigma> Art)" using that al st pre by (auto simp: along_def artifact_recorded_def prepared_slots_def)
    then show ?thesis using that(1) by (rule expected_art_identity)
  qed
  then show ?thesis unfolding resume_path_change_def
    apply (intro sound_and_do [of b "validate_change S c"])
    apply (rule sound_validate_change [OF at], rule here, rule main)
    by blast
qed

section \<open>Rolling back\<close>

lemma installed_observation:
  assumes "installed_object S c (Some n)"
  shows "\<exists>ob. observe_node S n = Some ob \<and> target_matches_observation (pc_target c) ob"
  using assms
  by (cases "pc_target c") (auto simp: installed_object_def target_matches_observation_def observed_def bytes_match_manifest_def)

lemma sound_finish_rollback:
  assumes at: "at_slots S c fs \<sigma>" and entry: "fmlookup J (pc_id c) = Some (c\<lparr>pc_state := s\<rparr>)" and s: "s \<in> {Prepared, RollingBack}"
    and reach: "reaches S c x (s, \<sigma>)" and r: "restored \<sigma>0 \<sigma>" and pre: "prepared_slots S c \<sigma>0"
    and Q: "\<And>fs' J' \<sigma>'. at_slots S c fs' \<sigma>' \<Longrightarrow> fmlookup J' (pc_id c) = Some (c\<lparr>pc_state := RolledBack\<rparr>) \<Longrightarrow>
      along S c \<sigma>0 (RolledBack, \<sigma>') \<Longrightarrow> reaches S c x (RolledBack, \<sigma>') \<Longrightarrow> Q (c\<lparr>pc_state := RolledBack\<rparr>) fs' J'"
  shows "sound b (finish_rollback c) Q (somewhere S c x) fs J"
proof -
  have "expected_object S c (\<sigma> Dest)" "\<sigma> Art = None" using r pre by (auto simp: restored_def prepared_slots_def)
  then have "reaches S c x (RolledBack, \<sigma>)"
    using rtranclp.rtrancl_into_rtrancl [OF reach] undone [of s S c \<sigma>] s by blast
  then show ?thesis unfolding finish_rollback_def Let_def
    using at r somewhereI [OF reach at entry] by (intro sound_and_do sound_put_change sound_ret Q) (auto simp: along_def)
qed

lemma sound_evict:
  assumes at: "at_slots S c fs \<sigma>" and entry: "fmlookup J (pc_id c) = Some (c\<lparr>pc_state := RollingBack\<rparr>)"
    and reach: "reaches S c x (RollingBack, \<sigma>)"
    and dest: "\<sigma> Dest = Some n" "installed_object S c (\<sigma> Dest)" "\<sigma> Roll = None" "pc_expected c = None \<or> \<sigma> Art \<noteq> None"
    and obs: "observe_node S n = Some ob"
    and Q: "\<And>fs'. at_slots S c fs' (\<sigma>(Dest := None, Roll := Some n)) \<Longrightarrow> reaches S c x (RollingBack, \<sigma>(Dest := None, Roll := Some n)) \<Longrightarrow> Q () fs' J"
  shows "sound b (and_do (capture_into_vault S (loc c Dest) (loc c Roll)) (\<lambda>_.
      and_do (sync_directory (butlast (loc c Dest))) (\<lambda>_.
      and_do (sync_directory (butlast (loc c Roll))) (\<lambda>_.
      and_do (observe_at S (loc c Roll)) (\<lambda>seen. require (seen = Some ob) (Preservation LocalChanged))))))
    Q (somewhere S c x) fs J"
proof -
  let ?\<sigma> = "\<sigma>(Dest := None, Roll := Some n)"
  have reach': "reaches S c x (RollingBack, ?\<sigma>)"
    using rtranclp.rtrancl_into_rtrancl [OF reach] evict [of \<sigma> n S c] dest by blast
  have there: "somewhere S c x fs' J" if "at_slots S c fs' ?\<sigma>" for fs' using somewhereI [OF reach' that entry] .
  show ?thesis unfolding capture_into_vault_def
    apply (rule sound_and_do, rule sound_rename [OF at], rule somewhereI [OF reach at entry], simp, rule dest, rule dest)
    apply (rule sound_and_do, rule sound_sync_directory, assumption, erule there)
    apply (rule sound_and_do, rule sound_sync_directory, assumption, erule there)
    apply (rule sound_and_do, rule sound_observe, assumption, erule there)
    using obs reach' Q by (auto intro!: sound_require)
qed

lemma sound_restore:
  assumes at: "at_slots S c fs \<sigma>" and entry: "fmlookup J (pc_id c) = Some (c\<lparr>pc_state := RollingBack\<rparr>)"
    and reach: "reaches S c x (RollingBack, \<sigma>)" and dest: "\<sigma> Dest = None" "\<sigma> Art = \<sigma>0 Dest" and pre: "prepared_slots S c \<sigma>0"
    and Q: "\<And>fs' J' \<sigma>'. at_slots S c fs' \<sigma>' \<Longrightarrow> fmlookup J' (pc_id c) = Some (c\<lparr>pc_state := RolledBack\<rparr>) \<Longrightarrow>
      along S c \<sigma>0 (RolledBack, \<sigma>') \<Longrightarrow> reaches S c x (RolledBack, \<sigma>') \<Longrightarrow> Q (c\<lparr>pc_state := RolledBack\<rparr>) fs' J'"
  shows "sound b (and_do (if pc_expected c \<noteq> None then
        and_do (catch (rename_noreplace S (loc c Art) (loc c Dest)) (\<lambda>_. fail (Preservation LocalChanged))) (\<lambda>_.
        and_do (sync_directory (butlast (loc c Dest))) (\<lambda>_. sync_directory (butlast (loc c Art))))
      else ret ()) (\<lambda>_. finish_rollback c)) Q (somewhere S c x) fs J"
proof (cases "\<sigma> Art")
  case None
  with dest pre have "pc_expected c = None" "restored \<sigma>0 \<sigma>"
    using expected_None [of S c "\<sigma>0 Dest"] by (auto simp: prepared_slots_def restored_def)
  moreover have "sound b (finish_rollback c) Q (somewhere S c x) fs J"
    by (rule sound_finish_rollback [OF at entry _ reach _ pre]) (use \<open>restored \<sigma>0 \<sigma>\<close> in \<open>auto intro: Q\<close>)
  ultimately show ?thesis by (auto intro!: sound_and_do sound_ret)
next
  case (Some n)
  with dest pre have ex: "pc_expected c \<noteq> None" using expected_None [of S c "\<sigma>0 Dest"] by (auto simp: prepared_slots_def)
  let ?\<sigma> = "\<sigma>(Art := None, Dest := Some n)"
  have reach': "reaches S c x (RollingBack, ?\<sigma>)"
    using rtranclp.rtrancl_into_rtrancl [OF reach] restore [of \<sigma> n S c] dest Some by blast
  have there: "somewhere S c x fs' J" if "at_slots S c fs' ?\<sigma>" for fs' using somewhereI [OF reach' that entry] .
  have home: "restored \<sigma>0 ?\<sigma>" using Some dest by (simp add: restored_def)
  have "sound b (and_do (and_do (catch (rename_noreplace S (loc c Art) (loc c Dest)) (\<lambda>_. fail (Preservation LocalChanged))) (\<lambda>_.
        and_do (sync_directory (butlast (loc c Dest))) (\<lambda>_. sync_directory (butlast (loc c Art))))) (\<lambda>_. finish_rollback c)) Q (somewhere S c x) fs J"
    apply (rule sound_and_do, rule sound_and_do, rule sound_catch, rule sound_rename [OF at],
        rule somewhereI [OF reach at entry], simp, rule Some, rule dest)
    apply (rule sound_and_do, rule sound_sync_directory, assumption, erule there)
    apply (rule sound_sync_directory, assumption, erule there)
    apply (rule sound_finish_rollback [OF _ entry _ reach' home pre], assumption, simp)
    by (rule Q)
  with ex show ?thesis by simp
qed

lemma sound_restore_captured:
  assumes at: "at_slots S c fs \<sigma>" and entry: "fmlookup J (pc_id c) = Some c" and st: "pc_state c \<in> {Prepared, Preserved, Materialized, RollingBack}"
    and reach: "reaches S c x (pc_state c, \<sigma>)" and pre: "prepared_slots S c \<sigma>0" and art: "\<sigma> Art = \<sigma>0 Dest"
    and dest: "\<sigma> Dest = None \<or> installed_object S c (\<sigma> Dest) \<and> \<sigma> Roll = None"
    and Q: "\<And>fs' J' \<sigma>'. at_slots S c fs' \<sigma>' \<Longrightarrow> fmlookup J' (pc_id c) = Some (c\<lparr>pc_state := RolledBack\<rparr>) \<Longrightarrow>
      along S c \<sigma>0 (RolledBack, \<sigma>') \<Longrightarrow> reaches S c x (RolledBack, \<sigma>') \<Longrightarrow> Q (c\<lparr>pc_state := RolledBack\<rparr>) fs' J'"
  shows "sound b (restore_captured S c (loc c Dest) (Option.bind (\<sigma> Dest) (observe_node S))) Q (somewhere S c x) fs J"
proof -
  have here: "somewhere S c x fs J" using entry_here [OF at entry reach] .
  have rolling: "reaches S c x (RollingBack, \<sigma>)" using rtranclp.rtrancl_into_rtrancl [OF reach] roll_back [OF st] by blast
  let ?J = "fmupd (pc_id c) (c\<lparr>pc_state := RollingBack\<rparr>) J"
  have entry': "fmlookup ?J (pc_id c) = Some (c\<lparr>pc_state := RollingBack\<rparr>)" by simp
  have finish: "finish_rollback (c\<lparr>pc_state := RollingBack\<rparr>) = finish_rollback c" by (simp add: finish_rollback_def)
  note restore = sound_restore [OF _ entry' _ _ _ pre]
  show ?thesis
  proof (cases "\<sigma> Dest")
    case None
    show ?thesis unfolding restore_captured_def Let_def loc_folds finish
      apply (rule sound_and_do, rule sound_put_change, rule here)
      apply (simp only: None Option.bind.simps not_True_eq_False if_False simp_thms path_change.update_convs path_change.select_convs)
      apply (rule sound_and_do [of b "ret ()"], rule sound_ret)
      apply (simp del: not_None_eq split del: if_split)
      apply (rule restore [OF at rolling None art])
      by (rule Q)
  next
    case (Some n)
    with dest have inst: "installed_object S c (\<sigma> Dest)" "\<sigma> Roll = None" by auto
    with Some obtain ob where ob: "observe_node S n = Some ob" using installed_observation [of S c n] by auto
    have held: "pc_expected c = None \<or> \<sigma> Art \<noteq> None"
      using art pre expected_None [of S c "\<sigma>0 Dest"] by (auto simp: prepared_slots_def)
    show ?thesis unfolding restore_captured_def Let_def loc_folds finish
      apply (rule sound_and_do, rule sound_put_change, rule here)
      apply (simp only: Some Option.bind.simps ob option.simps not_False_eq_True if_True path_change.update_convs path_change.select_convs)
      apply (rule sound_and_do)
      apply (simp del: not_None_eq split del: if_split)
      apply (rule sound_evict [OF at entry' rolling Some inst held ob])
      apply (rule restore, assumption, assumption)
        apply simp
       apply (simp add: art)
      by (rule Q)
  qed
qed

text \<open>
  A change that was prepared, at whatever stage it was interrupted, is undone: the original is back at the
  destination.
\<close>

lemma sound_rollback_checks:
  assumes at: "at_slots S c fs \<sigma>" and "b \<Longrightarrow> I fs J" and pre: "prepared_slots S c \<sigma>0" and art: "\<sigma> Art = \<sigma>0 Dest"
    and dest: "\<sigma> Dest = None \<or> installed_object S c (\<sigma> Dest) \<and> \<sigma> Roll = None"
    and mat: "pc_state c = Materialized \<Longrightarrow> installed_object S c (\<sigma> Dest)" and "Q () fs J"
  shows "sound b (rollback_checks c (Option.bind (\<sigma> Dest) (observe_node S))) Q I fs J"
proof -
  have ident: "sound b (case pc_expected c of Some expected \<Rightarrow> identity_check (loc c Art) expected | None \<Rightarrow> ret ()) Q I fs J"
  proof (cases "pc_expected c")
    case (Some ex)
    with pre art obtain n where "\<sigma> Art = Some n" "nm_identity (node_meta n) = po_identity ex"
      using expected_art_identity [of S c "\<sigma> Art" ex] by (auto simp: prepared_slots_def)
    with Some assms(2,7) show ?thesis by (auto intro!: sound_identity_check [OF at])
  qed (simp add: sound_ret assms(7))
  show ?thesis
  proof (cases "\<sigma> Dest")
    case None
    with mat have "\<not> (pc_state c = Materialized \<and> pc_target c \<noteq> AbsentTarget)"
      by (auto simp: installed_object_def split: path_target.splits)
    with None ident show ?thesis unfolding rollback_checks_def loc_folds by (auto intro!: sound_and_do sound_require)
  next
    case (Some n)
    with dest have inst: "installed_object S c (Some n)" "\<sigma> Roll = None" by auto
    with Some obtain ob where "observe_node S n = Some ob" "target_matches_observation (pc_target c) ob"
      using installed_observation [of S c n] by auto
    with Some inst ident assms(2) show ?thesis unfolding rollback_checks_def loc_folds
      by (auto intro!: sound_and_do sound_require sound_stat_not_found [OF at])
  qed
qed

lemma sound_rollback:
  assumes at: "at_slots S c fs \<sigma>" and st: "pc_state c \<in> {Prepared, Preserved, Materialized, RollingBack}"
    and entry: "fmlookup J (pc_id c) = Some c" and causal: "pc_causal c \<noteq> None" and pre: "prepared_slots S c \<sigma>0"
    and al: "along S c \<sigma>0 (pc_state c, \<sigma>)" and reach: "reaches S c x (pc_state c, \<sigma>)"
    and Q: "\<And>fs' J' \<sigma>'. at_slots S c fs' \<sigma>' \<Longrightarrow> fmlookup J' (pc_id c) = Some (c\<lparr>pc_state := RolledBack\<rparr>) \<Longrightarrow>
      along S c \<sigma>0 (RolledBack, \<sigma>') \<Longrightarrow> reaches S c x (RolledBack, \<sigma>') \<Longrightarrow> Q (c\<lparr>pc_state := RolledBack\<rparr>) fs' J'"
  shows "sound b (rollback_causal_change S c) Q (somewhere S c x) fs J"
proof -
  let ?cur = "Option.bind (\<sigma> Dest) (observe_node S)"
  have here: "somewhere S c x fs J" using entry_here [OF at entry reach] .
  have meta: "\<not> pc_metadata_only c" and ex: "expected_object S c (\<sigma>0 Dest)" "\<sigma>0 Dest = None \<longleftrightarrow> pc_expected c = None"
    using pre expected_None [of S c "\<sigma>0 Dest"] by (auto simp: prepared_slots_def)
  have place: "restored \<sigma>0 \<sigma> \<or> \<sigma> Art = \<sigma>0 Dest \<and> (\<sigma> Dest = None \<or> installed_object S c (\<sigma> Dest) \<and> \<sigma> Roll = None)"
    using al st by (auto simp: along_def)
  have fin: "sound b (finish_rollback c) Q (somewhere S c x) fs J" if "restored \<sigma>0 \<sigma>" "pc_state c \<in> {Prepared, RollingBack}"
    apply (rule sound_finish_rollback [OF at _ that(2) reach that(1) pre])
    using entry Q by simp_all
  have undo: "sound b (and_do (rollback_checks c ?cur) (\<lambda>_. restore_captured S c (loc c Dest) ?cur)) Q (somewhere S c x) fs J"
    if "\<sigma> Art = \<sigma>0 Dest" "\<sigma> Dest = None \<or> installed_object S c (\<sigma> Dest) \<and> \<sigma> Roll = None"
    apply (rule sound_and_do, rule sound_rollback_checks [OF at _ pre that], rule here)
    using al apply (auto simp: along_def)[1]
    by (rule sound_restore_captured [OF at entry st reach pre that], rule Q)
  define tail where "tail = (\<lambda>restored. if restored then finish_rollback c
    else and_do (rollback_checks c ?cur) (\<lambda>_. restore_captured S c (loc c Dest) ?cur))"
  have rolling: "sound b (and_do (if pc_state c = RollingBack \<and> same_identity ?cur (pc_expected c)
      then and_do (stat_is_ok (loc c Art)) (\<lambda>held. ret (\<not> held)) else ret False) tail) Q (somewhere S c x) fs J"
    if prep: "\<not> (pc_state c = Prepared \<and> restored \<sigma>0 \<sigma>)"
  proof (cases "pc_state c = RollingBack \<and> restored \<sigma>0 \<sigma> \<and> pc_expected c \<noteq> None")
    case True
    then have "?cur = pc_expected c" "\<sigma> Art = None" using ex by (auto simp: restored_def expected_object_def split: option.splits)
    with True fin here show ?thesis
      by (auto simp: tail_def same_identity_def intro!: sound_and_do sound_ret sound_stat_is_ok [OF at])
  next
    case False
    have "\<sigma> Art = \<sigma>0 Dest \<and> (\<sigma> Dest = None \<or> installed_object S c (\<sigma> Dest) \<and> \<sigma> Roll = None)"
      using place False prep al st ex(2) by (auto simp: restored_def along_def)
    then have gen: "sound b (tail False) Q (somewhere S c x) fs J" "\<sigma> Art = \<sigma>0 Dest" using undo by (simp_all add: tail_def)
    have "pc_expected c \<noteq> None \<Longrightarrow> \<sigma> Art \<noteq> None" using gen(2) ex(2) by simp
    with gen here show ?thesis
      by (auto simp: same_identity_def intro!: sound_and_do sound_ret sound_stat_is_ok [OF at] split: option.splits)
  qed
  define front where "front = (\<lambda>untouched. if untouched then finish_rollback c
    else and_do (if pc_state c = RollingBack \<and> same_identity ?cur (pc_expected c)
      then and_do (stat_is_ok (loc c Art)) (\<lambda>held. ret (\<not> held)) else ret False) tail)"
  have main: "sound b (and_do (if pc_state c = Prepared \<or> pc_state c = Aborted
      then and_do (path_exists (loc c Art)) (\<lambda>held. ret (\<not> held \<and> ?cur = pc_expected c)) else ret False) front) Q (somewhere S c x) fs J"
  proof (cases "pc_state c = Prepared")
    case True
    show ?thesis
    proof (cases "restored \<sigma>0 \<sigma>")
      case r: True
      then have "?cur = pc_expected c" "\<sigma> Art = None" using ex by (auto simp: restored_def expected_object_def split: option.splits)
      with True r fin here show ?thesis
        by (auto simp: front_def intro!: sound_and_do sound_ret sound_path_exists [OF at])
    next
      case False
      with place al True ex(2) have "?cur = None" "pc_expected c \<noteq> None" by (auto simp: along_def restored_def)
      with True False rolling here show ?thesis
        by (auto simp: front_def intro!: sound_and_do sound_ret sound_path_exists [OF at])
    qed
  next
    case False
    then show ?thesis using rolling st by (auto simp: front_def intro!: sound_and_do sound_ret)
  qed
  have seen: "\<sigma> Dest = None \<or> ?cur \<noteq> None"
    using place ex installed_observation [of S c] by (cases "\<sigma> Dest") (auto simp: restored_def expected_object_def)
  have ident: "\<exists>n. \<sigma> Art = Some n \<and> nm_identity (node_meta n) = po_identity exp"
    if "pc_expected c = Some exp" "artifact_recorded (pc_state c)" for exp
    using that al st ex(1) by (auto simp: along_def artifact_recorded_def intro!: expected_art_identity [of S c])
  show ?thesis unfolding rollback_causal_change_def loc_folds
    apply (rule sound_and_do, rule sound_validate_change [OF at], rule here)
     apply (rule sound_and_do, rule sound_require, rule causal)
     apply (rule sound_and_do, rule sound_checked_destination [OF at], rule here)
     apply (rule sound_and_do, rule sound_observe_bind [OF at], rule here, rule seen)
     apply (simp only: meta if_False)
     apply (rule main [unfolded front_def tail_def])
    using ident by blast
qed

end
