(* ===== verification/Journal_Calls.thy ===== *)
theory Journal_Calls
  imports Store_Ops
begin

text \<open>
  The interface between the path journal and the calls it makes: a relation between the state before and
  after that every call keeps is kept by every operation of the journal and of the store, whatever its
  outcome. The lemmas are proved once, in the locale; the relations of interest are its interpretations.
\<close>

lemma keeps_case_target [keeps_intros]:
  "(\<And>m. keeps R (f m)) \<Longrightarrow> keeps R g \<Longrightarrow> keeps R h \<Longrightarrow>
   keeps R (case t of FileTarget m \<Rightarrow> f m | DirectoryTarget \<Rightarrow> g | AbsentTarget \<Rightarrow> h)"
  by (cases t) simp_all

lemmas call_defs = symlink_metadata_def stat_is_ok_def stat_not_found_def path_exists_def sync_directory_def
  observe_at_def capture_into_vault_def checked_destination_def file_matches_manifest_def read_verified_def
  read_verified_bounded_def verify_bounded_def is_file_def materialization_observation_of_def
  validate_real_directory_def same_volume_def identity_check_def sync_preserved_file_def path_changes_def

locale journal_calls = progress R for R :: "world \<Rightarrow> world \<Rightarrow> bool" +
  fixes S :: store_env
  assumes R_tick: "keeps R tick"
    and R_fetch_sequence: "keeps R fetch_sequence"
    and R_put_change: "keeps R (put_change c)"
    and R_put_operation: "keeps R (put_operation op)"
    and R_put_manifest: "keeps R (put_manifest S path manifest)"
    and R_rename: "keeps R (rename_noreplace S src dst)"
    and R_create_dir: "keeps R (create_dir S p)"
    and R_apply_readonly: "keeps R (apply_readonly S p b)"
    and R_open_new_file: "keeps R (open_new_file S p)"
    and R_write_all: "keeps R (write_all S bytes)"
    and R_sync_and_close: "keeps R sync_and_close"
    and R_reserve_recovery: "keeps R (reserve_recovery S candidate)"
begin

lemmas [keeps_intros] = keeps_constructs R_tick R_fetch_sequence R_put_change R_put_operation R_put_manifest
  R_rename R_create_dir R_apply_readonly R_open_new_file R_write_all R_sync_and_close R_reserve_recovery

lemma R_query [keeps_intros]: "keeps R (query f)"
  unfolding query_def
  by (intro keeps_intros) (auto simp: keeps_def lift_res_def ret_def fail_def R_refl split: sum.split)

lemma R_read_db [keeps_intros]: "keeps R (read_db g)"
  unfolding read_db_def by (intro keeps_intros) (auto simp: keeps_def R_refl)

lemma R_create_dir_all [keeps_intros]: "keeps R (create_dir_all S p)"
  unfolding create_dir_all_def by (intro keeps_intros)

lemma R_vault [keeps_intros]:
  "keeps R (vault S root parent)"
  unfolding vault_def select_vault_def external_vault_def call_defs
  by (intro keeps_intros)

lemma R_validate_change [keeps_intros]:
  "keeps R (validate_change S c)"
  unfolding validate_change_def call_defs
  by (intro keeps_intros)

lemma R_allocate [keeps_intros]: "keeps R (allocate_directory fuel S v root)"
  by (induction fuel) (auto intro!: keeps_intros)

lemma R_allocate_attempt [keeps_intros]: "keeps R (allocate_attempt S v root)"
  using R_allocate by (simp add: keeps_def allocate_attempt_def del: allocate_directory.simps)

lemma R_stage_chunks [keeps_intros]: "keeps R (stage_chunks S cs hashed)"
  by (induction cs arbitrary: hashed) (auto simp: call_defs intro!: keeps_intros)

lemma R_stage_file [keeps_intros]: "keeps R (stage_file S p manifest)"
  unfolding stage_file_def call_defs by (intro keeps_intros)

lemma R_prepare [keeps_intros]:
  "keeps R (prepare_path_change S root path target expected preserve_tree)"
  unfolding prepare_path_change_def refuse_full_directory_def call_defs
  by (intro keeps_intros)

lemma R_abort [keeps_intros]:
  "keeps R (abort_path_change S c)"
  unfolding abort_path_change_def call_defs
  by (intro keeps_intros)

lemma R_capture [keeps_intros]:
  "keeps R (capture_path_change S c)"
  unfolding capture_path_change_def capture_object_def staged_file_ok_def call_defs
  by (intro keeps_intros)

lemma R_materialize_change [keeps_intros]:
  "keeps R (materialize_path_change S c)"
  unfolding materialize_path_change_def install_target_def install_file_def call_defs
  by (intro keeps_intros)

lemma R_apply_causal [keeps_intros]:
  "keeps R (apply_causal_record S root binding manifest)"
  unfolding apply_causal_record_def read_observation_def call_defs
  by (intro keeps_intros)

lemma R_resume [keeps_intros]:
  "keeps R (resume_path_change S c)"
  unfolding resume_path_change_def resume_prepared_def resume_preserved_def target_installed_def call_defs
  by (intro keeps_intros)

lemma R_rollback [keeps_intros]:
  "keeps R (rollback_causal_change S c)"
  unfolding rollback_causal_change_def rollback_metadata_def rollback_checks_def restore_captured_def finish_rollback_def
    call_defs
  by (intro keeps_intros)

lemma R_mark_indexed [keeps_intros]:
  "keeps R (mark_path_change_indexed S ident)"
  unfolding mark_path_change_indexed_def call_defs
  by (intro keeps_intros)

lemma R_recover [keeps_intros]:
  "keeps R (recover_path_changes S root)"
  unfolding recover_path_changes_def recover_change_def call_defs
  by (intro keeps_intros)

lemma R_set_readonly [keeps_intros]: "keeps R (set_readonly S root path b)"
  unfolding set_readonly_def call_defs by (intro keeps_intros)

lemma R_observe_path_change [keeps_intros]: "keeps R (observe_path_change S c)"
  unfolding observe_path_change_def call_defs by (intro keeps_intros)

lemma R_after_readonly_update [keeps_intros]: "keeps R (after_readonly_update S ob p b)"
  unfolding after_readonly_update_def call_defs by (intro keeps_intros)

lemma R_mark_record_indexed [keeps_intros]: "keeps R (mark_record_indexed S root r)"
  unfolding mark_record_indexed_def call_defs by (intro keeps_intros)

lemma R_run_change [keeps_intros]: "keeps R (run_change S root path target)"
  unfolding run_change_def read_observation_def call_defs by (intro keeps_intros)

lemma R_check_cached [keeps_intros]: "keeps R (check_cached S cs hashed)"
  by (induction cs arbitrary: hashed) (auto simp: call_defs intro!: keeps_intros)

lemma R_materialize [keeps_intros]: "keeps R (materialize S manifest path root)"
  unfolding materialize_def already_current_def call_defs by (intro keeps_intros)

lemma R_materialize_directory [keeps_intros]: "keeps R (materialize_directory S path root)"
  unfolding materialize_directory_def call_defs by (intro keeps_intros)

lemma R_remove_path [keeps_intros]: "keeps R (remove_path S path root)"
  unfolding remove_path_def call_defs by (intro keeps_intros)

lemma R_missing_chunks [keeps_intros]: "keeps R (missing_chunks S manifest)"
proof -
  have "keeps R (missing_after S cs seen)" for cs seen
    by (induction cs arbitrary: seen) (auto simp: call_defs intro!: keeps_intros)
  then show ?thesis by (simp add: missing_chunks_def)
qed

end

end
