(* ===== verification/Chunk_Calls.thy ===== *)
theory Chunk_Calls
  imports Journal_Calls
begin

text \<open>
  The interface between the chunk store and the two calls that may remove an object: a replacing rename, of a
  new chunk into its place and of a corrupt one into the trash, and the removal of a temporary file. A relation
  that these and the calls of the journal keep is kept by every operation that stores chunks.
\<close>

lemma unique_path_do:
  "and_do (unique_path S root kind hash) f = and_do fetch_sequence (\<lambda>k. f (root @ [unique_name S kind hash k]))"
  by (simp add: fun_eq_iff unique_path_def and_do_def fetch_sequence_def ret_def)

locale chunk_calls = journal_calls R S for R :: "world \<Rightarrow> world \<Rightarrow> bool" and S :: store_env +
  assumes R_install_rename: "keeps R (rename S (temporary_dir S @ [unique_name S ''chunk'' hash k]) (chunk_path S hash))"
    and R_quarantine_rename: "keeps R (rename S (chunk_path S hash) (trash_dir S @ [unique_name S ''corrupt'' hash k]))"
    and R_remove_temporary: "keeps R (remove_file (temporary_dir S @ [unique_name S ''chunk'' hash k]))"
begin

lemmas [keeps_intros] = R_install_rename R_quarantine_rename R_remove_temporary

lemma R_quarantine_chunk [keeps_intros]: "keeps R (quarantine_chunk S hash)"
  unfolding quarantine_chunk_def unique_path_do by (intro keeps_intros)

lemma R_install_new_chunk [keeps_intros]: "keeps R (install_new_chunk S hash bytes)"
  unfolding install_new_chunk_def Let_def unique_path_do call_defs by (intro keeps_intros)

lemma R_install_validated_chunk [keeps_intros]: "keeps R (install_validated_chunk S hash bytes)"
  unfolding install_validated_chunk_def call_defs by (intro keeps_intros)

lemma R_check_chunk [keeps_intros]: "keeps R (check_chunk S chunk)"
  unfolding check_chunk_def by (intro keeps_intros)

lemma R_put_verified [keeps_intros]: "keeps R (put_verified S hash bytes)"
  unfolding put_verified_def call_defs by (intro keeps_intros)

lemma R_install_chunks [keeps_intros]: "keeps R (install_chunks S chunks parents stored)"
proof (induction chunks arbitrary: parents stored)
  case (Cons chunk chunks)
  have "keeps R (case r of Inl e \<Rightarrow> ret (parents, stored, Some e) | Inr v \<Rightarrow> (case v of
      Some parent \<Rightarrow> install_chunks S chunks (finsert parent parents) (Suc stored)
    | None \<Rightarrow> install_chunks S chunks parents stored))" for r
    by (cases r) (auto intro!: keeps_intros Cons.IH split: option.split)
  then show ?case by (cases chunk) (auto intro!: keeps_intros)
qed (simp add: keeps_intros)

lemma R_sync_parents [keeps_intros]: "keeps R (sync_parents ps first)"
  by (induction ps arbitrary: first) (auto simp: call_defs intro!: keeps_intros)

lemma R_install_validated_batch [keeps_intros]: "keeps R (install_validated_batch S chunks)"
  unfolding install_validated_batch_def by (intro keeps_intros)

lemma R_put_batches [keeps_intros]: "keeps R (put_verified_batch S chunks)" "keeps R (put_validated_batch S verified)"
  unfolding put_verified_batch_def put_validated_batch_def by (intro keeps_intros)+

lemma R_ingest_file_with_admission [keeps_intros]:
  assumes "\<And>n. keeps R (admit n)"
  shows "keeps R (ingest_file_with_admission S cdc source profile admit)"
proof -
  have "keeps R (ingest_chunks S admit source cs missing)" for cs missing
    by (induction cs arbitrary: missing) (auto intro!: keeps_intros assms)
  then show ?thesis unfolding ingest_file_with_admission_def by (intro keeps_intros assms)
qed

lemma R_ingest_file [keeps_intros]: "keeps R (ingest_file S cdc source profile)"
  unfolding ingest_file_def by (intro keeps_intros)

end

end
