(* ===== verification/Store_Requests.thy ===== *)
theory Store_Requests
  imports Chunk_Calls
begin

text \<open>
  The requests a store serves, in any order: materialising, removing and recovering through the path journal,
  and storing, ingesting and quarantining chunks. A request that fails or is interrupted leaves its state
  behind. The locales carry a relation that the calls keep over every sequence of requests.
\<close>

text \<open>One request to the store; a process that was interrupted starts again without its open file.\<close>

datatype store_request =
    Materialize file_manifest wire_path fs_path
  | MaterializeDirectory wire_path fs_path
  | RemovePath wire_path fs_path
  | ApplyCausal fs_path causal_binding "file_manifest option"
  | Prepare fs_path wire_path path_target "path_observation option" bool
  | Capture path_change
  | Install path_change
  | Abort path_change
  | Resume path_change
  | RollBack path_change
  | MarkIndexed string
  | MarkRecord fs_path sync_record
  | SetReadonly fs_path wire_path bool
  | Recover fs_path
  | PutVerified hash32 "u8 list"
  | PutVerifiedBatch "(hash32 \<times> u8 list) list"
  | PutValidatedBatch "verified_chunk list"
  | IngestFile fastcdc fs_path chunking_profile
  | QuarantineChunk hash32
  | MissingChunks file_manifest

fun stores_chunks :: "store_request \<Rightarrow> bool" where
  "stores_chunks (PutVerified hash bytes) = True"
| "stores_chunks (PutVerifiedBatch chunks) = True"
| "stores_chunks (PutValidatedBatch chunks) = True"
| "stores_chunks (IngestFile cdc source profile) = True"
| "stores_chunks (QuarantineChunk hash) = True"
| "stores_chunks _ = False"

definition run_ignoring :: "'a sprog \<Rightarrow> world \<Rightarrow> world" where
  "run_ignoring p w = snd (p (w\<lparr>w_draft := None\<rparr>))"

fun serve :: "store_env \<Rightarrow> store_request \<Rightarrow> world \<Rightarrow> world" where
  "serve S (Materialize manifest path root) = run_ignoring (materialize S manifest path root)"
| "serve S (MaterializeDirectory path root) = run_ignoring (materialize_directory S path root)"
| "serve S (RemovePath path root) = run_ignoring (remove_path S path root)"
| "serve S (ApplyCausal root binding manifest) = run_ignoring (apply_causal_record S root binding manifest)"
| "serve S (Prepare root path target expected preserve_tree) = run_ignoring (prepare_path_change S root path target expected preserve_tree)"
| "serve S (Capture c) = run_ignoring (capture_path_change S c)"
| "serve S (Install c) = run_ignoring (materialize_path_change S c)"
| "serve S (Abort c) = run_ignoring (abort_path_change S c)"
| "serve S (Resume c) = run_ignoring (resume_path_change S c)"
| "serve S (RollBack c) = run_ignoring (rollback_causal_change S c)"
| "serve S (MarkIndexed ident) = run_ignoring (mark_path_change_indexed S ident)"
| "serve S (MarkRecord root r) = run_ignoring (mark_record_indexed S root r)"
| "serve S (SetReadonly root path readonly) = run_ignoring (set_readonly S root path readonly)"
| "serve S (Recover root) = run_ignoring (recover_path_changes S root)"
| "serve S (PutVerified hash bytes) = run_ignoring (put_verified S hash bytes)"
| "serve S (PutVerifiedBatch chunks) = run_ignoring (put_verified_batch S chunks)"
| "serve S (PutValidatedBatch chunks) = run_ignoring (put_validated_batch S chunks)"
| "serve S (IngestFile cdc source profile) = run_ignoring (ingest_file S cdc source profile)"
| "serve S (QuarantineChunk hash) = run_ignoring (quarantine_chunk S hash)"
| "serve S (MissingChunks manifest) = run_ignoring (missing_chunks S manifest)"

definition serve_all :: "store_env \<Rightarrow> store_request list \<Rightarrow> world \<Rightarrow> world" where
  "serve_all S requests w = fold (serve S) requests w"

locale journal_requests = journal_calls R S for R :: "world \<Rightarrow> world \<Rightarrow> bool" and S :: store_env +
  assumes R_close: "R w (w\<lparr>w_draft := None\<rparr>)"
begin

lemma R_run_ignoring: "keeps R p \<Longrightarrow> R w (run_ignoring p w)"
  unfolding keeps_def run_ignoring_def using R_close by (blast intro: R_trans)

lemma R_serve_journal: "\<not> stores_chunks request \<Longrightarrow> R w (serve S request w)"
  by (cases request) (auto intro!: R_run_ignoring keeps_intros)

lemma R_serve_all:
  assumes "\<And>r w. r \<in> set requests \<Longrightarrow> R w (serve S r w)"
  shows "R w (serve_all S requests w)"
  using assms unfolding serve_all_def
proof (induction requests arbitrary: w)
  case (Cons r rs)
  from Cons.prems have "R w (serve S r w)" by simp
  moreover have "R (serve S r w) (fold (serve S) rs (serve S r w))" using Cons by simp
  ultimately show ?case by (auto intro: R_trans)
qed (simp add: R_refl)

lemma R_serve_all_journal: "\<not> list_ex stores_chunks requests \<Longrightarrow> R w (serve_all S requests w)"
  by (rule R_serve_all) (auto simp: list_ex_iff R_serve_journal)

end

locale store_requests = chunk_calls R S + journal_requests R S for R :: "world \<Rightarrow> world \<Rightarrow> bool" and S :: store_env
begin

lemma R_serve: "R w (serve S request w)"
  by (cases request) (auto intro!: R_run_ignoring keeps_intros)

lemma R_serve_every: "R w (serve_all S requests w)"
  by (rule R_serve_all) (rule R_serve)

end

end
