(* ===== verification/Store_Safety.thy ===== *)
theory Store_Safety
  imports Store_Requests
begin

text \<open>
  No operation of the store destroys an object, but for the files of the chunk store it may replace or clean
  up. The relation \<open>conserves\<close> compares the objects on the file system before and after a run, setting aside the
  file the process itself is writing, the objects that concurrent edits removed and those the store's own calls
  discarded; \<open>only_discards\<close> says where the store discards anything. Every call keeps both, and the locales
  carry them over the programs, whatever their outcome.
\<close>

definition discarded_objects :: "world \<Rightarrow> fs_node multiset" where
  "discarded_objects w = sum_list (map (\<lambda>(place, n). objects n) (w_discards w))"

definition conserves :: "world \<Rightarrow> world \<Rightarrow> bool" where
  "conserves w w' \<longleftrightarrow> kept_objects w + w_displaced w + discarded_objects w \<subseteq>#
     kept_objects w' + w_displaced w' + discarded_objects w'"

interpretation kept: progress conserves
  by unfold_locales (auto simp: conserves_def intro: subset_mset.order_trans)

lemmas [keeps_intros] = kept.keeps_constructs

section \<open>Calls\<close>

lemma mset_diff_mono: "A \<subseteq># B \<Longrightarrow> A - D \<subseteq># B - (D :: 'a multiset)"
  by (simp add: subseteq_mset_def diff_le_mono)

lemma conserves_grow:
  assumes "objects (w_fs w) \<subseteq># objects (w_fs w')" "w_draft w' = w_draft w" "w_displaced w' = w_displaced w" "w_discards w' = w_discards w"
  shows "conserves w w'"
  using assms by (simp add: conserves_def kept_objects_def draft_objects_def discarded_objects_def mset_diff_mono)

lemma mset_diff_add: "A \<subseteq># B + L \<Longrightarrow> A - D \<subseteq># (B - D) + (L :: 'a multiset)"
proof (rule mset_subset_eqI)
  fix x assume "A \<subseteq># B + L"
  then have "count A x \<le> count (B + L) x" by (simp add: subseteq_mset_def)
  then show "count (A - D) x \<le> count ((B - D) + L) x" by simp
qed

lemma conserves_lose:
  assumes "objects (w_fs w) \<subseteq># objects (w_fs w') + L" "w_draft w' = w_draft w" "w_displaced w' = w_displaced w"
    "discarded_objects w' = discarded_objects w + L"
  shows "conserves w w'"
proof -
  have "kept_objects w \<subseteq># kept_objects w' + L"
    using assms(1,2) by (simp add: kept_objects_def draft_objects_def mset_diff_add)
  then have "kept_objects w + (w_displaced w + discarded_objects w) \<subseteq># kept_objects w' + L + (w_displaced w + discarded_objects w)"
    by (rule subset_mset.add_right_mono)
  then show ?thesis by (simp add: conserves_def assms(3,4) ac_simps)
qed

lemma conserves_tick [keeps_intros]: "keeps conserves tick"
  by (auto simp: keeps_def tick_def apply_edit_def conserves_def kept_objects_def draft_objects_def discarded_objects_def Let_def
      subseteq_mset_def split: list.split env_event.split)

lemma conserves_update_fs:
  assumes "\<And>now fs fs'. f now fs = Inr fs' \<Longrightarrow> objects fs \<subseteq># objects fs'"
  shows "keeps conserves (update_fs f)"
  unfolding update_fs_def
  by (intro keeps_intros) (auto simp: keeps_def kept.R_refl intro!: conserves_grow assms split: sum.split)

lemma conserves_discard_fs:
  assumes "\<And>now fs fs'. f now fs = Inr fs' \<Longrightarrow>
    objects fs \<subseteq># objects fs' + (case victim fs of None \<Rightarrow> {#} | Some n \<Rightarrow> objects n)"
  shows "keeps conserves (discard_fs place victim f)"
proof -
  have "conserves w (w\<lparr>w_fs := fs, w_clock := k, w_discards := w_discards w @ (case victim (w_fs w) of None \<Rightarrow> [] | Some n \<Rightarrow> [(place, n)])\<rparr>)"
    if "f now (w_fs w) = Inr fs" for now w fs k
    using assms [OF that]
    by (intro conserves_lose [of w _ "case victim (w_fs w) of None \<Rightarrow> {#} | Some n \<Rightarrow> objects n"])
      (auto simp: discarded_objects_def split: option.split)
  then show ?thesis unfolding discard_fs_def
    by (intro keeps_intros) (auto simp: keeps_def kept.R_refl split: sum.split)
qed

lemma conserves_db [keeps_intros]:
  "keeps conserves (put_change c)" "keeps conserves (put_operation op)"
  "keeps conserves (put_manifest S path manifest)"
  unfolding put_change_def put_operation_def put_manifest_def
  by (intro keeps_intros; auto simp: keeps_def intro!: conserves_grow)+

lemma conserves_fetch_sequence [keeps_intros]: "keeps conserves fetch_sequence"
  by (auto simp: keeps_def fetch_sequence_def intro!: conserves_grow)

section \<open>File system changes\<close>

lemma objects_set_meta:
  "(\<And>m. settled (f m) = settled m) \<Longrightarrow> objects (set_meta f n) = objects n"
  by (cases n) (simp_all add: set_meta_def objects_DirNode)

lemma objects_touch [simp]: "objects (touch S now n) = objects n"
  by (simp add: touch_def objects_set_meta settled_def)

lemma objects_set_readonly [simp]: "objects (set_readonly_node S now b n) = objects n"
  by (simp add: set_readonly_node_def objects_set_meta settled_def)

lemma fs_entry_parent: "fs_entry fs p = Inr q \<Longrightarrow> q \<noteq> [] \<Longrightarrow> is_real_dir fs (butlast q)"
  by (auto simp: fs_entry_def result_simps split: if_splits)

lemma objects_fs_create_dir: "fs_create_dir m p fs = Inr fs' \<Longrightarrow> objects fs \<subseteq># objects fs'"
proof -
  assume "fs_create_dir m p fs = Inr fs'"
  then obtain q where q: "fs_entry fs p = Inr q" "q \<noteq> []" "fs_lookup fs q = None"
    "fs' = fs_put (Some (DirNode m fmempty)) q fs"
    by (auto simp: fs_create_dir_def result_simps split: if_splits)
  with objects_put [of q fs "Some (DirNode m fmempty)"] fs_entry_parent [of fs p q] show ?thesis by simp
qed

lemma objects_fs_rename_noreplace:
  assumes "fs_rename_noreplace (touch S now) src dst fs = Inr fs'"
  shows "objects fs' = objects fs"
proof -
  from assms obtain n where n: "src \<noteq> []" "dst \<noteq> []" "is_real_dir fs (butlast src)" "is_real_dir fs (butlast dst)"
    "fs_lookup fs src = Some n" "fs_lookup fs dst = None" "\<not> prefix src dst"
    "fs' = fs_put (Some (touch S now n)) dst (fs_put None src fs)"
    by (auto simp: fs_rename_noreplace_def real_path_eq split: if_splits option.splits)
  let ?fs = "fs_put None src fs"
  from n objects_put [of src fs None] have "objects ?fs + objects n = objects fs" by simp
  moreover have "\<not> prefix dst src"
    using n by (metis fs_lookup_append option.simps(4) option.simps(3) prefixE)
  with n have "fs_lookup ?fs dst = None" by (simp add: fs_lookup_put_apart apart_def)
  moreover have "is_real_dir ?fs (butlast dst)"
    using n by (subst is_real_dir_put) (auto dest: prefix_order.trans [OF _ prefixeq_butlast])
  ultimately show ?thesis
    using objects_put [of dst ?fs "Some (touch S now n)"] n by simp
qed

lemma conserves_rename [keeps_intros]: "keeps conserves (rename_noreplace S src dst)"
  unfolding rename_noreplace_def io_def
  by (rule conserves_update_fs) (auto simp: map_err_Inr_iff objects_fs_rename_noreplace)

lemma conserves_create_dir [keeps_intros]: "keeps conserves (create_dir S p)"
  unfolding create_dir_def io_def
  by (rule conserves_update_fs) (auto simp: map_err_Inr_iff objects_fs_create_dir)

lemma objects_put_same:
  assumes "p \<noteq> []" "fs_lookup fs p = Some n" "objects n' = objects n"
  shows "objects (fs_put (Some n') p fs) = objects fs"
  using objects_put [of p fs "Some n'"] lookup_parent_dir [of fs p n] assms by simp

lemma conserves_apply_readonly [keeps_intros]: "keeps conserves (apply_readonly S p b)"
  unfolding apply_readonly_def
proof (rule conserves_update_fs)
  fix now fs fs' assume "readonly_update S p b now fs = Inr fs'"
  then consider "fs' = fs" | n where "p \<noteq> []" "fs_lookup fs p = Some n" "fs' = fs_put (Some (set_readonly_node S now b n)) p fs"
    by (auto simp: readonly_update_def io_def result_simps fs_open_nofollow_def
        split: if_splits option.splits fs_node.splits)
  then show "objects fs \<subseteq># objects fs'" by cases (simp_all add: objects_put_same)
qed

text \<open>Writing replaces only the draft, which the relation sets aside.\<close>

lemma conserves_open_new_file [keeps_intros]: "keeps conserves (open_new_file S p)"
proof -
  have "conserves w w'" if fs': "fs_create_new m p (w_fs w) = Inr fs'" and
    w': "w' = w\<lparr>w_fs := fs', w_draft := Some (p, FileNode m []), w_clock := k\<rparr>" for w w' m fs' k
  proof -
    from fs' have p: "p \<noteq> []" "is_real_dir (w_fs w) (butlast p)" "fs_lookup (w_fs w) p = None"
      "fs' = fs_put (Some (FileNode m [])) p (w_fs w)"
      by (auto simp: fs_create_new_def real_path_eq split: if_splits)
    with objects_put [of p "w_fs w" "Some (FileNode m [])"]
    have "objects fs' = objects (w_fs w) + objects (FileNode m [])" by simp
    then show ?thesis by (simp add: conserves_def kept_objects_def draft_objects_def discarded_objects_def w')
  qed
  then show ?thesis unfolding open_new_file_def
    by (intro keeps_intros) (auto simp: keeps_def kept.R_refl split: sum.split)
qed

lemma mset_diff_exchange:
  assumes "A + b = C + (d :: 'a multiset)"
  shows "C - b \<subseteq># A - d"
proof (rule mset_subset_eqI)
  fix x
  from assms have "count A x + count b x = count C x + count d x" by (metis count_union)
  then show "count (C - b) x \<le> count (A - d) x" by simp
qed

lemma conserves_write_all [keeps_intros]: "keeps conserves (write_all S bytes)"
proof -
  have "conserves w w'" if d: "w_draft w = Some (p, n)" "p \<noteq> []" "fs_lookup (w_fs w) p = Some n" and
    w': "w' = w\<lparr>w_fs := fs_put (Some n') p (w_fs w), w_draft := Some (p, n'), w_clock := k\<rparr>" for w w' p n n' k
  proof -
    have "objects (fs_put (Some n') p (w_fs w)) + objects n = objects (w_fs w) + objects n'"
      using objects_put [of p "w_fs w" "Some n'"] lookup_parent_dir [of "w_fs w" p n] d by simp
    then have "objects (w_fs w) - objects n \<subseteq># objects (fs_put (Some n') p (w_fs w)) - objects n'"
      by (rule mset_diff_exchange)
    then show ?thesis using d by (simp add: conserves_def kept_objects_def draft_objects_def discarded_objects_def w')
  qed
  then show ?thesis unfolding write_all_def
    by (intro keeps_intros) (auto simp: keeps_def kept.R_refl split: option.split intro: conserves_grow)
qed

lemma conserves_sync_and_close [keeps_intros]: "keeps conserves sync_and_close"
  unfolding sync_and_close_def
  by (intro keeps_intros) (auto simp: keeps_def conserves_def kept_objects_def draft_objects_def discarded_objects_def diff_subset_eq_self)

section \<open>Calls that may discard\<close>

lemma objects_fs_rename:
  assumes "fs_rename (touch S now) src dst fs = Inr fs'"
  shows "objects fs = objects fs' + (case rename_victim src dst fs of None \<Rightarrow> {#} | Some n \<Rightarrow> objects n)"
proof -
  from assms obtain p q n where e: "fs_entry fs src = Inr p" "fs_entry fs dst = Inr q" "fs_lookup fs p = Some n"
    by (auto simp: fs_rename_def result_simps split: option.splits)
  show ?thesis
  proof (cases "p = q")
    case True
    with assms e show ?thesis by (simp add: fs_rename_def rename_victim_def result_simps)
  next
    case False
    with assms e have pq: "p \<noteq> []" "q \<noteq> []" "\<not> prefix p q" "\<not> prefix q p"
      "fs' = fs_put (Some (touch S now n)) q (fs_put None p fs)"
      by (auto simp: fs_rename_def result_simps split: if_splits option.splits fs_node.splits)
    let ?fs = "fs_put None p fs"
    have "objects ?fs + objects n = objects fs"
      using objects_put [of p fs None] fs_entry_parent [OF e(1) pq(1)] pq(1) e(3) by simp
    moreover have "fs_lookup ?fs q = fs_lookup fs q" using pq by (simp add: fs_lookup_put_apart apart_def)
    moreover have "is_real_dir ?fs (butlast q)"
      using fs_entry_parent [OF e(2) pq(2)] pq by (subst is_real_dir_put) (auto dest: prefix_order.trans [OF _ prefixeq_butlast])
    ultimately have "objects fs' + (case fs_lookup fs q of None \<Rightarrow> {#} | Some m \<Rightarrow> objects m) = objects fs"
      using objects_put [of q ?fs "Some (touch S now n)"] pq(2,5) by (auto simp: ac_simps split: option.splits)
    moreover have "rename_victim src dst fs = fs_lookup fs q"
      using False e by (simp add: rename_victim_def fs_named_def)
    ultimately show ?thesis by simp
  qed
qed

lemma conserves_replacing_rename [keeps_intros]: "keeps conserves (rename S src dst)"
  unfolding rename_def io_def
  by (rule conserves_discard_fs) (auto simp: map_err_Inr_iff dest!: objects_fs_rename)

lemma objects_fs_remove_file:
  assumes "fs_remove_file p fs = Inr fs'"
  shows "objects fs \<subseteq># objects fs' + (case fs_named p fs of None \<Rightarrow> {#} | Some n \<Rightarrow> objects n)"
proof -
  from assms obtain q n where e: "fs_entry fs p = Inr q" "fs_lookup fs q = Some n" "\<not> is_dir_node n" "fs' = fs_put None q fs"
    by (auto simp: fs_remove_file_def result_simps split: option.splits if_splits)
  show ?thesis
  proof (cases "q = []")
    case True
    with e show ?thesis by (simp add: fs_named_def)
  next
    case False
    with e objects_put [of q fs None] fs_entry_parent [OF e(1)] show ?thesis by (simp add: fs_named_def)
  qed
qed

lemma conserves_remove_file [keeps_intros]: "keeps conserves (remove_file p)"
  unfolding remove_file_def io_def
  by (rule conserves_discard_fs) (auto simp: map_err_Inr_iff objects_fs_remove_file)

section \<open>Every operation conserves\<close>

text \<open>What the store relies on of the host service: reserving a directory removes nothing.\<close>

definition reserver_conserves :: "store_env \<Rightarrow> bool" where
  "reserver_conserves S \<longleftrightarrow> (\<forall>reserve candidate now fs fs' r.
     sv_reserver S = Some reserve \<longrightarrow> reserve candidate now fs = Inr (fs', r) \<longrightarrow> objects fs \<subseteq># objects fs')"

definition conserved :: "store_env \<Rightarrow> world \<Rightarrow> world \<Rightarrow> bool" where
  "conserved S w w' \<longleftrightarrow> (reserver_conserves S \<longrightarrow> conserves w w')"

lemma keeps_conserved: "keeps conserves p \<Longrightarrow> keeps (conserved S) p"
  by (simp add: keeps_def conserved_def)

lemma conserved_reserve_recovery: "keeps (conserved S) (reserve_recovery S candidate)"
proof (cases "sv_reserver S")
  case None
  then show ?thesis by (auto simp: reserve_recovery_def intro!: keeps_conserved keeps_intros)
next
  case (Some reserve)
  have grow: "conserves w (w\<lparr>w_fs := fs, w_clock := k\<rparr>)"
    if "reserver_conserves S" "reserve candidate now (w_fs w) = Inr (fs, r)" for now w fs r k
    using that Some unfolding reserver_conserves_def by (intro conserves_grow) (simp_all, blast)
  have "reserver_conserves S \<Longrightarrow> keeps conserves (reserve_recovery S candidate)"
    unfolding reserve_recovery_def Some option.case
    by (intro keeps_intros) (auto simp: keeps_def kept.R_refl intro: grow split: sum.split)
  then show ?thesis by (auto simp: keeps_def conserved_def)
qed

interpretation safe: store_requests "conserved S" S for S
proof unfold_locales
  show "conserved S w w" for w by (simp add: conserved_def kept.R_refl)
  show "conserved S w w' \<Longrightarrow> conserved S w' w'' \<Longrightarrow> conserved S w w''" for w w' w''
    by (auto simp: conserved_def intro: kept.R_trans)
  show "conserved S w (w\<lparr>w_draft := None\<rparr>)" for w
    by (simp add: conserved_def conserves_def kept_objects_def draft_objects_def discarded_objects_def diff_subset_eq_self)
qed (auto intro: keeps_conserved keeps_intros conserved_reserve_recovery)

text \<open>Without concurrent edits in the script nothing is displaced.\<close>

definition is_edit :: "env_event \<Rightarrow> bool" where
  "is_edit e = (case e of LocalEdit _ \<Rightarrow> True | _ \<Rightarrow> False)"

definition undisturbed :: "world \<Rightarrow> world \<Rightarrow> bool" where
  "undisturbed w w' \<longleftrightarrow> (list_ex is_edit (w_script w') \<longrightarrow> list_ex is_edit (w_script w)) \<and>
     (\<not> list_ex is_edit (w_script w) \<longrightarrow> w_displaced w' = w_displaced w)"

interpretation idle: progress undisturbed
  by unfold_locales (auto simp: undisturbed_def)

lemma undisturbed_same: "w_script w' = w_script w \<Longrightarrow> w_displaced w' = w_displaced w \<Longrightarrow> undisturbed w w'"
  by (simp add: undisturbed_def)

lemma undisturbed_tick: "keeps undisturbed tick"
  by (auto simp: keeps_def tick_def apply_edit_def undisturbed_def is_edit_def Let_def split: list.split env_event.split)

lemma undisturbed_after_tick:
  "(\<And>x w. undisturbed w (snd (f x w))) \<Longrightarrow> keeps undisturbed (and_do tick f)"
  by (intro idle.keeps_and_do undisturbed_tick) (simp add: keeps_def)

lemmas tick_first = undisturbed_after_tick undisturbed_same

interpretation quiet: store_requests undisturbed S for S
proof unfold_locales
  show "keeps undisturbed (reserve_recovery S candidate)" for candidate
    unfolding reserve_recovery_def
    by (auto intro!: keeps_case_option idle.keeps_fail tick_first split: sum.split)
  show "keeps undisturbed (put_manifest S path manifest)" for path manifest
    unfolding put_manifest_def by (auto intro!: idle.keeps_and_do idle.keeps_lift_res tick_first)
  show "keeps undisturbed (rename_noreplace S src dst)" for src dst
    unfolding rename_noreplace_def update_fs_def by (auto intro!: tick_first split: sum.split)
  show "keeps undisturbed (create_dir S p)" for p
    unfolding create_dir_def update_fs_def by (auto intro!: tick_first split: sum.split)
  show "keeps undisturbed (apply_readonly S p b)" for p b
    unfolding apply_readonly_def update_fs_def by (auto intro!: tick_first split: sum.split)
  show "keeps undisturbed (open_new_file S p)" for p
    unfolding open_new_file_def by (auto intro!: tick_first split: sum.split)
  show "keeps undisturbed (write_all S bytes)" for bytes
    unfolding write_all_def by (auto intro!: tick_first split: option.split)
  show "keeps undisturbed sync_and_close" unfolding sync_and_close_def by (auto intro!: tick_first)
  show "keeps undisturbed (put_change c)" for c unfolding put_change_def by (auto intro!: tick_first)
  show "keeps undisturbed (put_operation op)" for op unfolding put_operation_def by (auto intro!: tick_first)
  show "keeps undisturbed fetch_sequence" by (auto simp: keeps_def fetch_sequence_def undisturbed_same)
  show "keeps undisturbed tick" by (rule undisturbed_tick)
  have "keeps undisturbed (discard_fs place victim f)" for place victim f
    unfolding discard_fs_def by (auto intro!: tick_first split: sum.split)
  then show "keeps undisturbed (rename S (temporary_dir S @ [unique_name S ''chunk'' hash k]) (chunk_path S hash))"
    "keeps undisturbed (rename S (chunk_path S hash) (trash_dir S @ [unique_name S ''corrupt'' hash k]))"
    "keeps undisturbed (remove_file (temporary_dir S @ [unique_name S ''chunk'' hash k]))" for hash k
    by (simp_all add: rename_def remove_file_def)
  show "undisturbed w (w\<lparr>w_draft := None\<rparr>)" for w by (simp add: undisturbed_same)
qed

section \<open>Where the store discards\<close>

text \<open>
  A chunk may be replaced in its place, an older quarantined chunk under its name in the trash, and the temporary
  file of a chunk may be removed; never a directory that holds anything.
\<close>

definition store_place :: "store_env \<Rightarrow> discard_place \<Rightarrow> bool" where
  "store_place S place = (case place of
     ReplacedAt p \<Rightarrow> (\<exists>hash. p = chunk_path S hash) \<or> (\<exists>hash k. p = trash_dir S @ [unique_name S ''corrupt'' hash k])
   | RemovedAt p \<Rightarrow> (\<exists>hash k. p = temporary_dir S @ [unique_name S ''chunk'' hash k]))"

definition store_discard :: "store_env \<Rightarrow> discard_place \<times> fs_node \<Rightarrow> bool" where
  "store_discard S discard = (case discard of (place, n) \<Rightarrow>
     store_place S place \<and> (case n of DirNode m ch \<Rightarrow> ch = fmempty | _ \<Rightarrow> True))"

definition only_discards :: "(discard_place \<times> fs_node \<Rightarrow> bool) \<Rightarrow> world \<Rightarrow> world \<Rightarrow> bool" where
  "only_discards P w w' \<longleftrightarrow> (\<exists>ds. w_discards w' = w_discards w @ ds \<and> list_all P ds)"

lemma only_discards_same: "w_discards w' = w_discards w \<Longrightarrow> only_discards P w w'"
  by (simp add: only_discards_def)

lemma only_discards_none: "only_discards (\<lambda>_. False) w w' \<Longrightarrow> w_discards w' = w_discards w"
  unfolding only_discards_def by (metis append_Nil2 list.pred_inject(2) neq_Nil_conv)

interpretation trace: progress "only_discards P" for P
proof
  show "only_discards P w w" for w by (simp add: only_discards_same)
  show "only_discards P w w''" if "only_discards P w w'" "only_discards P w' w''" for w w' w''
    using that unfolding only_discards_def by (metis append_assoc list_all_append)
qed

lemma logged_tick: "keeps (only_discards P) tick"
  by (auto simp: keeps_def tick_def apply_edit_def Let_def intro!: only_discards_same split: list.split env_event.split)

lemma logged_after_tick:
  "(\<And>x w. only_discards P w (snd (f x w))) \<Longrightarrow> keeps (only_discards P) (and_do tick f)"
  by (intro trace.keeps_and_do logged_tick) (simp add: keeps_def)

lemmas log_first = logged_after_tick only_discards_same

lemma logged_discard_fs:
  assumes "\<And>now fs fs' n. f now fs = Inr fs' \<Longrightarrow> victim fs = Some n \<Longrightarrow> P (place, n)"
  shows "keeps (only_discards P) (discard_fs place victim f)"
  unfolding discard_fs_def
  by (rule logged_after_tick) (auto simp: only_discards_def assms split: sum.split option.split)

text \<open>The journal discards nothing at all.\<close>

interpretation logged: journal_requests "only_discards P" S for P S
proof unfold_locales
  show "keeps (only_discards P) (reserve_recovery S candidate)" for candidate
    unfolding reserve_recovery_def
    by (auto intro!: keeps_case_option trace.keeps_fail log_first split: sum.split)
  show "keeps (only_discards P) (put_manifest S path manifest)" for path manifest
    unfolding put_manifest_def by (auto intro!: trace.keeps_and_do trace.keeps_lift_res log_first)
  show "keeps (only_discards P) (rename_noreplace S src dst)" for src dst
    unfolding rename_noreplace_def update_fs_def by (auto intro!: log_first split: sum.split)
  show "keeps (only_discards P) (create_dir S p)" for p
    unfolding create_dir_def update_fs_def by (auto intro!: log_first split: sum.split)
  show "keeps (only_discards P) (apply_readonly S p b)" for p b
    unfolding apply_readonly_def update_fs_def by (auto intro!: log_first split: sum.split)
  show "keeps (only_discards P) (open_new_file S p)" for p
    unfolding open_new_file_def by (auto intro!: log_first split: sum.split)
  show "keeps (only_discards P) (write_all S bytes)" for bytes
    unfolding write_all_def by (auto intro!: log_first split: option.split)
  show "keeps (only_discards P) sync_and_close" unfolding sync_and_close_def by (auto intro!: log_first)
  show "keeps (only_discards P) (put_change c)" for c unfolding put_change_def by (auto intro!: log_first)
  show "keeps (only_discards P) (put_operation op)" for op unfolding put_operation_def by (auto intro!: log_first)
  show "keeps (only_discards P) fetch_sequence" by (auto simp: keeps_def fetch_sequence_def only_discards_same)
  show "keeps (only_discards P) tick" by (rule logged_tick)
  show "only_discards P w (w\<lparr>w_draft := None\<rparr>)" for w by (simp add: only_discards_same)
qed

lemma rename_victim_small:
  assumes "fs_rename moved src dst fs = Inr fs'" "rename_victim src dst fs = Some (DirNode m ch)"
  shows "ch = fmempty"
  using assms by (auto simp: fs_rename_def rename_victim_def fs_named_def result_simps split: if_splits option.splits fs_node.splits sum.splits)

lemma logged_rename: "store_place S (ReplacedAt dst) \<Longrightarrow> keeps (only_discards (store_discard S)) (rename S src dst)"
  unfolding rename_def io_def
  by (rule logged_discard_fs) (auto simp: store_discard_def map_err_Inr_iff dest: rename_victim_small split: fs_node.split)

lemma removed_file: "fs_remove_file p fs = Inr fs' \<Longrightarrow> fs_named p fs = Some n \<Longrightarrow> \<not> is_dir_node n"
  by (cases "fs_entry fs p") (auto simp: fs_remove_file_def fs_named_def result_simps split: option.splits if_splits)

lemma logged_remove_file: "store_place S (RemovedAt p) \<Longrightarrow> keeps (only_discards (store_discard S)) (remove_file p)"
  unfolding remove_file_def io_def
  by (rule logged_discard_fs) (auto simp: store_discard_def map_err_Inr_iff is_dir_node_def dest!: removed_file split: fs_node.split)

interpretation cleaned: store_requests "only_discards (store_discard S)" S for S
proof
  show "keeps (only_discards (store_discard S)) (rename S (temporary_dir S @ [unique_name S ''chunk'' hash k]) (chunk_path S hash))"
    "keeps (only_discards (store_discard S)) (rename S (chunk_path S hash) (trash_dir S @ [unique_name S ''corrupt'' hash k]))"
    "keeps (only_discards (store_discard S)) (remove_file (temporary_dir S @ [unique_name S ''chunk'' hash k]))" for hash k
    by (rule logged_rename logged_remove_file, unfold store_place_def discard_place.case, blast)+
qed

section \<open>Nothing is destroyed\<close>

text \<open>What conservation says of the objects of a world without an open file and with empty histories.\<close>

definition fresh_history :: "world \<Rightarrow> bool" where
  "fresh_history w \<longleftrightarrow> w_draft w = None \<and> w_displaced w = {#} \<and> w_discards w = []"

definition survives :: "store_env \<Rightarrow> world \<Rightarrow> world \<Rightarrow> bool" where
  "survives S w w' \<longleftrightarrow>
     objects (w_fs w) \<subseteq># objects (w_fs w') + w_displaced w' + discarded_objects w' \<and>
     list_all (store_discard S) (w_discards w') \<and>
     (list_ex is_edit (w_script w) \<or> w_displaced w' = {#})"

lemma conserved_objects:
  assumes "conserved S w w'" "undisturbed w w'" "only_discards (store_discard S) w w'" "reserver_conserves S" "fresh_history w"
  shows "survives S w w'"
proof -
  from assms have "objects (w_fs w) \<subseteq># kept_objects w' + (w_displaced w' + discarded_objects w')"
    by (simp add: conserved_def conserves_def kept_objects_def draft_objects_def discarded_objects_def fresh_history_def ac_simps)
  moreover have "kept_objects w' \<subseteq># objects (w_fs w')"
    by (simp add: kept_objects_def diff_subset_eq_self)
  ultimately have "objects (w_fs w) \<subseteq># objects (w_fs w') + w_displaced w' + discarded_objects w'"
    unfolding add.assoc by (meson subset_mset.add_right_mono subset_mset.order_trans)
  with assms show ?thesis by (auto simp: survives_def undisturbed_def only_discards_def fresh_history_def)
qed

text \<open>
  C4: whatever requests the store serves, in whatever order, and wherever they are interrupted, fail or
  meet concurrent edits, every file, link and directory that was on the file system still is there, with
  its identity, times and content, except for what the concurrent edits themselves removed and what the chunk
  store discarded; without such edits nothing counts as removed by them. The chunk store discards only an object
  it replaces at the path of a chunk or of a quarantined chunk, or its own temporary file, never a directory
  that holds anything; requests that store no chunks discard nothing.
\<close>

theorem store_never_destroys:
  assumes "reserver_conserves S" and "fresh_history w"
  shows "objects (w_fs w) \<subseteq># objects (w_fs (serve_all S requests w)) + w_displaced (serve_all S requests w) +
      discarded_objects (serve_all S requests w) \<and>
    list_all (store_discard S) (w_discards (serve_all S requests w)) \<and>
    (list_ex is_edit (w_script w) \<or> w_displaced (serve_all S requests w) = {#}) \<and>
    (list_ex stores_chunks requests \<or> w_discards (serve_all S requests w) = [])"
proof -
  have "survives S w (serve_all S requests w)"
    by (rule conserved_objects [OF safe.R_serve_every quiet.R_serve_every cleaned.R_serve_every assms])
  moreover have "w_discards (serve_all S requests w) = w_discards w" if "\<not> list_ex stores_chunks requests"
    using that by (intro only_discards_none logged.R_serve_all_journal)
  ultimately show ?thesis using assms(2) unfolding survives_def fresh_history_def by metis
qed
text \<open>A small world: a root with one file, the state directories, and a script.\<close>

definition example_meta :: "u64 \<Rightarrow> node_meta" where
  "example_meta ino = \<lparr>nm_identity = Some (1, ino), nm_modified_ns = Some 5, nm_changed_ns = Some 5, nm_readonly = False, nm_nlink = 1\<rparr>"

definition example_tree :: fs_node where
  "example_tree = DirNode (example_meta 1) (fmap_of_list
     [(''root'', DirNode (example_meta 2) (fmap_of_list [(''a'', FileNode (example_meta 3) [1, 2, 3])])),
      (''state'', DirNode (example_meta 4) (fmap_of_list [(''trash'', DirNode (example_meta 5) fmempty)]))])"

definition example_env :: store_env where
  "example_env = \<lparr>sv_externs = ref_hex (\<lambda>_. hash_fill 1) (\<lambda>_ _. hash_fill 2), sv_observation_bytes = (\<lambda>ob. as_bytes (po_hash ob)), sv_pid = 7,
     sv_host = (\<lambda>now. example_meta (of_nat (100 + now))), sv_state_root = [''state''], sv_reserver = None\<rparr>"

definition example_world :: "env_event list \<Rightarrow> world" where
  "example_world script = \<lparr>w_fs = example_tree, w_journal = fmempty, w_manifests = fmempty, w_operations = fmempty,
     w_sequence = 1, w_draft = None, w_clock = 0, w_script = script, w_displaced = {#}, w_discards = []\<rparr>"

lemma example_fresh: "reserver_conserves example_env" "fresh_history (example_world script)" "w_fs (example_world script) = example_tree"
  "w_script (example_world script) = script" "\<not> list_ex is_edit (replicate 30 Proceed @ [Interrupt, Fault])"
  by (simp_all add: reserver_conserves_def example_env_def fresh_history_def example_world_def is_edit_def list_ex_iff)

theorem store_never_destroys_witness:
  "\<exists>w'. serve_all example_env [PutVerified (hash_fill 1) [1, 2], RemovePath ''a'' [''root''], Recover [''root'']]
       (example_world (replicate 30 Proceed @ [Interrupt, Fault])) = w' \<and>
     objects example_tree \<subseteq># objects (w_fs w') + discarded_objects w' \<and> list_all (store_discard example_env) (w_discards w')"
  using store_never_destroys [OF example_fresh(1) example_fresh(2) [of "replicate 30 Proceed @ [Interrupt, Fault]"],
      of "[PutVerified (hash_fill 1) [1, 2], RemovePath ''a'' [''root''], Recover [''root'']]"] example_fresh(5)
  unfolding example_fresh(3,4) by (elim conjE disjE) simp_all

end
