(* ===== verification/Journal_Props.thy ===== *)
theory Journal_Props
  imports Journal_Recovery Store_Safety
begin

text \<open>
  The guarantees of the path journal under interruption. A change is prepared once; after that any number of
  recovery attempts may run, each interrupted anywhere. Every state they leave behind is one of the abstract
  machine, an uninterrupted attempt completes the change, and an uninterrupted rollback undoes it.
\<close>

definition view_slots :: "path_change \<Rightarrow> fs_node \<Rightarrow> slot \<Rightarrow> fs_node option" where
  "view_slots c fs = (\<lambda>i. slot_at fs (loc c i))"

lemma at_slots_view: "at_slots S c fs \<sigma> \<longleftrightarrow> ready S c fs \<and> \<sigma> = view_slots c fs"
  by (auto simp: at_slots_def view_slots_def)

text \<open>The state \<open>apply_causal_record\<close> persists before it captures anything.\<close>

definition prepared_change :: "store_env \<Rightarrow> path_change \<Rightarrow> world \<Rightarrow> bool" where
  "prepared_change S c w \<longleftrightarrow> ready S c (w_fs w) \<and> pc_state c = Prepared \<and> pc_causal c \<noteq> None \<and>
     fmlookup (w_journal w) (pc_id c) = Some c \<and> prepared_slots S c (view_slots c (w_fs w))"

text \<open>
  One recovery attempt for one journal entry: finished entries are skipped, a rollback that began is continued,
  otherwise the caller's decision is carried out, to adopt the change or to undo it.
\<close>

definition recover_entry :: "store_env \<Rightarrow> bool \<Rightarrow> path_change \<Rightarrow> path_change sprog" where
  "recover_entry S adopt c =
     (if pc_state c = Committed \<or> pc_state c = Aborted \<or> pc_state c = RolledBack then ret c
      else if pc_state c = RollingBack \<or> \<not> adopt then rollback_causal_change S c
      else resume_path_change S c)"

definition restart :: "env_event list \<Rightarrow> world \<Rightarrow> world" where
  "restart script w = w\<lparr>w_script := script, w_draft := None\<rparr>"

lemma restart_simps [simp]:
  "w_fs (restart script w) = w_fs w" "w_journal (restart script w) = w_journal w" "w_script (restart script w) = script"
  by (simp_all add: restart_def)

definition recovery_attempt :: "store_env \<Rightarrow> string \<Rightarrow> bool \<times> env_event list \<Rightarrow> world \<Rightarrow> world" where
  "recovery_attempt S ident try w = (case try of (adopt, script) \<Rightarrow>
     (case fmlookup (w_journal w) ident of None \<Rightarrow> w | Some c \<Rightarrow> snd (recover_entry S adopt c (restart script w))))"

definition interruptible :: "env_event list \<Rightarrow> bool" where
  "interruptible = list_all (\<lambda>e. e = Proceed \<or> e = Interrupt)"

section \<open>Attempts stay on the machine\<close>

lemma sound_run:
  assumes "sound True p (\<lambda>_. P) P fs J" "w_fs w = fs" "w_journal w = J" "calm True w"
  shows "P (w_fs (snd (p w))) (w_journal (snd (p w)))"
proof -
  from assms have "wp p (\<lambda>_ w'. P (w_fs w') (w_journal w')) (\<lambda>_ _. False) (\<lambda>w'. P (w_fs w') (w_journal w')) w"
    by (auto simp: sound_def intro: wp_mono)
  then show ?thesis by (auto simp: wp_def split: prod.splits outcome.splits)
qed

lemma along_stage: "along S c \<sigma>0 (st, \<sigma>) \<Longrightarrow> st \<in> {Prepared, Preserved, Materialized, RollingBack, RolledBack}"
  by (cases st) (simp_all add: along_def)

text \<open>What a finished attempt leaves: the stage it returns is journaled, and the machine reaches it.\<close>

definition concluded :: "store_env \<Rightarrow> path_change \<Rightarrow> (slot \<Rightarrow> fs_node option) \<Rightarrow> path_change_state \<Rightarrow> path_change \<Rightarrow>
    fs_node \<Rightarrow> (string, path_change) fmap \<Rightarrow> bool" where
  "concluded S c \<sigma>0 st c' fs J \<longleftrightarrow> c' = c\<lparr>pc_state := st\<rparr> \<and> (\<exists>\<sigma>. holds_view S c fs J (st, \<sigma>) \<and>
     reaches S c (Prepared, \<sigma>0) (st, \<sigma>) \<and> along S c \<sigma>0 (st, \<sigma>))"

lemma concludedI: "at_slots S c fs \<sigma> \<Longrightarrow> fmlookup J (pc_id c) = Some (c\<lparr>pc_state := st\<rparr>) \<Longrightarrow> along S c \<sigma>0 (st, \<sigma>) \<Longrightarrow>
  reaches S c (Prepared, \<sigma>0) (st, \<sigma>) \<Longrightarrow> concluded S c \<sigma>0 st (c\<lparr>pc_state := st\<rparr>) fs J"
  by (auto simp: concluded_def holds_view_def)

lemma concluded_somewhere: "concluded S c \<sigma>0 st c' fs J \<Longrightarrow> somewhere S c (Prepared, \<sigma>0) fs J"
  unfolding concluded_def somewhere_def by blast

lemma sound_roll_back_entry:
  assumes pre: "prepared_slots S c \<sigma>0" and causal: "pc_causal c \<noteq> None" and y: "reaches S c (Prepared, \<sigma>0) (st, \<sigma>)"
    and at: "at_slots S c fs \<sigma>" and entry: "fmlookup J (pc_id c) = Some (c\<lparr>pc_state := st\<rparr>)" and st: "st \<noteq> RolledBack"
  shows "sound b (rollback_causal_change S (c\<lparr>pc_state := st\<rparr>)) (concluded S c \<sigma>0 RolledBack) (somewhere S c (Prepared, \<sigma>0)) fs J"
proof -
  let ?d = "c\<lparr>pc_state := st\<rparr>"
  have al: "along S c \<sigma>0 (st, \<sigma>)" by (rule along_reaches [OF y along_start [OF pre] pre])
  have s: "st \<in> {Prepared, Preserved, Materialized, RollingBack}" using along_stage [OF al] st by auto
  have *: "sound b (rollback_causal_change S ?d) (concluded S c \<sigma>0 RolledBack) (somewhere S ?d (Prepared, \<sigma>0)) fs J"
    apply (rule sound_rollback [where \<sigma> = \<sigma> and ?\<sigma>0.0 = \<sigma>0])
    using s at entry causal pre al y by (auto intro: concludedI)
  then show ?thesis by simp
qed

lemma sound_resume_entry:
  assumes pre: "prepared_slots S c \<sigma>0" and causal: "pc_causal c \<noteq> None" and y: "reaches S c (Prepared, \<sigma>0) (st, \<sigma>)"
    and at: "at_slots S c fs \<sigma>" and entry: "fmlookup J (pc_id c) = Some (c\<lparr>pc_state := st\<rparr>)"
    and st: "st \<noteq> RolledBack" "st \<noteq> RollingBack"
  shows "sound b (resume_path_change S (c\<lparr>pc_state := st\<rparr>)) (concluded S c \<sigma>0 Materialized) (somewhere S c (Prepared, \<sigma>0)) fs J"
proof -
  let ?d = "c\<lparr>pc_state := st\<rparr>"
  have al: "along S c \<sigma>0 (st, \<sigma>)" by (rule along_reaches [OF y along_start [OF pre] pre])
  have s: "st \<in> {Prepared, Preserved, Materialized}" using along_stage [OF al] st by auto
  have *: "sound b (resume_path_change S ?d) (concluded S c \<sigma>0 Materialized) (somewhere S ?d (Prepared, \<sigma>0)) fs J"
    apply (rule sound_resume [where \<sigma> = \<sigma> and ?\<sigma>0.0 = \<sigma>0])
    using s at entry causal pre al y by (auto intro: concludedI)
  then show ?thesis by simp
qed

lemma sound_recover_entry:
  assumes pre: "prepared_slots S c \<sigma>0" and causal: "pc_causal c \<noteq> None" and y: "reaches S c (Prepared, \<sigma>0) (st, \<sigma>)"
    and at: "at_slots S c fs \<sigma>" and entry: "fmlookup J (pc_id c) = Some (c\<lparr>pc_state := st\<rparr>)"
  shows "sound b (recover_entry S adopt (c\<lparr>pc_state := st\<rparr>))
    (concluded S c \<sigma>0 (if st = RolledBack \<or> st = RollingBack \<or> \<not> adopt then RolledBack else Materialized))
    (somewhere S c (Prepared, \<sigma>0)) fs J"
proof -
  have al: "along S c \<sigma>0 (st, \<sigma>)" by (rule along_reaches [OF y along_start [OF pre] pre])
  have "st \<noteq> Committed" "st \<noteq> Aborted" using along_stage [OF al] by auto
  moreover have "sound b (ret (c\<lparr>pc_state := st\<rparr>)) (concluded S c \<sigma>0 st) (somewhere S c (Prepared, \<sigma>0)) fs J"
    by (rule sound_ret) (rule concludedI [OF at entry al y])
  moreover note sound_roll_back_entry [OF assms] sound_resume_entry [OF assms]
  ultimately show ?thesis unfolding recover_entry_def by (cases "st = RolledBack") simp_all
qed

lemma prepared_slots_at:
  assumes "prepared_change S c w"
  shows "at_slots S c (w_fs w) (view_slots c (w_fs w))" "prepared_slots S c (view_slots c (w_fs w))"
    "pc_causal c \<noteq> None" "somewhere S c (Prepared, view_slots c (w_fs w)) (w_fs w) (w_journal w)"
proof -
  from assms show at: "at_slots S c (w_fs w) (view_slots c (w_fs w))" and "prepared_slots S c (view_slots c (w_fs w))"
    and "pc_causal c \<noteq> None"
    by (simp_all add: prepared_change_def at_slots_view)
  have "c\<lparr>pc_state := Prepared\<rparr> = c" using assms by (simp add: prepared_change_def)
  with assms show "somewhere S c (Prepared, view_slots c (w_fs w)) (w_fs w) (w_journal w)"
    using somewhereI [OF rtranclp.rtrancl_refl at] by (simp add: prepared_change_def)
qed

lemma attempt_somewhere:
  assumes pre: "prepared_slots S c \<sigma>0" and causal: "pc_causal c \<noteq> None" and script: "interruptible (snd t)"
    and w: "somewhere S c (Prepared, \<sigma>0) (w_fs w) (w_journal w)"
  shows "somewhere S c (Prepared, \<sigma>0) (w_fs (recovery_attempt S (pc_id c) t w)) (w_journal (recovery_attempt S (pc_id c) t w))"
proof -
  obtain adopt script where t: "t = (adopt, script)" by (cases t)
  from w obtain st \<sigma> where y: "reaches S c (Prepared, \<sigma>0) (st, \<sigma>)" and at: "at_slots S c (w_fs w) \<sigma>"
    and entry: "fmlookup (w_journal w) (pc_id c) = Some (c\<lparr>pc_state := st\<rparr>)"
    by (auto simp: somewhere_def holds_view_def)
  have "calm True (restart script w)"
    using script t by (simp add: calm_def restart_def interruptible_def)
  moreover have "sound True (recover_entry S adopt (c\<lparr>pc_state := st\<rparr>)) (\<lambda>_. somewhere S c (Prepared, \<sigma>0)) (somewhere S c (Prepared, \<sigma>0))
      (w_fs w) (w_journal w)"
    using sound_recover_entry [OF pre causal y at entry] by (rule sound_mono) (blast intro: concluded_somewhere)+
  ultimately show ?thesis unfolding recovery_attempt_def t using entry
    by (simp add: sound_run restart_def)
qed

lemma attempts_somewhere:
  assumes "prepared_slots S c \<sigma>0" "pc_causal c \<noteq> None" "\<forall>t \<in> set tries. interruptible (snd t)"
    and "somewhere S c (Prepared, \<sigma>0) (w_fs w) (w_journal w)"
  shows "somewhere S c (Prepared, \<sigma>0) (w_fs (fold (recovery_attempt S (pc_id c)) tries w))
    (w_journal (fold (recovery_attempt S (pc_id c)) tries w))"
  using assms(3,4)
proof (induction tries arbitrary: w)
  case (Cons t tries)
  then show ?case using attempt_somewhere [OF assms(1,2), of t w] by simp
qed simp

text \<open>An attempt that nothing interrupts returns.\<close>

lemma sound_done:
  assumes "sound False p Q I (w_fs w) (w_journal w)" "w_script w = []"
  shows "\<exists>x. fst (p w) = Done x \<and> Q x (w_fs (snd (p w))) (w_journal (snd (p w)))"
proof -
  have "calm False w" using assms(2) by (simp add: calm_def)
  with assms(1) have "wp p (\<lambda>x w'. calm False w' \<and> Q x (w_fs w') (w_journal w')) (\<lambda>_ _. False) (\<lambda>_. False) w"
    by (simp add: sound_def)
  then show ?thesis by (auto simp: wp_def split: prod.splits outcome.splits)
qed

text \<open>Where an attempt with a decision ends, by the stage it starts at.\<close>

abbreviation final_stage :: "bool \<Rightarrow> path_change_state \<Rightarrow> path_change_state" where
  "final_stage adopt st \<equiv> (if st = RolledBack \<or> st = RollingBack \<or> \<not> adopt then RolledBack else Materialized)"

lemma attempt_concludes:
  assumes "prepared_change S c w" and "\<forall>t \<in> set tries. interruptible (snd t)"
    and entry: "fmlookup (w_journal (fold (recovery_attempt S (pc_id c)) tries w)) (pc_id c) = Some entry"
    and run: "recover_entry S adopt entry (restart [] (fold (recovery_attempt S (pc_id c)) tries w)) = (outcome, w')"
  shows "outcome = Done (c\<lparr>pc_state := final_stage adopt (pc_state entry)\<rparr>)"
    and "concluded S c (view_slots c (w_fs w)) (final_stage adopt (pc_state entry))
      (c\<lparr>pc_state := final_stage adopt (pc_state entry)\<rparr>) (w_fs w') (w_journal w')"
proof -
  note pre = prepared_slots_at(2,3) [OF assms(1)]
  let ?w = "fold (recovery_attempt S (pc_id c)) tries w"
  obtain st \<sigma> where y: "reaches S c (Prepared, view_slots c (w_fs w)) (st, \<sigma>)" and at: "at_slots S c (w_fs ?w) \<sigma>"
    and entry': "fmlookup (w_journal ?w) (pc_id c) = Some (c\<lparr>pc_state := st\<rparr>)"
    using attempts_somewhere [OF pre assms(2) prepared_slots_at(4) [OF assms(1)]] by (auto simp: somewhere_def holds_view_def)
  have "\<exists>x. fst (recover_entry S adopt (c\<lparr>pc_state := st\<rparr>) (restart [] ?w)) = Done x \<and>
      concluded S c (view_slots c (w_fs w)) (final_stage adopt st) x (w_fs (snd (recover_entry S adopt (c\<lparr>pc_state := st\<rparr>) (restart [] ?w))))
        (w_journal (snd (recover_entry S adopt (c\<lparr>pc_state := st\<rparr>) (restart [] ?w))))"
    using sound_recover_entry [OF pre y at entry', of False adopt]
    by (intro sound_done [where I = "somewhere S c (Prepared, view_slots c (w_fs w))"]) (simp_all only: restart_simps)
  with entry entry' run show "outcome = Done (c\<lparr>pc_state := final_stage adopt (pc_state entry)\<rparr>)"
    and "concluded S c (view_slots c (w_fs w)) (final_stage adopt (pc_state entry))
      (c\<lparr>pc_state := final_stage adopt (pc_state entry)\<rparr>) (w_fs w') (w_journal w')"
    by (auto simp: concluded_def split del: if_split)
qed

section \<open>Recovery is complete\<close>

lemma concluded_slots:
  assumes "concluded S c \<sigma>0 st c' fs J"
  shows "fmlookup J (pc_id c) = Some (c\<lparr>pc_state := st\<rparr>)"
    and "st = Materialized \<Longrightarrow> installed_object S c (slot_at fs (loc c Dest)) \<and> slot_at fs (loc c Art) = \<sigma>0 Dest"
    and "st = RolledBack \<Longrightarrow> slot_at fs (loc c Dest) = \<sigma>0 Dest \<and> slot_at fs (loc c Art) = None"
  using assms by (auto simp: concluded_def holds_view_def at_slots_def along_def restored_def)

text \<open>
  C5: the journal code refines the abstract machine of a change. From the state in which a change was prepared,
  any number of recovery attempts, each carrying out any decision and interrupted at any call, leave the file
  system and the journal in a state that the machine reaches by its atomic steps.
\<close>

theorem recovery_refines_machine:
  assumes "prepared_change S c w" and "\<forall>t \<in> set tries. interruptible (snd t)"
  shows "\<exists>y. reaches S c (Prepared, view_slots c (w_fs w)) y \<and>
    holds_view S c (w_fs (fold (recovery_attempt S (pc_id c)) tries w))
      (w_journal (fold (recovery_attempt S (pc_id c)) tries w)) y"
  using attempts_somewhere [OF prepared_slots_at(2,3) [OF assms(1)] assms(2) prepared_slots_at(4) [OF assms(1)]]
  unfolding somewhere_def .

text \<open>
  C6: recovery completes. After any interrupted attempts, an attempt that nothing interrupts returns. Unless a
  rollback had begun, adopting the change ends with the target at the destination, the original object in the
  artifact and the entry journaled as materialized; otherwise the original is back and the entry rolled back.
\<close>

theorem recovery_completes:
  assumes "prepared_change S c w" and "\<forall>t \<in> set tries. interruptible (snd t)"
    and "fmlookup (w_journal (fold (recovery_attempt S (pc_id c)) tries w)) (pc_id c) = Some entry"
    and "recover_entry S True entry (restart [] (fold (recovery_attempt S (pc_id c)) tries w)) = (outcome, w')"
  shows "if pc_state entry = RolledBack \<or> pc_state entry = RollingBack
    then outcome = Done (c\<lparr>pc_state := RolledBack\<rparr>) \<and> slot_at (w_fs w') (loc c Dest) = slot_at (w_fs w) (loc c Dest)
    else outcome = Done (c\<lparr>pc_state := Materialized\<rparr>) \<and> installed_object S c (slot_at (w_fs w') (loc c Dest)) \<and>
      slot_at (w_fs w') (loc c Art) = slot_at (w_fs w) (loc c Dest) \<and>
      fmlookup (w_journal w') (pc_id c) = Some (c\<lparr>pc_state := Materialized\<rparr>)"
  using attempt_concludes [OF assms] concluded_slots [OF attempt_concludes(2) [OF assms]]
  by (auto simp: view_slots_def)

text \<open>
  C7: a prepared change can be undone at every point. After any interrupted attempts, whatever they had
  installed, an undisturbed rollback returns with the original object, or its absence, back at the destination
  and the entry journaled as rolled back.
\<close>

theorem rollback_restores:
  assumes "prepared_change S c w" and "\<forall>t \<in> set tries. interruptible (snd t)"
    and "fmlookup (w_journal (fold (recovery_attempt S (pc_id c)) tries w)) (pc_id c) = Some entry"
    and "recover_entry S False entry (restart [] (fold (recovery_attempt S (pc_id c)) tries w)) = (outcome, w')"
  shows "outcome = Done (c\<lparr>pc_state := RolledBack\<rparr>) \<and> slot_at (w_fs w') (loc c Dest) = slot_at (w_fs w) (loc c Dest) \<and>
    slot_at (w_fs w') (loc c Art) = None \<and> fmlookup (w_journal w') (pc_id c) = Some (c\<lparr>pc_state := RolledBack\<rparr>)"
  using attempt_concludes [OF assms] concluded_slots [OF attempt_concludes(2) [OF assms]]
  by (auto simp: view_slots_def)

section \<open>A prepared change\<close>

text \<open>The file \<open>a\<close> is to be replaced by a directory; the recovery directory exists and nothing was moved yet.\<close>

definition example_prepared_tree :: fs_node where
  "example_prepared_tree = DirNode (example_meta 1) (fmap_of_list
     [(''root'', DirNode (example_meta 2) (fmap_of_list [(''a'', FileNode (example_meta 3) [1, 2, 3])])),
      (''state'', DirNode (example_meta 4) (fmap_of_list
        [(''trash'', DirNode (example_meta 5) (fmap_of_list [(''x1'', DirNode (example_meta 6) fmempty)]))]))])"

definition example_change :: path_change where
  "example_change = \<lparr>pc_version = 1, pc_id = ''x1'', pc_root = [''root''], pc_path = ''a'', pc_vault = [''state'', ''trash''],
     pc_artifact = [''state'', ''trash'', ''x1'', ''a''], pc_staging = [''state'', ''trash'', ''x1.incoming''],
     pc_expected = observe_node example_env (FileNode (example_meta 3) [1, 2, 3]), pc_target = DirectoryTarget, pc_state = Prepared,
     pc_preserve_tree = False, pc_causal = Some \<lparr>cb_record = \<lparr>sr_schema_version = 1, sr_path = ''a'', sr_kind = Directory, sr_size = 0,
       sr_content_hash = None, sr_readonly = False, sr_version = fmap_of_list [(hash_fill 1, 2)], sr_tombstone = False\<rparr>,
       cb_precondition = None, cb_authorization = None\<rparr>,
     pc_metadata_only = False, pc_rollback_artifact = [''state'', ''trash'', ''x1.rollback'']\<rparr>"

definition example_prepared_world :: world where
  "example_prepared_world = \<lparr>w_fs = example_prepared_tree, w_journal = fmap_of_list [(''x1'', example_change)],
     w_manifests = fmempty, w_operations = fmempty, w_sequence = 1, w_draft = None, w_clock = 0, w_script = [], w_displaced = {#}, w_discards = []\<rparr>"

lemma example_prepared: "prepared_change example_env example_change example_prepared_world"
proof -
  have "ready example_env example_change example_prepared_tree"
    by (simp add: ready_def example_change_def example_env_def trash_dir_def valid_id_def is_ascii_alphanumeric_def byte_of_def components_def
        plain_path_def apart_def with_extension_def file_stem_def dir_meta_def destination_of_def example_prepared_tree_def example_meta_def)
  moreover have "prepared_slots example_env example_change (view_slots example_change example_prepared_tree)"
    by (simp add: prepared_slots_def view_slots_def slot_at_def loc.simps destination_of_def example_change_def components_def
        example_prepared_tree_def expected_object_def staged_object_def)
  ultimately show ?thesis
    by (simp add: prepared_change_def example_prepared_world_def) (simp add: example_change_def)
qed

definition example_tries :: "(bool \<times> env_event list) list" where
  "example_tries = [(True, replicate 20 Proceed @ [Interrupt]), (True, replicate 40 Proceed @ [Interrupt, Proceed])]"

lemma example_interruptible: "\<forall>t \<in> set example_tries. interruptible (snd t)"
  by (simp add: example_tries_def interruptible_def list_all_iff)

lemma example_entry:
  obtains entry where "fmlookup (w_journal (fold (recovery_attempt example_env (pc_id example_change)) example_tries example_prepared_world))
    (pc_id example_change) = Some entry"
  using attempts_somewhere [OF prepared_slots_at(2,3) [OF example_prepared] example_interruptible prepared_slots_at(4) [OF example_prepared]]
  by (auto simp: somewhere_def holds_view_def)

theorem recovery_refines_machine_witness:
  "\<exists>y. reaches example_env example_change (Prepared, view_slots example_change (w_fs example_prepared_world)) y \<and>
    holds_view example_env example_change (w_fs (fold (recovery_attempt example_env (pc_id example_change)) example_tries example_prepared_world))
      (w_journal (fold (recovery_attempt example_env (pc_id example_change)) example_tries example_prepared_world)) y"
  by (rule recovery_refines_machine [OF example_prepared example_interruptible])

theorem recovery_completes_witness:
  "fst (recover_entry example_env True example_change (restart [] example_prepared_world)) = Done (example_change\<lparr>pc_state := Materialized\<rparr>) \<and>
    installed_object example_env example_change
      (slot_at (w_fs (snd (recover_entry example_env True example_change (restart [] example_prepared_world)))) (loc example_change Dest))"
proof -
  have entry: "fmlookup (w_journal (fold (recovery_attempt example_env (pc_id example_change)) [] example_prepared_world))
      (pc_id example_change) = Some example_change" and "pc_state example_change = Prepared"
    using example_prepared by (simp_all add: prepared_change_def)
  with recovery_completes [OF example_prepared _ entry, OF _ prod.collapse [symmetric]] show ?thesis by simp
qed

theorem rollback_restores_witness:
  "\<exists>entry. fmlookup (w_journal (fold (recovery_attempt example_env (pc_id example_change)) example_tries example_prepared_world))
      (pc_id example_change) = Some entry \<and>
    fst (recover_entry example_env False entry (restart [] (fold (recovery_attempt example_env (pc_id example_change)) example_tries example_prepared_world))) =
      Done (example_change\<lparr>pc_state := RolledBack\<rparr>)"
proof -
  obtain entry where entry: "fmlookup (w_journal (fold (recovery_attempt example_env (pc_id example_change)) example_tries example_prepared_world))
      (pc_id example_change) = Some entry" by (rule example_entry)
  with rollback_restores [OF example_prepared example_interruptible entry prod.collapse [symmetric]] show ?thesis by blast
qed

end
