(* ===== verification/Share_Props.thy ===== *)
theory Share_Props
  imports Share_Laws
begin

text \<open>
  The authorization properties of the share catalog, for every run of committed operations, with a
  concrete run in which a key is issued, redeemed and its member revoked.
\<close>

section \<open>A concrete run\<close>

definition ref_registry :: registry_env where
  "ref_registry = \<lparr>rg_share = ref_share, rg_catalog_len = (\<lambda>_. 0)\<rparr>"

definition example_config :: owned_share_config where
  "example_config = \<lparr>oc_share_id = hash_fill 1, oc_owner = hash_fill 9, oc_name = ''Files'', oc_root = ''/r'',
     oc_state_root = ''/s'', oc_replica = hash_fill 4, oc_min_free_space_bytes = 0\<rparr>"

definition example_run :: "(u64 \<times> reg_op) list" where
  "example_run = [(100, InsertShare example_config {||}), (110, Issue (example_ticket ReadWrite)),
     (120, Enroll (example_ticket ReadWrite) (hash_fill 7) None [hash_fill 8])]"

definition example_member :: membership where
  "example_member = \<lparr>mb_share_id = hash_fill 1, mb_owner = hash_fill 9, mb_endpoint = hash_fill 7,
     mb_permission = ReadWrite, mb_replica = hash_fill 8, mb_enrolled_at = 120, mb_revoked_at = None, mb_epoch = 1\<rparr>"

definition example_invitation :: invitation where
  "example_invitation = \<lparr>iv_id = hash_fill 2, iv_share_id = hash_fill 1, iv_permission = ReadWrite,
     iv_expires_at = Some 200, iv_revoked_at = None, iv_digest = hash_fill 32\<rparr>"

definition example_entry :: share_entry where
  "example_entry = \<lparr>se_ready = False, se_config = example_config,
     se_invitations = fmupd (hash_fill 2) example_invitation fmempty,
     se_members = fmupd (hash_fill 7) example_member fmempty,
     se_known = {|hash_fill 8, hash_fill 45, hash_fill 4|}\<rparr>"

definition example_catalog :: catalog where
  "example_catalog = put_entry (hash_fill 1) example_entry (fresh_catalog (hash_fill 9))"

lemma resolver_ref: "resolver ref_registry = hash_fill 45"
  by (simp add: resolver_def ref_registry_def ref_share_def digest_def ref_hex_def)

lemma example_verify: "verify_at ref_share (example_ticket perm) now = Inr () \<longleftrightarrow> now < 200"
proof -
  have "ticket_ok ref_share (example_ticket perm)"
    using example_issue [of perm] by (auto simp: ticket_issue_def Let_def result_simps verify_at_iff)
  then show ?thesis
    by (auto simp: verify_at_iff unexpired_def example_ticket_def example_body_def)
qed

lemma example_digest: "issuance_digest ref_share (example_ticket perm) = Inr (hash_fill 32)"
proof -
  have "length (str_bytes DOMAIN @ body_bytes (example_body perm)) = 32"
    by (simp add: DOMAIN_def body_bytes_def)
  then show ?thesis
    by (simp add: issuance_digest_def signed_bytes_def ok_or_def ref_share_def digest_def ref_hex_def example_ticket_def)
qed

lemma example_fields [simp]:
  "tb_share_id (st_body (example_ticket perm)) = hash_fill 1" "tb_permission (st_body (example_ticket perm)) = perm"
  "tb_invitation_id (st_body (example_ticket perm)) = hash_fill 2" "tb_owner (st_body (example_ticket perm)) = hash_fill 9"
  "tb_expires_at (st_body (example_ticket perm)) = Some 200" "tb_name (st_body (example_ticket perm)) = ''Files''"
  by (simp_all add: example_ticket_def example_body_def)

lemma example_step_1:
  "run_op ref_registry 100 (InsertShare example_config {||}) (fresh_catalog (hash_fill 9)) =
     Some (put_entry (hash_fill 1) (example_entry\<lparr>se_invitations := fmempty, se_members := fmempty,
       se_known := {|hash_fill 45, hash_fill 4|}\<rparr>) (fresh_catalog (hash_fill 9)))"
  by (simp add: insert_share_def reg_update_def reg_read_def ensure_def resolver_ref)
    (simp add: ref_registry_def example_config_def fresh_catalog_def fcard_fempty example_entry_def)

lemma example_step_2:
  "run_op ref_registry 110 (Issue (example_ticket ReadWrite))
     (put_entry (hash_fill 1) (example_entry\<lparr>se_invitations := fmempty, se_members := fmempty,
       se_known := {|hash_fill 45, hash_fill 4|}\<rparr>) (fresh_catalog (hash_fill 9))) =
   Some (put_entry (hash_fill 1) (example_entry\<lparr>se_members := fmempty,
       se_known := {|hash_fill 45, hash_fill 4|}\<rparr>) (fresh_catalog (hash_fill 9)))"
proof -
  have "verify_at ref_share (example_ticket ReadWrite) 110 = Inr ()" by (simp add: example_verify)
  then show ?thesis
    by (simp add: reg_issue_def reg_update_def reg_read_def ensure_def share_lookup_def ok_or_def Let_def
        ref_registry_def example_digest put_entry_def fresh_catalog_def)
      (simp add: example_config_def example_entry_def example_ticket_def example_body_def fcard_fempty
        example_invitation_def)
qed

lemma example_step_3:
  "run_op ref_registry 120 (Enroll (example_ticket ReadWrite) (hash_fill 7) None [hash_fill 8])
     (put_entry (hash_fill 1) (example_entry\<lparr>se_members := fmempty,
       se_known := {|hash_fill 45, hash_fill 4|}\<rparr>) (fresh_catalog (hash_fill 9))) = Some example_catalog"
proof -
  let ?e = "example_entry\<lparr>se_members := fmempty, se_known := {|hash_fill 45, hash_fill 4|}\<rparr>"
  have v: "validate_entry ref_registry 120 ?e (example_ticket ReadWrite) = Inr ()"
    using example_verify [of ReadWrite 120]
    by (simp add: validate_entry_def Let_def ref_registry_def example_digest ok_or_def ensure_def)
      (simp add: example_entry_def example_ticket_def example_body_def example_invitation_def example_config_def
        ok_or_def ensure_def)
  have "fcard {|hash_fill 45, hash_fill 4|} \<le> 2" by (simp add: fcard_finsert_if)
  then have "choose_replica ref_registry ?e (example_ticket ReadWrite) (hash_fill 7) None [hash_fill 8] = Some (Inr (hash_fill 8))"
    by (simp add: choose_replica_def MAX_REPLICAS_def)
  with v show ?thesis
    by (simp add: enroll_def reg_read_def ensure_def share_lookup_def ok_or_def fresh_catalog_def put_entry_def
        enroll_entry_def add_member_def commit_def MAX_MEMBERS_def MAX_REPLICAS_def fcard_fempty fcard_finsert_if
        ref_registry_def)
      (simp add: example_entry_def example_config_def example_catalog_def
        example_member_def fresh_catalog_def put_entry_def fcard_fempty fcard_finsert_if Let_def)
qed

lemma example_reaches: "reaches ref_registry (fresh_catalog (hash_fill 9)) example_run example_catalog"
  using reaches.step [OF reaches.step [OF reaches.step [OF reaches.start example_step_1] example_step_2] example_step_3]
  by (simp add: example_run_def)

section \<open>Properties\<close>

text \<open>
  C28: the catalog invariant holds after every run of committed operations: each share is filed under
  its own id and owner, at most 256 shares, 4096 keys and 4096 members per share exist, every member is
  filed under its endpoint and is never the owner, and the replica identities of the owner, the
  conflict resolver and all members are pairwise distinct and recorded as known.
\<close>
theorem registry_invariant:
  assumes "reaches R (fresh_catalog owner) tr cat"
  shows "catalog_inv R owner cat"
  using reaches_inv [OF assms catalog_inv_fresh] .

theorem registry_invariant_witness: "catalog_inv ref_registry (hash_fill 9) example_catalog"
  using registry_invariant [OF example_reaches] .

text \<open>
  C26: no privilege without issuance. When \<open>authorize\<close> admits a peer, that peer was enrolled with an
  unexpired ticket for this share whose signature verified under the owner's key, the owner had
  issued a key with that invitation id and exactly that permission, the membership is not revoked, and
  write access is granted only to read-write members.
\<close>
theorem authorize_requires_issuance:
  assumes "reaches R (fresh_catalog owner) tr cat" "authorize R cat share peer write = Inr m"
  shows "(\<exists>n t lp draws. (n, Enroll t peer lp draws) \<in> set tr \<and> tb_share_id (st_body t) = share \<and>
      tb_owner (st_body t) = owner \<and> tb_permission (st_body t) = mb_permission m \<and>
      ticket_ok (rg_share R) t \<and> unexpired t n \<and>
      (\<exists>n' t'. (n', Issue t') \<in> set tr \<and> tb_share_id (st_body t') = share \<and>
         tb_invitation_id (st_body t') = tb_invitation_id (st_body t) \<and>
         tb_permission (st_body t') = mb_permission m)) \<and>
    mb_revoked_at m = None \<and> mb_endpoint m = peer \<and> (write \<longrightarrow> mb_permission m = ReadWrite)"
proof -
  from assms(2) obtain entry where e: "fmlookup (ct_shares cat) share = Some entry"
    "fmlookup (se_members entry) peer = Some m" "mb_revoked_at m = None" "write \<longrightarrow> mb_permission m = ReadWrite"
    by (auto simp: authorize_Inr)
  have "admitted R tr owner share peer (mb_permission m)"
    using reaches_traced [OF assms(1)] e(1,2) by (simp add: all_traced_def traced_def)
  moreover have "mb_endpoint m = peer"
    using reaches_inv [OF assms(1) catalog_inv_fresh] e(1,2) by (simp add: catalog_inv_def entry_inv_def)
  ultimately show ?thesis
    using e(3,4) unfolding admitted_def issued_def by blast
qed

lemma example_authorized:
  "authorize ref_registry example_catalog (hash_fill 1) (hash_fill 7) write = Inr example_member"
  unfolding authorize_Inr
  by (simp add: ref_registry_def example_catalog_def put_entry_def fresh_catalog_def example_entry_def example_member_def)

theorem authorize_requires_issuance_witness:
  "\<exists>n t lp draws. (n, Enroll t (hash_fill 7) lp draws) \<in> set example_run \<and> ticket_ok ref_share t \<and> unexpired t n \<and>
     tb_permission (st_body t) = ReadWrite"
  using authorize_requires_issuance [OF example_reaches example_authorized [of True]]
  by (auto simp: ref_registry_def example_member_def)

text \<open>
  C27: revoking a member is final. After a committed revocation, in every later state of the catalog and
  whatever keys are issued meanwhile, \<open>authorize\<close> refuses that peer as revoked, and every attempt to
  enroll it again ends in an error.
\<close>
theorem member_revocation_is_final:
  assumes "run_op R now (RevokeMember share peer) cat = Some cat'" "reaches R cat' tr cat''"
  shows "authorize R cat'' share peer write = Inl MemberRevoked \<and>
    (\<forall>now' ticket lp draws. tb_share_id (st_body ticket) = share \<longrightarrow>
       (\<exists>e. enroll R now' ticket peer lp draws cat'' = Some (Inl e)))"
proof -
  from revoked_member_forever [OF assms] obtain m where m: "member_at cat'' share peer = Some m"
    "mb_revoked_at m \<noteq> None" "rg_catalog_len R cat'' \<le> MAX_CATALOG_BYTES" .
  with authorize_revoked [OF m] enroll_revoked show ?thesis by blast
qed

theorem member_revocation_is_final_witness:
  "\<exists>cat'. run_op ref_registry 130 (RevokeMember (hash_fill 1) (hash_fill 7)) example_catalog = Some cat' \<and>
     authorize ref_registry cat' (hash_fill 1) (hash_fill 7) False = Inl MemberRevoked"
proof -
  obtain cat' where r: "run_op ref_registry 130 (RevokeMember (hash_fill 1) (hash_fill 7)) example_catalog = Some cat'"
    by (simp add: revoke_member_def reg_update_def reg_read_def ensure_def share_lookup_def ok_or_def checked_add_def
        example_catalog_def put_entry_def fresh_catalog_def example_entry_def example_member_def ref_registry_def)
  with member_revocation_is_final [OF r reaches.start] show ?thesis by blast
qed

text \<open>
  Keys and memberships are separate authorities. Revoking a key leaves every authorization decision
  as it was, and from then on, as long as the owner issues no key under the same invitation id, the key
  fails validation and every enrollment with it is refused.
\<close>
theorem key_revocation:
  assumes "run_op R now (RevokeKey share invite) cat = Some cat'" "reaches R cat' tr cat''"
    and "\<forall>(n, op) \<in> set tr. \<not> reissues share invite op"
    and "tb_share_id (st_body ticket) = share" "tb_invitation_id (st_body ticket) = invite"
  shows "(\<forall>s p w. authorize R cat' s p w = authorize R cat s p w) \<and>
    reg_validate R now' cat'' ticket \<noteq> Inr () \<and>
    (\<forall>peer lp draws cat3 m. enroll R now' ticket peer lp draws cat'' \<noteq> Some (Inr (cat3, m)))"
proof -
  from assms(1) obtain entry iv iv' where e: "fmlookup (ct_shares cat) share = Some entry"
    "cat' = put_entry share (entry\<lparr>se_invitations := fmupd invite iv' (se_invitations entry)\<rparr>) cat"
    "iv_revoked_at iv' \<noteq> None" "rg_catalog_len R cat \<le> MAX_CATALOG_BYTES" "rg_catalog_len R cat' \<le> MAX_CATALOG_BYTES"
    by (auto simp: revoke_key_def reg_simps split: option.splits)
  then have "authorize R cat' s p w = authorize R cat s p w" for s p w
    by (cases "s = share") (auto simp: authorize_def reg_read_def share_lookup_def put_entry_def ensure_def ok_or_def)
  moreover have "invitation_at cat' share invite = Some iv'"
    using e(2) by (simp add: invitation_at_def put_entry_def)
  from invitation_revoked_reaches [OF assms(2,3) this e(3)] obtain iv2 where
    iv2: "invitation_at cat'' share invite = Some iv2" "iv_revoked_at iv2 \<noteq> None" by blast
  then obtain entry2 where e2: "fmlookup (ct_shares cat'') share = Some entry2"
    "fmlookup (se_invitations entry2) invite = Some iv2" by (auto simp: invitation_at_def bind_eq_Some_conv)
  have no: "validate_entry R now' entry2 ticket \<noteq> Inr ()"
    using e2(2) iv2(2) assms(5) by (auto simp: validate_entry_Inr)
  then have "reg_validate R now' cat'' ticket \<noteq> Inr ()"
    using e2(1) assms(4) by (auto simp: reg_validate_def reg_read_def reg_simps)
  moreover have "enroll R now' ticket peer lp draws cat'' \<noteq> Some (Inr (cat3, m))" for peer lp draws cat3 m
  proof
    assume "enroll R now' ticket peer lp draws cat'' = Some (Inr (cat3, m))"
    then show False by (rule enroll_Inr) (use e2(1) assms(4) no in auto)
  qed
  ultimately show ?thesis by blast
qed

theorem key_revocation_witness:
  "\<exists>cat'. run_op ref_registry 130 (RevokeKey (hash_fill 1) (hash_fill 2)) example_catalog = Some cat' \<and>
     authorize ref_registry cat' (hash_fill 1) (hash_fill 7) True = Inr example_member \<and>
     reg_validate ref_registry 140 cat' (example_ticket ReadWrite) \<noteq> Inr ()"
proof -
  obtain cat' where r: "run_op ref_registry 130 (RevokeKey (hash_fill 1) (hash_fill 2)) example_catalog = Some cat'"
    by (simp add: revoke_key_def reg_update_def reg_read_def ensure_def share_lookup_def ok_or_def Let_def
        example_catalog_def put_entry_def fresh_catalog_def example_entry_def ref_registry_def)
  have "\<forall>(n, op) \<in> set []. \<not> reissues (hash_fill 1) (hash_fill 2) op" by simp
  with key_revocation [OF r reaches.start, of "example_ticket ReadWrite" 140] r example_authorized show ?thesis by auto
qed

text \<open>
  C31: enrolling always returns: as soon as the random source has produced more distinct values than a
  share can know replicas, the drawing loop has ended.
\<close>
theorem enroll_returns:
  assumes "MAX_REPLICAS \<le> card (set draws)"
  shows "enroll R now ticket peer lp draws cat \<noteq> None"
proof -
  have "choose_replica R entry ticket peer lp draws \<noteq> None" for entry
    using draw_replica_returns [of "se_known entry" draws] assms
    by (auto simp: choose_replica_def split: option.split)
  then show ?thesis
    by (auto simp: enroll_def enroll_entry_def split: sum.split option.split)
qed

theorem enroll_returns_witness:
  "enroll ref_registry 120 (example_ticket ReadWrite) (hash_fill 7) None
     (map (\<lambda>i. from_bytes (to_le_bytes (of_nat i :: u64) @ replicate 24 0)) [0..<4096]) example_catalog \<noteq> None"
proof -
  have "inj_on (\<lambda>i. from_bytes (to_le_bytes (of_nat i :: u64) @ replicate 24 0)) {0..<4096}"
  proof (rule inj_onI)
    fix i j :: nat assume ij: "i \<in> {0..<4096}" "j \<in> {0..<4096}"
      "from_bytes (to_le_bytes (of_nat i :: u64) @ replicate 24 0) = from_bytes (to_le_bytes (of_nat j :: u64) @ replicate 24 0)"
    then have "as_bytes (from_bytes (to_le_bytes (of_nat i :: u64) @ replicate 24 0)) =
        as_bytes (from_bytes (to_le_bytes (of_nat j :: u64) @ replicate 24 0))" by simp
    then have "(of_nat i :: u64) = of_nat j" by (simp add: to_le_bytes_inject)
    then have "i mod 2 ^ 64 = j mod 2 ^ 64" by (simp add: word_of_nat_eq_iff take_bit_eq_mod)
    with ij show "i = j" by simp
  qed
  from card_image [OF this] show ?thesis
    by (intro enroll_returns) (simp add: MAX_REPLICAS_def del: upt.simps)
qed

text \<open>
  enrollment is idempotent: redeeming the same unexpired key again from the same device returns the
  membership of the first time and changes nothing, without drawing a replica.
\<close>
theorem enroll_idempotent:
  assumes "enroll R now ticket peer lp draws cat = Some (Inr (cat', m))" "unexpired ticket now'"
  shows "enroll R now' ticket peer None draws' cat' = Some (Inr (cat', m))"
proof -
  from assms(1) obtain entry where e: "fmlookup (ct_shares cat) (tb_share_id (st_body ticket)) = Some entry"
    "peer \<noteq> ct_owner cat" "validate_entry R now entry ticket = Inr ()" "rg_catalog_len R cat' \<le> MAX_CATALOG_BYTES" and
    r: "fmlookup (se_members entry) peer = Some m \<and> mb_revoked_at m = None \<and> cat' = cat \<or>
     fmlookup (se_members entry) peer = None \<and> map_len (se_members entry) < MAX_MEMBERS \<and>
       (\<exists>replica. choose_replica R entry ticket peer lp draws = Some (Inr replica) \<and>
          add_member R now cat entry ticket peer replica = Inr (cat', m))"
    by (rule enroll_Inr)
  from r e obtain entry' where e': "fmlookup (ct_shares cat') (tb_share_id (st_body ticket)) = Some entry'"
    "se_invitations entry' = se_invitations entry" "se_config entry' = se_config entry"
    "fmlookup (se_members entry') peer = Some m" "mb_revoked_at m = None" "ct_owner cat' = ct_owner cat"
    by (auto simp: add_member_def result_simps Let_def put_entry_def)
  have "validate_entry R now' entry' ticket = Inr ()"
    using e(3) assms(2) e'(2,3) by (simp add: validate_entry_Inr)
  with e(2,4) e' show ?thesis
    by (simp add: enroll_def reg_read_def ensure_def share_lookup_def ok_or_def enroll_entry_def
        existing_member_def commit_def)
qed

theorem enroll_idempotent_witness:
  "enroll ref_registry 150 (example_ticket ReadWrite) (hash_fill 7) None [] example_catalog =
     Some (Inr (example_catalog, example_member))"
proof -
  let ?cat = "put_entry (hash_fill 1) (example_entry\<lparr>se_members := fmempty,
       se_known := {|hash_fill 45, hash_fill 4|}\<rparr>) (fresh_catalog (hash_fill 9))"
  obtain m where m: "enroll ref_registry 120 (example_ticket ReadWrite) (hash_fill 7) None [hash_fill 8] ?cat =
      Some (Inr (example_catalog, m))"
    using example_step_3 by (cases "enroll ref_registry 120 (example_ticket ReadWrite) (hash_fill 7) None [hash_fill 8] ?cat")
      (auto simp: committed_Some)
  moreover have "unexpired (example_ticket ReadWrite) 150"
    by (simp add: unexpired_def) (simp add: example_ticket_def example_body_def)
  ultimately have r: "enroll ref_registry 150 (example_ticket ReadWrite) (hash_fill 7) None [] example_catalog =
     Some (Inr (example_catalog, m))" by (rule enroll_idempotent)
  then obtain entry where "fmlookup (ct_shares example_catalog) (hash_fill 1) = Some entry"
    "fmlookup (se_members entry) (hash_fill 7) = Some m \<or> fmlookup (se_members entry) (hash_fill 7) = None"
    by (rule enroll_Inr) auto
  then have "m = example_member"
    by (auto simp: example_catalog_def put_entry_def fresh_catalog_def example_entry_def)
  with r show ?thesis by simp
qed

end
