(* ===== verification/Share_Runtime_Props.thy ===== *)
theory Share_Runtime_Props
  imports Share_Runtime Share_Props
begin

text \<open>
  What the owner's acceptance of remote records guarantees: members cannot forge the history of other
  replicas, and accepted metadata stays readable and bounded.
\<close>

section \<open>Accepted candidates\<close>

lemma remember_known:
  assumes "remember_replicas R share ks cat = Inr (cat', u)" "reg_known R cat' share = Inr known"
  shows "fset_of_list ks |\<subseteq>| known" "fcard known \<le> MAX_REPLICAS"
  using assms by (auto simp: remember_replicas_def reg_known_def reg_read_def reg_simps put_entry_def)

lemma candidate_Inr:
  assumes "candidate_metadata_for T config now rs peer epoch r cat stored = Inr (cat', refreshed, state')"
  obtains member known where
    "authorize (rt_registry T) cat (oc_share_id config) peer True = Inr member" "mb_epoch member = epoch"
    "refresh_causal_state T config rs cat stored = Inr (cat', refreshed)"
    "causal_state_of config (Some refreshed) = Inr refreshed"
    "reg_known (rt_registry T) cat' (oc_share_id config) = Inr known"
    "fold_res (counter_allowed T member known (cs_ceilings refreshed)) (vv_iter (sr_version r)) () = Inr ()"
    "cs_ceilings state' = raise_all (sr_version r) (cs_ceilings refreshed)"
    "cs_audit state' = push_audit \<lparr>mp_peer = peer, mp_membership_epoch = mb_epoch member,
               mp_path = sr_path r, mp_operation = (if sr_tombstone r then ''delete'' else ''adopt''),
               mp_record_hash = logical_hash (se_hash (rg_share (rt_registry T))) r, mp_accepted_at = now\<rparr>
               (cs_audit refreshed)"
    "cs_version state' = cs_version refreshed" "cs_share state' = cs_share refreshed"
    "cs_owner_replica state' = cs_owner_replica refreshed"
  using assms that unfolding candidate_metadata_for_def accept_candidate_def Let_def
  by (auto simp: result_simps causal_state_of_Some split: prod.splits)

lemma vv_get_iter: "vv_get v q = 0 \<or> (q, vv_get v q) \<in> set (vv_iter v)"
  by (cases "fmlookup v q") (auto simp: vv_get_def get_or_def vv_iter_def in_sorted_list_of_fmap)

lemma push_audit_length: "length audit \<le> 512 \<Longrightarrow> length (push_audit e audit) \<le> 512 \<and> last (push_audit e audit) = e"
  by (cases audit) (auto simp: push_audit_def Let_def)

section \<open>Properties\<close>

text \<open>
  C25: a member cannot forge history. A record is accepted from a peer only while that peer is an
  unrevoked read-write member in the epoch of its session, and only if it advances no counter but the
  peer's own replica beyond what the owner has already seen (in its stored ceilings or in a record of
  its index); the deterministic resolver's counter may advance by at most one.
\<close>
theorem candidate_cannot_forge:
  assumes "candidate_metadata_for T config now rs peer epoch r cat stored = Inr (cat', refreshed, state')"
  shows "\<exists>member old. authorize (rt_registry T) cat (oc_share_id config) peer True = Inr member \<and>
    mb_epoch member = epoch \<and> causal_state_of config stored = Inr old \<and>
    (\<forall>q. q \<noteq> mb_replica member \<longrightarrow>
       (\<exists>seen. (seen = get_or (cs_ceilings old) q 0 \<or> (\<exists>x \<in> set rs. seen = vv_get (sr_version x) q)) \<and>
          unat (vv_get (sr_version r) q) \<le> unat seen + (if q = resolver (rt_registry T) then 1 else 0)))"
proof -
  from assms obtain member known where m: "authorize (rt_registry T) cat (oc_share_id config) peer True = Inr member"
    "mb_epoch member = epoch" "refresh_causal_state T config rs cat stored = Inr (cat', refreshed)"
    "fold_res (counter_allowed T member known (cs_ceilings refreshed)) (vv_iter (sr_version r)) () = Inr ()"
    by (rule candidate_Inr)
  from m(3) obtain old where old: "causal_state_of config stored = Inr old" and
    seen: "\<And>q. get_or (cs_ceilings refreshed) q 0 = get_or (cs_ceilings old) q 0 \<or>
       (\<exists>x \<in> set rs. get_or (cs_ceilings refreshed) q 0 = vv_get (sr_version x) q)" by (rule refresh_Inr) blast
  have "unat (vv_get (sr_version r) q) \<le> unat (get_or (cs_ceilings refreshed) q 0) +
      (if q = resolver (rt_registry T) then 1 else 0)" if "q \<noteq> mb_replica member" for q
    using vv_get_iter [of "sr_version r" q] counters_allowed(2) [OF m(4), of q "vv_get (sr_version r) q"] that
    by (auto simp: word_le_nat_alt)
  then show ?thesis
    by (intro exI [of _ member] exI [of _ old] conjI allI impI m(1,2) old,
        rule_tac x = "get_or (cs_ceilings refreshed) q 0" in exI) (simp add: seen)
qed

text \<open>
  accepting a record keeps the causal state usable: the new metadata passes the checks made when it
  is next read (version, share, at most 4096 ceilings and 512 audit entries), no ceiling decreases,
  every counter of the accepted record is covered, and the newest audit entry names the peer, its
  epoch and the record.
\<close>
theorem candidate_metadata_reusable:
  assumes "candidate_metadata_for T config now rs peer epoch r cat stored = Inr (cat', refreshed, state')"
  shows "causal_state_of config (Some state') = Inr state' \<and>
    (\<forall>q. get_or (cs_ceilings refreshed) q 0 \<le> get_or (cs_ceilings state') q 0 \<and>
         vv_get (sr_version r) q \<le> get_or (cs_ceilings state') q 0) \<and>
    mp_peer (last (cs_audit state')) = peer \<and> mp_membership_epoch (last (cs_audit state')) = epoch \<and>
    mp_record_hash (last (cs_audit state')) = logical_hash (se_hash (rg_share (rt_registry T))) r"
proof -
  from assms obtain member known where m: "mb_epoch member = epoch"
    "refresh_causal_state T config rs cat stored = Inr (cat', refreshed)"
    "causal_state_of config (Some refreshed) = Inr refreshed"
    "reg_known (rt_registry T) cat' (oc_share_id config) = Inr known"
    "fold_res (counter_allowed T member known (cs_ceilings refreshed)) (vv_iter (sr_version r)) () = Inr ()"
    "cs_ceilings state' = raise_all (sr_version r) (cs_ceilings refreshed)"
    "cs_audit state' = push_audit \<lparr>mp_peer = peer, mp_membership_epoch = mb_epoch member,
               mp_path = sr_path r, mp_operation = (if sr_tombstone r then ''delete'' else ''adopt''),
               mp_record_hash = logical_hash (se_hash (rg_share (rt_registry T))) r, mp_accepted_at = now\<rparr>
               (cs_audit refreshed)"
    "cs_version state' = cs_version refreshed" "cs_share state' = cs_share refreshed"
    "cs_owner_replica state' = cs_owner_replica refreshed"
    by (rule candidate_Inr)
  from m(2) obtain u where "remember_replicas (rt_registry T) (oc_share_id config)
      (map fst (sorted_list_of_fmap (cs_ceilings refreshed))) cat = Inr (cat', u)"
    by (rule refresh_Inr [where now = 0]) (auto simp: committed_Some)
  note known = remember_known [OF this m(4)]
  have "fmdom (cs_ceilings refreshed) |\<subseteq>| known"
    using known(1) by (auto simp: fset_of_list_elem fmlookup_dom_iff image_iff in_sorted_list_of_fmap)
  moreover have "fmdom (sr_version r) |\<subseteq>| known"
    using counters_allowed(1) [OF m(5)] by (auto simp: fmlookup_dom_iff vv_iter_def in_sorted_list_of_fmap)
  ultimately have "fmdom (cs_ceilings state') |\<subseteq>| known" by (auto simp: m(6) raise_all_merge)
  then have "map_len (cs_ceilings state') \<le> MAX_REPLICAS"
    using known(2) fcard_mono order_trans by blast
  moreover have "length (cs_audit refreshed) \<le> 512" using m(3) by (simp add: causal_state_of_Some)
  note push_audit_length [OF this]
  ultimately show ?thesis
    using m(1,3,8-10) by (simp add: causal_state_of_Some m(6,7) get_raise_all)
qed

section \<open>Instances\<close>

definition ref_runtime :: runtime_env where
  "ref_runtime = \<lparr>rt_registry = ref_registry, rt_version_len = (\<lambda>_. 0), rt_state_len = (\<lambda>_. 0)\<rparr>"

abbreviation example_ceilings :: "(replica_id, u64) fmap" where
  "example_ceilings \<equiv> fmupd (hash_fill 45) 0 (fmupd (hash_fill 4) 0 fmempty)"

definition example_state :: causal_state where
  "example_state = \<lparr>cs_version = 3, cs_share = hash_fill 1, cs_owner_replica = hash_fill 4,
     cs_ceilings = example_ceilings, cs_audit = []\<rparr>"

lemma example_config_fields [simp]:
  "oc_share_id example_config = hash_fill 1" "oc_replica example_config = hash_fill 4" "oc_owner example_config = hash_fill 9"
  by (simp_all add: example_config_def)

lemma example_remember:
  "remember_replicas ref_registry (hash_fill 1) (map fst (sorted_list_of_fmap example_ceilings)) example_catalog =
     Inr (example_catalog, ())"
proof -
  have keys: "fset_of_list (map fst (sorted_list_of_fmap example_ceilings)) = {|hash_fill 45, hash_fill 4|}"
    by (rule fset_eqI) (auto simp: fset_of_list_elem simp flip: set_map)
  have "se_known example_entry |\<union>| {|hash_fill 45, hash_fill 4|} = se_known example_entry"
    by (auto simp: example_entry_def)
  moreover have "fcard (se_known example_entry) \<le> 3"
    by (simp add: example_entry_def fcard_finsert_if fcard_fempty)
  moreover have "put_entry (hash_fill 1) (example_entry\<lparr>se_known := se_known example_entry\<rparr>) example_catalog = example_catalog"
    by (simp add: example_catalog_def put_entry_def fresh_catalog_def)
  moreover have "fmlookup (ct_shares example_catalog) (hash_fill 1) = Some example_entry"
    by (simp add: example_catalog_def put_entry_def)
  ultimately show ?thesis
    unfolding remember_replicas_def keys
    by (simp add: reg_update_def reg_read_def share_lookup_def ok_or_def ensure_def MAX_REPLICAS_def Let_def)
      (simp add: ref_registry_def)
qed

lemma example_refresh:
  "refresh_causal_state ref_runtime example_config [] example_catalog None = Inr (example_catalog, example_state)"
proof -
  have "raise_ceiling (hash_fill 45) 0 (raise_ceiling (hash_fill 4) 0 fmempty) = example_ceilings"
    by (simp add: raise_ceiling_def)
  moreover have "map_len example_ceilings \<le> MAX_REPLICAS"
    by (simp add: fcard_finsert_if fcard_fempty MAX_REPLICAS_def)
  ultimately show ?thesis
    using example_remember
    by (simp add: refresh_causal_state_def remember_ceilings_def causal_state_of_def Let_def ensure_def fcard_fempty ref_runtime_def
        resolver_ref example_state_def del: fmdom_fmupd)
qed

lemma example_candidate:
  obtains state' where "candidate_metadata_for ref_runtime example_config 150 [] (hash_fill 7) 1
    (example_record ''a'' 8 1 7) example_catalog None = Inr (example_catalog, example_state, state')"
proof -
  have "causal_state_of example_config (Some example_state) = Inr example_state"
    by (simp add: causal_state_of_Some example_state_def fcard_finsert_if fcard_fempty MAX_REPLICAS_def)
  moreover have "reg_known ref_registry example_catalog (hash_fill 1) = Inr (se_known example_entry)"
    by (simp add: reg_known_def reg_read_def ensure_def ref_registry_def share_lookup_def ok_or_def
        example_catalog_def put_entry_def)
  moreover have "fold_res (counter_allowed ref_runtime example_member (se_known example_entry) (cs_ceilings example_state))
      (vv_iter (sr_version (example_record ''a'' 8 1 7))) () = Inr ()"
    by (simp add: vv_iter_def example_record_def counter_allowed_def ensure_def example_entry_def
        example_member_def ref_runtime_def resolver_ref)
  moreover have "length (vv_iter (sr_version (example_record ''a'' 8 1 7))) = 1"
    by (simp add: vv_iter_def example_record_def fcard_finsert_if fcard_fempty)
  moreover have "mb_epoch example_member = 1" by (simp add: example_member_def)
  ultimately show ?thesis
    using example_authorized [of True] example_refresh that
    by (simp add: candidate_metadata_for_def accept_candidate_def ref_runtime_def ensure_def MAX_REPLICAS_def Let_def)
qed

theorem candidate_cannot_forge_witness:
  "\<exists>member. authorize ref_registry example_catalog (hash_fill 1) (hash_fill 7) True = Inr member \<and> mb_epoch member = 1"
proof -
  obtain state' where c: "candidate_metadata_for ref_runtime example_config 150 [] (hash_fill 7) 1
    (example_record ''a'' 8 1 7) example_catalog None = Inr (example_catalog, example_state, state')"
    by (rule example_candidate)
  from candidate_cannot_forge [OF c] show ?thesis by (auto simp: ref_runtime_def)
qed

theorem candidate_metadata_reusable_witness:
  "\<exists>state'. causal_state_of example_config (Some state') = Inr state' \<and> 1 \<le> get_or (cs_ceilings state') (hash_fill 8) 0"
proof -
  obtain state' where c: "candidate_metadata_for ref_runtime example_config 150 [] (hash_fill 7) 1
    (example_record ''a'' 8 1 7) example_catalog None = Inr (example_catalog, example_state, state')"
    by (rule example_candidate)
  have "vv_get (sr_version (example_record ''a'' 8 1 7)) (hash_fill 8) = 1" by (simp add: example_record_def)
  with candidate_metadata_reusable [OF c] show ?thesis by metis
qed

end
