(* ===== verification/Op_Machine.thy ===== *)
theory Op_Machine
  imports DW_Prelude
begin

text \<open>
  The contract of a durable component: operations that either commit a new state or leave the old one.
  The locale states what one committed operation keeps; the lemmas carry it over any sequence of
  operations. Components interpret it on their own step function.
\<close>

text \<open>A refused operation (\<open>None\<close>) leaves the state as it is.\<close>

fun run_ops :: "('op \<Rightarrow> 's \<Rightarrow> 's option) \<Rightarrow> 'op list \<Rightarrow> 's \<Rightarrow> 's" where
  "run_ops run [] s = s"
| "run_ops run (op # ops) s = run_ops run ops (case run op s of None \<Rightarrow> s | Some s' \<Rightarrow> s')"

text \<open>For evaluation: the operation first, the rest once.\<close>

lemma run_ops_Cons: "run_ops run (op # ops) s = (case run op s of None \<Rightarrow> run_ops run ops s | Some s' \<Rightarrow> run_ops run ops s')"
  by (simp split: option.split)

lemma run_ops_append: "run_ops run (xs @ ys) s = run_ops run ys (run_ops run xs s)"
  by (induction xs arbitrary: s) auto

locale op_machine =
  fixes run :: "'op \<Rightarrow> 's \<Rightarrow> 's option" and op_ok :: "'op \<Rightarrow> bool" and inv :: "'s \<Rightarrow> bool"
  assumes step_inv: "inv s \<Longrightarrow> op_ok op \<Longrightarrow> run op s = Some s' \<Longrightarrow> inv s'"
begin

lemma run_inv: "inv s \<Longrightarrow> list_all op_ok ops \<Longrightarrow> inv (run_ops run ops s)"
proof (induction ops arbitrary: s)
  case (Cons op ops)
  then have "inv (case run op s of None \<Rightarrow> s | Some s' \<Rightarrow> s')"
    by (auto intro: step_inv split: option.splits)
  with Cons show ?case by simp
qed simp

end

text \<open>Some component states only ever grow in an order.\<close>

locale monotone_machine = op_machine run op_ok inv
  for run :: "'op \<Rightarrow> 's \<Rightarrow> 's option" and op_ok :: "'op \<Rightarrow> bool" and inv :: "'s \<Rightarrow> bool" +
  fixes le :: "'s \<Rightarrow> 's \<Rightarrow> bool"
  assumes le_refl: "le s s" and le_trans: "le a b \<Longrightarrow> le b c \<Longrightarrow> le a c"
    and step_le: "inv s \<Longrightarrow> op_ok op \<Longrightarrow> run op s = Some s' \<Longrightarrow> le s s'"
begin

lemma run_le: "inv s \<Longrightarrow> list_all op_ok ops \<Longrightarrow> le s (run_ops run ops s)"
proof (induction ops arbitrary: s)
  case (Cons op ops)
  let ?s = "case run op s of None \<Rightarrow> s | Some s' \<Rightarrow> s'"
  from Cons.prems have "inv ?s" "le s ?s" by (auto intro: step_inv step_le le_refl split: option.splits)
  with Cons show ?case by (auto intro: le_trans)
qed (simp add: le_refl)

end

end
