(* ===== verification/Index_Inv.thy ===== *)
theory Index_Inv
  imports Index_Adopt Op_Machine
begin

text \<open>
  The invariant of the stored index and its preservation by every operation: rows are filed under their own
  portable path with their own collision key, publish valid sync records, and carry no counter of this
  replica above the durable one.
\<close>

section \<open>The invariant\<close>

definition row_ok :: "local_index \<Rightarrow> u64 \<Rightarrow> wire_path \<Rightarrow> path_record \<Rightarrow> bool" where
  "row_ok I counter path row \<longleftrightarrow> valid_row I path row \<and> path_ok path \<and> record_ok (to_sync_record row) \<and>
     vv_get (pr_version row) (li_replica I) \<le> counter"

definition index_inv :: "local_index \<Rightarrow> index_state \<Rightarrow> bool" where
  "index_inv I st \<longleftrightarrow> (\<forall>path row. fmlookup (ix_records st) path = Some row \<longrightarrow> row_ok I (ix_replica_counter st) path row) \<and>
     (\<forall>path retry. fmlookup (ix_retries st) path = Some retry \<longrightarrow> rr_path retry = path)"

definition empty_index :: index_state where
  "empty_index = \<lparr>ix_records = fmempty, ix_retries = fmempty, ix_generation = 0, ix_replica_counter = 0, ix_share_metadata = None\<rparr>"

lemma empty_index_inv: "index_inv I empty_index"
  by (simp add: index_inv_def empty_index_def)

lemma row_ok_mono: "row_ok I c path row \<Longrightarrow> c \<le> c' \<Longrightarrow> row_ok I c' path row"
  unfolding row_ok_def by auto

lemma index_inv_rowD: "index_inv I st \<Longrightarrow> fmlookup (ix_records st) path = Some row \<Longrightarrow> row_ok I (ix_replica_counter st) path row"
  by (simp add: index_inv_def)

section \<open>Reading the tables\<close>

lemma records_map_Inr:
  "records_map I st = Inr records \<longleftrightarrow> records = ix_records st \<and>
     (\<forall>path row. fmlookup (ix_records st) path = Some row \<longrightarrow> valid_row I path row)"
proof -
  have "fold_res (check_row I) rows () = Inr () \<longleftrightarrow> (\<forall>(path, row) \<in> set rows. valid_row I path row)" for rows
    by (induction rows) (auto simp: check_row_def valid_row_def result_simps split: prod.splits)
  from this [of "sorted_list_of_fmap (ix_records st)"] show ?thesis
    unfolding records_map_def by (fastforce simp: result_simps in_sorted_list_of_fmap)
qed

lemma retries_map_Inr:
  "retries_map st = Inr retries \<longleftrightarrow> retries = ix_retries st \<and>
     (\<forall>path retry. fmlookup (ix_retries st) path = Some retry \<longrightarrow> rr_path retry = path)"
proof -
  have "fold_res check_retry rows () = Inr () \<longleftrightarrow> (\<forall>path retry. (path, retry) \<in> set rows \<longrightarrow> rr_path retry = path)" for rows
    by (induction rows) (auto simp: check_retry_def and_then_Inr_iff ensure_Inr_iff split: prod.splits)
  from this [of "sorted_list_of_fmap (ix_retries st)"] show ?thesis
    unfolding retries_map_def and_then_Inr_iff in_sorted_list_of_fmap by auto
qed

section \<open>Committing\<close>

lemma commit_records:
  "ix_records (commit_state_with_share_metadata records retries g c meta st) = ix_records st ++\<^sub>f records"
  "ix_replica_counter (commit_state_with_share_metadata records retries g c meta st) = c"
  "ix_generation (commit_state_with_share_metadata records retries g c meta st) = g"
  by (simp_all add: commit_state_with_share_metadata_def)

lemma commit_retries:
  "ix_retries (commit_state_with_share_metadata records retries g c meta st) = retries"
  by (rule fmap_ext) (auto simp: commit_state_with_share_metadata_def intro: fmdomI dest: fmdom_notD)

lemma commit_extends:
  "fmdom (ix_records st) |\<subseteq>| fmdom records \<Longrightarrow>
   ix_records (commit_state_with_share_metadata records retries g c meta st) = records"
  by (rule fmap_ext) (auto simp: commit_records fmdom_notD)

lemma index_inv_commit:
  assumes "fmdom (ix_records st) |\<subseteq>| fmdom records"
    "\<And>path row. fmlookup records path = Some row \<Longrightarrow> row_ok I c path row"
    "\<And>path retry. fmlookup retries path = Some retry \<Longrightarrow> rr_path retry = path"
  shows "index_inv I (commit_state_with_share_metadata records retries g c meta st)"
  using assms(2,3) unfolding index_inv_def commit_extends [OF assms(1)] commit_records(2) commit_retries by blast

section \<open>Scans\<close>

definition entry_ok :: "scanned_entry \<Rightarrow> bool" where
  "entry_ok e \<longleftrightarrow> path_ok (sc_path e) \<and>
     (if sc_kind e = FileEntry then sc_content_hash e \<noteq> None else sc_content_hash e = None \<and> fp_size (sc_fingerprint e) = 0)"

lemma to_sync_kind_File [simp]: "to_sync_kind k = File \<longleftrightarrow> k = FileEntry"
  by (cases k) auto

lemma to_record_ok:
  assumes "entry_ok e" "vv_get v (li_replica I) \<le> c"
  shows "row_ok I c (sc_path e) (to_record I e v g)"
  using assms by (auto simp: row_ok_def valid_row_def to_record_def entry_ok_def record_ok_iff to_sync_record_def
      live_def SYNC_RECORD_SCHEMA_V1_def)

lemma bury_ok:
  assumes "row_ok I c0 path row" "vv_get v (li_replica I) \<le> c"
  shows "row_ok I c path (bury row v g)"
  using assms by (auto simp: row_ok_def valid_row_def bury_def record_ok_iff to_sync_record_def live_def)

lemma scan_record_ok:
  assumes "scan_record I previous (collect_current scanned) preserved uncertain preserve_all g lo hi path (Some row)"
    "\<And>path row. fmlookup previous path = Some row \<Longrightarrow> row_ok I lo path row" "lo \<le> hi" "\<forall>e \<in> set scanned. entry_ok e"
  shows "row_ok I hi path row"
proof (cases "fmlookup (collect_current scanned) path")
  case (Some e)
  have e: "sc_path e = path" "e \<in> set scanned" using current_path [OF Some] by auto
  show ?thesis
  proof (cases "entry_changed previous path e")
    case True
    then obtain v where "advanced (li_replica I) lo hi (entry_base previous (correlate_renames previous (collect_current scanned) preserved uncertain preserve_all) path) v"
      "row = to_record I e v g" using assms(1) Some by (auto simp: scan_record_def)
    with to_record_ok [of e v I hi g] e assms(4) advanced_get(2) show ?thesis by blast
  next
    case False
    then have "fmlookup previous path = Some row" using assms(1) Some by (simp add: scan_record_def)
    with assms(2,3) show ?thesis by (blast intro: row_ok_mono)
  qed
next
  case None
  then obtain r where r: "fmlookup previous path = Some r" using assms(1) by (auto simp: scan_record_def split: option.splits)
  show ?thesis
  proof (cases "vanished (collect_current scanned) preserved uncertain preserve_all path r")
    case True
    then obtain v where "advanced (li_replica I) lo hi (pr_version r) v" "row = bury r v g"
      using assms(1) None r by (auto simp: scan_record_def)
    with bury_ok [OF assms(2) [OF r]] advanced_get(2) show ?thesis by blast
  next
    case False
    then have "row = r" using assms(1) None r by (simp add: scan_record_def)
    with assms(2,3) r show ?thesis by (blast intro: row_ok_mono)
  qed
qed

lemma next_retries_keyed:
  assumes "\<And>path retry. fmlookup previous path = Some retry \<Longrightarrow> rr_path retry = path"
    "fmlookup (next_retries I previous current preserved uncertain preserve_all changes failures now) path = Some retry"
  shows "rr_path retry = path"
proof -
  let ?K = "\<lambda>m. \<forall>path retry. fmlookup m path = Some retry \<longrightarrow> rr_path retry = path"
  have settle: "?K m \<Longrightarrow> ?K (fold settle_retry changes m)" for m
  proof (induction changes arbitrary: m)
    case (Cons c changes)
    have "?K (settle_retry c m)" using Cons.prems by (cases c) auto
    from Cons.IH [OF this] show ?case by simp
  qed simp
  have fail: "?K m \<Longrightarrow> ?K (fold (add_failure now) failures m)" for m
  proof (induction failures arbitrary: m)
    case (Cons f failures)
    have "?K (add_failure now f m)" using Cons.prems by (auto simp: add_failure_def schedule_retry_def Let_def)
    from Cons.IH [OF this] show ?case by simp
  qed simp
  have "?K (fmdrop_fset (fmdom current) (fmfilter (\<lambda>path. \<not> wire_path_is_ignored I path \<and>
      (path |\<in>| fmdom current \<or> preserve_all \<or> should_preserve path preserved uncertain)) previous))"
    using assms(1) by (auto split: if_splits)
  from fail [OF settle [OF this]] assms(2) show ?thesis unfolding next_retries_def Let_def by blast
qed

lemma scan_record_dom:
  assumes "scan_record I previous current preserved uncertain preserve_all g lo hi path after"
    "path |\<in>| fmdom previous"
  shows "after \<noteq> None"
  using assms by (auto simp: scan_record_def split: option.splits if_splits)

lemma apply_scan_inv:
  assumes "apply_scan I (ix_records st) (ix_retries st) scanned preserved uncertain preserve_all failures issues hashed now st = Inr (st', rep)"
    "index_inv I st" "\<forall>e \<in> set scanned. entry_ok e"
  shows "index_inv I st' \<and> ix_replica_counter st \<le> ix_replica_counter st' \<and> ix_generation st < ix_generation st'"
proof -
  from assms(1) obtain g and ss :: scan_state where g: "checked_add (ix_generation st) 1 = Some g"
    and c: "ix_replica_counter st \<le> ss_counter ss"
    and "\<forall>path. scan_record I (ix_records st) (collect_current scanned) preserved uncertain preserve_all g
       (ix_replica_counter st) (ss_counter ss) path (fmlookup (ss_next ss) path)"
    and st': "st' = commit_state (ss_next ss) (next_retries I (ix_retries st) (collect_current scanned) preserved uncertain preserve_all
       (ss_changes ss) failures now) g (ss_counter ss) st"
    and "sp_collisions rep = collision_groups (live_values (ss_next ss))"
    by (rule apply_scan_Inr)
  then have rec: "scan_record I (ix_records st) (collect_current scanned) preserved uncertain preserve_all g
       (ix_replica_counter st) (ss_counter ss) path (fmlookup (ss_next ss) path)" for path by blast
  have dom: "fmdom (ix_records st) |\<subseteq>| fmdom (ss_next ss)"
    using scan_record_dom [OF rec] by (auto simp: fmlookup_dom_iff)
  have "index_inv I st'" unfolding st' commit_state_def
  proof (rule index_inv_commit [OF dom])
    fix path row assume "fmlookup (ss_next ss) path = Some row"
    with rec [of path] have "scan_record I (ix_records st) (collect_current scanned) preserved uncertain preserve_all g
       (ix_replica_counter st) (ss_counter ss) path (Some row)" by simp
    then show "row_ok I (ss_counter ss) path row"
      by (rule scan_record_ok) (use assms(2,3) c index_inv_rowD in auto)
  next
    fix path retry
    assume "fmlookup (next_retries I (ix_retries st) (collect_current scanned) preserved uncertain preserve_all (ss_changes ss) failures now) path = Some retry"
    then show "rr_path retry = path" by (rule next_retries_keyed [rotated]) (use assms(2) in \<open>auto simp: index_inv_def\<close>)
  qed
  moreover have "ix_generation st < g" using checked_add_Some [OF g] by (simp add: word_less_nat_alt)
  ultimately show ?thesis using c by (simp add: st' commit_state_def commit_records)
qed

section \<open>From the traversal to the entries\<close>

definition cand_ok :: "raw_entry \<Rightarrow> bool" where
  "cand_ok c \<longleftrightarrow> path_ok (re_path c) \<and> (re_kind c \<noteq> FileEntry \<longrightarrow> fp_size (re_fingerprint c) = 0)"

lemma portable_path_ok: "portable_path I local = Inr path \<Longrightarrow> path_ok path"
  unfolding portable_path_def by (auto simp: result_simps wire_path_new_Inr_iff split: option.splits if_splits)

lemma candidates_add_issue [simp]: "tv_candidates (add_issue I local kind message tv) = tv_candidates tv"
  by (simp add: add_issue_def)

lemma candidates_mark [simp]: "tv_candidates (mark_directory_uncertain I dir is_root tv) = tv_candidates tv"
  by (simp add: mark_directory_uncertain_def split: sum.splits)

lemma candidates_errors: "collect_errors I dir is_root es tv = Inr tv' \<Longrightarrow> tv_candidates tv' = tv_candidates tv"
  by (induction I dir is_root es tv rule: collect_errors.induct) (auto split: if_splits)

lemma collect_cand_ok:
  "collect_directory I dir is_root l tv = Inr tv' \<Longrightarrow> \<forall>c \<in> set (tv_candidates tv). cand_ok c \<Longrightarrow> \<forall>c \<in> set (tv_candidates tv'). cand_ok c"
  "collect_entries I dir is_root es tv = Inr tv' \<Longrightarrow> \<forall>c \<in> set (tv_candidates tv). cand_ok c \<Longrightarrow> \<forall>c \<in> set (tv_candidates tv'). cand_ok c"
  "collect_entry I dir is_root e tv = Inr tv' \<Longrightarrow> \<forall>c \<in> set (tv_candidates tv). cand_ok c \<Longrightarrow> \<forall>c \<in> set (tv_candidates tv'). cand_ok c"
proof (induction I dir is_root l tv and I dir is_root es tv and I dir is_root e tv
    arbitrary: tv' and tv' and tv' rule: collect_directory_collect_entries_collect_entry.induct)
  case (2 I dir is_root entries tv)
  then obtain tv1 where tv1: "collect_errors I dir is_root entries tv = Inr tv1" "collect_entries I dir is_root entries tv1 = Inr tv'"
    by (auto simp: result_simps)
  show ?case by (rule "2.IH" [OF tv1]) (simp add: candidates_errors [OF tv1(1)] "2.prems"(2))
next
  case (4 I dir is_root e es tv)
  then obtain tv1 where tv1: "collect_entry I dir is_root e tv = Inr tv1" "collect_entries I dir is_root es tv1 = Inr tv'"
    by (auto simp: result_simps)
  show ?case by (rule "4.IH"(2) [OF tv1 "4.IH"(1) [OF tv1(1) "4.prems"(2)]])
next
  case (7 I dir is_root name m sub tv)
  let ?kind = "entry_kind_of (md_type m)" and ?local = "dir @ [name]"
  let ?c = "\<lambda>path. \<lparr>re_local_path = ?local, re_path = path, re_kind = ?kind, re_fingerprint = metadata_fingerprint m ?kind\<rparr>"
  show ?case
  proof (cases "path_is_ignored I ?local")
    case False
    show ?thesis
    proof (cases "portable_path I ?local")
      case (Inr path)
      have ok: "\<forall>c \<in> set (tv_candidates (tv\<lparr>tv_candidates := tv_candidates tv @ [?c path]\<rparr>)). cand_ok c"
        using "7.prems"(2) portable_path_ok [OF Inr] by (auto simp: cand_ok_def metadata_fingerprint_def)
      show ?thesis
      proof (cases "?kind = DirectoryEntry")
        case True
        with "7.prems"(1) False Inr have "collect_directory I ?local False sub (tv\<lparr>tv_candidates := tv_candidates tv @ [?c path]\<rparr>) = Inr tv'"
          by (simp add: Let_def)
        from "7.IH" [OF refl False Inr refl refl True this ok] show ?thesis .
      qed (use "7.prems"(1) False Inr ok in \<open>auto simp: Let_def\<close>)
    qed (use "7.prems" False in \<open>auto simp: Let_def\<close>)
  qed (use "7.prems" in simp)
qed (auto simp: Let_def split: if_splits sum.splits)

text \<open>Every candidate ends up scanned, waiting to be hashed, or preserved; nothing preserved is dropped.\<close>

definition accounted :: "scan_plan \<Rightarrow> wire_path \<Rightarrow> bool" where
  "accounted plan p \<longleftrightarrow> p \<in> sc_path ` set (sl_scanned plan) \<or> p \<in> re_path ` set (sl_hash_candidates plan) \<or> p |\<in>| sl_preserved plan"

definition plan_ok :: "scan_plan \<Rightarrow> bool" where
  "plan_ok plan \<longleftrightarrow> (\<forall>e \<in> set (sl_scanned plan). entry_ok e) \<and>
     (\<forall>c \<in> set (sl_hash_candidates plan). cand_ok c \<and> re_kind c = FileEntry)"

lemma classify_step:
  "accounted (classify_candidate I changed now previous retries c plan) (re_path c)"
  "accounted plan p \<Longrightarrow> accounted (classify_candidate I changed now previous retries c plan) p"
  "cand_ok c \<Longrightarrow> plan_ok plan \<Longrightarrow> plan_ok (classify_candidate I changed now previous retries c plan)"
  by (auto simp: classify_candidate_def accounted_def plan_ok_def cand_ok_def entry_ok_def into_scanned_def reusable_def
      split: option.splits)

lemma classify_all:
  "accounted plan p \<or> p \<in> re_path ` set cs \<Longrightarrow> accounted (fold (classify_candidate I changed now previous retries) cs plan) p"
  by (induction cs arbitrary: plan) (auto intro: classify_step)

lemma classify_all_ok:
  "\<forall>c \<in> set cs. cand_ok c \<Longrightarrow> plan_ok plan \<Longrightarrow> plan_ok (fold (classify_candidate I changed now previous retries) cs plan)"
  by (induction cs arbitrary: plan) (auto intro: classify_step)

definition outcome_covers :: "hash_state \<Rightarrow> wire_path \<Rightarrow> bool" where
  "outcome_covers hs p \<longleftrightarrow> p \<in> sc_path ` set (hs_scanned hs) \<or> p |\<in>| hs_preserved hs"

lemma outcome_step:
  "outcome_covers (take_outcome I (c, result) hs) (re_path c)"
  "outcome_covers hs p \<Longrightarrow> outcome_covers (take_outcome I (c, result) hs) p"
  "\<forall>e \<in> set (hs_scanned hs). entry_ok e \<Longrightarrow> cand_ok c \<Longrightarrow> re_kind c = FileEntry \<Longrightarrow>
     \<forall>e \<in> set (hs_scanned (take_outcome I (c, result) hs)). entry_ok e"
  by (auto simp: take_outcome_def outcome_covers_def into_scanned_def entry_ok_def cand_ok_def split: sum.splits)

lemma outcome_all:
  "outcome_covers hs p \<or> p \<in> re_path ` set cs \<Longrightarrow> outcome_covers (fold (take_outcome I) (map (\<lambda>c. (c, hash c)) cs) hs) p"
  by (induction cs arbitrary: hs) (auto intro: outcome_step)

lemma outcome_all_ok:
  "\<forall>e \<in> set (hs_scanned hs). entry_ok e \<Longrightarrow> \<forall>c \<in> set cs. cand_ok c \<and> re_kind c = FileEntry \<Longrightarrow>
   \<forall>e \<in> set (hs_scanned (fold (take_outcome I) (map (\<lambda>c. (c, hash c)) cs) hs)). entry_ok e"
proof (induction cs arbitrary: hs)
  case (Cons c cs)
  show ?case unfolding list.map fold_simps by (rule Cons.IH) (use Cons.prems outcome_step(3) [of hs c] in auto)
qed simp

text \<open>What \<open>scan_internal\<close> hands to \<open>apply_scan\<close>.\<close>

lemma scan_internal_Inr:
  assumes "scan_internal I changed now root_listing hash st = Inr (st', rep)"
  obtains tv scanned preserved failures issues hashed where
    "collect_directory I (li_root I) True root_listing (empty_traversal\<lparr>tv_uncertain_prefixes := ignored_prefixes I\<rparr>) = Inr tv"
    "apply_scan I (ix_records st) (ix_retries st) scanned preserved (tv_uncertain_prefixes tv) (tv_preserve_all_missing tv)
       failures issues hashed now st = Inr (st', rep)"
    "\<forall>e \<in> set scanned. entry_ok e"
    "\<forall>p. p \<in> re_path ` set (tv_candidates tv) \<or> p |\<in>| tv_uncertain_paths tv \<longrightarrow> p \<in> sc_path ` set scanned \<or> p |\<in>| preserved"
proof -
  from assms obtain tv where tv: "collect_directory I (li_root I) True root_listing (empty_traversal\<lparr>tv_uncertain_prefixes := ignored_prefixes I\<rparr>) = Inr tv"
    unfolding scan_internal_def by (auto simp: and_then_Inr_iff)
  define plan where "plan = fold (classify_candidate I changed now (ix_records st) (ix_retries st)) (tv_candidates tv)
    \<lparr>sl_scanned = [], sl_hash_candidates = [], sl_preserved = tv_uncertain_paths tv, sl_issues = tv_issues tv\<rparr>"
  define hs where "hs = fold (take_outcome I) (hash_files hash (sl_hash_candidates plan))
    \<lparr>hs_scanned = sl_scanned plan, hs_preserved = sl_preserved plan, hs_issues = sl_issues plan, hs_failures = [], hs_files_hashed = 0\<rparr>"
  have run: "apply_scan I (ix_records st) (ix_retries st) (hs_scanned hs) (hs_preserved hs) (tv_uncertain_prefixes tv)
      (tv_preserve_all_missing tv) (hs_failures hs) (hs_issues hs) (hs_files_hashed hs) now st = Inr (st', rep)"
    using assms tv unfolding scan_internal_def plan_def hs_def Let_def
    by (auto simp: and_then_Inr_iff records_map_Inr retries_map_Inr)
  have "\<forall>c \<in> set (tv_candidates tv). cand_ok c"
    by (rule collect_cand_ok(1) [OF tv]) (simp add: empty_traversal_def)
  then have plan: "plan_ok plan" unfolding plan_def by (rule classify_all_ok) (simp add: plan_ok_def)
  have ok: "\<forall>e \<in> set (hs_scanned hs). entry_ok e"
    unfolding hs_def hash_files_def by (rule outcome_all_ok) (use plan in \<open>auto simp: plan_ok_def\<close>)
  have "outcome_covers hs p" if "p \<in> re_path ` set (tv_candidates tv) \<or> p |\<in>| tv_uncertain_paths tv" for p
  proof -
    have "accounted plan p" unfolding plan_def by (rule classify_all) (use that in \<open>auto simp: accounted_def\<close>)
    then show ?thesis unfolding hs_def hash_files_def
      by (intro outcome_all) (auto simp: accounted_def outcome_covers_def)
  qed
  with that [OF tv run ok] show ?thesis by (simp add: outcome_covers_def)
qed

lemma scan_internal_inv:
  assumes "scan_internal I changed now root_listing hash st = Inr (st', rep)" "index_inv I st"
  shows "index_inv I st' \<and> ix_replica_counter st \<le> ix_replica_counter st' \<and> ix_generation st < ix_generation st'"
  using assms(1) by (rule scan_internal_Inr) (rule apply_scan_inv [OF _ assms(2)])

section \<open>Adoption\<close>

lemma from_sync_kind_inverse [simp]: "to_sync_kind (from_sync_kind k) = k"
  by (cases k) auto

lemma from_sync_kind_File [simp]: "from_sync_kind k = FileEntry \<longleftrightarrow> k = File"
  by (cases k) auto

lemma tombstone_row_sync:
  "record_ok r \<Longrightarrow> sr_tombstone r \<Longrightarrow> (\<forall>row. existing = Some row \<longrightarrow> pr_path row = sr_path r) \<Longrightarrow>
   to_sync_record (tombstone_row I r existing g) = r"
  by (cases r) (auto simp: tombstone_row_def to_sync_record_def record_ok_iff SYNC_RECORD_SCHEMA_V1_def Let_def split: option.splits)

lemma adopted_hash_Inr:
  assumes "adopted_hash E D path r obs kind fp = Inr h" "record_ok r" "\<not> sr_tombstone r" "kind = from_sync_kind (sr_kind r)"
    "kind \<noteq> FileEntry \<longrightarrow> fp_size fp = 0"
  shows "h = sr_content_hash r" "fp_size fp = sr_size r"
  using assms unfolding adopted_hash_def
  by (auto simp: result_simps record_ok_iff live_def observation_trusts_no_rehash_def split: if_splits option.splits)

lemma live_row_sync:
  "record_ok r \<Longrightarrow> \<not> sr_tombstone r \<Longrightarrow> fp_size fp = sr_size r \<Longrightarrow> fp_readonly fp = sr_readonly r \<Longrightarrow>
   to_sync_record (live_row I r (from_sync_kind (sr_kind r)) fp (sr_content_hash r) g) = r"
  by (cases r) (simp add: live_row_def to_sync_record_def record_ok_iff SYNC_RECORD_SCHEMA_V1_def)

text \<open>A record that verifies is stored so that it is published exactly as it was received.\<close>

lemma verify_adopted_Inr:
  assumes "verify_adopted_record I E D r obs records g = Inr row" "record_ok r"
    "\<And>row. fmlookup records (sr_path r) = Some row \<Longrightarrow> valid_row I (sr_path r) row"
  shows "to_sync_record row = r" "valid_row I (sr_path r) row" "pr_version row = sr_version r" "pr_generation row = g"
proof -
  have "to_sync_record row = r \<and> valid_row I (sr_path r) row \<and> pr_version row = sr_version r \<and> pr_generation row = g"
  proof (cases "sr_tombstone r")
    case True
    then have row: "row = tombstone_row I r (fmlookup records (sr_path r)) g"
      using assms(1) by (auto simp: verify_adopted_record_def result_simps)
    have "to_sync_record row = r" unfolding row
      by (rule tombstone_row_sync) (use assms True in \<open>auto simp: valid_row_def\<close>)
    moreover have "valid_row I (sr_path r) row"
      using assms(3) unfolding row by (cases "fmlookup records (sr_path r)") (auto simp: tombstone_row_def valid_row_def Let_def)
    ultimately show ?thesis unfolding row by (simp add: tombstone_row_def Let_def)
  next
    case False
    then obtain m h where m: "entry_kind_of (md_type m) = from_sync_kind (sr_kind r)"
      "fp_readonly (metadata_fingerprint m (entry_kind_of (md_type m))) = sr_readonly r"
      "adopted_hash E D (local_path I (sr_path r)) r obs (entry_kind_of (md_type m)) (metadata_fingerprint m (entry_kind_of (md_type m))) = Inr h"
      "row = live_row I r (entry_kind_of (md_type m)) (metadata_fingerprint m (entry_kind_of (md_type m))) h g"
      using assms(1) by (auto simp: verify_adopted_record_def result_simps Let_def split: stat_result.splits)
    note h = adopted_hash_Inr [OF m(3) assms(2) False m(1)]
    have "to_sync_record row = r" unfolding m(4)
      using live_row_sync [OF assms(2) False] h m(1,2) by (simp add: metadata_fingerprint_def)
    then show ?thesis unfolding m(4) by (simp add: live_row_def valid_row_def)
  qed
  then show "to_sync_record row = r" "valid_row I (sr_path r) row" "pr_version row = sr_version r" "pr_generation row = g" by auto
qed

lemma commit_adopted_Inr:
  assumes "commit_adopted_record I E D r obs meta st = Inr st'" "record_ok r"
  obtains row g where "checked_add (ix_generation st) 1 = Some g" "to_sync_record row = r" "valid_row I (sr_path r) row"
    "pr_version row = sr_version r" "ix_records st' = fmupd (sr_path r) row (ix_records st)"
    "ix_retries st' = fmdrop (sr_path r) (ix_retries st)" "ix_generation st' = g"
    "ix_replica_counter st' = max (ix_replica_counter st) (vv_get (sr_version r) (li_replica I))"
    "ix_share_metadata st' = (case meta of None \<Rightarrow> ix_share_metadata st | Some m \<Rightarrow> Some m)"
proof -
  from assms(1) obtain g row where g: "checked_add (ix_generation st) 1 = Some g"
    and rows: "\<forall>path row. fmlookup (ix_records st) path = Some row \<longrightarrow> valid_row I path row"
    and v: "verify_adopted_record I E D r obs (ix_records st) g = Inr row"
    and st': "st' = commit_state_with_share_metadata (fmupd (sr_path r) row (ix_records st)) (fmdrop (sr_path r) (ix_retries st)) g
      (max (ix_replica_counter st) (vv_get (sr_version r) (li_replica I))) meta st"
    unfolding commit_adopted_record_def by (auto simp: and_then_Inr_iff ok_or_Inr_iff records_map_Inr retries_map_Inr)
  have dom: "fmdom (ix_records st) |\<subseteq>| fmdom (fmupd (sr_path r) row (ix_records st))" by auto
  note ok = verify_adopted_Inr [OF v assms(2)]
  show ?thesis
  proof (rule that [OF g])
    show "to_sync_record row = r" "valid_row I (sr_path r) row" "pr_version row = sr_version r" using ok rows by auto
    show "ix_records st' = fmupd (sr_path r) row (ix_records st)" unfolding st' by (rule commit_extends [OF dom])
    show "ix_retries st' = fmdrop (sr_path r) (ix_retries st)" unfolding st' by (rule commit_retries)
  qed (simp_all add: st' commit_state_with_share_metadata_def)
qed

lemma commit_adopted_inv:
  assumes "commit_adopted_record I E D r obs meta st = Inr st'" "record_ok r" "path_ok (sr_path r)" "index_inv I st"
  shows "index_inv I st' \<and> ix_replica_counter st \<le> ix_replica_counter st' \<and> ix_generation st < ix_generation st'"
proof -
  from assms(1,2) obtain row g where c: "checked_add (ix_generation st) 1 = Some g" "to_sync_record row = r" "valid_row I (sr_path r) row"
    "pr_version row = sr_version r" "ix_records st' = fmupd (sr_path r) row (ix_records st)"
    "ix_retries st' = fmdrop (sr_path r) (ix_retries st)" "ix_generation st' = g"
    "ix_replica_counter st' = max (ix_replica_counter st) (vv_get (sr_version r) (li_replica I))"
    "ix_share_metadata st' = (case meta of None \<Rightarrow> ix_share_metadata st | Some m \<Rightarrow> Some m)"
    by (rule commit_adopted_Inr)
  have new: "row_ok I (ix_replica_counter st') (sr_path r) row"
    using c assms(2,3) by (simp add: row_ok_def)
  have "row_ok I (ix_replica_counter st') path row'" if "fmlookup (ix_records st') path = Some row'" for path row'
  proof (cases "path = sr_path r")
    case True
    with that new c(5) show ?thesis by simp
  next
    case False
    with that c(5) have "fmlookup (ix_records st) path = Some row'" by simp
    from index_inv_rowD [OF assms(4) this] show ?thesis by (rule row_ok_mono) (simp add: c(8))
  qed
  moreover have "rr_path retry = path" if "fmlookup (ix_retries st') path = Some retry" for path retry
    using that assms(4) c(6) by (auto simp: index_inv_def split: if_splits)
  moreover have "ix_generation st < g" using checked_add_Some [OF c(1)] by (simp add: word_less_nat_alt)
  ultimately show ?thesis using c(7,8) by (simp add: index_inv_def)
qed

lemma check_record_Inr: "check_record r = Inr () \<longleftrightarrow> record_ok r"
  by (auto simp: check_record_def record_ok_def map_err_Inr_iff)

end
