(* ===== verification/Index_Auth.thy ===== *)
theory Index_Auth
  imports Index_Inv
begin

text \<open>
  Authoritative snapshots: what the admission loops establish about a snapshot, and the state that replaces
  the whole index.
\<close>

section \<open>The admission loops\<close>

lemma add_name_Inr:
  assumes "add_name I s names = Inr names'"
  shows "path_ok s" "fmlookup names' (collision_key I s) = Some s"
    "fmlookup names k = Some p \<Longrightarrow> fmlookup names' k = Some p"
  using assms unfolding add_name_def
  by (auto simp: result_simps wire_path_new_Inr_iff split: option.splits if_splits)

lemma add_names_Inr:
  assumes "fold_res (add_name I) ss names = Inr names'"
  shows "(\<forall>s \<in> set ss. path_ok s \<and> fmlookup names' (collision_key I s) = Some s) \<and>
    (\<forall>k p. fmlookup names k = Some p \<longrightarrow> fmlookup names' k = Some p)"
  using assms
proof (induction ss arbitrary: names)
  case (Cons s ss)
  then obtain n1 where n1: "add_name I s names = Inr n1" "fold_res (add_name I) ss n1 = Inr names'"
    by (auto simp: and_then_Inr_iff)
  with Cons.IH [OF n1(2)] add_name_Inr [OF n1(1)] show ?case by auto
qed simp

lemma ancestors_of_self: "path \<in> set (ancestors_of path (length (components path) + 1))"
proof -
  have "0 < length (components path)" by simp
  then have "length (components path) \<in> {1..<length (components path) + 1}" by (simp add: Suc_le_eq)
  moreover have "join_with ''/'' (take (length (components path)) (components path)) = path" by simp
  ultimately show ?thesis unfolding ancestors_of_def set_map set_upt by (metis imageI)
qed

lemma admit_Inr:
  assumes "admit_authoritative I r (by_path, names) = Inr (by_path', names')"
  shows "record_ok r" "fmlookup by_path (sr_path r) = None" "by_path' = fmupd (sr_path r) r by_path"
    "\<And>k p. fmlookup names k = Some p \<Longrightarrow> fmlookup names' k = Some p"
    "\<not> sr_tombstone r \<Longrightarrow> (sr_kind r = File \<or> sr_kind r = Directory) \<and> path_ok (sr_path r) \<and>
       (\<forall>s \<in> set (ancestors_of (sr_path r) (length (components (sr_path r)) + 1)). fmlookup names' (collision_key I s) = Some s)"
proof -
  from assms show 1: "record_ok r" "fmlookup by_path (sr_path r) = None" "by_path' = fmupd (sr_path r) r by_path"
    unfolding admit_authoritative_def by (auto simp: result_simps check_record_Inr Let_def split: if_splits)
  show "fmlookup names' k = Some p" if "fmlookup names k = Some p" for k p
  proof (cases "sr_tombstone r")
    case True
    with assms that show ?thesis unfolding admit_authoritative_def by (auto simp: result_simps Let_def)
  next
    case False
    with assms have "fold_res (add_name I) (ancestors_of (sr_path r) (length (components (sr_path r)) + 1)) names = Inr names'"
      unfolding admit_authoritative_def by (auto simp: and_then_Inr_iff Let_def)
    from add_names_Inr [OF this] that show ?thesis by blast
  qed
  show "(sr_kind r = File \<or> sr_kind r = Directory) \<and> path_ok (sr_path r) \<and>
       (\<forall>s \<in> set (ancestors_of (sr_path r) (length (components (sr_path r)) + 1)). fmlookup names' (collision_key I s) = Some s)"
    if live: "\<not> sr_tombstone r"
  proof -
    from assms live have k: "sr_kind r = File \<or> sr_kind r = Directory"
      and f: "fold_res (add_name I) (ancestors_of (sr_path r) (length (components (sr_path r)) + 1)) names = Inr names'"
      unfolding admit_authoritative_def by (auto simp: and_then_Inr_iff ensure_Inr_iff Let_def)
    from add_names_Inr [OF f] ancestors_of_self [of "sr_path r"] k show ?thesis by blast
  qed
qed

definition admitted :: "local_index \<Rightarrow> sync_record list \<Rightarrow> (string, wire_path) fmap \<Rightarrow> bool" where
  "admitted I snapshot names \<longleftrightarrow> (\<forall>r \<in> set snapshot. record_ok r \<and> (\<not> sr_tombstone r \<longrightarrow>
     (sr_kind r = File \<or> sr_kind r = Directory) \<and> path_ok (sr_path r) \<and>
     (\<forall>s \<in> set (ancestors_of (sr_path r) (length (components (sr_path r)) + 1)). fmlookup names (collision_key I s) = Some s)))"

lemma admit_all:
  assumes "fold_res (admit_authoritative I) snapshot (by_path, names) = Inr (by_path', names')"
  shows "distinct (map sr_path snapshot) \<and> (\<forall>r \<in> set snapshot. fmlookup by_path (sr_path r) = None) \<and> admitted I snapshot names' \<and>
    (\<forall>k p. fmlookup names k = Some p \<longrightarrow> fmlookup names' k = Some p) \<and>
    (\<forall>p r. fmlookup by_path' p = Some r \<longleftrightarrow> fmlookup by_path p = Some r \<or> r \<in> set snapshot \<and> sr_path r = p)"
  using assms
proof (induction snapshot arbitrary: by_path names)
  case (Cons r snapshot)
  then obtain b1 n1 where step: "admit_authoritative I r (by_path, names) = Inr (b1, n1)"
    "fold_res (admit_authoritative I) snapshot (b1, n1) = Inr (by_path', names')"
    by (auto simp: and_then_Inr_iff)
  note a = admit_Inr [OF step(1)] and ih = Cons.IH [OF step(2)]
  have new: "\<forall>s \<in> set snapshot. sr_path s \<noteq> sr_path r \<and> fmlookup by_path (sr_path s) = None"
    using ih a(3) by (auto split: if_splits)
  then have "distinct (map sr_path (r # snapshot))" using ih by auto
  moreover have "admitted I (r # snapshot) names'"
    using ih a(1,5) unfolding admitted_def by (auto simp del: One_nat_def)
  moreover have "fmlookup by_path' p = Some s \<longleftrightarrow> fmlookup by_path p = Some s \<or> s \<in> set (r # snapshot) \<and> sr_path s = p" for p s
  proof (cases "p = sr_path r")
    case True
    then show ?thesis using ih a(2,3) new by auto
  next
    case False
    then show ?thesis using ih a(3) by auto
  qed
  ultimately show ?case using a(2,4) ih new by (auto simp del: One_nat_def)
qed (simp add: admitted_def)

lemma check_ancestors_all:
  assumes "fold_res (check_ancestors by_path) rs () = Inr ()" "r \<in> set rs" "0 < n" "n < length (components (sr_path r))"
  shows "\<exists>d. fmlookup by_path (join_with ''/'' (take n (components (sr_path r)))) = Some d \<and> \<not> sr_tombstone d \<and> sr_kind d = Directory"
proof -
  have one: "check_ancestors by_path r () = Inr ()"
    using assms(1,2) by (induction rs) (auto simp: and_then_Inr_iff)
  have each: "fold_res (check_parent by_path) ss () = Inr () \<Longrightarrow> s \<in> set ss \<Longrightarrow> check_parent by_path s () = Inr ()" for ss s
    by (induction ss) (auto simp: and_then_Inr_iff)
  have "join_with ''/'' (take n (components (sr_path r))) \<in> set (ancestors_of (sr_path r) (length (components (sr_path r))))"
    using assms(3,4) by (auto simp: ancestors_of_def)
  from each [OF one [unfolded check_ancestors_def] this] show ?thesis
    by (auto simp: check_parent_def result_simps wire_path_new_Inr_iff split: option.splits)
qed

section \<open>The adopted rows\<close>

lemma adopt_rows:
  assumes "fold_res (adopt_row I E D previous g) snapshot (adopted, c) = Inr (adopted', c')" "distinct (map sr_path snapshot)"
    "\<forall>r \<in> set snapshot. record_ok r" "\<forall>path row. fmlookup previous path = Some row \<longrightarrow> valid_row I path row"
  shows "c \<le> c' \<and> (\<forall>r \<in> set snapshot. vv_get (sr_version r) (li_replica I) \<le> c' \<and>
      (\<exists>row. fmlookup adopted' (sr_path r) = Some row \<and> to_sync_record row = r \<and> valid_row I (sr_path r) row)) \<and>
    (\<forall>p. p \<notin> sr_path ` set snapshot \<longrightarrow> fmlookup adopted' p = fmlookup adopted p)"
  using assms(1-3)
proof (induction snapshot arbitrary: adopted c)
  case (Cons r snapshot)
  from Cons.prems(1) obtain acc where acc: "adopt_row I E D previous g r (adopted, c) = Inr acc"
    and rest0: "fold_res (adopt_row I E D previous g) snapshot acc = Inr (adopted', c')" by (auto simp: and_then_Inr_iff)
  then obtain row where v: "verify_adopted_record I E D r None previous g = Inr row"
    and a: "acc = (fmupd (sr_path r) row adopted, max c (vv_get (sr_version r) (li_replica I)))"
    by (auto simp: adopt_row_def and_then_Inr_iff)
  note rest = rest0 [unfolded a]
  have row: "to_sync_record row = r" "valid_row I (sr_path r) row"
    using verify_adopted_Inr(1,2) [OF v] Cons.prems(3) assms(4) by auto
  have d: "distinct (map sr_path snapshot)" "sr_path r \<notin> sr_path ` set snapshot" using Cons.prems(2) by auto
  from Cons.IH [OF rest d(1)] Cons.prems(3) have ih: "max c (vv_get (sr_version r) (li_replica I)) \<le> c'"
    "\<forall>r \<in> set snapshot. vv_get (sr_version r) (li_replica I) \<le> c' \<and>
      (\<exists>row. fmlookup adopted' (sr_path r) = Some row \<and> to_sync_record row = r \<and> valid_row I (sr_path r) row)"
    "\<forall>p. p \<notin> sr_path ` set snapshot \<longrightarrow> fmlookup adopted' p = fmlookup (fmupd (sr_path r) row adopted) p" by auto
  have "fmlookup adopted' (sr_path r) = Some row" using ih(3) d(2) by simp
  then show ?case using ih row by auto
qed simp

lemma pr_path_sync: "to_sync_record row = r \<Longrightarrow> pr_path row = sr_path r \<and> pr_version row = sr_version r \<and> pr_tombstone row = sr_tombstone r"
  by (auto simp: to_sync_record_def)

lemma authoritative_Inr:
  assumes "adopt_authoritative_snapshot I E D root_listing snapshot metadata st = Inr st'"
  obtains tv names by_path where "distinct (map sr_path snapshot)" "admitted I snapshot names"
    "\<forall>p r. fmlookup by_path p = Some r \<longleftrightarrow> r \<in> set snapshot \<and> sr_path r = p"
    "fold_res (check_ancestors by_path) (filter (\<lambda>r. \<not> sr_tombstone r) snapshot) () = Inr ()"
    "collect_directory I (li_root I) True root_listing empty_traversal = Inr tv"
    "tv_issues tv = []" "re_path ` set (tv_candidates tv) = sr_path ` {r \<in> set snapshot. \<not> sr_tombstone r}"
    "\<forall>r \<in> set snapshot. \<exists>row. fmlookup (ix_records st') (sr_path r) = Some row \<and> to_sync_record row = r \<and> valid_row I (sr_path r) row"
    "\<forall>p. p \<notin> sr_path ` set snapshot \<longrightarrow> fmlookup (ix_records st') p = None"
    "\<forall>r \<in> set snapshot. vv_get (sr_version r) (li_replica I) \<le> ix_replica_counter st'"
    "ix_replica_counter st \<le> ix_replica_counter st'" "ix_retries st' = fmempty" "ix_share_metadata st' = Some metadata"
    "checked_add (ix_generation st) 1 = Some (ix_generation st')"
proof -
  from assms obtain by_path names g adopted counter tv where
    adm: "fold_res (admit_authoritative I) snapshot (fmempty, fmempty) = Inr (by_path, names)"
    and anc: "fold_res (check_ancestors by_path) (filter (\<lambda>r. \<not> sr_tombstone r) snapshot) () = Inr ()"
    and g: "checked_add (ix_generation st) 1 = Some g"
    and rows: "\<forall>path row. fmlookup (ix_records st) path = Some row \<longrightarrow> valid_row I path row"
    and ad: "fold_res (adopt_row I E D (ix_records st) g) snapshot (fmempty, ix_replica_counter st) = Inr (adopted, counter)"
    and tv: "collect_directory I (li_root I) True root_listing empty_traversal = Inr tv" "tv_issues tv = []"
    and same: "fset_of_list (map re_path (tv_candidates tv)) = fset_of_list (map sr_path (filter (\<lambda>r. \<not> sr_tombstone r) snapshot))"
    and st': "st' = \<lparr>ix_records = adopted, ix_retries = fmempty, ix_generation = g, ix_replica_counter = counter, ix_share_metadata = Some metadata\<rparr>"
    unfolding adopt_authoritative_snapshot_def
    by (auto simp: and_then_Inr_iff ensure_Inr_iff ok_or_Inr_iff records_map_Inr split: prod.splits)
  from admit_all [OF adm] have a: "distinct (map sr_path snapshot)" "admitted I snapshot names"
    "\<forall>p r. fmlookup by_path p = Some r \<longleftrightarrow> r \<in> set snapshot \<and> sr_path r = p" by auto
  then have ok: "\<forall>r \<in> set snapshot. record_ok r" by (simp add: admitted_def)
  note r = adopt_rows [OF ad a(1) ok rows]
  from same have eq: "re_path ` set (tv_candidates tv) = sr_path ` {r \<in> set snapshot. \<not> sr_tombstone r}"
    by (metis (no_types) fset_of_list.rep_eq set_map set_filter)
  show ?thesis by (rule that [OF a anc tv eq]) (use r g in \<open>simp_all add: st'\<close>)
qed

lemma authoritative_inv:
  assumes "adopt_authoritative_snapshot I E D root_listing snapshot metadata st = Inr st'" "\<forall>r \<in> set snapshot. path_ok (sr_path r)"
  shows "index_inv I st' \<and> ix_replica_counter st \<le> ix_replica_counter st' \<and> ix_generation st < ix_generation st'"
  using assms(1)
proof (rule authoritative_Inr)
  fix names
  assume ok: "admitted I snapshot names" and g: "checked_add (ix_generation st) 1 = Some (ix_generation st')"
    and rows: "\<forall>r \<in> set snapshot. \<exists>row. fmlookup (ix_records st') (sr_path r) = Some row \<and> to_sync_record row = r \<and> valid_row I (sr_path r) row"
    and none: "\<forall>p. p \<notin> sr_path ` set snapshot \<longrightarrow> fmlookup (ix_records st') p = None"
    and c: "\<forall>r \<in> set snapshot. vv_get (sr_version r) (li_replica I) \<le> ix_replica_counter st'"
    and le: "ix_replica_counter st \<le> ix_replica_counter st'" and ret: "ix_retries st' = fmempty"
  have "row_ok I (ix_replica_counter st') p row" if l: "fmlookup (ix_records st') p = Some row" for p row
  proof -
    from l none obtain r where r: "r \<in> set snapshot" "sr_path r = p" by (metis imageE option.distinct(1))
    with rows l have "to_sync_record row = r" "valid_row I p row" by auto
    with r ok c assms(2) pr_path_sync [of row r] show ?thesis by (auto simp: row_ok_def admitted_def)
  qed
  moreover have "ix_generation st < ix_generation st'" using checked_add_Some [OF g] by (simp add: word_less_nat_alt)
  ultimately show ?thesis using le ret by (simp add: index_inv_def)
qed

end
