(* ===== verification/Index_Props.thy ===== *)
theory Index_Props
  imports Index_Auth
begin

text \<open>
  The properties of the local index: what a scan may delete and what it records, the invariant over every
  sequence of committed operations, exact adoption of peer records and authoritative snapshots, and the
  retry schedule.
\<close>

section \<open>The index as a machine\<close>

datatype index_op =
    ScanOp "string list list option" u64 listing "raw_entry \<Rightarrow> file_hash_failure + hash32"
  | AdoptVerified disk sync_record "u8 list option"
  | AdoptMaterialized disk sync_record observation "u8 list option"
  | AdoptFile disk wire_path observation
  | AdoptSnapshot disk listing "sync_record list" "u8 list"
  | SetMetadata "u8 list"

definition committed :: "'e + 's \<Rightarrow> 's option" where
  "committed r = (case r of Inl _ \<Rightarrow> None | Inr s \<Rightarrow> Some s)"

lemma committed_Some_iff: "committed r = Some s \<longleftrightarrow> r = Inr s"
  by (cases r) (simp_all add: committed_def)

fun run_index :: "local_index \<Rightarrow> externs \<Rightarrow> index_op \<Rightarrow> index_state \<Rightarrow> index_state option" where
  "run_index I E (ScanOp changed now root_listing hash) st = map_option fst (committed (scan_internal I changed now root_listing hash st))"
| "run_index I E (AdoptVerified D r None) st = committed (adopt_verified_record I E D r st)"
| "run_index I E (AdoptVerified D r (Some meta)) st = committed (adopt_verified_record_with_share_metadata I E D r meta st)"
| "run_index I E (AdoptMaterialized D r ob None) st = committed (adopt_materialized_record I E D r ob st)"
| "run_index I E (AdoptMaterialized D r ob (Some meta)) st =
     committed (adopt_materialized_record_with_share_metadata I E D r ob meta st)"
| "run_index I E (AdoptFile D path ob) st = committed (adopt_materialized_file I E D path ob st)"
| "run_index I E (AdoptSnapshot D root_listing snapshot meta) st =
     committed (adopt_authoritative_snapshot I E D root_listing snapshot meta st)"
| "run_index I E (SetMetadata meta) st = committed (set_share_metadata meta st)"

text \<open>Paths handed to the index are wire paths.\<close>

fun op_paths_ok :: "index_op \<Rightarrow> bool" where
  "op_paths_ok (AdoptVerified D r meta) = path_ok (sr_path r)"
| "op_paths_ok (AdoptMaterialized D r ob meta) = path_ok (sr_path r)"
| "op_paths_ok (AdoptFile D path ob) = path_ok path"
| "op_paths_ok (AdoptSnapshot D root_listing snapshot meta) = (\<forall>r \<in> set snapshot. path_ok (sr_path r))"
| "op_paths_ok _ = True"

definition index_le :: "index_state \<Rightarrow> index_state \<Rightarrow> bool" where
  "index_le a b \<longleftrightarrow> ix_replica_counter a \<le> ix_replica_counter b \<and> ix_generation a \<le> ix_generation b"

lemma index_step:
  assumes "index_inv I st" "op_paths_ok op" "run_index I E op st = Some st'"
  shows "index_inv I st' \<and> index_le st st'"
proof -
  have remote: "index_inv I st' \<and> index_le st st'"
    if "commit_remote_record I E D r obs meta st = Inr st'" "record_ok r" "path_ok (sr_path r)" for D r obs meta
  proof -
    from that(1) have "commit_adopted_record I E D r obs meta st = Inr st'" by (auto simp: commit_remote_record_def and_then_Inr_iff)
    from commit_adopted_inv [OF this that(2,3) assms(1)] show ?thesis by (auto simp: index_le_def)
  qed
  show ?thesis
  proof (cases op)
    case (ScanOp changed now root_listing hash)
    with assms(3) obtain rep where "scan_internal I changed now root_listing hash st = Inr (st', rep)"
      by (auto simp: committed_Some_iff)
    from scan_internal_inv [OF this assms(1)] show ?thesis by (auto simp: index_le_def)
  next
    case (AdoptVerified D r meta)
    with assms(2,3) show ?thesis
      by (cases meta) (auto simp: committed_Some_iff adopt_verified_record_def adopt_verified_record_with_share_metadata_def
          and_then_Inr_iff check_record_Inr dest: remote)
  next
    case (AdoptMaterialized D r ob meta)
    with assms(2,3) show ?thesis
      by (cases meta) (auto simp: committed_Some_iff adopt_materialized_record_def adopt_materialized_record_with_share_metadata_def
          and_then_Inr_iff check_record_Inr dest: remote)
  next
    case (AdoptFile D path ob)
    with assms(3) obtain v where "commit_adopted_record I E D \<lparr>sr_schema_version = SYNC_RECORD_SCHEMA_V1, sr_path = path, sr_kind = File,
            sr_size = ob_size ob, sr_content_hash = Some (ob_file_hash ob), sr_readonly = ob_readonly ob,
            sr_version = v, sr_tombstone = False\<rparr> (Some ob) None st = Inr st'"
      by (auto simp: committed_Some_iff adopt_materialized_file_def Let_def and_then_Inr_iff)
    from commit_adopted_inv [OF this _ _ assms(1)] assms(2) AdoptFile show ?thesis
      by (auto simp: index_le_def record_ok_iff SYNC_RECORD_SCHEMA_V1_def)
  next
    case (AdoptSnapshot D root_listing snapshot meta)
    with assms(2,3) authoritative_inv show ?thesis by (fastforce simp: committed_Some_iff index_le_def)
  next
    case (SetMetadata meta)
    with assms(1,3) show ?thesis
      by (auto simp: committed_Some_iff set_share_metadata_def and_then_Inr_iff index_inv_def index_le_def)
  qed
qed

interpretation index: monotone_machine "run_index I E" op_paths_ok "index_inv I" index_le
  for I E
  using index_step by unfold_locales (auto simp: index_le_def)

section \<open>A small index\<close>

definition example_li :: local_index where
  "example_li = \<lparr>li_root = [''srv''], li_ignored_paths = [], li_replica = hash_fill 1, li_fold_component = id,
     li_display = join_with ''/'', li_debug = id\<rparr>"

definition example_externs :: externs where
  "example_externs = ref_hex (\<lambda>_. hash_fill 1) (\<lambda>_ _. hash_fill 2)"

definition example_row :: "wire_path \<Rightarrow> version_vector \<Rightarrow> bool \<Rightarrow> path_record" where
  "example_row path v dead = \<lparr>pr_schema_version = 1, pr_path = path, pr_collision_key = path, pr_kind = FileEntry,
     pr_identity = Some \<lparr>fi_namespace = 1, fi_object = 7\<rparr>, pr_size = 3, pr_modified_ns = Some 5, pr_readonly = False,
     pr_content_hash = Some (hash_fill 4), pr_version = v, pr_tombstone = dead, pr_generation = 1\<rparr>"

definition example_index :: index_state where
  "example_index = \<lparr>ix_records = fmupd ''a'' (example_row ''a'' (fmupd (hash_fill 1) 1 fmempty) False) fmempty,
     ix_retries = fmempty, ix_generation = 1, ix_replica_counter = 1, ix_share_metadata = None\<rparr>"

lemma example_components: "components ''a'' = [''a'']"
  by (simp add: components_def)

lemma wire_ok_a: "wire_ok ''a''"
proof -
  have "wire_path_new ''a'' = Inr ''a''" by code_simp
  then show ?thesis by (simp add: wire_ok_def wire_path_new_Inr_iff example_components byte_of_def)
qed

lemma example_scan:
  "\<exists>st' rep. scan_internal example_li None 9 (Listing []) (\<lambda>_. Inr (hash_fill 4)) example_index = Inr (st', rep) \<and>
     fmlookup (ix_records st') ''a'' = Some (example_row ''a'' (fmupd (hash_fill 1) 2 fmempty) True\<lparr>pr_generation := 2\<rparr>)"
  by (simp add: scan_internal_def records_map_def retries_map_def example_index_def check_row_def example_row_def INDEX_SCHEMA_V1_def
    collision_key_def example_components example_li_def ignored_prefixes_def empty_traversal_def Let_def hash_files_def apply_scan_def
    collect_current_def checked_add_def ok_or_def correlate_renames_def add_old_def vanished_def should_preserve_def push_group_def correlate_group_def
    apply_missing_def next_replica_counter_def vv_get_def get_or_def ensure_def commit_state_def commit_state_with_share_metadata_def bury_def vv_observe_def)

section \<open>Properties of scans\<close>

lemma scan_committed:
  assumes "apply_scan I (ix_records st) (ix_retries st) scanned preserved uncertain preserve_all failures issues hashed now st = Inr (st', rep)"
  obtains g and ss :: scan_state where
    "scan_record I (ix_records st) (collect_current scanned) preserved uncertain preserve_all g
       (ix_replica_counter st) (ss_counter ss) p (fmlookup (ix_records st') p)" "ix_generation st' = g"
    "ix_replica_counter st' = ss_counter ss"
proof -
  from assms obtain g and ss :: scan_state where "checked_add (ix_generation st) 1 = Some g"
    and "ix_replica_counter st \<le> ss_counter ss"
    and rec: "\<forall>path. scan_record I (ix_records st) (collect_current scanned) preserved uncertain preserve_all g
       (ix_replica_counter st) (ss_counter ss) path (fmlookup (ss_next ss) path)"
    and st': "st' = commit_state (ss_next ss) (next_retries I (ix_retries st) (collect_current scanned) preserved uncertain preserve_all
       (ss_changes ss) failures now) g (ss_counter ss) st"
    and "sp_collisions rep = collision_groups (live_values (ss_next ss))"
    by (rule apply_scan_Inr)
  have "fmdom (ix_records st) |\<subseteq>| fmdom (ss_next ss)"
    using scan_record_dom [OF spec [OF rec]] by (auto simp: fmlookup_dom_iff)
  then have "ix_records st' = ss_next ss" unfolding st' commit_state_def by (rule commit_extends)
  then show ?thesis using rec by (intro that [of g ss]) (simp_all add: st' commit_state_def commit_records)
qed

lemma uncovered_absent:
  assumes "wire_ok p" "\<not> path_is_ignored I (li_root I)"
    "collect_directory I (li_root I) True l (empty_traversal\<lparr>tv_uncertain_prefixes := ignored_prefixes I\<rparr>) = Inr tv" "\<not> covered p tv"
  shows "absent l (components p)"
proof (rule ccontr)
  assume na: "\<not> absent l (components p)"
  obtain c cs where c: "components p = c # cs" by (meson components_not_Nil neq_Nil_conv)
  have "covered p tv" by (rule collect_covers(1) [OF assms(1,3), of "[]" c cs]) (use assms(2) na c in auto)
  with assms(4) show False by simp
qed


text \<open>
  C33: a scan deletes only what it positively saw to be absent. No row ever disappears from the index, a
  tombstone included, and when a live row becomes a tombstone, every directory on its way was listed completely and without
  error, and the walk along its components ended at a missing name or at something that is not a
  directory; its content fields are kept and its version moves strictly forward. Unreadable directories,
  failed metadata, non-portable siblings, ignored paths, deferred retries and hash failures never delete.
\<close>
theorem scan_deletes_only_absent:
  assumes "scan_internal I changed now root_listing hash st = Inr (st', rep)" "\<not> path_is_ignored I (li_root I)"
    "wire_ok p" "fmlookup (ix_records st) p = Some row"
  shows "\<exists>row'. fmlookup (ix_records st') p = Some row' \<and> (pr_tombstone row' \<and> \<not> pr_tombstone row \<longrightarrow>
    absent root_listing (components p) \<and> row' = bury row (pr_version row') (ix_generation st') \<and>
    vv_relation (pr_version row') (pr_version row) = After)"
proof -
  from assms(1) obtain tv scanned preserved failures issues hashed where
    tv: "collect_directory I (li_root I) True root_listing (empty_traversal\<lparr>tv_uncertain_prefixes := ignored_prefixes I\<rparr>) = Inr tv"
    and run: "apply_scan I (ix_records st) (ix_retries st) scanned preserved (tv_uncertain_prefixes tv) (tv_preserve_all_missing tv)
       failures issues hashed now st = Inr (st', rep)"
    and cov: "\<forall>p. p \<in> re_path ` set (tv_candidates tv) \<or> p |\<in>| tv_uncertain_paths tv \<longrightarrow> p \<in> sc_path ` set scanned \<or> p |\<in>| preserved"
    by (rule scan_internal_Inr) blast
  from run obtain g and ss :: scan_state where
    rec: "scan_record I (ix_records st) (collect_current scanned) preserved (tv_uncertain_prefixes tv) (tv_preserve_all_missing tv) g
       (ix_replica_counter st) (ss_counter ss) p (fmlookup (ix_records st') p)" and g: "ix_generation st' = g"
    by (rule scan_committed)
  show ?thesis
  proof (cases "fmlookup (collect_current scanned) p")
    case (Some e)
    with rec assms(4) show ?thesis by (auto simp: scan_record_def to_record_def split: if_splits)
  next
    case None
    show ?thesis
    proof (cases "vanished (collect_current scanned) preserved (tv_uncertain_prefixes tv) (tv_preserve_all_missing tv) p row")
      case True
      then obtain v where v: "advanced (li_replica I) (ix_replica_counter st) (ss_counter ss) (pr_version row) v"
        "fmlookup (ix_records st') p = Some (bury row v g)"
        using rec None assms(4) by (auto simp: scan_record_def)
      have "p \<notin> sc_path ` set scanned" using None current_dom [of scanned] by (metis fmlookup_dom_iff option.distinct(1))
      with cov True have "\<not> covered p tv" by (auto simp: covered_def vanished_def should_preserve_def)
      then have "absent root_listing (components p)"
        using uncovered_absent [OF assms(3,2) tv] by blast
      with v advanced_after [OF v(1)] g show ?thesis by (simp add: bury_def)
    next
      case False
      with rec None assms(4) show ?thesis by (auto simp: scan_record_def)
    qed
  qed
qed

theorem scan_deletes_only_absent_witness:
  "\<exists>st' rep row'. scan_internal example_li None 9 (Listing []) (\<lambda>_. Inr (hash_fill 4)) example_index = Inr (st', rep) \<and>
     fmlookup (ix_records st') ''a'' = Some row' \<and> pr_tombstone row' \<and> absent (Listing []) [''a'']"
proof -
  from example_scan obtain st' rep where run: "scan_internal example_li None 9 (Listing []) (\<lambda>_. Inr (hash_fill 4)) example_index = Inr (st', rep)"
    and row: "fmlookup (ix_records st') ''a'' = Some (example_row ''a'' (fmupd (hash_fill 1) 2 fmempty) True\<lparr>pr_generation := 2\<rparr>)" by blast
  have "absent (Listing []) (components ''a'')"
    using scan_deletes_only_absent [OF run _ wire_ok_a, of "example_row ''a'' (fmupd (hash_fill 1) 1 fmempty) False"] row
    by (simp add: path_is_ignored_def example_li_def example_index_def example_row_def)
  with run row show ?thesis by (simp add: example_row_def example_components)
qed

text \<open>
  C35: what a scan commits. Every observed entry is live in the index and matches the observation; a row that
  was not observed is kept as it is unless it vanished (live before, not preserved, not below an uncertain
  prefix), and then it is buried with a version after its own; nothing else appears. Every row that changed
  carries a fresh counter of this replica.
\<close>
theorem scan_commits_observation:
  assumes "apply_scan I (ix_records st) (ix_retries st) scanned preserved uncertain preserve_all failures issues hashed now st = Inr (st', rep)"
  shows "case fmlookup (collect_current scanned) p of
      Some e \<Rightarrow> \<exists>row. fmlookup (ix_records st') p = Some row \<and> \<not> pr_tombstone row \<and> record_matches row e \<and>
        (fmlookup (ix_records st) p \<noteq> Some row \<longrightarrow> ix_replica_counter st < vv_get (pr_version row) (li_replica I))
    | None \<Rightarrow> (case fmlookup (ix_records st) p of None \<Rightarrow> fmlookup (ix_records st') p = None
        | Some row \<Rightarrow> if vanished (collect_current scanned) preserved uncertain preserve_all p row
            then \<exists>v. fmlookup (ix_records st') p = Some (row\<lparr>pr_version := v, pr_tombstone := True, pr_generation := ix_generation st'\<rparr>) \<and>
              vv_relation v (pr_version row) = After \<and> ix_replica_counter st < vv_get v (li_replica I)
            else fmlookup (ix_records st') p = Some row)"
proof -
  from assms obtain g and ss :: scan_state where
    rec: "scan_record I (ix_records st) (collect_current scanned) preserved uncertain preserve_all g
       (ix_replica_counter st) (ss_counter ss) p (fmlookup (ix_records st') p)" and g: "ix_generation st' = g"
    by (rule scan_committed)
  show ?thesis
  proof (cases "fmlookup (collect_current scanned) p")
    case (Some e)
    show ?thesis
    proof (cases "entry_changed (ix_records st) p e")
      case True
      then obtain v where v: "advanced (li_replica I) (ix_replica_counter st) (ss_counter ss)
          (entry_base (ix_records st) (correlate_renames (ix_records st) (collect_current scanned) preserved uncertain preserve_all) p) v"
        "fmlookup (ix_records st') p = Some (to_record I e v g)" using rec Some by (auto simp: scan_record_def)
      then show ?thesis using Some advanced_get(1) [OF v(1)] by (simp add: to_record_def record_matches_def)
    next
      case False
      then obtain row where "fmlookup (ix_records st) p = Some row" "\<not> pr_tombstone row" "record_matches row e"
        by (auto simp: entry_changed_def split: option.splits)
      with False rec Some show ?thesis by (simp add: scan_record_def)
    qed
  next
    case None
    show ?thesis
    proof (cases "fmlookup (ix_records st) p")
      case (Some row)
      show ?thesis
      proof (cases "vanished (collect_current scanned) preserved uncertain preserve_all p row")
        case True
        then obtain v where v: "advanced (li_replica I) (ix_replica_counter st) (ss_counter ss) (pr_version row) v"
          "fmlookup (ix_records st') p = Some (bury row v g)" using rec None Some by (auto simp: scan_record_def)
        with True None Some g advanced_after [OF v(1)] advanced_get(1) [OF v(1)] show ?thesis by (auto simp: bury_def)
      next
        case False
        with rec None Some show ?thesis by (simp add: scan_record_def)
      qed
    next
      case n: None
      with rec None show ?thesis by (simp add: scan_record_def)
    qed
  qed
qed

definition example_entry :: "wire_path \<Rightarrow> scanned_entry" where
  "example_entry path = \<lparr>sc_path = path, sc_kind = FileEntry, sc_fingerprint = \<lparr>fp_identity = Some \<lparr>fi_namespace = 1, fi_object = 7\<rparr>,
     fp_size = 3, fp_modified_ns = Some 5, fp_changed_ns = None, fp_readonly = False\<rparr>, sc_content_hash = Some (hash_fill 4)\<rparr>"

lemma example_apply:
  "\<exists>st' rep. apply_scan example_li (ix_records empty_index) (ix_retries empty_index) [example_entry ''a''] {||} [] False [] [] 1 9 empty_index = Inr (st', rep)"
  by (simp add: empty_index_def apply_scan_def collect_current_def example_entry_def checked_add_def ok_or_def Let_def correlate_renames_def
    apply_entry_def apply_write_def next_replica_counter_def vv_get_def get_or_def)

theorem scan_commits_observation_witness:
  "\<exists>st' rep row. apply_scan example_li (ix_records empty_index) (ix_retries empty_index) [example_entry ''a''] {||} [] False [] [] 1 9 empty_index =
       Inr (st', rep) \<and> fmlookup (ix_records st') ''a'' = Some row \<and> \<not> pr_tombstone row \<and> record_matches row (example_entry ''a'')"
proof -
  from example_apply obtain st' rep where
    run: "apply_scan example_li (ix_records empty_index) (ix_retries empty_index) [example_entry ''a''] {||} [] False [] [] 1 9 empty_index = Inr (st', rep)"
    by blast
  from scan_commits_observation [OF run, of "''a''"] run show ?thesis
    by (auto simp: collect_current_def example_entry_def)
qed

section \<open>Properties of every run\<close>

text \<open>
  C34: whatever sequence of scans, adoptions and metadata updates is attempted, committed or refused, the
  index stays well formed: every row is filed under its own portable path, passes the checks made when it
  is read, publishes a valid sync record and carries no counter of this replica above the durable counter;
  the durable counter and the generation never move back.
\<close>
theorem index_invariant:
  assumes "index_inv I st" "list_all op_paths_ok ops"
  shows "index_inv I (run_ops (run_index I E) ops st) \<and> records_map I (run_ops (run_index I E) ops st) = Inr (ix_records (run_ops (run_index I E) ops st)) \<and>
    ix_replica_counter st \<le> ix_replica_counter (run_ops (run_index I E) ops st) \<and>
    ix_generation st \<le> ix_generation (run_ops (run_index I E) ops st)"
  using index.run_inv [OF assms, of E] index.run_le [OF assms, of E]
  by (auto simp: index_le_def records_map_Inr index_inv_def row_ok_def)

theorem index_invariant_witness:
  "index_inv example_li (run_ops (run_index example_li example_externs) [ScanOp None 9 (Listing []) (\<lambda>_. Inr (hash_fill 4)), SetMetadata [1]] empty_index)"
  using index_invariant [OF empty_index_inv, of "[ScanOp None 9 (Listing []) (\<lambda>_. Inr (hash_fill 4)), SetMetadata [1]]" example_li example_externs] by simp

section \<open>Properties of adoption\<close>

text \<open>
  C36: adopting a peer's record stores exactly that record: the row publishes it unchanged, version
  included, all other rows stay as they are, a pending retry of the path is cleared, the generation moves
  by one, and the durable counter of this replica does not move, so a peer cannot make this replica skip or
  repeat counters.
\<close>
theorem adopted_record_exact:
  assumes "commit_remote_record I E D r obs meta st = Inr st'" "record_ok r"
  shows "map_option to_sync_record (fmlookup (ix_records st') (sr_path r)) = Some r \<and>
    (\<forall>p. p \<noteq> sr_path r \<longrightarrow> fmlookup (ix_records st') p = fmlookup (ix_records st) p) \<and>
    ix_retries st' = fmdrop (sr_path r) (ix_retries st) \<and> unat (ix_generation st') = unat (ix_generation st) + 1 \<and>
    ix_replica_counter st' = ix_replica_counter st \<and>
    ix_share_metadata st' = (case meta of None \<Rightarrow> ix_share_metadata st | Some m \<Rightarrow> Some m)"
proof -
  from assms(1) have le: "vv_get (sr_version r) (li_replica I) \<le> ix_replica_counter st"
    and c: "commit_adopted_record I E D r obs meta st = Inr st'"
    by (auto simp: commit_remote_record_def and_then_Inr_iff ensure_Inr_iff)
  from c assms(2) show ?thesis
    by (rule commit_adopted_Inr) (use le in \<open>auto simp: max_def dest: checked_add_Some\<close>)
qed

definition empty_disk :: disk where
  "empty_disk = \<lparr>dk_stat = (\<lambda>_. NotFound), dk_read = (\<lambda>_. OpenFailed ''missing''), dk_stat_after = (\<lambda>_. NotFound)\<rparr>"

definition example_tombstone :: sync_record where
  "example_tombstone = \<lparr>sr_schema_version = 1, sr_path = ''a'', sr_kind = File, sr_size = 3, sr_content_hash = Some (hash_fill 4),
     sr_readonly = False, sr_version = fmupd (hash_fill 2) 1 fmempty, sr_tombstone = True\<rparr>"

lemma example_tombstone_adopted:
  "\<exists>st'. commit_remote_record example_li example_externs empty_disk example_tombstone None None empty_index = Inr st'"
  by (simp add: commit_remote_record_def commit_adopted_record_def example_tombstone_def empty_index_def vv_get_def get_or_def
    example_li_def ensure_def checked_add_def ok_or_def records_map_def retries_map_def verify_adopted_record_def path_is_absent_def
    example_components empty_disk_def)

theorem adopted_record_exact_witness:
  "\<exists>st'. commit_remote_record example_li example_externs empty_disk example_tombstone None None empty_index = Inr st' \<and>
     map_option to_sync_record (fmlookup (ix_records st') ''a'') = Some example_tombstone"
proof -
  from example_tombstone_adopted obtain st' where
    run: "commit_remote_record example_li example_externs empty_disk example_tombstone None None empty_index = Inr st'" by blast
  have "record_ok example_tombstone" by (simp add: record_ok_iff live_def example_tombstone_def)
  from adopted_record_exact [OF run this] run show ?thesis by (simp add: example_tombstone_def)
qed

text \<open>
  C37: adopting an authoritative snapshot makes the index that snapshot. The rows publish exactly the
  snapshot's records and there is no other row; the live paths are exactly the paths found on disk; they are
  files and directories, free of collision-key clashes, and every proper ancestor of a live path is a live
  directory; the counter of this replica is not reset.
\<close>
theorem authoritative_snapshot_exact:
  assumes "adopt_authoritative_snapshot I E D root_listing snapshot metadata st = Inr st'"
  shows "(\<forall>p r. map_option to_sync_record (fmlookup (ix_records st') p) = Some r \<longleftrightarrow> r \<in> set snapshot \<and> sr_path r = p) \<and>
    (\<exists>tv. collect_directory I (li_root I) True root_listing empty_traversal = Inr tv \<and> tv_issues tv = [] \<and>
       re_path ` set (tv_candidates tv) = sr_path ` {r \<in> set snapshot. \<not> sr_tombstone r}) \<and>
    (\<forall>r \<in> set snapshot. \<not> sr_tombstone r \<longrightarrow> (sr_kind r = File \<or> sr_kind r = Directory) \<and>
       (\<forall>s \<in> set snapshot. \<not> sr_tombstone s \<and> collision_key I (sr_path s) = collision_key I (sr_path r) \<longrightarrow> s = r) \<and>
       (\<forall>n. 0 < n \<and> n < length (components (sr_path r)) \<longrightarrow>
          (\<exists>d \<in> set snapshot. sr_path d = join_with ''/'' (take n (components (sr_path r))) \<and> \<not> sr_tombstone d \<and> sr_kind d = Directory))) \<and>
    ix_replica_counter st \<le> ix_replica_counter st' \<and> ix_share_metadata st' = Some metadata"
  using assms
proof (rule authoritative_Inr)
  fix tv names by_path
  assume d: "distinct (map sr_path snapshot)" and adm: "admitted I snapshot names"
    and bp: "\<forall>p r. fmlookup by_path p = Some r \<longleftrightarrow> r \<in> set snapshot \<and> sr_path r = p"
    and anc: "fold_res (check_ancestors by_path) (filter (\<lambda>r. \<not> sr_tombstone r) snapshot) () = Inr ()"
    and tv: "collect_directory I (li_root I) True root_listing empty_traversal = Inr tv" "tv_issues tv = []"
      "re_path ` set (tv_candidates tv) = sr_path ` {r \<in> set snapshot. \<not> sr_tombstone r}"
    and rows: "\<forall>r \<in> set snapshot. \<exists>row. fmlookup (ix_records st') (sr_path r) = Some row \<and> to_sync_record row = r \<and> valid_row I (sr_path r) row"
    and none: "\<forall>p. p \<notin> sr_path ` set snapshot \<longrightarrow> fmlookup (ix_records st') p = None"
    and c: "ix_replica_counter st \<le> ix_replica_counter st'" "ix_share_metadata st' = Some metadata"
  have inj: "inj_on sr_path (set snapshot)" using d by (simp add: distinct_map)
  have 1: "map_option to_sync_record (fmlookup (ix_records st') p) = Some r \<longleftrightarrow> r \<in> set snapshot \<and> sr_path r = p" for p r
  proof (cases "p \<in> sr_path ` set snapshot")
    case True
    then obtain s where s: "s \<in> set snapshot" "p = sr_path s" by blast
    with rows have "map_option to_sync_record (fmlookup (ix_records st') p) = Some s" by auto
    with s inj show ?thesis by (auto dest: inj_onD)
  qed (use none in auto)
  have 2: "s = r" if "r \<in> set snapshot" "\<not> sr_tombstone r" "s \<in> set snapshot" "\<not> sr_tombstone s"
    "collision_key I (sr_path s) = collision_key I (sr_path r)" for r s
  proof -
    have "fmlookup names (collision_key I (sr_path x)) = Some (sr_path x)" if "x \<in> set snapshot" "\<not> sr_tombstone x" for x
      using adm that ancestors_of_self [of "sr_path x"] unfolding admitted_def by blast
    from this [OF that(1,2)] this [OF that(3,4)] that(5) have "sr_path s = sr_path r" by simp
    with inj that show ?thesis by (auto dest: inj_onD)
  qed
  have 3: "\<exists>d \<in> set snapshot. sr_path d = join_with ''/'' (take n (components (sr_path r))) \<and> \<not> sr_tombstone d \<and> sr_kind d = Directory"
    if "r \<in> set snapshot" "\<not> sr_tombstone r" "0 < n" "n < length (components (sr_path r))" for r n
    using check_ancestors_all [OF anc, of r n] that bp by auto
  have 4: "sr_kind r = File \<or> sr_kind r = Directory" if "r \<in> set snapshot" "\<not> sr_tombstone r" for r
    using adm that unfolding admitted_def by blast
  show ?thesis
  proof (intro conjI ballI impI allI)
    show "map_option to_sync_record (fmlookup (ix_records st') p) = Some r \<longleftrightarrow> r \<in> set snapshot \<and> sr_path r = p" for p r by (rule 1)
    show "\<exists>tv. collect_directory I (li_root I) True root_listing empty_traversal = Inr tv \<and> tv_issues tv = [] \<and>
       re_path ` set (tv_candidates tv) = sr_path ` {r \<in> set snapshot. \<not> sr_tombstone r}" using tv by blast
  qed (use 2 3 4 c in auto)
qed

lemma example_snapshot_adopted:
  "\<exists>st'. adopt_authoritative_snapshot example_li example_externs empty_disk (Listing []) [example_tombstone] [7] empty_index = Inr st'"
  by (simp add: adopt_authoritative_snapshot_def check_metadata_def MAX_SHARE_METADATA_def ensure_def admit_authoritative_def check_record_def
    record_validate_def example_tombstone_def SYNC_RECORD_SCHEMA_V1_def Let_def empty_index_def checked_add_def ok_or_def records_map_def
    adopt_row_def verify_adopted_record_def path_is_absent_def example_components example_li_def empty_disk_def empty_traversal_def)

theorem authoritative_snapshot_exact_witness:
  "\<exists>st'. adopt_authoritative_snapshot example_li example_externs empty_disk (Listing []) [example_tombstone] [7] empty_index = Inr st' \<and>
     map_option to_sync_record (fmlookup (ix_records st') ''a'') = Some example_tombstone"
proof -
  from example_snapshot_adopted obtain st' where
    run: "adopt_authoritative_snapshot example_li example_externs empty_disk (Listing []) [example_tombstone] [7] empty_index = Inr st'" by blast
  from authoritative_snapshot_exact [OF run] have "map_option to_sync_record (fmlookup (ix_records st') ''a'') = Some example_tombstone \<longleftrightarrow>
     example_tombstone \<in> set [example_tombstone] \<and> sr_path example_tombstone = ''a''" by blast
  with run show ?thesis by (auto simp: example_tombstone_def)
qed

section \<open>A rename onto a deleted path\<close>

definition rename_index :: index_state where
  "rename_index = \<lparr>ix_records = fmupd ''a'' (example_row ''a'' (fmupd (hash_fill 1) 2 fmempty) False)
       (fmupd ''b'' (example_row ''b'' (fmupd (hash_fill 2) 1 (fmupd (hash_fill 1) 1 fmempty)) True) fmempty),
     ix_retries = fmempty, ix_generation = 1, ix_replica_counter = 2, ix_share_metadata = None\<rparr>"

lemma sorted_list_of_fmap_of_list:
  assumes "sorted (map fst xs)" "distinct (map fst xs)"
  shows "sorted_list_of_fmap (fmap_of_list xs) = xs"
proof -
  have "sorted_list_of_fset (fmdom (fmap_of_list xs)) = map fst xs"
    using sorted_list_of_fset_of_list [of "map fst xs"] assms by (simp add: distinct_remdups_id sorted_sort_id flip: fset_of_list_map)
  then have "sorted_list_of_fmap (fmap_of_list xs) = map (\<lambda>k. (k, the (fmlookup (fmap_of_list xs) k))) (map fst xs)"
    by (simp add: sorted_list_of_fmap_def)
  also have "\<dots> = xs" unfolding map_map
    by (rule map_idI) (use assms(2) in \<open>auto simp: fmlookup_of_list\<close>)
  finally show ?thesis .
qed

lemma rename_rows:
  "sorted_list_of_fmap (fmupd ''a'' x (fmupd ''b'' y fmempty)) = [(''a'', x), (''b'', y)]"
  using sorted_list_of_fmap_of_list [of "[(''a'', x), (''b'', y)]"] by (simp add: less_eq_char_def)

lemma rename_scan:
  "\<exists>st' rep. apply_scan example_li (ix_records rename_index) (ix_retries rename_index) [example_entry ''b''] {||} [] False [] [] 1 9 rename_index = Inr (st', rep) \<and>
     sp_changes rep = [Renamed ''a'' ''b''] \<and> map_option pr_version (fmlookup (ix_records st') ''b'') = Some (fmupd (hash_fill 1) 3 fmempty)"
  by (simp add: rename_index_def rename_rows apply_scan_def collect_current_def example_entry_def checked_add_def ok_or_def Let_def correlate_renames_def
    add_old_def add_new_def vanished_def appeared_def should_preserve_def push_group_def correlate_group_def record_matches_def example_row_def
    apply_entry_def apply_rename_def apply_missing_def next_replica_counter_def vv_get_def get_or_def vv_observe_def fmlookup_of_list
    example_li_def commit_state_def commit_state_with_share_metadata_def to_record_def bury_def)

lemma rename_correlated:
  "fmlookup (correlate_renames (ix_records rename_index) (collect_current [example_entry ''b'']) {||} [] False) ''b'' = Some ''a''"
  by (simp add: rename_index_def rename_rows collect_current_def example_entry_def correlate_renames_def
    add_old_def add_new_def vanished_def appeared_def should_preserve_def push_group_def correlate_group_def record_matches_def example_row_def
    Let_def fmlookup_of_list example_li_def)

text \<open>
  C40: when a file is renamed onto a path this index remembers as deleted, the new record extends the version
  of the rename source only, and the tombstone's counters are forgotten: if the tombstone carries a counter of
  another replica above the one of the source, the record that replaces it is concurrent with it instead of
  later, so peers that hold the tombstone see a conflict. The counters of this replica are within the durable
  counter, which the index always keeps.
\<close>
theorem rename_forgets_tombstone:
  assumes "apply_scan I (ix_records st) (ix_retries st) scanned preserved uncertain preserve_all failures issues hashed now st = Inr (st', rep)"
    and "fmlookup (correlate_renames (ix_records st) (collect_current scanned) preserved uncertain preserve_all) path = Some origin"
    and "fmlookup (ix_records st) origin = Some source" and "fmlookup (ix_records st) path = Some old" and "pr_tombstone old"
    and "other \<noteq> li_replica I" and "vv_get (pr_version source) other < vv_get (pr_version old) other"
    and "vv_get (pr_version old) (li_replica I) \<le> ix_replica_counter st"
  shows "\<exists>new. fmlookup (ix_records st') path = Some new \<and> \<not> pr_tombstone new \<and>
    (\<forall>q. q \<noteq> li_replica I \<longrightarrow> vv_get (pr_version new) q = vv_get (pr_version source) q) \<and>
    vv_relation (pr_version new) (pr_version old) = Concurrent"
proof -
  from assms(1) obtain g and ss :: scan_state where
    rec: "scan_record I (ix_records st) (collect_current scanned) preserved uncertain preserve_all g
       (ix_replica_counter st) (ss_counter ss) path (fmlookup (ix_records st') path)" by (rule scan_committed)
  from assms(2) obtain e where e: "fmlookup (collect_current scanned) path = Some e" by (rule renames_source)
  have "entry_changed (ix_records st) path e" using assms(4,5) by (simp add: entry_changed_def)
  moreover have "entry_base (ix_records st) (correlate_renames (ix_records st) (collect_current scanned) preserved uncertain preserve_all) path
      = pr_version source" using assms(2,3) by (simp add: entry_base_def)
  ultimately obtain v where v: "advanced (li_replica I) (ix_replica_counter st) (ss_counter ss) (pr_version source) v"
    "fmlookup (ix_records st') path = Some (to_record I e v g)" using rec e by (auto simp: scan_record_def)
  note get = advanced_get [OF v(1)]
  have "\<not> vv_le v (pr_version old)" using get(1) assms(8) by (auto simp: vv_le_def not_le intro: exI [of _ "li_replica I"])
  moreover have "\<not> vv_le (pr_version old) v" using get(3) [OF assms(6)] assms(7) by (auto simp: vv_le_def not_le intro!: exI [of _ other])
  ultimately show ?thesis using v(2) get(3) by (simp add: to_record_def vv.rel_Concurrent_iff)
qed

theorem rename_forgets_tombstone_witness:
  "\<exists>st' rep new. apply_scan example_li (ix_records rename_index) (ix_retries rename_index) [example_entry ''b''] {||} [] False [] [] 1 9 rename_index = Inr (st', rep) \<and>
     fmlookup (ix_records st') ''b'' = Some new \<and>
     vv_relation (pr_version new) (fmupd (hash_fill 2) 1 (fmupd (hash_fill 1) 1 fmempty)) = Concurrent"
proof -
  from rename_scan obtain st' rep where
    run: "apply_scan example_li (ix_records rename_index) (ix_retries rename_index) [example_entry ''b''] {||} [] False [] [] 1 9 rename_index = Inr (st', rep)"
    by blast
  have rows: "fmlookup (ix_records rename_index) ''a'' = Some (example_row ''a'' (fmupd (hash_fill 1) 2 fmempty) False)"
    "fmlookup (ix_records rename_index) ''b'' = Some (example_row ''b'' (fmupd (hash_fill 2) 1 (fmupd (hash_fill 1) 1 fmempty)) True)"
    by (simp_all add: rename_index_def)
  have "\<exists>new. fmlookup (ix_records st') ''b'' = Some new \<and>
      vv_relation (pr_version new) (pr_version (example_row ''b'' (fmupd (hash_fill 2) 1 (fmupd (hash_fill 1) 1 fmempty)) True)) = Concurrent"
    using rename_forgets_tombstone [OF run rename_correlated rows, of "hash_fill 2"]
    by (auto simp: example_row_def example_li_def rename_index_def vv_get_def get_or_def)
  with run show ?thesis by (auto simp: example_row_def)
qed

section \<open>Retries\<close>

lemma unat_min_word: "unat (min a (b :: 'a::len word)) = min (unat a) (unat b)"
  by (auto simp: min_def word_le_nat_alt)

text \<open>
  The retry schedule. Attempts count up and saturate; the delay doubles from half a second and never
  exceeds five minutes, without overflow at any attempt; the deadline saturates instead of wrapping, so a
  retry is never due before it was scheduled.
\<close>
theorem retry_backoff:
  "rr_path (schedule_retry previous path now message) = path \<and>
   unat (rr_attempts (schedule_retry previous path now message)) =
     (case previous of None \<Rightarrow> 1 | Some retry \<Rightarrow> min (unat (rr_attempts retry) + 1) (2 ^ 32 - 1)) \<and>
   unat (rr_not_before_ms (schedule_retry previous path now message)) =
     min (unat now + min (500 * 2 ^ min (unat (rr_attempts (schedule_retry previous path now message)) - 1) 31) 300000) (2 ^ 64 - 1)"
proof -
  let ?r = "schedule_retry previous path now message"
  let ?n = "unat (rr_attempts ?r)"
  have att: "unat (rr_attempts ?r) = (case previous of None \<Rightarrow> 1 | Some retry \<Rightarrow> min (unat (rr_attempts retry) + 1) (2 ^ 32 - 1))"
    by (simp add: schedule_retry_def Let_def unat_saturating_add split: option.splits)
  then have pos: "1 \<le> ?n" by (auto split: option.splits)
  define shift where "shift = min (saturating_sub (rr_attempts ?r) 1) 31"
  have sub: "unat (saturating_sub (rr_attempts ?r) 1) = ?n - 1"
  proof -
    have "1 \<le> rr_attempts ?r" using pos by (simp add: word_le_nat_alt)
    then show ?thesis by (simp add: saturating_sub_def unat_sub word_le_nat_alt)
  qed
  have sh: "unat shift = min (?n - 1) 31" unfolding shift_def unat_min_word sub by simp
  then have "unat shift \<le> 31" by simp
  then have small: "(2 :: nat) ^ unat shift \<le> 2 ^ 31" by (intro power_increasing) auto
  have pb: "unat (push_bit (unat shift) (1 :: u64)) = 2 ^ unat shift"
  proof -
    have "push_bit (unat shift) (1 :: u64) = of_nat (2 ^ unat shift)" by (simp add: push_bit_eq_mult)
    moreover have "(2 :: nat) ^ unat shift < 2 ^ LENGTH(64)" using small by simp
    ultimately show ?thesis by (simp add: unat_of_nat del: of_nat_power)
  qed
  from small have "unat (min (saturating_mul RETRY_BASE_MS (push_bit (unat shift) 1)) RETRY_MAX_MS) = min (500 * 2 ^ unat shift) 300000"
    unfolding unat_min_word unat_saturating_mul pb RETRY_BASE_MS_def RETRY_MAX_MS_def by simp
  moreover have "rr_not_before_ms ?r = saturating_add now (min (saturating_mul RETRY_BASE_MS (push_bit (unat shift) 1)) RETRY_MAX_MS)"
    by (simp add: shift_def schedule_retry_def Let_def)
  ultimately have "unat (rr_not_before_ms ?r) = min (unat now + min (500 * 2 ^ unat shift) 300000) (2 ^ 64 - 1)"
    by (simp add: unat_saturating_add)
  moreover have "rr_path ?r = path" by (simp add: schedule_retry_def Let_def)
  ultimately show ?thesis using att sh by simp
qed

end
