(* ===== verification/Share_Recovery.thy ===== *)
theory Share_Recovery
  imports Share_Session Journal_Props Share_Runtime_Props Index_Props
begin

text \<open>
  The recovery of a change whose writer was revoked meanwhile
  (\<^verbatim>\<open>recover_causal_index_with\<close> of \<^verbatim>\<open>crates/deltaweave-net/src/lib.rs\<close> with the decision of \<open>OwnedRuntime::recover_pending\<close> in
  \<^verbatim>\<open>crates/deltaweave-net/src/share/runtime.rs\<close>): the effect on the index, on the journal and on the
  file system, while other tasks go on committing operations of the registry.
\<close>

section \<open>A revoked peer\<close>

abbreviation registry_reaches :: "registry_env \<Rightarrow> catalog \<Rightarrow> (u64 \<times> reg_op) list \<Rightarrow> catalog \<Rightarrow> bool" where
  "registry_reaches \<equiv> Share_Laws.reaches"

text \<open>A revision by another task of the process commits operations of the registry.\<close>

definition registry_revision :: "registry_env \<Rightarrow> (share_state \<Rightarrow> share_state) \<Rightarrow> bool" where
  "registry_revision R g \<longleftrightarrow> (\<forall>sh. \<exists>tr. registry_reaches R (sh_catalog sh) tr (sh_catalog (g sh)))"

definition shut_out :: "share_session \<Rightarrow> endpoint_id \<Rightarrow> replica \<Rightarrow> bool" where
  "shut_out A peer s \<longleftrightarrow> (\<exists>now cat cat' tr. run_op (ss_registry A) now (RevokeMember (oc_share_id (ss_config A)) peer) cat = Some cat' \<and>
     registry_reaches (ss_registry A) cat' tr (sh_catalog (rp_share s))) \<and> list_all (registry_revision (ss_registry A)) (rp_revisions s)"

lemma reaches_append: "registry_reaches R cat' tr' cat'' \<Longrightarrow> registry_reaches R cat tr cat' \<Longrightarrow> \<exists>tr''. registry_reaches R cat tr'' cat''"
  by (induction rule: Share_Laws.reaches.induct) (auto intro: Share_Laws.reaches.step)

lemma shut_out_refused:
  assumes "shut_out A peer s"
  shows "authorize (ss_registry A) (sh_catalog (rp_share s)) (oc_share_id (ss_config A)) peer permission = Inl MemberRevoked"
    and "rp_revisions s = g # gs \<Longrightarrow>
      authorize (ss_registry A) (sh_catalog (g (rp_share s))) (oc_share_id (ss_config A)) peer permission = Inl MemberRevoked"
proof -
  from assms obtain now cat cat' tr where op: "run_op (ss_registry A) now (RevokeMember (oc_share_id (ss_config A)) peer) cat = Some cat'"
    and tr: "registry_reaches (ss_registry A) cat' tr (sh_catalog (rp_share s))" and rev: "list_all (registry_revision (ss_registry A)) (rp_revisions s)"
    by (auto simp: shut_out_def)
  have *: "authorize (ss_registry A) c (oc_share_id (ss_config A)) peer permission = Inl MemberRevoked"
    if "registry_reaches (ss_registry A) cat' t c" for t c
    using revoked_member_forever [OF op that] authorize_revoked by metis
  from * [OF tr] show "authorize (ss_registry A) (sh_catalog (rp_share s)) (oc_share_id (ss_config A)) peer permission = Inl MemberRevoked" .
  assume "rp_revisions s = g # gs"
  with rev have "registry_revision (ss_registry A) g" by simp
  then obtain t where "registry_reaches (ss_registry A) (sh_catalog (rp_share s)) t (sh_catalog (g (rp_share s)))"
    by (auto simp: registry_revision_def)
  from reaches_append [OF this tr] *
  show "authorize (ss_registry A) (sh_catalog (g (rp_share s))) (oc_share_id (ss_config A)) peer permission = Inl MemberRevoked" by blast
qed

section \<open>Programs that leave the index alone\<close>

text \<open>The states a program of the replica can leave without touching the index.\<close>

definition same_index :: "replica \<Rightarrow> replica \<Rightarrow> bool" where
  "same_index s s' \<longleftrightarrow> rp_index s' = rp_index s"

abbreviation leaves_index :: "'a rprog \<Rightarrow> ('a \<Rightarrow> replica \<Rightarrow> bool) \<Rightarrow> replica \<Rightarrow> bool" where
  "leaves_index p Q s \<equiv> wp p (\<lambda>x s'. same_index s s' \<and> Q x s') (\<lambda>_. same_index s) (same_index s) s"

lemma leaves_and_do:
  assumes "leaves_index p P s" "\<And>x t. P x t \<Longrightarrow> same_index s t \<Longrightarrow> leaves_index (f x) Q t"
  shows "leaves_index (and_do p f) Q s"
  unfolding wp_and_do
  by (rule wp_mono [OF assms(1)]) (auto intro!: wp_mono [OF assms(2)] simp: same_index_def)

lemma leaves_require: "(b \<Longrightarrow> Q () s) \<Longrightarrow> leaves_index (require b e) Q s"
  by (simp add: wp_simps same_index_def)

lemma leaves_lift_res: "(\<And>x. r = Inr x \<Longrightarrow> Q x s) \<Longrightarrow> leaves_index (lift_res r) Q s"
  by (auto simp: wp_simps same_index_def split: sum.split)

lemma leaves_on_store: "(\<And>x w. p (rp_world s) = (Done x, w) \<Longrightarrow> Q x (s\<lparr>rp_world := w\<rparr>)) \<Longrightarrow> leaves_index (on_store p) Q s"
  by (auto simp: wp_def on_store_def same_index_def split: prod.split outcome.split)

lemma leaves_index_read:
  "(\<And>x w. f (rp_index s) = Inr x \<Longrightarrow> Q x (s\<lparr>rp_world := w\<rparr>)) \<Longrightarrow> leaves_index (index_read f) Q s"
  unfolding index_read_def on_index_def
  by (rule leaves_and_do [where P = "\<lambda>_ t. \<exists>w. t = s\<lparr>rp_world := w\<rparr>"], rule leaves_on_store, blast)
    (auto simp: wp_def same_index_def result_simps and_then_def split: sum.split prod.split sum.splits)

lemma leaves_applicable: "(\<And>w. Q () (s\<lparr>rp_world := w\<rparr>)) \<Longrightarrow> leaves_index (ensure_index_causally_applicable V r) Q s"
  unfolding ensure_index_causally_applicable_def replica_counter_def index_get_def
  by (rule leaves_and_do [where P = "\<lambda>_ t. \<exists>w. t = s\<lparr>rp_world := w\<rparr>"], rule leaves_index_read, blast,
      rule leaves_and_do [where P = "\<lambda>_ t. \<exists>w. t = s\<lparr>rp_world := w\<rparr>"], rule leaves_require, blast,
      rule leaves_and_do [where P = "\<lambda>_ t. \<exists>w. t = s\<lparr>rp_world := w\<rparr>"], rule leaves_index_read)
    (auto intro: leaves_lift_res)

text \<open>A revoked peer is never a member, whatever happens at the visit.\<close>

lemma revoked_member_fails: "shut_out A peer s \<Longrightarrow> leaves_index (session_member A peer) (\<lambda>_ _. False) s"
  unfolding session_member_def read_share_def visit_share_def enter_share_def
  using shut_out_refused(1) [where permission = True] shut_out_refused(2) [where permission = True]
  by (auto simp: wp_def and_do_def on_store_def commit_share_def same_index_def split: prod.split outcome.split list.split)

lemma catch_member:
  assumes "shut_out A peer s"
  shows "leaves_index (catch (and_do (session_member A peer) (\<lambda>member. ret (Inr member))) (\<lambda>e. ret (Inl e))) (\<lambda>x _. \<exists>e. x = Inl e) s"
  unfolding wp_catch wp_and_do
  by (rule wp_mono [OF revoked_member_fails [OF assms]]) (auto simp: wp_simps)

lemma revoked_decision:
  assumes "shut_out A peer s" "cb_authorization b = Some bytes" "ss_context_from A bytes = Some context" "rc_peer context = peer"
  shows "leaves_index (session_decision V A b) (\<lambda>d _. d = RollbackChange) s"
  unfolding session_decision_def
  apply (rule leaves_and_do [where P = "\<lambda>x t. x = bytes \<and> t = s"])
   apply (rule leaves_lift_res, simp add: assms ok_or_def)
  apply (rule leaves_and_do [where P = "\<lambda>x t. x = context \<and> t = s"])
   apply (rule leaves_lift_res, simp add: assms ok_or_def)
  apply (rule leaves_and_do [where P = "\<lambda>_ t. t = s"])
   apply (rule leaves_require, simp)
  apply (rule leaves_and_do [where P = "\<lambda>x _. \<exists>e. x = Inl e"])
  using assms apply (simp add: catch_member)
  by (auto simp: wp_simps same_index_def)

text \<open>A rollback that returns has journaled its end.\<close>

lemma finish_rollback_Done: "finish_rollback c w = (Done c', w') \<Longrightarrow>
  c' = c\<lparr>pc_state := RolledBack\<rparr> \<and> fmlookup (w_journal w') (pc_id c) = Some c'"
  by (auto simp: finish_rollback_def put_change_def and_do_Done ret_def Let_def)

lemma rollback_Done:
  assumes "rollback_causal_change S c w = (Done c', w')"
  shows "fmlookup (w_journal w') (pc_id c) = Some (c\<lparr>pc_state := RolledBack\<rparr>)"
proof -
  have restore: "fmlookup (w_journal w') (pc_id c) = Some (c\<lparr>pc_state := RolledBack\<rparr>)"
    if "restore_captured S c d cur v = (Done c', w')" for d cur v
  proof -
    from that obtain v' where "finish_rollback (c\<lparr>pc_state := RollingBack\<rparr>) v' = (Done c', w')"
      by (auto simp: restore_captured_def and_do_Done Let_def)
    from finish_rollback_Done [OF this] show ?thesis by simp
  qed
  have meta: "fmlookup (w_journal w') (pc_id c) = Some (c\<lparr>pc_state := RolledBack\<rparr>)"
    if "rollback_metadata S c d cur v = (Done c', w')" for d cur v
    using that finish_rollback_Done
    by (force simp: rollback_metadata_def and_do_Done fail_def split: option.splits)
  show ?thesis
    using assms restore meta finish_rollback_Done
    unfolding rollback_causal_change_def and_do_Done
    by (auto split: if_splits simp: and_do_Done)
qed

section \<open>Recovery of a revoked change\<close>

abbreviation row_of :: "replica \<Rightarrow> wire_path \<Rightarrow> sync_record option" where
  "row_of s path \<equiv> map_option to_sync_record (fmlookup (ix_records (rp_index s)) path)"

definition outcome_of_revoked :: "replica_env \<Rightarrow> path_change \<Rightarrow> causal_binding \<Rightarrow> replica \<Rightarrow> replica \<Rightarrow> bool" where
  "outcome_of_revoked V c b s s' \<longleftrightarrow> pc_root c \<noteq> rv_root V \<or> pc_state c \<in> {Committed, Aborted, RolledBack} \<or>
     row_of s (sr_path (cb_record b)) = Some (cb_record b) \<or>
     fmlookup (w_journal (rp_world s')) (pc_id c) = Some (c\<lparr>pc_state := RolledBack\<rparr>)"

lemma outcome_of_rollback:
  "rollback_causal_change (rv_store V) c v = (Done c', w) \<Longrightarrow> outcome_of_revoked V c b s (t\<lparr>rp_world := w\<rparr>)"
  by (simp add: outcome_of_revoked_def rollback_Done)

lemma leaves_rollback: "leaves_index (and_do (on_store (rollback_causal_change (rv_store V) c)) (\<lambda>_. ret ())) (\<lambda>_. outcome_of_revoked V c b s) t"
  unfolding wp_and_do
  by (rule wp_mono, rule leaves_on_store [where Q = "\<lambda>_. outcome_of_revoked V c b s"])
    (auto simp: wp_simps intro: outcome_of_rollback)

lemma leaves_revoked_change:
  assumes revoked: "shut_out A peer s" and bind: "pc_causal c = Some b" and auth: "cb_authorization b = Some bytes"
    "ss_context_from A bytes = Some context" "rc_peer context = peer"
  shows "leaves_index (recover_causal_change V (session_decision V A) c) (\<lambda>_. outcome_of_revoked V c b s) s"
proof (cases "pc_root c \<noteq> rv_root V \<or> pc_state c \<in> {Committed, Aborted, RolledBack} \<or> row_of s (sr_path (cb_record b)) = Some (cb_record b)")
  case True
  then have "outcome_of_revoked V c b s t" for t by (auto simp: outcome_of_revoked_def)
  with True show ?thesis
    unfolding recover_causal_change_def index_get_def bind option.case
    apply (cases "pc_root c \<noteq> rv_root V \<or> pc_state c = Committed \<or> pc_state c = Aborted \<or> pc_state c = RolledBack")
     apply (simp add: wp_simps same_index_def)
    apply (simp only: if_False)
    apply (rule leaves_and_do [where P = "\<lambda>row _. row = fmlookup (ix_records (rp_index s)) (sr_path (cb_record b))"])
     apply (rule leaves_index_read, simp)
    by (auto simp: Let_def intro: leaves_on_store [where Q = "\<lambda>_ _. True", simplified])
next
  case False
  let ?moved = "\<lambda>t. \<exists>w. t = s\<lparr>rp_world := w\<rparr>"
  from False have skip: "(pc_root c \<noteq> rv_root V \<or> pc_state c = Committed \<or> pc_state c = Aborted \<or> pc_state c = RolledBack) = False"
    by auto
  have differs: "(row_of s (sr_path (cb_record b)) = Some (cb_record b)) = False" using False by auto
  have decided: "?moved t \<Longrightarrow> leaves_index (session_decision V A b) (\<lambda>d _. d = RollbackChange) t" for t
    using revoked by (elim exE) (rule revoked_decision [OF _ auth], simp add: shut_out_def)
  have applicable: "?moved t \<Longrightarrow> leaves_index (ensure_index_causally_applicable V r) (\<lambda>_. ?moved) t" for t r
    by (elim exE) (auto intro!: leaves_applicable)
  show ?thesis
    unfolding recover_causal_change_def index_get_def bind option.case skip if_False
    apply (rule leaves_and_do [where P = "\<lambda>row t. row = fmlookup (ix_records (rp_index s)) (sr_path (cb_record b)) \<and> ?moved t"])
     apply (rule leaves_index_read, blast intro: sym)
    apply (elim conjE, hypsubst)
    apply (simp only: Let_def differs if_False)
    apply (rule leaves_and_do [where P = "\<lambda>_. ?moved"], rule leaves_require, blast)
    apply (cases "pc_state c = RollingBack", simp only: simp_thms if_True, rule leaves_rollback, simp only: if_False)
    apply (rule leaves_and_do [where P = "\<lambda>_. ?moved"], rule applicable, assumption)
    apply (rule leaves_and_do [where P = "\<lambda>d _. d = RollbackChange"], rule decided, assumption)
    by (simp add: leaves_rollback)
qed

text \<open>
  C29: a change whose writer was revoked never reaches the index. Once the revocation of a member is committed,
  and whatever operations of the registry follow, before and while the recovery runs, the recovery of a journalled
  change that this member wrote leaves the index as it is, whatever the host does meanwhile (failures, edits,
  interruptions). When it returns, the change was finished or indexed before, or it is journalled as rolled back;
  a row that diverged from the one the change was prepared against makes it fail, with the index untouched.
\<close>

theorem revoked_change_never_indexed:
  assumes "run_op (ss_registry A) now (RevokeMember (oc_share_id (ss_config A)) peer) cat = Some cat'"
    and "registry_reaches (ss_registry A) cat' tr (sh_catalog (rp_share s))"
    and "\<forall>g \<in> set (rp_revisions s). registry_revision (ss_registry A) g"
    and "pc_causal c = Some b" and "cb_authorization b = Some bytes" and "ss_context_from A bytes = Some context"
    and "rc_peer context = peer" and "recover_causal_change V (session_decision V A) c s = (outcome, s')"
  shows "rp_index s' = rp_index s \<and>
    (outcome = Done () \<longrightarrow> pc_root c \<noteq> rv_root V \<or> pc_state c \<in> {Committed, Aborted, RolledBack} \<or>
       row_of s (sr_path (cb_record b)) = Some (cb_record b) \<or>
       fmlookup (w_journal (rp_world s')) (pc_id c) = Some (c\<lparr>pc_state := RolledBack\<rparr>)) \<and>
    (pc_root c = rv_root V \<and> pc_state c \<notin> {Committed, Aborted, RolledBack} \<and>
       row_of s (sr_path (cb_record b)) \<notin> {Some (cb_record b), cb_precondition b} \<longrightarrow> outcome \<noteq> Done ())"
proof -
  have "shut_out A peer s" using assms(1-3) by (auto simp: shut_out_def list_all_iff)
  from leaves_revoked_change [OF this assms(4-7), of V] assms(8)
  have "rp_index s' = rp_index s" "outcome = Done () \<Longrightarrow> outcome_of_revoked V c b s s'"
    by (auto simp: wp_def same_index_def split: outcome.splits)
  moreover have "outcome \<noteq> Done ()" if "pc_root c = rv_root V \<and> pc_state c \<notin> {Committed, Aborted, RolledBack} \<and>
       row_of s (sr_path (cb_record b)) \<notin> {Some (cb_record b), cb_precondition b}"
    using that assms(4,8)
    by (auto simp: recover_causal_change_def index_get_def index_read_def on_index_def on_store_def require_def fail_def Let_def
        and_do_Done split: outcome.splits prod.splits if_splits)
  ultimately show ?thesis by (auto simp: outcome_of_revoked_def)
qed

section \<open>An undisturbed recovery\<close>

lemma still_tick: "w_script (rp_world s) = [] \<Longrightarrow> on_store tick s = (Done (), s)"
  by (simp add: on_store_def tick_def)

lemma still_read: "w_script (rp_world s) = [] \<Longrightarrow> f (rp_index s) = Inr x \<Longrightarrow> index_read f s = (Done x, s)"
  by (simp add: index_read_def on_index_def and_do_def still_tick)

lemma still_applicable:
  assumes "w_script (rp_world s) = []" "vv_get (sr_version r) (li_replica (rv_index V)) \<le> ix_replica_counter (rp_index s)"
    "causally_applicable (row_of s (sr_path r)) r = Inr ()"
  shows "ensure_index_causally_applicable V r s = (Done (), s)"
  unfolding ensure_index_causally_applicable_def replica_counter_def index_get_def
  using assms by (simp add: and_do_def still_read require_def ret_def lift_res_def)

lemma still_member:
  assumes "shut_out A peer s" "w_script (rp_world s) = []"
  obtains s' where "session_member A peer s = (Failed (InShare MemberRevoked), s')" "rp_world s' = rp_world s"
  using that shut_out_refused(1) [OF assms(1), of True] shut_out_refused(2) [OF assms(1), of _ _ True] still_tick [OF assms(2)]
  by (cases "rp_revisions s")
    (auto simp: session_member_def read_share_def visit_share_def enter_share_def and_do_def commit_share_def)

definition valid_context :: "share_session \<Rightarrow> sync_record \<Rightarrow> recovery_context \<Rightarrow> bool" where
  "valid_context A r context \<longleftrightarrow> rc_version context = 1 \<and> rc_share context = oc_share_id (ss_config A) \<and>
     rc_owner context = oc_owner (ss_config A) \<and> rc_record_hash context = logical_hash (se_hash (rg_share (ss_registry A))) r"

lemma still_decision:
  assumes "shut_out A (rc_peer context) s" "w_script (rp_world s) = []" "cb_authorization b = Some bytes"
    "ss_context_from A bytes = Some context" "valid_context A (cb_record b) context"
  obtains s' where "session_decision V A b s = (Done RollbackChange, s')" "rp_world s' = rp_world s"
proof -
  obtain t where "session_member A (rc_peer context) s = (Failed (InShare MemberRevoked), t)" "rp_world t = rp_world s"
    by (rule still_member [OF assms(1,2)])
  with that assms(3-5) show ?thesis
    by (simp add: session_decision_def and_do_def catch_def lift_res_def require_def ret_def ok_or_def valid_context_def)
qed

lemma recovered_entry:
  assumes "prepared_change S c w" "\<forall>t \<in> set tries. interruptible (snd t)"
    and "fmlookup (w_journal (fold (recovery_attempt S (pc_id c)) tries w)) (pc_id c) = Some entry"
  shows "entry = c\<lparr>pc_state := pc_state entry\<rparr>" "pc_state entry \<notin> {Committed, Aborted}"
proof -
  note pre = prepared_slots_at(2,3) [OF assms(1)]
  from attempts_somewhere [OF pre assms(2) prepared_slots_at(4) [OF assms(1)]] assms(3)
  obtain st \<sigma> where y: "Journal_Recovery.reaches S c (Prepared, view_slots c (w_fs w)) (st, \<sigma>)" and e: "entry = c\<lparr>pc_state := st\<rparr>"
    by (auto simp: somewhere_def holds_view_def)
  then show "entry = c\<lparr>pc_state := pc_state entry\<rparr>" by simp
  from along_stage [OF along_reaches [OF y along_start [OF pre(1)] pre(1)]] e
  show "pc_state entry \<notin> {Committed, Aborted}" by auto
qed

text \<open>
  C30: recovery undoes what a revoked member began. A change was prepared and any number of interrupted recovery
  attempts followed, which may have captured the original and installed the target; then the writer is revoked.
  The next recovery that nothing disturbs, for a record that still applies to the row it was prepared against,
  returns with the original object, or its absence, back at the destination, the entry journaled as rolled back
  and the index as before.
\<close>

theorem revoked_change_is_undone:
  assumes "prepared_change (rv_store V) c w" and "\<forall>t \<in> set tries. interruptible (snd t)"
    and "fmlookup (w_journal (fold (recovery_attempt (rv_store V) (pc_id c)) tries w)) (pc_id c) = Some entry"
    and "rp_world s = restart [] (fold (recovery_attempt (rv_store V) (pc_id c)) tries w)" and "pc_root c = rv_root V"
    and "run_op (ss_registry A) now (RevokeMember (oc_share_id (ss_config A)) (rc_peer context)) cat = Some cat'"
    and "registry_reaches (ss_registry A) cat' tr (sh_catalog (rp_share s))"
    and "\<forall>g \<in> set (rp_revisions s). registry_revision (ss_registry A) g"
    and "pc_causal c = Some b" and "cb_authorization b = Some bytes" and "ss_context_from A bytes = Some context"
    and "valid_context A (cb_record b) context"
    and "row_of s (sr_path (cb_record b)) = cb_precondition b" and "cb_precondition b \<noteq> Some (cb_record b)"
    and "causally_applicable (cb_precondition b) (cb_record b) = Inr ()"
    and "vv_get (sr_version (cb_record b)) (li_replica (rv_index V)) \<le> ix_replica_counter (rp_index s)"
  shows "\<exists>s'. recover_causal_change V (session_decision V A) entry s = (Done (), s') \<and> rp_index s' = rp_index s \<and>
    slot_at (w_fs (rp_world s')) (loc c Dest) = slot_at (w_fs w) (loc c Dest) \<and>
    fmlookup (w_journal (rp_world s')) (pc_id c) = Some (c\<lparr>pc_state := RolledBack\<rparr>)"
proof -
  let ?S = "rv_store V" and ?w = "restart [] (fold (recovery_attempt (rv_store V) (pc_id c)) tries w)"
  note entry = recovered_entry [OF assms(1-3)]
  have fields: "pc_causal entry = Some b" "pc_root entry = rv_root V"
    by (subst entry(1), simp add: assms(5,9))+
  have still: "w_script (rp_world s) = []" by (simp add: assms(4))
  have out: "shut_out A (rc_peer context) s" using assms(6-8) by (auto simp: shut_out_def list_all_iff)
  obtain r w' where run: "recover_entry ?S False entry ?w = (r, w')" by fastforce
  note ended = attempt_concludes [OF assms(1-3) run]
  from concluded_slots [OF ended(2)] have slots: "slot_at (w_fs w') (loc c Dest) = slot_at (w_fs w) (loc c Dest)"
    "fmlookup (w_journal w') (pc_id c) = Some (c\<lparr>pc_state := RolledBack\<rparr>)"
    by (simp_all add: view_slots_def)
  have rollback: "rollback_causal_change ?S entry (rp_world s) = (Done (c\<lparr>pc_state := RolledBack\<rparr>), w')" if "pc_state entry \<noteq> RolledBack"
    using run ended(1) that entry(2) by (simp add: recover_entry_def assms(4))
  have "\<exists>s'. recover_causal_change V (session_decision V A) entry s = (Done (), s') \<and> rp_world s' = w'"
  proof (cases "pc_state entry = RolledBack")
    case True
    with run show ?thesis
      by (simp add: recover_causal_change_def fields recover_entry_def ret_def assms(4))
  next
    case False
    obtain t where t: "session_decision V A b s = (Done RollbackChange, t)" "rp_world t = rp_world s"
      by (rule still_decision [OF out still assms(10-12)])
    have "ensure_index_causally_applicable V (cb_record b) s = (Done (), s)"
      by (rule still_applicable [OF still assms(16)]) (simp add: assms(13,15))
    moreover have "\<not> (\<exists>z. fmlookup (ix_records (rp_index s)) (sr_path (cb_record b)) = Some z \<and> to_sync_record z = cb_record b)"
      using assms(13,14) by auto
    ultimately show ?thesis using rollback [OF False] t False entry(2)
      by (auto simp: recover_causal_change_def fields index_get_def and_do_def still_read [OF still] Let_def assms(13,14)
          require_def ret_def on_store_def)
  qed
  moreover have "rp_index (snd (recover_causal_change V (session_decision V A) entry s)) = rp_index s"
    using leaves_revoked_change [OF out fields(1) assms(10,11) refl, of V]
    by (auto simp: wp_def same_index_def split: prod.splits outcome.splits)
  ultimately show ?thesis using slots by fastforce
qed

section \<open>A concrete recovery\<close>

definition revoked_record :: sync_record where
  "revoked_record = \<lparr>sr_schema_version = 1, sr_path = ''a'', sr_kind = Directory, sr_size = 0, sr_content_hash = None,
     sr_readonly = False, sr_version = fmap_of_list [(hash_fill 8, 1)], sr_tombstone = False\<rparr>"

definition revoked_binding :: causal_binding where
  "revoked_binding = \<lparr>cb_record = revoked_record, cb_precondition = None, cb_authorization = Some [1]\<rparr>"

definition revoked_change :: path_change where
  "revoked_change = example_change\<lparr>pc_causal := Some revoked_binding\<rparr>"

definition revoked_world :: world where
  "revoked_world = example_prepared_world\<lparr>w_journal := fmap_of_list [(''x1'', revoked_change)]\<rparr>"

definition revoked_context :: recovery_context where
  "revoked_context = \<lparr>rc_version = 1, rc_share = hash_fill 1, rc_owner = hash_fill 9, rc_peer = hash_fill 7, rc_epoch = 1,
     rc_record_hash = logical_hash (se_hash ref_share) revoked_record\<rparr>"

definition revoked_session :: share_session where
  "revoked_session = \<lparr>ss_registry = ref_registry, ss_config = example_config, ss_peer = hash_fill 7, ss_epoch = 1, ss_now = (\<lambda>_. 160),
     ss_version_len = (\<lambda>_. 0), ss_state_bytes = (\<lambda>_. []), ss_state_from = (\<lambda>_. None), ss_context_bytes = (\<lambda>_. [1]),
     ss_context_from = (\<lambda>b. if b = [1] then Some revoked_context else None)\<rparr>"

definition revoked_env :: replica_env where
  "revoked_env = \<lparr>rv_store = example_env, rv_index = example_li\<lparr>li_root := [''root'']\<rparr>, rv_now_ms = (\<lambda>_. 0), rv_cdc = (\<lambda>_ _ _ _. []),
     rv_peer = \<lparr>wp_next = (\<lambda>_. None), wp_encoded = (\<lambda>_. 100)\<rparr>, rv_available = (\<lambda>_ _. Inr 1000000), rv_eager = (\<lambda>_. False)\<rparr>"

definition revoked_replica :: "world \<Rightarrow> catalog \<Rightarrow> replica" where
  "revoked_replica w cat = \<lparr>rp_world = w, rp_index = empty_index, rp_log = [],
     rp_share = \<lparr>sh_catalog = cat, sh_enabled = True, sh_connections = fmempty, sh_next_connection = 1\<rparr>, rp_revisions = [\<lambda>sh. sh]\<rparr>"

lemma revoked_prepared: "prepared_change (rv_store revoked_env) revoked_change revoked_world"
proof -
  have "ready example_env revoked_change example_prepared_tree"
    by (simp add: ready_def revoked_change_def example_change_def example_env_def trash_dir_def valid_id_def is_ascii_alphanumeric_def
        byte_of_def components_def plain_path_def apart_def with_extension_def file_stem_def dir_meta_def destination_of_def
        example_prepared_tree_def example_meta_def)
  moreover have "prepared_slots example_env revoked_change (view_slots revoked_change example_prepared_tree)"
    by (simp add: prepared_slots_def view_slots_def slot_at_def loc.simps destination_of_def revoked_change_def example_change_def components_def
        example_prepared_tree_def expected_object_def staged_object_def)
  ultimately show ?thesis
    by (simp add: prepared_change_def revoked_world_def example_prepared_world_def revoked_env_def)
      (simp add: revoked_change_def example_change_def)
qed

lemma revoked_catalog:
  obtains cat' where "run_op (ss_registry revoked_session) 130 (RevokeMember (oc_share_id (ss_config revoked_session)) (hash_fill 7)) example_catalog = Some cat'"
  by (simp add: revoked_session_def revoke_member_def reg_update_def reg_read_def ensure_def share_lookup_def ok_or_def checked_add_def
      example_catalog_def put_entry_def fresh_catalog_def Share_Props.example_entry_def example_member_def ref_registry_def)

lemma revoked_revisions: "\<forall>g \<in> set (rp_revisions (revoked_replica w cat)). registry_revision (ss_registry revoked_session) g"
  by (auto simp: revoked_replica_def registry_revision_def intro: Share_Laws.reaches.start)

lemma revoked_facts: "pc_causal revoked_change = Some revoked_binding" "cb_authorization revoked_binding = Some [1]"
  "ss_context_from revoked_session [1] = Some revoked_context" "rc_peer revoked_context = hash_fill 7"
  "pc_root revoked_change = rv_root revoked_env" "valid_context revoked_session (cb_record revoked_binding) revoked_context"
  "row_of (revoked_replica w cat) (sr_path (cb_record revoked_binding)) = cb_precondition revoked_binding"
  "cb_precondition revoked_binding \<noteq> Some (cb_record revoked_binding)"
  "causally_applicable (cb_precondition revoked_binding) (cb_record revoked_binding) = Inr ()"
  "vv_get (sr_version (cb_record revoked_binding)) (li_replica (rv_index revoked_env)) \<le> ix_replica_counter (rp_index (revoked_replica w cat))"
  "sh_catalog (rp_share (revoked_replica w cat)) = cat" "rp_world (revoked_replica w cat) = w" "rp_index (revoked_replica w cat) = empty_index"
  by (simp_all add: revoked_change_def revoked_binding_def revoked_session_def revoked_context_def revoked_env_def example_change_def
      valid_context_def ref_registry_def revoked_replica_def empty_index_def causally_applicable_def revoked_record_def example_li_def)

theorem revoked_change_never_indexed_witness:
  "\<exists>cat'. rp_index (snd (recover_causal_change revoked_env (session_decision revoked_env revoked_session) revoked_change
     (revoked_replica (restart (replicate 12 Proceed @ [Fault]) revoked_world) cat'))) = empty_index"
proof -
  obtain cat' where op: "run_op (ss_registry revoked_session) 130 (RevokeMember (oc_share_id (ss_config revoked_session)) (hash_fill 7)) example_catalog = Some cat'"
    by (rule revoked_catalog)
  have "registry_reaches (ss_registry revoked_session) cat' []
      (sh_catalog (rp_share (revoked_replica (restart (replicate 12 Proceed @ [Fault]) revoked_world) cat')))"
    by (simp add: revoked_facts Share_Laws.reaches.start)
  from revoked_change_never_indexed [OF op this revoked_revisions revoked_facts(1-4) prod.collapse [symmetric], of revoked_env]
  show ?thesis by (auto simp: revoked_facts(13))
qed

theorem revoked_change_is_undone_witness:
  "\<exists>entry cat' s'. recover_causal_change revoked_env (session_decision revoked_env revoked_session) entry
      (revoked_replica (restart [] (fold (recovery_attempt (rv_store revoked_env) (pc_id revoked_change)) example_tries revoked_world)) cat') = (Done (), s') \<and>
    slot_at (w_fs (rp_world s')) (loc revoked_change Dest) = Some (unstamped (FileNode (example_meta 3) [1, 2, 3]))"
proof -
  obtain cat' where op: "run_op (ss_registry revoked_session) 130 (RevokeMember (oc_share_id (ss_config revoked_session)) (rc_peer revoked_context)) example_catalog = Some cat'"
    unfolding revoked_facts(4) by (rule revoked_catalog)
  let ?w = "fold (recovery_attempt (rv_store revoked_env) (pc_id revoked_change)) example_tries revoked_world"
  let ?s = "revoked_replica (restart [] ?w) cat'"
  obtain entry where entry: "fmlookup (w_journal ?w) (pc_id revoked_change) = Some entry"
    using attempts_somewhere [OF prepared_slots_at(2,3) [OF revoked_prepared] example_interruptible prepared_slots_at(4) [OF revoked_prepared]]
    by (auto simp: somewhere_def holds_view_def)
  have at: "registry_reaches (ss_registry revoked_session) cat' [] (sh_catalog (rp_share ?s))"
    by (simp add: revoked_facts Share_Laws.reaches.start)
  have "slot_at (w_fs revoked_world) (loc revoked_change Dest) = Some (unstamped (FileNode (example_meta 3) [1, 2, 3]))"
    by (simp add: slot_at_def loc.simps destination_of_def revoked_change_def example_change_def components_def revoked_world_def
        example_prepared_world_def example_prepared_tree_def)
  with revoked_change_is_undone [OF revoked_prepared example_interruptible entry revoked_facts(12) revoked_facts(5) op at revoked_revisions
      revoked_facts(1-3,6-10)]
  show ?thesis by (intro exI [of _ entry] exI [of _ cat']) auto
qed

end
