(* ===== verification/Index_Open.thy ===== *)
theory Index_Open
  imports Index_Props
begin

text \<open>
  Opening an index (\<^verbatim>\<open>crates/deltaweave-index/src/lib.rs\<close>): the configuration table that binds a database to
  one schema, root and replica, and the ignored paths computed by \<open>LocalIndex::open\<close>. Inspection and
  creation of the files themselves is the operating system's; the canonical root, the resolved database
  path and the absolute ignored paths are arguments.
\<close>

section \<open>The binding\<close>

definition root_binding :: "externs \<Rightarrow> string \<Rightarrow> string \<Rightarrow> hash32" where
  "root_binding E os root_bytes =
     digest E (str_bytes (''deltaweave-index-root-v1'' @ [CHR 0x00]) @ str_bytes os @ [0] @ str_bytes root_bytes)"

definition binding_entries :: "externs \<Rightarrow> string \<Rightarrow> string \<Rightarrow> replica_id \<Rightarrow> (string \<times> u8 list) list" where
  "binding_entries E os root_bytes replica =
     [(''schema'', to_le_bytes INDEX_SCHEMA_V1), (''root'', as_bytes (root_binding E os root_bytes)), (''replica'', as_bytes replica)]"

datatype bind_error = BoundElsewhere string | BindingMissing string | InvalidReplicaBinding | SchemaMismatch | RootMismatch
  | IgnoredContainsRoot

definition bind_entry :: "string \<times> u8 list \<Rightarrow> (string, u8 list) fmap \<Rightarrow> bind_error + (string, u8 list) fmap" where
  "bind_entry entry config = (case entry of (key, value) \<Rightarrow> (case fmlookup config key of
     Some existing \<Rightarrow> if existing \<noteq> value then Inl (BoundElsewhere key) else Inr config
   | None \<Rightarrow> Inr (fmupd key value config)))"

definition bind_database :: "externs \<Rightarrow> string \<Rightarrow> string \<Rightarrow> replica_id \<Rightarrow> (string, u8 list) fmap \<Rightarrow> bind_error + (string, u8 list) fmap" where
  "bind_database E os root_bytes replica config = fold_res bind_entry (binding_entries E os root_bytes replica) config"

definition read_bound_replica :: "externs \<Rightarrow> string \<Rightarrow> string \<Rightarrow> (string, u8 list) fmap option \<Rightarrow> bind_error + replica_id option" where
  "read_bound_replica E os root_bytes database = (case database of
     None \<Rightarrow> Inr None
   | Some config \<Rightarrow>
       and_then (ok_or (fmlookup config ''schema'') (BindingMissing ''schema'')) (\<lambda>schema.
       and_then (ensure (schema = to_le_bytes INDEX_SCHEMA_V1) SchemaMismatch) (\<lambda>_.
       and_then (ok_or (fmlookup config ''root'') (BindingMissing ''root'')) (\<lambda>root.
       and_then (ensure (root = as_bytes (root_binding E os root_bytes)) RootMismatch) (\<lambda>_.
       and_then (ok_or (fmlookup config ''replica'') (BindingMissing ''replica'')) (\<lambda>bytes.
         if length bytes = 32 then Inr (Some (from_bytes bytes)) else Inl InvalidReplicaBinding))))))"

section \<open>Ignored paths\<close>

definition database_ignored :: "string list \<Rightarrow> string list \<Rightarrow> string list list" where
  "database_ignored root database_path =
     (if prefix root database_path then
        if database_path \<noteq> [] \<and> butlast database_path \<noteq> root then [butlast database_path] else [database_path]
      else [])"

definition open_index :: "externs \<Rightarrow> string \<Rightarrow> string \<Rightarrow> local_index \<Rightarrow> string list list \<Rightarrow> string list \<Rightarrow> (string, u8 list) fmap \<Rightarrow>
    bind_error + (local_index \<times> (string, u8 list) fmap)" where
  "open_index E os root_bytes I ignored database_path config =
     and_then (bind_database E os root_bytes (li_replica I) config) (\<lambda>config'.
       let ignored_paths = remdups_adj (sort (ignored @ database_ignored (li_root I) database_path))
       in if list_ex (\<lambda>path. prefix path (li_root I)) ignored_paths then Inl IgnoredContainsRoot
          else Inr (I\<lparr>li_ignored_paths := ignored_paths\<rparr>, config'))"

section \<open>Laws\<close>

lemma bind_database_Inr:
  "bind_database E os root_bytes replica config = Inr config' \<longleftrightarrow>
    (\<forall>(k, v) \<in> set (binding_entries E os root_bytes replica). fmlookup config k = None \<or> fmlookup config k = Some v) \<and>
    config' = fmupd ''replica'' (as_bytes replica) (fmupd ''root'' (as_bytes (root_binding E os root_bytes))
      (fmupd ''schema'' (to_le_bytes INDEX_SCHEMA_V1) config))"
proof -
  have upd: "fmlookup m k = Some v \<Longrightarrow> fmupd k v m = m" for m :: "(string, u8 list) fmap" and k v
    by (rule fmap_ext) auto
  have step: "bind_entry (k, v) m = Inr m' \<longleftrightarrow> (fmlookup m k = None \<or> fmlookup m k = Some v) \<and> m' = fmupd k v m" for k v m m'
    by (auto simp: bind_entry_def upd split: option.splits)
  show ?thesis unfolding bind_database_def binding_entries_def
    by (auto simp: and_then_Inr_iff step)
qed

section \<open>Properties\<close>

text \<open>
  The binding of an index is permanent. After a successful open for a root and replica, opening again
  succeeds exactly for the same root binding and the same replica and then changes nothing; the stored
  replica can be read back exactly for that root.
\<close>
theorem index_binding_permanent:
  assumes "bind_database E os root_bytes replica config = Inr config'"
  shows "((\<exists>c. bind_database E os root_bytes2 replica2 config' = Inr c) \<longleftrightarrow>
      root_binding E os root_bytes2 = root_binding E os root_bytes \<and> replica2 = replica) \<and>
    bind_database E os root_bytes replica config' = Inr config' \<and>
    read_bound_replica E os root_bytes2 (Some config') =
      (if root_binding E os root_bytes2 = root_binding E os root_bytes then Inr (Some replica) else Inl RootMismatch)"
proof (intro conjI)
  let ?c = "fmupd ''replica'' (as_bytes replica) (fmupd ''root'' (as_bytes (root_binding E os root_bytes))
      (fmupd ''schema'' (to_le_bytes INDEX_SCHEMA_V1) config))"
  from assms have c: "config' = ?c" by (simp add: bind_database_Inr)
  show "(\<exists>c. bind_database E os root_bytes2 replica2 config' = Inr c) \<longleftrightarrow>
      root_binding E os root_bytes2 = root_binding E os root_bytes \<and> replica2 = replica"
    unfolding c bind_database_Inr by (auto simp: binding_entries_def)
  show "bind_database E os root_bytes replica config' = Inr config'"
    unfolding c bind_database_Inr by (auto simp: binding_entries_def intro!: fmap_ext)
  show "read_bound_replica E os root_bytes2 (Some config') =
      (if root_binding E os root_bytes2 = root_binding E os root_bytes then Inr (Some replica) else Inl RootMismatch)"
    unfolding c by (simp add: read_bound_replica_def ok_or_def ensure_def)
qed

theorem index_binding_permanent_witness:
  "\<exists>config'. bind_database example_externs ''linux'' ''/srv'' (hash_fill 1) fmempty = Inr config' \<and>
     \<not> (\<exists>c. bind_database example_externs ''linux'' ''/srv'' (hash_fill 2) config' = Inr c)"
proof -
  obtain config' where c: "bind_database example_externs ''linux'' ''/srv'' (hash_fill 1) fmempty = Inr config'"
    by (simp add: bind_database_Inr)
  from index_binding_permanent [OF c, of "''/srv''" "hash_fill 2"] c show ?thesis by simp
qed

text \<open>An opened index never ignores its own root, which is what the scan relies on.\<close>

lemma open_index_root:
  assumes "open_index E os root_bytes I ignored database_path config = Inr (I', config')"
  shows "\<not> path_is_ignored I' (li_root I')" "li_root I' = li_root I" "li_replica I' = li_replica I"
  using assms unfolding open_index_def Let_def
  by (auto simp: and_then_Inr_iff path_is_ignored_def list_ex_iff split: if_splits)

end
