(* ===== verification/Index_Watch.thy ===== *)
theory Index_Watch
  imports Index
begin

text \<open>
  The watcher of \<^verbatim>\<open>crates/deltaweave-index/src/lib.rs\<close>: the event coalescer and the polling loop that turns
  native events into scan triggers. Instants are nanoseconds on the monotonic clock; native events arrive
  as the list drained from the channel, and the normalization of an event path is a function argument.
\<close>

section \<open>The coalescer\<close>

record pending_batch =
  pb_first :: nat
  pb_last :: nat
  pb_event_count :: u64
  pb_rescan_required :: bool

record coalescer =
  ec_debounce :: nat
  ec_maximum_delay :: nat
  ec_pending :: "pending_batch option"

record watch_trigger =
  wt_event_count :: u64
  wt_rescan_required :: bool
  wt_changed_paths :: "string list list"

definition coalescer_new :: "nat \<Rightarrow> nat \<Rightarrow> coalescer" where
  "coalescer_new debounce maximum_delay =
     \<lparr>ec_debounce = debounce, ec_maximum_delay = max maximum_delay debounce, ec_pending = None\<rparr>"

definition coalescer_push :: "nat \<Rightarrow> bool \<Rightarrow> coalescer \<Rightarrow> coalescer" where
  "coalescer_push at rescan_required ec = ec\<lparr>ec_pending := Some (case ec_pending ec of
     Some p \<Rightarrow> p\<lparr>pb_last := at, pb_event_count := saturating_add (pb_event_count p) 1,
       pb_rescan_required := pb_rescan_required p \<or> rescan_required\<rparr>
   | None \<Rightarrow> \<lparr>pb_first = at, pb_last = at, pb_event_count = 1, pb_rescan_required = rescan_required\<rparr>)\<rparr>"

definition take_ready :: "nat \<Rightarrow> coalescer \<Rightarrow> watch_trigger option \<times> coalescer" where
  "take_ready now ec = (case ec_pending ec of
     None \<Rightarrow> (None, ec)
   | Some p \<Rightarrow>
       let quiet_deadline = pb_last p + ec_debounce ec; maximum_deadline = pb_first p + ec_maximum_delay ec
       in if \<not> pb_rescan_required p \<and> now < quiet_deadline \<and> now < maximum_deadline then (None, ec)
          else (Some \<lparr>wt_event_count = pb_event_count p, wt_rescan_required = pb_rescan_required p, wt_changed_paths = []\<rparr>,
                ec\<lparr>ec_pending := None\<rparr>))"

section \<open>The polling loop\<close>

datatype event_kind = AccessEvent | AnyEvent | OtherEvent | ChangeEvent

datatype native_event = NativeEvent event_kind "string list list" | NativeError

record watch_service =
  ws_coalescer :: coalescer
  ws_ignored_paths :: "string list list"
  ws_changed_paths :: "string list fset"

definition all_ignored :: "string list list \<Rightarrow> string list list \<Rightarrow> bool" where
  "all_ignored ignored paths \<longleftrightarrow> paths \<noteq> [] \<and> list_all (\<lambda>path. list_ex (\<lambda>i. prefix i path) ignored) paths"

fun take_event :: "(string list \<Rightarrow> string list) \<Rightarrow> nat \<Rightarrow> native_event \<Rightarrow> watch_service \<Rightarrow> watch_service" where
  "take_event absolute now NativeError ws = ws\<lparr>ws_coalescer := coalescer_push now True (ws_coalescer ws)\<rparr>"
| "take_event absolute now (NativeEvent kind paths) ws =
     (let paths' = map absolute paths in
      if kind = AccessEvent then ws
      else if all_ignored (ws_ignored_paths ws) paths' then ws
      else ws\<lparr>ws_changed_paths := ws_changed_paths ws |\<union>| fset_of_list paths',
             ws_coalescer := coalescer_push now (kind = AnyEvent \<or> kind = OtherEvent) (ws_coalescer ws)\<rparr>)"

definition poll :: "(string list \<Rightarrow> string list) \<Rightarrow> nat \<Rightarrow> native_event list \<Rightarrow> watch_service \<Rightarrow> watch_trigger option \<times> watch_service" where
  "poll absolute now events ws =
     (let ws' = fold (take_event absolute now) events ws
      in case take_ready now (ws_coalescer ws') of
        (None, ec) \<Rightarrow> (None, ws'\<lparr>ws_coalescer := ec\<rparr>)
      | (Some trigger, ec) \<Rightarrow> (Some (trigger\<lparr>wt_changed_paths := sorted_list_of_fset (ws_changed_paths ws')\<rparr>),
          ws'\<lparr>ws_coalescer := ec, ws_changed_paths := {||}\<rparr>))"

section \<open>Laws\<close>

text \<open>A run of the service: the polls made so far, each with its instant and drained events.\<close>

fun run_polls :: "(string list \<Rightarrow> string list) \<Rightarrow> (nat \<times> native_event list) list \<Rightarrow> watch_service \<Rightarrow> watch_trigger list \<times> watch_service" where
  "run_polls absolute [] ws = ([], ws)"
| "run_polls absolute ((now, events) # polls) ws =
     (case poll absolute now events ws of (trigger, ws') \<Rightarrow>
        (case run_polls absolute polls ws' of (triggers, ws'') \<Rightarrow>
           ((case trigger of None \<Rightarrow> triggers | Some t \<Rightarrow> t # triggers), ws'')))"

text \<open>Whether an event has to cause a scan, and whether a path is reported or a full rescan requested.\<close>

definition relevant :: "string list list \<Rightarrow> (string list \<Rightarrow> string list) \<Rightarrow> native_event \<Rightarrow> bool" where
  "relevant ignored absolute event = (case event of NativeError \<Rightarrow> True
     | NativeEvent kind paths \<Rightarrow> kind \<noteq> AccessEvent \<and> \<not> all_ignored ignored (map absolute paths))"

fun event_paths :: "(string list \<Rightarrow> string list) \<Rightarrow> native_event \<Rightarrow> string list set" where
  "event_paths absolute NativeError = {}"
| "event_paths absolute (NativeEvent kind paths) = set (map absolute paths)"

fun event_ambiguous :: "native_event \<Rightarrow> bool" where
  "event_ambiguous NativeError = True"
| "event_ambiguous (NativeEvent kind paths) = (kind = AnyEvent \<or> kind = OtherEvent)"

text \<open>
  What is waiting in the service covers an event: its paths are collected, its ambiguity is kept, and the batch
  began no later than an instant. Instants do not go back.
\<close>

definition began_by :: "nat \<Rightarrow> watch_service \<Rightarrow> bool" where
  "began_by T ws \<longleftrightarrow> (\<forall>p. ec_pending (ws_coalescer ws) = Some p \<longrightarrow> pb_first p \<le> T)"

definition holds_event :: "(string list \<Rightarrow> string list) \<Rightarrow> native_event \<Rightarrow> nat \<Rightarrow> watch_service \<Rightarrow> bool" where
  "holds_event absolute event T ws \<longleftrightarrow>
     (\<exists>p. ec_pending (ws_coalescer ws) = Some p \<and> pb_first p \<le> T \<and> (event_ambiguous event \<longrightarrow> pb_rescan_required p)) \<and>
     event_paths absolute event \<subseteq> fset (ws_changed_paths ws)"

definition reports_event :: "(string list \<Rightarrow> string list) \<Rightarrow> native_event \<Rightarrow> watch_trigger \<Rightarrow> bool" where
  "reports_event absolute event t \<longleftrightarrow> (event_ambiguous event \<longrightarrow> wt_rescan_required t) \<and> event_paths absolute event \<subseteq> set (wt_changed_paths t)"

lemma push_pending:
  "\<exists>p. ec_pending (coalescer_push at amb ec) = Some p \<and> (amb \<longrightarrow> pb_rescan_required p) \<and>
     (\<forall>q. ec_pending ec = Some q \<longrightarrow> pb_first p = pb_first q \<and> (pb_rescan_required q \<longrightarrow> pb_rescan_required p)) \<and>
     (ec_pending ec = None \<longrightarrow> pb_first p = at)"
  by (auto simp: coalescer_push_def split: option.splits)

lemma take_event_ignored [simp]: "ws_ignored_paths (take_event absolute now e ws) = ws_ignored_paths ws"
  by (cases "(absolute, now, e, ws)" rule: take_event.cases) (auto simp: Let_def)

lemma take_event_began: "began_by now ws \<Longrightarrow> began_by now (take_event absolute now e ws)"
  using push_pending [of now "event_ambiguous e" "ws_coalescer ws"]
  by (cases e; cases "ec_pending (ws_coalescer ws)") (auto simp: began_by_def Let_def)

lemma take_event_holds_new:
  "relevant (ws_ignored_paths ws) absolute e \<Longrightarrow> began_by now ws \<Longrightarrow> holds_event absolute e now (take_event absolute now e ws)"
  using push_pending [of now "event_ambiguous e" "ws_coalescer ws"]
  by (cases e; cases "ec_pending (ws_coalescer ws)") (auto simp: relevant_def holds_event_def began_by_def Let_def fset_of_list.rep_eq)

lemma take_event_holds_old:
  "holds_event absolute e T ws \<Longrightarrow> holds_event absolute e T (take_event absolute now e' ws)"
  using push_pending [of now "event_ambiguous e'" "ws_coalescer ws"]
  by (cases e') (auto simp: holds_event_def Let_def)

lemma fold_take_event_old:
  "holds_event absolute e T ws \<Longrightarrow> holds_event absolute e T (fold (take_event absolute now) events ws)"
  by (induction events arbitrary: ws) (auto intro: take_event_holds_old)

lemma fold_take_event_new:
  "e \<in> set events \<Longrightarrow> relevant (ws_ignored_paths ws) absolute e \<Longrightarrow> began_by now ws \<Longrightarrow>
   holds_event absolute e now (fold (take_event absolute now) events ws)"
proof (induction events arbitrary: ws)
  case (Cons a events)
  show ?case
  proof (cases "e = a")
    case True
    with Cons.prems take_event_holds_new show ?thesis by (simp add: fold_take_event_old)
  next
    case False
    with Cons.prems Cons.IH [of "take_event absolute now a ws"] show ?thesis by (simp add: take_event_began)
  qed
qed simp

lemma fold_take_event_began: "began_by now ws \<Longrightarrow> began_by now (fold (take_event absolute now) events ws)"
  by (induction events arbitrary: ws) (auto intro: take_event_began)

lemma fold_take_event_ignored [simp]: "ws_ignored_paths (fold (take_event absolute now) events ws) = ws_ignored_paths ws"
  by (induction events arbitrary: ws) auto

lemma push_delay [simp]: "ec_maximum_delay (coalescer_push at amb ec) = ec_maximum_delay ec"
  by (simp add: coalescer_push_def)

lemma take_event_delay [simp]:
  "ec_maximum_delay (ws_coalescer (take_event absolute now e ws)) = ec_maximum_delay (ws_coalescer ws)"
  by (cases e) (auto simp: Let_def)

lemma fold_take_event_delay [simp]:
  "ec_maximum_delay (ws_coalescer (fold (take_event absolute now) events ws)) = ec_maximum_delay (ws_coalescer ws)"
  by (induction events arbitrary: ws) auto

text \<open>A poll: what it keeps, what it reports, and when it has to report.\<close>

lemma poll_same:
  "poll absolute now events ws = (t, ws') \<Longrightarrow> ws_ignored_paths ws' = ws_ignored_paths ws \<and>
   ec_maximum_delay (ws_coalescer ws') = ec_maximum_delay (ws_coalescer ws)"
  by (auto simp: poll_def Let_def take_ready_def split: option.splits prod.splits if_splits)

lemma poll_began: "poll absolute now events ws = (t, ws') \<Longrightarrow> began_by T ws \<Longrightarrow> T \<le> now \<Longrightarrow> began_by now ws'"
proof -
  let ?ws = "fold (take_event absolute now) events ws"
  assume poll: "poll absolute now events ws = (t, ws')" and "began_by T ws" "T \<le> now"
  then have "began_by now ws" by (fastforce simp: began_by_def)
  then have "began_by now ?ws" by (rule fold_take_event_began)
  moreover have "ec_pending (ws_coalescer ws') = None \<or> ec_pending (ws_coalescer ws') = ec_pending (ws_coalescer ?ws)"
    using poll by (auto simp: poll_def Let_def take_ready_def split: option.splits prod.splits if_splits)
  ultimately show "began_by now ws'" by (auto simp: began_by_def)
qed

lemma poll_folded:
  assumes "holds_event absolute e T (fold (take_event absolute now) events ws)" "poll absolute now events ws = (t, ws')"
  shows "case t of None \<Rightarrow> holds_event absolute e T ws' \<and> now < T + ec_maximum_delay (ws_coalescer ws)
    | Some trigger \<Rightarrow> reports_event absolute e trigger"
proof -
  let ?ws = "fold (take_event absolute now) events ws"
  from assms(1) obtain p where p: "ec_pending (ws_coalescer ?ws) = Some p" "pb_first p \<le> T" "event_ambiguous e \<longrightarrow> pb_rescan_required p"
    "event_paths absolute e \<subseteq> fset (ws_changed_paths ?ws)" by (auto simp: holds_event_def)
  show ?thesis
  proof (cases "\<not> pb_rescan_required p \<and> now < pb_last p + ec_debounce (ws_coalescer ?ws) \<and> now < pb_first p + ec_maximum_delay (ws_coalescer ?ws)")
    case True
    with assms(2) p(1) have "t = None" "ws' = ?ws" by (simp_all add: poll_def Let_def take_ready_def)
    with True assms(1) p(2) show ?thesis by simp
  next
    case False
    with assms(2) p(1) have "t = Some \<lparr>wt_event_count = pb_event_count p, wt_rescan_required = pb_rescan_required p,
        wt_changed_paths = sorted_list_of_fset (ws_changed_paths ?ws)\<rparr>" by (auto simp: poll_def Let_def take_ready_def)
    with p(3,4) show ?thesis by (simp add: reports_event_def)
  qed
qed

lemma run_polls_holds:
  assumes "holds_event absolute e T ws" "run_polls absolute polls ws = (ts, ws')"
  shows "(\<exists>t \<in> set ts. reports_event absolute e t) \<or> holds_event absolute e T ws'"
  using assms
proof (induction polls arbitrary: ws ts)
  case (Cons poll1 polls)
  obtain now events where p: "poll1 = (now, events)" by (cases poll1)
  obtain t ws1 where t: "poll absolute now events ws = (t, ws1)" by (cases "poll absolute now events ws")
  obtain ts1 where ts1: "run_polls absolute polls ws1 = (ts1, ws')"
    using Cons.prems(2) by (auto simp: p t split: prod.splits)
  have ts: "ts = (case t of None \<Rightarrow> ts1 | Some t \<Rightarrow> t # ts1)" using Cons.prems(2) by (simp add: p t ts1)
  from poll_folded [OF fold_take_event_old [OF Cons.prems(1)] t] show ?case
    using Cons.IH [OF _ ts1] by (auto simp: ts split: option.splits)
qed auto

lemma run_polls_same:
  "run_polls absolute polls ws = (ts, ws') \<Longrightarrow> ws_ignored_paths ws' = ws_ignored_paths ws \<and>
   ec_maximum_delay (ws_coalescer ws') = ec_maximum_delay (ws_coalescer ws)"
proof (induction polls arbitrary: ws ts)
  case (Cons poll1 polls)
  then show ?case by (cases poll1) (fastforce split: prod.splits dest: poll_same)
qed simp

lemma run_polls_began:
  "run_polls absolute polls ws = (ts, ws') \<Longrightarrow> began_by T ws \<Longrightarrow> sorted (T # map fst polls) \<Longrightarrow> \<forall>t \<in> fst ` set polls. t \<le> T' \<Longrightarrow> T \<le> T' \<Longrightarrow>
   began_by T' ws'"
proof (induction polls arbitrary: T ws ts)
  case Nil
  then show ?case by (auto simp: began_by_def)
next
  case (Cons poll1 polls)
  obtain now events where p: "poll1 = (now, events)" by (cases poll1)
  obtain t ws1 where t: "poll absolute now events ws = (t, ws1)" by (cases "poll absolute now events ws")
  obtain ts1 where ts1: "run_polls absolute polls ws1 = (ts1, ws')"
    using Cons.prems(1) by (auto simp: p t split: prod.splits)
  have "began_by now ws1" using poll_began [OF t Cons.prems(2)] Cons.prems(3) by (simp add: p)
  from Cons.IH [OF ts1 this] Cons.prems(3,4) show ?case by (simp add: p)
qed

section \<open>Properties\<close>

text \<open>
  C38: the watcher loses no change and delays none beyond the hard limit. Every relevant native event (one
  that is an error, or a change not entirely below ignored paths) that a poll drains at some instant is covered
  by a trigger that this poll or a later one returns, which names its paths and requests a rescan when the
  event was ambiguous, or it is still held, and then the first poll at or after that instant plus the maximum
  delay returns such a trigger, however many further events keep arriving.
\<close>
theorem watch_reports_every_change:
  assumes "ec_pending (ws_coalescer ws) = None" and "run_polls absolute earlier ws = (past_triggers, ws0)"
    and "run_polls absolute ((now0, events0) # later) ws0 = (triggers, ws')"
    and "sorted (map fst (earlier @ [(now0, events0)]))"
    and "event \<in> set events0" and "relevant (ws_ignored_paths ws) absolute event"
  shows "(\<exists>t \<in> set triggers. reports_event absolute event t) \<or>
    (\<forall>now events. now0 + ec_maximum_delay (ws_coalescer ws) \<le> now \<longrightarrow>
      (\<exists>t. fst (poll absolute now events ws') = Some t \<and> reports_event absolute event t))"
proof (cases "\<exists>t \<in> set triggers. reports_event absolute event t")
  case False
  have "began_by 0 ws" using assms(1) by (simp add: began_by_def)
  with assms(2,4) have began: "began_by now0 ws0" by (intro run_polls_began [of absolute earlier ws past_triggers ws0 0]) (auto simp: sorted_append)
  obtain t ws1 where t: "poll absolute now0 events0 ws0 = (t, ws1)" by (cases "poll absolute now0 events0 ws0")
  obtain ts1 where ts1: "run_polls absolute later ws1 = (ts1, ws')" using assms(3) by (auto simp: t split: prod.splits)
  have triggers: "triggers = (case t of None \<Rightarrow> ts1 | Some t \<Rightarrow> t # ts1)" using assms(3) by (simp add: t ts1)
  have "holds_event absolute event now0 (fold (take_event absolute now0) events0 ws0)"
    using assms(5,6) run_polls_same [OF assms(2)] by (intro fold_take_event_new began) simp_all
  from poll_folded [OF this t] False triggers have "holds_event absolute event now0 ws1" by (auto split: option.splits)
  from run_polls_holds [OF this ts1] False triggers have held: "holds_event absolute event now0 ws'" by (auto split: option.splits)
  have delay: "ec_maximum_delay (ws_coalescer ws') = ec_maximum_delay (ws_coalescer ws)"
    using run_polls_same [OF assms(2)] run_polls_same [OF assms(3)] by simp
  have "\<exists>t. fst (poll absolute now events ws') = Some t \<and> reports_event absolute event t"
    if "now0 + ec_maximum_delay (ws_coalescer ws) \<le> now" for now events
  proof -
    obtain t1 ws2 where t1: "poll absolute now events ws' = (t1, ws2)" by (cases "poll absolute now events ws'")
    from poll_folded [OF fold_take_event_old [OF held] t1] that delay show ?thesis by (cases t1) (simp_all add: t1)
  qed
  then show ?thesis by blast
qed simp

definition example_watch :: watch_service where
  "example_watch = \<lparr>ws_coalescer = coalescer_new 10 50, ws_ignored_paths = [[''srv'', ''.state'']], ws_changed_paths = {||}\<rparr>"

theorem watch_reports_every_change_witness:
  "\<exists>t. fst (poll id 62 [NativeEvent ChangeEvent [[''srv'', ''c'']]] (snd (run_polls id [(12, [NativeEvent ChangeEvent [[''srv'', ''a'']]])]
       (snd (run_polls id [(5, [NativeEvent ChangeEvent [[''srv'', ''b'']]])] example_watch))))) = Some t \<and>
     [''srv'', ''a''] \<in> set (wt_changed_paths t)"
proof -
  let ?e = "NativeEvent ChangeEvent [[''srv'', ''a'']]" and ?b = "NativeEvent ChangeEvent [[''srv'', ''b'']]"
  let ?mid = "snd (run_polls id [(5, [?b])] example_watch)"
  let ?ws = "snd (run_polls id [(12, [?e])] ?mid)"
  have run: "run_polls id [(5, [?b])] example_watch = (fst (run_polls id [(5, [?b])] example_watch), ?mid)"
    "run_polls id [(12, [?e])] ?mid = ([], ?ws)"
    by simp (simp add: prod_eq_iff poll_def example_watch_def coalescer_new_def all_ignored_def coalescer_push_def take_ready_def)
  have fresh: "ec_pending (ws_coalescer example_watch) = None" "relevant (ws_ignored_paths example_watch) id ?e"
    "ec_maximum_delay (ws_coalescer example_watch) = 50"
    by (simp_all add: relevant_def example_watch_def all_ignored_def coalescer_new_def)
  have "\<exists>t. fst (poll id 62 [NativeEvent ChangeEvent [[''srv'', ''c'']]] ?ws) = Some t \<and> reports_event id ?e t"
    using watch_reports_every_change [OF fresh(1) run(1,2) _ _ fresh(2)] fresh(3) by simp
  then show ?thesis by (auto simp: reports_event_def)
qed

end
