(* ===== verification/Root_Admission.thy ===== *)
theory Root_Admission
  imports Store_World
begin

text \<open>
  Host-wide admission of roots (\<^verbatim>\<open>crates/deltaweave-net/src/root_admission.rs\<close>): a private registry records
  which directories are published or mutated by which share and which are private, and file locks record
  which of them are leased by a living process. The state is the file system, the two tables of the
  registry database with their encoded rows, and the lease files that are locked. The registry database and
  the locks change only through admission. One admission runs at a time, under the exclusive lock of the
  registry; each of its calls consumes one event of the script, so it may fail, be interrupted or meet an
  edit of the file system anywhere. Permission bits are read through a predicate of the environment.
\<close>

section \<open>Data\<close>

datatype root_use = Legacy | Managed "u8 list" "u8 list"

record root_entry =
  en_version :: u8
  en_root :: fs_path
  en_kind :: root_use
  en_preparing :: bool

datatype admission_error = AdmissionIo io_kind | Denied string | BadRow string

text \<open>
  What admission calls and does not define: the digests, the \<open>postcard\<close> codecs of paths and entries, the
  metadata of created objects, whether metadata shows a private mode, and where the registry is.
\<close>

record admission_env =
  ad_externs :: externs
  ad_path_bytes :: "fs_path \<Rightarrow> u8 list"
  ad_path_of :: "u8 list \<Rightarrow> fs_path option"
  ad_entry_bytes :: "root_entry \<Rightarrow> u8 list"
  ad_entry_of :: "u8 list \<Rightarrow> root_entry option"
  ad_host :: "nat \<Rightarrow> node_meta"
  ad_private_mode :: "node_meta \<Rightarrow> bool"
  ad_registry :: fs_path

record host =
  h_fs :: fs_node
  h_roots :: "(string, u8 list) fmap"
  h_private :: "(string, u8 list) fmap"
  h_leases :: "string fset"
  h_clock :: nat
  h_script :: "env_event list"

type_synonym 'a hprog = "(host, admission_error, 'a) prog"

record root_lease =
  rl_root :: fs_path
  rl_key :: string

section \<open>Calls\<close>

definition htick :: "unit hprog" where
  "htick h = (case h_script h of
     [] \<Rightarrow> (Done (), h)
   | Proceed # es \<Rightarrow> (Done (), h\<lparr>h_script := es\<rparr>)
   | Fault # es \<Rightarrow> (Failed (AdmissionIo IoOther), h\<lparr>h_script := es\<rparr>)
   | Interrupt # es \<Rightarrow> (Halted, h\<lparr>h_script := es\<rparr>)
   | LocalEdit f # es \<Rightarrow> (Done (), h\<lparr>h_script := es, h_fs := f (h_fs h)\<rparr>))"

definition hread :: "(host \<Rightarrow> admission_error + 'a) \<Rightarrow> 'a hprog" where
  "hread f = and_do htick (\<lambda>_ h. lift_res (f h) h)"

definition hquery :: "(fs_node \<Rightarrow> admission_error + 'a) \<Rightarrow> 'a hprog" where
  "hquery f = hread (\<lambda>h. f (h_fs h))"

definition hupdate :: "(nat \<Rightarrow> fs_node \<Rightarrow> admission_error + fs_node) \<Rightarrow> unit hprog" where
  "hupdate f = and_do htick (\<lambda>_ h. case f (h_clock h) (h_fs h) of
     Inl e \<Rightarrow> (Failed e, h) | Inr fs \<Rightarrow> (Done (), h\<lparr>h_fs := fs, h_clock := Suc (h_clock h)\<rparr>))"

definition aio :: "io_kind + 'a \<Rightarrow> admission_error + 'a" where
  "aio r = map_err AdmissionIo r"

definition hcanonicalize :: "fs_path \<Rightarrow> fs_path hprog" where
  "hcanonicalize p = hquery (\<lambda>fs. aio (fs_canonicalize fs p))"

definition hsync :: "fs_path \<Rightarrow> unit hprog" where
  "hsync p = hquery (\<lambda>fs. and_then (aio (fs_metadata fs p)) (\<lambda>_. Inr ()))"

definition try_exists :: "fs_path \<Rightarrow> fs_node \<Rightarrow> admission_error + bool" where
  "try_exists p fs = (case fs_metadata fs p of Inr _ \<Rightarrow> Inr True
     | Inl e \<Rightarrow> if e = IoNotFound then Inr False else Inl (AdmissionIo e))"

definition read_bytes :: "fs_path \<Rightarrow> fs_node \<Rightarrow> admission_error + u8 list" where
  "read_bytes p fs = and_then (aio (fs_metadata fs p)) (\<lambda>n. case n of
     FileNode _ b \<Rightarrow> Inr b | DirNode _ _ \<Rightarrow> Inl (AdmissionIo IoIsADirectory) | _ \<Rightarrow> Inl (AdmissionIo IoOther))"

definition make_dirs :: "admission_env \<Rightarrow> fs_path \<Rightarrow> unit hprog" where
  "make_dirs S p = for_each (\<lambda>k. hupdate (\<lambda>now fs.
     if fs_is_dir fs (take k p) then Inr fs else aio (fs_create_dir (ad_host S now) (take k p) fs))) [1..<Suc (length p)]"

definition private_directory :: "admission_env \<Rightarrow> fs_path \<Rightarrow> unit hprog" where
  "private_directory S p =
     and_do (make_dirs S p) (\<lambda>_.
     and_do (hsync p) (\<lambda>_.
     and_do (if p = [] then ret () else hsync (butlast p)) (\<lambda>_.
     and_do (hquery (\<lambda>fs. aio (fs_stat fs p))) (\<lambda>n.
     and_do (require (\<forall>m t. n \<noteq> LinkNode m t) (Denied ''private directory must not be a symlink'')) (\<lambda>_.
     and_do (hquery (\<lambda>fs. aio (fs_metadata fs p))) (\<lambda>n.
       require (ad_private_mode S (node_meta n)) (Denied ''private directory permissions are too broad'')))))))"

definition fs_open_private :: "node_meta \<Rightarrow> fs_path \<Rightarrow> fs_node \<Rightarrow> admission_error + fs_node" where
  "fs_open_private m p fs = and_then (aio (fs_entry fs p)) (\<lambda>q. case fs_lookup fs q of
     None \<Rightarrow> Inr (fs_put (Some (FileNode m [])) q fs)
   | Some (LinkNode _ _) \<Rightarrow> Inl (Denied ''private file must not be a symlink'')
   | Some (DirNode _ _) \<Rightarrow> Inl (AdmissionIo IoIsADirectory)
   | Some _ \<Rightarrow> Inr fs)"

definition private_file :: "admission_env \<Rightarrow> fs_path \<Rightarrow> unit hprog" where
  "private_file S p = hupdate (\<lambda>now. fs_open_private (ad_host S now) p)"

section \<open>Names and rows\<close>

text \<open>\<open>Path::starts_with\<close> compares whole components.\<close>

definition overlaps :: "fs_path \<Rightarrow> fs_path \<Rightarrow> bool" where
  "overlaps a b \<longleftrightarrow> prefix b a \<or> prefix a b"

definition root_binding :: "admission_env \<Rightarrow> fs_path \<Rightarrow> string" where
  "root_binding S root = to_hex (ad_externs S) (digest (ad_externs S) (ad_path_bytes S root))"

definition sidecar_path :: "admission_env \<Rightarrow> fs_path \<Rightarrow> admission_error + fs_path" where
  "sidecar_path S root = (if root = [] then Inl (Denied ''managed root requires a usable parent'')
     else Inr (butlast root @ [''.deltaweave-'' @ root_binding S root @ ''.managed'']))"

fun resolve_below :: "fs_node \<Rightarrow> fs_path \<Rightarrow> string list \<Rightarrow> admission_error + fs_path" where
  "resolve_below fs root [] = Inr root"
| "resolve_below fs root (c # cs) =
     (if c = [] \<or> c = ''.'' then resolve_below fs root cs
      else if c = ''..'' then resolve_below fs (butlast root) cs
      else case fs_stat fs (root @ [c]) of
        Inr _ \<Rightarrow> and_then (aio (fs_canonicalize fs (root @ [c]))) (\<lambda>r. resolve_below fs r cs)
      | Inl e \<Rightarrow> if e = IoNotFound then resolve_below fs (root @ [c]) cs else Inl (AdmissionIo e))"

definition prospective_root :: "fs_path \<Rightarrow> fs_path hprog" where
  "prospective_root p = hquery (\<lambda>fs. resolve_below fs [] p)"

definition persist :: "admission_env \<Rightarrow> string \<Rightarrow> root_entry \<Rightarrow> unit hprog" where
  "persist S key entry = and_do htick (\<lambda>_ h. (Done (), h\<lparr>h_roots := fmupd key (ad_entry_bytes S entry) (h_roots h)\<rparr>))"

text \<open>Creating the marker, writing it and synchronising it are separate calls.\<close>

definition fill_marker :: "fs_path \<Rightarrow> u8 list \<Rightarrow> fs_node \<Rightarrow> admission_error + fs_node" where
  "fill_marker p bytes fs = and_then (aio (fs_entry fs p)) (\<lambda>q. case fs_lookup fs q of
     Some (FileNode m b) \<Rightarrow> Inr (fs_put (Some (FileNode m (b @ bytes))) q fs)
   | _ \<Rightarrow> Inr fs)"

definition write_marker :: "admission_env \<Rightarrow> root_entry \<Rightarrow> unit hprog" where
  "write_marker S entry = and_do (lift_res (sidecar_path S (en_root entry))) (\<lambda>p.
     let bytes = ad_entry_bytes S (entry\<lparr>en_preparing := False\<rparr>) in
     and_do (hquery (\<lambda>fs. Inr (fs_exists fs p))) (\<lambda>there.
     if there then
       and_do (hquery (read_bytes p)) (\<lambda>stored. require (stored = bytes) (Denied ''managed ownership marker mismatch''))
     else
       and_do (hupdate (\<lambda>now fs. and_then (aio (fs_entry fs p)) (\<lambda>q.
         if fs_lookup fs q \<noteq> None then Inl (AdmissionIo IoAlreadyExists)
         else Inr (fs_put (Some (FileNode (ad_host S now) [])) q fs)))) (\<lambda>_.
       and_do (hupdate (\<lambda>_. fill_marker p bytes)) (\<lambda>_.
       and_do (hsync p) (\<lambda>_.
         hsync (butlast p))))))"

definition entry_row :: "admission_env \<Rightarrow> string \<times> u8 list \<Rightarrow> admission_error + (string \<times> root_entry)" where
  "entry_row S row = (case row of (key, bytes) \<Rightarrow>
     and_then (ensure (length bytes \<le> 32768) (BadRow ''admission entry too large'')) (\<lambda>_.
     and_then (ok_or (ad_entry_of S bytes) (BadRow ''admission entry does not decode'')) (\<lambda>entry.
     and_then (ensure (ad_entry_bytes S entry = bytes \<and> (\<not> en_preparing entry \<or> en_kind entry \<noteq> Legacy))
                 (BadRow ''invalid admission encoding'')) (\<lambda>_.
     and_then (ensure (en_version entry = 1 \<and> root_binding S (en_root entry) = key) (BadRow ''invalid admission binding'')) (\<lambda>_.
       Inr (key, entry))))))"

definition private_row :: "admission_env \<Rightarrow> string \<times> u8 list \<Rightarrow> admission_error + fs_path" where
  "private_row S row = (case row of (key, bytes) \<Rightarrow>
     and_then (ensure (length bytes \<le> 32768) (BadRow ''private reservation too large'')) (\<lambda>_.
     and_then (ok_or (ad_path_of S bytes) (BadRow ''private reservation does not decode'')) (\<lambda>root.
     and_then (ensure (ad_path_bytes S root = bytes \<and> root_binding S root = key) (BadRow ''invalid private reservation'')) (\<lambda>_.
       Inr root))))"

definition read_admission :: "admission_env \<Rightarrow> ((string \<times> root_entry) list \<times> fs_path list) hprog" where
  "read_admission S = hread (\<lambda>h.
     and_then (collect_res (entry_row S) (sorted_list_of_fmap (h_roots h))) (\<lambda>entries.
     and_then (collect_res (private_row S) (sorted_list_of_fmap (h_private h))) (\<lambda>private. Inr (entries, private))))"

section \<open>Admission\<close>

text \<open>\<open>try_lock_exclusive(..).is_err()\<close> on a lease file: any failure counts as locked.\<close>

definition lease_is_live :: "admission_env \<Rightarrow> fs_path \<Rightarrow> string \<Rightarrow> bool hprog" where
  "lease_is_live S registry key =
     and_do (private_file S (registry @ [key @ ''.lease''])) (\<lambda>_.
       catch (hread (\<lambda>h. Inr (key |\<in>| h_leases h))) (\<lambda>_. ret True))"

text \<open>The ownership marker of a managed entry: completed when its preparation was interrupted, else verified.\<close>

definition settle_managed :: "admission_env \<Rightarrow> string \<Rightarrow> root_entry \<Rightarrow> unit hprog" where
  "settle_managed S key entry =
     (if en_kind entry = Legacy then ret ()
      else if en_preparing entry then
        and_do (write_marker S entry) (\<lambda>_. persist S key (entry\<lparr>en_preparing := False\<rparr>))
      else
        and_do (lift_res (sidecar_path S (en_root entry))) (\<lambda>p.
        and_do (hquery (read_bytes p)) (\<lambda>stored.
          require (stored = ad_entry_bytes S entry) (Denied ''managed ownership marker missing or inconsistent''))))"

fun review_roots :: "admission_env \<Rightarrow> fs_path \<Rightarrow> (fs_path \<times> root_use) option \<Rightarrow> fs_path list \<Rightarrow>
    (string \<times> root_entry) list \<Rightarrow> string list hprog" where
  "review_roots S registry public private [] = ret []"
| "review_roots S registry public private ((key, entry) # rows) =
     and_do (lease_is_live S registry key) (\<lambda>live.
     if en_kind entry = Legacy \<and> \<not> live then
       and_do (review_roots S registry public private rows) (\<lambda>stale. ret (key # stale))
     else
       and_do (require (\<not> list_ex (\<lambda>p. overlaps p (en_root entry)) private)
                 (Denied ''private state overlaps an active or managed root'')) (\<lambda>_.
       and_do (settle_managed S key entry) (\<lambda>_.
       and_do (require (case public of None \<Rightarrow> True | Some (root, kind) \<Rightarrow> overlaps root (en_root entry) \<longrightarrow>
                   \<not> live \<and> root = en_root entry \<and> kind = en_kind entry \<and> kind \<noteq> Legacy)
                 (Denied ''network root overlaps an active or managed root'')) (\<lambda>_.
         review_roots S registry public private rows))))"

definition check_public :: "admission_env \<Rightarrow> fs_path \<Rightarrow> (fs_path \<times> root_use) option \<Rightarrow> fs_path list \<Rightarrow> unit hprog" where
  "check_public S registry public private = (case public of None \<Rightarrow> ret () | Some (root, kind) \<Rightarrow>
     and_do (require (\<not> overlaps root registry) (Denied ''network root overlaps private admission registry'')) (\<lambda>_.
     and_do (require (\<not> list_ex (overlaps root) private) (Denied ''network root overlaps requested private state'')) (\<lambda>_.
       if kind = Legacy then ret () else and_do (lift_res (sidecar_path S root)) (\<lambda>_. ret ()))))"

definition claim_lease :: "admission_env \<Rightarrow> fs_path \<Rightarrow> string \<Rightarrow> unit hprog" where
  "claim_lease S registry key =
     and_do (private_file S (registry @ [key @ ''.lease''])) (\<lambda>_.
     and_do htick (\<lambda>_ h. if key |\<in>| h_leases h then (Failed (Denied ''network root already leased''), h)
       else (Done (), h\<lparr>h_leases := finsert key (h_leases h)\<rparr>)))"

text \<open>A lock handle held only by the running admission is dropped when the admission fails or its process dies.\<close>

definition drop_unless_done :: "string \<Rightarrow> 'a hprog \<Rightarrow> 'a hprog" where
  "drop_unless_done key p h = (case p h of (Done x, t) \<Rightarrow> (Done x, t)
     | (r, t) \<Rightarrow> (r, t\<lparr>h_leases := h_leases t |-| {|key|}\<rparr>))"

definition check_marker :: "admission_env \<Rightarrow> fs_path \<Rightarrow> root_entry \<Rightarrow> unit hprog" where
  "check_marker S root entry = and_do (lift_res (sidecar_path S root)) (\<lambda>marker.
     and_do (hquery (\<lambda>fs. Inr (fs_exists fs marker))) (\<lambda>there.
     if \<not> there then ret () else
       and_do (hquery (read_bytes marker)) (\<lambda>bytes.
       and_do (require (length bytes \<le> 32768) (Denied ''managed marker too large'')) (\<lambda>_.
       and_do (lift_res (ok_or (ad_entry_of S bytes) (BadRow ''managed marker does not decode''))) (\<lambda>stored.
         require (en_version stored = 1 \<and> en_root stored = root \<and> en_kind stored = en_kind entry \<and> en_kind entry \<noteq> Legacy)
           (Denied ''managed ownership marker conflicts with requested root use''))))))"

definition prepare_root :: "admission_env \<Rightarrow> fs_path \<Rightarrow> root_entry \<Rightarrow> unit hprog" where
  "prepare_root S root entry =
     and_do (check_marker S root entry) (\<lambda>_.
     and_do (hquery (\<lambda>fs. Inr (fs_exists fs root))) (\<lambda>there.
     and_do (if there then ret () else make_dirs S root) (\<lambda>_.
     and_do (hcanonicalize root) (\<lambda>resolved.
     and_do (require (resolved = root) (Denied ''admitted root changed during preparation'')) (\<lambda>_.
       if en_kind entry = Legacy then ret ()
       else and_do (hquery (\<lambda>fs. Inr (fs_is_dir fs root))) (\<lambda>dir.
         require dir (Denied ''managed root must be a directory'')))))))"

definition prepare_private :: "admission_env \<Rightarrow> fs_path \<times> bool \<Rightarrow> unit hprog" where
  "prepare_private S request = (case request of (p, is_directory) \<Rightarrow>
     and_do (if is_directory then ret p else
         and_do (hquery (try_exists p)) (\<lambda>there.
         and_do (hquery (\<lambda>fs. Inr (fs_is_file fs p))) (\<lambda>regular.
         and_do (require (\<not> there \<or> regular) (Denied ''private file path is not a regular file'')) (\<lambda>_.
         and_do (require (p \<noteq> []) (Denied ''private file has no parent'')) (\<lambda>_. ret (butlast p)))))) (\<lambda>directory.
     and_do (make_dirs S directory) (\<lambda>_.
     and_do (hcanonicalize directory) (\<lambda>resolved.
     and_do (require (resolved = directory) (Denied ''private root changed during preparation'')) (\<lambda>_.
       if is_directory then ret () else
         and_do (hquery (try_exists p)) (\<lambda>there.
         if \<not> there then ret () else
           and_do (hcanonicalize p) (\<lambda>resolved.
           and_do (hquery (\<lambda>fs. Inr (fs_is_file fs p))) (\<lambda>regular.
             require (resolved = p \<and> regular) (Denied ''private file changed during preparation'')))))))))"

text \<open>One transaction reserves the private paths and forgets the leases of dead processes.\<close>

definition commit_reservations :: "admission_env \<Rightarrow> fs_path list \<Rightarrow> string list \<Rightarrow> unit hprog" where
  "commit_reservations S private stale = (if private = [] \<and> stale = [] then ret () else
     and_do htick (\<lambda>_ h. (Done (), h\<lparr>
       h_private := fold (\<lambda>p. fmupd (root_binding S p) (ad_path_bytes S p)) private (h_private h),
       h_roots := fold fmdrop stale (h_roots h)\<rparr>)))"

definition publish_root :: "admission_env \<Rightarrow> string \<Rightarrow> root_entry \<Rightarrow> unit hprog" where
  "publish_root S key entry =
     and_do (hcanonicalize (en_root entry)) (\<lambda>resolved.
     and_do (require (resolved = en_root entry) (Denied ''admitted root changed during preparation'')) (\<lambda>_.
     and_do (persist S key entry) (\<lambda>_.
       if en_preparing entry then
         and_do (write_marker S entry) (\<lambda>_. persist S key (entry\<lparr>en_preparing := False\<rparr>))
       else ret ())))"

type_synonym 'a preparation = "fs_path option \<Rightarrow> fs_path list \<Rightarrow> 'a hprog"

text \<open>The first call stands for opening the database for writing and creating its table.\<close>

definition commit_admission :: "admission_env \<Rightarrow> fs_path \<Rightarrow> (string \<times> root_entry) option \<Rightarrow> (fs_path \<times> bool) list \<Rightarrow> string list \<Rightarrow>
    'a preparation \<Rightarrow> (root_lease option \<times> 'a) hprog" where
  "commit_admission S registry public_state requests stale prepare =
     and_do (for_each (prepare_private S) requests) (\<lambda>_.
     and_do htick (\<lambda>_.
     and_do (hsync registry) (\<lambda>_.
     and_do (commit_reservations S (map fst requests) stale) (\<lambda>_.
     and_do (prepare (map_option (\<lambda>(_, entry). en_root entry) public_state) (map fst requests)) (\<lambda>result.
       case public_state of
         None \<Rightarrow> ret (None, result)
       | Some (key, entry) \<Rightarrow> and_do (publish_root S key entry) (\<lambda>_.
           ret (Some \<lparr>rl_root = en_root entry, rl_key = key\<rparr>, result)))))))"

definition new_entry :: "fs_path \<Rightarrow> root_use \<Rightarrow> root_entry" where
  "new_entry root kind = \<lparr>en_version = 1, en_root = root, en_kind = kind, en_preparing = (kind \<noteq> Legacy)\<rparr>"

definition admit_at_with_files :: "admission_env \<Rightarrow> (fs_path \<times> root_use) option \<Rightarrow> fs_path list \<Rightarrow> fs_path list \<Rightarrow>
    'a preparation \<Rightarrow> (root_lease option \<times> 'a) hprog" where
  "admit_at_with_files S request directories files prepare =
     and_do (prospective_root (ad_registry S)) (\<lambda>proposed.
     and_do (case request of None \<Rightarrow> ret () | Some (p, _) \<Rightarrow> and_do (prospective_root p) (\<lambda>root.
         require (\<not> overlaps root proposed) (Denied ''network root overlaps private admission registry''))) (\<lambda>_.
     and_do (private_directory S (ad_registry S)) (\<lambda>_.
     and_do (hcanonicalize (ad_registry S)) (\<lambda>registry.
     and_do (private_file S (registry @ [''registry.lock''])) (\<lambda>_.
     and_do (case request of None \<Rightarrow> ret None | Some (p, kind) \<Rightarrow> and_do (prospective_root p) (\<lambda>root. ret (Some (root, kind)))) (\<lambda>public.
     and_do (map_each prospective_root (directories @ files)) (\<lambda>private.
     and_do (check_public S registry public private) (\<lambda>_.
     and_do (read_admission S) (\<lambda>(entries, reserved).
     and_do (require (case public of None \<Rightarrow> True | Some (root, _) \<Rightarrow> \<not> list_ex (overlaps root) reserved)
               (Denied ''network root overlaps reserved private state'')) (\<lambda>_.
     and_do (review_roots S registry public private entries) (\<lambda>stale.
     let requests = zip private (replicate (length directories) True @ replicate (length files) False) in
     case public of
       None \<Rightarrow> commit_admission S registry None requests stale prepare
     | Some (root, kind) \<Rightarrow> let key = root_binding S root; entry = new_entry root kind in
         and_do (claim_lease S registry key) (\<lambda>_.
           drop_unless_done key (and_do (prepare_root S root entry) (\<lambda>_.
             commit_admission S registry (Some (key, entry)) requests stale prepare))))))))))))))"

section \<open>Entry points\<close>

definition admit_with_private :: "admission_env \<Rightarrow> fs_path \<Rightarrow> root_use \<Rightarrow> fs_path list \<Rightarrow>
    (fs_path \<Rightarrow> fs_path list \<Rightarrow> 'a hprog) \<Rightarrow> (root_lease \<times> 'a) hprog" where
  "admit_with_private S p kind private prepare =
     and_do (admit_at_with_files S (Some (p, kind)) private [] (\<lambda>root private. case root of
         None \<Rightarrow> fail (Denied ''missing public admission'') | Some r \<Rightarrow> prepare r private)) (\<lambda>(lease, result).
       case lease of None \<Rightarrow> fail (Denied ''missing public lease'') | Some l \<Rightarrow> ret (l, result))"

definition acquire_with_private :: "admission_env \<Rightarrow> fs_path \<Rightarrow> root_use \<Rightarrow> fs_path list \<Rightarrow> root_lease hprog" where
  "acquire_with_private S p kind private =
     and_do (admit_with_private S p kind private (\<lambda>_ _. ret ())) (\<lambda>(lease, _). ret lease)"

definition acquire :: "admission_env \<Rightarrow> fs_path \<Rightarrow> root_use \<Rightarrow> root_lease hprog" where
  "acquire S p kind = acquire_with_private S p kind []"

definition reserve_private :: "admission_env \<Rightarrow> fs_path \<Rightarrow> fs_path hprog" where
  "reserve_private S p = and_do (admit_at_with_files S None [p] [] (\<lambda>_ private. ret (hd private))) (\<lambda>(_, root). ret root)"

definition reserve_private_file :: "admission_env \<Rightarrow> fs_path \<Rightarrow> fs_path hprog" where
  "reserve_private_file S p =
     and_do (require (p \<noteq> [] \<and> last p \<noteq> ''..'') (Denied ''private file must have a filename'')) (\<lambda>_.
     and_do (admit_at_with_files S None [] [p] (\<lambda>_ private. ret (hd private))) (\<lambda>(_, reserved). ret reserved))"

end
