(* ===== verification/Admission_Laws.thy ===== *)
theory Admission_Laws
  imports Root_Admission
begin

text \<open>
  Why admission is exclusive. The catalog is read as a partial map from keys to roots and uses, the set of
  reserved private paths and the set of leased keys. Every call of admission but three leaves these alone;
  the review of the recorded roots gives the facts that make the three commits safe.
\<close>

section \<open>The catalog\<close>

text \<open>\<open>postcard\<close> decodes what it encodes.\<close>

definition admission_codec :: "admission_env \<Rightarrow> bool" where
  "admission_codec S \<longleftrightarrow> (\<forall>e. ad_entry_of S (ad_entry_bytes S e) = Some e) \<and> (\<forall>p. ad_path_of S (ad_path_bytes S p) = Some p)"

definition entry_at :: "admission_env \<Rightarrow> host \<Rightarrow> string \<Rightarrow> root_entry option" where
  "entry_at S h key = Option.bind (fmlookup (h_roots h) key) (ad_entry_of S)"

definition root_at :: "admission_env \<Rightarrow> host \<Rightarrow> string \<Rightarrow> (fs_path \<times> root_use) option" where
  "root_at S h key = map_option (\<lambda>e. (en_root e, en_kind e)) (entry_at S h key)"

definition reserved_paths :: "admission_env \<Rightarrow> host \<Rightarrow> fs_path set" where
  "reserved_paths S h = {p. \<exists>key bytes. fmlookup (h_private h) key = Some bytes \<and> ad_path_of S bytes = Some p}"

type_synonym catalog_view = "(string \<Rightarrow> (fs_path \<times> root_use) option) \<times> fs_path set \<times> string fset"

definition catalog_of :: "admission_env \<Rightarrow> host \<Rightarrow> catalog_view" where
  "catalog_of S h = (root_at S h, reserved_paths S h, h_leases h)"

text \<open>Recorded roots do not overlap each other or a reserved path, and every leased key has a recorded root.\<close>

definition exclusive_roots :: "(string \<Rightarrow> (fs_path \<times> root_use) option) \<Rightarrow> fs_path set \<Rightarrow> bool" where
  "exclusive_roots roots reserved \<longleftrightarrow>
     (\<forall>k k' r u r' u'. k \<noteq> k' \<longrightarrow> roots k = Some (r, u) \<longrightarrow> roots k' = Some (r', u') \<longrightarrow> \<not> overlaps r r') \<and>
     (\<forall>k r u p. roots k = Some (r, u) \<longrightarrow> p \<in> reserved \<longrightarrow> \<not> overlaps r p)"

definition exclusive :: "catalog_view \<Rightarrow> bool" where
  "exclusive c = (case c of (roots, reserved, leases) \<Rightarrow>
     exclusive_roots roots reserved \<and> (\<forall>k. k |\<in>| leases \<longrightarrow> roots k \<noteq> None))"

text \<open>A managed binding whose key no other path has is kept.\<close>

definition sole_key :: "admission_env \<Rightarrow> fs_path \<Rightarrow> bool" where
  "sole_key S r \<longleftrightarrow> (\<forall>p. root_binding S p = root_binding S r \<longrightarrow> p = r)"

definition keeps_managed :: "admission_env \<Rightarrow> (string \<Rightarrow> (fs_path \<times> root_use) option) \<Rightarrow> (string \<Rightarrow> (fs_path \<times> root_use) option) \<Rightarrow> bool" where
  "keeps_managed S roots roots' \<longleftrightarrow> (\<forall>r s w. sole_key S r \<longrightarrow> roots (root_binding S r) = Some (r, Managed s w) \<longrightarrow>
     roots' (root_binding S r) = Some (r, Managed s w))"

lemma keeps_managed_refl [simp]: "keeps_managed S roots roots"
  by (simp add: keeps_managed_def)

lemma keeps_managed_trans: "keeps_managed S a b \<Longrightarrow> keeps_managed S b c \<Longrightarrow> keeps_managed S a c"
  by (simp add: keeps_managed_def)

section \<open>Calls that leave the catalog alone\<close>

definition same_catalog :: "host \<Rightarrow> host \<Rightarrow> bool" where
  "same_catalog h t \<longleftrightarrow> h_roots t = h_roots h \<and> h_private t = h_private h \<and> h_leases t = h_leases h"

lemma same_catalog_of: "same_catalog h t \<Longrightarrow> catalog_of S t = catalog_of S h"
  by (simp add: same_catalog_def catalog_of_def root_at_def entry_at_def reserved_paths_def fun_eq_iff)

text \<open>
  The interface between admission and the calls it makes before it commits anything: a relation that a tick,
  the creation of a directory and the opening of a private file keep is kept by all of them.
\<close>

locale host_calls = progress R for R :: "host \<Rightarrow> host \<Rightarrow> bool" +
  fixes S :: admission_env
  assumes R_htick: "keeps R htick"
    and R_mkdir: "keeps R (hupdate (\<lambda>now fs. if fs_is_dir fs p then Inr fs else aio (fs_create_dir (ad_host S now) p fs)))"
    and R_open: "keeps R (hupdate (\<lambda>now. fs_open_private (ad_host S now) p))"
begin

lemmas [keeps_intros] = keeps_constructs R_htick R_mkdir R_open

lemma R_hread [keeps_intros]: "keeps R (hread f)"
  unfolding hread_def
  by (intro keeps_intros) (auto simp: keeps_def lift_res_def ret_def fail_def R_refl split: sum.split)

lemma R_hquery [keeps_intros]: "keeps R (hquery f)"
  unfolding hquery_def by (rule R_hread)

lemmas quiet_calls = hcanonicalize_def hsync_def make_dirs_def private_directory_def private_file_def prospective_root_def
  lease_is_live_def check_public_def check_marker_def prepare_root_def prepare_private_def read_admission_def Let_def

lemma R_quiet [keeps_intros]:
  "keeps R (hcanonicalize p)" "keeps R (hsync p)" "keeps R (make_dirs S p)"
  "keeps R (private_directory S p)" "keeps R (private_file S p)" "keeps R (prospective_root p)"
  "keeps R (lease_is_live S registry key)" "keeps R (check_public S registry public private)"
  "keeps R (check_marker S root entry)" "keeps R (prepare_root S root entry)"
  "keeps R (prepare_private S request)" "keeps R (read_admission S)"
  unfolding quiet_calls by (intro keeps_intros)+

end

lemma keeps_htick: "keeps same_catalog htick"
  by (simp add: keeps_def htick_def same_catalog_def split: list.split env_event.split)

interpretation calm: progress same_catalog
  by unfold_locales (simp_all add: same_catalog_def)

lemma keeps_hupdate [keeps_intros]: "keeps same_catalog (hupdate f)"
  unfolding hupdate_def by (rule calm.keeps_and_do [OF keeps_htick]) (simp add: keeps_def same_catalog_def split: sum.split)

interpretation still: host_calls same_catalog S for S
  by unfold_locales (simp_all add: keeps_htick keeps_hupdate)

lemma keeps_write_marker: "keeps same_catalog (write_marker S entry)"
  unfolding write_marker_def Let_def still.quiet_calls by (intro keeps_intros)

lemma keeps_same: "keeps same_catalog p \<Longrightarrow> p h = (r, t) \<Longrightarrow> h_roots t = h_roots h \<and> h_private t = h_private h \<and> h_leases t = h_leases h"
  by (metis keepsD same_catalog_def snd_conv)

section \<open>Guarded runs\<close>

text \<open>A run that ends with \<open>Q\<close>, and with a catalog that satisfies \<open>P\<close> when it fails or is interrupted.\<close>

definition guarded :: "admission_env \<Rightarrow> (catalog_view \<Rightarrow> bool) \<Rightarrow> 'a hprog \<Rightarrow> ('a \<Rightarrow> host \<Rightarrow> bool) \<Rightarrow> host \<Rightarrow> bool" where
  "guarded S P p Q h = wp p Q (\<lambda>_ t. P (catalog_of S t)) (\<lambda>t. P (catalog_of S t)) h"

lemma guarded_ret: "Q x h \<Longrightarrow> guarded S P (ret x) Q h"
  by (simp add: guarded_def wp_simps)

lemma guarded_fail: "P (catalog_of S h) \<Longrightarrow> guarded S P (fail e) Q h"
  by (simp add: guarded_def wp_simps)

lemma guarded_require: "P (catalog_of S h) \<Longrightarrow> (b \<Longrightarrow> Q () h) \<Longrightarrow> guarded S P (require b e) Q h"
  by (simp add: guarded_def wp_simps)

lemma guarded_and_do: "guarded S P p (\<lambda>x. guarded S P (f x) Q) h \<Longrightarrow> guarded S P (and_do p f) Q h"
  unfolding guarded_def wp_and_do by (erule wp_mono) (simp_all add: guarded_def)

lemma guarded_mono: "guarded S P p Q h \<Longrightarrow> (\<And>x t. Q x t \<Longrightarrow> Q' x t) \<Longrightarrow> (\<And>c. P c \<Longrightarrow> P' c) \<Longrightarrow> guarded S P' p Q' h"
  unfolding guarded_def by (erule wp_mono) auto

lemma guarded_quiet:
  assumes "keeps same_catalog p" "P (catalog_of S h)"
    and "\<And>x t. p h = (Done x, t) \<Longrightarrow> catalog_of S t = catalog_of S h \<Longrightarrow> Q x t"
  shows "guarded S P p Q h"
proof -
  obtain r t where p: "p h = (r, t)" by fastforce
  with keepsD [OF assms(1), of h] have "catalog_of S t = catalog_of S h" by (simp add: same_catalog_of)
  with p assms(2,3) show ?thesis by (cases r) (auto simp: guarded_def wp_def)
qed

text \<open>A commit is one call: it happens, or the catalog stays as it was.\<close>

lemma guarded_commit:
  assumes "P (catalog_of S h)"
    and "\<And>t. catalog_of S t = catalog_of S h \<Longrightarrow> h_roots t = h_roots h \<Longrightarrow> h_private t = h_private h \<Longrightarrow> h_leases t = h_leases h \<Longrightarrow> Q () (f t)"
  shows "guarded S P (and_do htick (\<lambda>_ t. (Done (), f t))) Q h"
proof (rule guarded_and_do, rule guarded_quiet [OF keeps_htick], rule assms(1))
  fix x t assume "htick h = (Done x, t)" "catalog_of S t = catalog_of S h"
  moreover from this keepsD [OF keeps_htick, of h] have "same_catalog h t" by simp
  ultimately show "guarded S P (\<lambda>t. (Done (), f t)) Q t"
    using assms(2) by (simp add: guarded_def wp_def same_catalog_def)
qed

section \<open>What is read\<close>

lemma collect_res_Inr: "collect_res f xs = Inr ys \<Longrightarrow> (\<forall>x \<in> set xs. \<exists>y \<in> set ys. f x = Inr y) \<and> (\<forall>y \<in> set ys. \<exists>x \<in> set xs. f x = Inr y)"
proof (induction xs arbitrary: ys)
  case (Cons x xs)
  then obtain y zs where "f x = Inr y" "collect_res f xs = Inr zs" "ys = y # zs" by (auto simp: result_simps)
  with Cons.IH [of zs] show ?case by simp
qed simp

lemma entry_row_Inr: "entry_row S (k, b) = Inr y \<longleftrightarrow> (\<exists>e. y = (k, e) \<and> length b \<le> 32768 \<and> ad_entry_of S b = Some e \<and>
    ad_entry_bytes S e = b \<and> (en_preparing e \<longrightarrow> en_kind e \<noteq> Legacy) \<and> en_version e = 1 \<and> root_binding S (en_root e) = k)"
  by (auto simp: entry_row_def result_simps)

lemma private_row_Inr: "private_row S (k, b) = Inr p \<longleftrightarrow> length b \<le> 32768 \<and> ad_path_of S b = Some p \<and>
    ad_path_bytes S p = b \<and> root_binding S p = k"
  by (auto simp: private_row_def result_simps)

lemma read_admission_done:
  assumes "read_admission S h = (Done (entries, reserved), t)"
  shows "\<And>k e. (k, e) \<in> set entries \<longleftrightarrow> entry_at S h k = Some e" "\<And>k e. (k, e) \<in> set entries \<Longrightarrow> root_binding S (en_root e) = k"
    and "set reserved = reserved_paths S h" and "distinct (map fst entries)"
proof -
  obtain u where tick: "htick h = (Done (), u)" using assms
    by (auto simp: read_admission_def hread_def and_do_def split: prod.splits outcome.splits)
  with keepsD [OF keeps_htick, of h] have u: "h_roots u = h_roots h" "h_private u = h_private h" by (simp_all add: same_catalog_def)
  from assms tick have
    e: "collect_res (entry_row S) (sorted_list_of_fmap (h_roots h)) = Inr entries" and
    p: "collect_res (private_row S) (sorted_list_of_fmap (h_private h)) = Inr reserved"
    by (auto simp: read_admission_def hread_def and_do_def u lift_res_def ret_def fail_def result_simps split: sum.splits prod.splits)
  note facts = collect_res_Inr [OF e] collect_res_Inr [OF p]
  have "collect_res (entry_row S) xs = Inr ys \<Longrightarrow> map fst ys = map fst xs" for xs ys
    by (induction xs arbitrary: ys) (auto simp: result_simps entry_row_Inr)
  from this [OF e] show "distinct (map fst entries)" by simp
  have row: "fmlookup (h_roots h) k = Some b \<Longrightarrow> \<exists>y \<in> set entries. entry_row S (k, b) = Inr y"
    "y \<in> set entries \<Longrightarrow> \<exists>k b. fmlookup (h_roots h) k = Some b \<and> entry_row S (k, b) = Inr y" for k b y
    using facts(1) unfolding in_sorted_list_of_fmap [symmetric] by (blast, metis surj_pair)
  show "root_binding S (en_root e) = k" if "(k, e) \<in> set entries" for k e
    using row(2) [OF that] by (auto simp: entry_row_Inr)
  show "(k, e) \<in> set entries \<longleftrightarrow> entry_at S h k = Some e" for k e
  proof
    assume "(k, e) \<in> set entries"
    from row(2) [OF this] show "entry_at S h k = Some e" by (auto simp: entry_row_Inr entry_at_def)
  next
    assume "entry_at S h k = Some e"
    then obtain b where "fmlookup (h_roots h) k = Some b" "ad_entry_of S b = Some e" by (auto simp: entry_at_def bind_eq_Some_conv)
    with row(1) [of k b] show "(k, e) \<in> set entries" by (auto simp: entry_row_Inr)
  qed
  have prow: "fmlookup (h_private h) k = Some b \<Longrightarrow> \<exists>y \<in> set reserved. private_row S (k, b) = Inr y"
    "y \<in> set reserved \<Longrightarrow> \<exists>k b. fmlookup (h_private h) k = Some b \<and> private_row S (k, b) = Inr y" for k b y
    using facts(2) unfolding in_sorted_list_of_fmap [symmetric] by (blast, metis surj_pair)
  show "set reserved = reserved_paths S h"
  proof (intro set_eqI iffI)
    fix p assume "p \<in> set reserved"
    from prow(2) [OF this] show "p \<in> reserved_paths S h" by (auto simp: private_row_Inr reserved_paths_def)
  next
    fix p assume "p \<in> reserved_paths S h"
    then obtain k b where "fmlookup (h_private h) k = Some b" "ad_path_of S b = Some p" by (auto simp: reserved_paths_def)
    with prow(1) [of k b] show "p \<in> set reserved" by (auto simp: private_row_Inr)
  qed
qed

lemma lease_is_live_done:
  assumes "lease_is_live S registry key h = (Done found, t)" "key |\<in>| h_leases h"
  shows found
proof -
  from assms(1) obtain u where u: "private_file S (registry @ [key @ ''.lease'']) h = (Done (), u)"
    and c: "catch (hread (\<lambda>h. Inr (key |\<in>| h_leases h))) (\<lambda>_. ret True) u = (Done found, t)"
    by (auto simp: lease_is_live_def and_do_def split: prod.splits outcome.splits)
  from keeps_same [OF still.R_quiet(5) u] assms(2) have "key |\<in>| h_leases u" by simp
  moreover have "htick u = (r, v) \<Longrightarrow> h_leases v = h_leases u" for r v using keeps_same [OF keeps_htick] by simp
  ultimately show ?thesis using c
    by (auto simp: catch_def hread_def and_do_def ret_def lift_res_def split: prod.splits outcome.splits)
qed

section \<open>The review\<close>

text \<open>What the review of one recorded root establishes before anything is committed.\<close>

definition reviewed :: "catalog_view \<Rightarrow> (fs_path \<times> root_use) option \<Rightarrow> fs_path list \<Rightarrow> string list \<Rightarrow> string \<Rightarrow> fs_path \<times> root_use \<Rightarrow> bool" where
  "reviewed c public private stale key v = (case (c, v) of ((_, _, leases), (r, u)) \<Rightarrow>
     if key \<in> set stale then u = Legacy \<and> key |\<notin>| leases
     else (\<forall>p \<in> set private. \<not> overlaps p r) \<and>
       (\<forall>root kind. public = Some (root, kind) \<longrightarrow> overlaps root r \<longrightarrow> root = r \<and> kind = u \<and> u \<noteq> Legacy))"

lemma guarded_persist:
  assumes codec: "admission_codec S" and P: "P (catalog_of S h)"
    and Q: "\<And>t. catalog_of S t = ((root_at S h)(key \<mapsto> (en_root e, en_kind e)), reserved_paths S h, h_leases h) \<Longrightarrow> Q () t"
  shows "guarded S P (persist S key e) Q h"
  unfolding persist_def
proof (rule guarded_commit, rule P)
  fix t :: host assume "h_roots t = h_roots h" "h_private t = h_private h" "h_leases t = h_leases h"
  with codec have "catalog_of S (t\<lparr>h_roots := fmupd key (ad_entry_bytes S e) (h_roots t)\<rparr>) =
      ((root_at S h)(key \<mapsto> (en_root e, en_kind e)), reserved_paths S h, h_leases h)"
    by (simp add: catalog_of_def root_at_def entry_at_def reserved_paths_def fun_eq_iff admission_codec_def)
  then show "Q () (t\<lparr>h_roots := fmupd key (ad_entry_bytes S e) (h_roots t)\<rparr>)" by (rule Q)
qed

lemma guarded_settle:
  assumes "admission_codec S" "P (catalog_of S h)" "root_at S h key = Some (en_root e, en_kind e)"
    and Q: "\<And>t. catalog_of S t = catalog_of S h \<Longrightarrow> Q () t"
  shows "guarded S P (settle_managed S key e) Q h"
proof -
  have same: "catalog_of S t = ((root_at S t')(key \<mapsto> (en_root e, en_kind e)), reserved_paths S t', h_leases t') \<Longrightarrow>
      catalog_of S t' = catalog_of S h \<Longrightarrow> Q () t" for t t'
    using assms(3) Q by (auto simp: catalog_of_def fun_upd_idem)
  have "keeps same_catalog (and_do (lift_res (sidecar_path S (en_root e))) (\<lambda>p. and_do (hquery (read_bytes p)) (\<lambda>stored.
      require (stored = ad_entry_bytes S e) m)))" for m by (intro keeps_intros)
  note check = guarded_quiet [OF this]
  have "guarded S P (ret ()) Q h" using Q by (intro guarded_ret) simp
  moreover have "guarded S P (and_do (write_marker S e) (\<lambda>_. persist S key (e\<lparr>en_preparing := False\<rparr>))) Q h"
    apply (rule guarded_and_do, rule guarded_quiet [OF keeps_write_marker], rule assms(2))
    apply (rule guarded_persist [OF assms(1)])
    using assms(2) same by simp_all
  moreover have "guarded S P (and_do (lift_res (sidecar_path S (en_root e))) (\<lambda>p. and_do (hquery (read_bytes p)) (\<lambda>stored.
      require (stored = ad_entry_bytes S e) (Denied ''managed ownership marker missing or inconsistent'')))) Q h"
    by (rule check) (use assms(2) Q in simp_all)
  ultimately show ?thesis unfolding settle_managed_def by simp
qed

lemma reviewed_skip: "k \<noteq> key \<Longrightarrow> reviewed c public private (key # stale) k v = reviewed c public private stale k v"
  by (simp add: reviewed_def)

lemma guarded_review:
  assumes codec: "admission_codec S" and P: "P (catalog_of S h)"
    and rows: "\<And>k e. (k, e) \<in> set rows \<Longrightarrow> root_at S h k = Some (en_root e, en_kind e)" and dist: "distinct (map fst rows)"
    and Q: "\<And>stale t. catalog_of S t = catalog_of S h \<Longrightarrow> set stale \<subseteq> fst ` set rows \<Longrightarrow>
      (\<And>k e. (k, e) \<in> set rows \<Longrightarrow> reviewed (catalog_of S h) public private stale k (en_root e, en_kind e)) \<Longrightarrow> Q stale t"
  shows "guarded S P (review_roots S registry public private rows) Q h"
  using P rows dist Q
proof (induction rows arbitrary: h Q)
  case Nil
  then show ?case by (auto intro!: guarded_ret)
next
  case (Cons row rows)
  obtain key e where row: "row = (key, e)" by (cases row)
  have at: "root_at S h key = Some (en_root e, en_kind e)" using Cons.prems(2) row by simp
  show ?case unfolding row review_roots.simps
  proof (rule guarded_and_do, rule guarded_quiet [OF still.R_quiet(7)], rule Cons.prems(1))
    fix found t assume f: "lease_is_live S registry key h = (Done found, t)" and t: "catalog_of S t = catalog_of S h"
    have leased: "key |\<in>| h_leases h \<Longrightarrow> found" using lease_is_live_done [OF f] .
    have at': "root_at S t k = root_at S h k" "h_leases t = h_leases h" for k using t by (simp_all add: catalog_of_def)
    have P: "P (catalog_of S u)" if "catalog_of S u = catalog_of S t" for u using that t Cons.prems(1) by simp
    have rest: "guarded S P (review_roots S registry public private rows) Q' u"
      if "catalog_of S u = catalog_of S t" and Q': "\<And>stale v. catalog_of S v = catalog_of S h \<Longrightarrow> set stale \<subseteq> fst ` set rows \<Longrightarrow>
        (\<And>k e. (k, e) \<in> set rows \<Longrightarrow> reviewed (catalog_of S h) public private stale k (en_root e, en_kind e)) \<Longrightarrow> Q' stale v" for u Q'
    proof (rule Cons.IH)
      show "P (catalog_of S u)" using that(1) by (rule P)
      show "root_at S u k = Some (en_root e', en_kind e')" if "(k, e') \<in> set rows" for k e'
        using Cons.prems(2) [of k e'] that \<open>catalog_of S u = catalog_of S t\<close> t by (simp add: row catalog_of_def)
      show "distinct (map fst rows)" using Cons.prems(3) by simp
    qed (use that t in \<open>auto intro: Q'\<close>)
    have fresh: "key \<notin> fst ` set rows" using Cons.prems(3) row by simp
    have others: "k \<noteq> key" if "(k, e') \<in> set rows" for k e' using fresh that by force
    have here: "reviewed (catalog_of S h) public private (key # stale) key (en_root e, en_kind e)" if "en_kind e = Legacy" "\<not> found" for stale
      using that leased by (auto simp: reviewed_def catalog_of_def)
    have there: "reviewed (catalog_of S h) public private stale key (en_root e, en_kind e)"
      if "set stale \<subseteq> fst ` set rows" "\<not> list_ex (\<lambda>p. overlaps p (en_root e)) private"
        "case public of None \<Rightarrow> True | Some (root, kind) \<Rightarrow>
           overlaps root (en_root e) \<longrightarrow> \<not> found \<and> root = en_root e \<and> kind = en_kind e \<and> kind \<noteq> Legacy" for stale
      using that fresh by (auto simp: reviewed_def catalog_of_def list_ex_iff split: option.splits)
    show "guarded S P (if en_kind e = Legacy \<and> \<not> found
        then and_do (review_roots S registry public private rows) (\<lambda>stale. ret (key # stale))
        else and_do (require (\<not> list_ex (\<lambda>p. overlaps p (en_root e)) private) (Denied ''private state overlaps an active or managed root''))
          (\<lambda>_. and_do (settle_managed S key e) (\<lambda>_. and_do (require (case public of None \<Rightarrow> True | Some (root, kind) \<Rightarrow>
             overlaps root (en_root e) \<longrightarrow> \<not> found \<and> root = en_root e \<and> kind = en_kind e \<and> kind \<noteq> Legacy)
            (Denied ''network root overlaps an active or managed root'')) (\<lambda>_. review_roots S registry public private rows)))) Q t"
    proof (cases "en_kind e = Legacy \<and> \<not> found")
      case True
      have "guarded S P (and_do (review_roots S registry public private rows) (\<lambda>stale. ret (key # stale))) Q t"
        apply (rule guarded_and_do, rule rest, rule refl, rule guarded_ret, rule Cons.prems(4), assumption)
        using True row here others by (auto simp: reviewed_skip)
      with True show ?thesis by simp
    next
      case False
      show ?thesis unfolding if_not_P [OF False]
        apply (rule guarded_and_do, rule guarded_require, rule P, rule refl)
        apply (rule guarded_and_do, rule guarded_settle [OF codec], rule P, rule refl, simp add: at at')
        apply (rule guarded_and_do, rule guarded_require, erule P)
        apply (rule rest, assumption, rule Cons.prems(4), assumption)
        using row there by auto
    qed
  qed
qed

section \<open>The commits\<close>

lemma overlaps_sym: "overlaps a b = overlaps b a"
  by (auto simp: overlaps_def)

lemma overlaps_refl [simp]: "overlaps a a"
  by (simp add: overlaps_def)

text \<open>The catalogs admission may leave behind.\<close>

definition settled_catalog :: "admission_env \<Rightarrow> (string \<Rightarrow> (fs_path \<times> root_use) option) \<Rightarrow> catalog_view \<Rightarrow> bool" where
  "settled_catalog S roots0 c \<longleftrightarrow> exclusive c \<and> keeps_managed S roots0 (fst c)"

definition without_lease :: "string \<Rightarrow> catalog_view \<Rightarrow> catalog_view" where
  "without_lease key c = (case c of (roots, reserved, leases) \<Rightarrow> (roots, reserved, leases |-| {|key|}))"

definition review_done :: "catalog_view \<Rightarrow> (fs_path \<times> root_use) option \<Rightarrow> fs_path list \<Rightarrow> string list \<Rightarrow> bool" where
  "review_done c public private stale \<longleftrightarrow> (\<forall>k v. fst c k = Some v \<longrightarrow> reviewed c public private stale k v)"

lemma exclusive_roots_commit:
  assumes "exclusive_roots roots reserved" "review_done (roots, reserved, leases) public private stale"
    and "reserved' \<subseteq> reserved \<union> set private"
  shows "exclusive_roots (roots |` (- set stale)) reserved'"
  unfolding exclusive_roots_def
proof (intro conjI allI impI)
  fix k r u p assume k: "(roots |` (- set stale)) k = Some (r, u)" and p: "p \<in> reserved'"
  then have "\<not> overlaps p r" if "p \<in> set private" using that assms(2)
    by (auto simp: review_done_def reviewed_def restrict_map_def split: if_splits)
  moreover have "roots k = Some (r, u)" using k by (auto simp: restrict_map_def split: if_splits)
  then have "\<not> overlaps r p" if "p \<in> reserved" using that assms(1) unfolding exclusive_roots_def by blast
  ultimately show "\<not> overlaps r p" using p assms(3) by (auto simp: overlaps_sym)
qed (use assms(1) in \<open>auto simp: exclusive_roots_def restrict_map_def split: if_splits\<close>)

lemma exclusive_roots_publish:
  assumes "exclusive_roots roots reserved" "\<And>k r u. roots k = Some (r, u) \<Longrightarrow> k \<noteq> key \<Longrightarrow> \<not> overlaps root r"
    and "\<And>p. p \<in> reserved \<Longrightarrow> \<not> overlaps root p"
  shows "exclusive_roots (roots(key \<mapsto> (root, kind))) reserved"
  using assms by (auto simp: exclusive_roots_def overlaps_sym split: if_splits)

lemma keeps_managed_commit:
  assumes "review_done (roots, reserved, leases) public private stale"
  shows "keeps_managed S roots (roots |` (- set stale))"
  using assms by (fastforce simp: keeps_managed_def review_done_def reviewed_def restrict_map_def)

lemma commit_settled:
  assumes "settled_catalog S roots0 (roots, reserved, leases)" "review_done (roots, reserved, leases) public private stale"
    and "reserved' \<subseteq> reserved \<union> set private"
  shows "settled_catalog S roots0 (roots |` (- set stale), reserved', leases)"
proof -
  have "(roots |` (- set stale)) k \<noteq> None" if "k |\<in>| leases" for k
    using that assms(1,2) by (fastforce simp: settled_catalog_def exclusive_def review_done_def reviewed_def restrict_map_def)
  with assms keeps_managed_commit [OF assms(2)] show ?thesis
    by (auto simp: settled_catalog_def exclusive_def intro: exclusive_roots_commit keeps_managed_trans)
qed

lemma publish_settled:
  assumes base: "settled_catalog S roots0 (roots, reserved, leases)" and seen: "review_done (roots, reserved, leases) (Some (root, kind)) private stale"
    and keys: "\<And>k r u. roots k = Some (r, u) \<Longrightarrow> root_binding S r = k" and sub: "reserved' \<subseteq> reserved \<union> set private"
    and free: "\<And>p. p \<in> reserved \<union> set private \<Longrightarrow> \<not> overlaps root p"
  shows "settled_catalog S roots0 ((roots |` (- set stale))(root_binding S root \<mapsto> (root, kind)), reserved', finsert (root_binding S root) leases)"
proof -
  let ?roots = "roots |` (- set stale)"
  note c = commit_settled [OF base seen sub]
  have same: "r = root \<and> kind = u" if "?roots k = Some (r, u)" "overlaps root r" for k r u
    using that seen by (auto simp: review_done_def reviewed_def restrict_map_def split: if_splits)
  have "exclusive_roots (?roots(root_binding S root \<mapsto> (root, kind))) reserved'"
  proof (rule exclusive_roots_publish)
    show "exclusive_roots ?roots reserved'" using c by (simp add: settled_catalog_def exclusive_def)
    show "\<not> overlaps root r" if "?roots k = Some (r, u)" "k \<noteq> root_binding S root" for k r u
      using same [OF that(1)] keys [of k r u] that by (auto simp: restrict_map_def split: if_splits)
  qed (use free sub in auto)
  moreover have "keeps_managed S ?roots (?roots(root_binding S root \<mapsto> (root, kind)))"
    using same by (fastforce simp: keeps_managed_def sole_key_def)
  ultimately show ?thesis using c by (auto simp: settled_catalog_def exclusive_def intro: keeps_managed_trans)
qed

lemma guarded_reservations:
  assumes codec: "admission_codec S" and P: "P (catalog_of S h)"
    and Q: "\<And>t reserved'. catalog_of S t = (root_at S h |` (- set stale), reserved', h_leases h) \<Longrightarrow>
      reserved' \<subseteq> reserved_paths S h \<union> set private \<Longrightarrow> Q () t"
  shows "guarded S P (commit_reservations S private stale) Q h"
proof -
  have drop: "fmlookup (fold fmdrop ks m) k = (if k \<in> set ks then None else fmlookup m k)" for ks k and m :: "(string, u8 list) fmap"
    by (induction ks arbitrary: m) auto
  have add: "fmlookup (fold (\<lambda>p. fmupd (root_binding S p) (ad_path_bytes S p)) ps m) k = Some b \<Longrightarrow>
      fmlookup m k = Some b \<or> (\<exists>p \<in> set ps. b = ad_path_bytes S p)" for ps k b and m :: "(string, u8 list) fmap"
  proof (induction ps arbitrary: m)
    case (Cons q ps)
    from Cons.IH [OF Cons.prems [unfolded fold_Cons o_apply]] show ?case by (auto split: if_splits)
  qed simp
  have "guarded S P (and_do htick (\<lambda>_ h. (Done (), h\<lparr>h_private := fold (\<lambda>p. fmupd (root_binding S p) (ad_path_bytes S p)) private (h_private h),
       h_roots := fold fmdrop stale (h_roots h)\<rparr>))) Q h"
  proof (rule guarded_commit, rule P, rule Q)
    fix t :: host assume t: "h_roots t = h_roots h" "h_private t = h_private h" "h_leases t = h_leases h"
    let ?t = "t\<lparr>h_private := fold (\<lambda>p. fmupd (root_binding S p) (ad_path_bytes S p)) private (h_private t), h_roots := fold fmdrop stale (h_roots t)\<rparr>"
    show "catalog_of S ?t = (root_at S h |` (- set stale), reserved_paths S ?t, h_leases h)"
      by (auto simp: catalog_of_def fun_eq_iff root_at_def entry_at_def drop t restrict_map_def)
    show "reserved_paths S ?t \<subseteq> reserved_paths S h \<union> set private"
      using codec add by (fastforce simp: reserved_paths_def t admission_codec_def)
  qed
  moreover have "guarded S P (ret ()) Q h" if "stale = []"
    using that by (intro guarded_ret Q [of _ "reserved_paths S h"]) (simp_all add: catalog_of_def restrict_map_def)
  ultimately show ?thesis unfolding commit_reservations_def by simp
qed

section \<open>Admission\<close>

lemma guarded_for_each:
  "(\<And>x. keeps same_catalog (f x)) \<Longrightarrow> P (catalog_of S h) \<Longrightarrow> (\<And>t. catalog_of S t = catalog_of S h \<Longrightarrow> Q () t) \<Longrightarrow>
   guarded S P (for_each f xs) Q h"
  by (rule guarded_quiet [OF calm.keeps_for_each]) auto

lemma guarded_publish:
  assumes codec: "admission_codec S" and P: "P (catalog_of S h)"
    and P': "P ((root_at S h)(key \<mapsto> (en_root e, en_kind e)), reserved_paths S h, h_leases h)"
    and Q: "\<And>t. catalog_of S t = ((root_at S h)(key \<mapsto> (en_root e, en_kind e)), reserved_paths S h, h_leases h) \<Longrightarrow> Q () t"
  shows "guarded S P (publish_root S key e) Q h"
proof -
  have later: "guarded S P (if en_preparing e then and_do (write_marker S e) (\<lambda>_. persist S key (e\<lparr>en_preparing := False\<rparr>)) else ret ()) Q t"
    if t: "catalog_of S t = ((root_at S h)(key \<mapsto> (en_root e, en_kind e)), reserved_paths S h, h_leases h)" for t
  proof -
    have "guarded S P (and_do (write_marker S e) (\<lambda>_. persist S key (e\<lparr>en_preparing := False\<rparr>))) Q t"
      apply (rule guarded_and_do, rule guarded_quiet [OF keeps_write_marker], simp add: t P')
      apply (rule guarded_persist [OF codec], simp add: t P')
      using t by (intro Q) (simp add: catalog_of_def)
    with Q [OF t] show ?thesis by (simp add: guarded_ret)
  qed
  show ?thesis unfolding publish_root_def
    apply (rule guarded_and_do, rule guarded_quiet [OF still.R_quiet(1)], rule P)
    apply (rule guarded_and_do, rule guarded_require, simp add: P)
    apply (rule guarded_and_do, rule guarded_persist [OF codec], simp add: P, rule later)
    by (simp add: catalog_of_def)
qed

text \<open>What a returned lease records.\<close>

definition leased_as :: "admission_env \<Rightarrow> root_use option \<Rightarrow> root_lease option \<Rightarrow> host \<Rightarrow> bool" where
  "leased_as S kind lease t = (case (kind, lease) of
     (Some u, Some l) \<Rightarrow> root_at S t (rl_key l) = Some (rl_root l, u) \<and> rl_key l |\<in>| h_leases t
   | (None, None) \<Rightarrow> True
   | _ \<Rightarrow> False)"

lemma guarded_commit_private:
  assumes codec: "admission_codec S" and prepare: "\<And>root private. keeps same_catalog (prepare root private)"
    and base: "settled_catalog S roots0 (catalog_of S h)" and seen: "review_done (catalog_of S h) public (map fst requests) stale"
  shows "guarded S (settled_catalog S roots0) (commit_admission S registry None requests stale prepare)
    (\<lambda>(lease, _) t. settled_catalog S roots0 (catalog_of S t) \<and> leased_as S None lease t) h"
proof -
  note after = commit_settled [OF base [unfolded catalog_of_def] seen [unfolded catalog_of_def]]
  show ?thesis unfolding commit_admission_def
    apply (rule guarded_and_do, rule guarded_for_each, rule still.R_quiet, rule base)
    apply (rule guarded_and_do, rule guarded_quiet [OF keeps_htick], simp add: base)
    apply (rule guarded_and_do, rule guarded_quiet [OF still.R_quiet(2)], simp add: base)
    apply (rule guarded_and_do, rule guarded_reservations [OF codec], simp add: base)
    apply (rule guarded_and_do, rule guarded_quiet [OF prepare])
    using after by (auto simp: catalog_of_def leased_as_def intro!: guarded_ret)
qed

lemma guarded_commit_public:
  assumes codec: "admission_codec S" and prepare: "\<And>root private. keeps same_catalog (prepare root private)"
    and base: "settled_catalog S roots0 (roots, reserved, leases)" and h: "catalog_of S h = (roots, reserved, finsert key leases)"
    and fresh: "key |\<notin>| leases" "key = root_binding S root"
    and seen: "review_done (roots, reserved, leases) (Some (root, kind)) (map fst requests) stale"
    and keys: "\<And>k r u. roots k = Some (r, u) \<Longrightarrow> root_binding S r = k"
    and free: "\<And>p. p \<in> reserved \<union> set (map fst requests) \<Longrightarrow> \<not> overlaps root p"
  shows "guarded S (\<lambda>c. settled_catalog S roots0 (without_lease key c))
    (and_do (prepare_root S root (new_entry root kind)) (\<lambda>_. commit_admission S registry (Some (key, new_entry root kind)) requests stale prepare))
    (\<lambda>(lease, _) t. settled_catalog S roots0 (catalog_of S t) \<and> leased_as S (Some kind) lease t) h"
proof -
  have out: "finsert key leases |-| {|key|} = leases" using fresh(1) by auto
  have P: "settled_catalog S roots0 (without_lease key (catalog_of S h))" using base by (simp add: h without_lease_def out)
  note after = commit_settled [OF base seen] publish_settled [OF base seen keys _ free, folded fresh(2)]
  have entry: "en_root (new_entry root kind) = root" "en_kind (new_entry root kind) = kind" by (simp_all add: new_entry_def)
  have weaken: "settled_catalog S roots0 (without_lease key (R, V, finsert key leases))" if "settled_catalog S roots0 (R, V, finsert key leases)" for R V
    using that out by (auto simp: without_lease_def settled_catalog_def exclusive_def)
  have publish: "guarded S (\<lambda>c. settled_catalog S roots0 (without_lease key c)) (publish_root S key (new_entry root kind)) Q t"
    if t: "catalog_of S t = (roots |` (- set stale), reserved', finsert key leases)" "reserved' \<subseteq> reserved \<union> set (map fst requests)"
      and Q: "\<And>u. catalog_of S u = ((roots |` (- set stale))(key \<mapsto> (root, kind)), reserved', finsert key leases) \<Longrightarrow> Q () u" for t reserved' Q
    apply (rule guarded_publish [OF codec])
    using t after(1) [OF t(2)] weaken [OF after(2) [OF _ t(2)]] Q
    by (auto simp: entry without_lease_def out catalog_of_def)
  have rest: "guarded S (\<lambda>c. settled_catalog S roots0 (without_lease key c)) (and_do (prepare r ps) (\<lambda>result.
      case Some (key, new_entry root kind) of None \<Rightarrow> ret (None, result)
      | Some (key, entry) \<Rightarrow> and_do (publish_root S key entry) (\<lambda>_. ret (Some \<lparr>rl_root = en_root entry, rl_key = key\<rparr>, result))))
      (\<lambda>(lease, _) t. settled_catalog S roots0 (catalog_of S t) \<and> leased_as S (Some kind) lease t) t"
    if t: "catalog_of S t = (roots |` (- set stale), reserved', finsert key leases)" "reserved' \<subseteq> reserved \<union> set (map fst requests)" for t reserved' r ps
    apply (rule guarded_and_do, rule guarded_quiet [OF prepare])
     apply (use t after(1) [OF t(2)] in \<open>simp add: without_lease_def out\<close>)
    apply (simp, rule guarded_and_do, rule publish [OF _ t(2)], simp add: t, rule guarded_ret)
    using after(2) [OF _ t(2)] by (simp add: leased_as_def entry catalog_of_def)
  show ?thesis unfolding commit_admission_def
    apply (rule guarded_and_do, rule guarded_quiet [OF still.R_quiet(10)], rule P)
    apply (rule guarded_and_do, rule guarded_for_each, rule still.R_quiet, simp add: P)
    apply (rule guarded_and_do, rule guarded_quiet [OF keeps_htick], simp add: P)
    apply (rule guarded_and_do, rule guarded_quiet [OF still.R_quiet(2)], simp add: P)
    apply (rule guarded_and_do, rule guarded_reservations [OF codec], simp add: P)
    apply (rule rest)
    using h by (simp_all add: catalog_of_def)
qed

lemma guarded_drop:
  assumes "guarded S (\<lambda>c. P (without_lease key c)) p Q h"
  shows "guarded S P (drop_unless_done key p) Q h"
proof -
  have "catalog_of S (t\<lparr>h_leases := h_leases t |-| {|key|}\<rparr>) = without_lease key (catalog_of S t)" for t
    by (simp add: catalog_of_def without_lease_def root_at_def entry_at_def reserved_paths_def fun_eq_iff)
  with assms show ?thesis
    by (auto simp: guarded_def wp_def drop_unless_done_def split: prod.splits outcome.splits)
qed

lemma guarded_claim:
  assumes P: "P (catalog_of S h)"
    and Q: "\<And>t. key |\<notin>| h_leases h \<Longrightarrow> catalog_of S t = (root_at S h, reserved_paths S h, finsert key (h_leases h)) \<Longrightarrow> Q () t"
  shows "guarded S P (claim_lease S registry key) Q h"
  unfolding claim_lease_def
proof (rule guarded_and_do, rule guarded_quiet [OF still.R_quiet(5)], rule P, rule guarded_and_do, rule guarded_quiet [OF keeps_htick])
  fix x t y u assume "catalog_of S t = catalog_of S h" "catalog_of S u = catalog_of S t"
  then have u: "root_at S u = root_at S h" "reserved_paths S u = reserved_paths S h" "h_leases u = h_leases h"
    and "catalog_of S u = catalog_of S h" by (simp_all add: catalog_of_def)
  moreover have "catalog_of S (u\<lparr>h_leases := finsert key (h_leases u)\<rparr>) = (root_at S h, reserved_paths S h, finsert key (h_leases h))"
    using u by (simp add: catalog_of_def root_at_def entry_at_def reserved_paths_def fun_eq_iff)
  ultimately show "guarded S P (\<lambda>h. if key |\<in>| h_leases h then (Failed (Denied ''network root already leased''), h)
      else (Done (), h\<lparr>h_leases := finsert key (h_leases h)\<rparr>)) Q u"
    using P Q by (simp add: guarded_def wp_def)
qed (use P in simp)

lemma guarded_prospective:
  "P (catalog_of S h) \<Longrightarrow> (\<And>x t. catalog_of S t = catalog_of S h \<Longrightarrow> Q x t) \<Longrightarrow> guarded S P (prospective_root p) Q h"
  by (rule guarded_quiet [OF still.R_quiet(6)]) auto

lemma guarded_check_public:
  assumes "P (catalog_of S h)"
    and "\<And>t. catalog_of S t = catalog_of S h \<Longrightarrow> (\<And>root kind p. public = Some (root, kind) \<Longrightarrow> p \<in> set private \<Longrightarrow> \<not> overlaps root p) \<Longrightarrow> Q () t"
  shows "guarded S P (check_public S registry public private) Q h"
proof (rule guarded_quiet [OF still.R_quiet(8)], rule assms(1))
  fix x t assume run: "check_public S registry public private h = (Done x, t)" and t: "catalog_of S t = catalog_of S h"
  have "\<not> overlaps root p" if "public = Some (root, kind)" "p \<in> set private" for root kind p
    using run that by (auto simp: check_public_def and_do_def require_def ret_def fail_def list_ex_iff split: if_splits)
  with t show "Q x t" using assms(2) by simp
qed

lemma guarded_admission:
  assumes codec: "admission_codec S" and prepare: "\<And>root paths. keeps same_catalog (prepare root paths)"
    and start: "exclusive (catalog_of S h)"
  shows "guarded S (settled_catalog S (root_at S h)) (admit_at_with_files S request directories files prepare)
    (\<lambda>(lease, _) t. settled_catalog S (root_at S h) (catalog_of S t) \<and> leased_as S (map_option snd request) lease t) h"
proof -
  let ?P = "settled_catalog S (root_at S h)"
  let ?Q = "\<lambda>kind (lease, _) t. settled_catalog S (root_at S h) (catalog_of S t) \<and> leased_as S kind lease t"
  have P: "?P (catalog_of S t)" if "catalog_of S t = catalog_of S h" for t
    using start that by (simp add: settled_catalog_def catalog_of_def)
  have pre: "keeps same_catalog (case request of None \<Rightarrow> ret () | Some (p, _) \<Rightarrow> and_do (prospective_root p) (\<lambda>root. require (b root) e))" for b e
    by (intro keeps_intros)
  have pre': "keeps same_catalog (case request of None \<Rightarrow> ret None | Some (p, kind) \<Rightarrow> and_do (prospective_root p) (\<lambda>root. ret (Some (root, kind))))"
    by (intro keeps_intros)
  have kind: "map_option snd public = map_option snd request"
    if "(case request of None \<Rightarrow> ret None | Some (p, kind) \<Rightarrow> and_do (prospective_root p) (\<lambda>root. ret (Some (root, kind)))) t = (Done public, u)" for t u public
    using that by (auto simp: ret_def and_do_def split: option.splits prod.splits outcome.splits)
  define finish where "finish registry public paths stale =
     (let requests = zip paths (replicate (length directories) True @ replicate (length files) False) in
      case public of
        None \<Rightarrow> commit_admission S registry None requests stale prepare
      | Some (root, kind) \<Rightarrow> let key = root_binding S root; entry = new_entry root kind in
          and_do (claim_lease S registry key) (\<lambda>_.
            drop_unless_done key (and_do (prepare_root S root entry) (\<lambda>_.
              commit_admission S registry (Some (key, entry)) requests stale prepare))))" for registry public paths stale
  have finish: "guarded S ?P (finish registry public paths stale) (?Q (map_option snd public)) t"
    if t: "catalog_of S t = catalog_of S h" and seen: "review_done (catalog_of S h) public paths stale"
      and keys: "\<And>k r u. root_at S h k = Some (r, u) \<Longrightarrow> root_binding S r = k"
      and free: "\<And>root kind p. public = Some (root, kind) \<Longrightarrow> p \<in> reserved_paths S h \<union> set paths \<Longrightarrow> \<not> overlaps root p"
    for registry public paths stale t
  proof -
    let ?requests = "zip paths (replicate (length directories) True @ replicate (length files) False)"
    have sub: "set (map fst ?requests) \<subseteq> set paths" by (auto dest: set_zip_leftD)
    have seen': "review_done (catalog_of S h) public (map fst ?requests) stale"
      using seen sub by (fastforce simp: review_done_def reviewed_def split: prod.splits if_splits)
    show ?thesis
    proof (cases public)
      case None
      with seen' P [OF t] t show ?thesis unfolding finish_def Let_def
        by (auto intro!: guarded_commit_private [OF codec prepare])
    next
      case (Some v)
      obtain root kind where v: "v = (root, kind)" by (cases v)
      show ?thesis unfolding finish_def Let_def Some v option.case prod.case option.map snd_conv
      proof (rule guarded_and_do, rule guarded_claim, rule P [OF t], rule guarded_drop)
        fix u assume fresh: "root_binding S root |\<notin>| h_leases t"
          and u: "catalog_of S u = (root_at S t, reserved_paths S t, finsert (root_binding S root) (h_leases t))"
        show "guarded S (\<lambda>c. ?P (without_lease (root_binding S root) c))
          (and_do (prepare_root S root (new_entry root kind)) (\<lambda>_. commit_admission S registry (Some (root_binding S root, new_entry root kind)) ?requests stale prepare)) (?Q (Some kind)) u"
        proof (rule guarded_commit_public [OF codec prepare _ u fresh refl])
          show "settled_catalog S (root_at S h) (root_at S t, reserved_paths S t, h_leases t)" using P [OF t] by (simp add: catalog_of_def)
          show "review_done (root_at S t, reserved_paths S t, h_leases t) (Some (root, kind)) (map fst ?requests) stale"
            using seen' t Some v by (simp add: catalog_of_def)
        qed (use keys free Some v t sub in \<open>auto simp: catalog_of_def\<close>)
      qed
    qed
  qed
  have review: "guarded S ?P (and_do (review_roots S registry public paths entries) (finish registry public paths)) (?Q (map_option snd public)) t"
    if t: "catalog_of S t = catalog_of S h" and entries: "\<And>k v. root_at S h k = Some v \<longleftrightarrow> (\<exists>e. (k, e) \<in> set entries \<and> v = (en_root e, en_kind e))" "distinct (map fst entries)"
      and keys: "\<And>k r u. root_at S h k = Some (r, u) \<Longrightarrow> root_binding S r = k"
      and free: "\<And>root kind p. public = Some (root, kind) \<Longrightarrow> p \<in> reserved_paths S h \<union> set paths \<Longrightarrow> \<not> overlaps root p"
    for registry public paths entries t
  proof (rule guarded_and_do, rule guarded_review [OF codec])
    show "root_at S t k = Some (en_root e, en_kind e)" if "(k, e) \<in> set entries" for k e
      using entries(1) [of k] that \<open>catalog_of S t = catalog_of S h\<close> by (auto simp: catalog_of_def)
    fix stale u assume u: "catalog_of S u = catalog_of S t"
      and r: "\<And>k e. (k, e) \<in> set entries \<Longrightarrow> reviewed (catalog_of S t) public paths stale k (en_root e, en_kind e)"
    have "review_done (catalog_of S h) public paths stale"
      using r entries(1) t by (auto simp: review_done_def catalog_of_def)
    with u t keys free show "guarded S ?P (finish registry public paths stale) (?Q (map_option snd public)) u" by (intro finish) simp_all
  qed (use P [OF t] entries(2) in simp_all)
  have read: "guarded S ?P (and_do (read_admission S) (\<lambda>(entries, reserved).
      and_do (require (case public of None \<Rightarrow> True | Some (root, _) \<Rightarrow> \<not> list_ex (overlaps root) reserved)
        (Denied ''network root overlaps reserved private state'')) (\<lambda>_.
      and_do (review_roots S registry public paths entries) (finish registry public paths)))) (?Q (map_option snd public)) t"
    if t: "catalog_of S t = catalog_of S h"
      and free: "\<And>root kind p. public = Some (root, kind) \<Longrightarrow> p \<in> set paths \<Longrightarrow> \<not> overlaps root p" for registry public paths t
  proof (rule guarded_and_do, rule guarded_quiet [OF still.R_quiet(12)], rule P [OF t])
    fix rows u assume run: "read_admission S t = (Done rows, u)" and u: "catalog_of S u = catalog_of S t"
    obtain entries reserved where rows: "rows = (entries, reserved)" by (cases rows)
    note facts = read_admission_done [OF run [unfolded rows]]
    have "root_at S h = root_at S t" and res: "reserved_paths S h = reserved_paths S t" using t by (simp_all add: catalog_of_def)
    then have at: "root_at S h k = map_option (\<lambda>e. (en_root e, en_kind e)) (entry_at S t k)" for k by (simp add: root_at_def)
    have keys: "root_binding S r = k" if "root_at S h k = Some (r, v)" for k r v using that facts(1,2) by (auto simp: at)
    have entries: "root_at S h k = Some v \<longleftrightarrow> (\<exists>e. (k, e) \<in> set entries \<and> v = (en_root e, en_kind e))" for k v
      by (auto simp: at facts(1))
    show "guarded S ?P (case rows of (entries, reserved) \<Rightarrow>
      and_do (require (case public of None \<Rightarrow> True | Some (root, _) \<Rightarrow> \<not> list_ex (overlaps root) reserved)
        (Denied ''network root overlaps reserved private state'')) (\<lambda>_.
      and_do (review_roots S registry public paths entries) (finish registry public paths))) (?Q (map_option snd public)) u"
      unfolding rows prod.case
    proof (rule guarded_and_do, rule guarded_require, use P u t in simp, rule review)
      assume "case public of None \<Rightarrow> True | Some (root, _) \<Rightarrow> \<not> list_ex (overlaps root) reserved"
      then show "\<not> overlaps root p" if "public = Some (root, kind)" "p \<in> reserved_paths S h \<union> set paths" for root kind p
        using that free facts(3) by (auto simp: res list_ex_iff)
    qed (use u t entries keys facts(4) in simp_all)
  qed
  show ?thesis unfolding admit_at_with_files_def finish_def [symmetric]
    apply (rule guarded_and_do, rule guarded_prospective, rule P, rule refl)
    apply (rule guarded_and_do, rule guarded_quiet, rule pre, erule P)
    apply (rule guarded_and_do, rule guarded_quiet [OF still.R_quiet(4)], simp add: P)
    apply (rule guarded_and_do, rule guarded_quiet [OF still.R_quiet(1)], simp add: P)
    apply (rule guarded_and_do, rule guarded_quiet [OF still.R_quiet(5)], simp add: P)
    apply (rule guarded_and_do, rule guarded_quiet, rule pre', simp add: P)
    apply (rule guarded_and_do, rule guarded_quiet, rule calm.keeps_map_each, rule still.R_quiet, simp add: P)
    apply (rule guarded_and_do, rule guarded_check_public, simp add: P)
    apply (subst kind [symmetric], assumption, rule read)
    by auto
qed

end
