(* ===== verification/Admission_Example.thy ===== *)
theory Admission_Example
  imports Admission_Laws
begin

text \<open>
  A concrete environment and host on which admission runs: byte strings are delimited by marks, the digest
  is the length of its input but for one path, and every mode is private.
\<close>

section \<open>A codec\<close>

text \<open>A list of byte strings: each byte follows a zero, each string is closed by a one.\<close>

definition delimit :: "u8 list list \<Rightarrow> u8 list" where
  "delimit bss = concat (map (\<lambda>bs. concat (map (\<lambda>b. [0, b]) bs) @ [1]) bss)"

fun undelimit :: "u8 list \<Rightarrow> u8 list list" where
  "undelimit [] = []"
| "undelimit (k # bs) = (if k = 1 then [] # undelimit bs else case bs of
     [] \<Rightarrow> [] | b # bs' \<Rightarrow> (case undelimit bs' of [] \<Rightarrow> [[b]] | s # ss \<Rightarrow> (b # s) # ss))"

lemma undelimit_delimit [simp]: "undelimit (delimit bss) = bss"
proof (induction bss)
  case (Cons bs bss)
  show ?case
  proof (induction bs)
    case Nil
    with Cons.IH show ?case by (simp add: delimit_def)
  next
    case (Cons b bs)
    have "delimit ((b # bs) # bss) = 0 # b # delimit (bs # bss)" by (simp add: delimit_def)
    with Cons.IH show ?case by simp
  qed
qed (simp add: delimit_def)

abbreviation char_at :: "u8 \<Rightarrow> char" where
  "char_at b \<equiv> char_of (unat b)"

lemma char_at_str_bytes [simp]: "map char_at (str_bytes s) = s"
proof -
  have "char_at (of_char c) = c" for c :: char
  proof -
    have "unat (of_char c :: u8) = (of_char c :: nat) mod 256"
      using unat_of_nat [where x = "of_char c :: nat" and 'a = 8] by (simp add: of_nat_of_char)
    then show ?thesis by simp
  qed
  then show ?thesis by (simp add: str_bytes_def comp_def)
qed

definition example_path_bytes :: "fs_path \<Rightarrow> u8 list" where
  "example_path_bytes p = delimit (map str_bytes p)"

definition example_path_of :: "u8 list \<Rightarrow> fs_path option" where
  "example_path_of bs = Some (map (map char_at) (undelimit bs))"

definition example_entry_bytes :: "root_entry \<Rightarrow> u8 list" where
  "example_entry_bytes e = delimit ([en_version e, if en_preparing e then 1 else 0] #
     (case en_kind e of Legacy \<Rightarrow> [[], [], []] | Managed s w \<Rightarrow> [[1], s, w]) @ map str_bytes (en_root e))"

definition example_entry_of :: "u8 list \<Rightarrow> root_entry option" where
  "example_entry_of bs = (case undelimit bs of
     [v, p] # k # s # w # root \<Rightarrow> Some \<lparr>en_version = v, en_root = map (map char_at) root,
       en_kind = (if k = [] then Legacy else Managed s w), en_preparing = (p = 1)\<rparr>
   | _ \<Rightarrow> None)"

lemma example_codec: "example_path_of (example_path_bytes p) = Some p" "example_entry_of (example_entry_bytes e) = Some e"
  by (simp_all add: example_path_of_def example_path_bytes_def example_entry_of_def example_entry_bytes_def comp_def
      split: root_use.split)

section \<open>A host\<close>

definition example_meta :: node_meta where
  "example_meta = \<lparr>nm_identity = None, nm_modified_ns = None, nm_changed_ns = None, nm_readonly = False, nm_nlink = 1\<rparr>"

definition example_admission :: admission_env where
  "example_admission = \<lparr>
     ad_externs = \<lparr>
       blake3_hash = (\<lambda>bs. hash_fill (if bs = example_path_bytes [''m''] then 0 else of_nat (Suc (length bs mod 100)))),
       blake3_derive = (\<lambda>_ _. hash_fill 0),
       hex_encode = (\<lambda>bs. replicate (unat (hd bs)) (CHR ''x'')),
       hex_decode_to_slice = (\<lambda>_. Inr (hash_fill 0))\<rparr>,
     ad_path_bytes = example_path_bytes, ad_path_of = example_path_of,
     ad_entry_bytes = example_entry_bytes, ad_entry_of = example_entry_of,
     ad_host = (\<lambda>_. example_meta), ad_private_mode = (\<lambda>_. True), ad_registry = [''reg'']\<rparr>"

definition example_host :: "(string, u8 list) fmap \<Rightarrow> host" where
  "example_host roots = \<lparr>
     h_fs = DirNode example_meta (fmap_of_list [(''reg'', DirNode example_meta fmempty),
       (''a'', DirNode example_meta fmempty), (''bb'', DirNode example_meta fmempty)]),
     h_roots = roots, h_private = fmempty, h_leases = {||}, h_clock = 0, h_script = []\<rparr>"

lemma example_admission_codec: "admission_codec example_admission"
  by (simp add: admission_codec_def example_admission_def example_codec)

lemma example_sole_key: "sole_key example_admission [''m'']"
proof -
  have "example_path_bytes p = example_path_bytes [''m''] \<Longrightarrow> p = [''m'']" for p
    by (metis example_codec(1) option.inject)
  moreover have "unat (of_nat (Suc (n mod 100)) :: u8) = Suc (n mod 100)" for n
    using mod_less_divisor [of 100 n] by (simp only: unat_of_nat) simp
  ultimately show ?thesis
    by (auto simp: sole_key_def root_binding_def example_admission_def digest_def to_hex_def simp del: of_nat_Suc split: if_splits)
qed

section \<open>A run\<close>

lemma example_env:
  "ad_path_bytes example_admission = example_path_bytes" "ad_path_of example_admission = example_path_of"
  "ad_entry_bytes example_admission = example_entry_bytes" "ad_entry_of example_admission = example_entry_of"
  "ad_host example_admission now = example_meta" "ad_private_mode example_admission m" "ad_registry example_admission = [''reg'']"
  by (simp_all add: example_admission_def)

lemmas run_calls = acquire_with_private_def admit_with_private_def admit_at_with_files_def
    and_do_def prospective_root_def hquery_def hread_def htick_def example_host_def
    lift_res_def ret_def fail_def fs_stat_def fs_entry_def fs_canonicalize_def is_real_dir_def is_dir_node_def ok_or_def aio_def
    require_def overlaps_def private_directory_def make_dirs_def hupdate_def fs_is_dir_def fs_metadata_def
    hsync_def hcanonicalize_def private_file_def fs_open_private_def check_public_def read_admission_def
    claim_lease_def drop_unless_done_def prepare_root_def check_marker_def sidecar_path_def
    fs_exists_def commit_admission_def commit_reservations_def publish_root_def persist_def new_entry_def

lemma example_bindings:
  "root_binding example_admission [''a''] = ''xxxx''" "root_binding example_admission [''bb''] = ''xxxxxx''"
  by (simp_all add: root_binding_def example_admission_def digest_def to_hex_def example_path_bytes_def delimit_def str_bytes_def)
     (simp_all add: numeral_eq_Suc)

lemma example_entry_length: "length (example_entry_bytes \<lparr>en_version = 1, en_root = [''a''], en_kind = Legacy, en_preparing = False\<rparr>) \<le> 32768"
  by (simp add: example_entry_bytes_def delimit_def str_bytes_def)

lemmas example_run = run_calls Let_def example_bindings example_env example_codec entry_row_def lease_is_live_def catch_def
  settle_managed_def ensure_def example_entry_length

end
