(* ===== verification/Admission_Props.thy ===== *)
theory Admission_Props
  imports Admission_Example
begin

text \<open>
  The guarantees of root admission over any sequence of admissions by any processes, each failing or
  interrupted anywhere, of dropped leases and of edits of the file system: leased roots never overlap each
  other or private state, and a managed binding is permanent. And a crash the code does not recover from.
\<close>

section \<open>Requests\<close>

datatype host_request =
    AdmitRoot fs_path root_use "fs_path list" "fs_node \<Rightarrow> admission_error + fs_node"
  | ReserveDirectory fs_path
  | ReserveFile fs_path
  | DropLease string
  | EditFiles "fs_node \<Rightarrow> fs_node"

text \<open>The caller's preparation may change the file system or fail; it does not reach into the registry.\<close>

fun serve_host :: "admission_env \<Rightarrow> host_request \<times> env_event list \<Rightarrow> host \<Rightarrow> host" where
  "serve_host S (AdmitRoot p kind private f, script) h =
     snd (admit_with_private S p kind private (\<lambda>_ _. hupdate (\<lambda>_. f)) (h\<lparr>h_script := script\<rparr>))"
| "serve_host S (ReserveDirectory p, script) h = snd (reserve_private S p (h\<lparr>h_script := script\<rparr>))"
| "serve_host S (ReserveFile p, script) h = snd (reserve_private_file S p (h\<lparr>h_script := script\<rparr>))"
| "serve_host S (DropLease key, script) h = h\<lparr>h_leases := h_leases h |-| {|key|}\<rparr>"
| "serve_host S (EditFiles f, script) h = h\<lparr>h_fs := f (h_fs h)\<rparr>"

definition serve_host_all :: "admission_env \<Rightarrow> (host_request \<times> env_event list) list \<Rightarrow> host \<Rightarrow> host" where
  "serve_host_all S requests = fold (serve_host S) requests"

lemma guarded_snd: "guarded S P p (\<lambda>_ t. P (catalog_of S t)) h \<Longrightarrow> P (catalog_of S (snd (p h)))"
  by (auto simp: guarded_def wp_def split: prod.splits outcome.splits)

lemma catalog_script [simp]: "catalog_of S (h\<lparr>h_script := script\<rparr>) = catalog_of S h" "root_at S (h\<lparr>h_script := script\<rparr>) = root_at S h"
  by (simp_all add: catalog_of_def root_at_def entry_at_def reserved_paths_def fun_eq_iff)

lemma catalog_drop: "catalog_of S (h\<lparr>h_leases := l\<rparr>) = (root_at S h, reserved_paths S h, l)"
  and catalog_edit: "catalog_of S (h\<lparr>h_fs := f\<rparr>) = catalog_of S h"
  by (simp_all add: catalog_of_def root_at_def entry_at_def reserved_paths_def fun_eq_iff)

lemma guarded_admission_settled:
  assumes "admission_codec S" "exclusive (catalog_of S h)" "\<And>root paths. keeps same_catalog (prepare root paths)"
  shows "guarded S (settled_catalog S (root_at S h)) (admit_at_with_files S request ds fs prepare)
    (\<lambda>_ t. settled_catalog S (root_at S h) (catalog_of S t)) h"
  by (rule guarded_mono [OF guarded_admission [OF assms(1,3,2)]]) auto

lemma serve_host_settled:
  assumes "admission_codec S" "exclusive (catalog_of S h)"
  shows "settled_catalog S (root_at S h) (catalog_of S (serve_host S request h))"
proof -
  obtain q script where request: "request = (q, script)" by (cases request)
  let ?h = "h\<lparr>h_script := script\<rparr>" and ?P = "settled_catalog S (root_at S h)"
  have ex: "exclusive (catalog_of S ?h)" using assms(2) by simp
  note admit = guarded_admission_settled [OF assms(1) ex, simplified]
  have here: "?P (catalog_of S ?h)" using assms(2) by (simp add: settled_catalog_def) (simp add: catalog_of_def)
  show ?thesis
  proof (cases q)
    case (AdmitRoot p kind paths f)
    have "keeps same_catalog (case root of None \<Rightarrow> fail (Denied ''missing public admission'') | Some r \<Rightarrow> hupdate (\<lambda>_. f))" for root
      by (intro keeps_intros)
    note admit = admit [OF this, of "Some (p, kind)" paths "[]"]
    have "guarded S ?P (admit_with_private S p kind paths (\<lambda>_ _. hupdate (\<lambda>_. f))) (\<lambda>_ t. ?P (catalog_of S t)) ?h"
      unfolding admit_with_private_def
      apply (rule guarded_and_do, rule guarded_mono [OF admit])
      by (auto intro!: guarded_ret guarded_fail split: option.split)
    then show ?thesis unfolding request AdmitRoot serve_host.simps by (rule guarded_snd)
  next
    case (ReserveDirectory p)
    have "guarded S ?P (reserve_private S p) (\<lambda>_ t. ?P (catalog_of S t)) ?h"
      unfolding reserve_private_def
      apply (rule guarded_and_do, rule guarded_mono [OF admit], intro keeps_intros)
      by (auto intro!: guarded_ret)
    then show ?thesis unfolding request ReserveDirectory serve_host.simps by (rule guarded_snd)
  next
    case (ReserveFile p)
    have "guarded S ?P (reserve_private_file S p) (\<lambda>_ t. ?P (catalog_of S t)) ?h"
      unfolding reserve_private_file_def
      apply (rule guarded_and_do, rule guarded_require, rule here)
      apply (rule guarded_and_do, rule guarded_mono [OF admit], intro keeps_intros)
      by (auto intro!: guarded_ret)
    then show ?thesis unfolding request ReserveFile serve_host.simps by (rule guarded_snd)
  next
    case (DropLease key)
    with assms(2) show ?thesis unfolding request by (simp add: settled_catalog_def catalog_drop) (auto simp: exclusive_def catalog_of_def)
  next
    case (EditFiles f)
    with assms(2) show ?thesis unfolding request by (simp add: settled_catalog_def catalog_edit) (simp add: catalog_of_def)
  qed
qed

lemma serve_host_all_settled:
  assumes "admission_codec S" "exclusive (catalog_of S h)"
  shows "settled_catalog S (root_at S h) (catalog_of S (serve_host_all S requests h))"
  unfolding serve_host_all_def using assms(2)
proof (induction requests arbitrary: h)
  case Nil
  then show ?case by (simp add: settled_catalog_def catalog_of_def)
next
  case (Cons request requests)
  note one = serve_host_settled [OF assms(1) Cons.prems, of request]
  have "settled_catalog S (root_at S (serve_host S request h)) (catalog_of S (fold (serve_host S) requests (serve_host S request h)))"
    using one by (intro Cons.IH) (simp add: settled_catalog_def)
  with one show ?case by (auto simp: settled_catalog_def catalog_of_def intro: keeps_managed_trans)
qed

lemma acquire_leased:
  assumes "admission_codec S" "exclusive (catalog_of S h)" and run: "acquire_with_private S p kind paths h = (Done lease, t)"
  shows "settled_catalog S (root_at S h) (catalog_of S t)" "root_at S t (rl_key lease) = Some (rl_root lease, kind)"
proof -
  let ?prepare = "\<lambda>root (paths :: fs_path list). case root of None \<Rightarrow> fail (Denied ''missing public admission'') | Some (r :: fs_path) \<Rightarrow> ret ()"
  have quiet: "keeps same_catalog (?prepare root paths)" for root paths by (intro keeps_intros)
  have "admit_at_with_files S (Some (p, kind)) paths [] ?prepare h = (Done (Some lease, ()), t)"
    using run by (auto simp: acquire_with_private_def admit_with_private_def and_do_def ret_def fail_def split: prod.splits outcome.splits option.splits)
  from wp_Done [OF guarded_admission [OF assms(1) quiet assms(2), unfolded guarded_def] this]
  show "settled_catalog S (root_at S h) (catalog_of S t)" "root_at S t (rl_key lease) = Some (rl_root lease, kind)"
    by (simp_all add: leased_as_def)
qed

section \<open>Exclusion\<close>

text \<open>
  C17: leased roots are exclusive. Starting from an empty registry, after any sequence of admissions,
  reservations, dropped leases and file system edits, with admissions failing or interrupted anywhere, every
  held lease has a recorded root, the roots of two leases never contain one another, and no leased root
  contains or lies in a reserved private path.
\<close>

theorem admission_exclusive:
  assumes "admission_codec S" and "h_roots h = fmempty" and "h_private h = fmempty" and "h_leases h = {||}"
    and "k |\<in>| h_leases (serve_host_all S requests h)"
  shows "\<exists>r u. root_at S (serve_host_all S requests h) k = Some (r, u) \<and>
    (\<forall>k'. k' |\<in>| h_leases (serve_host_all S requests h) \<longrightarrow> k' \<noteq> k \<longrightarrow>
       (\<exists>r' u'. root_at S (serve_host_all S requests h) k' = Some (r', u') \<and> \<not> overlaps r r')) \<and>
    (\<forall>p. p \<in> reserved_paths S (serve_host_all S requests h) \<longrightarrow> \<not> overlaps r p)"
proof -
  let ?t = "serve_host_all S requests h"
  have "exclusive (catalog_of S h)"
    using assms(2-4) by (simp add: exclusive_def exclusive_roots_def catalog_of_def root_at_def entry_at_def)
  then have ex: "exclusive (root_at S ?t, reserved_paths S ?t, h_leases ?t)"
    using serve_host_all_settled [OF assms(1)] by (simp add: settled_catalog_def catalog_of_def)
  then have roots: "k' |\<in>| h_leases ?t \<Longrightarrow> \<exists>r u. root_at S ?t k' = Some (r, u)" for k'
    by (auto simp: exclusive_def)
  from roots [OF assms(5)] obtain r u where "root_at S ?t k = Some (r, u)" by blast
  with ex roots show ?thesis unfolding exclusive_def exclusive_roots_def prod.case by (metis overlaps_sym)
qed

definition example_requests :: "(host_request \<times> env_event list) list" where
  "example_requests = [(AdmitRoot [''a''] Legacy [] Inr, []), (AdmitRoot [''bb''] Legacy [] Inr, [])]"

lemma example_leases: "h_leases (serve_host_all example_admission example_requests (example_host fmempty)) = {|''xxxx'', ''xxxxxx''|}"
  by (simp add: serve_host_all_def example_requests_def example_run finsert_commute)

theorem admission_exclusive_witness:
  "\<exists>h k k' r u r' u'. k \<noteq> k' \<and> h = serve_host_all example_admission example_requests (example_host fmempty) \<and>
     root_at example_admission h k = Some (r, u) \<and> root_at example_admission h k' = Some (r', u') \<and> \<not> overlaps r r'"
proof -
  let ?t = "serve_host_all example_admission example_requests (example_host fmempty)"
  have empty: "h_roots (example_host fmempty) = fmempty" "h_private (example_host fmempty) = fmempty" "h_leases (example_host fmempty) = {||}"
    by (simp_all add: example_host_def)
  have leased: "''xxxx'' |\<in>| h_leases ?t" "''xxxxxx'' |\<in>| h_leases ?t" by (simp_all add: example_leases)
  have "''xxxxxx'' \<noteq> ''xxxx''" by simp
  with admission_exclusive [OF example_admission_codec empty leased(1)] leased(2) show ?thesis by metis
qed

text \<open>
  C18: a managed binding is permanent. Once a root is recorded for a share and an owner, no later sequence of
  requests removes or changes the record, and an admission of any overlapping root that returns is for the
  same root, share and owner; this needs that no other path has the digest of the root.
\<close>

theorem managed_binding_permanent:
  assumes "admission_codec S" and "exclusive (catalog_of S h)" and "sole_key S r"
    and "root_at S h (root_binding S r) = Some (r, Managed s w)"
  shows "root_at S (serve_host_all S requests h) (root_binding S r) = Some (r, Managed s w) \<and>
    (\<forall>p kind private lease t. acquire_with_private S p kind private (serve_host_all S requests h) = (Done lease, t) \<longrightarrow>
       overlaps (rl_root lease) r \<longrightarrow> rl_root lease = r \<and> kind = Managed s w)"
proof -
  let ?t = "serve_host_all S requests h"
  have settled: "settled_catalog S (root_at S h) (catalog_of S ?t)" by (rule serve_host_all_settled [OF assms(1,2)])
  with assms(3,4) have kept: "root_at S ?t (root_binding S r) = Some (r, Managed s w)"
    by (auto simp: settled_catalog_def keeps_managed_def catalog_of_def)
  have "rl_root lease = r \<and> kind = Managed s w"
    if run: "acquire_with_private S p kind paths ?t = (Done lease, t)" and ov: "overlaps (rl_root lease) r" for p kind paths lease t
  proof -
    have ex: "exclusive (catalog_of S ?t)" using settled by (simp add: settled_catalog_def)
    note after = acquire_leased(1) [OF assms(1) ex run] and at = acquire_leased(2) [OF assms(1) ex run]
    from after kept assms(3) have "root_at S t (root_binding S r) = Some (r, Managed s w)"
      by (auto simp: settled_catalog_def keeps_managed_def catalog_of_def)
    with after at ov show ?thesis
      by (cases "rl_key lease = root_binding S r") (auto simp: settled_catalog_def exclusive_def exclusive_roots_def catalog_of_def)
  qed
  with kept show ?thesis by blast
qed

theorem managed_binding_permanent_witness:
  "\<exists>h. h = serve_host_all example_admission example_requests (example_host (fmupd [] (example_entry_bytes
       \<lparr>en_version = 1, en_root = [''m''], en_kind = Managed [1] [2], en_preparing = False\<rparr>) fmempty)) \<and>
     root_at example_admission h [] = Some ([''m''], Managed [1] [2])"
proof -
  let ?h = "example_host (fmupd [] (example_entry_bytes
       \<lparr>en_version = 1, en_root = [''m''], en_kind = Managed [1] [2], en_preparing = False\<rparr>) fmempty)"
  have key: "root_binding example_admission [''m''] = []"
    by (simp add: root_binding_def example_admission_def digest_def to_hex_def)
  have at: "root_at example_admission ?h k = (if k = [] then Some ([''m''], Managed [1] [2]) else None)" for k
    by (simp add: root_at_def entry_at_def example_host_def example_env example_codec)
  have "exclusive (catalog_of example_admission ?h)"
    by (simp add: exclusive_def exclusive_roots_def catalog_of_def at reserved_paths_def) (simp add: example_host_def)
  from managed_binding_permanent [OF example_admission_codec this example_sole_key, of "[1]" "[2]" example_requests]
  show ?thesis by (simp add: key at)
qed

section \<open>A crash that admission does not recover from\<close>

text \<open>
  \<open>write_marker\<close> creates the marker and writes it in two calls. A process that dies between them leaves an
  empty marker and an entry that is still being prepared; every later admission, of any root, stops there.
\<close>

definition interrupted_host :: host where
  "interrupted_host = snd (acquire example_admission [''a''] (Managed [1] [2])
     (example_host fmempty\<lparr>h_script := replicate 23 Proceed @ [Interrupt]\<rparr>))"

lemma interrupted_entry:
  "length (example_entry_bytes \<lparr>en_version = 1, en_root = [''a''], en_kind = Managed [1] [2], en_preparing = True\<rparr>) \<le> 32768"
  "example_entry_bytes e \<noteq> []"
  by (simp_all add: example_entry_bytes_def delimit_def str_bytes_def)

lemma interrupted_script: "replicate 23 Proceed = [Proceed, Proceed, Proceed, Proceed, Proceed, Proceed, Proceed, Proceed, Proceed, Proceed, Proceed, Proceed, Proceed, Proceed, Proceed, Proceed, Proceed, Proceed, Proceed, Proceed, Proceed, Proceed, Proceed]"
  by (simp add: numeral_eq_Suc)

lemma interrupted_marker_blocks_admission:
  "fst (acquire example_admission [''a''] (Managed [1] [2]) interrupted_host) = Failed (Denied ''managed ownership marker mismatch'')"
  "fst (acquire example_admission [''bb''] Legacy interrupted_host) = Failed (Denied ''managed ownership marker mismatch'')"
  by (simp_all add: interrupted_host_def acquire_def example_run write_marker_def read_bytes_def
      interrupted_script interrupted_entry interrupted_entry(2) [symmetric])

end
