(* ===== verification/Net_Snapshot.thy ===== *)
theory Net_Snapshot
  imports Net_Wire
begin

text \<open>
  Fetching a remote snapshot (\<open>fetch_snapshot_connected\<close> of \<^verbatim>\<open>crates/deltaweave-net/src/lib.rs\<close>): the
  client walks the remote Merkle tree breadth first, takes the records of every subtree whose summary agrees
  with the local tree from the local tree, and verifies the reconstruction against the root digest. The
  counter of queries stays below its limit of a million, which bounds the loop.
\<close>

section \<open>Checking a summary\<close>

definition MAX_QUERIES :: nat where "MAX_QUERIES = 1000000"

definition check_child :: "merkle_child_summary \<Rightarrow> u64 \<times> string option \<Rightarrow> sync_error + u64 \<times> string option" where
  "check_child child acc = (case acc of (cnt, previous) \<Rightarrow>
     and_then (map_err InPath (wire_path_new (cs_name child))) (\<lambda>name.
     and_then (ensure (length (components name) = 1) (Rejected ''remote Merkle child is not an immediate path component'')) (\<lambda>_.
     and_then (ensure (case previous of None \<Rightarrow> True | Some p \<Rightarrow> p < cs_name child)
                 (Rejected ''remote Merkle children are duplicated or out of order'')) (\<lambda>_.
     and_then (ensure (0 < cs_record_count child) (Rejected ''remote Merkle child is empty'')) (\<lambda>_.
     and_then (ok_or (checked_add cnt (cs_record_count child)) (Rejected ''remote Merkle record count overflow'')) (\<lambda>cnt'.
       Inr (cnt', Some (cs_name child))))))))"

definition validate_snapshot_summary :: "merkle_node_summary \<Rightarrow> sync_error + unit" where
  "validate_snapshot_summary summary =
     and_then (ensure (ns_record_count summary \<le> 1000000) (Rejected ''remote snapshot exceeds record safety limit'')) (\<lambda>_.
     and_then (if ns_prefix summary = [] then Inr () else
         and_then (map_err InPath (wire_path_new (ns_prefix summary))) (\<lambda>_.
           ensure (0 < ns_record_count summary) (Rejected ''remote Merkle child is empty''))) (\<lambda>_.
     and_then (case ns_record summary of None \<Rightarrow> Inr () | Some r \<Rightarrow>
         and_then (map_err InRecord (record_validate r)) (\<lambda>_.
           ensure (sr_path r = ns_prefix summary) (Rejected ''remote Merkle record does not match its prefix''))) (\<lambda>_.
     and_then (fold_res check_child (ns_children summary) (if ns_record summary = None then 0 else 1, None)) (\<lambda>(cnt, _).
       ensure (cnt = ns_record_count summary) (Rejected ''remote Merkle child record counts do not match their parent'')))))"

section \<open>Collecting records\<close>

definition insert_snapshot_record :: "sync_record \<Rightarrow> (wire_path, sync_record) fmap \<Rightarrow> sync_error + (wire_path, sync_record) fmap" where
  "insert_snapshot_record r records =
     and_then (map_err InRecord (record_validate r)) (\<lambda>_.
     and_then (ensure (case fmlookup records (sr_path r) of None \<Rightarrow> True | Some existing \<Rightarrow> existing = r)
                 (Rejected ''remote snapshot repeated a path inconsistently'')) (\<lambda>_.
       Inr (fmupd (sr_path r) r records)))"

definition insert_snapshot_records :: "sync_record list \<Rightarrow> (wire_path, sync_record) fmap \<Rightarrow> sync_error + (wire_path, sync_record) fmap" where
  "insert_snapshot_records incoming records = fold_res insert_snapshot_record incoming records"

record crawl =
  cw_queue :: "(string \<times> (hash32 \<times> u64) option) list"
  cw_records :: "(wire_path, sync_record) fmap"
  cw_root :: "(hash32 \<times> u64) option"
  cw_queried :: nat

definition summary_agrees :: "merkle_node_summary option \<Rightarrow> hash32 \<Rightarrow> u64 \<Rightarrow> bool" where
  "summary_agrees summary hash cnt = (case summary of None \<Rightarrow> False
     | Some s \<Rightarrow> ns_hash s = hash \<and> ns_record_count s = cnt)"

definition take_local :: "merkle_tree \<Rightarrow> string \<Rightarrow> crawl \<Rightarrow> sync_error + crawl" where
  "take_local local pfx cw =
     and_then (map_err InReconcile (records_under local pfx)) (\<lambda>known.
     and_then (insert_snapshot_records known (cw_records cw)) (\<lambda>records. Inr (cw\<lparr>cw_records := records\<rparr>)))"

definition crawl_child :: "merkle_tree \<Rightarrow> string \<Rightarrow> merkle_child_summary \<Rightarrow> crawl \<Rightarrow> sync_error + crawl" where
  "crawl_child local pfx child cw =
     (let child_prefix = (if pfx = [] then cs_name child else pfx @ ''/'' @ cs_name child) in
      and_then (map_err InReconcile (node_summary local child_prefix)) (\<lambda>known.
        if summary_agrees known (cs_hash child) (cs_record_count child) then take_local local child_prefix cw
        else
          and_then (ensure (length (cw_queue cw) < MAX_QUERIES - cw_queried cw)
                      (Rejected ''remote Merkle tree exceeds query safety limit'')) (\<lambda>_.
            Inr (cw\<lparr>cw_queue := cw_queue cw @ [(child_prefix, Some (cs_hash child, cs_record_count child))]\<rparr>))))"

definition crawl_step :: "merkle_tree \<Rightarrow> string \<Rightarrow> (hash32 \<times> u64) option \<Rightarrow> merkle_node_summary \<Rightarrow> crawl \<Rightarrow> sync_error + crawl" where
  "crawl_step local pfx expected summary cw =
     and_then (ensure (ns_prefix summary = pfx) (Rejected ''remote Merkle prefix mismatch'')) (\<lambda>_.
     and_then (validate_snapshot_summary summary) (\<lambda>_.
     and_then (case expected of None \<Rightarrow> Inr () | Some (hash, cnt) \<Rightarrow>
         ensure (ns_hash summary = hash \<and> ns_record_count summary = cnt)
           (Rejected ''remote Merkle child differs from its parent summary'')) (\<lambda>_.
     let cw1 = (if pfx = [] then cw\<lparr>cw_root := Some (ns_hash summary, ns_record_count summary)\<rparr> else cw) in
     and_then (map_err InReconcile (node_summary local pfx)) (\<lambda>known.
       if summary_agrees known (ns_hash summary) (ns_record_count summary) then take_local local pfx cw1
       else
         and_then (case ns_record summary of None \<Rightarrow> Inr (cw_records cw1)
                   | Some r \<Rightarrow> insert_snapshot_record r (cw_records cw1)) (\<lambda>records.
           fold_res (crawl_child local pfx) (ns_children summary) (cw1\<lparr>cw_records := records\<rparr>))))))"

section \<open>The loop\<close>

definition query_node :: "wire_peer \<Rightarrow> string \<Rightarrow> merkle_node_summary wprog" where
  "query_node peer pfx =
     and_do (write_frame peer (Request (QueryNode pfx))) (\<lambda>_.
     and_do (read_sync_response peer) (\<lambda>r. case r of
       Node (Some summary) \<Rightarrow> ret summary
     | Node None \<Rightarrow> fail (Rejected ''remote Merkle prefix disappeared'')
     | Error message \<Rightarrow> fail (Rejected (''remote Merkle query failed: '' @ message))
     | _ \<Rightarrow> fail (Rejected ''remote sent an unexpected Merkle response'')))"

lemma cw_queried_take_local: "take_local local pfx cw = Inr cw' \<Longrightarrow> cw_queried cw' = cw_queried cw"
  by (auto simp: take_local_def and_then_Inr_iff)

lemma cw_queried_child: "crawl_child local pfx child cw = Inr cw' \<Longrightarrow> cw_queried cw' = cw_queried cw"
  by (auto simp: crawl_child_def Let_def and_then_Inr_iff cw_queried_take_local split: if_splits)

lemma cw_queried_children: "fold_res (crawl_child local pfx) cs cw = Inr cw' \<Longrightarrow> cw_queried cw' = cw_queried cw"
  by (induction cs arbitrary: cw) (auto simp: and_then_Inr_iff dest: cw_queried_child)

lemma cw_queried_step: "crawl_step local pfx expected summary cw = Inr cw' \<Longrightarrow> cw_queried cw' = cw_queried cw"
  by (auto simp: crawl_step_def Let_def and_then_Inr_iff split: if_splits dest: cw_queried_take_local cw_queried_children)

function crawl_run :: "wire_peer \<Rightarrow> merkle_tree \<Rightarrow> crawl \<Rightarrow> crawl wprog" where
  "crawl_run peer local cw log = (case cw_queue cw of
     [] \<Rightarrow> (Done cw, log)
   | (pfx, expected) # queue \<Rightarrow>
       if MAX_QUERIES < Suc (cw_queried cw) then (Failed (Rejected ''remote Merkle tree exceeds query safety limit''), log)
       else (case query_node peer pfx log of
         (Done summary, log') \<Rightarrow>
           (case crawl_step local pfx expected summary (cw\<lparr>cw_queue := queue, cw_queried := Suc (cw_queried cw)\<rparr>) of
              Inl e \<Rightarrow> (Failed e, log')
            | Inr cw' \<Rightarrow> crawl_run peer local cw' log')
       | (Failed e, log') \<Rightarrow> (Failed e, log')
       | (Halted, log') \<Rightarrow> (Halted, log')))"
  by pat_completeness auto
termination
  by (relation "measure (\<lambda>(peer, local, cw, log). Suc MAX_QUERIES - cw_queried cw)") (auto dest: cw_queried_step)

declare crawl_run.simps [simp del]

definition finish_snapshot :: "wire_peer \<Rightarrow> unit wprog" where
  "finish_snapshot peer =
     and_do (write_frame peer (Request Finish)) (\<lambda>_.
     and_do (read_sync_response peer) (\<lambda>r. case r of
       Finished \<Rightarrow> ret ()
     | Error message \<Rightarrow> fail (Rejected (''remote snapshot failed: '' @ message))
     | _ \<Rightarrow> fail (Rejected ''remote sent an unexpected snapshot completion'')))"

definition verify_snapshot :: "externs \<Rightarrow> crawl \<Rightarrow> sync_error + remote_snapshot" where
  "verify_snapshot E cw =
     and_then (ok_or (cw_root cw) (Rejected ''remote omitted Merkle root'')) (\<lambda>(hash, cnt).
     and_then (ensure (map_len (cw_records cw) = unat cnt) (Rejected ''reconstructed remote record count mismatch'')) (\<lambda>_.
     let records = map_values (cw_records cw) in
     and_then (map_err InReconcile (from_records E records)) (\<lambda>verified.
     and_then (ensure (root_hash verified = hash) (Rejected ''reconstructed remote Merkle root mismatch'')) (\<lambda>_.
       Inr \<lparr>rs_records = records, rs_root_hash = hash, rs_record_count = cnt, rs_queried_nodes = cw_queried cw\<rparr>))))"

definition initial_crawl :: crawl where
  "initial_crawl = \<lparr>cw_queue = [([], None)], cw_records = fmempty, cw_root = None, cw_queried = 0\<rparr>"

definition fetch_snapshot :: "externs \<Rightarrow> wire_peer \<Rightarrow> merkle_tree \<Rightarrow> remote_snapshot wprog" where
  "fetch_snapshot E peer local =
     and_do open_connection (\<lambda>_.
     and_do (crawl_run peer local initial_crawl) (\<lambda>cw.
     and_do (finish_snapshot peer) (\<lambda>_.
       lift_res (verify_snapshot E cw))))"

end
