(* ===== verification/Net_Snapshot_Laws.thy ===== *)
theory Net_Snapshot_Laws
  imports Net_Snapshot Merge_Laws
begin

text \<open>
  Laws of the snapshot crawl: what the nodes of a Merkle tree built from records say about its records, why
  the summaries of such a tree pass the client's checks, and the invariant of the crawl of an honest peer.
\<close>

section \<open>Records stored beneath a node\<close>

definition stored :: "merkle_node \<Rightarrow> string list set" where
  "stored n = {ds. rec_at n ds \<noteq> None}"

definition named_children :: "merkle_node \<Rightarrow> (string \<times> merkle_node) list" where
  "named_children n = sorted_list_of_fmap (children n)"

lemma named_children_iff: "(name, m) \<in> set (named_children n) \<longleftrightarrow> fmlookup (children n) name = Some m"
  by (simp add: named_children_def in_sorted_list_of_fmap)

lemma distinct_named_children: "distinct (map fst (named_children n))"
  and sorted_named_children: "sorted_wrt (<) (map fst (named_children n))"
  by (simp_all add: named_children_def strict_sorted_iff)

lemma node_at_append: "node_at n (cs @ ds) = Option.bind (node_at n cs) (\<lambda>m. node_at m ds)"
  by (induction cs arbitrary: n) (auto split: option.splits)

lemma rec_at_append: "node_at n cs = Some m \<Longrightarrow> rec_at n (cs @ ds) = rec_at m ds"
  by (simp add: rec_at_def node_at_append)

lemma rec_at_node: "rec_at n (cs @ ds) \<noteq> None \<Longrightarrow> node_at n cs \<noteq> None"
  by (cases "node_at n cs") (auto simp: rec_at_def node_at_append)

lemma node_at_finalize: "node_at (finalize E n) cs = map_option (finalize E) (node_at n cs)"
  by (induction cs arbitrary: n) (auto split: option.split)

lemma stored_finalize [simp]: "stored (finalize E n) = stored n"
  by (simp add: stored_def)

lemma stored_unfold:
  "stored n = (if record_hash n = None then {} else {[]}) \<union> (\<Union>(name, m) \<in> set (named_children n). (#) name ` stored m)"
proof (rule set_eqI)
  fix ds
  show "ds \<in> stored n \<longleftrightarrow>
    ds \<in> (if record_hash n = None then {} else {[]}) \<union> (\<Union>(name, m) \<in> set (named_children n). (#) name ` stored m)"
  proof (cases ds)
    case Nil
    then show ?thesis by (auto simp: stored_def)
  next
    case (Cons d ds')
    have "d # ds' \<in> (\<Union>(name, m) \<in> set (named_children n). (#) name ` stored m) \<longleftrightarrow>
        (\<exists>m. fmlookup (children n) d = Some m \<and> rec_at m ds' \<noteq> None)"
      unfolding named_children_iff [symmetric] by (auto simp: stored_def)
    with Cons show ?thesis by (auto simp: stored_def split: option.splits)
  qed
qed

lemma finite_stored: "finite (stored n)"
proof (induction "size n" arbitrary: n rule: less_induct)
  case less
  then have "finite (stored m)" if "(name, m) \<in> set (named_children n)" for name m
    using that by (simp add: named_children_iff size_child)
  then show ?case unfolding stored_unfold [of n] by auto
qed

lemma card_stored:
  "card (stored n) = (if record_hash n = None then 0 else 1) + (\<Sum>(name, m) \<leftarrow> named_children n. card (stored m))"
proof -
  let ?own = "if record_hash n = None then {} else {[] :: string list}" and ?sub = "\<lambda>(name, m). (#) name ` stored m"
  have "card (\<Union> (?sub ` set (named_children n))) = (\<Sum>x \<in> set (named_children n). card (?sub x))"
  proof (intro card_UN_disjoint ballI impI)
    fix x y assume "x \<in> set (named_children n)" "y \<in> set (named_children n)" "x \<noteq> y"
    then have "fst x \<noteq> fst y" using distinct_named_children [of n] by (metis distinct_map inj_onD)
    then show "?sub x \<inter> ?sub y = {}" by (cases x; cases y) auto
  qed (auto simp: finite_stored)
  also have "\<dots> = (\<Sum>x \<leftarrow> named_children n. card (?sub x))"
    using distinct_named_children [of n] by (intro sum_list_distinct_conv_sum_set [symmetric]) (simp add: distinct_map)
  also have "\<dots> = (\<Sum>(name, m) \<leftarrow> named_children n. card (stored m))"
    by (intro arg_cong [of _ _ sum_list] map_cong) (auto simp: card_image)
  finally have "card (\<Union> (?sub ` set (named_children n))) = (\<Sum>(name, m) \<leftarrow> named_children n. card (stored m))" .
  moreover have "card (stored n) = card ?own + card (\<Union> (?sub ` set (named_children n)))"
    unfolding stored_unfold [of n] by (rule card_Un_disjoint) (auto simp: finite_stored)
  ultimately show ?thesis by simp
qed

section \<open>Cardinalities\<close>

lemma sorted_list_of_fmap_fmmap: "sorted_list_of_fmap (fmmap f m) = map (\<lambda>(k, v). (k, f v)) (sorted_list_of_fmap m)"
proof -
  have "fmlookup m k \<noteq> None" if "k \<in> set (sorted_list_of_fset (fmdom m))" for k
    using that by (simp add: fmlookup_dom_iff sorted_list_of_fset.rep_eq)
  then show ?thesis unfolding sorted_list_of_fmap_def by (auto simp: comp_def option.map_sel)
qed

lemma unat_fold_saturating:
  fixes acc :: u64
  assumes "unat acc + (\<Sum>x \<leftarrow> xs. unat (f x)) < 2 ^ 64"
  shows "unat (fold (\<lambda>x acc. saturating_add acc (f x)) xs acc) = unat acc + (\<Sum>x \<leftarrow> xs. unat (f x))"
  using assms
proof (induction xs arbitrary: acc)
  case (Cons x xs)
  then have "unat (saturating_add acc (f x)) = unat acc + unat (f x)" by (simp add: unat_saturating_add)
  with Cons show ?case by simp
qed simp

lemma unat_record_count: "card (stored n) < 2 ^ 64 \<Longrightarrow> unat (record_count (finalize E n)) = card (stored n)"
proof (induction "size n" arbitrary: n rule: less_induct)
  case less
  have each: "unat (record_count (finalize E m)) = card (stored m)" if "(name, m) \<in> set (named_children n)" for name m
  proof (rule less.hyps)
    show "size m < size n" using that by (simp add: named_children_iff size_child)
    have "card (stored m) \<le> (\<Sum>(name, m) \<leftarrow> named_children n. card (stored m))"
      using that by (intro member_le_sum_list) force+
    with less.prems show "card (stored m) < 2 ^ 64" by (simp add: card_stored [of n])
  qed
  have sum: "(\<Sum>c \<leftarrow> map_values (fmmap (finalize E) (children n)). unat (record_count c)) = (\<Sum>(name, m) \<leftarrow> named_children n. card (stored m))"
    unfolding sorted_list_of_fmap_fmmap named_children_def [symmetric] map_map
    by (intro arg_cong [of _ _ sum_list] map_cong) (auto dest: each)
  have "record_count (finalize E n) = fold (\<lambda>c acc. saturating_add acc (record_count c)) (map_values (fmmap (finalize E) (children n)))
      (if record_hash n = None then 0 else 1)"
    by (cases n) (simp add: finalize.simps Let_def)
  then show ?case
    using less.prems unat_fold_saturating [where f = record_count and xs = "map_values (fmmap (finalize E) (children n))"
        and acc = "if record_hash n = None then 0 else 1"]
    unfolding sum card_stored [of n] by (cases "record_hash n") simp_all
qed

section \<open>Every node leads to a record\<close>

definition populated :: "merkle_node \<Rightarrow> bool" where
  "populated n \<longleftrightarrow> (\<forall>cs m. node_at n cs = Some m \<longrightarrow> cs \<noteq> [] \<longrightarrow> stored m \<noteq> {})"

lemma node_at_default: "node_at node_default cs = Some m \<longleftrightarrow> cs = [] \<and> m = node_default"
  by (cases cs) (auto simp: node_default_def)

lemma node_at_insert: "node_at (insert_node h ps n) cs \<noteq> None \<Longrightarrow> \<not> prefix cs ps \<Longrightarrow> node_at n cs \<noteq> None"
proof (induction h ps n arbitrary: cs rule: insert_node.induct)
  case (1 h rh ch sh n)
  then show ?case by (cases cs) auto
next
  case (2 h p ps rh ch sh n)
  show ?case
  proof (cases cs)
    case Nil
    then show ?thesis by simp
  next
    case (Cons c cs')
    show ?thesis
    proof (cases "c = p")
      case True
      with 2 Cons have "node_at (get_or ch p node_default) cs' \<noteq> None" by auto
      with True Cons "2.prems"(2) show ?thesis
        by (cases "fmlookup ch p") (auto simp: get_or_def node_at_default)
    next
      case False
      with 2 Cons show ?thesis by auto
    qed
  qed
qed

lemma populated_insert:
  assumes "populated n"
  shows "populated (insert_node h ps n)"
  unfolding populated_def
proof (intro allI impI)
  fix cs m assume m: "node_at (insert_node h ps n) cs = Some m" and "cs \<noteq> []"
  show "stored m \<noteq> {}"
  proof (cases "prefix cs ps")
    case True
    then obtain ds where "ps = cs @ ds" by (auto simp: prefix_def)
    with rec_at_append [OF m, of ds] have "rec_at m ds = Some h" by (simp add: rec_at_insert)
    then have "ds \<in> stored m" by (simp add: stored_def)
    then show ?thesis by blast
  next
    case False
    with m node_at_insert obtain m' where m': "node_at n cs = Some m'" by (metis not_None_eq)
    with assms \<open>cs \<noteq> []\<close> have "stored m' \<noteq> {}" by (simp add: populated_def)
    then obtain ds where "rec_at m' ds \<noteq> None" by (auto simp: stored_def)
    then have "rec_at n (cs @ ds) \<noteq> None" by (simp add: rec_at_append [OF m'])
    then have "rec_at (insert_node h ps n) (cs @ ds) \<noteq> None" by (simp add: rec_at_insert)
    then have "ds \<in> stored m" using rec_at_append [OF m, of ds] by (simp add: stored_def)
    then show ?thesis by blast
  qed
qed

lemma populated_raw_root: "populated (raw_root E m)"
proof -
  have "populated n \<Longrightarrow> populated (fold (merkle_insert E) rs n)" for rs n
    by (induction rs arbitrary: n) (auto simp: merkle_insert_def populated_insert)
  moreover have "populated node_default" by (simp add: populated_def node_at_default)
  ultimately show ?thesis by (simp add: raw_root_def)
qed

section \<open>Nodes and paths of a tree\<close>

lemma tree_node_raw:
  assumes "tree_wf E t" "node_at (mt_root t) cs = Some n"
  obtains r where "node_at (raw_root E (mt_records t)) cs = Some r" "n = finalize E r"
  using assms by (auto simp: tree_wf_root(1) node_at_finalize)

lemma stored_node:
  assumes "tree_wf E t" "node_at (mt_root t) cs = Some n"
  shows "ds \<in> stored n \<longleftrightarrow> (\<exists>p. mt_get t p \<noteq> None \<and> components p = cs @ ds)"
proof -
  have "ds \<in> stored n \<longleftrightarrow> rec_at (mt_root t) (cs @ ds) \<noteq> None"
    by (simp add: stored_def rec_at_append [OF assms(2)])
  also have "\<dots> \<longleftrightarrow> (\<exists>p. mt_get t p \<noteq> None \<and> components p = cs @ ds)"
  proof (cases "\<exists>p. components p = cs @ ds")
    case True
    then obtain p where "components p = cs @ ds" by blast
    with rec_at_tree(1) [OF assms(1), of p] show ?thesis
      by (metis components_inject option.map_disc_iff)
  next
    case False
    then show ?thesis using rec_at_tree(2) [OF assms(1), of "cs @ ds"] by metis
  qed
  finally show ?thesis .
qed

lemma card_stored_node:
  assumes "tree_wf E t" "node_at (mt_root t) cs = Some n"
  shows "card (stored n) \<le> map_len (mt_records t)"
proof -
  have "(@) cs ` stored n \<subseteq> components ` fset (fmdom (mt_records t))"
  proof
    fix x assume "x \<in> (@) cs ` stored n"
    then obtain ds where "x = cs @ ds" "ds \<in> stored n" by blast
    then obtain p where "mt_get t p \<noteq> None" "components p = x" using stored_node [OF assms, of ds] by blast
    then have "p |\<in>| fmdom (mt_records t)" by (auto simp: mt_get_def fmlookup_dom_iff)
    with \<open>components p = x\<close> show "x \<in> components ` fset (fmdom (mt_records t))" by blast
  qed
  moreover have "card (components ` fset (fmdom (mt_records t))) = map_len (mt_records t)"
    by (simp add: card_image inj_on_def fcard.rep_eq)
  moreover have "card ((@) cs ` stored n) = card (stored n)" by (simp add: card_image inj_on_def)
  moreover have "card ((@) cs ` stored n) \<le> card (components ` fset (fmdom (mt_records t)))"
    using calculation(1) by (intro card_mono) simp_all
  ultimately show ?thesis by simp
qed

lemma node_record_count:
  assumes "tree_wf E t" "node_at (mt_root t) cs = Some n" "map_len (mt_records t) \<le> 1000000"
  shows "unat (record_count n) = card (stored n)"
proof -
  from assms(1,2) obtain r where r: "n = finalize E r" by (rule tree_node_raw)
  with card_stored_node [OF assms(1,2)] assms(3) have "card (stored r) < 2 ^ 64" by simp
  then show ?thesis by (simp add: r unat_record_count)
qed

lemma node_path:
  assumes "tree_wf E t" "node_at (mt_root t) cs = Some n" "cs \<noteq> []"
  shows "stored n \<noteq> {}" "path_ok (join_with ''/'' cs)" "components (join_with ''/'' cs) = cs" "\<forall>c \<in> set cs. component_ok c \<and> CHR 0x5C \<notin> set c"
proof -
  from assms(1,2) obtain r where r: "node_at (raw_root E (mt_records t)) cs = Some r" "n = finalize E r" by (rule tree_node_raw)
  with populated_raw_root [of E "mt_records t"] assms(3) show ne: "stored n \<noteq> {}" by (simp add: populated_def)
  then obtain ds where "ds \<in> stored n" by blast
  then obtain p where p: "mt_get t p \<noteq> None" "components p = cs @ ds" using stored_node [OF assms(1,2)] by blast
  have cs: "cs = take (length cs) (components p)" by (simp add: p(2))
  have ok: "path_ok p" using p(1) tree_wfD(2) [OF assms(1)] by blast
  show "path_ok (join_with ''/'' cs)" by (subst cs, rule path_ok_parent [OF ok]) (simp add: assms(3))
  have "\<forall>c \<in> set cs. CHR ''/'' \<notin> set c" using components_no_slash [of _ p] by (simp add: p(2))
  then show "components (join_with ''/'' cs) = cs" by (rule components_join [OF assms(3)])
  show "\<forall>c \<in> set cs. component_ok c \<and> CHR 0x5C \<notin> set c"
  proof
    fix c assume "c \<in> set cs"
    then have c: "c \<in> set (components p)" by (simp add: p(2))
    then have "set c \<subseteq> set p" using set_part_subset [of c "components p" "''/''"] by simp
    with c ok show "component_ok c \<and> CHR 0x5C \<notin> set c" by (auto simp: path_ok_iff)
  qed
qed

lemma name_path:
  assumes "component_ok c" "CHR ''/'' \<notin> set c" "CHR 0x5C \<notin> set c"
  shows "path_ok c" "components c = [c]"
proof -
  show comps: "components c = [c]" using components_join [of "[c]"] assms(2) by simp
  have "c \<noteq> []" "length c \<le> 255" using component_ok_plain [OF assms(1)] by auto
  then show "path_ok c" using assms comps by (cases c) (auto simp: path_ok_iff)
qed

section \<open>Summaries of a tree pass the checks\<close>

definition summary_of :: "merkle_tree \<Rightarrow> string list \<Rightarrow> merkle_node \<Rightarrow> merkle_node_summary" where
  "summary_of t cs n = \<lparr>ns_prefix = join_with ''/'' cs, ns_hash = subtree_hash n, ns_record_count = record_count n,
     ns_record = (if cs = [] then None else mt_get t (join_with ''/'' cs)), ns_children = summarize_children n\<rparr>"

lemma node_summary_at:
  assumes "cs = [] \<or> path_ok (join_with ''/'' cs) \<and> components (join_with ''/'' cs) = cs"
  shows "node_summary t (join_with ''/'' cs) = Inr (map_option (summary_of t cs) (node_at (mt_root t) cs))"
proof (cases "cs = []")
  case True
  then show ?thesis by (simp add: node_summary_def summary_of_def)
next
  case False
  with assms have "path_ok (join_with ''/'' cs)" "components (join_with ''/'' cs) = cs" by auto
  moreover from this have "join_with ''/'' cs \<noteq> []" "wire_path_new (join_with ''/'' cs) = Inr (join_with ''/'' cs)"
    by (auto simp: path_ok_iff wire_path_new_Inr_iff)
  ultimately show ?thesis using False
    by (simp add: node_summary_def result_simps summary_of_def split: option.split)
qed

lemma check_children:
  assumes "sorted_wrt (<) (map cs_name cs)" "\<forall>c \<in> set cs. path_ok (cs_name c) \<and> components (cs_name c) = [cs_name c] \<and> 0 < cs_record_count c"
    "unat acc + (\<Sum>c \<leftarrow> cs. unat (cs_record_count c)) < 2 ^ 64"
    "\<forall>c \<in> set cs. case previous of None \<Rightarrow> True | Some p \<Rightarrow> p < cs_name c"
  shows "\<exists>total' last. fold_res check_child cs (acc, previous) = Inr (total', last) \<and>
    unat total' = unat acc + (\<Sum>c \<leftarrow> cs. unat (cs_record_count c))"
  using assms
proof (induction cs arbitrary: acc previous)
  case (Cons c cs)
  have fits: "unat acc + unat (cs_record_count c) < 2 ^ 64" using Cons.prems(3) by simp
  then have add: "checked_add acc (cs_record_count c) = Some (acc + cs_record_count c)"
    "unat (acc + cs_record_count c) = unat acc + unat (cs_record_count c)"
    by (simp_all add: checked_add_def unat_word_ariths)
  have new: "wire_path_new (cs_name c) = Inr (cs_name c)" using Cons.prems(2) by (simp add: wire_path_new_Inr_iff)
  have "check_child c (acc, previous) = Inr (acc + cs_record_count c, Some (cs_name c))"
    using Cons.prems new add(1) by (cases previous) (auto simp: check_child_def result_simps)
  moreover have "\<exists>total' last. fold_res check_child cs (acc + cs_record_count c, Some (cs_name c)) = Inr (total', last) \<and>
      unat total' = unat (acc + cs_record_count c) + (\<Sum>c \<leftarrow> cs. unat (cs_record_count c))"
    using Cons.prems by (intro Cons.IH) (auto simp: add(2) add.assoc)
  ultimately show ?case using add(2) by (simp add: add.assoc)
qed simp

lemma summarize_children_eq: "summarize_children n = map (\<lambda>(name, m). \<lparr>cs_name = name, cs_hash = subtree_hash m, cs_record_count = record_count m\<rparr>) (named_children n)"
  by (simp add: summarize_children_def named_children_def)

lemma child_node: "node_at (mt_root t) cs = Some n \<Longrightarrow> (name, m) \<in> set (named_children n) \<Longrightarrow> node_at (mt_root t) (cs @ [name]) = Some m"
  by (simp add: node_at_append named_children_iff)

lemma own_record:
  assumes "tree_wf E t" "node_at (mt_root t) cs = Some n"
  shows "record_hash n = None \<longleftrightarrow> ns_record (summary_of t cs n) = None"
proof -
  have "record_hash n = None \<longleftrightarrow> [] \<notin> stored n" by (simp add: stored_def)
  also have "\<dots> \<longleftrightarrow> ns_record (summary_of t cs n) = None"
  proof (cases "cs = []")
    case True
    with stored_node [OF assms, of "[]"] show ?thesis by (simp add: summary_of_def)
  next
    case False
    then show ?thesis using stored_node [OF assms, of "[]"] node_path(3) [OF assms] by (auto simp: summary_of_def)
  qed
  finally show ?thesis .
qed

lemma summary_valid:
  assumes "tree_wf E t" "node_at (mt_root t) cs = Some n" "map_len (mt_records t) \<le> 1000000"
  shows "validate_snapshot_summary (summary_of t cs n) = Inr ()"
proof -
  let ?s = "summary_of t cs n" and ?acc = "if ns_record (summary_of t cs n) = None then 0 else 1 :: u64"
  note cnt = node_record_count [OF assms] and le = card_stored_node [OF assms(1,2)]
  have sub: "unat (record_count m) = card (stored m)" "path_ok name" "components name = [name]" "0 < record_count m"
    if "(name, m) \<in> set (named_children n)" for name m
  proof -
    note m = child_node [OF assms(2) that]
    note p = node_path [OF assms(1) m]
    show c: "unat (record_count m) = card (stored m)" by (rule node_record_count [OF assms(1) m assms(3)])
    from p(1) finite_stored [of m] have "0 < card (stored m)" by (simp add: card_gt_0_iff)
    with c show "0 < record_count m" by (simp add: word_greater_zero_iff unat_eq_0) (metis neq0_conv unat_0)
    have "CHR ''/'' \<notin> set name" using p(3) components_no_slash [of name "join_with ''/'' (cs @ [name])"] by simp
    with p(4) show "path_ok name" "components name = [name]" by (auto intro: name_path)
  qed
  have sum: "(\<Sum>c \<leftarrow> summarize_children n. unat (cs_record_count c)) = (\<Sum>(name, m) \<leftarrow> named_children n. card (stored m))"
    unfolding summarize_children_eq map_map
    by (intro arg_cong [of _ _ sum_list] map_cong) (auto dest: sub(1))
  have total: "unat ?acc + (\<Sum>c \<leftarrow> summarize_children n. unat (cs_record_count c)) = unat (record_count n)"
    unfolding sum cnt card_stored [of n] using own_record [OF assms(1,2)] by auto
  have "sorted_wrt (<) (map cs_name (summarize_children n))"
    using sorted_named_children [of n] by (simp add: summarize_children_eq comp_def case_prod_unfold)
  moreover have "\<forall>c \<in> set (summarize_children n). path_ok (cs_name c) \<and> components (cs_name c) = [cs_name c] \<and> 0 < cs_record_count c"
    using sub(2-4) by (auto simp: summarize_children_eq)
  moreover have "unat ?acc + (\<Sum>c \<leftarrow> summarize_children n. unat (cs_record_count c)) < 2 ^ 64"
    unfolding total cnt using le assms(3) by simp
  ultimately obtain total' last where "fold_res check_child (summarize_children n) (?acc, None) = Inr (total', last)"
    "unat total' = unat (record_count n)"
    using check_children [of "summarize_children n" ?acc None] total by auto
  moreover from this have "total' = record_count n" by (intro unsigned_word_eqI)
  ultimately have fold: "fold_res check_child (ns_children ?s) (?acc, None) = Inr (record_count n, last)"
    by (simp add: summary_of_def)
  have "record_count n \<le> 1000000" using cnt le assms(3) by (simp add: word_le_nat_alt)
  moreover have "cs \<noteq> [] \<Longrightarrow> 0 < record_count n"
    using node_path(1) [OF assms(1,2)] cnt finite_stored [of n] by (metis card_gt_0_iff unat_gt_0 word_greater_zero_iff)
  moreover have "record_ok r \<and> sr_path r = join_with ''/'' cs" if "ns_record ?s = Some r" for r
    using that tree_wfD [OF assms(1)] by (auto simp: summary_of_def split: if_splits)
  moreover have "cs \<noteq> [] \<Longrightarrow> join_with ''/'' cs \<noteq> [] \<and> wire_path_new (join_with ''/'' cs) = Inr (join_with ''/'' cs)"
    using node_path(2) [OF assms(1,2)] by (auto simp: path_ok_iff wire_path_new_Inr_iff)
  ultimately show ?thesis
    using fold unfolding validate_snapshot_summary_def
    by (cases "cs = []"; cases "ns_record ?s") (simp_all add: result_simps summary_of_def record_ok_def)
qed

section \<open>Subtrees that agree\<close>

lemma split_on_append: "split_on c (p @ c # s) = split_on c p @ split_on c s"
proof (induction p)
  case (Cons x p)
  then show ?case using split_on_not_Nil [of c p] by (cases "split_on c p") auto
qed simp

lemma join_parts: "xs \<noteq> [] \<Longrightarrow> ys \<noteq> [] \<Longrightarrow> join_with sep (xs @ ys) = join_with sep xs @ sep @ join_with sep ys"
  by (induction sep xs rule: join_with.induct) (auto simp: join_with_Cons)

lemma beneath_join:
  assumes "components (join_with ''/'' cs) = cs" "cs \<noteq> []" "join_with ''/'' cs \<noteq> []"
  shows "beneath (join_with ''/'' cs) p \<longleftrightarrow> prefix cs (components p)"
proof
  assume "beneath (join_with ''/'' cs) p"
  then consider "p = join_with ''/'' cs" | s where "p = join_with ''/'' cs @ CHR ''/'' # s"
    using assms(3) by (auto simp: beneath_def prefix_def)
  then show "prefix cs (components p)"
  proof cases
    case 2
    then have "components p = cs @ components s"
      using assms(1) unfolding components_def by (simp add: split_on_append)
    then show ?thesis by simp
  qed (simp add: assms(1))
next
  assume "prefix cs (components p)"
  then obtain ds where ds: "components p = cs @ ds" by (auto simp: prefix_def)
  show "beneath (join_with ''/'' cs) p"
  proof (cases "ds = []")
    case True
    with ds join_components [of p] show ?thesis by (simp add: beneath_def)
  next
    case False
    then have "join_with ''/'' (cs @ ds) = join_with ''/'' cs @ ''/'' @ join_with ''/'' ds"
      using assms(2) by (rule join_parts [rotated])
    with ds join_components [of p] have "p = join_with ''/'' cs @ ''/'' @ join_with ''/'' ds" by simp
    then show ?thesis by (simp add: beneath_def)
  qed
qed

lemma names_small_at: "names_small n \<Longrightarrow> node_at n cs = Some m \<Longrightarrow> names_small m"
proof (induction cs arbitrary: n)
  case (Cons c cs)
  then show ?case using names_small_iff [of n] by (auto split: option.splits)
qed simp

lemma node_at_inputs: "node_at n cs = Some m \<Longrightarrow> set (node_inputs m) \<subseteq> set (node_inputs n)"
proof (induction cs arbitrary: n)
  case (Cons c cs)
  then show ?case using node_inputs_child [of n c] by (fastforce split: option.splits)
qed simp

lemma agreeing_subtree:
  assumes "no_collision E t u" "tree_wf E t" "tree_wf E u"
    and "node_at (mt_root t) cs = Some a" "node_at (mt_root u) cs = Some b" "subtree_hash a = subtree_hash b"
    and "prefix cs (components p)"
  shows "mt_get t p = mt_get u p"
proof -
  from assms(2,4) obtain a' where a': "node_at (raw_root E (mt_records t)) cs = Some a'" "a = finalize E a'" by (rule tree_node_raw)
  from assms(3,5) obtain b' where b': "node_at (raw_root E (mt_records u)) cs = Some b'" "b = finalize E b'" by (rule tree_node_raw)
  have "set (node_inputs a) \<union> set (node_inputs b) \<subseteq> pair_inputs (mt_root t) (mt_root u)"
    using node_at_inputs [OF assms(4)] node_at_inputs [OF assms(5)] by auto
  then have "inj_on (node_digest E) (set (node_inputs a) \<union> set (node_inputs b))"
    using assms(1) unfolding no_collision_def by (blast intro: inj_on_subset)
  then have "a = b"
    using names_small_at [OF tree_wf_root(2) [OF assms(2)] a'(1)] names_small_at [OF tree_wf_root(2) [OF assms(3)] b'(1)] assms(6)
    unfolding a'(2) b'(2) by (intro finalize_hash_inject)
  moreover from assms(7) obtain ds where "components p = cs @ ds" by (auto simp: prefix_def)
  ultimately have "rec_at (mt_root t) (components p) = rec_at (mt_root u) (components p)"
    by (simp add: rec_at_append [OF assms(4)] rec_at_append [OF assms(5)])
  with rec_at_differs_iff [OF assms(1-3)] show ?thesis by blast
qed

section \<open>Collected records\<close>

text \<open>What the crawl has collected when only the subtrees of \<open>C\<close> are left.\<close>

definition collected :: "merkle_tree \<Rightarrow> string list set \<Rightarrow> (wire_path, sync_record) fmap" where
  "collected t C = fmfilter (\<lambda>p. \<forall>cs \<in> C. \<not> prefix cs (components p)) (mt_records t)"

lemma insert_collects:
  assumes "tree_wf E t" "\<forall>r \<in> set rs. mt_get t (sr_path r) = Some r"
  shows "insert_snapshot_records rs (fmfilter P (mt_records t)) = Inr (fmfilter (\<lambda>p. P p \<or> p \<in> sr_path ` set rs) (mt_records t))"
  using assms(2)
proof (induction rs arbitrary: P)
  case (Cons r rs)
  have r: "fmlookup (mt_records t) (sr_path r) = Some r" using Cons.prems by (simp add: mt_get_def)
  then have ok: "record_validate r = Inr ()" using tree_wfD(3) [OF assms(1)] by (simp add: mt_get_def record_ok_def)
  have "fmupd (sr_path r) r (fmfilter P (mt_records t)) = fmfilter (\<lambda>p. P p \<or> p = sr_path r) (mt_records t)"
    by (rule fmap_ext) (auto simp: r)
  then have "insert_snapshot_record r (fmfilter P (mt_records t)) = Inr (fmfilter (\<lambda>p. P p \<or> p = sr_path r) (mt_records t))"
    using r ok by (simp add: insert_snapshot_record_def result_simps)
  moreover have "(\<lambda>p. (P p \<or> p = sr_path r) \<or> p \<in> sr_path ` set rs) = (\<lambda>p. P p \<or> p \<in> sr_path ` set (r # rs))"
    by (auto simp: fun_eq_iff)
  ultimately show ?case using Cons.IH [of "\<lambda>p. P p \<or> p = sr_path r"] Cons.prems
    by (simp add: insert_snapshot_records_def)
qed (simp add: insert_snapshot_records_def)

lemma fmfilter_same: "(\<And>p r. fmlookup m p = Some r \<Longrightarrow> P p \<longleftrightarrow> Q p) \<Longrightarrow> fmfilter P m = fmfilter Q m"
  by (rule fmap_ext) (metis fmlookup_filter not_None_eq)

text \<open>Taking a subtree from the local tree.\<close>

lemma take_local_collects:
  assumes "no_collision E local t" "tree_wf E local" "tree_wf E t"
    and "node_at (mt_root local) cs = Some a" "node_at (mt_root t) cs = Some b" "subtree_hash a = subtree_hash b"
    and "cw_records cw = collected t (insert cs C)" "\<forall>c \<in> C. \<not> prefix c cs \<and> \<not> prefix cs c"
  shows "take_local local (join_with ''/'' cs) cw = Inr (cw\<lparr>cw_records := collected t C\<rparr>)"
proof -
  let ?pfx = "join_with ''/'' cs"
  have path: "cs \<noteq> [] \<Longrightarrow> path_ok ?pfx \<and> ?pfx \<noteq> [] \<and> components ?pfx = cs"
    using node_path [OF assms(3,5)] by (auto simp: path_ok_iff)
  have ben: "beneath ?pfx p \<longleftrightarrow> prefix cs (components p)" for p
    using beneath_join [of cs p] path by (cases "cs = []") (auto simp: beneath_def)
  let ?rs = "filter (\<lambda>r. beneath ?pfx (sr_path r)) (mt_record_list local)"
  have under: "records_under local ?pfx = Inr ?rs"
    using path by (intro records_under_eq [OF assms(2)], cases "cs = []") auto
  have rs: "r \<in> set ?rs \<longleftrightarrow> mt_get t (sr_path r) = Some r \<and> prefix cs (components (sr_path r))" for r
  proof -
    have "r \<in> set (mt_record_list local) \<longleftrightarrow> mt_get local (sr_path r) = Some r"
      unfolding mt_record_list_def set_map_values using tree_wfD(1) [OF assms(2)] by (auto simp: mt_get_def)
    then have "r \<in> set ?rs \<longleftrightarrow> mt_get local (sr_path r) = Some r \<and> prefix cs (components (sr_path r))" by (simp add: ben)
    with agreeing_subtree [OF assms(1-6), of "sr_path r"] show ?thesis by metis
  qed
  have "fmfilter (\<lambda>p. (\<forall>c \<in> insert cs C. \<not> prefix c (components p)) \<or> p \<in> sr_path ` set ?rs) (mt_records t) = collected t C"
    unfolding collected_def
  proof (rule fmfilter_same)
    fix p r assume r: "fmlookup (mt_records t) p = Some r"
    then have "sr_path r = p" using tree_wfD(1) [OF assms(3)] by (simp add: mt_get_def)
    with r have "p \<in> sr_path ` set ?rs \<longleftrightarrow> prefix cs (components p)"
      using rs [of r] rs unfolding image_iff mt_get_def by (metis option.inject)
    moreover have "prefix cs (components p) \<Longrightarrow> c \<in> C \<Longrightarrow> \<not> prefix c (components p)" for c
      using assms(8) prefix_same_cases by blast
    ultimately show "(\<forall>c \<in> insert cs C. \<not> prefix c (components p)) \<or> p \<in> sr_path ` set ?rs \<longleftrightarrow> (\<forall>c \<in> C. \<not> prefix c (components p))"
      by blast
  qed
  moreover have "\<forall>r \<in> set ?rs. mt_get t (sr_path r) = Some r" using rs by blast
  ultimately have "insert_snapshot_records ?rs (cw_records cw) = Inr (collected t C)"
    using insert_collects [OF assms(3), of ?rs "\<lambda>p. \<forall>c \<in> insert cs C. \<not> prefix c (components p)"]
    unfolding assms(7) by (simp add: collected_def)
  then show ?thesis by (simp add: take_local_def under result_simps)
qed

end
