(* ===== verification/Net_Snapshot_Props.thy ===== *)
theory Net_Snapshot_Props
  imports Net_Snapshot_Laws
begin

text \<open>
  The guarantees of fetching a snapshot: from an honest peer it returns exactly the peer's records, and from
  any peer it returns only records that the advertised root digest commits to.
\<close>

section \<open>The crawl of an honest peer\<close>

definition node_paths :: "merkle_node \<Rightarrow> string list set" where
  "node_paths n = {cs. node_at n cs \<noteq> None}"

lemma finite_node_paths: "finite (node_paths n)"
proof (induction "size n" arbitrary: n rule: less_induct)
  case less
  have "node_paths n \<subseteq> insert [] (\<Union>(name, m) \<in> set (named_children n). (#) name ` node_paths m)"
  proof
    fix cs assume "cs \<in> node_paths n"
    then show "cs \<in> insert [] (\<Union>(name, m) \<in> set (named_children n). (#) name ` node_paths m)"
    proof (cases cs)
      case (Cons c cs')
      with \<open>cs \<in> node_paths n\<close> obtain m where "(c, m) \<in> set (named_children n)" "cs' \<in> node_paths m"
        by (auto simp: node_paths_def named_children_iff split: option.splits)
      with Cons show ?thesis by force
    qed simp
  qed
  moreover have "finite (node_paths m)" if "(name, m) \<in> set (named_children n)" for name m
    using that less by (simp add: named_children_iff size_child)
  ultimately show ?case by (elim finite_subset) auto
qed

definition entry_ok :: "merkle_tree \<Rightarrow> string list \<Rightarrow> string \<times> (hash32 \<times> u64) option \<Rightarrow> bool" where
  "entry_ok t cs e \<longleftrightarrow> (\<exists>n. node_at (mt_root t) cs = Some n \<and> fst e = join_with ''/'' cs \<and>
     (snd e = None \<or> snd e = Some (subtree_hash n, record_count n)))"

text \<open>\<open>css\<close> are the queued nodes, \<open>C\<close> the children still to be looked at, \<open>V\<close> the nodes that were queried.\<close>

definition crawl_inv :: "merkle_tree \<Rightarrow> string list list \<Rightarrow> string list set \<Rightarrow> string list set \<Rightarrow> crawl \<Rightarrow> bool" where
  "crawl_inv t css C V cw \<longleftrightarrow> list_all2 (entry_ok t) css (cw_queue cw) \<and> cw_records cw = collected t (set css \<union> C) \<and>
     distinct css \<and> set css \<inter> C = {} \<and> V \<inter> (set css \<union> C) = {} \<and> set css \<union> C \<union> V \<subseteq> node_paths (mt_root t) \<and>
     (\<forall>a \<in> set css \<union> C. \<forall>b \<in> set css \<union> C. prefix a b \<longrightarrow> a = b) \<and>
     (\<forall>a \<in> set css \<union> C \<union> V. \<forall>u. strict_prefix u a \<longrightarrow> u \<in> V) \<and> card V = cw_queried cw"

lemma crawl_room:
  assumes "crawl_inv t css C V cw"
  shows "length (cw_queue cw) + cw_queried cw + card C \<le> card (node_paths (mt_root t))"
proof -
  have fin: "finite (set css \<union> C \<union> V)" using assms finite_node_paths [of "mt_root t"] unfolding crawl_inv_def by (meson finite_subset)
  have "card (set css \<union> C \<union> V) = length css + card C + card V"
    using assms fin by (subst card_Un_disjoint, auto simp: crawl_inv_def card_Un_disjoint distinct_card)
  moreover have "length (cw_queue cw) = length css" using assms unfolding crawl_inv_def by (metis list_all2_lengthD)
  moreover have "card (set css \<union> C \<union> V) \<le> card (node_paths (mt_root t))"
    using assms finite_node_paths [of "mt_root t"] by (intro card_mono) (auto simp: crawl_inv_def)
  ultimately show ?thesis using assms by (simp add: crawl_inv_def)
qed

definition child_summary :: "string \<times> merkle_node \<Rightarrow> merkle_child_summary" where
  "child_summary e = \<lparr>cs_name = fst e, cs_hash = subtree_hash (snd e), cs_record_count = record_count (snd e)\<rparr>"

lemma crawl_child_honest:
  assumes trees: "no_collision E local t" "tree_wf E local" "tree_wf E t" "card (node_paths (mt_root t)) \<le> MAX_QUERIES"
    and node: "node_at (mt_root t) cs = Some n" "(name, m) \<in> set (named_children n)" "cs \<in> V"
    and inv: "crawl_inv t css (insert (cs @ [name]) C) V cw" "cs @ [name] \<notin> C"
  shows "\<exists>css' cw'. crawl_child local (join_with ''/'' cs) (child_summary (name, m)) cw = Inr cw' \<and>
    crawl_inv t css' C V cw' \<and> cw_root cw' = cw_root cw"
proof -
  let ?d = "cs @ [name]"
  have d: "node_at (mt_root t) ?d = Some m" by (rule child_node [OF node(1,2)])
  note path = node_path [OF trees(3) d]
  have pfx: "(if join_with ''/'' cs = [] then name else join_with ''/'' cs @ ''/'' @ name) = join_with ''/'' ?d"
    using node_path [OF trees(3) node(1)] join_parts [of cs "[name]" "''/''"] by (cases "cs = []") (auto simp: path_ok_iff)
  have known: "node_summary local (join_with ''/'' ?d) = Inr (map_option (summary_of local ?d) (node_at (mt_root local) ?d))"
    using path by (intro node_summary_at) auto
  have step: "crawl_child local (join_with ''/'' cs) (child_summary (name, m)) cw =
     (if summary_agrees (map_option (summary_of local ?d) (node_at (mt_root local) ?d)) (subtree_hash m) (record_count m)
      then take_local local (join_with ''/'' ?d) cw
      else and_then (ensure (length (cw_queue cw) < MAX_QUERIES - cw_queried cw) (Rejected ''remote Merkle tree exceeds query safety limit''))
        (\<lambda>_. Inr (cw\<lparr>cw_queue := cw_queue cw @ [(join_with ''/'' ?d, Some (subtree_hash m, record_count m))]\<rparr>)))"
    unfolding crawl_child_def child_summary_def Let_def merkle_child_summary.simps fst_conv snd_conv pfx known by simp
  show ?thesis
  proof (cases "summary_agrees (map_option (summary_of local ?d) (node_at (mt_root local) ?d)) (subtree_hash m) (record_count m)")
    case True
    then obtain a where a: "node_at (mt_root local) ?d = Some a" "subtree_hash a = subtree_hash m"
      by (auto simp: summary_agrees_def summary_of_def split: option.splits)
    have "take_local local (join_with ''/'' ?d) cw = Inr (cw\<lparr>cw_records := collected t (set css \<union> C)\<rparr>)"
      using inv by (intro take_local_collects [OF trees(1-3) a(1) d a(2)]) (auto simp: crawl_inv_def)
    moreover have "crawl_inv t css C V (cw\<lparr>cw_records := collected t (set css \<union> C)\<rparr>)"
      using inv by (auto simp: crawl_inv_def)
    ultimately show ?thesis using True unfolding step by auto
  next
    case False
    have "finite C" using inv finite_node_paths [of "mt_root t"] by (auto simp: crawl_inv_def intro: finite_subset)
    then have "length (cw_queue cw) < MAX_QUERIES - cw_queried cw"
      using crawl_room [OF inv(1)] trees(4) inv(2) by simp
    moreover have "crawl_inv t (css @ [?d]) C V (cw\<lparr>cw_queue := cw_queue cw @ [(join_with ''/'' ?d, Some (subtree_hash m, record_count m))]\<rparr>)"
      using inv d by (auto simp: crawl_inv_def list_all2_appendI entry_ok_def insert_commute)
    ultimately show ?thesis using False unfolding step by (auto simp: ensure_def)
  qed
qed

lemma crawl_children_honest:
  assumes trees: "no_collision E local t" "tree_wf E local" "tree_wf E t" "card (node_paths (mt_root t)) \<le> MAX_QUERIES"
    and node: "node_at (mt_root t) cs = Some n" "cs \<in> V"
    and ks: "set ks \<subseteq> set (named_children n)" "distinct (map fst ks)"
    and inv: "crawl_inv t css ((\<lambda>k. cs @ [fst k]) ` set ks) V cw"
  shows "\<exists>css' cw'. fold_res (crawl_child local (join_with ''/'' cs)) (map child_summary ks) cw = Inr cw' \<and>
    crawl_inv t css' {} V cw' \<and> cw_root cw' = cw_root cw"
  using ks inv
proof (induction ks arbitrary: css cw)
  case (Cons k ks)
  obtain name m where k: "k = (name, m)" by (cases k)
  have "(name, m) \<in> set (named_children n)" using Cons.prems(1) k by auto
  moreover have "cs @ [name] \<notin> (\<lambda>k. cs @ [fst k]) ` set ks" using Cons.prems(2) k by force
  moreover have "crawl_inv t css (insert (cs @ [name]) ((\<lambda>k. cs @ [fst k]) ` set ks)) V cw" using Cons.prems(3) k by simp
  ultimately obtain css1 cw1 where one: "crawl_child local (join_with ''/'' cs) (child_summary (name, m)) cw = Inr cw1"
    "crawl_inv t css1 ((\<lambda>k. cs @ [fst k]) ` set ks) V cw1" "cw_root cw1 = cw_root cw"
    using crawl_child_honest [OF trees node(1) _ node(2)] by blast
  with Cons.IH [OF _ _ one(2)] Cons.prems(1,2) show ?case by (auto simp: k)
qed auto

text \<open>The record of a node splits off its subtree from those of its children.\<close>

lemma own_collects:
  assumes "tree_wf E t" "node_at (mt_root t) cs = Some n" "\<forall>c \<in> C. \<not> prefix c cs \<and> \<not> prefix cs c"
  shows "(case ns_record (summary_of t cs n) of None \<Rightarrow> Inr (collected t (insert cs C))
     | Some r \<Rightarrow> insert_snapshot_record r (collected t (insert cs C))) =
    Inr (collected t (C \<union> (\<lambda>k. cs @ [fst k]) ` set (named_children n)))"
proof -
  let ?K = "(\<lambda>k. cs @ [fst k]) ` set (named_children n)"
  define own where "own = (case ns_record (summary_of t cs n) of None \<Rightarrow> [] | Some r \<Rightarrow> [r])"
  have own: "\<forall>r \<in> set own. mt_get t (sr_path r) = Some r" "sr_path ` set own = {p. mt_get t p \<noteq> None \<and> components p = cs}"
  proof -
    have path: "cs \<noteq> [] \<Longrightarrow> components (join_with ''/'' cs) = cs" by (rule node_path(3) [OF assms(1,2)])
    have here: "components p = cs \<longleftrightarrow> cs \<noteq> [] \<and> p = join_with ''/'' cs" for p
      using path by (metis components_not_Nil join_components)
    note keyed = tree_wfD(1) [OF assms(1)]
    show "\<forall>r \<in> set own. mt_get t (sr_path r) = Some r"
      using keyed by (cases "mt_get t (join_with ''/'' cs)") (auto simp: own_def summary_of_def)
    show "sr_path ` set own = {p. mt_get t p \<noteq> None \<and> components p = cs}"
      using keyed by (cases "mt_get t (join_with ''/'' cs)") (auto simp: own_def summary_of_def here)
  qed
  have "fmfilter (\<lambda>p. (\<forall>c \<in> insert cs C. \<not> prefix c (components p)) \<or> p \<in> sr_path ` set own) (mt_records t) = collected t (C \<union> ?K)"
    unfolding collected_def
  proof (rule fmfilter_same)
    fix p r assume r: "fmlookup (mt_records t) p = Some r"
    then have some: "mt_get t p \<noteq> None" by (simp add: mt_get_def)
    have split: "prefix cs (components p) \<longleftrightarrow> components p = cs \<or> (\<exists>d \<in> ?K. prefix d (components p))"
    proof
      assume "prefix cs (components p)"
      then obtain ds where ds: "components p = cs @ ds" by (auto simp: prefix_def)
      show "components p = cs \<or> (\<exists>d \<in> ?K. prefix d (components p))"
      proof (cases ds)
        case (Cons name ds')
        from ds some stored_node [OF assms(1,2), of ds] have "rec_at n ds \<noteq> None" by (auto simp: stored_def)
        with Cons obtain m where "(name, m) \<in> set (named_children n)" by (auto simp: named_children_iff split: option.splits)
        then have "cs @ [name] \<in> ?K" by force
        with ds Cons show ?thesis by (intro disjI2 bexI [of _ "cs @ [name]"]) simp_all
      qed (simp add: ds)
    qed (auto simp: prefix_def)
    have apart: "prefix cs (components p) \<Longrightarrow> c \<in> C \<Longrightarrow> \<not> prefix c (components p)" for c
      using assms(3) prefix_same_cases by blast
    have "components p = cs \<Longrightarrow> d \<in> ?K \<Longrightarrow> \<not> prefix d (components p)" for d
      by (auto simp: prefix_def)
    with split apart own(2) some
    show "(\<forall>c \<in> insert cs C. \<not> prefix c (components p)) \<or> p \<in> sr_path ` set own \<longleftrightarrow> (\<forall>c \<in> C \<union> ?K. \<not> prefix c (components p))"
      by auto
  qed
  then have "insert_snapshot_records own (collected t (insert cs C)) = Inr (collected t (C \<union> ?K))"
    using insert_collects [OF assms(1) own(1), of "\<lambda>p. \<forall>c \<in> insert cs C. \<not> prefix c (components p)"] by (simp add: collected_def)
  then show ?thesis by (auto simp: own_def insert_snapshot_records_def result_simps split: option.splits)
qed

text \<open>Visiting a node replaces it by its children.\<close>

lemma visit_node:
  assumes inv: "crawl_inv t (cs # css) {} V cw" and node: "node_at (mt_root t) cs = Some n"
    and cw': "list_all2 (entry_ok t) css (cw_queue cw')" "cw_records cw' = collected t (set css \<union> (\<lambda>k. cs @ [fst k]) ` set (named_children n))"
    "cw_queried cw' = Suc (cw_queried cw)"
  shows "crawl_inv t css ((\<lambda>k. cs @ [fst k]) ` set (named_children n)) (insert cs V) cw'"
proof -
  let ?K = "(\<lambda>k. cs @ [fst k]) ` set (named_children n)"
  have fin: "finite V" using inv finite_node_paths [of "mt_root t"] by (auto simp: crawl_inv_def intro: finite_subset)
  have apart: "c \<in> set css \<Longrightarrow> \<not> prefix c cs \<and> \<not> prefix cs c" for c using inv by (auto simp: crawl_inv_def)
  have closed: "a \<in> insert cs (set css \<union> V) \<Longrightarrow> strict_prefix u a \<Longrightarrow> u \<in> V" for a u using inv by (auto simp: crawl_inv_def)
  have cs: "cs \<notin> V" "cs \<notin> set css" using inv by (auto simp: crawl_inv_def)
  have K: "d \<in> ?K \<Longrightarrow> \<exists>name. d = cs @ [name] \<and> node_at (mt_root t) d \<noteq> None" for d
    using child_node [OF node] by fastforce
  then have notV: "d \<in> ?K \<Longrightarrow> d \<notin> V \<and> d \<notin> set css \<and> d \<noteq> cs" for d
    using closed [of d cs] apart cs by (fastforce simp: strict_prefix_def)
  have sub: "?K \<subseteq> node_paths (mt_root t)" using K by (auto simp: node_paths_def)
  have chain: "prefix a b \<longrightarrow> a = b" if "a \<in> set css \<union> ?K" "b \<in> set css \<union> ?K" for a b
  proof -
    have "a \<in> set css \<Longrightarrow> b \<in> set css \<Longrightarrow> prefix a b \<longrightarrow> a = b" using inv by (auto simp: crawl_inv_def)
    moreover have "a \<in> set css \<Longrightarrow> b \<in> ?K \<Longrightarrow> prefix a b \<longrightarrow> a = b" using apart K by (fastforce simp: prefix_snoc)
    moreover have "a \<in> ?K \<Longrightarrow> b \<in> set css \<Longrightarrow> \<not> prefix a b" using apart K by (metis append_prefixD)
    moreover have "a \<in> ?K \<Longrightarrow> b \<in> ?K \<Longrightarrow> prefix a b \<longrightarrow> a = b" by auto
    ultimately show ?thesis using that by blast
  qed
  have closed': "u \<in> insert cs V" if "a \<in> set css \<union> ?K \<union> insert cs V" "strict_prefix u a" for a u
  proof (cases "a \<in> ?K")
    case True
    then obtain name where "a = cs @ [name]" using K by blast
    with that(2) have "prefix u cs" by (auto simp: strict_prefix_def prefix_snoc)
    then show ?thesis using closed [of cs u] by (auto simp: strict_prefix_def)
  qed (use that closed in blast)
  have old: "distinct css" "V \<inter> set css = {}" "set css \<union> V \<subseteq> node_paths (mt_root t)" "card V = cw_queried cw" "cs \<in> node_paths (mt_root t)"
    using inv by (auto simp: crawl_inv_def)
  show ?thesis unfolding crawl_inv_def
  proof (intro conjI)
    show "set css \<inter> ?K = {}" using notV by blast
    show "insert cs V \<inter> (set css \<union> ?K) = {}" using notV cs old(2) by blast
    show "set css \<union> ?K \<union> insert cs V \<subseteq> node_paths (mt_root t)" using sub old(3,5) by blast
    show "\<forall>a \<in> set css \<union> ?K. \<forall>b \<in> set css \<union> ?K. prefix a b \<longrightarrow> a = b" using chain by blast
    show "\<forall>a \<in> set css \<union> ?K \<union> insert cs V. \<forall>u. strict_prefix u a \<longrightarrow> u \<in> insert cs V" using closed' by blast
    show "card (insert cs V) = cw_queried cw'" using fin cs(1) old(4) cw'(3) by simp
  qed (rule cw' old)+
qed

lemma records_small:
  assumes "tree_wf E t" "card (node_paths (mt_root t)) \<le> MAX_QUERIES"
  shows "map_len (mt_records t) \<le> 1000000"
proof -
  have "components ` fset (fmdom (mt_records t)) \<subseteq> node_paths (mt_root t)"
  proof
    fix ds assume "ds \<in> components ` fset (fmdom (mt_records t))"
    then obtain p where "ds = components p" "mt_get t p \<noteq> None" by (auto simp: mt_get_def fmlookup_dom_iff)
    with rec_at_tree(1) [OF assms(1), of p] have "rec_at (mt_root t) (ds @ []) \<noteq> None" by auto
    then show "ds \<in> node_paths (mt_root t)" unfolding node_paths_def using rec_at_node by blast
  qed
  from card_mono [OF finite_node_paths this] assms(2) show ?thesis
    by (simp add: card_image inj_on_def fcard.rep_eq MAX_QUERIES_def)
qed

lemma root_record_count:
  assumes "tree_wf E t" "card (node_paths (mt_root t)) \<le> MAX_QUERIES"
  shows "unat (record_count (mt_root t)) = map_len (mt_records t)"
proof -
  have at: "node_at (mt_root t) [] = Some (mt_root t)" by simp
  have "stored (mt_root t) = components ` fset (fmdom (mt_records t))"
    using stored_node [OF assms(1) at] by (auto simp: mt_get_def fmlookup_dom_iff)
  then have "card (stored (mt_root t)) = map_len (mt_records t)" by (simp add: card_image inj_on_def fcard.rep_eq)
  with node_record_count [OF assms(1) at records_small [OF assms]] show ?thesis by simp
qed

lemma crawl_step_honest:
  assumes trees: "no_collision E local t" "tree_wf E local" "tree_wf E t" "card (node_paths (mt_root t)) \<le> MAX_QUERIES"
    and node: "node_at (mt_root t) cs = Some n" and inv: "crawl_inv t (cs # css) {} V cw"
    and queue: "cw_queue cw = (pfx, expected) # queue"
  shows "\<exists>css' cw'. crawl_step local pfx expected (summary_of t cs n) (cw\<lparr>cw_queue := queue, cw_queried := Suc (cw_queried cw)\<rparr>) = Inr cw' \<and>
    crawl_inv t css' {} (insert cs V) cw' \<and> cw_root cw' = (if cs = [] then Some (subtree_hash n, record_count n) else cw_root cw)"
proof -
  have entry: "pfx = join_with ''/'' cs" "expected = None \<or> expected = Some (subtree_hash n, record_count n)" "list_all2 (entry_ok t) css queue"
    using inv node queue by (auto simp: crawl_inv_def entry_ok_def)
  note small = records_small [OF trees(3,4)]
  have finV: "finite V" "cs \<notin> V" using inv finite_node_paths [of "mt_root t"] by (auto simp: crawl_inv_def intro: finite_subset)
  let ?cw = "cw\<lparr>cw_queue := queue, cw_queried := Suc (cw_queried cw)\<rparr>"
  let ?cw1 = "if pfx = [] then ?cw\<lparr>cw_root := Some (subtree_hash n, record_count n)\<rparr> else ?cw"
  have root: "pfx = [] \<longleftrightarrow> cs = []"
    using node_path(2) [OF trees(3) node] entry(1) by (auto simp: path_ok_iff)
  have known: "node_summary local pfx = Inr (map_option (summary_of local cs) (node_at (mt_root local) cs))"
    unfolding entry(1) using node_path [OF trees(3) node] by (intro node_summary_at) auto
  have fields: "ns_hash (summary_of t cs n) = subtree_hash n" "ns_record_count (summary_of t cs n) = record_count n"
    "ns_prefix (summary_of t cs n) = pfx" "ns_children (summary_of t cs n) = map child_summary (named_children n)"
    by (simp_all add: summary_of_def entry(1) summarize_children_eq child_summary_def case_prod_unfold)
  have step: "crawl_step local pfx expected (summary_of t cs n) ?cw =
     (if summary_agrees (map_option (summary_of local cs) (node_at (mt_root local) cs)) (subtree_hash n) (record_count n)
      then take_local local pfx ?cw1
      else and_then (case ns_record (summary_of t cs n) of None \<Rightarrow> Inr (cw_records cw) | Some r \<Rightarrow> insert_snapshot_record r (cw_records cw))
        (\<lambda>records. fold_res (crawl_child local pfx) (map child_summary (named_children n)) (?cw1\<lparr>cw_records := records\<rparr>)))"
    using entry(2) unfolding crawl_step_def fields known summary_valid [OF trees(3) node small] Let_def
    by (auto simp: ensure_def split: option.splits)
  have apart: "\<forall>c \<in> set css. \<not> prefix c cs \<and> \<not> prefix cs c" using inv by (auto simp: crawl_inv_def)
  have recs: "cw_records cw = collected t (insert cs (set css))" using inv by (simp add: crawl_inv_def)
  have known_root: "cw_root ?cw1 = (if cs = [] then Some (subtree_hash n, record_count n) else cw_root cw)" by (simp add: root)
  show ?thesis
  proof (cases "summary_agrees (map_option (summary_of local cs) (node_at (mt_root local) cs)) (subtree_hash n) (record_count n)")
    case True
    then obtain a where a: "node_at (mt_root local) cs = Some a" "subtree_hash a = subtree_hash n"
      by (auto simp: summary_agrees_def summary_of_def split: option.splits)
    have "take_local local pfx ?cw1 = Inr (?cw1\<lparr>cw_records := collected t (set css)\<rparr>)"
      unfolding entry(1) by (rule take_local_collects [OF trees(1-3) a(1) node a(2) _ apart]) (simp add: recs)
    moreover have "crawl_inv t css {} (insert cs V) (?cw1\<lparr>cw_records := collected t (set css)\<rparr>)"
      using inv entry(3) finV apart by (auto simp: crawl_inv_def)
    ultimately show ?thesis using True known_root unfolding step by auto
  next
    case False
    let ?K = "(\<lambda>k. cs @ [fst k]) ` set (named_children n)"
    note own = own_collects [OF trees(3) node apart]
    have "crawl_inv t css ?K (insert cs V) (?cw1\<lparr>cw_records := collected t (set css \<union> ?K)\<rparr>)"
      using entry(3) by (intro visit_node [OF inv node]) auto
    from crawl_children_honest [OF trees node _ _ distinct_named_children this]
    obtain css' cw' where run: "fold_res (crawl_child local pfx) (map child_summary (named_children n)) (?cw1\<lparr>cw_records := collected t (set css \<union> ?K)\<rparr>) = Inr cw'"
      "crawl_inv t css' {} (insert cs V) cw'" "cw_root cw' = cw_root ?cw1" unfolding entry(1) by auto
    have "crawl_step local pfx expected (summary_of t cs n) ?cw = Inr cw'"
      using False run(1) unfolding step recs own by simp
    with run(2,3) known_root show ?thesis by metis
  qed
qed

section \<open>The loop\<close>

text \<open>A peer that answers every query from one tree, as \<open>handle_query_session\<close> does.\<close>

definition serves :: "merkle_tree \<Rightarrow> wire_peer \<Rightarrow> bool" where
  "serves t peer \<longleftrightarrow> (\<forall>log pfx summary. node_summary t pfx = Inr summary \<longrightarrow>
       wp_next peer (log @ [Sent (Request (QueryNode pfx))]) = Some (Response (Node summary))) \<and>
     (\<forall>log. wp_next peer (log @ [Sent (Request Finish)]) = Some (Response Finished))"

text \<open>Every message of the exchange is within the limit of a control frame; the longest is the summary of the largest directory.\<close>

definition exchange_fits :: "merkle_tree \<Rightarrow> wire_peer \<Rightarrow> bool" where
  "exchange_fits t peer \<longleftrightarrow> (\<forall>pfx summary. node_summary t pfx = Inr (Some summary) \<longrightarrow>
       wp_encoded peer (Request (QueryNode pfx)) \<le> 16777216 \<and> wp_encoded peer (Response (Node (Some summary))) \<le> 16777216) \<and>
     wp_encoded peer (Request Finish) \<le> 16777216 \<and> wp_encoded peer (Response Finished) \<le> 16777216"

lemmas frame_defs = write_frame_def read_sync_response_def read_response_def read_frame_def next_frame_def require_def
  fits_control_def control_length_def MAX_CONTROL_FRAME_def and_do_def ret_def fail_def frame_decodes_def

lemma query_honest:
  assumes "serves t peer" "exchange_fits t peer" "tree_wf E t" "node_at (mt_root t) cs = Some n"
  shows "\<exists>log'. query_node peer (join_with ''/'' cs) log = (Done (summary_of t cs n), log')"
proof -
  have summary: "node_summary t (join_with ''/'' cs) = Inr (Some (summary_of t cs n))"
    using node_summary_at [of cs t] node_path [OF assms(3,4)] assms(4) by (cases "cs = []") auto
  with assms(2) have fits: "wp_encoded peer (Request (QueryNode (join_with ''/'' cs))) \<le> 16777216"
    "wp_encoded peer (Response (Node (Some (summary_of t cs n)))) \<le> 16777216"
    unfolding exchange_fits_def by blast+
  from summary have "wp_next peer (log @ [Sent (Request (QueryNode (join_with ''/'' cs)))]) = Some (Response (Node (Some (summary_of t cs n))))"
    using assms(1) by (simp add: serves_def)
  moreover have "response_decodes (Node (Some (summary_of t cs n)))"
    using tree_wfD [OF assms(3)] by (auto simp: summary_of_def path_decodes_iff split: option.split)
  ultimately show ?thesis
    using fits by (simp add: query_node_def frame_defs)
qed

lemma crawl_run_honest:
  assumes trees: "no_collision E local t" "tree_wf E local" "tree_wf E t" "card (node_paths (mt_root t)) \<le> MAX_QUERIES"
    and peer: "serves t peer" "exchange_fits t peer"
  shows "crawl_inv t css {} V cw \<Longrightarrow> [] \<in> V \<and> cw_root cw = Some (root_hash t, record_count (mt_root t)) \<or> css = [[]] \<Longrightarrow>
    \<exists>cw' log'. crawl_run peer local cw log = (Done cw', log') \<and> cw_records cw' = mt_records t \<and>
      cw_root cw' = Some (root_hash t, record_count (mt_root t)) \<and> cw_queried cw' \<le> card (node_paths (mt_root t))"
proof (induction "Suc MAX_QUERIES - cw_queried cw" arbitrary: css V cw log rule: less_induct)
  case less
  show ?case
  proof (cases css)
    case Nil
    then have "cw_queue cw = []" "cw_records cw = mt_records t"
      using less.prems(1) by (auto simp: crawl_inv_def collected_def intro: fmap_ext)
    with Nil less.prems crawl_room [OF less.prems(1)] show ?thesis by (subst crawl_run.simps) auto
  next
    case (Cons cs css')
    with less.prems(1) obtain pfx expected queue n where q: "cw_queue cw = (pfx, expected) # queue"
      "node_at (mt_root t) cs = Some n" "pfx = join_with ''/'' cs"
      by (auto simp: crawl_inv_def entry_ok_def list_all2_Cons1)
    have room: "\<not> MAX_QUERIES < Suc (cw_queried cw)"
      using crawl_room [OF less.prems(1)] trees(4) q(1) by simp
    obtain log1 where query: "query_node peer pfx log = (Done (summary_of t cs n), log1)"
      using query_honest [OF peer trees(3) q(2)] q(3) by blast
    from crawl_step_honest [OF trees q(2) less.prems(1) [unfolded Cons] q(1)]
    obtain css1 cw1 where one: "crawl_step local pfx expected (summary_of t cs n) (cw\<lparr>cw_queue := queue, cw_queried := Suc (cw_queried cw)\<rparr>) = Inr cw1"
      "crawl_inv t css1 {} (insert cs V) cw1" "cw_root cw1 = (if cs = [] then Some (subtree_hash n, record_count n) else cw_root cw)" by blast
    have "cw_queried cw1 = Suc (cw_queried cw)" using cw_queried_step [OF one(1)] by simp
    moreover have "[] \<in> insert cs V \<and> cw_root cw1 = Some (root_hash t, record_count (mt_root t))"
      using less.prems(2) Cons one(3) q(2) by (cases "cs = []") (auto simp: root_hash_def)
    ultimately have "\<exists>cw' log'. crawl_run peer local cw1 log1 = (Done cw', log') \<and> cw_records cw' = mt_records t \<and>
        cw_root cw' = Some (root_hash t, record_count (mt_root t)) \<and> cw_queried cw' \<le> card (node_paths (mt_root t))"
      using room by (intro less.hyps [OF _ one(2)]) auto
    then show ?thesis using q(1) room query one(1) by (subst crawl_run.simps) simp
  qed
qed

section \<open>Properties\<close>

lemma from_own_records:
  assumes "tree_wf E t"
  shows "from_records E (mt_record_list t) = Inr t"
proof -
  have "index_records (map_values (mt_records t)) = mt_records t"
    by (rule index_map_values) (use tree_wf_keyed [OF assms] in \<open>simp add: keyed_def\<close>)
  moreover have "distinct (map sr_path (map_values (mt_records t)))"
    unfolding map_path_values [OF tree_wf_keyed [OF assms]] by simp
  moreover have "\<forall>r \<in> set (map_values (mt_records t)). record_ok r"
    unfolding set_map_values using tree_wfD(3) [OF assms] by (auto simp: mt_get_def)
  ultimately show ?thesis using assms by (simp add: from_records_Inr mt_record_list_def tree_wf_def)
qed

text \<open>A peer that answers from one tree.\<close>

definition tree_answer :: "merkle_tree \<Rightarrow> wire_log \<Rightarrow> wire_frame option" where
  "tree_answer t log = (case rev log of
     Sent (Request (QueryNode pfx)) # _ \<Rightarrow> (case node_summary t pfx of Inl _ \<Rightarrow> None | Inr summary \<Rightarrow> Some (Response (Node summary)))
   | Sent (Request Finish) # _ \<Rightarrow> Some (Response Finished)
   | _ \<Rightarrow> None)"

definition tree_peer :: "merkle_tree \<Rightarrow> wire_peer" where
  "tree_peer t = \<lparr>wp_next = tree_answer t, wp_encoded = (\<lambda>_. 512)\<rparr>"

lemma tree_peer_serves: "serves t (tree_peer t)" "exchange_fits t (tree_peer t)"
  by (simp_all add: serves_def exchange_fits_def tree_peer_def tree_answer_def)

lemma one_tree_small: "card (node_paths (mt_root one_tree)) \<le> 1000000"
proof -
  have "node_paths (mt_root one_tree) \<subseteq> {[], [''a'']}"
  proof
    fix cs assume "cs \<in> node_paths (mt_root one_tree)"
    then show "cs \<in> {[], [''a'']}"
      by (cases cs rule: remdups_adj.cases)
        (auto simp: node_paths_def one_tree_def build_root_def index_records_def merkle_insert_def example_record_def
          components_def node_default_def get_or_def finalize.simps fmmap_single Let_def split: if_splits option.splits)
  qed
  then have "card (node_paths (mt_root one_tree)) \<le> card {[], [''a'']}" by (intro card_mono) simp_all
  then show ?thesis by simp
qed

lemma one_tree_records: "mt_record_list one_tree = [example_a]"
  by (simp add: mt_record_list_def one_tree_def index_records_def)

lemma fetch_from_honest:
  assumes "from_records E ls = Inr local" and "from_records E rs = Inr t"
    and "\<forall>r \<in> set ls \<union> set rs. path_ok (sr_path r)"
    and "no_collision E local t" and "card (node_paths (mt_root t)) \<le> 1000000" and "serves t peer" and "exchange_fits t peer"
  shows "\<exists>q log'. fetch_snapshot E peer local log = (Done \<lparr>rs_records = mt_record_list t, rs_root_hash = root_hash t,
      rs_record_count = record_count (mt_root t), rs_queried_nodes = q\<rparr>, log') \<and> q \<le> card (node_paths (mt_root t))"
proof -
  have wf: "tree_wf E local" "tree_wf E t" using assms(1-3) by (auto intro: from_records_wf)
  have "crawl_inv t [[]] {} {} initial_crawl"
    by (auto simp: crawl_inv_def initial_crawl_def entry_ok_def node_paths_def collected_def fmap_ext)
  from crawl_run_honest [OF assms(4) wf _ assms(6,7) this, of "log @ [Opened]"] assms(5)
  obtain cw log1 where run: "crawl_run peer local initial_crawl (log @ [Opened]) = (Done cw, log1)"
    "cw_records cw = mt_records t" "cw_root cw = Some (root_hash t, record_count (mt_root t))" "cw_queried cw \<le> card (node_paths (mt_root t))"
    by (auto simp: MAX_QUERIES_def)
  have fin: "finish_snapshot peer log1 = (Done (), log1 @ [Sent (Request Finish), Received (Response Finished)])"
    using assms(6,7) by (simp add: serves_def exchange_fits_def finish_snapshot_def frame_defs)
  have "map_len (mt_records t) = unat (record_count (mt_root t))"
    using root_record_count [OF wf(2)] assms(5) by (simp add: MAX_QUERIES_def)
  then have "verify_snapshot E cw = Inr \<lparr>rs_records = mt_record_list t, rs_root_hash = root_hash t,
      rs_record_count = record_count (mt_root t), rs_queried_nodes = cw_queried cw\<rparr>"
    using from_own_records [OF wf(2)] by (simp add: verify_snapshot_def run result_simps Let_def mt_record_list_def)
  then show ?thesis using run fin by (auto simp: fetch_snapshot_def and_do_def open_connection_def lift_res_def ret_def)
qed

text \<open>
  C11: an honest peer is read completely. When the peer answers every query from one snapshot of at most a
  million Merkle nodes, and every message of the exchange, the summary of the largest directory included, is
  encoded within the 16 MiB of a control frame, fetching returns exactly its records, in path order, with its root digest and record
  count, whatever the local tree is, although every subtree whose digest and cardinality agree is taken from
  the local tree instead of the peer; it takes at most one query per node.
\<close>

theorem fetch_snapshot_complete:
  assumes "from_records E ls = Inr local" and "from_records E rs = Inr t"
    and "\<forall>r \<in> set ls \<union> set rs. path_ok (sr_path r)"
    and "no_collision E local t" and "card (node_paths (mt_root t)) \<le> 1000000" and "serves t peer" and "exchange_fits t peer"
  shows "\<exists>q log'. fetch_snapshot E peer local log = (Done \<lparr>rs_records = mt_record_list t, rs_root_hash = root_hash t,
      rs_record_count = record_count (mt_root t), rs_queried_nodes = q\<rparr>, log') \<and> q \<le> card (node_paths (mt_root t))"
  using assms by (rule fetch_from_honest)

theorem fetch_snapshot_complete_witness:
  "\<exists>s log. fetch_snapshot length_digest (tree_peer one_tree) empty_tree [] = (Done s, log) \<and> rs_records s = [example_a]"
proof -
  have "\<exists>q log'. fetch_snapshot length_digest (tree_peer one_tree) empty_tree [] = (Done \<lparr>rs_records = mt_record_list one_tree,
      rs_root_hash = root_hash one_tree, rs_record_count = record_count (mt_root one_tree), rs_queried_nodes = q\<rparr>, log') \<and>
      q \<le> card (node_paths (mt_root one_tree))"
    by (rule fetch_snapshot_complete [OF example_trees _ example_no_collision one_tree_small tree_peer_serves]) (simp add: example_a_ok)
  then show ?thesis by (auto simp: one_tree_records)
qed

section \<open>Any peer\<close>

definition crawl_ok :: "crawl \<Rightarrow> bool" where
  "crawl_ok cw \<longleftrightarrow> keyed (cw_records cw) \<and> (\<forall>p \<in> fset (fmdom (cw_records cw)). path_ok p) \<and> cw_queried cw \<le> MAX_QUERIES"

lemma insert_records_ok:
  "insert_snapshot_records rs m = Inr m' \<Longrightarrow> keyed m \<Longrightarrow> \<forall>p \<in> fset (fmdom m). path_ok p \<Longrightarrow> \<forall>r \<in> set rs. path_ok (sr_path r) \<Longrightarrow>
   keyed m' \<and> (\<forall>p \<in> fset (fmdom m'). path_ok p)"
  unfolding insert_snapshot_records_def
proof (induction rs arbitrary: m)
  case (Cons r rs)
  then obtain m1 where m1: "insert_snapshot_record r m = Inr m1" "fold_res insert_snapshot_record rs m1 = Inr m'" by (auto simp: and_then_Inr_iff)
  from m1(1) have eq: "m1 = fmupd (sr_path r) r m" by (auto simp: insert_snapshot_record_def result_simps)
  show ?case
  proof (rule Cons.IH [OF m1(2)])
    show "keyed m1" "\<forall>p \<in> fset (fmdom m1). path_ok p" unfolding eq using Cons.prems(2-4) by (auto simp: keyed_def)
  qed (use Cons.prems(4) in simp)
qed auto

lemma take_local_ok:
  assumes "tree_wf E local" "take_local local pfx cw = Inr cw'" "crawl_ok cw"
  shows "crawl_ok cw'"
proof -
  from assms(2) obtain known records where k: "records_under local pfx = Inr known" "insert_snapshot_records known (cw_records cw) = Inr records"
    "cw' = cw\<lparr>cw_records := records\<rparr>"
    by (auto simp: take_local_def result_simps)
  have "pfx = [] \<or> path_ok pfx" using k(1) by (auto simp: records_under_def result_simps wire_path_new_Inr_iff Let_def split: if_splits)
  then have "set known \<subseteq> set (mt_record_list local)" using k(1) records_under_eq [OF assms(1)] by auto
  moreover have "path_ok (sr_path r)" if "r \<in> set (mt_record_list local)" for r
    using that tree_wfD(1,2) [OF assms(1)] unfolding mt_record_list_def set_map_values by (auto simp: mt_get_def)
  ultimately have "\<forall>r \<in> set known. path_ok (sr_path r)" by blast
  with insert_records_ok [OF k(2)] assms(3) show ?thesis by (simp add: crawl_ok_def k(3))
qed

lemma and_then_InrE: "and_then r f = Inr y \<Longrightarrow> (\<And>x. r = Inr x \<Longrightarrow> f x = Inr y \<Longrightarrow> P) \<Longrightarrow> P"
  by (auto simp: and_then_Inr_iff)

lemma crawl_step_ok:
  assumes "tree_wf E local" "crawl_step local pfx expected summary cw = Inr cw'" "crawl_ok cw"
    and "\<forall>r. ns_record summary = Some r \<longrightarrow> path_ok (sr_path r)"
  shows "crawl_ok cw'"
proof -
  have child: "crawl_child local pfx c cw = Inr cw' \<Longrightarrow> crawl_ok cw \<Longrightarrow> crawl_ok cw'" for c cw cw'
    by (auto simp: crawl_child_def Let_def result_simps intro: take_local_ok [OF assms(1)] split: if_splits) (auto simp: crawl_ok_def)
  have children: "fold_res (crawl_child local pfx) cs cw = Inr cw' \<Longrightarrow> crawl_ok cw \<Longrightarrow> crawl_ok cw'" for cs cw cw'
    by (rule fold_res_invariant [of _ _ _ _ crawl_ok]) (auto dest: child)
  let ?cw = "if pfx = [] then cw\<lparr>cw_root := Some (ns_hash summary, ns_record_count summary)\<rparr> else cw"
  have ok: "crawl_ok ?cw" "cw_records ?cw = cw_records cw" using assms(3) by (simp_all add: crawl_ok_def)
  from assms(2) obtain known where branch: "(if summary_agrees known (ns_hash summary) (ns_record_count summary) then take_local local pfx ?cw
      else and_then (case ns_record summary of None \<Rightarrow> Inr (cw_records ?cw) | Some r \<Rightarrow> insert_snapshot_record r (cw_records ?cw)) (\<lambda>records.
        fold_res (crawl_child local pfx) (ns_children summary) (?cw\<lparr>cw_records := records\<rparr>))) = Inr cw'"
    unfolding crawl_step_def Let_def by (elim and_then_InrE)
  then consider "take_local local pfx ?cw = Inr cw'" |
    records where "fold_res (crawl_child local pfx) (ns_children summary) (?cw\<lparr>cw_records := records\<rparr>) = Inr cw'"
      "(case ns_record summary of None \<Rightarrow> Inr (cw_records ?cw) | Some r \<Rightarrow> insert_snapshot_record r (cw_records ?cw)) = Inr records"
    by (cases "summary_agrees known (ns_hash summary) (ns_record_count summary)") (force simp only: if_True if_False and_then_Inr_iff)+
  then show ?thesis
  proof cases
    case 2
    then have "insert_snapshot_records (case ns_record summary of None \<Rightarrow> [] | Some r \<Rightarrow> [r]) (cw_records ?cw) = Inr records"
      unfolding ok(2) by (auto simp: insert_snapshot_records_def and_then_Inr_iff split: option.splits)
    from insert_records_ok [OF this] ok(1) assms(4) have "crawl_ok (?cw\<lparr>cw_records := records\<rparr>)"
      by (auto simp: crawl_ok_def split: option.splits)
    with children [OF 2(1)] show ?thesis by simp
  qed (use take_local_ok [OF assms(1)] ok(1) in blast)
qed

lemma query_node_ok:
  assumes "query_node peer pfx log = (Done summary, log')"
  shows "\<forall>r. ns_record summary = Some r \<longrightarrow> path_ok (sr_path r)"
  using assms
  by (auto simp: query_node_def frame_defs path_decodes_iff split: option.splits if_splits wire_frame.splits sync_wire_response.splits)

lemma crawl_run_ok:
  assumes "tree_wf E local"
  shows "crawl_ok cw \<Longrightarrow> crawl_run peer local cw log = (Done cw', log') \<Longrightarrow> crawl_ok cw'"
proof (induction "Suc MAX_QUERIES - cw_queried cw" arbitrary: cw log rule: less_induct)
  case less
  show ?case
  proof (cases "cw_queue cw")
    case Nil
    with less.prems show ?thesis by (subst (asm) crawl_run.simps) simp
  next
    case (Cons e queue)
    obtain pfx expected where e: "e = (pfx, expected)" by (cases e)
    with less.prems(2) Cons obtain summary log1 cw1 where one: "\<not> MAX_QUERIES < Suc (cw_queried cw)"
      "query_node peer pfx log = (Done summary, log1)"
      "crawl_step local pfx expected summary (cw\<lparr>cw_queue := queue, cw_queried := Suc (cw_queried cw)\<rparr>) = Inr cw1"
      "crawl_run peer local cw1 log1 = (Done cw', log')"
      by (subst (asm) crawl_run.simps) (auto split: if_splits prod.splits outcome.splits sum.splits)
    have "crawl_ok (cw\<lparr>cw_queue := queue, cw_queried := Suc (cw_queried cw)\<rparr>)" using less.prems(1) one(1) by (simp add: crawl_ok_def)
    from crawl_step_ok [OF assms one(3) this query_node_ok [OF one(2)]] have "crawl_ok cw1" .
    moreover have "Suc MAX_QUERIES - cw_queried cw1 < Suc MAX_QUERIES - cw_queried cw" using cw_queried_step [OF one(3)] one(1) by simp
    ultimately show ?thesis using less.hyps one(4) by blast
  qed
qed

lemma fetch_snapshot_tree:
  assumes "tree_wf E local" "fetch_snapshot E peer local log = (Done s, log')"
  obtains t where "from_records E (rs_records s) = Inr t" "tree_wf E t" "root_hash t = rs_root_hash s" "mt_len t = unat (rs_record_count s)"
    "rs_records s = mt_record_list t" "rs_queried_nodes s \<le> MAX_QUERIES"
proof -
  from assms(2) obtain cw log1 where run: "crawl_run peer local initial_crawl (log @ [Opened]) = (Done cw, log1)" and ver: "verify_snapshot E cw = Inr s"
    by (auto simp: fetch_snapshot_def and_do_def open_connection_def lift_res_def ret_def fail_def split: prod.splits outcome.splits sum.splits)
  have "crawl_ok initial_crawl" by (simp add: crawl_ok_def initial_crawl_def keyed_def)
  with crawl_run_ok [OF assms(1) _ run] have ok: "crawl_ok cw" by blast
  then have keyed: "keyed (cw_records cw)" by (simp add: crawl_ok_def)
  from ver obtain t hash cnt where t: "from_records E (map_values (cw_records cw)) = Inr t" "root_hash t = hash" "map_len (cw_records cw) = unat cnt"
    "s = \<lparr>rs_records = map_values (cw_records cw), rs_root_hash = hash, rs_record_count = cnt, rs_queried_nodes = cw_queried cw\<rparr>"
    by (auto simp: verify_snapshot_def result_simps Let_def)
  have recs: "mt_records t = cw_records cw" using t(1) index_map_values [OF keyed] by (simp add: from_records_Inr)
  have paths: "\<forall>r \<in> set (map_values (cw_records cw)). path_ok (sr_path r)"
    unfolding set_map_values using ok keyedD [OF keyed] by (auto simp: crawl_ok_def fmlookup_dom_iff)
  show ?thesis
    by (rule that [of t]) (use t recs ok from_records_wf [OF t(1) paths] in \<open>auto simp: mt_len_def mt_record_list_def crawl_ok_def\<close>)
qed

text \<open>
  C10: no peer can make the client accept records that the advertised root digest does not commit to.
  Whatever the peer sends, a returned snapshot is a set of valid records in path order whose Merkle root and
  cardinality are the advertised ones, and when a snapshot with that root digest exists, and BLAKE3 does not
  collide on the two, the returned records are exactly the records of that snapshot; at most a million nodes
  are queried.
\<close>

theorem fetch_snapshot_sound:
  assumes "from_records E ls = Inr local" and "\<forall>r \<in> set ls. path_ok (sr_path r)"
    and "fetch_snapshot E peer local log = (Done s, log')"
  shows "\<exists>t. from_records E (rs_records s) = Inr t \<and> root_hash t = rs_root_hash s \<and> mt_len t = unat (rs_record_count s) \<and>
    rs_records s = mt_record_list t \<and> rs_queried_nodes s \<le> 1000000 \<and>
    (\<forall>qs u. from_records E qs = Inr u \<longrightarrow> (\<forall>r \<in> set qs. path_ok (sr_path r)) \<longrightarrow> no_collision E t u \<longrightarrow>
       root_hash u = rs_root_hash s \<longrightarrow> rs_records s = mt_record_list u)"
proof -
  from fetch_snapshot_tree [OF from_records_wf [OF assms(1,2)] assms(3)] obtain t where
    t: "from_records E (rs_records s) = Inr t" "tree_wf E t" "root_hash t = rs_root_hash s" "mt_len t = unat (rs_record_count s)"
    "rs_records s = mt_record_list t" "rs_queried_nodes s \<le> MAX_QUERIES" .
  have "rs_records s = mt_record_list u"
    if "from_records E qs = Inr u" "\<forall>r \<in> set qs. path_ok (sr_path r)" "no_collision E t u" "root_hash u = rs_root_hash s" for qs u
    using root_hash_eq_iff [OF that(3) t(2) from_records_wf [OF that(1,2)]] that(4) t(3,5) by (simp add: mt_record_list_def)
  then have "\<forall>qs u. from_records E qs = Inr u \<longrightarrow> (\<forall>r \<in> set qs. path_ok (sr_path r)) \<longrightarrow> no_collision E t u \<longrightarrow>
       root_hash u = rs_root_hash s \<longrightarrow> rs_records s = mt_record_list u" by blast
  with t show ?thesis unfolding MAX_QUERIES_def by (intro exI [of _ t] conjI)
qed

theorem fetch_snapshot_sound_witness:
  "\<exists>s log. fetch_snapshot length_digest (tree_peer one_tree) empty_tree [] = (Done s, log) \<and>
     rs_root_hash s = root_hash one_tree \<and> rs_records s = mt_record_list one_tree \<and> mt_len one_tree = unat (rs_record_count s)"
proof -
  have paths: "\<forall>r \<in> set [] \<union> set [example_a]. path_ok (sr_path r)" by (simp add: example_a_ok)
  obtain q log where run: "fetch_snapshot length_digest (tree_peer one_tree) empty_tree [] = (Done \<lparr>rs_records = mt_record_list one_tree,
      rs_root_hash = root_hash one_tree, rs_record_count = record_count (mt_root one_tree), rs_queried_nodes = q\<rparr>, log)"
    using fetch_from_honest [OF example_trees paths example_no_collision one_tree_small tree_peer_serves] by blast
  from fetch_snapshot_sound [OF example_trees(1) _ this] obtain t where
    "from_records length_digest (mt_record_list one_tree) = Inr t" "mt_len t = unat (record_count (mt_root one_tree))" by auto
  moreover have "from_records length_digest (mt_record_list one_tree) = Inr one_tree" by (simp add: one_tree_records example_trees)
  ultimately show ?thesis using run by simp
qed

end
