(* ===== verification/Net_Transfer.thy ===== *)
theory Net_Transfer
  imports Share_Session
begin

text \<open>
  Moving chunks (\<^verbatim>\<open>crates/deltaweave-net/src/lib.rs\<close>): the admission of writes against the free space of both
  file systems, the bounded pipeline that writes received chunks in background tasks, and the loops that send
  and receive the chunks of a manifest. A background task runs at some moment between its start and the
  moment it is awaited; which of the two it is, is the choice of the scheduler.
\<close>

definition MAX_CHUNKS_PER_FILE :: nat where "MAX_CHUNKS_PER_FILE = 250000"
definition MAX_FILE_SIZE :: u64 where "MAX_FILE_SIZE = 16 * 1024 * 1024 * 1024 * 1024"
definition CHUNK_WRITE_BATCH :: nat where "CHUNK_WRITE_BATCH = 8"
definition CHUNK_WRITE_CONCURRENCY :: nat where "CHUNK_WRITE_CONCURRENCY = 8"
definition CHUNK_WRITE_MAX_QUEUED_BYTES :: nat where "CHUNK_WRITE_MAX_QUEUED_BYTES = 32 * 1024 * 1024"

section \<open>Disk admission\<close>

record disk_admission =
  da_state_path :: fs_path
  da_destination_path :: fs_path
  da_reserve_bytes :: u64
  da_pending_destination_bytes :: u64

record filesystem_budget =
  fb_state_available :: u64
  fb_destination_available :: u64
  fb_shared :: bool

definition check_available :: "u64 \<Rightarrow> u64 \<Rightarrow> u64 \<Rightarrow> store_error + unit" where
  "check_available available write_bytes reserve_bytes =
     and_then (ok_or (checked_add reserve_bytes write_bytes) (Refused ''disk admission byte count overflow'')) (\<lambda>needed.
       ensure (needed \<le> available) (Refused ''insufficient disk space''))"

definition check_filesystem_budget :: "filesystem_budget \<Rightarrow> u64 \<Rightarrow> u64 \<Rightarrow> u64 \<Rightarrow> store_error + unit" where
  "check_filesystem_budget budget state_write_bytes destination_write_bytes reserve_bytes =
     (if fb_shared budget then
        and_then (ok_or (checked_add state_write_bytes destination_write_bytes)
                    (Refused ''combined disk admission byte count overflow'')) (\<lambda>write_bytes.
        and_then (ok_or (checked_add reserve_bytes write_bytes) (Refused ''combined disk admission byte count overflow'')) (\<lambda>needed.
          ensure (needed \<le> min (fb_state_available budget) (fb_destination_available budget))
            (Refused ''insufficient shared disk space'')))
      else
        and_then (check_available (fb_state_available budget) state_write_bytes reserve_bytes) (\<lambda>_.
          check_available (fb_destination_available budget) destination_write_bytes reserve_bytes))"

definition available_space :: "replica_env \<Rightarrow> fs_path \<Rightarrow> u64 sprog" where
  "available_space V p = and_do tick (\<lambda>_ w. lift_res (io (rv_available V w p)) w)"

definition same_filesystem :: "fs_path \<Rightarrow> fs_path \<Rightarrow> bool sprog" where
  "same_filesystem left right =
     and_do (query (\<lambda>fs. io (fs_metadata fs left))) (\<lambda>l.
     and_do (query (\<lambda>fs. io (fs_metadata fs right))) (\<lambda>r.
       ret (md_dev (stat_metadata l) = md_dev (stat_metadata r))))"

definition check_budget :: "replica_env \<Rightarrow> disk_admission \<Rightarrow> u64 \<Rightarrow> u64 \<Rightarrow> unit sprog" where
  "check_budget V admission state_write_bytes destination_write_bytes =
     and_do (available_space V (da_state_path admission)) (\<lambda>state_available.
     and_do (available_space V (da_destination_path admission)) (\<lambda>destination_available.
     and_do (same_filesystem (da_state_path admission) (da_destination_path admission)) (\<lambda>shared.
       lift_res (check_filesystem_budget
         \<lparr>fb_state_available = state_available, fb_destination_available = destination_available, fb_shared = shared\<rparr>
         state_write_bytes destination_write_bytes (da_reserve_bytes admission)))))"

definition check_state :: "replica_env \<Rightarrow> disk_admission \<Rightarrow> u64 \<Rightarrow> unit sprog" where
  "check_state V admission write_bytes = check_budget V admission write_bytes (da_pending_destination_bytes admission)"

definition check_materialization :: "replica_env \<Rightarrow> disk_admission \<Rightarrow> u64 \<Rightarrow> unit sprog" where
  "check_materialization V admission write_bytes = check_budget V admission 0 write_bytes"

text \<open>Collecting descriptors into a map keeps the last one of a digest.\<close>

definition descriptor_for :: "file_manifest \<Rightarrow> hash32 \<Rightarrow> chunk_descriptor option" where
  "descriptor_for manifest hash = find (\<lambda>c. cd_hash c = hash) (rev (fm_chunks manifest))"

definition add_missing_bytes :: "file_manifest \<Rightarrow> hash32 \<Rightarrow> u64 \<Rightarrow> sync_error + u64" where
  "add_missing_bytes manifest hash sum_bytes =
     and_then (ok_or (descriptor_for manifest hash) (Rejected ''missing chunk is absent from manifest'')) (\<lambda>descriptor.
       ok_or (checked_add sum_bytes (ucast (cd_length descriptor))) (Rejected ''missing chunk byte count overflow''))"

fun unique_hashes :: "hash32 list \<Rightarrow> hash32 list \<Rightarrow> hash32 list" where
  "unique_hashes seen [] = []"
| "unique_hashes seen (h # hs) = (if h \<in> set seen then unique_hashes seen hs else h # unique_hashes (h # seen) hs)"

definition unique_missing_chunk_bytes :: "file_manifest \<Rightarrow> hash32 list \<Rightarrow> sync_error + u64" where
  "unique_missing_chunk_bytes manifest missing = fold_res (add_missing_bytes manifest) (unique_hashes [] missing) 0"

definition reused_extents :: "file_manifest \<Rightarrow> hash32 list \<Rightarrow> nat" where
  "reused_extents manifest missing = length (filter (\<lambda>c. cd_hash c \<notin> set missing) (fm_chunks manifest))"

section \<open>The write pipeline\<close>

text \<open>A started task has its result once it has run; awaiting a task that has not run yet runs it.\<close>

record inflight_write =
  iw_bytes :: nat
  iw_batch :: "verified_chunk list"
  iw_result :: "(sync_error + nat) option"

record write_pipeline =
  wq_authorization :: "share_session option"
  wq_admission :: "disk_admission option"
  wq_max_inflight :: nat
  wq_max_queued_bytes :: nat
  wq_inflight :: "inflight_write list"
  wq_pending :: "verified_chunk list"

type_synonym 'a qprog = "(write_pipeline \<times> replica, sync_error, 'a) prog"

definition on_replica :: "'a rprog \<Rightarrow> 'a qprog" where
  "on_replica p t = (case t of (q, s) \<Rightarrow> (case p s of (r, s') \<Rightarrow> (r, (q, s'))))"

definition on_pipeline :: "(write_pipeline \<Rightarrow> 'a \<times> write_pipeline) \<Rightarrow> 'a qprog" where
  "on_pipeline f t = (case t of (q, s) \<Rightarrow> (case f q of (x, q') \<Rightarrow> (Done x, (q', s))))"

definition with_optional_admission :: "nat \<Rightarrow> nat \<Rightarrow> disk_admission option \<Rightarrow> share_session option \<Rightarrow> write_pipeline" where
  "with_optional_admission max_inflight max_queued_bytes admission authorization =
     \<lparr>wq_authorization = authorization, wq_admission = admission, wq_max_inflight = max max_inflight 1,
      wq_max_queued_bytes = max max_queued_bytes 1, wq_inflight = [], wq_pending = []\<rparr>"

definition with_admission :: "disk_admission \<Rightarrow> share_session option \<Rightarrow> write_pipeline" where
  "with_admission admission authorization =
     with_optional_admission CHUNK_WRITE_CONCURRENCY CHUNK_WRITE_MAX_QUEUED_BYTES (Some admission) authorization"

definition chunk_bytes :: "verified_chunk list \<Rightarrow> nat" where
  "chunk_bytes batch = sum_list (map (\<lambda>c. length (vc_bytes c)) batch)"

definition queued_bytes :: "write_pipeline \<Rightarrow> nat" where
  "queued_bytes q = chunk_bytes (wq_pending q) + sum_list (map iw_bytes (wq_inflight q))"

definition task_result :: "'a rprog \<Rightarrow> (sync_error + 'a) rprog" where
  "task_result p = catch (and_do p (\<lambda>x. ret (Inr x))) (\<lambda>e. ret (Inl e))"

definition write_task :: "replica_env \<Rightarrow> share_session option \<Rightarrow> verified_chunk list \<Rightarrow> nat rprog" where
  "write_task V authorization batch =
     and_do (case authorization of None \<Rightarrow> ret () | Some A \<Rightarrow> and_do (session_check A True) (\<lambda>_. ret ())) (\<lambda>_.
       on_store (put_validated_batch (rv_store V) batch))"

definition start_task :: "replica_env \<Rightarrow> share_session option \<Rightarrow> verified_chunk list \<Rightarrow> (sync_error + nat) option rprog" where
  "start_task V authorization batch s =
     (if rv_eager V (rp_world s) then and_do (task_result (write_task V authorization batch)) (\<lambda>r. ret (Some r)) s
      else ret None s)"

definition await_task :: "replica_env \<Rightarrow> share_session option \<Rightarrow> inflight_write \<Rightarrow> (sync_error + nat) rprog" where
  "await_task V authorization w = (case iw_result w of
     Some r \<Rightarrow> ret r | None \<Rightarrow> task_result (write_task V authorization (iw_batch w)))"

text \<open>\<open>drain_chunk_tasks\<close> awaits every task and returns the first error.\<close>

fun drain_chunk_tasks :: "replica_env \<Rightarrow> share_session option \<Rightarrow> inflight_write list \<Rightarrow> sync_error option rprog" where
  "drain_chunk_tasks V authorization [] = ret None"
| "drain_chunk_tasks V authorization (w # ws) =
     and_do (await_task V authorization w) (\<lambda>r.
     and_do (drain_chunk_tasks V authorization ws) (\<lambda>later.
       ret (case r of Inl e \<Rightarrow> Some e | Inr _ \<Rightarrow> later)))"

definition take_inflight :: "write_pipeline \<Rightarrow> inflight_write list \<times> write_pipeline" where
  "take_inflight q = (wq_inflight q, q\<lparr>wq_inflight := []\<rparr>)"

definition join_oldest :: "replica_env \<Rightarrow> unit qprog" where
  "join_oldest V t =
     and_do (on_pipeline (\<lambda>q. (hd (wq_inflight q), q\<lparr>wq_inflight := tl (wq_inflight q)\<rparr>))) (\<lambda>w.
     and_do (on_replica (await_task V (wq_authorization (fst t)) w)) (\<lambda>r. case r of
         Inr _ \<Rightarrow> ret ()
       | Inl e \<Rightarrow>
           and_do (on_pipeline take_inflight) (\<lambda>rest.
           and_do (on_replica (drain_chunk_tasks V (wq_authorization (fst t)) rest)) (\<lambda>_. fail e)))) t"

definition start_pending :: "replica_env \<Rightarrow> unit qprog" where
  "start_pending V =
     and_do (on_pipeline (\<lambda>q. (q, q\<lparr>wq_pending := []\<rparr>))) (\<lambda>before.
       let batch = wq_pending before; bytes = chunk_bytes batch in
       and_do (case wq_admission before of None \<Rightarrow> ret () | Some admission \<Rightarrow> on_replica (on_store (check_state V admission (of_nat bytes)))) (\<lambda>_.
       and_do (on_replica (start_task V (wq_authorization before) batch)) (\<lambda>result.
         on_pipeline (\<lambda>q. ((), q\<lparr>wq_inflight := wq_inflight q @ [\<lparr>iw_bytes = bytes, iw_batch = batch, iw_result = result\<rparr>]\<rparr>)))))"

definition flush_pending :: "replica_env \<Rightarrow> unit qprog" where
  "flush_pending V =
     and_do (\<lambda>t. if wq_max_inflight (fst t) \<le> length (wq_inflight (fst t)) then join_oldest V t else ret () t) (\<lambda>_.
       start_pending V)"

lemma on_replica_fst: "on_replica p t = (r, t') \<Longrightarrow> fst t' = fst t"
  by (auto simp: on_replica_def split: prod.splits)

lemma join_oldest_Done:
  "join_oldest V t = (Done (), t') \<Longrightarrow> fst t' = (fst t)\<lparr>wq_inflight := tl (wq_inflight (fst t))\<rparr>"
  by (auto simp: join_oldest_def and_do_def on_pipeline_def ret_def fail_def take_inflight_def
      split: prod.splits outcome.splits sum.splits dest: on_replica_fst)

lemma flush_pending_Done:
  assumes "flush_pending V t = (Done (), t')" "length (wq_inflight (fst t)) < wq_max_inflight (fst t)"
  obtains w where "fst t' = (fst t)\<lparr>wq_pending := [], wq_inflight := wq_inflight (fst t) @ [w]\<rparr>"
    "iw_bytes w = chunk_bytes (wq_pending (fst t))" "iw_batch w = wq_pending (fst t)"
  using assms
  by (cases "wq_admission (fst t)")
    (auto simp: flush_pending_def start_pending_def and_do_def on_pipeline_def ret_def fail_def Let_def
      split: prod.splits outcome.splits sum.splits dest!: on_replica_fst)

text \<open>The loop at the start of \<open>push\<close> makes room for a chunk of \<open>len\<close> bytes.\<close>

function make_room :: "replica_env \<Rightarrow> nat \<Rightarrow> unit qprog" where
  "make_room V len t =
     (if queued_bytes (fst t) + len \<le> wq_max_queued_bytes (fst t) then (Done (), t)
      else if wq_pending (fst t) \<noteq> [] \<and> length (wq_inflight (fst t)) < wq_max_inflight (fst t) then
        (case flush_pending V t of
           (Done _, t') \<Rightarrow> make_room V len t' | (Failed e, t') \<Rightarrow> (Failed e, t') | (Halted, t') \<Rightarrow> (Halted, t'))
      else if wq_inflight (fst t) = [] then (Done (), t)
      else
        (case join_oldest V t of
           (Done _, t') \<Rightarrow> make_room V len t' | (Failed e, t') \<Rightarrow> (Failed e, t') | (Halted, t') \<Rightarrow> (Halted, t')))"
  by pat_completeness auto
termination
proof (relation "measure (\<lambda>(V, len, t). (if wq_pending (fst t) = [] then 0 else 2) + length (wq_inflight (fst t)))", goal_cases)
  case (2 V len t x1 t' u)
  then have "flush_pending V t = (Done (), t')" by simp
  with 2 obtain w where "fst t' = (fst t)\<lparr>wq_pending := [], wq_inflight := wq_inflight (fst t) @ [w]\<rparr>"
    by (auto elim: flush_pending_Done)
  with 2 show ?case by simp
next
  case (3 V len t x1 t' u)
  then have "join_oldest V t = (Done (), t')" by simp
  then have "fst t' = (fst t)\<lparr>wq_inflight := tl (wq_inflight (fst t))\<rparr>" by (rule join_oldest_Done)
  with 3 show ?case by (cases "wq_inflight (fst t)") auto
qed simp

declare make_room.simps [simp del]

definition pipeline_push :: "replica_env \<Rightarrow> verified_chunk \<Rightarrow> unit qprog" where
  "pipeline_push V chunk =
     and_do (make_room V (length (vc_bytes chunk))) (\<lambda>_.
     and_do (on_pipeline (\<lambda>q. let q' = q\<lparr>wq_pending := wq_pending q @ [chunk]\<rparr> in
               (CHUNK_WRITE_BATCH \<le> length (wq_pending q') \<or> wq_max_queued_bytes q' < queued_bytes q', q'))) (\<lambda>full.
       if full then flush_pending V else ret ()))"

text \<open>\<open>finish\<close> starts what is pending, awaits everything, and returns the first error.\<close>

definition pipeline_finish :: "replica_env \<Rightarrow> sync_error option qprog" where
  "pipeline_finish V =
     and_do (\<lambda>t. if wq_pending (fst t) = [] then ret None t
        else catch (and_do (flush_pending V) (\<lambda>_. ret None)) (\<lambda>e. ret (Some e)) t) (\<lambda>first.
     and_do (on_pipeline (\<lambda>q. (q, q\<lparr>wq_inflight := []\<rparr>))) (\<lambda>before.
     and_do (on_replica (drain_chunk_tasks V (wq_authorization before) (wq_inflight before))) (\<lambda>later.
       ret (case first of Some e \<Rightarrow> Some e | None \<Rightarrow> later))))"

text \<open>\<open>finish_chunk_writes\<close>: an error of the storage hides an error of the transfer.\<close>

definition finish_after :: "replica_env \<Rightarrow> sync_error + 'a \<Rightarrow> 'a qprog" where
  "finish_after V operation = and_do (pipeline_finish V) (\<lambda>storage. case storage of
     Some e \<Rightarrow> fail (LocalStorage e) | None \<Rightarrow> lift_res operation)"

text \<open>Runs a transfer with a new pipeline and finishes the pipeline whatever happened.\<close>

definition with_pipeline :: "replica_env \<Rightarrow> disk_admission \<Rightarrow> share_session option \<Rightarrow> 'a qprog \<Rightarrow> 'a rprog" where
  "with_pipeline V admission authorization p s =
     (case and_do (catch (and_do p (\<lambda>x. ret (Inr x))) (\<lambda>e. ret (Inl e))) (finish_after V)
         (with_admission admission authorization, s) of
        (r, (_, s')) \<Rightarrow> (r, s'))"

section \<open>Receiving and sending chunks\<close>

definition receive_header :: "replica_env \<Rightarrow> chunk_header qprog" where
  "receive_header V = on_replica (on_wire (read_chunk_header (rv_peer V)))"

definition receive_payload :: "replica_env \<Rightarrow> chunk_header \<Rightarrow> u8 list qprog" where
  "receive_payload V header = on_replica (on_wire (read_exact (rv_peer V) (unat (ch_length header))))"

definition validated :: "replica_env \<Rightarrow> chunk_descriptor \<Rightarrow> u8 list \<Rightarrow> verified_chunk qprog" where
  "validated V descriptor bytes = lift_res (map_err InStore (verified_chunk_validate (rv_externs V) descriptor bytes))"

fun receive_loop :: "replica_env \<Rightarrow> file_manifest \<Rightarrow> hash32 list \<Rightarrow> u64 \<Rightarrow> u64 qprog" where
  "receive_loop V manifest [] transferred = ret transferred"
| "receive_loop V manifest (expected # missing) transferred =
     and_do (receive_header V) (\<lambda>header.
     and_do (require (ch_hash header = expected) (Rejected ''out-of-order chunk'')) (\<lambda>_.
     and_do (lift_res (ok_or (descriptor_for manifest (ch_hash header)) (Rejected ''requested hash disappeared from manifest''))) (\<lambda>descriptor.
     and_do (require (ch_length header = cd_length descriptor) (Rejected ''chunk length mismatch'')) (\<lambda>_.
     and_do (require (ch_length header \<le> cp_max_size (fm_profile manifest)) (Rejected ''chunk exceeds configured maximum'')) (\<lambda>_.
     and_do (lift_res (ok_or (checked_add transferred (ucast (ch_length header))) (Rejected ''transfer byte count overflow''))) (\<lambda>transferred'.
     and_do (receive_payload V header) (\<lambda>bytes.
     and_do (validated V descriptor bytes) (\<lambda>chunk.
     and_do (pipeline_push V chunk) (\<lambda>_.
       receive_loop V manifest missing transferred')))))))))"

definition receive_chunks :: "replica_env \<Rightarrow> file_manifest \<Rightarrow> hash32 list \<Rightarrow> disk_admission \<Rightarrow> share_session option \<Rightarrow> u64 rprog" where
  "receive_chunks V manifest missing admission authorization =
     with_pipeline V admission authorization (receive_loop V manifest missing 0)"

text \<open>
  The source file is read anew for every chunk, so that an edit between two reads shows in the later one;
  every chunk is verified against its descriptor before it is sent.
\<close>

definition read_extent :: "fs_path \<Rightarrow> chunk_descriptor \<Rightarrow> u8 list rprog" where
  "read_extent source descriptor = on_store (query (\<lambda>fs. and_then (source_bytes source fs) (\<lambda>content.
     let bytes = take (unat (cd_length descriptor)) (drop (unat (cd_offset descriptor)) content) in
     and_then (ensure (length bytes = unat (cd_length descriptor)) (IoFailure IoOther)) (\<lambda>_. Inr bytes))))"

definition check_optional :: "share_session option \<Rightarrow> bool \<Rightarrow> unit rprog" where
  "check_optional authorization write_access = (case authorization of
     None \<Rightarrow> ret () | Some A \<Rightarrow> and_do (session_check A write_access) (\<lambda>_. ret ()))"

fun send_loop :: "replica_env \<Rightarrow> fs_path \<Rightarrow> file_manifest \<Rightarrow> share_session option \<Rightarrow> hash32 list \<Rightarrow> u64 \<Rightarrow> u64 rprog" where
  "send_loop V source manifest authorization [] sent_bytes = ret sent_bytes"
| "send_loop V source manifest authorization (hash # missing) sent_bytes =
     and_do (check_optional authorization False) (\<lambda>_.
     and_do (lift_res (ok_or (descriptor_for manifest hash) (Rejected ''receiver requested unknown chunk''))) (\<lambda>descriptor.
     and_do (read_extent source descriptor) (\<lambda>bytes.
     and_do (lift_res (map_err InCdc (verify_chunk (rv_externs V) descriptor bytes))) (\<lambda>_.
     and_do (on_wire (write_frame (rv_peer V) (Chunk \<lparr>ch_hash = hash, ch_length = cd_length descriptor\<rparr>))) (\<lambda>_.
     and_do (check_optional authorization False) (\<lambda>_.
     and_do (on_wire (write_payload bytes)) (\<lambda>_.
     and_do (lift_res (ok_or (checked_add sent_bytes (ucast (cd_length descriptor))) (Rejected ''sent-byte counter overflow'')))
       (send_loop V source manifest authorization missing))))))))"

definition send_requested_chunks :: "replica_env \<Rightarrow> fs_path \<Rightarrow> file_manifest \<Rightarrow> hash32 list \<Rightarrow> share_session option \<Rightarrow>
    (u64 \<times> nat) rprog" where
  "send_requested_chunks V source manifest missing authorization =
     and_do (require (distinct missing) (Rejected ''receiver requested duplicate chunks'')) (\<lambda>_.
     and_do (on_store (query (source_bytes source))) (\<lambda>_.
     and_do (send_loop V source manifest authorization missing 0) (\<lambda>sent_bytes.
       ret (sent_bytes, reused_extents manifest missing))))"

end
