(* ===== verification/Net_Client.thy ===== *)
theory Net_Client
  imports Net_Transfer Net_Snapshot
begin

text \<open>
  The client side of the reconciliation protocol (\<open>SyncClient\<close> and \<open>SyncSession\<close> of
  \<^verbatim>\<open>crates/deltaweave-net/src/lib.rs\<close>): fetching the remote snapshot, pulling the content of one record into the
  local chunk store, pushing one file, applying a directory or a deletion. Every call opens its own connection;
  one that cannot be opened is a connection on which nothing is received.
\<close>

section \<open>Common steps\<close>

definition send_request :: "replica_env \<Rightarrow> sync_wire_request \<Rightarrow> unit rprog" where
  "send_request V request = on_wire (write_frame (rv_peer V) (Request request))"

definition receive_response :: "replica_env \<Rightarrow> sync_wire_response rprog" where
  "receive_response V = on_wire (read_sync_response (rv_peer V))"

definition await_applied :: "replica_env \<Rightarrow> sync_apply_receipt rprog" where
  "await_applied V = and_do (receive_response V) (\<lambda>r. case r of
     Applied receipt \<Rightarrow> ret receipt
   | Error message \<Rightarrow> fail (Rejected (''remote operation failed: '' @ message))
   | _ \<Rightarrow> fail (Rejected ''remote sent an unexpected completion''))"

definition is_live_file :: "sync_record \<Rightarrow> bool" where
  "is_live_file r \<longleftrightarrow> \<not> sr_tombstone r \<and> sr_kind r = File"

definition require_live_file :: "sync_record \<Rightarrow> unit rprog" where
  "require_live_file r =
     and_do (lift_res (map_err InRecord (record_validate r))) (\<lambda>_.
       require (is_live_file r) (Rejected ''a live file record is required''))"

definition manifest_describes :: "file_manifest \<Rightarrow> sync_record \<Rightarrow> bool" where
  "manifest_describes manifest r \<longleftrightarrow> fm_size manifest = sr_size r \<and> Some (fm_file_hash manifest) = sr_content_hash r"

definition session_fetch_snapshot :: "replica_env \<Rightarrow> merkle_tree \<Rightarrow> remote_snapshot rprog" where
  "session_fetch_snapshot V local = on_wire (fetch_snapshot (rv_externs V) (rv_peer V) local)"

section \<open>Pulling\<close>

definition request_manifest :: "replica_env \<Rightarrow> sync_record \<Rightarrow> file_manifest rprog" where
  "request_manifest V expected =
     and_do (send_request V (PullRecord expected)) (\<lambda>_.
     and_do (receive_response V) (\<lambda>r. case r of
         PullManifest record_sent manifest \<Rightarrow>
           and_do (require (record_sent = expected) (Rejected ''remote path changed after snapshot'')) (\<lambda>_.
           and_do (lift_res (map_err InManifest (manifest_validate (rv_externs V) manifest))) (\<lambda>_.
           and_do (require (manifest_describes manifest expected) (Rejected ''remote pull manifest does not match causal record'')) (\<lambda>_.
             ret manifest)))
       | Error message \<Rightarrow> fail (Rejected (''remote rejected causal pull: '' @ message))
       | _ \<Rightarrow> fail (Rejected ''remote sent an unexpected causal pull response'')))"

definition pull_manifest :: "replica_env \<Rightarrow> sync_record \<Rightarrow> pull_manifest_receipt rprog" where
  "pull_manifest V r =
     and_do (require_live_file r) (\<lambda>_.
     and_do (on_wire open_connection) (\<lambda>_.
     and_do (request_manifest V r) (\<lambda>manifest.
     and_do (send_request V (RequestChunks [])) (\<lambda>_.
     and_do (await_applied V) (\<lambda>receipt.
     and_do (require (ar_path receipt = sr_path r \<and> ar_record_hash receipt = logical_hash (rv_externs V) r \<and>
               ar_transferred_bytes receipt = 0 \<and> ar_reused_extents receipt = length (fm_chunks manifest))
               (Rejected ''manifest-only pull receipt mismatch'')) (\<lambda>_.
       ret \<lparr>pm_record = r, pm_manifest = manifest, pm_transferred_bytes = 0, pm_reused_extents = length (fm_chunks manifest)\<rparr>))))))"

fun pull_loop :: "replica_env \<Rightarrow> file_manifest \<Rightarrow> hash32 list \<Rightarrow> u64 \<Rightarrow> u64 qprog" where
  "pull_loop V manifest [] transferred = ret transferred"
| "pull_loop V manifest (expected # missing) transferred =
     and_do (receive_header V) (\<lambda>header.
     and_do (require (ch_hash header = expected) (Rejected ''remote sent an out-of-order chunk'')) (\<lambda>_.
     and_do (lift_res (ok_or (descriptor_for manifest (ch_hash header)) (Rejected ''remote sent a chunk absent from its manifest''))) (\<lambda>descriptor.
     and_do (require (ch_length header = cd_length descriptor) (Rejected ''remote chunk length mismatch'')) (\<lambda>_.
     and_do (receive_payload V header) (\<lambda>bytes.
     and_do (validated V descriptor bytes) (\<lambda>chunk.
     and_do (pipeline_push V chunk) (\<lambda>_.
     and_do (lift_res (ok_or (checked_add transferred (ucast (ch_length header))) (Rejected ''pulled-byte counter overflow'')))
       (pull_loop V manifest missing))))))))"

definition pull_record_to_with_budget :: "replica_env \<Rightarrow> sync_record \<Rightarrow> fs_path \<Rightarrow> u64 \<Rightarrow> u64 \<Rightarrow> pull_receipt rprog" where
  "pull_record_to_with_budget V expected destination_root min_free_space_bytes pending_destination_bytes =
     and_do (require_live_file expected) (\<lambda>_.
     and_do (on_wire open_connection) (\<lambda>_.
     and_do (request_manifest V expected) (\<lambda>manifest.
     and_do (on_store (missing_chunks (rv_store V) manifest)) (\<lambda>missing.
     let admission = \<lparr>da_state_path = sv_state_root (rv_store V), da_destination_path = destination_root,
           da_reserve_bytes = min_free_space_bytes, da_pending_destination_bytes = pending_destination_bytes\<rparr> in
     and_do (lift_res (unique_missing_chunk_bytes manifest missing)) (\<lambda>bytes.
     and_do (on_store (check_state V admission bytes)) (\<lambda>_.
     and_do (send_request V (RequestChunks missing)) (\<lambda>_.
     and_do (with_pipeline V admission None (pull_loop V manifest missing 0)) (\<lambda>transferred_bytes.
     and_do (await_applied V) (\<lambda>receipt.
     and_do (require (ar_record_hash receipt = logical_hash (rv_externs V) expected \<and>
               ar_transferred_bytes receipt = transferred_bytes \<and> ar_reused_extents receipt = reused_extents manifest missing)
               (Rejected ''causal pull receipt mismatch'')) (\<lambda>_.
       ret \<lparr>pl_record = expected, pl_manifest = manifest, pl_transferred_bytes = transferred_bytes,
            pl_reused_extents = reused_extents manifest missing\<rparr>))))))))))"

definition pull_record_to :: "replica_env \<Rightarrow> sync_record \<Rightarrow> fs_path \<Rightarrow> pull_receipt rprog" where
  "pull_record_to V r destination_root = pull_record_to_with_budget V r destination_root 0 (sr_size r)"

definition pull_record :: "replica_env \<Rightarrow> sync_record \<Rightarrow> pull_receipt rprog" where
  "pull_record V r = pull_record_to_with_budget V r (sv_state_root (rv_store V)) 0 0"

section \<open>Pushing\<close>

definition push_record_connected :: "replica_env \<Rightarrow> fs_path \<Rightarrow> sync_record \<Rightarrow> file_manifest \<Rightarrow> sync_apply_receipt rprog" where
  "push_record_connected V source r manifest =
     and_do (on_wire open_connection) (\<lambda>_.
     and_do (send_request V (PushRecord r manifest)) (\<lambda>_.
     and_do (receive_response V) (\<lambda>response. case response of
         NeedChunks missing \<Rightarrow>
           and_do (send_requested_chunks V source manifest missing None) (\<lambda>(sent_bytes, reused).
           and_do (await_applied V) (\<lambda>receipt.
           and_do (require (ar_path receipt = sr_path r) (Rejected ''causal push receipt path mismatch'')) (\<lambda>_.
           and_do (require (ar_record_hash receipt = logical_hash (rv_externs V) r) (Rejected ''causal push receipt record mismatch'')) (\<lambda>_.
           and_do (require (ar_transferred_bytes receipt = sent_bytes \<and> ar_reused_extents receipt = reused)
                     (Rejected ''causal push receipt counters mismatch'')) (\<lambda>_.
             ret receipt)))))
       | Error message \<Rightarrow> fail (Rejected (''remote rejected causal push: '' @ message))
       | _ \<Rightarrow> fail (Rejected ''remote sent an unexpected causal push response''))))"

definition push_record :: "replica_env \<Rightarrow> fs_path \<Rightarrow> sync_record \<Rightarrow> chunking_profile \<Rightarrow> sync_apply_receipt rprog" where
  "push_record V source r profile =
     and_do (require_live_file r) (\<lambda>_.
     and_do (on_store (is_file source)) (\<lambda>regular.
     and_do (require regular (Rejected ''source is not a regular file'')) (\<lambda>_.
     and_do (on_store (query (\<lambda>fs. and_then (source_bytes source fs) (\<lambda>content.
        map_err CdcFailure (manifest_from_path (rv_externs V) (rv_cdc V) (Inr content) profile))))) (\<lambda>manifest.
     and_do (require (manifest_describes manifest r) (Rejected ''source content does not match causal record'')) (\<lambda>_.
       push_record_connected V source r manifest)))))"

section \<open>Directories and deletions\<close>

definition send_metadata :: "replica_env \<Rightarrow> sync_record \<Rightarrow> sync_apply_receipt rprog" where
  "send_metadata V r =
     and_do (lift_res (map_err InRecord (record_validate r))) (\<lambda>_.
     and_do (require (sr_tombstone r \<or> sr_kind r = Directory)
               (Rejected ''metadata apply supports only directories and tombstones'')) (\<lambda>_.
     and_do (on_wire open_connection) (\<lambda>_.
     and_do (send_request V (ApplyMetadata r)) (\<lambda>_.
     and_do (await_applied V) (\<lambda>receipt.
     and_do (require (ar_path receipt = sr_path r \<and> ar_record_hash receipt = logical_hash (rv_externs V) r)
               (Rejected ''metadata receipt mismatch'')) (\<lambda>_. ret receipt))))))"

end
