(* ===== verification/Net_Transfer_Props.thy ===== *)
theory Net_Transfer_Props
  imports Net_Client
begin

text \<open>
  Properties of the chunk transfer: the disk budget is exact arithmetic, and the write pipeline holds only
  verified chunks and stays within its bounds on memory and on concurrency, whatever the peer sends and
  wherever the transfer stops.
\<close>

section \<open>The disk budget\<close>

lemma sum_le_unat: "checked_add a b = Some c \<Longrightarrow> c \<le> d \<longleftrightarrow> unat a + unat b \<le> unat (d :: 'a::len word)"
  by (simp add: word_le_nat_alt checked_add_Some)

lemma check_available_iff:
  "check_available available write_bytes reserve_bytes = Inr () \<longleftrightarrow> unat reserve_bytes + unat write_bytes \<le> unat available"
proof (cases "checked_add reserve_bytes write_bytes")
  case None
  then show ?thesis using None [unfolded checked_add_None] unsigned_less [where ?'a = nat, of available] by (auto simp: check_available_def result_simps)
next
  case (Some c)
  then show ?thesis by (auto simp: check_available_def result_simps sum_le_unat [OF Some])
qed

text \<open>
  C13: the disk admission is exact. A write is admitted exactly when the reserve and the bytes that are
  written to a file system fit into the space that is free on it, counted together when the state directory and
  the destination share a file system; the 64-bit sums never wrap, an overflow is a refusal.
\<close>

theorem disk_budget_exact:
  "check_filesystem_budget budget state_bytes destination_bytes reserve_bytes = Inr () \<longleftrightarrow>
     (if fb_shared budget
      then unat reserve_bytes + (unat state_bytes + unat destination_bytes) \<le>
             min (unat (fb_state_available budget)) (unat (fb_destination_available budget))
      else unat reserve_bytes + unat state_bytes \<le> unat (fb_state_available budget) \<and>
           unat reserve_bytes + unat destination_bytes \<le> unat (fb_destination_available budget))"
proof (cases "fb_shared budget")
  case False
  then show ?thesis by (auto simp: check_filesystem_budget_def and_then_Inr_iff check_available_iff)
next
  case True
  let ?a = "min (fb_state_available budget) (fb_destination_available budget)"
  have a: "unat ?a = min (unat (fb_state_available budget)) (unat (fb_destination_available budget))"
    by (simp add: min_def word_le_nat_alt)
  show ?thesis
  proof (cases "checked_add state_bytes destination_bytes")
    case None
    then show ?thesis using None [unfolded checked_add_None] True a unsigned_less [where ?'a = nat, of ?a] by (auto simp: check_filesystem_budget_def result_simps)
  next
    case (Some b)
    note b = checked_add_Some [OF Some]
    show ?thesis
    proof (cases "checked_add reserve_bytes b")
      case None
      then show ?thesis using None [unfolded checked_add_None] True Some a b unsigned_less [where ?'a = nat, of ?a] by (auto simp: check_filesystem_budget_def result_simps)
    next
      case c: (Some c)
      then show ?thesis using True Some a b sum_le_unat [OF c, of ?a] by (auto simp: check_filesystem_budget_def result_simps)
    qed
  qed
qed

section \<open>The pipeline\<close>

lemma chunk_bytes_simps [simp]: "chunk_bytes [] = 0" "chunk_bytes (cs @ [c]) = chunk_bytes cs + length (vc_bytes c)"
  by (simp_all add: chunk_bytes_def)

definition queued_chunks :: "write_pipeline \<Rightarrow> verified_chunk list" where
  "queued_chunks q = wq_pending q @ concat (map iw_batch (wq_inflight q))"

definition chunk_ok :: "externs \<Rightarrow> verified_chunk \<Rightarrow> bool" where
  "chunk_ok E c \<longleftrightarrow> digest E (vc_bytes c) = vc_hash c \<and> length (vc_bytes c) \<le> MAX_STORED_CHUNK_BYTES"

definition pipeline_ok :: "externs \<Rightarrow> write_pipeline \<Rightarrow> bool" where
  "pipeline_ok E q \<longleftrightarrow> list_all (chunk_ok E) (queued_chunks q) \<and> queued_bytes q \<le> wq_max_queued_bytes q \<and>
     length (wq_inflight q) \<le> wq_max_inflight q \<and> 1 \<le> wq_max_inflight q \<and> MAX_STORED_CHUNK_BYTES \<le> wq_max_queued_bytes q"

definition limits :: "write_pipeline \<Rightarrow> nat \<times> nat" where
  "limits q = (wq_max_inflight q, wq_max_queued_bytes q)"

text \<open>What every step does to a pipeline: it forgets tasks from the front, or starts what is pending.\<close>

definition pipeline_shrinks :: "write_pipeline \<Rightarrow> write_pipeline \<Rightarrow> bool" where
  "pipeline_shrinks q q' \<longleftrightarrow> (\<exists>k. q' = q\<lparr>wq_inflight := drop k (wq_inflight q)\<rparr>)"

definition pipeline_starts :: "write_pipeline \<Rightarrow> write_pipeline \<Rightarrow> bool" where
  "pipeline_starts q q' \<longleftrightarrow> (\<exists>w ws. q' = q\<lparr>wq_pending := [], wq_inflight := ws\<rparr> \<and>
     (ws = wq_inflight q \<or> ws = wq_inflight q @ [w] \<and> length (wq_inflight q) < wq_max_inflight q) \<and>
     iw_bytes w = chunk_bytes (wq_pending q) \<and> iw_batch w = wq_pending q)"

lemma sum_list_drop_le: "sum_list (drop k xs) \<le> (sum_list xs :: nat)"
  by (metis append_take_drop_id le_add2 sum_list_append)

lemma shrinks_ok:
  assumes "pipeline_shrinks q q'" "pipeline_ok E q"
  shows "pipeline_ok E q'" and "limits q' = limits q" and "queued_bytes q' \<le> queued_bytes q"
proof -
  obtain k where k: "q' = q\<lparr>wq_inflight := drop k (wq_inflight q)\<rparr>" using assms(1) by (auto simp: pipeline_shrinks_def)
  show bytes: "queued_bytes q' \<le> queued_bytes q"
    using sum_list_drop_le [of k "map iw_bytes (wq_inflight q)"] by (simp add: k queued_bytes_def drop_map)
  have "list_all (chunk_ok E) (concat (map iw_batch (drop k (wq_inflight q))))"
    using assms(2) set_drop_subset [of k "wq_inflight q"] by (fastforce simp: pipeline_ok_def queued_chunks_def list_all_iff)
  then show "pipeline_ok E q'" using assms(2) bytes by (auto simp: k pipeline_ok_def queued_chunks_def)
  show "limits q' = limits q" by (simp add: k limits_def)
qed

lemma starts_ok:
  assumes "pipeline_starts q q'" "pipeline_ok E q"
  shows "pipeline_ok E q'" and "limits q' = limits q" and "queued_bytes q' \<le> queued_bytes q"
  using assms by (auto simp: pipeline_starts_def pipeline_ok_def queued_chunks_def queued_bytes_def limits_def)

text \<open>The pipeline part of a step, whatever the outcome: the queue never grows.\<close>

definition pipeline_step :: "externs \<Rightarrow> write_pipeline \<Rightarrow> write_pipeline \<Rightarrow> bool" where
  "pipeline_step E q q' \<longleftrightarrow> (pipeline_ok E q \<longrightarrow> pipeline_ok E q' \<and> queued_bytes q' \<le> queued_bytes q \<and>
     limits q' = limits q)"

definition on_queue :: "externs \<Rightarrow> write_pipeline \<times> replica \<Rightarrow> write_pipeline \<times> replica \<Rightarrow> bool" where
  "on_queue E t t' \<longleftrightarrow> pipeline_step E (fst t) (fst t')"

interpretation queue: progress "on_queue E" for E
  by unfold_locales (auto simp: on_queue_def pipeline_step_def)

lemma keeps_on_replica: "keeps (on_queue E) (on_replica p)"
  by (auto simp: keeps_def on_queue_def pipeline_step_def on_replica_def split: prod.split)

lemma join_oldest_shrinks: "pipeline_shrinks (fst t) (fst (snd (join_oldest V t)))"
proof -
  have tl: "tl (wq_inflight q) = drop 1 (wq_inflight q)" "[] = drop (length (wq_inflight q)) (wq_inflight q)" for q
    by (simp_all add: drop_Suc)
  obtain r t' where run: "join_oldest V t = (r, t')" by (cases "join_oldest V t")
  then have "fst t' = (fst t)\<lparr>wq_inflight := tl (wq_inflight (fst t))\<rparr> \<or> fst t' = (fst t)\<lparr>wq_inflight := []\<rparr>"
    by (auto simp: join_oldest_def and_do_def on_pipeline_def ret_def fail_def take_inflight_def
      split: prod.splits outcome.splits sum.splits dest!: on_replica_fst)
  then show ?thesis unfolding pipeline_shrinks_def run using tl by (metis snd_conv)
qed

lemma joins_on_queue: "keeps (on_queue E) (join_oldest V)"
  using shrinks_ok [OF join_oldest_shrinks] by (simp add: keeps_def on_queue_def pipeline_step_def)

lemma start_pending_starts:
  assumes "length (wq_inflight (fst t)) < wq_max_inflight (fst t)"
  shows "pipeline_starts (fst t) (fst (snd (start_pending V t)))"
proof -
  obtain r t' where run: "start_pending V t = (r, t')" by (cases "start_pending V t")
  then have "fst t' = (fst t)\<lparr>wq_pending := []\<rparr> \<or> (\<exists>result. fst t' = (fst t)\<lparr>wq_pending := [],
      wq_inflight := wq_inflight (fst t) @ [\<lparr>iw_bytes = chunk_bytes (wq_pending (fst t)), iw_batch = wq_pending (fst t), iw_result = result\<rparr>]\<rparr>)"
    by (cases "wq_admission (fst t)")
      (auto simp: start_pending_def and_do_def on_pipeline_def ret_def Let_def split: prod.splits outcome.splits dest!: on_replica_fst)
  then show ?thesis
  proof
    assume "fst t' = (fst t)\<lparr>wq_pending := []\<rparr>"
    then show ?thesis unfolding pipeline_starts_def run
      by (intro exI [of _ "\<lparr>iw_bytes = chunk_bytes (wq_pending (fst t)), iw_batch = wq_pending (fst t), iw_result = None\<rparr>"]
          exI [of _ "wq_inflight (fst t)"]) simp
  next
    assume "\<exists>result. fst t' = (fst t)\<lparr>wq_pending := [],
      wq_inflight := wq_inflight (fst t) @ [\<lparr>iw_bytes = chunk_bytes (wq_pending (fst t)), iw_batch = wq_pending (fst t), iw_result = result\<rparr>]\<rparr>"
    with assms show ?thesis unfolding pipeline_starts_def run by (force simp: run)
  qed
qed

lemma flushes_on_queue: "keeps (on_queue E) (flush_pending V)"
proof (unfold keeps_def on_queue_def pipeline_step_def, intro allI impI)
  fix t :: "write_pipeline \<times> replica" assume ok: "pipeline_ok E (fst t)"
  obtain r t1 where first: "(if wq_max_inflight (fst t) \<le> length (wq_inflight (fst t)) then join_oldest V t else ret () t) = (r, t1)"
    by (cases "if wq_max_inflight (fst t) \<le> length (wq_inflight (fst t)) then join_oldest V t else ret () t")
  have shrinks: "pipeline_shrinks (fst t) (fst t1)"
    using first join_oldest_shrinks [of t V] by (auto simp: ret_def pipeline_shrinks_def intro: exI [of _ 0] split: if_splits)
  note ok1 = shrinks_ok [OF shrinks ok]
  show "pipeline_ok E (fst (snd (flush_pending V t))) \<and> queued_bytes (fst (snd (flush_pending V t))) \<le> queued_bytes (fst t) \<and>
    limits (fst (snd (flush_pending V t))) = limits (fst t)"
  proof (cases r)
    case (Done u)
    have "length (wq_inflight (fst t1)) < wq_max_inflight (fst t1)"
      using first Done ok by (cases "wq_inflight (fst t)") (auto simp: ret_def pipeline_ok_def dest: join_oldest_Done split: if_splits)
    from start_pending_starts [OF this, of V] have "pipeline_starts (fst t1) (fst (snd (flush_pending V t)))"
      using first Done by (simp add: flush_pending_def and_do_def)
    from starts_ok [OF this ok1(1)] ok1(2,3) show ?thesis by simp
  qed (use first ok1 in \<open>simp_all add: flush_pending_def and_do_def\<close>)
qed

lemma room_on_queue: "keeps (on_queue E) (make_room V len)"
proof (unfold keeps_def, rule allI)
  fix t show "on_queue E t (snd (make_room V len t))"
  proof (induction V len t rule: make_room.induct)
    case (1 V len t)
    have flush: "on_queue E t (snd (flush_pending V t))" by (rule keepsD [OF flushes_on_queue])
    have join: "on_queue E t (snd (join_oldest V t))" by (rule keepsD [OF joins_on_queue])
    show ?case
      by (subst make_room.simps) (use 1 flush join in \<open>auto simp: queue.R_refl split: prod.splits outcome.splits intro: queue.R_trans\<close>)
  qed
qed

text \<open>Room is made, or the pipeline is empty.\<close>

lemma make_room_Done:
  "make_room V len t = (Done (), t') \<Longrightarrow> pipeline_ok E (fst t) \<Longrightarrow>
   queued_bytes (fst t') + len \<le> wq_max_queued_bytes (fst t') \<or> queued_bytes (fst t') = 0"
proof (induction V len t rule: make_room.induct)
  case (1 V len t)
  have ok: "pipeline_ok E (fst (snd (flush_pending V t)))" "pipeline_ok E (fst (snd (join_oldest V t)))"
    using keepsD [OF flushes_on_queue, of E t V] keepsD [OF joins_on_queue, of E t V] 1(4) by (simp_all add: on_queue_def pipeline_step_def)
  show ?case
    using 1(3) 1(1,2) 1(4) ok
    by (subst (asm) make_room.simps)
      (auto simp: queued_bytes_def pipeline_ok_def chunk_bytes_def split: if_splits prod.splits outcome.splits)
qed

text \<open>Adding a verified chunk keeps the bounds, whatever the outcome.\<close>

lemma push_ok:
  assumes "pipeline_ok E (fst t)" "chunk_ok E chunk"
  shows "pipeline_ok E (fst (snd (pipeline_push V chunk t))) \<and> limits (fst (snd (pipeline_push V chunk t))) = limits (fst t)"
proof -
  let ?len = "length (vc_bytes chunk)"
  obtain r t1 where room: "make_room V ?len t = (r, t1)" by (cases "make_room V ?len t")
  have ok1: "pipeline_ok E (fst t1)" "limits (fst t1) = limits (fst t)"
    using keepsD [OF room_on_queue, of E t V ?len] assms(1) room by (simp_all add: on_queue_def pipeline_step_def)
  show ?thesis
  proof (cases r)
    case (Done u)
    let ?t2 = "((fst t1)\<lparr>wq_pending := wq_pending (fst t1) @ [chunk]\<rparr>, snd t1)"
    have "queued_bytes (fst t1) + ?len \<le> wq_max_queued_bytes (fst t1) \<or> queued_bytes (fst t1) = 0"
      using make_room_Done [of V ?len t t1 E] room Done assms(1) by simp
    moreover have "queued_bytes (fst ?t2) = queued_bytes (fst t1) + ?len" by (simp add: queued_bytes_def)
    moreover have "?len \<le> wq_max_queued_bytes (fst t1)" using assms(2) ok1(1) by (simp add: chunk_ok_def pipeline_ok_def)
    ultimately have "queued_bytes (fst ?t2) \<le> wq_max_queued_bytes (fst t1)" by linarith
    with ok1(1) assms(2) have ok2: "pipeline_ok E (fst ?t2)" by (simp add: pipeline_ok_def queued_chunks_def)
    have "pipeline_ok E (fst (snd (flush_pending V ?t2))) \<and> limits (fst (snd (flush_pending V ?t2))) = limits (fst ?t2)"
      using keepsD [OF flushes_on_queue, of E ?t2 V] ok2 unfolding on_queue_def pipeline_step_def by blast
    moreover have "limits (fst ?t2) = limits (fst t1)" by (simp add: limits_def)
    ultimately show ?thesis
      using ok2 ok1(2) room Done by (cases t1) (simp add: pipeline_push_def and_do_def on_pipeline_def ret_def Let_def)
  qed (use room ok1 in \<open>simp_all add: pipeline_push_def and_do_def\<close>)
qed

lemma validated_ok: "validated V descriptor bytes t = (Done chunk, t') \<Longrightarrow> chunk_ok (rv_externs V) chunk \<and> t' = t"
  by (auto simp: validated_def lift_res_def ret_def fail_def verified_chunk_validate_def result_simps chunk_ok_def verify_chunk_def
      split: sum.splits if_splits)

text \<open>A program of a transfer keeps the bounds from every pipeline that has them.\<close>

definition on_bounds :: "externs \<Rightarrow> write_pipeline \<times> replica \<Rightarrow> write_pipeline \<times> replica \<Rightarrow> bool" where
  "on_bounds E t t' \<longleftrightarrow> (pipeline_ok E (fst t) \<longrightarrow> pipeline_ok E (fst t') \<and> limits (fst t') = limits (fst t))"

interpretation bounds: progress "on_bounds E" for E
  by unfold_locales (auto simp: on_bounds_def)

lemma bounds_on_replica: "keeps (on_bounds E) (on_replica p)"
  by (auto simp: keeps_def on_bounds_def on_replica_def split: prod.split)

lemma bounds_validated_push:
  assumes "keeps (on_bounds (rv_externs V)) f"
  shows "keeps (on_bounds (rv_externs V)) (and_do (validated V descriptor bytes) (\<lambda>chunk. and_do (pipeline_push V chunk) (\<lambda>_. f)))"
proof (unfold keeps_def, rule allI)
  fix t
  obtain r t1 where v: "validated V descriptor bytes t = (r, t1)" by (cases "validated V descriptor bytes t")
  have same: "t1 = t" using v by (auto simp: validated_def lift_res_def ret_def fail_def split: sum.splits)
  show "on_bounds (rv_externs V) t (snd (and_do (validated V descriptor bytes) (\<lambda>chunk. and_do (pipeline_push V chunk) (\<lambda>_. f)) t))"
  proof (cases r)
    case (Done chunk)
    have "on_bounds (rv_externs V) t (snd (pipeline_push V chunk t))"
      using push_ok [of "rv_externs V" t chunk V] validated_ok v Done by (auto simp: on_bounds_def)
    moreover obtain r2 t2 where p: "pipeline_push V chunk t = (r2, t2)" by (cases "pipeline_push V chunk t")
    ultimately show ?thesis using v same Done keepsD [OF assms, of t2]
      by (cases r2) (auto simp: and_do_def intro: bounds.R_trans)
  qed (use v same in \<open>simp_all add: and_do_def bounds.R_refl\<close>)
qed

lemma receive_loop_bounds: "keeps (on_bounds (rv_externs V)) (receive_loop V manifest missing n)"
proof (induction missing arbitrary: n)
  case (Cons h missing)
  show ?case unfolding receive_loop.simps receive_header_def receive_payload_def
    by (intro bounds_validated_push bounds.keeps_and_do bounds.keeps_require bounds.keeps_lift_res bounds_on_replica Cons.IH)
qed (simp add: bounds.keeps_ret)

lemma pull_loop_bounds: "keeps (on_bounds (rv_externs V)) (pull_loop V manifest missing n)"
proof (induction missing arbitrary: n)
  case (Cons h missing)
  show ?case unfolding pull_loop.simps receive_header_def receive_payload_def
    by (intro bounds_validated_push bounds.keeps_and_do bounds.keeps_require bounds.keeps_lift_res bounds_on_replica Cons.IH)
qed (simp add: bounds.keeps_ret)

definition pipeline_bounded :: "externs \<Rightarrow> write_pipeline \<Rightarrow> bool" where
  "pipeline_bounded E q \<longleftrightarrow>
     (\<forall>c \<in> set (queued_chunks q). digest E (vc_bytes c) = vc_hash c \<and> length (vc_bytes c) \<le> 16 * 1024 * 1024) \<and>
     queued_bytes q \<le> 32 * 1024 * 1024 \<and> length (wq_inflight q) \<le> 8"

lemma fresh_bounded:
  assumes "keeps (on_bounds E) p"
  shows "pipeline_bounded E (fst (snd (p (with_admission admission authorization, s))))"
proof -
  let ?q = "with_admission admission authorization"
  have "pipeline_ok E ?q" "limits ?q = (8, 32 * 1024 * 1024)"
    by (simp_all add: with_admission_def with_optional_admission_def pipeline_ok_def queued_chunks_def queued_bytes_def limits_def
        CHUNK_WRITE_CONCURRENCY_def CHUNK_WRITE_MAX_QUEUED_BYTES_def MAX_STORED_CHUNK_BYTES_def)
  with keepsD [OF assms, of "(?q, s)"]
  have "pipeline_ok E (fst (snd (p (?q, s))))" "limits (fst (snd (p (?q, s)))) = (8, 32 * 1024 * 1024)" by (auto simp: on_bounds_def)
  then show ?thesis
    by (simp add: pipeline_bounded_def pipeline_ok_def chunk_ok_def limits_def list_all_iff MAX_STORED_CHUNK_BYTES_def)
qed

text \<open>
  C12: what a peer sends is never queued for the store unverified and never exceeds the memory bound. Whatever
  the peer sends, for whatever manifest, and wherever the transfer ends, fails or is interrupted, every chunk in
  the write pipeline of a receiving server or of a pulling client has the digest it is filed under and at most
  16 MiB, all chunks together hold at most 32 MiB, and at most eight batches are in flight.
\<close>

theorem transfer_pipeline_bounded:
  "pipeline_bounded (rv_externs V) (fst (snd (receive_loop V manifest missing 0 (with_admission admission authorization, s)))) \<and>
   pipeline_bounded (rv_externs V) (fst (snd (pull_loop V manifest missing 0 (with_admission admission authorization, s))))"
  by (intro conjI fresh_bounded receive_loop_bounds pull_loop_bounds)

end
