(* ===== verification/Net_Server.thy ===== *)
theory Net_Server
  imports Net_Client
begin

text \<open>
  The server side of the reconciliation protocol (\<open>SyncHandler\<close> of \<^verbatim>\<open>crates/deltaweave-net/src/lib.rs\<close>): one
  handler per request, with the authorization of a share session where there is one. The client is the
  peer of the replica's environment. A handler runs under the apply lock, so no other handler interleaves with
  it; the file system, the clock and the registry may change at every step.
\<close>

record sync_handler =
  sh_authorization :: "share_session option"
  sh_min_free_space_bytes :: u64

definition send_response :: "replica_env \<Rightarrow> sync_wire_response \<Rightarrow> unit rprog" where
  "send_response V response = on_wire (write_frame (rv_peer V) (Response response))"

definition receive_request :: "replica_env \<Rightarrow> sync_wire_request rprog" where
  "receive_request V = on_wire (read_request (rv_peer V))"

definition handler_authorize :: "sync_handler \<Rightarrow> bool \<Rightarrow> unit rprog" where
  "handler_authorize H write_access = check_optional (sh_authorization H) write_access"

definition recover_pending :: "replica_env \<Rightarrow> sync_handler \<Rightarrow> unit rprog" where
  "recover_pending V H = (case sh_authorization H of None \<Rightarrow> recover_causal_index V | Some A \<Rightarrow> recover_session V A)"

section \<open>Snapshots\<close>

text \<open>A session lasts as long as the client asks; the number of requests it may still send bounds the loop.\<close>

fun query_loop :: "nat \<Rightarrow> replica_env \<Rightarrow> sync_handler \<Rightarrow> merkle_tree \<Rightarrow> sync_wire_request \<Rightarrow> unit rprog" where
  "query_loop n V H tree request =
     and_do (handler_authorize H False) (\<lambda>_. case request of
         QueryNode pfx \<Rightarrow>
           and_do (lift_res (map_err InReconcile (node_summary tree pfx))) (\<lambda>summary.
           and_do (send_response V (Node summary)) (\<lambda>_.
             case n of 0 \<Rightarrow> fail ConnectionLost
             | Suc m \<Rightarrow> and_do (receive_request V) (query_loop m V H tree)))
       | Finish \<Rightarrow> send_response V Finished
       | _ \<Rightarrow> fail (Rejected ''only Merkle queries are valid in a snapshot session''))"

declare query_loop.simps [simp del]

definition handle_query_session :: "nat \<Rightarrow> replica_env \<Rightarrow> sync_handler \<Rightarrow> sync_wire_request \<Rightarrow> unit rprog" where
  "handle_query_session n V H first =
     and_do (handler_authorize H False) (\<lambda>_.
     and_do (handler_authorize H False) (\<lambda>_.
     and_do (recover_pending V H) (\<lambda>_.
     and_do (scan_index V) (\<lambda>report.
     and_do (ensure_index_report_safe report) (\<lambda>_.
     and_do (read_records V) (\<lambda>records.
     and_do (require (length records \<le> 1000000) (Rejected ''snapshot exceeds record safety limit'')) (\<lambda>_.
     and_do (lift_res (map_err InReconcile (from_records (rv_externs V) records))) (\<lambda>tree.
       query_loop n V H tree first))))))))"

section \<open>Pulls\<close>

definition handle_pull :: "replica_env \<Rightarrow> sync_handler \<Rightarrow> sync_record \<Rightarrow> unit rprog" where
  "handle_pull V H expected =
     and_do (handler_authorize H False) (\<lambda>_.
     and_do (handler_authorize H False) (\<lambda>_.
     and_do (recover_pending V H) (\<lambda>_.
     and_do (require_live_file expected) (\<lambda>_.
     and_do (scan_index V) (\<lambda>report.
     and_do (ensure_index_report_safe report) (\<lambda>_.
     and_do (index_get (sr_path expected)) (\<lambda>row.
     and_do (lift_res (ok_or (map_option to_sync_record row) (Rejected ''requested path is absent''))) (\<lambda>current.
     and_do (require (current = expected) (Rejected ''requested path changed after snapshot'')) (\<lambda>_.
     let source = rv_root V @ components (sr_path expected) in
     and_do (on_store (query (\<lambda>fs. and_then (source_bytes source fs) (\<lambda>content.
        map_err CdcFailure (manifest_from_path (rv_externs V) (rv_cdc V) (Inr content) DEFAULT_PROFILE))))) (\<lambda>manifest.
     and_do (require (manifest_describes manifest expected) (Rejected ''indexed file changed while preparing pull'')) (\<lambda>_.
     and_do (handler_authorize H False) (\<lambda>_.
     and_do (send_response V (PullManifest expected manifest)) (\<lambda>_.
     and_do (receive_request V) (\<lambda>request. case request of
         RequestChunks missing \<Rightarrow>
           and_do (handler_authorize H False) (\<lambda>_.
           and_do (send_requested_chunks V source manifest missing (sh_authorization H)) (\<lambda>(transferred_bytes, reused).
           and_do (handler_authorize H False) (\<lambda>_.
             send_response V (Applied \<lparr>ar_path = sr_path expected, ar_record_hash = logical_hash (rv_externs V) expected,
               ar_transferred_bytes = transferred_bytes, ar_reused_extents = reused\<rparr>))))
       | _ \<Rightarrow> fail (Rejected ''pull client did not send a chunk request'')))))))))))))))"

section \<open>Mutations\<close>

text \<open>The metadata that a share commits together with an accepted record.\<close>

definition share_candidate :: "replica_env \<Rightarrow> sync_handler \<Rightarrow> sync_record \<Rightarrow> u8 list option rprog" where
  "share_candidate V H r = (case sh_authorization H of None \<Rightarrow> ret None
     | Some A \<Rightarrow> and_do (candidate_metadata V A r) (\<lambda>bytes. ret (Some bytes)))"

definition apply_received :: "replica_env \<Rightarrow> sync_handler \<Rightarrow> sync_record \<Rightarrow> file_manifest \<Rightarrow> disk_admission \<Rightarrow> unit rprog" where
  "apply_received V H r manifest admission =
     and_do (handler_authorize H True) (\<lambda>_.
     and_do (recover_pending V H) (\<lambda>_.
     and_do (ensure_causally_applicable V r) (\<lambda>_.
     and_do (share_candidate V H r) (\<lambda>share_metadata.
     and_do (causal_binding (sh_authorization H) r) (\<lambda>binding.
     and_do (handler_authorize H True) (\<lambda>_.
     and_do (on_store (check_materialization V admission (fm_size manifest))) (\<lambda>_.
     and_do (on_store (apply_causal_record (rv_store V) (rv_root V) binding (Some manifest))) (\<lambda>change.
     and_do (on_store (observe_path_change (rv_store V) change)) (\<lambda>observation.
     and_do (handler_authorize H True) (\<lambda>_.
     and_do (on_store (after_readonly_update (rv_store V) observation (rv_root V @ components (sr_path r)) (sr_readonly r))) (\<lambda>observation'.
     and_do (handler_authorize H True) (\<lambda>_.
     and_do (adopt_materialized V r observation' share_metadata) (\<lambda>_.
       on_store (mark_record_indexed (rv_store V) (rv_root V) r))))))))))))))"

definition handle_push_record :: "replica_env \<Rightarrow> sync_handler \<Rightarrow> sync_record \<Rightarrow> file_manifest \<Rightarrow> unit rprog" where
  "handle_push_record V H r manifest =
     and_do (handler_authorize H True) (\<lambda>_.
     and_do (lift_res (map_err InRecord (record_validate r))) (\<lambda>_.
     and_do (lift_res (map_err InManifest (manifest_validate (rv_externs V) manifest))) (\<lambda>_.
     and_do (require (is_live_file r) (Rejected ''causal push requires a live file record'')) (\<lambda>_.
     and_do (require (manifest_describes manifest r) (Rejected ''causal push manifest does not match record'')) (\<lambda>_.
     and_do (require (fm_size manifest \<le> MAX_FILE_SIZE) (Rejected ''file exceeds protocol size limit'')) (\<lambda>_.
     and_do (require (length (fm_chunks manifest) \<le> MAX_CHUNKS_PER_FILE) (Rejected ''manifest exceeds chunk-count limit'')) (\<lambda>_.
     and_do (on_store (missing_chunks (rv_store V) manifest)) (\<lambda>missing.
     let admission = \<lparr>da_state_path = sv_state_root (rv_store V), da_destination_path = rv_root V,
           da_reserve_bytes = sh_min_free_space_bytes H, da_pending_destination_bytes = fm_size manifest\<rparr> in
     and_do (lift_res (unique_missing_chunk_bytes manifest missing)) (\<lambda>bytes.
     and_do (on_store (check_state V admission bytes)) (\<lambda>_.
     and_do (handler_authorize H True) (\<lambda>_.
     and_do (send_response V (NeedChunks missing)) (\<lambda>_.
     and_do (receive_chunks V manifest missing admission (sh_authorization H)) (\<lambda>transferred_bytes.
     and_do (apply_received V H r manifest admission) (\<lambda>_.
     and_do (handler_authorize H False) (\<lambda>_.
       send_response V (Applied \<lparr>ar_path = sr_path r, ar_record_hash = logical_hash (rv_externs V) r,
         ar_transferred_bytes = transferred_bytes, ar_reused_extents = reused_extents manifest missing\<rparr>))))))))))))))))"

definition handle_metadata :: "replica_env \<Rightarrow> sync_handler \<Rightarrow> sync_record \<Rightarrow> unit rprog" where
  "handle_metadata V H r =
     and_do (handler_authorize H True) (\<lambda>_.
     and_do (lift_res (map_err InRecord (record_validate r))) (\<lambda>_.
     and_do (require (sr_tombstone r \<or> sr_kind r = Directory)
               (Rejected ''metadata apply supports only directories and tombstones'')) (\<lambda>_.
     and_do (handler_authorize H True) (\<lambda>_.
     and_do (recover_pending V H) (\<lambda>_.
     and_do (ensure_causally_applicable V r) (\<lambda>_.
     and_do (share_candidate V H r) (\<lambda>share_metadata.
     and_do (causal_binding (sh_authorization H) r) (\<lambda>binding.
     and_do (handler_authorize H True) (\<lambda>_.
     and_do (on_store (apply_causal_record (rv_store V) (rv_root V) binding None)) (\<lambda>_.
     and_do (if sr_tombstone r then ret () else on_store (set_readonly (rv_store V) (rv_root V) (sr_path r) (sr_readonly r))) (\<lambda>_.
     and_do (handler_authorize H True) (\<lambda>_.
     and_do (adopt_verified V r share_metadata) (\<lambda>_.
     and_do (on_store (mark_record_indexed (rv_store V) (rv_root V) r)) (\<lambda>_.
     and_do (handler_authorize H False) (\<lambda>_.
       send_response V (Applied \<lparr>ar_path = sr_path r, ar_record_hash = logical_hash (rv_externs V) r,
         ar_transferred_bytes = 0, ar_reused_extents = 0\<rparr>))))))))))))))))"

section \<open>The dispatcher\<close>

definition handle_request :: "nat \<Rightarrow> replica_env \<Rightarrow> sync_handler \<Rightarrow> sync_wire_request \<Rightarrow> unit rprog" where
  "handle_request n V H request = (case request of
     QueryNode pfx \<Rightarrow> handle_query_session n V H request
   | PullRecord r \<Rightarrow> handle_pull V H r
   | PushRecord r manifest \<Rightarrow> handle_push_record V H r manifest
   | ApplyMetadata r \<Rightarrow> handle_metadata V H r
   | _ \<Rightarrow> fail (Rejected ''unexpected reconciliation session message''))"

definition serve_connection :: "nat \<Rightarrow> replica_env \<Rightarrow> sync_handler \<Rightarrow> unit rprog" where
  "serve_connection n V H = and_do (receive_request V) (handle_request n V H)"

end
