(* ===== verification/Sync_Engine.thy ===== *)
theory Sync_Engine
  imports Net_Client
begin

text \<open>
  One round of bidirectional synchronisation (\<^verbatim>\<open>crates/deltaweave-sync/src/lib.rs\<close>): recover what an earlier
  round left, scan, fetch the remote snapshot, merge, stage the content that either side lacks, apply the merge
  locally, push it to the peer, and verify both sides against the merged root. The optional swarm of extra
  chunk sources is not configured here, so every file that is not held locally is pulled from the peer;
  observer events are not modelled.
\<close>

section \<open>Configuration and reports\<close>

record sync_engine =
  en_profile :: chunking_profile
  en_min_free_space_bytes :: u64

record stage_stats =
  sg_local_files :: nat
  sg_remote_files :: nat
  sg_pulled_bytes :: u64
  sg_reused_extents :: nat

record remote_stats =
  rm_pushed_bytes :: u64
  rm_reused_extents :: nat

record sync_report =
  sy_local_before_root :: hash32
  sy_remote_before_root :: hash32
  sy_desired_root :: hash32
  sy_verified_local_root :: hash32
  sy_verified_remote_root :: hash32
  sy_merkle_queries :: nat
  sy_local_actions :: nat
  sy_remote_actions :: nat
  sy_staged_local_files :: nat
  sy_pulled_remote_files :: nat
  sy_pulled_bytes :: u64
  sy_pushed_bytes :: u64
  sy_reused_extents :: nat
  sy_conflicts :: "conflict_record list"

section \<open>Checks\<close>

definition ensure_scan_is_safe :: "scan_report \<Rightarrow> unit rprog" where
  "ensure_scan_is_safe report =
     and_do (require (sp_collisions report = []) (Rejected ''scan has cross-platform path collisions'')) (\<lambda>_.
       require (sp_issues report = [] \<and> sp_retries_queued report = 0) (Rejected ''scan is incomplete''))"

text \<open>Every prefix of a live path is checked in turn; the accumulator maps collision keys to spellings.\<close>

definition check_prefix :: "local_index \<Rightarrow> (wire_path, sync_record) fmap \<Rightarrow> string list \<Rightarrow> nat \<Rightarrow> (string, string) fmap \<Rightarrow>
    sync_error + (string, string) fmap" where
  "check_prefix I by_path parts len portable =
     (let ancestor = join_with ''/'' (take len parts) in
      and_then (map_err InPath (wire_path_new ancestor)) (\<lambda>path.
      let key = collision_key I path in
      and_then (ensure (case fmlookup portable key of None \<Rightarrow> True | Some previous \<Rightarrow> previous = ancestor)
                  (Rejected ''merged namespace has a cross-platform path collision'')) (\<lambda>_.
      and_then (ensure (\<not> len < length parts \<or> (case fmlookup by_path ancestor of None \<Rightarrow> True
                  | Some r \<Rightarrow> \<not> sr_tombstone r \<and> sr_kind r = Directory))
                  (Rejected ''namespace has non-directory ancestor'')) (\<lambda>_.
        Inr (fmupd key ancestor portable)))))"

definition check_materializable :: "local_index \<Rightarrow> (wire_path, sync_record) fmap \<Rightarrow> sync_record \<Rightarrow> (string, string) fmap \<Rightarrow>
    sync_error + (string, string) fmap" where
  "check_materializable I by_path r portable =
     (if sr_tombstone r then Inr portable
      else
        and_then (ensure (sr_kind r = File \<or> sr_kind r = Directory) (Rejected ''safe materialization is not enabled'')) (\<lambda>_.
          let parts = components (sr_path r) in fold_res (check_prefix I by_path parts) [1..<Suc (length parts)] portable))"

definition validate_materializable_namespace :: "local_index \<Rightarrow> sync_record list \<Rightarrow> sync_error + unit" where
  "validate_materializable_namespace I records =
     and_then (fold_res (check_materializable I (fmap_of_list (rev (map (\<lambda>r. (sr_path r, r)) records)))) records fmempty) (\<lambda>_. Inr ())"

definition live_file_source :: "sync_record list \<Rightarrow> hash32 \<Rightarrow> sync_record option" where
  "live_file_source records hash = find (\<lambda>r. is_live_file r \<and> sr_content_hash r = Some hash) records"

definition action_records :: "apply_action list \<Rightarrow> bool \<Rightarrow> sync_entry_kind option \<Rightarrow> sync_record list" where
  "action_records actions tombstone kind = List.map_filter (\<lambda>action. case action of
     Delete r \<Rightarrow> if tombstone then Some r else None
   | Materialize r \<Rightarrow> if \<not> tombstone \<and> (case kind of None \<Rightarrow> True | Some k \<Rightarrow> sr_kind r = k) then Some r else None) actions"

definition local_path :: "fs_path \<Rightarrow> wire_path \<Rightarrow> fs_path" where
  "local_path root path = root @ components path"

definition path_depth :: "wire_path \<Rightarrow> nat" where
  "path_depth path = length (components path)"

text \<open>The order of application: deletions from the leaves up, then directories from the root down, then files.\<close>

definition deletions :: "apply_action list \<Rightarrow> sync_record list" where
  "deletions actions = sort_key (\<lambda>r. - int (path_depth (sr_path r))) (action_records actions True None)"

definition directories :: "apply_action list \<Rightarrow> sync_record list" where
  "directories actions = sort_key (\<lambda>r. path_depth (sr_path r)) (action_records actions False (Some Directory))"

definition regular_files :: "apply_action list \<Rightarrow> sync_record list" where
  "regular_files actions = sort_key sr_path (action_records actions False (Some File))"

section \<open>Staging content\<close>

definition content_hash_of :: "sync_record \<Rightarrow> hash32 rprog" where
  "content_hash_of r = lift_res (ok_or (sr_content_hash r) (Rejected ''validated live file unexpectedly lacks a hash''))"

definition required_hashes :: "sync_record list \<Rightarrow> hash32 list rprog" where
  "required_hashes desired =
     and_do (map_each content_hash_of (filter is_live_file desired)) (\<lambda>hashes. ret (sorted_list_of_set (set hashes)))"

definition stage_local :: "replica_env \<Rightarrow> sync_engine \<Rightarrow> u64 \<Rightarrow> hash32 \<Rightarrow> sync_record \<Rightarrow> file_manifest rprog" where
  "stage_local V G pending_bytes hash source =
     (let admission = \<lparr>da_state_path = sv_state_root (rv_store V), da_destination_path = rv_root V,
           da_reserve_bytes = en_min_free_space_bytes G, da_pending_destination_bytes = pending_bytes\<rparr> in
      and_do (on_store (ingest_file_with_admission (rv_store V) (rv_cdc V) (local_path (rv_root V) (sr_path source)) (en_profile G)
                (check_state V admission))) (\<lambda>manifest.
      and_do (require (fm_file_hash manifest = hash) (Rejected ''local source changed after its snapshot'')) (\<lambda>_. ret manifest)))"

definition stage_remote :: "replica_env \<Rightarrow> sync_engine \<Rightarrow> u64 \<Rightarrow> hash32 \<Rightarrow> sync_record \<Rightarrow> pull_receipt rprog" where
  "stage_remote V G pending_bytes hash source =
     and_do (pull_record_to_with_budget V source (rv_root V) (en_min_free_space_bytes G) pending_bytes) (\<lambda>receipt.
     and_do (require (fm_file_hash (pl_manifest receipt) = hash) (Rejected ''remote source returned different content'')) (\<lambda>_.
       ret receipt))"

fun stage_hashes :: "replica_env \<Rightarrow> sync_engine \<Rightarrow> sync_record list \<Rightarrow> sync_record list \<Rightarrow> u64 \<Rightarrow> hash32 list \<Rightarrow>
    (hash32, file_manifest) fmap \<Rightarrow> stage_stats \<Rightarrow> ((hash32, file_manifest) fmap \<times> stage_stats) rprog" where
  "stage_hashes V G local remote pending_bytes [] manifests stats = ret (manifests, stats)"
| "stage_hashes V G local remote pending_bytes (hash # hashes) manifests stats =
     (case live_file_source local hash of
        Some source \<Rightarrow>
          and_do (stage_local V G pending_bytes hash source) (\<lambda>manifest.
            stage_hashes V G local remote pending_bytes hashes (fmupd hash manifest manifests)
              (stats\<lparr>sg_local_files := Suc (sg_local_files stats)\<rparr>))
      | None \<Rightarrow>
          and_do (lift_res (ok_or (live_file_source remote hash) (Rejected ''no peer retains required content''))) (\<lambda>source.
          and_do (stage_remote V G pending_bytes hash source) (\<lambda>receipt.
          and_do (lift_res (ok_or (checked_add (sg_pulled_bytes stats) (pl_transferred_bytes receipt))
                    (Rejected ''pulled-byte counter overflow''))) (\<lambda>pulled.
            stage_hashes V G local remote pending_bytes hashes (fmupd hash (pl_manifest receipt) manifests)
              (stats\<lparr>sg_remote_files := Suc (sg_remote_files stats), sg_pulled_bytes := pulled,
                     sg_reused_extents := sg_reused_extents stats + pl_reused_extents receipt\<rparr>)))))"

definition stage_desired_files :: "replica_env \<Rightarrow> sync_engine \<Rightarrow> sync_record list \<Rightarrow> sync_record list \<Rightarrow> sync_record list \<Rightarrow> u64 \<Rightarrow>
    ((hash32, file_manifest) fmap \<times> stage_stats) rprog" where
  "stage_desired_files V G desired local remote pending_bytes =
     and_do (required_hashes desired) (\<lambda>hashes.
       stage_hashes V G local remote pending_bytes hashes fmempty
         \<lparr>sg_local_files = 0, sg_remote_files = 0, sg_pulled_bytes = 0, sg_reused_extents = 0\<rparr>)"

section \<open>Applying locally\<close>

definition apply_deletion :: "replica_env \<Rightarrow> sync_record \<Rightarrow> unit rprog" where
  "apply_deletion V r =
     and_do (causal_binding None r) (\<lambda>binding.
     and_do (on_store (apply_causal_record (rv_store V) (rv_root V) binding None)) (\<lambda>_.
     and_do (adopt_verified V r None) (\<lambda>_.
       on_store (mark_record_indexed (rv_store V) (rv_root V) r))))"

definition apply_directory :: "replica_env \<Rightarrow> sync_record \<Rightarrow> unit rprog" where
  "apply_directory V r =
     and_do (causal_binding None r) (\<lambda>binding.
     and_do (on_store (apply_causal_record (rv_store V) (rv_root V) binding None)) (\<lambda>_.
     and_do (on_store (set_readonly (rv_store V) (rv_root V) (sr_path r) (sr_readonly r))) (\<lambda>_.
     and_do (adopt_verified V r None) (\<lambda>_.
       on_store (mark_record_indexed (rv_store V) (rv_root V) r)))))"

definition apply_file :: "replica_env \<Rightarrow> sync_engine \<Rightarrow> (hash32, file_manifest) fmap \<Rightarrow> sync_record \<Rightarrow> unit rprog" where
  "apply_file V G manifests r =
     and_do (content_hash_of r) (\<lambda>hash.
     and_do (lift_res (ok_or (fmlookup manifests hash) (Rejected ''required content was not staged''))) (\<lambda>manifest.
     and_do (on_store (check_materialization V \<lparr>da_state_path = sv_state_root (rv_store V), da_destination_path = rv_root V,
           da_reserve_bytes = en_min_free_space_bytes G, da_pending_destination_bytes = 0\<rparr> (fm_size manifest))) (\<lambda>_.
     and_do (causal_binding None r) (\<lambda>binding.
     and_do (on_store (apply_causal_record (rv_store V) (rv_root V) binding (Some manifest))) (\<lambda>change.
     and_do (on_store (and_do (observe_path_change (rv_store V) change) (\<lambda>observation.
        after_readonly_update (rv_store V) observation (local_path (rv_root V) (sr_path r)) (sr_readonly r)))) (\<lambda>observation.
     and_do (adopt_materialized V r observation None) (\<lambda>_.
       on_store (mark_record_indexed (rv_store V) (rv_root V) r))))))))"

definition apply_local :: "replica_env \<Rightarrow> sync_engine \<Rightarrow> merkle_tree \<Rightarrow> apply_action list \<Rightarrow> (hash32, file_manifest) fmap \<Rightarrow> unit rprog" where
  "apply_local V G current actions manifests =
     and_do (scan_index V) (\<lambda>report.
     and_do (ensure_scan_is_safe report) (\<lambda>_.
     and_do (read_records V) (\<lambda>records.
     and_do (lift_res (map_err InReconcile (from_records (rv_externs V) records))) (\<lambda>fresh.
     and_do (require (root_hash fresh = root_hash current \<and> mt_len fresh = mt_len current)
               (Rejected ''local state changed before applying reconciliation; retry with a fresh snapshot'')) (\<lambda>_.
     and_do (for_each (apply_deletion V) (deletions actions)) (\<lambda>_.
     and_do (for_each (apply_directory V) (directories actions)) (\<lambda>_.
       for_each (apply_file V G manifests) (regular_files actions))))))))"

section \<open>Applying remotely\<close>

definition push_metadata :: "replica_env \<Rightarrow> sync_record \<Rightarrow> unit rprog" where
  "push_metadata V r = and_do (send_metadata V r) (\<lambda>_. ret ())"

fun push_files :: "replica_env \<Rightarrow> sync_engine \<Rightarrow> sync_record list \<Rightarrow> remote_stats \<Rightarrow> remote_stats rprog" where
  "push_files V G [] stats = ret stats"
| "push_files V G (r # rs) stats =
     and_do (push_record V (local_path (rv_root V) (sr_path r)) r (en_profile G)) (\<lambda>receipt.
     and_do (lift_res (ok_or (checked_add (rm_pushed_bytes stats) (ar_transferred_bytes receipt))
               (Rejected ''pushed-byte counter overflow''))) (\<lambda>pushed.
       push_files V G rs (stats\<lparr>rm_pushed_bytes := pushed, rm_reused_extents := rm_reused_extents stats + ar_reused_extents receipt\<rparr>)))"

definition apply_remote :: "replica_env \<Rightarrow> sync_engine \<Rightarrow> apply_action list \<Rightarrow> remote_stats rprog" where
  "apply_remote V G actions =
     and_do (for_each (push_metadata V) (deletions actions)) (\<lambda>_.
     and_do (for_each (push_metadata V) (directories actions)) (\<lambda>_.
       push_files V G (regular_files actions) \<lparr>rm_pushed_bytes = 0, rm_reused_extents = 0\<rparr>))"

section \<open>A round\<close>

definition reconcile_result :: "reconcile_error + 'a \<Rightarrow> 'a rprog" where
  "reconcile_result r = lift_res (map_err InReconcile r)"

text \<open>\<open>different_paths\<close> may panic, which ends the task of the round.\<close>

definition actions_for :: "replica_env \<Rightarrow> merkle_tree \<Rightarrow> merge_result \<Rightarrow> apply_action list rprog" where
  "actions_for V current merged =
     and_do (reconcile_result (actions_to_reach (rv_externs V) current merged)) (\<lambda>actions.
       lift_res (ok_or actions (Rejected ''legacy sync task failed'')))"

definition pending_file_bytes :: "apply_action list \<Rightarrow> u64 rprog" where
  "pending_file_bytes actions = lift_res (fold_res (\<lambda>r sum_bytes.
     ok_or (checked_add sum_bytes (sr_size r)) (Rejected ''pending local materialization byte count overflow''))
     (filter is_live_file (action_records actions False None)) 0)"

definition verified_tree :: "replica_env \<Rightarrow> merkle_tree rprog" where
  "verified_tree V =
     and_do (scan_index V) (\<lambda>report.
     and_do (ensure_scan_is_safe report) (\<lambda>_.
     and_do (read_records V) (\<lambda>records. reconcile_result (from_records (rv_externs V) records))))"

definition verify_convergence :: "replica_env \<Rightarrow> merkle_tree \<Rightarrow> (merkle_tree \<times> remote_snapshot) rprog" where
  "verify_convergence V desired_tree =
     and_do (verified_tree V) (\<lambda>verified_local.
     and_do (require (root_hash verified_local = root_hash desired_tree \<and> mt_len verified_local = mt_len desired_tree)
               (Rejected ''local state changed before convergence verification'')) (\<lambda>_.
     and_do (session_fetch_snapshot V verified_local) (\<lambda>verified_remote.
     and_do (require (rs_root_hash verified_remote = root_hash desired_tree \<and> unat (rs_record_count verified_remote) = mt_len desired_tree)
               (Rejected ''remote state did not converge to the deterministic desired root'')) (\<lambda>_.
       ret (verified_local, verified_remote)))))"

definition sync_with_session :: "replica_env \<Rightarrow> sync_engine \<Rightarrow> sync_record list \<Rightarrow> merkle_tree \<Rightarrow> sync_report rprog" where
  "sync_with_session V G local_records local_tree =
     and_do (session_fetch_snapshot V local_tree) (\<lambda>remote.
     and_do replica_counter (\<lambda>local_counter.
     and_do (require (\<forall>r \<in> set (rs_records remote). vv_get (sr_version r) (li_replica (rv_index V)) \<le> local_counter)
               (Rejected ''remote snapshot advances local replica counter'')) (\<lambda>_.
     and_do (reconcile_result (from_records (rv_externs V) (rs_records remote))) (\<lambda>remote_tree.
     and_do (reconcile_result (merge_snapshots (rv_externs V) local_tree remote_tree)) (\<lambda>merged.
     and_do (lift_res (validate_materializable_namespace (rv_index V) (mr_records merged))) (\<lambda>_.
     and_do (reconcile_result (result_tree (rv_externs V) merged)) (\<lambda>desired_tree.
     and_do (actions_for V local_tree merged) (\<lambda>local_actions.
     and_do (actions_for V remote_tree merged) (\<lambda>remote_actions.
     and_do (pending_file_bytes local_actions) (\<lambda>pending_bytes.
     and_do (stage_desired_files V G (action_records (local_actions @ remote_actions) False (Some File)) local_records
               (rs_records remote) pending_bytes) (\<lambda>(manifests, staged).
     and_do (apply_local V G local_tree local_actions manifests) (\<lambda>_.
     and_do (apply_remote V G remote_actions) (\<lambda>pushed.
     and_do (verify_convergence V desired_tree) (\<lambda>(verified_local, verified_remote).
       ret \<lparr>sy_local_before_root = root_hash local_tree, sy_remote_before_root = rs_root_hash remote,
         sy_desired_root = root_hash desired_tree, sy_verified_local_root = root_hash verified_local,
         sy_verified_remote_root = rs_root_hash verified_remote, sy_merkle_queries = rs_queried_nodes remote,
         sy_local_actions = length local_actions, sy_remote_actions = length remote_actions,
         sy_staged_local_files = sg_local_files staged, sy_pulled_remote_files = sg_remote_files staged,
         sy_pulled_bytes = sg_pulled_bytes staged, sy_pushed_bytes = rm_pushed_bytes pushed,
         sy_reused_extents = sg_reused_extents staged + rm_reused_extents pushed, sy_conflicts = mr_conflicts merged\<rparr>))))))))))))))"

definition sync_once :: "replica_env \<Rightarrow> sync_engine \<Rightarrow> sync_report rprog" where
  "sync_once V G =
     and_do (recover_causal_index V) (\<lambda>_.
     and_do (scan_index V) (\<lambda>report.
     and_do (ensure_scan_is_safe report) (\<lambda>_.
     and_do (read_records V) (\<lambda>records.
     and_do (reconcile_result (from_records (rv_externs V) records)) (\<lambda>local_tree.
       sync_with_session V G records local_tree)))))"

end
