(* ===== verification/Read_Only.thy ===== *)
theory Read_Only
  imports Sync_Engine
begin

text \<open>
  Authoritative read-only synchronisation (\<^verbatim>\<open>crates/deltaweave-sync/src/read_only.rs\<close>): the member's tree is
  made equal to the owner's snapshot. Whatever the member changed locally is moved to a preserved place through
  the path journal, and a checkpoint of the last adopted snapshot rejects an owner history that goes back.
\<close>

section \<open>State\<close>

datatype stage = StagePrepared | StagePreserved | StageMaterialized | StageAdopted

record pending =
  pn_desired :: "sync_record list"
  pn_attempts :: "string list"
  pn_stage :: stage

record read_only_state =
  ro_version :: u16
  ro_owner :: endpoint_id
  ro_share :: share_id
  ro_checkpoint :: "sync_record list"
  ro_pending :: "pending option"

record preserved_local_change =
  lc_path :: wire_path
  lc_operation_id :: string
  lc_preserved_path :: fs_path

record read_only_report =
  rr_owner_root :: hash32
  rr_verified_local_root :: hash32
  rr_pulled_bytes :: u64
  rr_preserved :: "preserved_local_change list"

text \<open>The postcard encoding of the state is a parameter.\<close>

record read_only_codec =
  rk_bytes :: "read_only_state \<Rightarrow> u8 list"
  rk_from :: "u8 list \<Rightarrow> read_only_state option"

definition load :: "read_only_codec \<Rightarrow> read_only_state rprog" where
  "load K =
     and_do (index_read (\<lambda>st. Inr (ix_share_metadata st))) (\<lambda>stored.
     and_do (lift_res (ok_or stored (InShare StateUnavailable))) (\<lambda>bytes.
       lift_res (ok_or (rk_from K bytes) (InShare StateUnavailable))))"

definition save :: "read_only_codec \<Rightarrow> read_only_state \<Rightarrow> unit rprog" where
  "save K state = index_commit (\<lambda>_. set_share_metadata (rk_bytes K state))"

definition read_only_initialize :: "read_only_codec \<Rightarrow> membership \<Rightarrow> unit rprog" where
  "read_only_initialize K member =
     and_do (index_read (\<lambda>st. Inr (ix_share_metadata st))) (\<lambda>stored. case stored of
       Some bytes \<Rightarrow>
         and_do (lift_res (ok_or (rk_from K bytes) (InShare StateUnavailable))) (\<lambda>state.
           require (ro_version state = 1 \<and> ro_owner state = mb_owner member \<and> ro_share state = mb_share_id member)
             (InShare StateUnavailable))
     | None \<Rightarrow> save K \<lparr>ro_version = 1, ro_owner = mb_owner member, ro_share = mb_share_id member, ro_checkpoint = [], ro_pending = None\<rparr>)"

section \<open>Checkpoints\<close>

definition check_successor :: "(wire_path, sync_record) fmap \<Rightarrow> sync_record \<Rightarrow> unit \<Rightarrow> sync_error + unit" where
  "check_successor current previous _ =
     and_then (ok_or (fmlookup current (sr_path previous)) (InShare InvalidShareRecord)) (\<lambda>successor.
       case vv_relation (sr_version previous) (sr_version successor) of
         Equal \<Rightarrow> ensure (previous = successor) (InShare InvalidShareRecord)
       | Before \<Rightarrow> Inr ()
       | After \<Rightarrow> Inl (InShare InvalidShareRecord)
       | Concurrent \<Rightarrow> Inl (InShare InvalidShareRecord))"

definition validate_checkpoint :: "local_index \<Rightarrow> sync_record list \<Rightarrow> sync_record list \<Rightarrow> sync_error + unit" where
  "validate_checkpoint I before after =
     (let current = fmap_of_list (rev (map (\<lambda>r. (sr_path r, r)) after)) in
      and_then (ensure (map_len current = length after) (InShare InvalidShareRecord)) (\<lambda>_.
      and_then (validate_materializable_namespace I after) (\<lambda>_.
        fold_res (check_successor current) before ())))"

section \<open>Choosing the changes\<close>

definition physical_equal :: "sync_record \<Rightarrow> sync_record \<Rightarrow> bool" where
  "physical_equal left right \<longleftrightarrow> sr_tombstone left = sr_tombstone right \<and> sr_kind left = sr_kind right \<and>
     sr_content_hash left = sr_content_hash right \<and> sr_size left = sr_size right \<and> sr_readonly left = sr_readonly right"

definition live_record :: "sync_record list \<Rightarrow> wire_path \<Rightarrow> sync_record option" where
  "live_record records path = (case fmlookup (fmap_of_list (rev (map (\<lambda>r. (sr_path r, r)) records))) path of
     None \<Rightarrow> None | Some r \<Rightarrow> if sr_tombstone r then None else Some r)"

type_synonym changes = "(wire_path, path_observation option \<times> sync_record option) fmap"

definition read_local :: "replica_env \<Rightarrow> wire_path \<Rightarrow> path_observation option rprog" where
  "read_local V path = on_store (read_observation (rv_store V) (rv_root V) path)"

fun removals :: "replica_env \<Rightarrow> sync_record list \<Rightarrow> sync_record list \<Rightarrow> changes \<Rightarrow> changes rprog" where
  "removals V remote [] changes = ret changes"
| "removals V remote (r # rs) changes =
     (if \<not> sr_tombstone r \<and> live_record remote (sr_path r) = None then
        and_do (read_local V (sr_path r)) (\<lambda>observation.
          removals V remote rs (fmupd (sr_path r) (observation, None) changes))
      else removals V remote rs changes)"

definition unchanged :: "sync_record option \<Rightarrow> sync_record \<Rightarrow> bool" where
  "unchanged previous r \<longleftrightarrow> (case previous of None \<Rightarrow> False
     | Some p \<Rightarrow> physical_equal p r \<or> (sr_kind r = Directory \<and> sr_kind p = Directory))"

fun installations :: "replica_env \<Rightarrow> sync_record list \<Rightarrow> sync_record list \<Rightarrow> changes \<Rightarrow> changes rprog" where
  "installations V current [] changes = ret changes"
| "installations V current (r # rs) changes =
     (if sr_tombstone r \<or> unchanged (live_record current (sr_path r)) r then installations V current rs changes
      else
        and_do (if live_record current (sr_path r) = None then ret None else read_local V (sr_path r)) (\<lambda>expected.
          installations V current rs (fmupd (sr_path r) (expected, Some r) changes)))"

text \<open>A change beneath a directory that is removed or replaced by a file is dropped: the capture takes the whole directory.\<close>

definition covers :: "changes \<Rightarrow> wire_path \<Rightarrow> bool" where
  "covers changes ancestor = (case fmlookup changes ancestor of
     None \<Rightarrow> False | Some (_, target) \<Rightarrow> (case target of None \<Rightarrow> True | Some r \<Rightarrow> sr_kind r = File))"

fun covered_by :: "changes \<Rightarrow> string list \<Rightarrow> nat list \<Rightarrow> sync_error + bool" where
  "covered_by changes parts [] = Inr False"
| "covered_by changes parts (len # lens) =
     and_then (map_err InPath (wire_path_new (join_with ''/'' (take len parts)))) (\<lambda>ancestor.
       if covers changes ancestor then Inr True else covered_by changes parts lens)"

definition drop_covered :: "wire_path \<Rightarrow> changes \<Rightarrow> sync_error + changes" where
  "drop_covered path changes =
     (let parts = components path in
      and_then (covered_by changes parts [1..<length parts]) (\<lambda>covered.
        Inr (if covered then fmdrop path changes else changes)))"

definition plan_changes :: "replica_env \<Rightarrow> sync_record list \<Rightarrow> sync_record list \<Rightarrow> changes rprog" where
  "plan_changes V current remote =
     and_do (removals V remote current fmempty) (\<lambda>removed.
     and_do (installations V current remote removed) (\<lambda>changes.
       lift_res (fold_res drop_covered (map fst (sorted_list_of_fmap changes)) changes)))"

section \<open>Applying\<close>

definition change_target :: "replica_env \<Rightarrow> sync_engine \<Rightarrow> (hash32, file_manifest) fmap \<Rightarrow> sync_record option \<Rightarrow> path_target rprog" where
  "change_target V G manifests desired = (case desired of
     None \<Rightarrow> ret AbsentTarget
   | Some r \<Rightarrow>
       if sr_kind r = File then
         and_do (lift_res (ok_or (sr_content_hash r) (Rejected ''file has no hash''))) (\<lambda>hash.
         and_do (lift_res (ok_or (fmlookup manifests hash) (Rejected ''required RO content not staged''))) (\<lambda>manifest.
         and_do (on_store (check_materialization V \<lparr>da_state_path = sv_state_root (rv_store V), da_destination_path = rv_root V,
             da_reserve_bytes = en_min_free_space_bytes G, da_pending_destination_bytes = 0\<rparr> (fm_size manifest))) (\<lambda>_.
           ret (FileTarget manifest))))
       else ret DirectoryTarget)"

definition set_stage :: "stage \<Rightarrow> read_only_state \<Rightarrow> read_only_state" where
  "set_stage st state = state\<lparr>ro_pending := map_option (\<lambda>p. p\<lparr>pn_stage := st\<rparr>) (ro_pending state)\<rparr>"

definition add_attempt :: "string \<Rightarrow> read_only_state \<Rightarrow> read_only_state" where
  "add_attempt ident state = state\<lparr>ro_pending := map_option (\<lambda>p. p\<lparr>pn_attempts := pn_attempts p @ [ident]\<rparr>) (ro_pending state)\<rparr>"

fun apply_changes :: "replica_env \<Rightarrow> sync_engine \<Rightarrow> read_only_codec \<Rightarrow> (hash32, file_manifest) fmap \<Rightarrow>
    (wire_path \<times> path_observation option \<times> sync_record option) list \<Rightarrow> read_only_state \<Rightarrow> read_only_state rprog" where
  "apply_changes V G K manifests [] state = ret state"
| "apply_changes V G K manifests ((path, expected, desired) # changes) state =
     and_do (change_target V G manifests desired) (\<lambda>target.
     and_do (on_store (prepare_path_change (rv_store V) (rv_root V) path target expected True)) (\<lambda>change.
     let attempted = add_attempt (pc_id change) state in
     and_do (save K attempted) (\<lambda>_.
     and_do (on_store (capture_path_change (rv_store V) change)) (\<lambda>captured.
     let preserved_state = set_stage StagePreserved attempted in
     and_do (save K preserved_state) (\<lambda>_.
     and_do (on_store (materialize_path_change (rv_store V) captured)) (\<lambda>_.
       apply_changes V G K manifests changes preserved_state))))))"

definition preserved_artifacts :: "path_change \<Rightarrow> preserved_local_change list rprog" where
  "preserved_artifacts c =
     and_do (on_store (stat_is_ok (pc_artifact c))) (\<lambda>kept.
     and_do (on_store (stat_is_ok (pc_rollback_artifact c))) (\<lambda>rolled.
       let entry = (\<lambda>p. \<lparr>lc_path = pc_path c, lc_operation_id = pc_id c, lc_preserved_path = p\<rparr>) in
       ret ((if kept then [entry (pc_artifact c)] else []) @ (if rolled then [entry (pc_rollback_artifact c)] else []))))"

definition preserved :: "replica_env \<Rightarrow> preserved_local_change list rprog" where
  "preserved V =
     and_do (on_store path_changes) (\<lambda>changes.
     and_do (map_each preserved_artifacts (filter (\<lambda>c. pc_root c = rv_root V) changes)) (\<lambda>found. ret (concat found)))"

section \<open>A round\<close>

definition resume_attempts :: "replica_env \<Rightarrow> pending \<Rightarrow> unit rprog" where
  "resume_attempts V p =
     and_do (on_store path_changes) (\<lambda>changes.
       for_each (\<lambda>c. and_do (on_store (resume_path_change (rv_store V) c)) (\<lambda>_. ret ()))
         (filter (\<lambda>c. pc_id c \<in> set (pn_attempts p)) changes))"

definition adopt_snapshot :: "replica_env \<Rightarrow> sync_record list \<Rightarrow> u8 list \<Rightarrow> unit rprog" where
  "adopt_snapshot V snapshot metadata = index_commit (\<lambda>w. adopt_authoritative_snapshot (rv_index V) (rv_externs V)
     (fs_disk (w_fs w)) (listing_at (rv_root V) (w_fs w)) snapshot metadata)"

definition finish_changes :: "replica_env \<Rightarrow> unit rprog" where
  "finish_changes V =
     and_do (on_store path_changes) (\<lambda>changes.
       for_each (\<lambda>c. on_store (mark_path_change_indexed (rv_store V) (pc_id c)))
         (filter (\<lambda>c. pc_root c = rv_root V \<and> pc_state c = Materialized) changes))"

definition pending_ro_bytes :: "sync_record list \<Rightarrow> u64 rprog" where
  "pending_ro_bytes files = lift_res (fold_res (\<lambda>r sum_bytes.
     ok_or (checked_add sum_bytes (sr_size r)) (Rejected ''pending RO byte count overflow'')) files 0)"

definition planned_files :: "changes \<Rightarrow> sync_record list" where
  "planned_files changes = filter (\<lambda>r. sr_kind r = File) (List.map_filter snd (map_values changes))"

text \<open>From the preparation to the adoption of the snapshot; the state carries the attempts of earlier rounds.\<close>

definition apply_authoritative :: "replica_env \<Rightarrow> sync_engine \<Rightarrow> read_only_codec \<Rightarrow> remote_snapshot \<Rightarrow> changes \<Rightarrow>
    (hash32, file_manifest) fmap \<Rightarrow> read_only_state \<Rightarrow> read_only_state rprog" where
  "apply_authoritative V G K remote changes manifests state =
     (let prepared = state\<lparr>ro_pending := Some \<lparr>pn_desired = rs_records remote,
            pn_attempts = (case ro_pending state of None \<Rightarrow> [] | Some p \<Rightarrow> pn_attempts p), pn_stage = StagePrepared\<rparr>\<rparr> in
      and_do (save K prepared) (\<lambda>_.
      and_do (apply_changes V G K manifests (sort_key (\<lambda>(path, _). path_depth path) (sorted_list_of_fmap changes)) prepared) (\<lambda>applied.
      and_do (for_each (\<lambda>r. on_store (set_readonly (rv_store V) (rv_root V) (sr_path r) (sr_readonly r)))
                (filter (\<lambda>r. \<not> sr_tombstone r) (rs_records remote))) (\<lambda>_.
      and_do (save K (set_stage StageMaterialized applied)) (\<lambda>_.
      let adopted = set_stage StageAdopted (applied\<lparr>ro_checkpoint := rs_records remote\<rparr>) in
      and_do (adopt_snapshot V (rs_records remote) (rk_bytes K adopted)) (\<lambda>_. ret adopted))))))"

definition read_only_sync :: "replica_env \<Rightarrow> sync_engine \<Rightarrow> read_only_codec \<Rightarrow> read_only_report rprog" where
  "read_only_sync V G K =
     and_do (load K) (\<lambda>state.
     and_do (reconcile_result (from_records (rv_externs V) [])) (\<lambda>empty.
     and_do (session_fetch_snapshot V empty) (\<lambda>remote.
     and_do (lift_res (validate_checkpoint (rv_index V) (ro_checkpoint state) (rs_records remote))) (\<lambda>_.
     and_do (case ro_pending state of None \<Rightarrow> ret ()
             | Some p \<Rightarrow> lift_res (validate_checkpoint (rv_index V) (pn_desired p) (rs_records remote))) (\<lambda>_.
     and_do (reconcile_result (from_records (rv_externs V) (rs_records remote))) (\<lambda>owner_tree.
     and_do (case ro_pending state of None \<Rightarrow> ret () | Some p \<Rightarrow> resume_attempts V p) (\<lambda>_.
     and_do (scan_index V) (\<lambda>report.
     and_do (ensure_scan_is_safe report) (\<lambda>_.
     and_do (read_records V) (\<lambda>current.
     and_do (reconcile_result (from_records (rv_externs V) current)) (\<lambda>current_tree.
     and_do (plan_changes V current (rs_records remote)) (\<lambda>changes.
     and_do (pending_ro_bytes (planned_files changes)) (\<lambda>pending_bytes.
     and_do (stage_desired_files V G (planned_files changes) current (rs_records remote) pending_bytes) (\<lambda>(manifests, stats).
     and_do (verified_tree V) (\<lambda>fresh.
     and_do (require (root_hash fresh = root_hash current_tree) (Rejected ''local state changed before authoritative apply'')) (\<lambda>_.
     and_do (apply_authoritative V G K remote changes manifests state) (\<lambda>adopted.
     and_do (finish_changes V) (\<lambda>_.
     and_do (save K (adopted\<lparr>ro_pending := None\<rparr>)) (\<lambda>_.
     and_do (verified_tree V) (\<lambda>verified.
     and_do (session_fetch_snapshot V owner_tree) (\<lambda>fresh_owner.
     and_do (reconcile_result (from_records (rv_externs V) (rs_records fresh_owner))) (\<lambda>fresh_owner_tree.
     and_do (require (root_hash verified = root_hash owner_tree \<and> root_hash fresh_owner_tree = root_hash owner_tree)
               (Rejected ''owner or local namespace changed during authoritative verification; retry'')) (\<lambda>_.
     and_do (preserved V) (\<lambda>kept.
       ret \<lparr>rr_owner_root = root_hash owner_tree, rr_verified_local_root = root_hash verified,
         rr_pulled_bytes = sg_pulled_bytes stats, rr_preserved = kept\<rparr>))))))))))))))))))))))))"

end
