(* ===== verification/Replica_Calls.thy ===== *)
theory Replica_Calls
  imports Net_Server Read_Only Journal_Calls
begin

text \<open>
  The interface between a replica and its store: a relation between the states of the store's world that
  every call keeps is kept by recovery, by every handler of the server and by the application of a merge or of
  an authoritative snapshot, whatever the outcome, the peer, the index and the registry. The lemmas are proved
  once, in the locale. Receiving and ingesting chunks may replace files of the chunk store, so what those calls
  keep is stated apart, in \<^verbatim>\<open>Transfer_Calls\<close>.
\<close>

definition on_world :: "(world \<Rightarrow> world \<Rightarrow> bool) \<Rightarrow> replica \<Rightarrow> replica \<Rightarrow> bool" where
  "on_world R s s' \<longleftrightarrow> R (rp_world s) (rp_world s')"

lemma keeps_on_store:
  assumes "keeps R p"
  shows "keeps (on_world R) (on_store p)"
proof (unfold keeps_def, rule allI)
  fix s :: replica
  have "R (rp_world s) (snd (p (rp_world s)))" using assms by (rule keepsD)
  then show "on_world R s (snd (on_store p s))"
    by (auto simp: on_world_def on_store_def split: prod.splits outcome.splits)
qed

lemma keeps_case_request:
  assumes "\<And>pfx. keeps R (f pfx)" "\<And>r. keeps R (g r)" "\<And>r m. keeps R (h r m)" "\<And>r. keeps R (i r)" "\<And>hs. keeps R (j hs)" "keeps R k"
  shows "keeps R (case request of QueryNode pfx \<Rightarrow> f pfx | PullRecord r \<Rightarrow> g r | PushRecord r m \<Rightarrow> h r m
    | ApplyMetadata r \<Rightarrow> i r | RequestChunks hs \<Rightarrow> j hs | Finish \<Rightarrow> k)"
  using assms by (cases request) simp_all

lemma keeps_case_response:
  assumes "\<And>x. keeps R (f x)" "\<And>r m. keeps R (g r m)" "\<And>hs. keeps R (h hs)" "\<And>x. keeps R (i x)" "keeps R j" "\<And>x. keeps R (k x)" "\<And>x. keeps R (l x)"
  shows "keeps R (case response of Node x \<Rightarrow> f x | PullManifest r m \<Rightarrow> g r m | NeedChunks hs \<Rightarrow> h hs | Applied x \<Rightarrow> i x
    | Finished \<Rightarrow> j | Error x \<Rightarrow> k x | ShareError x \<Rightarrow> l x)"
  using assms by (cases response) simp_all

lemma keeps_case_sum: "(\<And>x. keeps R (f x)) \<Longrightarrow> (\<And>x. keeps R (g x)) \<Longrightarrow> keeps R (case v of Inl x \<Rightarrow> f x | Inr x \<Rightarrow> g x)"
  by (cases v) simp_all

lemma keeps_case_recovery: "(\<And>x. keeps R (f x)) \<Longrightarrow> keeps R g \<Longrightarrow> keeps R (case v of AdoptChange x \<Rightarrow> f x | RollbackChange \<Rightarrow> g)"
  by (cases v) simp_all

lemma keeps_case_nat: "keeps R f \<Longrightarrow> (\<And>n. keeps R (g n)) \<Longrightarrow> keeps R (case v of 0 \<Rightarrow> f | Suc n \<Rightarrow> g n)"
  by (cases v) simp_all

lemmas keeps_cases = keeps_case_request keeps_case_response keeps_case_sum keeps_case_recovery keeps_case_nat

locale replica_calls = journal_calls R "rv_store V" for R :: "world \<Rightarrow> world \<Rightarrow> bool" and V :: replica_env

sublocale replica_calls \<subseteq> lifted: progress "on_world R"
proof
  show "on_world R s s" for s by (simp add: on_world_def R_refl)
  show "on_world R s t \<Longrightarrow> on_world R t u \<Longrightarrow> on_world R s u" for s t u
    by (auto simp: on_world_def intro: R_trans)
qed

context replica_calls
begin

lemmas [keeps_intros] = lifted.keeps_constructs keeps_on_store keeps_cases

lemma keeps_same_world: "(\<And>s. rp_world (snd (p s)) = rp_world s) \<Longrightarrow> keeps (on_world R) p"
  by (simp add: keeps_def on_world_def R_refl)

lemma keeps_on_wire [keeps_intros]: "keeps (on_world R) (on_wire p)"
  by (rule keeps_same_world) (simp add: on_wire_def split: prod.split)

lemma keeps_on_index [keeps_intros]: "keeps (on_world R) (on_index f)"
  unfolding on_index_def
  by (intro keeps_intros R_tick keeps_same_world) (simp split: sum.split prod.split)

lemma keeps_index_calls [keeps_intros]: "keeps (on_world R) (index_commit g)" "keeps (on_world R) (index_read h)"
  unfolding index_commit_def index_read_def by (intro keeps_intros)+

lemma keeps_enter_share [keeps_intros]: "keeps (on_world R) enter_share"
  unfolding enter_share_def
  by (intro keeps_intros R_tick keeps_same_world) (simp split: list.split)

lemma keeps_commit_share [keeps_intros]: "keeps (on_world R) (commit_share sh r)"
  by (rule keeps_same_world) (auto simp: commit_share_def split: sum.split prod.split)

lemma keeps_visit_share [keeps_intros]: "keeps (on_world R) (visit_share f)"
  unfolding visit_share_def by (intro keeps_intros)

lemmas index_defs = read_records_def index_get_def replica_counter_def adopt_verified_def adopt_materialized_def adopt_snapshot_def

lemma keeps_scan_index [keeps_intros]: "keeps (on_world R) (scan_index V)"
  unfolding scan_index_def by (intro keeps_intros)

lemma keeps_ensure [keeps_intros]: "keeps (on_world R) (ensure_index_report_safe report)" "keeps (on_world R) (ensure_scan_is_safe report)"
  unfolding ensure_index_report_safe_def ensure_scan_is_safe_def by (intro keeps_intros)+

lemma keeps_causally_applicable [keeps_intros]:
  "keeps (on_world R) (ensure_index_causally_applicable V r)" "keeps (on_world R) (ensure_causally_applicable V r)"
  unfolding ensure_causally_applicable_def ensure_index_causally_applicable_def index_defs by (intro keeps_intros)+

lemma keeps_session [keeps_intros]:
  "keeps (on_world R) (session_check A b)" "keeps (on_world R) (stored_state A)" "keeps (on_world R) (session_refresh V A)"
  "keeps (on_world R) (session_member A peer)" "keeps (on_world R) (session_context A r)"
  unfolding session_check_def stored_state_def session_refresh_def session_member_def session_context_def read_share_def index_defs
  by (intro keeps_intros)+

lemma keeps_read_clock [keeps_intros]: "keeps (on_world R) read_clock"
  by (rule keeps_same_world) (simp add: read_clock_def)

lemma keeps_session_candidate [keeps_intros]: "keeps (on_world R) (session_candidate V A peer epoch r)"
  unfolding session_candidate_def read_share_def
  by (intro keeps_intros)

lemma keeps_candidate [keeps_intros]:
  "keeps (on_world R) (candidate_metadata V A r)" "keeps (on_world R) (session_decision V A binding)"
  "keeps (on_world R) (causal_binding authorization r)"
  unfolding candidate_metadata_def session_decision_def causal_binding_def index_defs
  by (intro keeps_intros)+

lemma keeps_adopt_change [keeps_intros]: "keeps (on_world R) (adopt_change V c r m)"
  unfolding adopt_change_def index_defs by (intro keeps_intros)

lemma keeps_recover [keeps_intros]:
  assumes "\<And>b. keeps (on_world R) (permit b)"
  shows "keeps (on_world R) (recover_causal_index_with V permit)"
  unfolding recover_causal_index_with_def recover_causal_change_def index_defs
  by (intro keeps_intros assms)

lemma keeps_recover_calls [keeps_intros]:
  "keeps (on_world R) (recover_causal_index V)" "keeps (on_world R) (recover_session V A)" "keeps (on_world R) (recover_pending V H)"
  unfolding recover_causal_index_def recover_session_def recover_pending_def
  by (intro keeps_intros)+

lemma keeps_handler [keeps_intros]:
  "keeps (on_world R) (check_optional authorization b)" "keeps (on_world R) (handler_authorize H b)"
  "keeps (on_world R) (send_response V response)" "keeps (on_world R) (receive_request V)" "keeps (on_world R) (share_candidate V H r)"
  unfolding check_optional_def handler_authorize_def send_response_def receive_request_def share_candidate_def
  by (intro keeps_intros)+

lemma R_check_budget [keeps_intros]: "keeps R (check_budget V admission m n)"
  unfolding check_budget_def same_filesystem_def available_space_def
  by (intro keeps_intros R_tick) (auto simp: keeps_def lift_res_def ret_def fail_def R_refl split: sum.split)

lemma R_check [keeps_intros]: "keeps R (check_state V admission n)" "keeps R (check_materialization V admission n)"
  unfolding check_state_def check_materialization_def by (intro keeps_intros)+

lemma keeps_query_loop [keeps_intros]: "keeps (on_world R) (query_loop n V H tree request)"
proof (induction n arbitrary: request)
  case 0
  show ?case by (subst query_loop.simps, unfold nat.case, intro keeps_intros)
next
  case (Suc n)
  show ?case by (subst query_loop.simps, unfold nat.case, intro keeps_intros Suc.IH)
qed

lemma keeps_handle_query_session [keeps_intros]: "keeps (on_world R) (handle_query_session n V H request)"
  unfolding handle_query_session_def index_defs by (intro keeps_intros)

lemma keeps_send_requested_chunks [keeps_intros]: "keeps (on_world R) (send_requested_chunks V source manifest missing authorization)"
proof -
  have "keeps (on_world R) (send_loop V source manifest authorization hs n)" for hs n
    by (induction hs arbitrary: n) (simp_all add: read_extent_def keeps_intros)
  then show ?thesis unfolding send_requested_chunks_def by (intro keeps_intros)
qed

lemma keeps_require_live_file [keeps_intros]: "keeps (on_world R) (require_live_file r)"
  unfolding require_live_file_def by (intro keeps_intros)

lemma keeps_handle_pull [keeps_intros]: "keeps (on_world R) (handle_pull V H r)"
  unfolding handle_pull_def index_defs by (intro keeps_intros)

lemma keeps_apply_received [keeps_intros]: "keeps (on_world R) (apply_received V H r manifest admission)"
  unfolding apply_received_def index_defs by (intro keeps_intros)

lemma keeps_handle_metadata [keeps_intros]: "keeps (on_world R) (handle_metadata V H r)"
  unfolding handle_metadata_def index_defs by (intro keeps_intros)

lemma keeps_apply_local [keeps_intros]: "keeps (on_world R) (apply_local V G tree actions manifests)"
  unfolding apply_local_def apply_deletion_def apply_directory_def apply_file_def content_hash_of_def index_defs
  by (intro keeps_intros)

lemmas client_defs = send_request_def receive_response_def await_applied_def session_fetch_snapshot_def

lemma keeps_session_fetch_snapshot [keeps_intros]: "keeps (on_world R) (session_fetch_snapshot V tree)"
  unfolding client_defs by (intro keeps_intros)

lemma keeps_push_record [keeps_intros]: "keeps (on_world R) (push_record V source r profile)"
  unfolding push_record_def push_record_connected_def client_defs is_file_def by (intro keeps_intros)

lemma keeps_apply_remote [keeps_intros]: "keeps (on_world R) (apply_remote V G actions)"
proof -
  have "keeps (on_world R) (push_files V G rs stats)" for rs stats
    by (induction rs arbitrary: stats) (simp_all add: keeps_intros)
  then show ?thesis unfolding apply_remote_def push_metadata_def send_metadata_def client_defs by (intro keeps_intros)
qed

lemma keeps_verify_convergence [keeps_intros]: "keeps (on_world R) (verify_convergence V tree)"
  unfolding verify_convergence_def verified_tree_def reconcile_result_def index_defs by (intro keeps_intros)

lemma keeps_save [keeps_intros]: "keeps (on_world R) (save K state)"
  unfolding save_def by (intro keeps_intros)

lemma keeps_change_target [keeps_intros]: "keeps (on_world R) (change_target V G manifests desired)"
  unfolding change_target_def by (intro keeps_intros)

lemma keeps_apply_changes [keeps_intros]: "keeps (on_world R) (apply_changes V G K manifests changes state)"
proof (induction changes arbitrary: state)
  case (Cons change changes)
  obtain path expected desired where "change = (path, expected, desired)" by (cases change)
  then show ?case by (auto simp: Let_def intro!: keeps_intros Cons.IH)
qed (simp add: keeps_intros)

lemma keeps_apply_authoritative [keeps_intros]: "keeps (on_world R) (apply_authoritative V G K remote changes manifests state)"
  unfolding apply_authoritative_def index_defs by (intro keeps_intros)

lemma keeps_finish_changes [keeps_intros]: "keeps (on_world R) (finish_changes V)" "keeps (on_world R) (resume_attempts V p)"
  unfolding finish_changes_def resume_attempts_def path_changes_def by (intro keeps_intros)+

end

end
