(* ===== verification/Share_Service.thy ===== *)
theory Share_Service
  imports Net_Server
begin

text \<open>
  The share service of a device (\<^verbatim>\<open>crates/deltaweave-net/src/share/service.rs\<close> and the owner's side of
  \<^verbatim>\<open>runtime.rs\<close>): answering the opening exchange of a connection, serving an accepted session under its
  authorization, loading an owned share, and the calls a member makes of an owner. A connection concerns one
  share, so the handler runs over the replica of the share its hello names; before that it touches the wire only.
  Reserving the roots of a share on the host is the business of \<open>Root_Admission\<close>.
\<close>

section \<open>Service\<close>

text \<open>\<open>sx_draws\<close> is what the random generator returns from a moment on.\<close>

record share_service =
  sx_registry :: registry_env
  sx_endpoint :: endpoint_id
  sx_now :: "nat \<Rightarrow> u64"
  sx_draws :: "nat \<Rightarrow> replica_id list"
  sx_codec :: hello_codec

definition service_time :: "share_service \<Rightarrow> u64 rprog" where
  "service_time X = and_do read_clock (\<lambda>t. ret (sx_now X t))"

definition check_enabled :: "unit rprog" where
  "check_enabled = read_share (\<lambda>sh. ensure (sh_enabled sh) Busy)"

definition authorize_peer :: "share_service \<Rightarrow> share_id \<Rightarrow> endpoint_id \<Rightarrow> membership rprog" where
  "authorize_peer X share peer = read_share (\<lambda>sh. authorize (sx_registry X) (sh_catalog sh) share peer False)"

section \<open>Tracked connections\<close>

definition track :: "endpoint_id \<Rightarrow> share_state \<Rightarrow> nat \<times> share_state" where
  "track peer sh = (sh_next_connection sh, sh\<lparr>sh_connections := fmupd (sh_next_connection sh) peer (sh_connections sh),
     sh_next_connection := Suc (sh_next_connection sh)\<rparr>)"

definition untrack :: "nat \<Rightarrow> share_state \<Rightarrow> share_state" where
  "untrack c sh = sh\<lparr>sh_connections := fmdrop c (sh_connections sh)\<rparr>"

text \<open>The guard unregisters when the body returns or fails; an interruption ends the process.\<close>

definition with_tracked :: "endpoint_id \<Rightarrow> 'a rprog \<Rightarrow> 'a rprog" where
  "with_tracked peer body s = (case track peer (rp_share s) of (c, sh) \<Rightarrow>
     (case body (s\<lparr>rp_share := sh\<rparr>) of
        (Halted, t) \<Rightarrow> (Halted, t)
      | (r, t) \<Rightarrow> (r, t\<lparr>rp_share := untrack c (rp_share t)\<rparr>)))"

section \<open>The opening exchange\<close>

definition safe_error :: "sync_error \<Rightarrow> share_error" where
  "safe_error e = (case e of InShare x \<Rightarrow> x | _ \<Rightarrow> TransferFailed)"

text \<open>An enrollment whose generator never returns a fresh replica does not return.\<close>

definition enroll_peer :: "share_service \<Rightarrow> share_ticket \<Rightarrow> endpoint_id \<Rightarrow> legacy_proof option \<Rightarrow> membership rprog" where
  "enroll_peer X ticket peer lp =
     and_do read_clock (\<lambda>t.
     and_do enter_share (\<lambda>sh.
       case enroll (sx_registry X) (sx_now X t) ticket peer lp (sx_draws X t) (sh_catalog sh) of
         None \<Rightarrow> (\<lambda>s. (Halted, s))
       | Some r \<Rightarrow> commit_share sh r))"

definition answer_operation :: "share_service \<Rightarrow> endpoint_id \<Rightarrow> hello \<Rightarrow> share_reply rprog" where
  "answer_operation X peer hello =
     and_do check_enabled (\<lambda>_. case hl_operation hello of
       OpValidate ticket \<Rightarrow>
         and_do (require (tb_share_id (st_body ticket) = hl_share_id hello) (InShare InvalidTicket)) (\<lambda>_.
         and_do (service_time X) (\<lambda>now.
         and_do (read_share (\<lambda>sh. reg_validate (sx_registry X) now (sh_catalog sh) ticket)) (\<lambda>_.
           ret (Validated (ticket_preview_of ticket)))))
     | OpEnroll ticket lp \<Rightarrow>
         and_do (require (tb_share_id (st_body ticket) = hl_share_id hello) (InShare InvalidTicket)) (\<lambda>_.
         and_do (enroll_peer X ticket peer lp) (\<lambda>member. ret (Enrolled member)))
     | OpSession \<Rightarrow>
         and_do (authorize_peer X (hl_share_id hello) peer) (\<lambda>_. ret Accepted))"

definition answer_hello :: "share_service \<Rightarrow> endpoint_id \<Rightarrow> hello \<Rightarrow> share_reply rprog" where
  "answer_hello X peer hello = catch (answer_operation X peer hello) (\<lambda>e. ret (ReplyError (safe_error e)))"

definition send_reply :: "wire_peer \<Rightarrow> share_reply \<Rightarrow> unit rprog" where
  "send_reply frames reply = on_wire (write_frame frames (ShareReply reply))"

section \<open>A session\<close>

definition serve_share_request :: "nat \<Rightarrow> replica_env \<Rightarrow> sync_handler \<Rightarrow> sync_wire_request \<Rightarrow> unit rprog" where
  "serve_share_request n V H request = (case request of
     QueryNode pfx \<Rightarrow> handle_query_session n V H request
   | PullRecord r \<Rightarrow> handle_pull V H r
   | PushRecord r manifest \<Rightarrow> handle_push_record V H r manifest
   | ApplyMetadata r \<Rightarrow> handle_metadata V H r
   | _ \<Rightarrow> fail (InShare Protocol))"

definition serve_operation :: "nat \<Rightarrow> replica_env \<Rightarrow> share_session \<Rightarrow> unit rprog" where
  "serve_operation n V A =
     catch (and_do (session_check A False) (\<lambda>_.
            and_do (receive_request V) (serve_share_request n V
              \<lparr>sh_authorization = Some A, sh_min_free_space_bytes = oc_min_free_space_bytes (ss_config A)\<rparr>)))
       (\<lambda>e. attempt (send_response V (ShareError (safe_error e))))"

definition serve_session :: "nat \<Rightarrow> share_service \<Rightarrow> replica_env \<Rightarrow> share_session \<Rightarrow> share_id \<Rightarrow> endpoint_id \<Rightarrow> unit rprog" where
  "serve_session n X V A share peer =
     and_do check_enabled (\<lambda>_.
     and_do (authorize_peer X share peer) (\<lambda>_.
     and_do (send_reply (rv_peer V) Accepted) (\<lambda>_.
     and_do (authorize_peer X share peer) (\<lambda>member.
       serve_operation n V (A\<lparr>ss_peer := peer, ss_epoch := mb_epoch member\<rparr>)))))"

text \<open>
  \<open>Handler::run\<close>: \<open>runtimes\<close> are the loaded shares, \<open>frames\<close> is the connecting device and \<open>peer\<close> its
  authenticated endpoint.
\<close>

definition run_handler :: "nat \<Rightarrow> share_service \<Rightarrow> (share_id, replica_env \<times> share_session) fmap \<Rightarrow> wire_peer \<Rightarrow> endpoint_id \<Rightarrow> unit rprog" where
  "run_handler n X runtimes frames peer =
     and_do (on_wire (next_frame frames)) (\<lambda>f. case f of
       HelloBytes bytes \<Rightarrow>
         and_do (lift_res (map_err InShare (read_hello (sx_codec X) bytes))) (\<lambda>hello.
         case fmlookup runtimes (hl_share_id hello) of
           None \<Rightarrow> send_reply frames (ReplyError UnknownShare)
         | Some (V, A) \<Rightarrow>
             and_do (answer_hello X peer hello) (\<lambda>reply.
             if reply = Accepted then with_tracked peer (serve_session n X (V\<lparr>rv_peer := frames\<rparr>) A (hl_share_id hello) peer)
             else send_reply frames reply))
     | _ \<Rightarrow> fail ConnectionLost)"

section \<open>Loading an owned share\<close>

text \<open>
  \<open>load_config_with_lease\<close> and \<open>OwnedRuntime::new\<close> once the roots are leased: a share that was ready
  before must still have its databases and its causal state.
\<close>

definition load_runtime :: "share_service \<Rightarrow> replica_env \<Rightarrow> share_session \<Rightarrow> unit rprog" where
  "load_runtime X V A = (let share = oc_share_id (ss_config A); state_root = sv_state_root (rv_store V) in
     and_do (read_share (\<lambda>sh. is_ready (sx_registry X) (sh_catalog sh) share)) (\<lambda>ready.
     and_do (on_store (query (\<lambda>fs. Inr (\<not> ready \<or>
        fs_is_file fs (state_root @ [''index.redb'']) \<and> fs_is_file fs (state_root @ [''metadata.redb'']))))) (\<lambda>present.
     and_do (require present (InShare StateUnavailable)) (\<lambda>_.
     and_do (index_read (\<lambda>st. Inr (ix_share_metadata st))) (\<lambda>metadata.
     and_do (require (\<not> ready \<or> metadata \<noteq> None) (InShare StateUnavailable)) (\<lambda>_.
     and_do (on_store (recover_path_changes (rv_store V) (rv_root V))) (\<lambda>_.
     and_do (recover_session V A) (\<lambda>_.
     and_do (session_refresh V A) (\<lambda>_.
     and_do (scan_index V) (\<lambda>report.
     and_do (ensure_index_report_safe report) (\<lambda>_.
     and_do (session_refresh V A) (\<lambda>_.
       visit_share (\<lambda>sh. mark_ready (sx_registry X) share (sh_catalog sh)))))))))))))) "

section \<open>The owner\<close>

text \<open>The invitation id and the bearer are drawn at random.\<close>

definition issue_key :: "share_service \<Rightarrow> share_session \<Rightarrow> secret_key \<Rightarrow> permission \<Rightarrow> u64 option \<Rightarrow> endpoint_addr \<Rightarrow>
    invitation_id \<times> hash32 \<Rightarrow> share_ticket rprog" where
  "issue_key X A key permission expires_at address drawn =
     and_do check_enabled (\<lambda>_.
     and_do (service_time X) (\<lambda>issued_at.
     and_do (lift_res (map_err InShare (ticket_issue (rg_share (sx_registry X)) key (oc_share_id (ss_config A)) (oc_name (ss_config A))
               permission expires_at address issued_at (fst drawn) (snd drawn)))) (\<lambda>ticket.
     and_do (service_time X) (\<lambda>now.
     and_do (visit_share (\<lambda>sh. reg_issue (sx_registry X) now ticket (sh_catalog sh))) (\<lambda>_. ret ticket)))))"

definition owner_keys :: "share_service \<Rightarrow> share_session \<Rightarrow> invitation list rprog" where
  "owner_keys X A = read_share (\<lambda>sh. invitations (sx_registry X) (sh_catalog sh) (oc_share_id (ss_config A)))"

definition owner_revoke_key :: "share_service \<Rightarrow> share_session \<Rightarrow> invitation_id \<Rightarrow> unit rprog" where
  "owner_revoke_key X A ident =
     and_do (service_time X) (\<lambda>now.
       visit_share (\<lambda>sh. revoke_key (sx_registry X) now (oc_share_id (ss_config A)) ident (sh_catalog sh)))"

definition rotate_key :: "share_service \<Rightarrow> share_session \<Rightarrow> secret_key \<Rightarrow> invitation_id \<Rightarrow> u64 option \<Rightarrow> endpoint_addr \<Rightarrow>
    invitation_id \<times> hash32 \<Rightarrow> share_ticket rprog" where
  "rotate_key X A key ident expires_at address drawn =
     and_do (owner_keys X A) (\<lambda>keys.
     and_do (lift_res (ok_or (find (\<lambda>k. iv_id k = ident) keys) (InShare InvalidTicket))) (\<lambda>old.
     and_do (owner_revoke_key X A ident) (\<lambda>_.
       issue_key X A key (iv_permission old) expires_at address drawn)))"

definition owner_members :: "share_service \<Rightarrow> share_session \<Rightarrow> membership list rprog" where
  "owner_members X A = read_share (\<lambda>sh. members (sx_registry X) (sh_catalog sh) (oc_share_id (ss_config A)))"

definition provenance :: "share_session \<Rightarrow> mutation_provenance list rprog" where
  "provenance A =
     and_do (stored_state A) (\<lambda>stored.
     and_do (lift_res (map_err InShare (causal_state_of (ss_config A) stored))) (\<lambda>state. ret (cs_audit state)))"

section \<open>The member\<close>

definition exchange :: "share_service \<Rightarrow> wire_peer \<Rightarrow> hello \<Rightarrow> share_reply rprog" where
  "exchange X frames hello =
     and_do (on_wire (write_frame frames (HelloBytes (hc_bytes (sx_codec X) hello)))) (\<lambda>_.
     and_do (on_wire (Net_Wire.read_frame frames)) (\<lambda>f. case f of
       ShareReply reply \<Rightarrow> (case reply of ReplyError e \<Rightarrow> fail (InShare e) | _ \<Rightarrow> ret reply)
     | _ \<Rightarrow> fail (Rejected ''frame does not decode'')))"

definition open_share_session :: "share_service \<Rightarrow> wire_peer \<Rightarrow> share_id \<Rightarrow> unit rprog" where
  "open_share_session X frames share =
     and_do (exchange X frames \<lparr>hl_version = 3, hl_share_id = share, hl_operation = OpSession\<rparr>) (\<lambda>reply.
       require (reply = Accepted) (InShare Protocol))"

definition connect_ticket :: "share_service \<Rightarrow> share_ticket \<Rightarrow> unit rprog" where
  "connect_ticket X ticket =
     and_do (require (tb_owner (st_body ticket) \<noteq> sx_endpoint X) (InShare OwnerMismatch)) (\<lambda>_. on_wire open_connection)"

definition verify_ticket :: "share_service \<Rightarrow> share_ticket \<Rightarrow> unit rprog" where
  "verify_ticket X ticket =
     and_do (service_time X) (\<lambda>now. lift_res (map_err InShare (verify_at (rg_share (sx_registry X)) ticket now)))"

definition validate_ticket :: "share_service \<Rightarrow> wire_peer \<Rightarrow> share_ticket \<Rightarrow> ticket_preview rprog" where
  "validate_ticket X frames ticket =
     and_do (verify_ticket X ticket) (\<lambda>_.
     and_do (connect_ticket X ticket) (\<lambda>_.
     and_do (exchange X frames \<lparr>hl_version = 3, hl_share_id = tb_share_id (st_body ticket), hl_operation = OpValidate ticket\<rparr>) (\<lambda>reply.
       case reply of
         Validated preview \<Rightarrow>
           and_do (require (preview = ticket_preview_of ticket) (InShare InvalidTicket)) (\<lambda>_. ret preview)
       | _ \<Rightarrow> fail (InShare Protocol))))"

definition enroll_with :: "share_service \<Rightarrow> wire_peer \<Rightarrow> share_ticket \<Rightarrow> legacy_proof option \<Rightarrow> membership rprog" where
  "enroll_with X frames ticket lp =
     and_do (verify_ticket X ticket) (\<lambda>_.
     and_do (connect_ticket X ticket) (\<lambda>_.
     and_do (exchange X frames \<lparr>hl_version = 3, hl_share_id = tb_share_id (st_body ticket), hl_operation = OpEnroll ticket lp\<rparr>) (\<lambda>reply.
       case reply of
         Enrolled member \<Rightarrow>
           and_do (require (mb_owner member = tb_owner (st_body ticket) \<and> mb_share_id member = tb_share_id (st_body ticket) \<and>
                     mb_endpoint member = sx_endpoint X) (InShare OwnerMismatch)) (\<lambda>_.
           and_do (visit_share (\<lambda>sh. store_relationship (sx_registry X)
                     \<lparr>rl_membership = member, rl_address = tb_address (st_body ticket)\<rparr> (sh_catalog sh))) (\<lambda>_. ret member))
       | _ \<Rightarrow> fail (InShare Protocol))))"

text \<open>The session carries the membership and the address it connects to.\<close>

definition open_session :: "share_service \<Rightarrow> endpoint_id \<Rightarrow> share_id \<Rightarrow> member_relationship rprog" where
  "open_session X owner share =
     and_do (read_share (\<lambda>sh. relationship (sx_registry X) (sh_catalog sh) owner share)) (\<lambda>rel.
     and_do (require (mb_owner (rl_membership rel) = owner \<and> ea_id (rl_address rel) = owner \<and> owner \<noteq> sx_endpoint X)
               (InShare OwnerMismatch)) (\<lambda>_. ret rel))"

end
