(* ===== verification/Transfer_Calls.thy ===== *)
theory Transfer_Calls
  imports Replica_Calls Chunk_Calls Share_Service
begin

text \<open>
  The interface between a replica and its store for everything that stores chunks: the write pipeline, receiving
  and pulling chunks, staging content, every handler of the server and the complete rounds of the client. A
  relation between the states of the store's world that the calls of the journal and of the chunk store keep is
  kept by all of them, whatever the outcome, the peer, the index, the registry and the scheduler.
\<close>

definition on_transfer :: "(world \<Rightarrow> world \<Rightarrow> bool) \<Rightarrow> write_pipeline \<times> replica \<Rightarrow> write_pipeline \<times> replica \<Rightarrow> bool" where
  "on_transfer R t t' \<longleftrightarrow> on_world R (snd t) (snd t')"

lemma keeps_choice: "keeps R p \<Longrightarrow> keeps R q \<Longrightarrow> keeps R (\<lambda>s. if b s then p s else q s)"
  by (simp add: keeps_def)

lemma keeps_on_replica_world: "keeps (on_world R) p \<Longrightarrow> keeps (on_transfer R) (on_replica p)"
  unfolding keeps_def on_transfer_def on_replica_def by (auto split: prod.split) (metis snd_conv)

lemma make_room_progress:
  assumes "progress Q"
  shows "keeps Q (flush_pending V) \<Longrightarrow> keeps Q (join_oldest V) \<Longrightarrow> keeps Q (make_room V len)"
proof (unfold keeps_def [of Q "make_room V len"], rule allI)
  fix t assume "keeps Q (flush_pending V)" "keeps Q (join_oldest V)"
  then show "Q t (snd (make_room V len t))"
  proof (induction V len t rule: make_room.induct)
    case (1 V len t)
    have "Q t (snd (flush_pending V t))" "Q t (snd (join_oldest V t))" using 1(3,4) by (auto dest: keepsD)
    with 1 show ?case
      by (subst make_room.simps)
        (auto simp: progress.R_refl [OF assms] split: prod.splits outcome.splits intro: progress.R_trans [OF assms])
  qed
qed

locale transfer_calls = replica_calls R V + chunk_calls R "rv_store V" for R :: "world \<Rightarrow> world \<Rightarrow> bool" and V :: replica_env

sublocale transfer_calls \<subseteq> moved: progress "on_transfer R"
proof
  show "on_transfer R s s" for s by (simp add: on_transfer_def lifted.R_refl)
  show "on_transfer R s t \<Longrightarrow> on_transfer R t u \<Longrightarrow> on_transfer R s u" for s t u
    by (auto simp: on_transfer_def intro: lifted.R_trans)
qed

context transfer_calls
begin

lemmas [keeps_intros] = moved.keeps_constructs keeps_on_replica_world keeps_choice

section \<open>The write pipeline\<close>

lemma keeps_on_pipeline [keeps_intros]: "keeps (on_transfer R) (on_pipeline f)"
  by (auto simp: keeps_def on_pipeline_def on_transfer_def lifted.R_refl split: prod.split)

lemma keeps_write_task [keeps_intros]: "keeps (on_world R) (write_task V authorization batch)"
  unfolding write_task_def by (intro keeps_intros)

lemma keeps_tasks [keeps_intros]:
  "keeps (on_world R) (start_task V authorization batch)" "keeps (on_world R) (await_task V authorization w)"
  unfolding start_task_def [abs_def] await_task_def task_result_def by (intro keeps_intros)+

lemma keeps_drain [keeps_intros]: "keeps (on_world R) (drain_chunk_tasks V authorization ws)"
  by (induction ws) (auto intro!: keeps_intros)

lemma keeps_join_oldest [keeps_intros]: "keeps (on_transfer R) (join_oldest V)"
proof -
  have "keeps (on_transfer R) (and_do (on_pipeline (\<lambda>q. (hd (wq_inflight q), q\<lparr>wq_inflight := tl (wq_inflight q)\<rparr>))) (\<lambda>w.
     and_do (on_replica (await_task V a w)) (\<lambda>r. case r of
         Inr _ \<Rightarrow> ret ()
       | Inl e \<Rightarrow> and_do (on_pipeline take_inflight) (\<lambda>rest. and_do (on_replica (drain_chunk_tasks V a rest)) (\<lambda>_. fail e)))))" for a
    by (intro keeps_intros)
  then show ?thesis unfolding keeps_def join_oldest_def by blast
qed

lemma keeps_flush_pending [keeps_intros]: "keeps (on_transfer R) (flush_pending V)"
  unfolding flush_pending_def start_pending_def by (intro keeps_intros)

lemma keeps_make_room [keeps_intros]: "keeps (on_transfer R) (make_room V len)"
  by (rule make_room_progress [OF moved.progress_axioms]) (intro keeps_intros)+

lemma keeps_pipeline [keeps_intros]: "keeps (on_transfer R) (pipeline_push V chunk)" "keeps (on_transfer R) (pipeline_finish V)"
  unfolding pipeline_push_def pipeline_finish_def by (intro keeps_intros)+

lemma keeps_with_pipeline [keeps_intros]:
  assumes "keeps (on_transfer R) p"
  shows "keeps (on_world R) (with_pipeline V admission authorization p)"
proof -
  have "keeps (on_transfer R) (and_do (catch (and_do p (\<lambda>x. ret (Inr x))) (\<lambda>e. ret (Inl e))) (finish_after V))"
    unfolding finish_after_def [abs_def] by (intro keeps_intros assms)
  then show ?thesis
    unfolding keeps_def with_pipeline_def on_transfer_def by (auto split: prod.split) (metis snd_conv)
qed

section \<open>Receiving, pulling and staging\<close>

lemma keeps_receive [keeps_intros]:
  "keeps (on_transfer R) (receive_header V)" "keeps (on_transfer R) (receive_payload V header)"
  "keeps (on_transfer R) (validated V descriptor bytes)"
  unfolding receive_header_def receive_payload_def validated_def by (intro keeps_intros)+

lemma keeps_loops [keeps_intros]:
  "keeps (on_transfer R) (receive_loop V manifest missing transferred)"
  "keeps (on_transfer R) (pull_loop V manifest missing transferred)"
  by (induction missing arbitrary: transferred) (auto intro!: keeps_intros)

lemma keeps_receive_chunks [keeps_intros]: "keeps (on_world R) (receive_chunks V manifest missing admission authorization)"
  unfolding receive_chunks_def by (intro keeps_intros)

lemma keeps_request_manifest [keeps_intros]: "keeps (on_world R) (request_manifest V r)"
  unfolding request_manifest_def client_defs by (intro keeps_intros)

lemma keeps_pull [keeps_intros]:
  "keeps (on_world R) (pull_manifest V r)" "keeps (on_world R) (pull_record_to_with_budget V r root free pending_bytes)"
  unfolding pull_manifest_def pull_record_to_with_budget_def client_defs by (intro keeps_intros)+

lemma keeps_stage [keeps_intros]:
  "keeps (on_world R) (stage_local V G pending_bytes hash source)" "keeps (on_world R) (stage_remote V G pending_bytes hash source)"
  unfolding stage_local_def stage_remote_def by (intro keeps_intros)+

lemma keeps_stage_hashes [keeps_intros]:
  "keeps (on_world R) (stage_hashes V G local remote pending_bytes hashes manifests stats)"
  by (induction hashes arbitrary: manifests stats) (auto intro!: keeps_intros)

lemma keeps_stage_desired_files [keeps_intros]:
  "keeps (on_world R) (stage_desired_files V G desired local remote pending_bytes)"
  unfolding stage_desired_files_def required_hashes_def content_hash_of_def by (intro keeps_intros)

section \<open>The server\<close>

lemma keeps_handle_push_record [keeps_intros]: "keeps (on_world R) (handle_push_record V H r manifest)"
  unfolding handle_push_record_def by (intro keeps_intros)

lemma keeps_handle_request [keeps_intros]:
  "keeps (on_world R) (handle_request n V H request)" "keeps (on_world R) (serve_connection n V H)"
  unfolding serve_connection_def handle_request_def [abs_def] by (intro keeps_intros)+

section \<open>The share service\<close>

lemma keeps_serve_operation [keeps_intros]:
  "keeps (on_world R) (serve_share_request n V H request)" "keeps (on_world R) (serve_operation n V A)"
  unfolding serve_operation_def serve_share_request_def [abs_def] by (intro keeps_intros)+

lemma keeps_share_calls [keeps_intros]:
  "keeps (on_world R) check_enabled" "keeps (on_world R) (authorize_peer X share peer)" "keeps (on_world R) (send_reply frames reply)"
  "keeps (on_world R) (service_time X)"
  unfolding check_enabled_def authorize_peer_def read_share_def send_reply_def service_time_def by (intro keeps_intros)+

lemma keeps_serve_session [keeps_intros]: "keeps (on_world R) (serve_session n X V A share peer)"
  unfolding serve_session_def by (intro keeps_intros)

lemma keeps_with_tracked [keeps_intros]:
  assumes "keeps (on_world R) p"
  shows "keeps (on_world R) (with_tracked peer p)"
proof (unfold keeps_def, rule allI)
  fix s :: replica
  obtain c sh where "track peer (rp_share s) = (c, sh)" by fastforce
  moreover have "on_world R (s\<lparr>rp_share := sh\<rparr>) (snd (p (s\<lparr>rp_share := sh\<rparr>)))" using assms by (rule keepsD)
  ultimately show "on_world R s (snd (with_tracked peer p s))"
    by (auto simp: with_tracked_def on_world_def split: prod.split outcome.split)
qed

lemma keeps_load_runtime [keeps_intros]: "keeps (on_world R) (load_runtime X V A)"
  unfolding load_runtime_def read_share_def index_defs by (intro keeps_intros)

section \<open>Rounds\<close>

lemma keeps_sync_with_session [keeps_intros]: "keeps (on_world R) (sync_with_session V G records tree)"
  unfolding sync_with_session_def reconcile_result_def actions_for_def pending_file_bytes_def index_defs by (intro keeps_intros)

lemma keeps_sync_once [keeps_intros]: "keeps (on_world R) (sync_once V G)"
  unfolding sync_once_def reconcile_result_def index_defs by (intro keeps_intros)

lemma keeps_plan_changes [keeps_intros]: "keeps (on_world R) (plan_changes V current remote)"
proof -
  have "keeps (on_world R) (removals V remote rs changes)" for rs changes
    by (induction rs arbitrary: changes) (auto simp: read_local_def read_observation_def call_defs intro!: keeps_intros)
  moreover have "keeps (on_world R) (installations V current rs changes)" for rs changes
    by (induction rs arbitrary: changes) (auto simp: read_local_def read_observation_def call_defs intro!: keeps_intros)
  ultimately show ?thesis unfolding plan_changes_def by (intro keeps_intros)
qed

lemma keeps_preserved [keeps_intros]: "keeps (on_world R) (preserved V)"
  unfolding preserved_def preserved_artifacts_def call_defs by (intro keeps_intros)

lemma keeps_verified_tree [keeps_intros]: "keeps (on_world R) (verified_tree V)"
  unfolding verified_tree_def reconcile_result_def index_defs by (intro keeps_intros)

lemma keeps_read_only [keeps_intros]:
  "keeps (on_world R) (load K)" "keeps (on_world R) (read_only_initialize K member)"
  unfolding load_def read_only_initialize_def index_defs by (intro keeps_intros)+

lemma keeps_read_only_sync [keeps_intros]: "keeps (on_world R) (read_only_sync V G K)"
  unfolding read_only_sync_def reconcile_result_def pending_ro_bytes_def index_defs by (intro keeps_intros)

end

end
