(* ===== verification/Sync_Safety.thy ===== *)
theory Sync_Safety
  imports Transfer_Calls Store_Safety Index_Props
begin

text \<open>
  Safety of a replica as a whole: whatever the peer sends and wherever a round is interrupted, no local object is
  destroyed but for files of the chunk store. The requests a replica serves and the rounds it makes are run in
  any order, and the relations that the store keeps are interpreted for them.
\<close>

section \<open>Requests\<close>

text \<open>
  Everything a replica does: recovery, the handlers of the server and the share service, pulling a record, and
  the rounds of the client, each as a whole and in the steps that apply a merge or an authoritative snapshot.
\<close>

datatype replica_request =
    RecoverIndex
  | RecoverShare share_session
  | LoadShare share_service share_session
  | AnswerQueries nat sync_handler sync_wire_request
  | AnswerPull sync_handler sync_record
  | AnswerMetadata sync_handler sync_record
  | InstallPush sync_handler sync_record file_manifest disk_admission
  | ApplyMerge sync_engine merkle_tree "apply_action list" "(hash32, file_manifest) fmap"
  | PushMerge sync_engine "apply_action list"
  | VerifyMerge merkle_tree
  | ApplySnapshot sync_engine read_only_codec remote_snapshot changes "(hash32, file_manifest) fmap" read_only_state
  | ResumeSnapshot pending
  | FinishSnapshot
  | AnswerPush sync_handler sync_record file_manifest
  | ServeConnection nat sync_handler
  | ServeShare nat share_service share_session share_id endpoint_id
  | FetchRecord sync_record fs_path u64 u64
  | StageFiles sync_engine "sync_record list" "sync_record list" "sync_record list" u64
  | SyncRound sync_engine
  | SnapshotRound sync_engine read_only_codec

fun receives_chunks :: "replica_request \<Rightarrow> bool" where
  "receives_chunks (AnswerPush H r manifest) = True"
| "receives_chunks (ServeConnection n H) = True"
| "receives_chunks (ServeShare n X A share peer) = True"
| "receives_chunks (FetchRecord r root free pending_bytes) = True"
| "receives_chunks (StageFiles G desired local remote pending_bytes) = True"
| "receives_chunks (SyncRound G) = True"
| "receives_chunks (SnapshotRound G K) = True"
| "receives_chunks _ = False"

definition discard_result :: "'a rprog \<Rightarrow> unit rprog" where
  "discard_result p = and_do p (\<lambda>_. ret ())"

fun replica_program :: "replica_env \<Rightarrow> replica_request \<Rightarrow> unit rprog" where
  "replica_program V RecoverIndex = recover_causal_index V"
| "replica_program V (RecoverShare A) = recover_session V A"
| "replica_program V (LoadShare X A) = load_runtime X V A"
| "replica_program V (AnswerQueries n H request) = handle_query_session n V H request"
| "replica_program V (AnswerPull H r) = handle_pull V H r"
| "replica_program V (AnswerMetadata H r) = handle_metadata V H r"
| "replica_program V (InstallPush H r manifest admission) = apply_received V H r manifest admission"
| "replica_program V (ApplyMerge G tree actions manifests) = apply_local V G tree actions manifests"
| "replica_program V (PushMerge G actions) = discard_result (apply_remote V G actions)"
| "replica_program V (VerifyMerge tree) = discard_result (verify_convergence V tree)"
| "replica_program V (ApplySnapshot G K remote changes manifests state) =
     discard_result (apply_authoritative V G K remote changes manifests state)"
| "replica_program V (ResumeSnapshot p) = resume_attempts V p"
| "replica_program V FinishSnapshot = finish_changes V"
| "replica_program V (AnswerPush H r manifest) = handle_push_record V H r manifest"
| "replica_program V (ServeConnection n H) = serve_connection n V H"
| "replica_program V (ServeShare n X A share peer) = with_tracked peer (serve_session n X V A share peer)"
| "replica_program V (FetchRecord r root free pending_bytes) = discard_result (pull_record_to_with_budget V r root free pending_bytes)"
| "replica_program V (StageFiles G desired local remote pending_bytes) =
     discard_result (stage_desired_files V G desired local remote pending_bytes)"
| "replica_program V (SyncRound G) = discard_result (sync_once V G)"
| "replica_program V (SnapshotRound G K) = discard_result (read_only_sync V G K)"

text \<open>A request that failed or was interrupted leaves its state behind; the next one starts without an open file.\<close>

definition close_draft :: "replica \<Rightarrow> replica" where
  "close_draft s = s\<lparr>rp_world := (rp_world s)\<lparr>w_draft := None\<rparr>\<rparr>"

definition run_request :: "replica_env \<Rightarrow> replica_request \<Rightarrow> replica \<Rightarrow> replica" where
  "run_request V request s = snd (replica_program V request (close_draft s))"

definition run_requests :: "replica_env \<Rightarrow> replica_request list \<Rightarrow> replica \<Rightarrow> replica" where
  "run_requests V requests s = fold (run_request V) requests s"

section \<open>What every sequence of requests keeps\<close>

locale replica_requests = replica_calls R V + journal_requests R "rv_store V" for R :: "world \<Rightarrow> world \<Rightarrow> bool" and V :: replica_env
begin

lemma keeps_program: "\<not> receives_chunks request \<Longrightarrow> keeps (on_world R) (replica_program V request)"
  by (cases request) (auto simp: discard_result_def load_runtime_def read_share_def index_read_def intro!: keeps_intros)

lemma R_run_request: "keeps (on_world R) (replica_program V request) \<Longrightarrow> on_world R s (run_request V request s)"
proof -
  assume "keeps (on_world R) (replica_program V request)"
  then have "on_world R (close_draft s) (run_request V request s)" unfolding run_request_def by (rule keepsD)
  moreover have "R (rp_world s) (rp_world (close_draft s))" by (simp add: close_draft_def R_close)
  ultimately show ?thesis by (auto simp: on_world_def intro: R_trans)
qed

lemma R_run_requests:
  assumes "\<And>r. r \<in> set requests \<Longrightarrow> keeps (on_world R) (replica_program V r)"
  shows "R (rp_world s) (rp_world (run_requests V requests s))"
proof -
  have "on_world R s (fold (run_request V) requests s)"
    using assms
  proof (induction requests arbitrary: s)
    case (Cons r rs)
    have "on_world R s (run_request V r s)" using Cons.prems by (intro R_run_request) simp
    moreover have "on_world R (run_request V r s) (fold (run_request V) rs (run_request V r s))" using Cons by simp
    ultimately show ?case by (auto intro: lifted.R_trans)
  qed (simp add: lifted.R_refl)
  then show ?thesis by (simp add: run_requests_def on_world_def)
qed

lemma R_run_quiet_requests: "\<not> list_ex receives_chunks requests \<Longrightarrow> R (rp_world s) (rp_world (run_requests V requests s))"
  by (rule R_run_requests) (auto simp: list_ex_iff intro: keeps_program)

end

locale transfer_requests = transfer_calls R V + replica_requests R V for R :: "world \<Rightarrow> world \<Rightarrow> bool" and V :: replica_env
begin

lemma keeps_every_program: "keeps (on_world R) (replica_program V request)"
  by (cases request) (auto simp: discard_result_def intro!: keeps_intros)

lemma R_run_every_request: "R (rp_world s) (rp_world (run_requests V requests s))"
  by (rule R_run_requests) (rule keeps_every_program)

end

interpretation replica_safe: transfer_requests "conserved (rv_store V)" V for V
  by unfold_locales

interpretation replica_quiet: transfer_requests undisturbed V for V
  by unfold_locales

interpretation replica_cleaned: transfer_requests "only_discards (store_discard (rv_store V))" V for V
  by unfold_locales

interpretation replica_logged: replica_requests "only_discards P" V for P V
  by unfold_locales

section \<open>Nothing is destroyed\<close>


text \<open>A replica over the small world; its peer deletes the only file, and the process dies on the way.\<close>

definition example_replica_env :: "wire_peer \<Rightarrow> replica_env" where
  "example_replica_env peer = \<lparr>rv_store = example_env, rv_index = example_li, rv_now_ms = (\<lambda>_. 0), rv_cdc = (\<lambda>_ _ _ _. []),
     rv_peer = peer, rv_available = (\<lambda>_ _. Inr 1000000), rv_eager = (\<lambda>_. False)\<rparr>"

definition example_replica :: "env_event list \<Rightarrow> replica" where
  "example_replica script = \<lparr>rp_world = example_world script, rp_index = empty_index, rp_log = [],
     rp_share = \<lparr>sh_catalog = \<lparr>ct_version = 1, ct_owner = hash_fill 1, ct_shares = fmempty, ct_relationships = fmempty\<rparr>, sh_enabled = True, sh_connections = fmempty, sh_next_connection = 1\<rparr>, rp_revisions = []\<rparr>"

definition silent_peer :: wire_peer where
  "silent_peer = \<lparr>wp_next = (\<lambda>_. None), wp_encoded = (\<lambda>_. 100)\<rparr>"


end
