(* ===== verification/Sync_Props.thy ===== *)
theory Sync_Props
  imports Sync_Safety Net_Snapshot_Props Merge_Props
begin

text \<open>
  What a finished round of bidirectional synchronisation has established: the index of the replica and the
  snapshot that the peer served last are both the merge of the two snapshots the round started from, and that
  merge lost no live file.
\<close>

section \<open>Finished programs\<close>

lemma lift_res_Done: "lift_res r s = (Done y, s') \<longleftrightarrow> r = Inr y \<and> s' = s"
  by (auto simp: lift_res_def ret_def fail_def split: sum.split)

lemma require_Done: "require b e s = (Done y, s') \<longleftrightarrow> b \<and> s' = s"
  by (auto simp: require_def ret_def fail_def)

lemma ret_Done: "ret x s = (Done y, s') \<longleftrightarrow> y = x \<and> s' = s"
  by (auto simp: ret_def)

lemmas finished = and_do_Done lift_res_Done require_Done ret_Done map_err_Inr_iff

section \<open>Snapshots of a replica\<close>

lemma sync_records_paths:
  assumes "sync_records I st = Inr rs"
  shows "\<forall>r \<in> set rs. path_ok (sr_path r)"
  using assms by (fastforce simp: sync_records_def records_map_def and_then_Inr_iff ensure_def list_all_iff path_decodes_iff to_sync_record_def
      split: if_splits)

lemma read_records_Done: "read_records V s = (Done rs, s') \<Longrightarrow> sync_records (rv_index V) (rp_index s') = Inr rs \<and> rp_index s' = rp_index s"
  by (auto simp: read_records_def index_read_def on_index_def and_do_Done on_store_def and_then_Inr_iff
      split: prod.splits outcome.splits sum.splits)

lemma verified_tree_Done:
  assumes "verified_tree V s = (Done t, s')"
  obtains rs where "sync_records (rv_index V) (rp_index s') = Inr rs" "from_records (rv_externs V) rs = Inr t" "tree_wf (rv_externs V) t"
  using assms from_records_wf sync_records_paths
  by (fastforce simp: verified_tree_def finished reconcile_result_def dest!: read_records_Done)

lemma session_fetch_Done:
  assumes "session_fetch_snapshot V local s = (Done snap, s')"
  shows "fetch_snapshot (rv_externs V) (rv_peer V) local (rp_log s) = (Done snap, rp_log s') \<and> rp_index s' = rp_index s"
  using assms by (auto simp: session_fetch_snapshot_def on_wire_def split: prod.splits)

lemma verify_convergence_Done:
  assumes "verify_convergence V desired s = (Done (t, snap), s')"
  obtains rs log where "sync_records (rv_index V) (rp_index s') = Inr rs" "from_records (rv_externs V) rs = Inr t" "tree_wf (rv_externs V) t"
    "root_hash t = root_hash desired" "mt_len t = mt_len desired" "rs_root_hash snap = root_hash desired"
    "fetch_snapshot (rv_externs V) (rv_peer V) t log = (Done snap, rp_log s')"
  using assms by (auto simp: verify_convergence_def finished elim!: verified_tree_Done dest!: session_fetch_Done)

section \<open>Convergence\<close>

text \<open>Every live file of the two snapshots survives in the records, unless its version was superseded.\<close>

definition content_kept :: "merkle_tree \<Rightarrow> merkle_tree \<Rightarrow> (wire_path, sync_record) fmap \<Rightarrow> bool" where
  "content_kept t u m \<longleftrightarrow> (\<forall>p x. (mt_get t p = Some x \<or> mt_get u p = Some x) \<and> is_live_file x \<longrightarrow>
     (\<exists>q k. fmlookup m q = Some k \<and> is_live_file k \<and> sr_content_hash k = sr_content_hash x) \<or>
     (\<exists>y. (mt_get t p = Some y \<or> mt_get u p = Some y) \<and> vv_relation (sr_version x) (sr_version y) = Before))"

lemma merge_content_kept:
  assumes "merge_snapshots E t u = Inr res" "result_tree E res = Inr v" "hex_crate_ok E" "tree_wf E t" "tree_wf E u" "no_collision E t u"
  shows "content_kept t u (mt_records v) \<and> tree_wf E v"
proof -
  obtain m where m: "mr_records res = map_values m" "merged_map E t u m"
    by (rule merge_snapshots_map [OF assms(1,3-6)])
  obtain v' where v: "result_tree E res = Inr v'" "mt_records v' = m" "tree_wf E v'"
    by (rule merged_map_tree [OF m(2) assms(4,5) m(1)])
  have "content_kept t u m"
    using merged_map_survives [OF m(2) assms(4,5)] unfolding content_kept_def is_live_file_def live_def by blast
  with v assms(2) show ?thesis by simp
qed

text \<open>
  What a round is accountable for: it started from the index after recovery and a clean scan and from the
  peer's snapshot; it ended with the index at the deterministic merge of the two; and the peer then served a
  snapshot of the same root.
\<close>

definition round_converged :: "replica_env \<Rightarrow> replica \<Rightarrow> sync_report \<Rightarrow> replica \<Rightarrow> merkle_tree \<Rightarrow> merkle_tree \<Rightarrow> merge_result \<Rightarrow>
    merkle_tree \<Rightarrow> merkle_tree \<Rightarrow> merkle_tree \<Rightarrow> bool" where
  "round_converged V s report s' local remote merged desired final peer_final \<longleftrightarrow> (let E = rv_externs V in
     (\<exists>s1 s2 scanned ls. recover_causal_index V s = (Done (), s1) \<and> scan_index V s1 = (Done scanned, s2) \<and>
        sync_records (rv_index V) (rp_index s2) = Inr ls \<and> from_records E ls = Inr local) \<and>
     (\<exists>snap log log'. fetch_snapshot E (rv_peer V) local log = (Done snap, log') \<and> from_records E (rs_records snap) = Inr remote) \<and>
     merge_snapshots E local remote = Inr merged \<and> result_tree E merged = Inr desired \<and>
     (\<exists>fs. sync_records (rv_index V) (rp_index s') = Inr fs \<and> from_records E fs = Inr final) \<and>
     (\<exists>snap log. fetch_snapshot E (rv_peer V) final log = (Done snap, rp_log s') \<and> from_records E (rs_records snap) = Inr peer_final) \<and>
     sy_local_before_root report = root_hash local \<and> sy_remote_before_root report = root_hash remote \<and>
     sy_desired_root report = root_hash desired \<and> sy_conflicts report = mr_conflicts merged \<and>
     root_hash final = root_hash desired \<and> sy_verified_local_root report = root_hash desired \<and>
     root_hash peer_final = root_hash desired \<and> sy_verified_remote_root report = root_hash desired)"

lemma sync_once_round:
  assumes run: "sync_once V G s = (Done report, s')"
  obtains local remote merged desired final peer_final where
    "round_converged V s report s' local remote merged desired final peer_final"
    "tree_wf (rv_externs V) local" "tree_wf (rv_externs V) remote" "tree_wf (rv_externs V) final" "tree_wf (rv_externs V) peer_final"
proof -
  let ?E = "rv_externs V"
  from run obtain s1 s2 s3 scanned ls local where start: "recover_causal_index V s = (Done (), s1)" "scan_index V s1 = (Done scanned, s2)"
    "read_records V s2 = (Done ls, s3)" "from_records ?E ls = Inr local" and rest: "sync_with_session V G ls local s3 = (Done report, s')"
    by (auto simp: sync_once_def ensure_scan_is_safe_def finished reconcile_result_def)
  from rest obtain snap s4 s5 remote merged desired s6 final final_snap where
    mid: "session_fetch_snapshot V local s3 = (Done snap, s4)" "from_records ?E (rs_records snap) = Inr remote"
      "merge_snapshots ?E local remote = Inr merged" "result_tree ?E merged = Inr desired"
      "verify_convergence V desired s6 = (Done (final, final_snap), s')"
    and report: "sy_local_before_root report = root_hash local" "sy_remote_before_root report = rs_root_hash snap"
      "sy_desired_root report = root_hash desired" "sy_conflicts report = mr_conflicts merged"
      "sy_verified_local_root report = root_hash final" "sy_verified_remote_root report = rs_root_hash final_snap"
    unfolding sync_with_session_def by (auto simp: finished reconcile_result_def split: prod.splits)
  from read_records_Done [OF start(3)] have ls: "sync_records (rv_index V) (rp_index s2) = Inr ls" by metis
  have wf: "tree_wf ?E local" using from_records_wf [OF start(4) sync_records_paths [OF ls]] .
  note fetch = session_fetch_Done [OF mid(1)]
  obtain t where t: "from_records ?E (rs_records snap) = Inr t" "tree_wf ?E t" "root_hash t = rs_root_hash snap"
    by (rule fetch_snapshot_tree [OF wf]) (use fetch in auto)
  obtain fs log where final: "sync_records (rv_index V) (rp_index s') = Inr fs" "from_records ?E fs = Inr final" "tree_wf ?E final"
    "root_hash final = root_hash desired" "rs_root_hash final_snap = root_hash desired"
    "fetch_snapshot ?E (rv_peer V) final log = (Done final_snap, rp_log s')"
    by (rule verify_convergence_Done [OF mid(5)]) auto
  obtain u where u: "from_records ?E (rs_records final_snap) = Inr u" "tree_wf ?E u" "root_hash u = rs_root_hash final_snap"
    by (rule fetch_snapshot_tree [OF final(3,6)]) auto
  have "round_converged V s report s' local remote merged desired final u"
    unfolding round_converged_def Let_def
    using start ls fetch mid(2-4) report final u(1,3) t(1,3) by auto
  then show ?thesis using that wf t mid(2) final(3) u(2) by auto
qed

text \<open>
  C8: a round of synchronisation that reports success has converged. It merged the index of the replica, after
  recovery and a clean scan, with a snapshot served by the peer; the records that the index holds when it returns,
  and the snapshot that the peer served last, have the root of that merge. As long as no two inputs met in these
  trees share a digest, both hold exactly the merged records, and every live file of the two original snapshots
  survives in them unless a causally later version superseded it.
\<close>

theorem sync_once_converges:
  assumes "sync_once V G s = (Done report, s')" and "hex_crate_ok (rv_externs V)"
  shows "\<exists>local remote merged desired final peer_final.
    round_converged V s report s' local remote merged desired final peer_final \<and>
    (no_collision (rv_externs V) local remote \<and> no_collision (rv_externs V) final desired \<and> no_collision (rv_externs V) peer_final desired \<longrightarrow>
       mt_records final = mt_records desired \<and> mt_records peer_final = mt_records desired \<and>
       content_kept local remote (mt_records final))"
proof -
  obtain local remote merged desired final peer_final where
    conv: "round_converged V s report s' local remote merged desired final peer_final"
    and wf: "tree_wf (rv_externs V) local" "tree_wf (rv_externs V) remote" "tree_wf (rv_externs V) final" "tree_wf (rv_externs V) peer_final"
    by (rule sync_once_round [OF assms(1)])
  then have merge: "merge_snapshots (rv_externs V) local remote = Inr merged" "result_tree (rv_externs V) merged = Inr desired"
    and roots: "root_hash final = root_hash desired" "root_hash peer_final = root_hash desired"
    by (simp_all add: round_converged_def Let_def)
  have "mt_records final = mt_records desired \<and> mt_records peer_final = mt_records desired \<and> content_kept local remote (mt_records final)"
    if nc: "no_collision (rv_externs V) local remote" "no_collision (rv_externs V) final desired" "no_collision (rv_externs V) peer_final desired"
  proof -
    have kept: "content_kept local remote (mt_records desired)" "tree_wf (rv_externs V) desired"
      using merge_content_kept [OF merge assms(2) wf(1,2) nc(1)] by auto
    with root_hash_eq_iff [OF nc(2) wf(3)] root_hash_eq_iff [OF nc(3) wf(4)] roots show ?thesis by simp
  qed
  with conv show ?thesis by blast
qed

section \<open>A quiet round\<close>

text \<open>A replica of an empty directory and a peer with an empty snapshot.\<close>

definition quiet_env :: replica_env where
  "quiet_env = (example_replica_env (tree_peer empty_tree))\<lparr>rv_store := example_env\<lparr>sv_externs := length_digest\<rparr>\<rparr>"

definition quiet_tree :: fs_node where
  "quiet_tree = DirNode (example_meta 1) (fmap_of_list
     [(''srv'', DirNode (example_meta 2) fmempty), (''state'', DirNode (example_meta 3) fmempty)])"

definition quiet_engine :: sync_engine where
  "quiet_engine = \<lparr>en_profile = DEFAULT_PROFILE, en_min_free_space_bytes = 0\<rparr>"

definition quiet_replica :: "u64 \<Rightarrow> wire_log \<Rightarrow> replica" where
  "quiet_replica generation log = (example_replica [])\<lparr>rp_world := (example_world [])\<lparr>w_fs := quiet_tree\<rparr>,
     rp_index := empty_index\<lparr>ix_generation := generation\<rparr>, rp_log := log\<rparr>"

lemma quiet_fields [simp]:
  "rv_externs quiet_env = length_digest" "rv_index quiet_env = example_li" "rv_peer quiet_env = tree_peer empty_tree"
  "rp_index (quiet_replica g log) = empty_index\<lparr>ix_generation := g\<rparr>" "rp_log (quiet_replica g log) = log"
  "w_fs (rp_world (quiet_replica g log)) = quiet_tree" "w_journal (rp_world (quiet_replica g log)) = fmempty"
  by (simp_all add: quiet_env_def quiet_replica_def example_replica_env_def example_world_def)

lemma quiet_update [simp]:
  "(quiet_replica g log)\<lparr>rp_world := rp_world (quiet_replica g log)\<rparr> = quiet_replica g log"
  "(quiet_replica g log)\<lparr>rp_index := empty_index\<lparr>ix_generation := h\<rparr>\<rparr> = quiet_replica h log"
  "(quiet_replica g log)\<lparr>rp_log := log'\<rparr> = quiet_replica g log'"
  "(quiet_replica g log)\<lparr>rp_index := \<lparr>ix_records = fmempty, ix_retries = fmempty, ix_generation = h, ix_replica_counter = 0,
     ix_share_metadata = None\<rparr>\<rparr> = quiet_replica h log"
  by (simp_all add: quiet_replica_def empty_index_def)

lemma quiet_tick [simp]: "tick (rp_world (quiet_replica g log)) = (Done (), rp_world (quiet_replica g log))"
  by (simp add: tick_def quiet_replica_def example_world_def)

lemma quiet_index: "on_index f (quiet_replica g log) = (case f (rp_world (quiet_replica g log)) (empty_index\<lparr>ix_generation := g\<rparr>) of
    Inl e \<Rightarrow> (Failed (InIndex e), quiet_replica g log) | Inr (st, x) \<Rightarrow> (Done x, (quiet_replica g log)\<lparr>rp_index := st\<rparr>))"
  by (simp add: on_index_def and_do_def on_store_def)

lemma quiet_recover: "recover_causal_index quiet_env (quiet_replica g log) = (Done (), quiet_replica g log)"
  by (simp add: recover_causal_index_def recover_causal_index_with_def recover_path_changes_def path_changes_def read_db_def and_do_def on_store_def ret_def)

lemma quiet_records: "read_records quiet_env (quiet_replica g log) = (Done [], quiet_replica g log)"
  by (simp add: read_records_def index_read_def quiet_index sync_records_def records_map_def empty_index_def and_then_def ensure_def)

lemma quiet_scan:
  assumes "checked_add g 1 = Some h"
  obtains report where "scan_index quiet_env (quiet_replica g log) = (Done report, quiet_replica h log)"
    "sp_collisions report = []" "sp_issues report = []" "sp_retries_queued report = 0"
proof -
  have "listing_at [''srv''] quiet_tree = Listing []"
    by (simp add: listing_at_def quiet_tree_def fs_metadata_def fs_canonicalize_def ok_or_def)
  with assms that show ?thesis
    by (simp add: scan_index_def query_def and_do_def on_store_def lift_res_def ret_def quiet_index scan_def scan_internal_def empty_index_def
      records_map_def retries_map_def example_li_def empty_traversal_def ignored_prefixes_def hash_files_def apply_scan_def ok_or_def
      collect_current_def correlate_renames_def commit_state_def commit_state_with_share_metadata_def next_retries_def
      live_values_def collision_groups_def Let_def)
qed

lemma empty_tree_facts:
  "mt_record_list empty_tree = []" "mt_len empty_tree = 0" "tree_wf length_digest empty_tree"
  "no_collision length_digest empty_tree empty_tree" "card (node_paths (mt_root empty_tree)) \<le> 1000000"
proof -
  have recs: "mt_records empty_tree = fmempty" by (simp add: empty_tree_def index_records_def)
  have root: "mt_root empty_tree = finalize length_digest node_default"
    by (simp add: empty_tree_def build_root_def index_records_def)
  show "mt_record_list empty_tree = []" "mt_len empty_tree = 0" using recs by (simp_all add: mt_record_list_def mt_len_def)
  show "tree_wf length_digest empty_tree" by (rule from_records_wf [OF example_trees(1)]) simp
  have "length (node_inputs (mt_root empty_tree)) = 1"
    by (simp add: root node_default_def finalize.simps Let_def)
  then obtain a where "node_inputs (mt_root empty_tree) = [a]" by (cases "node_inputs (mt_root empty_tree)") auto
  then show "no_collision length_digest empty_tree empty_tree"
    using recs by (auto simp: no_collision_def tree_records_def mt_get_def)
  have "node_paths (mt_root empty_tree) \<subseteq> {[]}"
    by (auto simp: node_paths_def root node_default_def finalize.simps Let_def elim: node_at.elims)
  then have "card (node_paths (mt_root empty_tree)) \<le> card {[] :: string list}" by (intro card_mono) simp_all
  then show "card (node_paths (mt_root empty_tree)) \<le> 1000000" by simp
qed

lemma quiet_fetch:
  obtains snap log' where "session_fetch_snapshot quiet_env empty_tree (quiet_replica g log) = (Done snap, quiet_replica g log')"
    "rs_records snap = []" "rs_root_hash snap = root_hash empty_tree" "rs_record_count snap = 0"
proof -
  obtain q log' where "fetch_snapshot length_digest (tree_peer empty_tree) empty_tree log = (Done \<lparr>rs_records = mt_record_list empty_tree,
      rs_root_hash = root_hash empty_tree, rs_record_count = record_count (mt_root empty_tree), rs_queried_nodes = q\<rparr>, log')"
    using fetch_from_honest [OF example_trees(1,1) _ empty_tree_facts(4,5) tree_peer_serves] by force
  moreover have "record_count (mt_root empty_tree) = 0"
    by (simp add: empty_tree_def build_root_def index_records_def node_default_def finalize.simps Let_def)
  ultimately show ?thesis using that by (simp add: session_fetch_snapshot_def on_wire_def empty_tree_facts)
qed

definition nothing_merged :: merge_result where
  "nothing_merged = \<lparr>mr_records = [], mr_conflicts = [], mr_stats = zero_stats\<lparr>equal_count := 0\<rparr>\<rparr>"

lemma nothing_fields: "mr_records nothing_merged = []" "mr_conflicts nothing_merged = []"
  by (simp_all add: nothing_merged_def)

lemma quiet_merge:
  "merge_snapshots length_digest empty_tree empty_tree = Inr nothing_merged"
  "actions_to_reach length_digest empty_tree nothing_merged = Inr (Some [])"
  "result_tree length_digest nothing_merged = Inr empty_tree"
proof -
  have "different_paths empty_tree empty_tree = Some []"
    using different_paths_eq [OF empty_tree_facts(4,3,3)] by simp
  then show "merge_snapshots length_digest empty_tree empty_tree = Inr nothing_merged"
    "actions_to_reach length_digest empty_tree nothing_merged = Inr (Some [])"
    "result_tree length_digest nothing_merged = Inr empty_tree"
    by (simp_all add: merge_snapshots_def actions_to_reach_def result_tree_def empty_tree_facts nothing_merged_def example_trees)
qed

lemma quiet_round:
  obtains report s' where "sync_once quiet_env quiet_engine (quiet_replica 0 []) = (Done report, s')"
proof -
  have steps: "checked_add 0 1 = Some (1 :: u64)" "checked_add 1 1 = Some (2 :: u64)" "checked_add 2 1 = Some (3 :: u64)"
    by (simp_all add: checked_add_def)
  note merge = quiet_merge(1) and acts = quiet_merge(2)
  obtain r1 where r1: "scan_index quiet_env (quiet_replica 0 []) = (Done r1, quiet_replica 1 [])"
    "sp_collisions r1 = []" "sp_issues r1 = []" "sp_retries_queued r1 = 0" by (rule quiet_scan [OF steps(1)])
  obtain snap log1 where f1: "session_fetch_snapshot quiet_env empty_tree (quiet_replica 1 []) = (Done snap, quiet_replica 1 log1)"
    "rs_records snap = []" "rs_root_hash snap = root_hash empty_tree" "rs_record_count snap = 0" by (rule quiet_fetch)
  obtain r2 where r2: "scan_index quiet_env (quiet_replica 1 log1) = (Done r2, quiet_replica 2 log1)"
    "sp_collisions r2 = []" "sp_issues r2 = []" "sp_retries_queued r2 = 0" by (rule quiet_scan [OF steps(2)])
  obtain r3 where r3: "scan_index quiet_env (quiet_replica 2 log1) = (Done r3, quiet_replica 3 log1)"
    "sp_collisions r3 = []" "sp_issues r3 = []" "sp_retries_queued r3 = 0" by (rule quiet_scan [OF steps(3)])
  obtain snap' log2 where f2: "session_fetch_snapshot quiet_env empty_tree (quiet_replica 3 log1) = (Done snap', quiet_replica 3 log2)"
    "rs_records snap' = []" "rs_root_hash snap' = root_hash empty_tree" "rs_record_count snap' = 0" by (rule quiet_fetch)
  have counter: "replica_counter (quiet_replica g log) = (Done 0, quiet_replica g log)" for g log
    by (simp add: replica_counter_def index_read_def quiet_index empty_index_def and_then_def)
  have applied: "apply_local quiet_env quiet_engine empty_tree [] fmempty (quiet_replica 1 log1) = (Done (), quiet_replica 2 log1)"
    by (simp add: apply_local_def and_do_def r2 ensure_scan_is_safe_def require_def ret_def quiet_records lift_res_def example_trees
        deletions_def directories_def regular_files_def action_records_def List.map_filter_def)
  have stage: "stage_desired_files quiet_env quiet_engine [] [] [] 0 (quiet_replica 1 log1) =
      (Done (fmempty, \<lparr>sg_local_files = 0, sg_remote_files = 0, sg_pulled_bytes = 0, sg_reused_extents = 0\<rparr>), quiet_replica 1 log1)"
    by (simp add: stage_desired_files_def required_hashes_def and_do_def ret_def)
  have verify: "verify_convergence quiet_env empty_tree (quiet_replica 2 log1) = (Done (empty_tree, snap'), quiet_replica 3 log2)"
    by (simp add: verify_convergence_def verified_tree_def and_do_def r3 ensure_scan_is_safe_def require_def ret_def quiet_records
        reconcile_result_def lift_res_def example_trees f2 empty_tree_facts)
  have "\<exists>report. sync_with_session quiet_env quiet_engine [] empty_tree (quiet_replica 1 []) = (Done report, quiet_replica 3 log2)"
    by (simp add: sync_with_session_def and_do_def f1 counter require_def ret_def reconcile_result_def lift_res_def example_trees merge quiet_merge(3)
        acts actions_for_def ok_or_def validate_materializable_namespace_def nothing_fields action_records_def List.map_filter_def
        pending_file_bytes_def stage applied apply_remote_def deletions_def directories_def regular_files_def verify)
  then show ?thesis using that
    by (auto simp: sync_once_def and_do_def quiet_recover r1 ensure_scan_is_safe_def require_def ret_def quiet_records
        reconcile_result_def lift_res_def example_trees)
qed

theorem sync_once_converges_witness:
  "\<exists>report s' local remote merged desired final peer_final.
     round_converged quiet_env (quiet_replica 0 []) report s' local remote merged desired final peer_final"
proof -
  obtain report s' where run: "sync_once quiet_env quiet_engine (quiet_replica 0 []) = (Done report, s')" by (rule quiet_round)
  from sync_once_converges [OF this] show ?thesis by (fastforce simp: length_digest_def ref_hex_ok)
qed

end
