(* ===== verification/Share_Drain.thy ===== *)
theory Share_Drain
  imports Share_Service Share_Props Op_Machine
begin

text \<open>
  Revoking a member and pausing a share while connections come and go (\<open>Handler::accept\<close>, the checks of
  \<open>Handler::run\<close>, \<open>OwnerShare::revoke_member\<close> and \<open>OwnedRuntime::pause\<close> of
  \<^verbatim>\<open>crates/deltaweave-net/src/share\<close>). The tasks of the process interleave at every await and at every lock:
  an event is one step of one task. A session registers its connection before its final authorization, and a
  revocation is persisted before it closes and drains the connections; the two orders together leave no gap.
\<close>

section \<open>Tasks\<close>

text \<open>
  How far a connection that asks for a session has come: each constructor names the last thing that was done.
  The number is that of its tracked connection.
\<close>

datatype session_phase =
    Arriving
  | SeenEnabled
  | Admitted
  | Registered nat
  | StillEnabled nat
  | Confirmed nat
  | Ready nat u64
  | Serving nat u64

datatype drain_phase = Denied | Closing | GatePassed | Drained

text \<open>\<open>ds_overtaken\<close> is a history that no step reads: the pauses that were called before some later resume.\<close>

record drain_state =
  ds_share :: share_state
  ds_sessions :: "(nat, endpoint_id \<times> session_phase) fmap"
  ds_closed :: "nat fset"
  ds_gate :: "nat option"
  ds_drains :: "(nat, endpoint_id option \<times> drain_phase) fmap"
  ds_overtaken :: "nat fset"

definition tracked_of :: "endpoint_id option \<Rightarrow> share_state \<Rightarrow> nat fset" where
  "tracked_of target sh = ffilter (\<lambda>c. case target of None \<Rightarrow> True | Some p \<Rightarrow> fmlookup (sh_connections sh) c = Some p)
     (fmdom (sh_connections sh))"

definition close_connections :: "endpoint_id option \<Rightarrow> drain_state \<Rightarrow> drain_state" where
  "close_connections target s = s\<lparr>ds_closed := ds_closed s |\<union>| tracked_of target (ds_share s)\<rparr>"

definition drained_connections :: "endpoint_id option \<Rightarrow> share_state \<Rightarrow> bool" where
  "drained_connections target sh \<longleftrightarrow> tracked_of target sh = {||}"

section \<open>One step of a session\<close>

text \<open>\<open>None\<close> ends the session; the guard then unregisters its connection.\<close>

fun advance :: "registry_env \<Rightarrow> share_id \<Rightarrow> endpoint_id \<Rightarrow> session_phase \<Rightarrow> share_state \<Rightarrow> share_state \<times> session_phase option" where
  "advance R share peer Arriving sh = (sh, if sh_enabled sh then Some SeenEnabled else None)"
| "advance R share peer SeenEnabled sh = (sh, case authorize R (sh_catalog sh) share peer False of Inr _ \<Rightarrow> Some Admitted | Inl _ \<Rightarrow> None)"
| "advance R share peer Admitted sh = (case track peer sh of (c, sh') \<Rightarrow> (sh', Some (Registered c)))"
| "advance R share peer (Registered c) sh = (if sh_enabled sh then (sh, Some (StillEnabled c)) else (untrack c sh, None))"
| "advance R share peer (StillEnabled c) sh = (case authorize R (sh_catalog sh) share peer False of
     Inr _ \<Rightarrow> (sh, Some (Confirmed c)) | Inl _ \<Rightarrow> (untrack c sh, None))"
| "advance R share peer (Confirmed c) sh = (case authorize R (sh_catalog sh) share peer False of
     Inr member \<Rightarrow> (sh, Some (Ready c (mb_epoch member))) | Inl _ \<Rightarrow> (untrack c sh, None))"
| "advance R share peer (Ready c epoch) sh = (untrack c sh, None)"
| "advance R share peer (Serving c epoch) sh = (untrack c sh, None)"

definition put_phase :: "nat \<Rightarrow> endpoint_id \<Rightarrow> session_phase option \<Rightarrow> drain_state \<Rightarrow> drain_state" where
  "put_phase i peer phase s = s\<lparr>ds_sessions := (case phase of None \<Rightarrow> fmdrop i (ds_sessions s)
     | Some ph \<Rightarrow> fmupd i (peer, ph) (ds_sessions s))\<rparr>"

section \<open>Events\<close>

datatype drain_event =
    Connect nat endpoint_id
  | Advance nat
  | Request nat
  | Effect nat
  | TakeGate nat
  | ReleaseGate nat
  | RegistryOp u64 reg_op
  | RevokePeer nat u64 endpoint_id
  | Pause nat
  | Resume
  | CloseConnections nat
  | PassGate nat
  | FinishDrain nat

definition set_catalog :: "catalog \<Rightarrow> drain_state \<Rightarrow> drain_state" where
  "set_catalog cat s = s\<lparr>ds_share := (ds_share s)\<lparr>sh_catalog := cat\<rparr>\<rparr>"

definition set_enabled :: "bool \<Rightarrow> drain_state \<Rightarrow> drain_state" where
  "set_enabled b s = s\<lparr>ds_share := (ds_share s)\<lparr>sh_enabled := b\<rparr>\<rparr>"

definition put_drain :: "nat \<Rightarrow> endpoint_id option \<times> drain_phase \<Rightarrow> drain_state \<Rightarrow> drain_state" where
  "put_drain d drain s = s\<lparr>ds_drains := fmupd d drain (ds_drains s)\<rparr>"

definition overtake :: "drain_state \<Rightarrow> drain_state" where
  "overtake s = s\<lparr>ds_overtaken := ds_overtaken s |\<union>| fmdom (ds_drains s)\<rparr>"

text \<open>
  At most 64 sessions run at once. A session takes the gate for every change of the share; a closed connection
  receives no further request, but what its session has begun continues. A resume only turns the switch: a
  pause that it overtakes closes and drains the connections all the same, and returns.
\<close>

fun drain_step :: "registry_env \<Rightarrow> share_id \<Rightarrow> drain_event \<Rightarrow> drain_state \<Rightarrow> drain_state option" where
  "drain_step R share (Connect i peer) s =
     (if fcard (fmdom (ds_sessions s)) < 64 \<and> fmlookup (ds_sessions s) i = None then Some (put_phase i peer (Some Arriving) s) else None)"
| "drain_step R share (Advance i) s = (case fmlookup (ds_sessions s) i of None \<Rightarrow> None
     | Some (peer, phase) \<Rightarrow>
         if ds_gate s = Some i then None
         else (case advance R share peer phase (ds_share s) of (sh, phase') \<Rightarrow> Some (put_phase i peer phase' (s\<lparr>ds_share := sh\<rparr>))))"
| "drain_step R share (Request i) s = (case fmlookup (ds_sessions s) i of
       Some (peer, Ready c epoch) \<Rightarrow> if c |\<in>| ds_closed s then None else Some (put_phase i peer (Some (Serving c epoch)) s)
     | _ \<Rightarrow> None)"
| "drain_step R share (Effect i) s = (case fmlookup (ds_sessions s) i of Some (peer, Serving c epoch) \<Rightarrow> Some s | _ \<Rightarrow> None)"
| "drain_step R share (TakeGate i) s = (case fmlookup (ds_sessions s) i of
       Some (peer, Serving c epoch) \<Rightarrow> if ds_gate s = None then Some (s\<lparr>ds_gate := Some i\<rparr>) else None
     | _ \<Rightarrow> None)"
| "drain_step R share (ReleaseGate i) s = (if ds_gate s = Some i then Some (s\<lparr>ds_gate := None\<rparr>) else None)"
| "drain_step R share (RegistryOp now op) s = map_option (\<lambda>cat. set_catalog cat s) (run_op R now op (sh_catalog (ds_share s)))"
| "drain_step R share (RevokePeer d now peer) s =
     (if fmlookup (ds_drains s) d = None then
        map_option (\<lambda>cat. put_drain d (Some peer, Denied) (set_catalog cat s)) (run_op R now (RevokeMember share peer) (sh_catalog (ds_share s)))
      else None)"
| "drain_step R share (Pause d) s =
     (if fmlookup (ds_drains s) d = None then Some (put_drain d (None, Denied) (set_enabled False s)) else None)"
| "drain_step R share Resume s = Some (set_enabled True (overtake s))"
| "drain_step R share (CloseConnections d) s = (case fmlookup (ds_drains s) d of
       Some (target, Denied) \<Rightarrow> Some (put_drain d (target, Closing) (close_connections target s))
     | _ \<Rightarrow> None)"
| "drain_step R share (PassGate d) s = (case fmlookup (ds_drains s) d of
       Some (target, Closing) \<Rightarrow> if ds_gate s = None then Some (put_drain d (target, GatePassed) s) else None
     | _ \<Rightarrow> None)"
| "drain_step R share (FinishDrain d) s = (case fmlookup (ds_drains s) d of
       Some (target, GatePassed) \<Rightarrow> if drained_connections target (ds_share s) then Some (put_drain d (target, Drained) s) else None
     | _ \<Rightarrow> None)"

text \<open>A share that was just loaded.\<close>

definition idle_share :: "catalog \<Rightarrow> drain_state" where
  "idle_share cat = \<lparr>ds_share = \<lparr>sh_catalog = cat, sh_enabled = True, sh_connections = fmempty, sh_next_connection = 1\<rparr>,
     ds_sessions = fmempty, ds_closed = {||}, ds_gate = None, ds_drains = fmempty, ds_overtaken = {||}\<rparr>"

section \<open>Invariant\<close>

fun slot :: "session_phase \<Rightarrow> nat option" where
  "slot (Registered c) = Some c" | "slot (StillEnabled c) = Some c" | "slot (Confirmed c) = Some c"
| "slot (Ready c _) = Some c" | "slot (Serving c _) = Some c" | "slot _ = None"

text \<open>Past the second look at the switch, and past the authorization that follows the registration.\<close>

fun past_switch :: "session_phase \<Rightarrow> bool" where
  "past_switch (StillEnabled c) = True" | "past_switch (Confirmed c) = True" | "past_switch (Ready c _) = True"
| "past_switch (Serving c _) = True" | "past_switch _ = False"

fun past_check :: "session_phase \<Rightarrow> bool" where
  "past_check (Confirmed c) = True" | "past_check (Ready c _) = True" | "past_check (Serving c _) = True" | "past_check _ = False"

lemma past_slot: "past_switch ph \<Longrightarrow> slot ph \<noteq> None" "past_check ph \<Longrightarrow> slot ph \<noteq> None"
  by (cases ph; simp)+

definition denied :: "share_id \<Rightarrow> endpoint_id option \<Rightarrow> share_state \<Rightarrow> bool" where
  "denied share target sh = (case target of None \<Rightarrow> \<not> sh_enabled sh
     | Some p \<Rightarrow> (\<exists>m. member_at (sh_catalog sh) share p = Some m \<and> mb_revoked_at m \<noteq> None))"

definition past :: "endpoint_id option \<Rightarrow> endpoint_id \<Rightarrow> session_phase \<Rightarrow> bool" where
  "past target peer ph = (case target of None \<Rightarrow> past_switch ph | Some p \<Rightarrow> peer = p \<and> past_check ph)"

definition tracked_inv :: "drain_state \<Rightarrow> bool" where
  "tracked_inv s \<longleftrightarrow>
     (\<forall>i p ph c. fmlookup (ds_sessions s) i = Some (p, ph) \<longrightarrow> slot ph = Some c \<longrightarrow> fmlookup (sh_connections (ds_share s)) c = Some p) \<and>
     (\<forall>i j p ph q qh c. fmlookup (ds_sessions s) i = Some (p, ph) \<longrightarrow> fmlookup (ds_sessions s) j = Some (q, qh) \<longrightarrow>
        slot ph = Some c \<longrightarrow> slot qh = Some c \<longrightarrow> i = j) \<and>
     (\<forall>c. c |\<in>| fmdom (sh_connections (ds_share s)) \<longrightarrow> c < sh_next_connection (ds_share s))"

text \<open>A revocation stands for ever, a pause until a resume.\<close>

definition stands :: "drain_state \<Rightarrow> nat \<Rightarrow> endpoint_id option \<Rightarrow> bool" where
  "stands s d target \<longleftrightarrow> target \<noteq> None \<or> d |\<notin>| ds_overtaken s"

definition drain_inv :: "share_id \<Rightarrow> drain_state \<Rightarrow> bool" where
  "drain_inv share s \<longleftrightarrow> tracked_inv s \<and>
     (\<forall>d target f. fmlookup (ds_drains s) d = Some (target, f) \<longrightarrow> stands s d target \<longrightarrow> denied share target (ds_share s)) \<and>
     (\<forall>d target. fmlookup (ds_drains s) d = Some (target, Drained) \<longrightarrow> stands s d target \<longrightarrow>
        (\<forall>i p ph. fmlookup (ds_sessions s) i = Some (p, ph) \<longrightarrow> \<not> past target p ph))"

lemma drain_invD:
  assumes "drain_inv share s"
  shows "tracked_inv s" "fmlookup (ds_drains s) d = Some (target, f) \<Longrightarrow> stands s d target \<Longrightarrow> denied share target (ds_share s)"
    "fmlookup (ds_drains s) d = Some (target, Drained) \<Longrightarrow> stands s d target \<Longrightarrow> fmlookup (ds_sessions s) i = Some (p, ph) \<Longrightarrow> \<not> past target p ph"
  using assms unfolding drain_inv_def by blast+

lemma tracked_invD:
  assumes "tracked_inv s" "fmlookup (ds_sessions s) i = Some (p, ph)" "slot ph = Some c"
  shows "fmlookup (sh_connections (ds_share s)) c = Some p" "c < sh_next_connection (ds_share s)"
    "fmlookup (ds_sessions s) j = Some (q, qh) \<Longrightarrow> slot qh = Some c \<Longrightarrow> j = i"
  using assms unfolding tracked_inv_def by (blast, metis fmdomI, blast)

lemma denied_authorize: "denied share (Some p) sh \<Longrightarrow> authorize R (sh_catalog sh) share p b = Inr m \<Longrightarrow> False"
  by (auto simp: denied_def authorize_Inr member_at_def bind_eq_Some_conv)

section \<open>Sessions keep the invariant\<close>

lemma share_fields [simp]:
  "sh_catalog (untrack c sh) = sh_catalog sh" "sh_enabled (untrack c sh) = sh_enabled sh"
  "sh_catalog (snd (track p sh)) = sh_catalog sh" "sh_enabled (snd (track p sh)) = sh_enabled sh"
  by (simp_all add: untrack_def track_def)

lemma advance_same:
  "sh_catalog (fst (advance R share peer ph sh)) = sh_catalog sh \<and> sh_enabled (fst (advance R share peer ph sh)) = sh_enabled sh"
  by (cases ph) (auto simp: track_def split: sum.split)

lemma denied_same: "sh_catalog sh' = sh_catalog sh \<Longrightarrow> sh_enabled sh' = sh_enabled sh \<Longrightarrow> denied share target sh' = denied share target sh"
  by (simp add: denied_def split: option.split)

text \<open>A denied peer does not pass the check that its denial concerns.\<close>

lemma advance_past:
  assumes "advance R share peer ph sh = (sh', Some ph')" "denied share target sh" "\<not> past target peer ph"
  shows "\<not> past target peer ph'"
  using assms denied_authorize [of share peer sh R]
  by (cases ph) (auto simp: past_def denied_def track_def split: option.splits if_splits sum.splits)

lemma advance_cases:
  assumes "advance R share peer ph sh = (sh', ph')"
  obtains (stay) qh where "ph' = Some qh" "slot qh = slot ph" "sh' = sh"
    | (reg) c where "ph' = Some (Registered c)" "ph = Admitted" "(c, sh') = track peer sh"
    | (gone) "ph' = None" "slot ph = None" "sh' = sh"
    | (leave) c where "ph' = None" "slot ph = Some c" "sh' = untrack c sh"
  using assms that by (cases ph) (auto split: if_splits sum.splits prod.splits)

lemma put_phase_fields [simp]:
  "ds_share (put_phase i p ph s) = ds_share s" "ds_drains (put_phase i p ph s) = ds_drains s"
  "ds_overtaken (put_phase i p ph s) = ds_overtaken s"
  "fmlookup (ds_sessions (put_phase i p ph s)) j = (if j = i then map_option (Pair p) ph else fmlookup (ds_sessions s) j)"
  by (auto simp: put_phase_def split: option.split)

lemma tracked_stay:
  assumes inv: "tracked_inv s" and at: "fmlookup (ds_sessions s) i = Some (p, ph)" and same: "slot qh = slot ph"
  shows "tracked_inv (put_phase i p (Some qh) s)"
proof -
  let ?s = "put_phase i p (Some qh) s"
  have old: "\<exists>rh'. fmlookup (ds_sessions s) j = Some (q, rh') \<and> slot rh' = slot rh"
    if "fmlookup (ds_sessions ?s) j = Some (q, rh)" for j q rh
    using that at same by (auto split: if_splits)
  show ?thesis
    unfolding tracked_inv_def
  proof (intro conjI allI impI)
    show "fmlookup (sh_connections (ds_share ?s)) c = Some q" if "fmlookup (ds_sessions ?s) j = Some (q, rh)" "slot rh = Some c" for j q rh c
      using old [OF that(1)] that(2) tracked_invD(1) [OF inv] by force
    show "j = k" if "fmlookup (ds_sessions ?s) j = Some (q, rh)" "fmlookup (ds_sessions ?s) k = Some (q', rh')" "slot rh = Some c" "slot rh' = Some c"
      for j k q rh q' rh' c
    proof -
      from old [OF that(1)] old [OF that(2)] that(3,4) obtain x y where
        "fmlookup (ds_sessions s) j = Some (q, x)" "slot x = Some c" "fmlookup (ds_sessions s) k = Some (q', y)" "slot y = Some c" by auto
      then show ?thesis using inv unfolding tracked_inv_def by blast
    qed
    show "c < sh_next_connection (ds_share ?s)" if "c |\<in>| fmdom (sh_connections (ds_share ?s))" for c
      using that inv by (simp add: tracked_inv_def)
  qed
qed

text \<open>A new or a dropped session takes no number that another one has.\<close>

lemma tracked_new:
  assumes inv: "tracked_inv s" and "slot qh = None"
  shows "tracked_inv (put_phase i p (Some qh) s)"
  using assms unfolding tracked_inv_def by (auto split: if_splits)

lemma tracked_register:
  assumes inv: "tracked_inv s" and reg: "(c, sh) = track p (ds_share s)"
  shows "tracked_inv (put_phase i p (Some (Registered c)) (s\<lparr>ds_share := sh\<rparr>))"
proof -
  have sh: "c = sh_next_connection (ds_share s)" "sh_connections sh = fmupd c p (sh_connections (ds_share s))" "sh_next_connection sh = Suc c"
    using reg by (auto simp: track_def)
  have fresh: "d < c" if "fmlookup (ds_sessions s) j = Some (q, rh)" "slot rh = Some d" for j q rh d
    using tracked_invD(2) [OF inv that] sh(1) by simp
  show ?thesis
    using inv fresh sh unfolding tracked_inv_def
    by (auto split: if_splits simp: less_Suc_eq)
qed

lemma tracked_drop:
  assumes inv: "tracked_inv s" and at: "fmlookup (ds_sessions s) i = Some (p, ph)"
    and sh: "sh = (case slot ph of None \<Rightarrow> ds_share s | Some c \<Rightarrow> untrack c (ds_share s))"
  shows "tracked_inv (put_phase i p None (s\<lparr>ds_share := sh\<rparr>))"
proof (cases "slot ph")
  case None
  with inv sh show ?thesis unfolding tracked_inv_def by (auto split: if_splits)
next
  case (Some c)
  have other: "d \<noteq> c" if "fmlookup (ds_sessions s) j = Some (q, rh)" "slot rh = Some d" "j \<noteq> i" for j q rh d
    using tracked_invD(3) [OF inv at Some that(1)] that(2,3) by auto
  from Some inv sh other show ?thesis unfolding tracked_inv_def by (auto simp: untrack_def split: if_splits)
qed

lemma advance_inv:
  assumes inv: "drain_inv share s" and at: "fmlookup (ds_sessions s) i = Some (p, ph)"
    and step: "advance R share p ph (ds_share s) = (sh, ph')"
  shows "drain_inv share (put_phase i p ph' (s\<lparr>ds_share := sh\<rparr>))"
proof -
  have "tracked_inv (put_phase i p ph' (s\<lparr>ds_share := sh\<rparr>))"
    using step
  proof (cases rule: advance_cases)
    case (stay qh)
    with tracked_stay [OF drain_invD(1) [OF inv] at] show ?thesis by simp
  next
    case (reg c)
    with tracked_register [OF drain_invD(1) [OF inv]] show ?thesis by simp
  next
    case gone
    with tracked_drop [OF drain_invD(1) [OF inv] at] show ?thesis by simp
  next
    case (leave c)
    with tracked_drop [OF drain_invD(1) [OF inv] at] show ?thesis by simp
  qed
  moreover have "denied share target sh = denied share target (ds_share s)" for target
    using advance_same [of R share p ph "ds_share s"] step by (intro denied_same) auto
  moreover have "\<not> past target p qh" if "ph' = Some qh" "fmlookup (ds_drains s) d = Some (target, Drained)" "stands s d target" for target d qh
    using advance_past [OF step [unfolded that(1)] drain_invD(2) [OF inv that(2,3)] drain_invD(3) [OF inv that(2,3) at]] .
  ultimately show ?thesis
    using inv unfolding drain_inv_def by (auto simp: stands_def split: if_splits)
qed

section \<open>Every event keeps the invariant\<close>

lemma setter_fields [simp]:
  "ds_sessions (set_catalog cat s) = ds_sessions s" "ds_drains (set_catalog cat s) = ds_drains s"
  "ds_share (set_catalog cat s) = (ds_share s)\<lparr>sh_catalog := cat\<rparr>"
  "ds_sessions (set_enabled b s) = ds_sessions s" "ds_drains (set_enabled b s) = ds_drains s"
  "ds_share (set_enabled b s) = (ds_share s)\<lparr>sh_enabled := b\<rparr>"
  "ds_sessions (put_drain d drain s) = ds_sessions s" "ds_share (put_drain d drain s) = ds_share s"
  "fmlookup (ds_drains (put_drain d drain s)) e = (if e = d then Some drain else fmlookup (ds_drains s) e)"
  "ds_sessions (close_connections target s) = ds_sessions s" "ds_share (close_connections target s) = ds_share s"
  "ds_drains (close_connections target s) = ds_drains s"
  "ds_overtaken (set_catalog cat s) = ds_overtaken s" "ds_overtaken (set_enabled b s) = ds_overtaken s"
  "ds_overtaken (put_drain d drain s) = ds_overtaken s" "ds_overtaken (close_connections target s) = ds_overtaken s"
  "ds_sessions (overtake s) = ds_sessions s" "ds_share (overtake s) = ds_share s" "ds_drains (overtake s) = ds_drains s"
  "ds_overtaken (overtake s) = ds_overtaken s |\<union>| fmdom (ds_drains s)"
  by (simp_all add: set_catalog_def set_enabled_def put_drain_def close_connections_def overtake_def)

lemma stands_setters [simp]:
  "stands (set_catalog cat s) = stands s" "stands (set_enabled b s) = stands s" "stands (put_drain e drain s) = stands s"
  "stands (close_connections to s) = stands s" "stands (put_phase i p ph s) = stands s"
  by (simp_all add: fun_eq_iff stands_def)

lemma stands_overtake: "fmlookup (ds_drains s) d = Some (target, f) \<Longrightarrow> stands (overtake s) d target \<longleftrightarrow> target \<noteq> None"
  by (auto simp: stands_def fmdomI)

lemma tracked_inv_same:
  "ds_sessions t = ds_sessions s \<Longrightarrow> sh_connections (ds_share t) = sh_connections (ds_share s) \<Longrightarrow>
   sh_next_connection (ds_share t) = sh_next_connection (ds_share s) \<Longrightarrow> tracked_inv t = tracked_inv s"
  by (simp add: tracked_inv_def)

lemma drain_inv_same:
  "ds_sessions t = ds_sessions s \<Longrightarrow> ds_share t = ds_share s \<Longrightarrow> ds_drains t = ds_drains s \<Longrightarrow> ds_overtaken t = ds_overtaken s \<Longrightarrow>
   drain_inv share t = drain_inv share s"
  by (simp add: drain_inv_def tracked_inv_def stands_def)

lemma put_drain_inv:
  assumes "drain_inv share s" "stands s d target \<Longrightarrow> denied share target (ds_share s)"
    and "f = Drained \<Longrightarrow> drained_connections target (ds_share s)"
  shows "drain_inv share (put_drain d (target, f) s)"
proof -
  have "\<not> past target p ph" if "f = Drained" "fmlookup (ds_sessions s) i = Some (p, ph)" for i p ph
  proof
    assume past: "past target p ph"
    then obtain c where c: "slot ph = Some c" using past_slot by (auto simp: past_def split: option.splits)
    from tracked_invD(1) [OF drain_invD(1) [OF assms(1)] that(2) c] past have "c |\<in>| tracked_of target (ds_share s)"
      by (auto simp: tracked_of_def past_def fmdomI split: option.splits)
    with assms(3) that(1) show False by (simp add: drained_connections_def)
  qed
  moreover have "tracked_inv (put_drain d (target, f) s)"
    using drain_invD(1) [OF assms(1)] tracked_inv_same [of "put_drain d (target, f) s" s] by simp
  ultimately show ?thesis using assms(1,2) unfolding drain_inv_def by auto
qed

lemma registry_denied:
  assumes "run_op R now op (sh_catalog sh) = Some cat" "denied share target sh"
  shows "denied share target (sh\<lparr>sh_catalog := cat\<rparr>)"
proof (cases target)
  case (Some p)
  with assms(2) obtain m where m: "member_at (sh_catalog sh) share p = Some m" "mb_revoked_at m \<noteq> None" by (auto simp: denied_def)
  from member_at_change [OF run_op_change [OF assms(1)] m(1)] m(2) Some show ?thesis
    by (auto simp: denied_def later_member_def)
qed (use assms in \<open>simp add: denied_def\<close>)

lemma set_catalog_inv:
  assumes "drain_inv share s" "run_op R now op (sh_catalog (ds_share s)) = Some cat"
  shows "drain_inv share (set_catalog cat s)"
proof -
  have "tracked_inv (set_catalog cat s)"
    using drain_invD(1) [OF assms(1)] tracked_inv_same [of "set_catalog cat s" s] by simp
  with assms registry_denied [OF assms(2)] show ?thesis unfolding drain_inv_def by auto
qed

lemma revoked_denied:
  assumes "run_op R now (RevokeMember share p) cat = Some cat'"
  shows "denied share (Some p) (sh\<lparr>sh_catalog := cat'\<rparr>)"
  by (rule revoked_member_forever [OF assms reaches.start]) (auto simp: denied_def)

lemma switch_off_inv:
  assumes "drain_inv share s"
  shows "drain_inv share (set_enabled False s)"
proof -
  have "denied share target sh \<Longrightarrow> denied share target (sh\<lparr>sh_enabled := False\<rparr>)" for target sh
    by (cases target) (simp_all add: denied_def)
  moreover have "tracked_inv (set_enabled False s)"
    using drain_invD(1) [OF assms] tracked_inv_same [of "set_enabled False s" s] by simp
  ultimately show ?thesis using assms unfolding drain_inv_def by (simp; blast)
qed

text \<open>After a resume only the revocations stand.\<close>

lemma resume_inv:
  assumes "drain_inv share s"
  shows "drain_inv share (set_enabled True (overtake s))" (is "drain_inv share ?t")
proof -
  have stands: "stands s d target \<and> (\<exists>p. target = Some p)" if "fmlookup (ds_drains s) d = Some (target, f)" "stands ?t d target" for d target f
    using that stands_overtake [OF that(1)] by (auto simp: stands_def)
  have "tracked_inv ?t" using drain_invD(1) [OF assms] tracked_inv_same [of ?t s] by simp
  moreover have "denied share target (ds_share ?t)" if "fmlookup (ds_drains s) d = Some (target, f)" "stands ?t d target" for d target f
    using stands [OF that] drain_invD(2) [OF assms that(1)] by (auto simp: denied_def)
  moreover have "\<not> past target p ph" if "fmlookup (ds_drains s) d = Some (target, Drained)" "stands ?t d target"
    "fmlookup (ds_sessions s) i = Some (p, ph)" for d target i p ph
    using drain_invD(3) [OF assms that(1) _ that(3)] stands [OF that(1,2)] by blast
  ultimately show ?thesis unfolding drain_inv_def by (simp del: stands_setters)
qed

lemma put_phase_inv:
  assumes "drain_inv share s" "tracked_inv (put_phase i p (Some ph) s)" "\<And>target. past target p ph \<Longrightarrow> \<exists>qh. fmlookup (ds_sessions s) i = Some (p, qh) \<and> past target p qh"
  shows "drain_inv share (put_phase i p (Some ph) s)"
  using assms unfolding drain_inv_def by (auto split: if_splits; blast)

lemma past_plain: "\<not> past target p Arriving" "past target p (Serving c e) = past target p (Ready c e)"
  by (simp_all add: past_def split: option.split)

lemma drain_step_inv:
  assumes "drain_inv share s" "drain_step R share ev s = Some s'"
  shows "drain_inv share s'"
proof (cases ev)
  case (Connect i peer)
  with assms have s': "s' = put_phase i peer (Some Arriving) s" by (simp split: if_splits)
  have "tracked_inv (put_phase i peer (Some Arriving) s)" using tracked_new [OF drain_invD(1) [OF assms(1)]] by simp
  then show ?thesis unfolding s' by (rule put_phase_inv [OF assms(1)]) (simp add: past_plain)
next
  case (Advance i)
  with assms(2) obtain p ph sh ph' where "fmlookup (ds_sessions s) i = Some (p, ph)" "advance R share p ph (ds_share s) = (sh, ph')"
    "s' = put_phase i p ph' (s\<lparr>ds_share := sh\<rparr>)" by (auto split: option.splits prod.splits if_splits)
  with advance_inv [OF assms(1)] show ?thesis by simp
next
  case (Request i)
  with assms(2) obtain p c e where at: "fmlookup (ds_sessions s) i = Some (p, Ready c e)" "s' = put_phase i p (Some (Serving c e)) s"
    by (auto split: option.splits prod.splits session_phase.splits if_splits)
  then have "tracked_inv s'" using tracked_stay [OF drain_invD(1) [OF assms(1)] at(1)] by simp
  with assms(1) at show ?thesis by (auto intro!: put_phase_inv simp: past_plain)
next
  case (Effect i)
  with assms show ?thesis by (auto split: option.splits prod.splits session_phase.splits)
next
  case (TakeGate i)
  with assms(2) have "\<exists>g. s' = s\<lparr>ds_gate := g\<rparr>" by (auto split: option.splits prod.splits session_phase.splits if_splits)
  with assms(1) drain_inv_same [of s' s share] show ?thesis by auto
next
  case (ReleaseGate i)
  with assms drain_inv_same [of s' s share] show ?thesis by (auto split: if_splits)
next
  case (RegistryOp now op)
  with assms set_catalog_inv show ?thesis by auto
next
  case (RevokePeer d now p)
  with assms(2) obtain cat where cat: "run_op R now (RevokeMember share p) (sh_catalog (ds_share s)) = Some cat"
    "s' = put_drain d (Some p, Denied) (set_catalog cat s)" by (auto split: if_splits)
  have "denied share (Some p) (ds_share (set_catalog cat s))" using revoked_denied [OF cat(1)] by simp
  then show ?thesis unfolding cat(2) by (rule put_drain_inv [OF set_catalog_inv [OF assms(1) cat(1)]]) simp
next
  case (Pause d)
  with assms(2) have s': "s' = put_drain d (None, Denied) (set_enabled False s)" by (simp split: if_splits)
  show ?thesis unfolding s' by (rule put_drain_inv [OF switch_off_inv [OF assms(1)]]) (simp_all add: denied_def)
next
  case Resume
  with assms resume_inv [OF assms(1)] show ?thesis by simp
next
  case (CloseConnections d)
  with assms(2) obtain target where at: "fmlookup (ds_drains s) d = Some (target, Denied)"
    "s' = put_drain d (target, Closing) (close_connections target s)" by (auto split: option.splits prod.splits drain_phase.splits)
  have "drain_inv share (close_connections target s)" using assms(1) drain_inv_same [of "close_connections target s" s share] by simp
  then show ?thesis unfolding at(2) by (rule put_drain_inv) (use drain_invD(2) [OF assms(1) at(1)] in simp_all)
next
  case (PassGate d)
  with assms(2) obtain target where at: "fmlookup (ds_drains s) d = Some (target, Closing)" "s' = put_drain d (target, GatePassed) s"
    by (auto split: option.splits prod.splits drain_phase.splits if_splits)
  show ?thesis unfolding at(2) by (rule put_drain_inv [OF assms(1)]) (use drain_invD(2) [OF assms(1) at(1)] in simp_all)
next
  case (FinishDrain d)
  with assms(2) obtain target where at: "fmlookup (ds_drains s) d = Some (target, GatePassed)" "s' = put_drain d (target, Drained) s"
    "drained_connections target (ds_share s)" by (auto split: option.splits prod.splits drain_phase.splits if_splits)
  show ?thesis unfolding at(2) by (rule put_drain_inv [OF assms(1)]) (use drain_invD(2) [OF assms(1) at(1)] at(3) in simp_all)
qed

interpretation drain: op_machine "drain_step R share" "\<lambda>_. True" "drain_inv share" for R share
  by unfold_locales (rule drain_step_inv)

lemma idle_share_inv: "drain_inv share (idle_share cat)"
  by (simp add: idle_share_def drain_inv_def tracked_inv_def)

section \<open>Denial is final\<close>

text \<open>A drain that has returned stays returned.\<close>

lemma drained_stays:
  assumes "drain_step R share ev s = Some s'" "fmlookup (ds_drains s) d = Some (target, Drained)"
  shows "fmlookup (ds_drains s') d = Some (target, Drained)"
  using assms
  by (cases ev) (auto split: option.splits prod.splits if_splits session_phase.splits drain_phase.splits)

lemma drained_forever:
  assumes "fmlookup (ds_drains s) d = Some (target, Drained)"
  shows "fmlookup (ds_drains (run_ops (drain_step R share) events s)) d = Some (target, Drained)"
  using assms by (induction events arbitrary: s) (auto intro: drained_stays split: option.split)

text \<open>
  C14: when \<open>revoke_member\<close> or \<open>pause\<close> has returned, the share is quiet. However the tasks of the process interleave,
  from then on no session of the revoked peer has passed its authorization, and none at all after a pause, as
  long as no resume has followed the call of the pause, be it before or after the pause returned; in particular
  none serves a request, neither one that was under way nor one that arrives later.
\<close>

theorem drained_share_is_quiet:
  assumes "s = run_ops (drain_step R share) events (idle_share cat)" and "fmlookup (ds_drains s) d = Some (target, Drained)"
    and "later = run_ops (drain_step R share) further s" and "target \<noteq> None \<or> d |\<notin>| ds_overtaken later"
  shows "\<forall>i peer phase. fmlookup (ds_sessions later) i = Some (peer, phase) \<longrightarrow> target = None \<or> target = Some peer \<longrightarrow>
    (\<forall>c epoch. phase \<noteq> Confirmed c \<and> phase \<noteq> Ready c epoch \<and> phase \<noteq> Serving c epoch)"
proof -
  have "drain_inv share s" unfolding assms(1) by (intro drain.run_inv idle_share_inv) (simp add: list_all_iff)
  then have "drain_inv share later" unfolding assms(3) by (intro drain.run_inv) (simp_all add: list_all_iff)
  moreover have "fmlookup (ds_drains later) d = Some (target, Drained)"
    unfolding assms(3) by (rule drained_forever [OF assms(2)])
  ultimately have "\<not> past target peer phase" if "fmlookup (ds_sessions later) i = Some (peer, phase)" for i peer phase
    using drain_invD(3) that assms(4) by (auto simp: stands_def)
  then show ?thesis by (fastforce simp: past_def)
qed

text \<open>A member is served, revoked while it is connected, drained, and connects again.\<close>

definition example_events :: "drain_event list" where
  "example_events = Connect 1 (hash_fill 7) # replicate 6 (Advance 1) @
     [Request 1, TakeGate 1, RevokePeer 5 130 (hash_fill 7), CloseConnections 5, ReleaseGate 1, Advance 1, PassGate 5, FinishDrain 5]"

lemma example_revoked:
  obtains cat where "run_op ref_registry 130 (RevokeMember (hash_fill 1) (hash_fill 7)) example_catalog = Some cat"
  by (simp add: revoke_member_def reg_update_def reg_read_def ensure_def share_lookup_def ok_or_def checked_add_def
      example_catalog_def put_entry_def fresh_catalog_def example_entry_def example_member_def ref_registry_def)

lemma example_drained:
  "fmlookup (ds_drains (run_ops (drain_step ref_registry (hash_fill 1)) example_events (idle_share example_catalog))) 5 =
     Some (Some (hash_fill 7), Drained)"
proof -
  obtain cat where cat: "run_op ref_registry 130 (RevokeMember (hash_fill 1) (hash_fill 7)) example_catalog = Some cat"
    by (rule example_revoked)
  have two: "replicate 6 (Advance 1) = [Advance 1, Advance 1, Advance 1, Advance 1, Advance 1, Advance 1]"
    by (simp add: numeral_eq_Suc)
  show ?thesis
    unfolding example_events_def two idle_share_def
    by (simp add: put_phase_def track_def example_authorized put_drain_def set_catalog_def cat close_connections_def untrack_def
        drained_connections_def tracked_of_def run_ops_Cons del: run_op.simps run_ops.simps(2))
qed

theorem drained_share_is_quiet_witness:
  "\<forall>i c epoch. fmlookup (ds_sessions (run_ops (drain_step ref_registry (hash_fill 1)) [Connect 2 (hash_fill 7), Advance 2, Advance 2]
     (run_ops (drain_step ref_registry (hash_fill 1)) example_events (idle_share example_catalog)))) i \<noteq> Some (hash_fill 7, Serving c epoch)"
  using drained_share_is_quiet [OF refl example_drained refl, where further = "[Connect 2 (hash_fill 7), Advance 2, Advance 2]"] by blast

end
