(* ===== verification/Control_Config.thy ===== *)
theory Control_Config
  imports Sync_Engine
begin

text \<open>
  Configuration of managed folders (\<^verbatim>\<open>crates/deltaweave-control/src/config.rs\<close> and \<open>model.rs\<close>): the records the
  daemon keeps and publishes, the resolution of configured paths, and \<open>normalize\<close>, which validates the
  input of a folder and resolves its three paths. \<open>normalize\<close> runs against the file system as it is then; the
  current directory and the parsers of endpoint ids and socket addresses are parameters.
\<close>

section \<open>Records\<close>

record folder_input =
  in_name :: string
  in_root :: string
  in_role :: string
  in_state_path :: "string option"
  in_identity_path :: "string option"
  in_device_id :: "string option"
  in_peer_endpoint_id :: "string option"
  in_direct_addresses :: "string list"
  in_allowed_peers :: "string list"
  in_bind :: "string option"
  in_enabled :: "bool option"
  in_interval_seconds :: "u64 option"
  in_max_connections :: "u64 option"
  in_min_free_space_mib :: "u64 option"

record folder_view =
  fv_input :: folder_input
  fv_id :: string
  fv_endpoint_id :: string
  fv_addresses :: "string list"
  fv_status :: string
  fv_phase :: "string option"
  fv_current_path :: "string option"
  fv_last_sync_at :: "u64 option"
  fv_last_error :: "string option"
  fv_retry_at :: "u64 option"
  fv_files_count :: u64
  fv_total_bytes :: u64
  fv_last_report :: "sync_report option"

record device_input =
  di_name :: string
  di_endpoint_id :: string
  di_address :: string

record device_view =
  dv_input :: device_input
  dv_id :: string
  dv_added_at :: u64
  dv_last_seen_at :: "u64 option"

record settings =
  se_node_name :: string
  se_poll_interval_seconds :: u64
  se_history_limit :: nat

record activity =
  ac_id :: string
  ac_folder_id :: "string option"
  ac_kind :: string
  ac_title :: string
  ac_detail :: string
  ac_timestamp :: u64
  ac_pushed_bytes :: u64
  ac_pulled_bytes :: u64
  ac_path :: "string option"

record history_point =
  hp_timestamp :: u64
  hp_folder_id :: string
  hp_pushed_bytes :: u64
  hp_pulled_bytes :: u64

datatype folder_command = Sync | Pause | Resume

record config =
  cg_version :: u32
  cg_settings :: settings
  cg_folders :: "folder_view list"
  cg_devices :: "device_view list"
  cg_activities :: "activity list"
  cg_history :: "history_point list"

datatype control_error = ControlIo io_kind | Invalid string

record control_env =
  ce_cwd :: "string list"
  ce_endpoint_parses :: "string \<Rightarrow> bool"
  ce_address_parses :: "string \<Rightarrow> bool"

section \<open>Names\<close>

text \<open>The UTF-8 encodings of the characters with the property \<open>White_Space\<close>, which \<open>str::trim\<close> removes.\<close>

definition white_space :: "string list" where
  "white_space = map (map char_of) ([[9], [10], [11], [12], [13], [32], [194, 133], [194, 160], [225, 154, 128],
     [226, 128, 168], [226, 128, 169], [226, 128, 175], [226, 129, 159], [227, 128, 128]] @
     map (\<lambda>n. [226, 128, 128 + n]) [0..<11] :: nat list list)"

function trim_start_of :: "string list \<Rightarrow> string \<Rightarrow> string" where
  "trim_start_of ws s = (case find (\<lambda>w. w \<noteq> [] \<and> prefix w s) ws of None \<Rightarrow> s | Some w \<Rightarrow> trim_start_of ws (drop (length w) s))"
  by pat_completeness auto
termination
  by (relation "measure (\<lambda>(ws, s). length s)") (auto simp: find_Some_iff prefix_def)

declare trim_start_of.simps [simp del]

definition trim :: "string \<Rightarrow> string" where
  "trim s = rev (trim_start_of (map rev white_space) (rev (trim_start_of white_space s)))"

definition validate_name :: "string \<Rightarrow> control_error + unit" where
  "validate_name name = ensure (trim name \<noteq> [] \<and> length (chars name) \<le> 100 \<and> \<not> list_ex is_control (chars name))
     (Invalid ''name must contain 1-100 printable characters'')"

section \<open>Paths\<close>

text \<open>The components of a path as written; the leading slash is the component of the root directory.\<close>

definition path_parts :: "string \<Rightarrow> string list" where
  "path_parts s = (if take 1 s = ''/'' then [''/''] else []) @ filter (\<lambda>c. c \<noteq> [] \<and> c \<noteq> ''.'') (split_on (CHR ''/'') s)"

definition path_text :: "fs_path \<Rightarrow> string" where
  "path_text p = (if p = [] then ''/'' else concat (map (\<lambda>c. ''/'' @ c) p))"

fun resolve_parts :: "fs_node \<Rightarrow> fs_path \<Rightarrow> string list \<Rightarrow> control_error + fs_path" where
  "resolve_parts fs resolved [] = Inr resolved"
| "resolve_parts fs resolved (c # cs) =
     (let extended = (if c = ''..'' then butlast resolved else if c = ''/'' then [] else resolved @ [c]) in
      if fs_exists fs extended then and_then (map_err ControlIo (fs_canonicalize fs extended)) (\<lambda>r. resolve_parts fs r cs)
      else resolve_parts fs extended cs)"

definition candidate :: "control_env \<Rightarrow> fs_node \<Rightarrow> string \<Rightarrow> control_error + fs_path" where
  "candidate C fs s = resolve_parts fs []
     (if take 1 s = ''/'' then path_parts s else ''/'' # ce_cwd C @ path_parts s)"

text \<open>\<open>Path::starts_with\<close> compares whole components.\<close>

definition paths_overlap :: "fs_path \<Rightarrow> fs_path \<Rightarrow> bool" where
  "paths_overlap a b \<longleftrightarrow> prefix b a \<or> prefix a b"

lemma paths_overlap_sym: "paths_overlap a b = paths_overlap b a"
  by (auto simp: paths_overlap_def)

section \<open>Validation of a folder\<close>

definition folder_dir :: "fs_path \<Rightarrow> string \<Rightarrow> fs_path" where
  "folder_dir dir ident = dir @ [''folders'', ident]"

definition configured :: "control_env \<Rightarrow> fs_node \<Rightarrow> string option \<Rightarrow> fs_path \<Rightarrow> control_error + fs_path" where
  "configured C fs given fallback = (case given of Some s \<Rightarrow> candidate C fs s | None \<Rightarrow> candidate C fs (path_text fallback))"

definition private_outside :: "fs_path \<Rightarrow> string \<Rightarrow> fs_path \<Rightarrow> control_error + unit" where
  "private_outside dir ident p = ensure (\<not> paths_overlap p dir \<or> prefix (folder_dir dir ident) p)
     (Invalid ''private paths inside management data must belong to this folder'')"

definition role_state :: "fs_node \<Rightarrow> string \<Rightarrow> fs_path \<Rightarrow> control_error + unit" where
  "role_state fs role state =
     (if role = ''receive'' then ensure (\<not> fs_exists fs (state @ [''store'', ''metadata.redb'']))
        (Invalid ''state belongs to a sync folder; select receive state or create a new state directory'')
      else ensure (\<not> fs_exists fs (state @ [''metadata.redb'']))
        (Invalid ''state belongs to a receive folder; select sync state or create a new state directory''))"

definition input_paths :: "folder_input \<Rightarrow> string list" where
  "input_paths i = in_root i # (case in_state_path i of None \<Rightarrow> [] | Some p \<Rightarrow> [p]) @ (case in_identity_path i of None \<Rightarrow> [] | Some p \<Rightarrow> [p])"

definition apart_from :: "control_env \<Rightarrow> fs_node \<Rightarrow> fs_path list \<Rightarrow> string \<Rightarrow> string \<Rightarrow> unit \<Rightarrow> control_error + unit" where
  "apart_from C fs own name p _ = and_then (candidate C fs p) (\<lambda>path.
     ensure (\<not> list_ex (\<lambda>o'. paths_overlap o' path) own) (Invalid (''paths overlap managed folder '' @ name)))"

definition apart_from_folder :: "control_env \<Rightarrow> fs_node \<Rightarrow> fs_path list \<Rightarrow> folder_view \<Rightarrow> unit \<Rightarrow> control_error + unit" where
  "apart_from_folder C fs own other _ =
     fold_res (apart_from C fs own (in_name (fv_input other))) (input_paths (fv_input other)) ()"

definition peers_valid :: "control_env \<Rightarrow> folder_input \<Rightarrow> control_error + unit" where
  "peers_valid C i =
     and_then (ensure (list_all (ce_endpoint_parses C) (in_allowed_peers i)) (Invalid ''invalid allowed peer endpoint ID'')) (\<lambda>_.
     and_then (ensure (case in_peer_endpoint_id i of None \<Rightarrow> True | Some p \<Rightarrow> ce_endpoint_parses C p) (Invalid ''invalid peer endpoint ID'')) (\<lambda>_.
     and_then (if in_role i = ''sync'' then
         and_then (ok_or (in_peer_endpoint_id i) (Invalid ''sync folder requires peer_endpoint_id'')) (\<lambda>p.
         and_then (ensure (ce_endpoint_parses C p) (Invalid ''invalid peer endpoint ID'')) (\<lambda>_.
           ensure (in_direct_addresses i \<noteq> []) (Invalid ''sync folder requires at least one direct address'')))
       else Inr ()) (\<lambda>_.
     and_then (ensure (list_all (ce_address_parses C) (in_direct_addresses i)) (Invalid ''direct address must be IP:port'')) (\<lambda>_.
       ensure (case in_bind i of None \<Rightarrow> True | Some b \<Rightarrow> ce_address_parses C b) (Invalid ''bind must be IP:port'')))))"

definition default :: "'a \<Rightarrow> 'a option \<Rightarrow> 'a" where
  "default d x = (case x of None \<Rightarrow> d | Some y \<Rightarrow> y)"

definition checked_mul :: "u64 \<Rightarrow> u64 \<Rightarrow> u64 option" where
  "checked_mul a b = (if unat a * unat b < 2 ^ 64 then Some (a * b) else None)"

definition limits_valid :: "u64 \<Rightarrow> u64 \<Rightarrow> u64 \<Rightarrow> control_error + unit" where
  "limits_valid interval connections space =
     and_then (ensure (1 \<le> interval \<and> interval \<le> 86400) (Invalid ''interval_seconds must be 1-86400'')) (\<lambda>_.
     and_then (ensure (1 \<le> connections \<and> connections \<le> 1024) (Invalid ''max_connections must be 1-1024'')) (\<lambda>_.
       ensure (checked_mul space (1024 * 1024) \<noteq> None) (Invalid ''min_free_space_mib is too large'')))"

definition paths_valid :: "control_env \<Rightarrow> fs_node \<Rightarrow> fs_path \<Rightarrow> string \<Rightarrow> folder_view list \<Rightarrow> string \<Rightarrow> fs_path \<Rightarrow> fs_path \<Rightarrow> fs_path \<Rightarrow>
    control_error + unit" where
  "paths_valid C fs dir ident others role root state identity =
     and_then (candidate C fs (path_text dir)) (\<lambda>resolved_dir.
     and_then (ensure (\<not> paths_overlap root resolved_dir) (Invalid ''folder root overlaps management data directory'')) (\<lambda>_.
     and_then (private_outside dir ident state) (\<lambda>_.
     and_then (private_outside dir ident identity) (\<lambda>_.
     and_then (role_state fs role state) (\<lambda>_.
     and_then (ensure (\<not> paths_overlap root state \<and> \<not> paths_overlap root identity \<and> \<not> paths_overlap state identity)
                 (Invalid ''root, state and identity paths must be separate'')) (\<lambda>_.
     and_then (ensure (fs_exists fs root \<longrightarrow> fs_is_dir fs root) (Invalid ''root must be a directory'')) (\<lambda>_.
     and_then (ensure (fs_exists fs state \<longrightarrow> fs_is_dir fs state) (Invalid ''state must be a directory'')) (\<lambda>_.
     and_then (ensure (fs_exists fs identity \<longrightarrow> fs_is_file fs identity) (Invalid ''identity must be a file'')) (\<lambda>_.
       fold_res (apart_from_folder C fs [root, state, identity]) (filter (\<lambda>f. fv_id f \<noteq> ident) others) ())))))))))"

definition normalize :: "control_env \<Rightarrow> fs_node \<Rightarrow> folder_input \<Rightarrow> string \<Rightarrow> fs_path \<Rightarrow> folder_view list \<Rightarrow> u64 \<Rightarrow> control_error + folder_input" where
  "normalize C fs input ident dir others poll =
     and_then (validate_name (in_name input)) (\<lambda>_.
     and_then (ensure (in_role input = ''sync'' \<or> in_role input = ''receive'') (Invalid ''role must be sync or receive'')) (\<lambda>_.
     and_then (ensure (trim (in_root input) \<noteq> []) (Invalid ''root path is required'')) (\<lambda>_.
     and_then (candidate C fs (in_root input)) (\<lambda>root.
     and_then (configured C fs (in_state_path input) (folder_dir dir ident @ [''state''])) (\<lambda>state.
     and_then (configured C fs (in_identity_path input) (folder_dir dir ident @ [''identity.key''])) (\<lambda>identity.
     and_then (paths_valid C fs dir ident others (in_role input) root state identity) (\<lambda>_.
     and_then (peers_valid C input) (\<lambda>_.
     let interval = default poll (in_interval_seconds input);
         connections = default 8 (in_max_connections input);
         space = default 64 (in_min_free_space_mib input) in
     and_then (limits_valid interval connections space) (\<lambda>_.
       Inr (input\<lparr>in_name := trim (in_name input), in_root := path_text root, in_state_path := Some (path_text state),
         in_identity_path := Some (path_text identity), in_enabled := Some (default True (in_enabled input)),
         in_interval_seconds := Some interval, in_max_connections := Some connections,
         in_min_free_space_mib := Some space\<rparr>))))))))))"

section \<open>Conflicts between folders\<close>

text \<open>\<open>paths_conflict\<close> compares the paths of two inputs as they are written.\<close>

definition paths_conflict :: "folder_input \<Rightarrow> folder_input \<Rightarrow> bool" where
  "paths_conflict a b \<longleftrightarrow> list_ex (\<lambda>p. list_ex (\<lambda>q. paths_overlap (path_parts p) (path_parts q)) (input_paths b)) (input_paths a)"

lemma paths_conflict_sym: "paths_conflict a b = paths_conflict b a"
  unfolding paths_conflict_def list_ex_iff by (metis paths_overlap_sym)

end
