(* ===== verification/Control_Manager.thy ===== *)
theory Control_Manager
  imports Control_Config Op_Machine
begin

text \<open>
  The manager of folders and devices (\<^verbatim>\<open>crates/deltaweave-control/src/lib.rs\<close>). Its operations hold the lock of
  the shared state only for short sections and await workers and the disk in between, so operations on different
  folders interleave: an event is one section of one operation, and a task remembers where an operation stands.
  The lock of a folder's slot is held by the task that has its id. Whether a worker starts or stops and
  whether the configuration file is written is part of the event.
\<close>

section \<open>State\<close>

text \<open>
  Where an operation on a folder stands: what it does next, and the views it holds. A restoration after a worker
  that did not start has the text of its error, which the folder shows when the previous worker does not start either.
\<close>

datatype folder_task =
    AddChecked folder_view
  | AddStarting folder_view
  | AddSaving folder_view
  | AddUnwinding folder_view
  | UpdateChecked folder_view folder_view
  | UpdateStopping folder_view folder_view
  | UpdateStarting folder_view folder_view
  | UpdateSaving folder_view folder_view
  | UpdateUnwinding folder_view folder_view
  | UpdateRestoring folder_view "string option"
  | RemoveStopping folder_view
  | RemoveSaving folder_view
  | RemoveRestoring folder_view
  | RemoveDropping folder_view
  | CommandRunning string folder_command

record manager =
  mg_config :: config
  mg_folders :: "(string, folder_view) fmap"
  mg_activities :: "activity list"
  mg_history :: "history_point list"
  mg_revision :: u64
  mg_pauses :: "(nat, string) fmap"
  mg_tasks :: "(nat, folder_task) fmap"

text \<open>The data directory, and the id and the time of a new activity.\<close>

record manager_env =
  me_control :: control_env
  me_dir :: fs_path
  me_stamp :: "manager \<Rightarrow> string \<times> u64"

section \<open>Activities and persistence\<close>

definition trim_history :: "manager \<Rightarrow> manager" where
  "trim_history m = (let limit = se_history_limit (cg_settings (mg_config m)) in
     m\<lparr>mg_activities := drop (length (mg_activities m) - limit) (mg_activities m),
       mg_history := drop (length (mg_history m) - limit) (mg_history m)\<rparr>)"

definition add_activity :: "manager_env \<Rightarrow> string option \<Rightarrow> string \<Rightarrow> string \<Rightarrow> string option \<Rightarrow> manager \<Rightarrow> manager" where
  "add_activity S folder kind detail path m = (case me_stamp S m of (ident, at) \<Rightarrow>
     (let m' = trim_history (m\<lparr>mg_activities := mg_activities m @ [\<lparr>ac_id = ident, ac_folder_id = folder, ac_kind = kind, ac_title = kind,
            ac_detail = detail, ac_timestamp = at, ac_pushed_bytes = 0, ac_pulled_bytes = 0, ac_path = path\<rparr>]\<rparr>)
      in m'\<lparr>mg_revision := mg_revision m' + 1\<rparr>))"

definition observed_folder :: "manager \<Rightarrow> folder_view \<Rightarrow> folder_view" where
  "observed_folder m f = (case fmlookup (mg_folders m) (fv_id f) of None \<Rightarrow> f
     | Some v \<Rightarrow> f\<lparr>fv_last_sync_at := fv_last_sync_at v, fv_last_report := fv_last_report v,
         fv_files_count := fv_files_count v, fv_total_bytes := fv_total_bytes v\<rparr>)"

definition observed_config :: "manager \<Rightarrow> config" where
  "observed_config m = (mg_config m)\<lparr>cg_folders := map (observed_folder m) (cg_folders (mg_config m)),
     cg_activities := mg_activities m, cg_history := mg_history m\<rparr>"

text \<open>Writers are serialised by their own lock; \<open>saved\<close> tells whether the file could be replaced.\<close>

definition persist :: "(config \<Rightarrow> control_error + config) \<Rightarrow> bool \<Rightarrow> manager \<Rightarrow> control_error + manager" where
  "persist mutate saved m = (let before = observed_config m in
     and_then (mutate before) (\<lambda>after.
     and_then (ensure saved (ControlIo IoOther)) (\<lambda>_.
       let m' = trim_history (m\<lparr>mg_config := after\<rparr>)
       in Inr (m'\<lparr>mg_revision := (if after \<noteq> before then mg_revision m' + 1 else mg_revision m')\<rparr>))))"

section \<open>Devices and settings\<close>

definition validate_device :: "control_env \<Rightarrow> device_input \<Rightarrow> control_error + unit" where
  "validate_device C i =
     and_then (validate_name (di_name i)) (\<lambda>_.
     and_then (ensure (ce_endpoint_parses C (di_endpoint_id i)) (Invalid ''invalid device endpoint ID'')) (\<lambda>_.
       ensure (ce_address_parses C (di_address i)) (Invalid ''device address must be IP:port'')))"

definition validate_device_reference :: "config \<Rightarrow> folder_input \<Rightarrow> control_error + unit" where
  "validate_device_reference c i = (case in_device_id i of None \<Rightarrow> Inr ()
     | Some ident \<Rightarrow>
         and_then (ok_or (find (\<lambda>d. dv_id d = ident) (cg_devices c)) (Invalid ''selected device was removed; choose a current device'')) (\<lambda>device.
           ensure (in_role i = ''sync'' \<longrightarrow> in_peer_endpoint_id i = Some (di_endpoint_id (dv_input device)))
             (Invalid ''selected device endpoint changed; refresh its connection information'')))"

definition resolve_device :: "config \<Rightarrow> folder_input \<Rightarrow> control_error + folder_input" where
  "resolve_device c i = (case in_device_id i of None \<Rightarrow> Inr i
     | Some ident \<Rightarrow>
         and_then (ok_or (find (\<lambda>d. dv_id d = ident) (cg_devices c)) (Invalid ''selected device does not exist'')) (\<lambda>device.
         if in_role i = ''sync'' then
           let endpoint = di_endpoint_id (dv_input device);
               i1 = (if in_peer_endpoint_id i = None \<or> in_peer_endpoint_id i = Some [] then i\<lparr>in_peer_endpoint_id := Some endpoint\<rparr> else i);
               i2 = (if in_direct_addresses i1 = [] then i1\<lparr>in_direct_addresses := [di_address (dv_input device)]\<rparr> else i1)
           in and_then (ensure (in_peer_endpoint_id i2 = Some endpoint) (Invalid ''peer endpoint ID does not match selected device'')) (\<lambda>_. Inr i2)
         else Inr i))"

definition insert_device :: "device_view \<Rightarrow> config \<Rightarrow> control_error + config" where
  "insert_device device c =
     and_then (ensure (\<not> list_ex (\<lambda>d. di_endpoint_id (dv_input d) = di_endpoint_id (dv_input device)) (cg_devices c))
                 (Invalid ''device endpoint is already registered'')) (\<lambda>_.
       Inr (c\<lparr>cg_devices := cg_devices c @ [device]\<rparr>))"

text \<open>The first entry that satisfies the predicate is replaced.\<close>

fun replace_first :: "('a \<Rightarrow> bool) \<Rightarrow> ('a \<Rightarrow> 'a) \<Rightarrow> 'a list \<Rightarrow> 'a list option" where
  "replace_first P f [] = None"
| "replace_first P f (x # xs) = (if P x then Some (f x # xs) else map_option ((#) x) (replace_first P f xs))"

definition change_device :: "string \<Rightarrow> device_input \<Rightarrow> config \<Rightarrow> control_error + config" where
  "change_device ident input c =
     and_then (ensure (\<not> list_ex (\<lambda>d. dv_id d \<noteq> ident \<and> di_endpoint_id (dv_input d) = di_endpoint_id input) (cg_devices c))
                 (Invalid ''device endpoint is already registered'')) (\<lambda>_.
     and_then (ok_or (replace_first (\<lambda>d. dv_id d = ident) (\<lambda>d. d\<lparr>dv_input := input\<rparr>) (cg_devices c)) (Invalid ''device not found'')) (\<lambda>devices.
       Inr (c\<lparr>cg_devices := devices\<rparr>)))"

definition drop_device :: "string \<Rightarrow> config \<Rightarrow> control_error + config" where
  "drop_device ident c =
     and_then (ensure (list_ex (\<lambda>d. dv_id d = ident) (cg_devices c)) (Invalid ''device not found'')) (\<lambda>_.
     and_then (ensure (\<not> list_ex (\<lambda>f. in_device_id (fv_input f) = Some ident) (cg_folders c))
                 (Invalid ''device is used by a folder; update that folder first'')) (\<lambda>_.
       Inr (c\<lparr>cg_devices := filter (\<lambda>d. dv_id d \<noteq> ident) (cg_devices c)\<rparr>)))"

definition validate_settings :: "settings \<Rightarrow> control_error + unit" where
  "validate_settings s =
     and_then (validate_name (se_node_name s)) (\<lambda>_.
     and_then (ensure (1 \<le> se_poll_interval_seconds s \<and> se_poll_interval_seconds s \<le> 86400) (Invalid ''poll interval must be 1-86400 seconds'')) (\<lambda>_.
       ensure (1 \<le> se_history_limit s \<and> se_history_limit s \<le> 10000) (Invalid ''history limit must be 1-10000'')))"

section \<open>Folders\<close>

definition claims_conflict :: "folder_view \<Rightarrow> folder_view \<Rightarrow> bool" where
  "claims_conflict a b \<longleftrightarrow> paths_conflict (fv_input a) (fv_input b) \<or> fv_endpoint_id a = fv_endpoint_id b"

definition reservable :: "manager \<Rightarrow> folder_view \<Rightarrow> bool" where
  "reservable m view \<longleftrightarrow> \<not> list_ex (\<lambda>f. fv_id f \<noteq> fv_id view \<and> claims_conflict view f)
     (map snd (sorted_list_of_fmap (mg_folders m)) @ cg_folders (mg_config m))"

definition new_view :: "folder_input \<Rightarrow> string \<Rightarrow> string \<Rightarrow> folder_view" where
  "new_view input ident endpoint = \<lparr>fv_input = input, fv_id = ident, fv_endpoint_id = endpoint, fv_addresses = [], fv_status = ''starting'',
     fv_phase = None, fv_current_path = None, fv_last_sync_at = None, fv_last_error = None, fv_retry_at = None, fv_files_count = 0,
     fv_total_bytes = 0, fv_last_report = None\<rparr>"

definition inherit_paths :: "folder_input \<Rightarrow> folder_input \<Rightarrow> folder_input" where
  "inherit_paths old i = i\<lparr>in_state_path := (case in_state_path i of None \<Rightarrow> in_state_path old | Some p \<Rightarrow> Some p),
     in_identity_path := (case in_identity_path i of None \<Rightarrow> in_identity_path old | Some p \<Rightarrow> Some p)\<rparr>"

definition put_view :: "folder_view \<Rightarrow> manager \<Rightarrow> manager" where
  "put_view v m = m\<lparr>mg_folders := fmupd (fv_id v) v (mg_folders m)\<rparr>"

definition change_view :: "string \<Rightarrow> (folder_view \<Rightarrow> folder_view) \<Rightarrow> manager \<Rightarrow> manager" where
  "change_view ident f m = (case fmlookup (mg_folders m) ident of None \<Rightarrow> m | Some v \<Rightarrow> put_view (f v) m)"

definition drop_view :: "string \<Rightarrow> manager \<Rightarrow> manager" where
  "drop_view ident m = m\<lparr>mg_folders := fmdrop ident (mg_folders m)\<rparr>"

text \<open>\<open>set_status\<close> of a worker.\<close>

definition set_status :: "string \<Rightarrow> string \<Rightarrow> manager \<Rightarrow> manager" where
  "set_status ident status m = (change_view ident (\<lambda>v. v\<lparr>fv_status := status, fv_phase := None, fv_current_path := None\<rparr>) m)
     \<lparr>mg_revision := mg_revision m + 1\<rparr>"

text \<open>A worker that started reports its status; a receiver also its addresses and the port it bound.\<close>

definition started_view :: "(string list \<times> string option) \<Rightarrow> string \<Rightarrow> manager \<Rightarrow> manager" where
  "started_view bound ident m = (case fmlookup (mg_folders m) ident of None \<Rightarrow> m
     | Some v \<Rightarrow>
         let receive = (in_role (fv_input v) = ''receive'') in
         set_status ident (if in_enabled (fv_input v) = Some False then ''paused'' else if receive then ''listening'' else ''idle'')
           (if receive then put_view (v\<lparr>fv_addresses := fst bound, fv_input := (fv_input v)\<lparr>in_bind := snd bound\<rparr>\<rparr>) m else m))"

text \<open>What a worker at work reports of its folder: its status, its progress and the outcome of a cycle.\<close>

record progress =
  pg_status :: string
  pg_phase :: "string option"
  pg_current_path :: "string option"
  pg_last_sync_at :: "u64 option"
  pg_last_error :: "string option"
  pg_retry_at :: "u64 option"
  pg_files_count :: u64
  pg_total_bytes :: u64
  pg_last_report :: "sync_report option"

definition progressed :: "progress \<Rightarrow> folder_view \<Rightarrow> folder_view" where
  "progressed p v = v\<lparr>fv_status := pg_status p, fv_phase := pg_phase p, fv_current_path := pg_current_path p,
     fv_last_sync_at := pg_last_sync_at p, fv_last_error := pg_last_error p, fv_retry_at := pg_retry_at p,
     fv_files_count := pg_files_count p, fv_total_bytes := pg_total_bytes p, fv_last_report := pg_last_report p\<rparr>"

definition worker_reports :: "string \<Rightarrow> progress \<Rightarrow> manager \<Rightarrow> manager" where
  "worker_reports ident p m = (change_view ident (progressed p) m)\<lparr>mg_revision := mg_revision m + 1\<rparr>"

definition push_folder :: "folder_view \<Rightarrow> config \<Rightarrow> control_error + config" where
  "push_folder v c = and_then (validate_device_reference c (fv_input v)) (\<lambda>_. Inr (c\<lparr>cg_folders := cg_folders c @ [v]\<rparr>))"

definition save_folder :: "folder_view \<Rightarrow> config \<Rightarrow> control_error + config" where
  "save_folder v c =
     and_then (validate_device_reference c (fv_input v)) (\<lambda>_.
     and_then (ok_or (replace_first (\<lambda>f. fv_id f = fv_id v) (\<lambda>_. v) (cg_folders c)) (Invalid ''folder not found'')) (\<lambda>folders.
       Inr (c\<lparr>cg_folders := folders\<rparr>)))"

definition drop_folder :: "string \<Rightarrow> config \<Rightarrow> control_error + config" where
  "drop_folder ident c = Inr (c\<lparr>cg_folders := filter (\<lambda>f. fv_id f \<noteq> ident) (cg_folders c)\<rparr>)"

definition save_enabled :: "string \<Rightarrow> bool \<Rightarrow> config \<Rightarrow> control_error + config" where
  "save_enabled ident enabled c =
     and_then (ok_or (replace_first (\<lambda>f. fv_id f = ident) (\<lambda>f. f\<lparr>fv_input := (fv_input f)\<lparr>in_enabled := Some enabled\<rparr>\<rparr>) (cg_folders c))
                 (Invalid ''folder not found'')) (\<lambda>folders.
       Inr (c\<lparr>cg_folders := folders\<rparr>))"

definition save_binds :: "manager \<Rightarrow> config \<Rightarrow> control_error + config" where
  "save_binds m c = Inr (c\<lparr>cg_folders := map (\<lambda>f. case fmlookup (mg_folders m) (fv_id f) of None \<Rightarrow> f
     | Some v \<Rightarrow> f\<lparr>fv_input := (fv_input f)\<lparr>in_bind := in_bind (fv_input v)\<rparr>\<rparr>) (cg_folders c)\<rparr>)"

section \<open>Tasks\<close>

fun task_folder :: "folder_task \<Rightarrow> string" where
  "task_folder (AddChecked v) = fv_id v" | "task_folder (AddStarting v) = fv_id v" | "task_folder (AddSaving v) = fv_id v"
| "task_folder (AddUnwinding v) = fv_id v" | "task_folder (UpdateChecked old v) = fv_id v" | "task_folder (UpdateStopping old v) = fv_id v" | "task_folder (UpdateStarting old v) = fv_id v"
| "task_folder (UpdateSaving old v) = fv_id v" | "task_folder (UpdateUnwinding old v) = fv_id v" | "task_folder (UpdateRestoring old marked) = fv_id old"
| "task_folder (RemoveStopping old) = fv_id old" | "task_folder (RemoveSaving old) = fv_id old" | "task_folder (RemoveRestoring old) = fv_id old"
| "task_folder (RemoveDropping old) = fv_id old" | "task_folder (CommandRunning ident command) = ident"

definition slot_free :: "string \<Rightarrow> manager \<Rightarrow> bool" where
  "slot_free ident m \<longleftrightarrow> fcard (ffilter (\<lambda>t. map_option task_folder (fmlookup (mg_tasks m) t) = Some ident) (fmdom (mg_tasks m))) = 0"

definition put_task :: "nat \<Rightarrow> folder_task option \<Rightarrow> manager \<Rightarrow> manager" where
  "put_task t task m = m\<lparr>mg_tasks := (case task of None \<Rightarrow> fmdrop t (mg_tasks m) | Some x \<Rightarrow> fmupd t x (mg_tasks m))\<rparr>"

datatype manager_event =
    AddFolder nat string folder_input fs_node string
  | UpdateFolder nat string folder_input fs_node string
  | RemoveFolder nat string
  | MarkPausing nat string
  | Command nat string folder_command
  | Reserve nat
  | WorkerStopped nat bool
  | WorkerStarted nat "string + string list \<times> string option"
  | Saved nat bool
  | WorkerAnswered nat bool bool
  | WorkerReports string progress
  | AddDevice string u64 device_input bool
  | UpdateDevice string device_input bool
  | RemoveDevice string bool
  | UpdateSettings settings bool
  | FolderOpened string "string + string list \<times> string option"
  | SaveBinds bool
  | SaveActivities bool string

definition committed_to :: "control_error + manager \<Rightarrow> manager option" where
  "committed_to r = (case r of Inl e \<Rightarrow> None | Inr m \<Rightarrow> Some m)"

definition command_allowed :: "manager \<Rightarrow> string \<Rightarrow> folder_command \<Rightarrow> bool" where
  "command_allowed m ident command = (case fmlookup (mg_folders m) ident of None \<Rightarrow> False
     | Some v \<Rightarrow> command = Sync \<longrightarrow> in_role (fv_input v) = ''sync'' \<and> in_enabled (fv_input v) \<noteq> Some False \<and>
         fv_status v \<notin> {''syncing'', ''pausing''})"

text \<open>The checks before a reservation: the device, the normal form of the input, the identity.\<close>

definition checked_input :: "manager_env \<Rightarrow> fs_node \<Rightarrow> string \<Rightarrow> folder_input \<Rightarrow> manager \<Rightarrow> control_error + folder_input" where
  "checked_input S fs ident i m = normalize (me_control S) fs i ident (me_dir S) (map snd (sorted_list_of_fmap (mg_folders m)))
     (se_poll_interval_seconds (cg_settings (mg_config m)))"

definition begin_add :: "manager_env \<Rightarrow> nat \<Rightarrow> string \<Rightarrow> folder_input \<Rightarrow> fs_node \<Rightarrow> string \<Rightarrow> manager \<Rightarrow> manager option" where
  "begin_add S t ident i fs endpoint m = committed_to (
     and_then (resolve_device (mg_config m) i) (\<lambda>i1.
     and_then (checked_input S fs ident i1 m) (\<lambda>i2.
       Inr (put_task t (Some (AddChecked (new_view i2 ident endpoint))) m))))"

definition begin_update :: "manager_env \<Rightarrow> nat \<Rightarrow> string \<Rightarrow> folder_input \<Rightarrow> fs_node \<Rightarrow> string \<Rightarrow> manager \<Rightarrow> manager option" where
  "begin_update S t ident i fs endpoint m = committed_to (
     and_then (resolve_device (mg_config m) i) (\<lambda>i1.
     and_then (ok_or (fmlookup (mg_folders m) ident) (Invalid ''folder not found'')) (\<lambda>old.
     and_then (ensure (in_role i1 = in_role (fv_input old)) (Invalid ''changing an existing state role requires a new folder connection'')) (\<lambda>_.
     and_then (checked_input S fs ident (inherit_paths (fv_input old) i1) m) (\<lambda>i2.
       Inr (put_task t (Some (UpdateChecked old (old\<lparr>fv_input := i2, fv_endpoint_id := endpoint, fv_status := ''starting'', fv_addresses := []\<rparr>))) m))))))"

text \<open>A pause shows at once; it then waits until the slot of the folder is free.\<close>

definition mark_pausing :: "nat \<Rightarrow> string \<Rightarrow> manager \<Rightarrow> manager" where
  "mark_pausing t ident m = (change_view ident (\<lambda>v. v\<lparr>fv_status := ''pausing''\<rparr>) m)
     \<lparr>mg_revision := mg_revision m + 1, mg_pauses := fmupd t ident (mg_pauses m)\<rparr>"

definition begin_command :: "nat \<Rightarrow> string \<Rightarrow> folder_command \<Rightarrow> manager \<Rightarrow> manager" where
  "begin_command t ident command m = put_task t (Some (CommandRunning ident command)) (m\<lparr>mg_pauses := fmdrop t (mg_pauses m)\<rparr>)"

fun reserve :: "nat \<Rightarrow> folder_task \<Rightarrow> manager \<Rightarrow> manager option" where
  "reserve t (AddChecked v) m = Some (if reservable m v
     then put_task t (Some (AddStarting v)) ((put_view v m)\<lparr>mg_revision := mg_revision m + 1\<rparr>) else put_task t None m)"
| "reserve t (UpdateChecked old v) m = Some (if reservable m v then put_task t (Some (UpdateStopping old v)) (put_view v m) else put_task t None m)"
| "reserve t _ m = None"

text \<open>A worker that cannot be stopped ends the operation where it stands.\<close>

fun worker_stopped :: "nat \<Rightarrow> bool \<Rightarrow> folder_task \<Rightarrow> manager \<Rightarrow> manager option" where
  "worker_stopped t stopped (UpdateStopping old v) m = Some (put_task t (if stopped then Some (UpdateStarting old v) else None) m)"
| "worker_stopped t stopped (UpdateUnwinding old v) m =
     Some (if stopped then put_task t (Some (UpdateRestoring old None)) (put_view old m) else put_task t None m)"
| "worker_stopped t stopped (AddUnwinding v) m = Some (put_task t None (if stopped then drop_view (fv_id v) m else m))"
| "worker_stopped t stopped (RemoveStopping old) m = Some (put_task t (if stopped then Some (RemoveSaving old) else None) m)"
| "worker_stopped t stopped _ m = None"

definition not_restored :: "string \<Rightarrow> string \<Rightarrow> folder_view \<Rightarrow> folder_view" where
  "not_restored e restore v = v\<lparr>fv_status := ''error'',
     fv_last_error := Some (''update failed: '' @ e @ ''; restoring worker failed: '' @ restore)\<rparr>"

fun worker_started :: "nat \<Rightarrow> string + string list \<times> string option \<Rightarrow> folder_task \<Rightarrow> manager \<Rightarrow> manager option" where
  "worker_started t started (AddStarting v) m = Some (case started of
       Inr bound \<Rightarrow> put_task t (Some (AddSaving v)) (started_view bound (fv_id v) m)
     | Inl e \<Rightarrow> put_task t None (drop_view (fv_id v) m))"
| "worker_started t started (UpdateStarting old v) m = Some (case started of
       Inr bound \<Rightarrow> put_task t (Some (UpdateSaving old v)) (started_view bound (fv_id v) m)
     | Inl e \<Rightarrow> put_task t (Some (UpdateRestoring old (Some e))) (put_view old m))"
| "worker_started t started (UpdateRestoring old failed) m = Some (put_task t None (case started of
       Inr bound \<Rightarrow> started_view bound (fv_id old) m
     | Inl restore \<Rightarrow> (case failed of None \<Rightarrow> m
         | Some e \<Rightarrow> change_view (fv_id old) (not_restored e restore) m)))"
| "worker_started t started (RemoveRestoring old) m = Some (put_task t None (case started of
       Inr bound \<Rightarrow> started_view bound (fv_id old) m | Inl e \<Rightarrow> m))"
| "worker_started t started _ m = None"

fun configuration_saved :: "manager_env \<Rightarrow> nat \<Rightarrow> bool \<Rightarrow> folder_task \<Rightarrow> manager \<Rightarrow> manager option" where
  "configuration_saved S t saved (AddSaving v) m = Option.bind (fmlookup (mg_folders m) (fv_id v)) (\<lambda>view.
     Some (case persist (push_folder view) saved m of
         Inr m' \<Rightarrow> put_task t None (add_activity S (Some (fv_id v)) ''folder_added'' (in_name (fv_input v)) None m')
       | Inl e \<Rightarrow> put_task t (Some (AddUnwinding v)) m))"
| "configuration_saved S t saved (UpdateSaving old v) m = Option.bind (fmlookup (mg_folders m) (fv_id v)) (\<lambda>view.
     Some (case persist (save_folder view) saved m of
         Inr m' \<Rightarrow> put_task t None m'
       | Inl e \<Rightarrow> put_task t (Some (UpdateUnwinding old v)) m))"
| "configuration_saved S t saved (RemoveSaving old) m = Some (case persist (drop_folder (fv_id old)) saved m of
         Inr m' \<Rightarrow> put_task t (Some (RemoveDropping old)) m'
       | Inl e \<Rightarrow> put_task t (Some (RemoveRestoring old)) m)"
| "configuration_saved S t saved (RemoveDropping old) m = Some (put_task t None (add_activity S (Some (fv_id old)) ''folder_removed''
       ''Connection removed; local files retained'' None (drop_view (fv_id old) m)))"
| "configuration_saved S t saved _ m = None"

fun worker_answered :: "nat \<Rightarrow> bool \<Rightarrow> bool \<Rightarrow> folder_task \<Rightarrow> manager \<Rightarrow> manager option" where
  "worker_answered t answered saved (CommandRunning ident command) m = Some (put_task t None (
     if \<not> answered \<or> command = Sync then m
     else case persist (save_enabled ident (command = Resume)) saved m of
       Inl e \<Rightarrow> m
     | Inr m' \<Rightarrow> (change_view ident (\<lambda>v. v\<lparr>fv_input := (fv_input v)\<lparr>in_enabled := Some (command = Resume)\<rparr>\<rparr>) m')
         \<lparr>mg_revision := mg_revision m' + 1\<rparr>))"
| "worker_answered t answered saved _ m = None"

section \<open>Events\<close>

text \<open>\<open>new_id\<close> never returns an id twice, so the id of an added folder or device is one that nothing else uses.\<close>

definition fresh_folder :: "string \<Rightarrow> manager \<Rightarrow> bool" where
  "fresh_folder ident m \<longleftrightarrow> fmlookup (mg_folders m) ident = None \<and> ident \<notin> fv_id ` set (cg_folders (mg_config m)) \<and> slot_free ident m"

definition on_task :: "(nat \<Rightarrow> folder_task \<Rightarrow> manager \<Rightarrow> manager option) \<Rightarrow> nat \<Rightarrow> manager \<Rightarrow> manager option" where
  "on_task f t m = Option.bind (fmlookup (mg_tasks m) t) (\<lambda>task. f t task m)"

text \<open>A worker that does not start when the manager opens leaves its folder in an error.\<close>

definition folder_opened :: "manager_env \<Rightarrow> string \<Rightarrow> string + string list \<times> string option \<Rightarrow> manager \<Rightarrow> manager" where
  "folder_opened S ident started m = (case started of
     Inr bound \<Rightarrow> started_view bound ident m
   | Inl e \<Rightarrow> add_activity S (Some ident) ''error'' e None
       (change_view ident (\<lambda>v. v\<lparr>fv_status := ''error'', fv_last_error := Some e\<rparr>) m))"

fun manager_step :: "manager_env \<Rightarrow> manager_event \<Rightarrow> manager \<Rightarrow> manager option" where
  "manager_step S (AddFolder t ident i fs endpoint) m =
     (if fmlookup (mg_tasks m) t = None \<and> fresh_folder ident m then begin_add S t ident i fs endpoint m else None)"
| "manager_step S (UpdateFolder t ident i fs endpoint) m =
     (if fmlookup (mg_tasks m) t = None \<and> slot_free ident m then begin_update S t ident i fs endpoint m else None)"
| "manager_step S (RemoveFolder t ident) m =
     (if fmlookup (mg_tasks m) t = None \<and> slot_free ident m
      then map_option (\<lambda>old. put_task t (Some (RemoveStopping old)) m) (fmlookup (mg_folders m) ident) else None)"
| "manager_step S (MarkPausing t ident) m =
     (if fmlookup (mg_tasks m) t = None \<and> fmlookup (mg_pauses m) t = None \<and> fmlookup (mg_folders m) ident \<noteq> None
      then Some (mark_pausing t ident m) else None)"
| "manager_step S (Command t ident command) m =
     (if fmlookup (mg_tasks m) t = None \<and> slot_free ident m \<and> command_allowed m ident command \<and>
         (command = Pause \<longrightarrow> fmlookup (mg_pauses m) t = Some ident)
      then Some (begin_command t ident command m) else None)"
| "manager_step S (Reserve t) m = on_task reserve t m"
| "manager_step S (WorkerStopped t stopped) m = on_task (\<lambda>t. worker_stopped t stopped) t m"
| "manager_step S (WorkerStarted t started) m = on_task (\<lambda>t. worker_started t started) t m"
| "manager_step S (Saved t saved) m = on_task (\<lambda>t. configuration_saved S t saved) t m"
| "manager_step S (WorkerAnswered t answered saved) m = on_task (\<lambda>t. worker_answered t answered saved) t m"
| "manager_step S (WorkerReports ident p) m = Some (worker_reports ident p m)"
| "manager_step S (AddDevice ident at i saved) m = (if ident \<in> dv_id ` set (cg_devices (mg_config m)) then None else committed_to (
     and_then (validate_device (me_control S) i) (\<lambda>_.
       persist (insert_device \<lparr>dv_input = i, dv_id = ident, dv_added_at = at, dv_last_seen_at = None\<rparr>) saved m)))"
| "manager_step S (UpdateDevice ident i saved) m = committed_to (
     and_then (validate_device (me_control S) i) (\<lambda>_. persist (change_device ident i) saved m))"
| "manager_step S (RemoveDevice ident saved) m = committed_to (persist (drop_device ident) saved m)"
| "manager_step S (UpdateSettings s saved) m = committed_to (
     and_then (validate_settings s) (\<lambda>_. persist (\<lambda>c. Inr (c\<lparr>cg_settings := s\<rparr>)) saved m))"
| "manager_step S (FolderOpened ident started) m = Some (folder_opened S ident started m)"
| "manager_step S (SaveBinds saved) m = committed_to (persist (save_binds m) saved m)"
| "manager_step S (SaveActivities saved e) m = Some (case persist Inr saved m of Inr m' \<Rightarrow> m'
     | Inl _ \<Rightarrow> add_activity S None ''error'' (''Unable to save activity history: '' @ e) None m)"

text \<open>The manager when it has read a saved configuration, before it starts the workers.\<close>

definition opened_view :: "folder_view \<Rightarrow> folder_view" where
  "opened_view v = v\<lparr>fv_status := ''starting'', fv_addresses := [], fv_phase := None, fv_current_path := None\<rparr>"

definition opened_manager :: "config \<Rightarrow> manager" where
  "opened_manager c = \<lparr>mg_config = c, mg_folders = fmap_of_list (map (\<lambda>f. (fv_id f, opened_view f)) (cg_folders c)),
     mg_activities = cg_activities c, mg_history = cg_history c, mg_revision = 1, mg_pauses = fmempty, mg_tasks = fmempty\<rparr>"

section \<open>Claims\<close>

text \<open>What folders compete for: their paths and their identity.\<close>

definition claim :: "folder_view \<Rightarrow> string list \<times> string" where
  "claim v = (input_paths (fv_input v), fv_endpoint_id v)"

lemma claims_conflict_sym: "claims_conflict a b = claims_conflict b a"
  by (auto simp: claims_conflict_def paths_conflict_sym)

lemma claims_conflict_cong: "claim a = claim c \<Longrightarrow> claim b = claim d \<Longrightarrow> claims_conflict a b = claims_conflict c d"
  by (simp add: claims_conflict_def claim_def paths_conflict_def)

definition separate :: "folder_view list \<Rightarrow> bool" where
  "separate fs \<longleftrightarrow> distinct (map fv_id fs) \<and> (\<forall>f \<in> set fs. \<forall>g \<in> set fs. fv_id f \<noteq> fv_id g \<longrightarrow> \<not> claims_conflict f g)"

definition devices_ok :: "config \<Rightarrow> bool" where
  "devices_ok c \<longleftrightarrow> distinct (map dv_id (cg_devices c)) \<and> distinct (map (\<lambda>d. di_endpoint_id (dv_input d)) (cg_devices c)) \<and>
     (\<forall>f \<in> set (cg_folders c). \<forall>ident. in_device_id (fv_input f) = Some ident \<longrightarrow> ident \<in> dv_id ` set (cg_devices c))"

definition saved_ok :: "config \<Rightarrow> bool" where
  "saved_ok c \<longleftrightarrow> separate (cg_folders c) \<and> devices_ok c"

fun reserved_view :: "folder_task \<Rightarrow> folder_view option" where
  "reserved_view (AddStarting v) = Some v" | "reserved_view (AddSaving v) = Some v"
| "reserved_view (UpdateStopping old v) = Some v" | "reserved_view (UpdateStarting old v) = Some v"
| "reserved_view (UpdateSaving old v) = Some v" | "reserved_view _ = None"

fun added_view :: "folder_task \<Rightarrow> folder_view option" where
  "added_view (AddChecked v) = Some v" | "added_view (AddStarting v) = Some v" | "added_view (AddSaving v) = Some v" | "added_view _ = None"

fun previous_view :: "folder_task \<Rightarrow> folder_view option" where
  "previous_view (UpdateChecked old v) = Some old" | "previous_view (UpdateStopping old v) = Some old" | "previous_view (UpdateStarting old v) = Some old"
| "previous_view (UpdateSaving old v) = Some old" | "previous_view (UpdateUnwinding old v) = Some old" | "previous_view _ = None"

definition task_ok :: "manager \<Rightarrow> folder_task \<Rightarrow> bool" where
  "task_ok m task \<longleftrightarrow>
     (case previous_view task of None \<Rightarrow> True | Some old \<Rightarrow> fv_id old = task_folder task) \<and>
     (case added_view task of None \<Rightarrow> True | Some v \<Rightarrow> fv_id v \<notin> fv_id ` set (cg_folders (mg_config m))) \<and>
     (case reserved_view task of None \<Rightarrow> True | Some v \<Rightarrow>
        (\<exists>w. fmlookup (mg_folders m) (fv_id v) = Some w \<and> claim w = claim v) \<and>
        (\<forall>g \<in> set (cg_folders (mg_config m)). fv_id g \<noteq> fv_id v \<longrightarrow> \<not> claims_conflict v g))"

definition manager_inv :: "manager \<Rightarrow> bool" where
  "manager_inv m \<longleftrightarrow> saved_ok (mg_config m) \<and>
     (\<forall>k w. fmlookup (mg_folders m) k = Some w \<longrightarrow> fv_id w = k) \<and>
     (\<forall>t task. fmlookup (mg_tasks m) t = Some task \<longrightarrow> task_ok m task) \<and>
     (\<forall>t t' a b. fmlookup (mg_tasks m) t = Some a \<longrightarrow> fmlookup (mg_tasks m) t' = Some b \<longrightarrow> task_folder a = task_folder b \<longrightarrow> t = t') \<and>
     (\<forall>t t' a b v u. fmlookup (mg_tasks m) t = Some a \<longrightarrow> fmlookup (mg_tasks m) t' = Some b \<longrightarrow>
        reserved_view a = Some v \<longrightarrow> reserved_view b = Some u \<longrightarrow> fv_id v \<noteq> fv_id u \<longrightarrow> \<not> claims_conflict v u)"

lemma manager_invD:
  assumes "manager_inv m"
  shows "saved_ok (mg_config m)" "fmlookup (mg_folders m) k = Some w \<Longrightarrow> fv_id w = k"
    "fmlookup (mg_tasks m) t = Some a \<Longrightarrow> task_ok m a"
    "fmlookup (mg_tasks m) t = Some a \<Longrightarrow> fmlookup (mg_tasks m) t' = Some b \<Longrightarrow> task_folder a = task_folder b \<Longrightarrow> t' = t"
    "fmlookup (mg_tasks m) t = Some a \<Longrightarrow> fmlookup (mg_tasks m) t' = Some b \<Longrightarrow> reserved_view a = Some v \<Longrightarrow> reserved_view b = Some u \<Longrightarrow>
       fv_id v \<noteq> fv_id u \<Longrightarrow> \<not> claims_conflict v u"
  using assms unfolding manager_inv_def by (blast, blast, blast, metis, blast)

lemma reserved_folder: "reserved_view task = Some v \<Longrightarrow> fv_id v = task_folder task"
  "added_view task = Some v \<Longrightarrow> fv_id v = task_folder task"
  by (cases task; simp)+

lemma slot_free_iff: "slot_free ident m \<longleftrightarrow> (\<forall>t task. fmlookup (mg_tasks m) t = Some task \<longrightarrow> task_folder task \<noteq> ident)"
  by (auto simp: slot_free_def fmlookup_dom_iff fset_eq_iff)

section \<open>Changes of the configuration\<close>

lemma replace_first_Some:
  assumes "replace_first P f xs = Some ys"
  obtains us x vs where "xs = us @ x # vs" "P x" "ys = us @ f x # vs"
proof -
  have "\<exists>us x vs. xs = us @ x # vs \<and> P x \<and> ys = us @ f x # vs"
    using assms
  proof (induction xs arbitrary: ys)
    case (Cons a xs)
    show ?case
    proof (cases "P a")
      case True
      with Cons.prems show ?thesis by (intro exI [of _ "[]"]) auto
    next
      case False
      with Cons.prems obtain zs where "replace_first P f xs = Some zs" "ys = a # zs" by auto
      with Cons.IH [OF this(1)] show ?thesis by (metis append_Cons)
    qed
  qed simp
  then show ?thesis using that by blast
qed

lemma observed_folder_same [simp]:
  "fv_id (observed_folder m f) = fv_id f" "claim (observed_folder m f) = claim f" "fv_input (observed_folder m f) = fv_input f"
  by (auto simp: observed_folder_def claim_def split: option.split)

lemma separate_claims:
  assumes "separate fs" "map fv_id gs = map fv_id fs" "map claim gs = map claim fs"
  shows "separate gs"
proof -
  have len: "length gs = length fs" using assms(2) by (metis length_map)
  have at: "fv_id (gs ! i) = fv_id (fs ! i)" "claim (gs ! i) = claim (fs ! i)" if "i < length fs" for i
    using assms(2,3) len that by (metis nth_map)+
  have "\<not> claims_conflict f g" if fg: "f \<in> set gs" "g \<in> set gs" "fv_id f \<noteq> fv_id g" for f g
  proof -
    obtain i j where "i < length fs" "j < length fs" "f = gs ! i" "g = gs ! j" using fg(1,2) len by (metis in_set_conv_nth)
    then have "fs ! i \<in> set fs" "fs ! j \<in> set fs" "fv_id (fs ! i) \<noteq> fv_id (fs ! j)" using fg(3) at by simp_all
    with assms(1) have "\<not> claims_conflict (fs ! i) (fs ! j)" by (simp add: separate_def)
    moreover have "claim f = claim (fs ! i)" "claim g = claim (fs ! j)" using at \<open>i < length fs\<close> \<open>j < length fs\<close> \<open>f = _\<close> \<open>g = _\<close> by simp_all
    ultimately show ?thesis using claims_conflict_cong [of f "fs ! i" g "fs ! j"] by blast
  qed
  with assms(1,2) show ?thesis by (simp add: separate_def)
qed

lemma observed_config_ok: "saved_ok (mg_config m) \<Longrightarrow> saved_ok (observed_config m)"
proof -
  assume ok: "saved_ok (mg_config m)"
  have "map fv_id (cg_folders (observed_config m)) = map fv_id (cg_folders (mg_config m))"
    "map claim (cg_folders (observed_config m)) = map claim (cg_folders (mg_config m))" by (simp_all add: observed_config_def)
  with ok separate_claims have "separate (cg_folders (observed_config m))" unfolding saved_ok_def by blast
  with ok show ?thesis by (auto simp: saved_ok_def devices_ok_def observed_config_def)
qed

lemma persist_Inr:
  assumes "persist mutate saved m = Inr m'"
  obtains after where "mutate (observed_config m) = Inr after" "mg_config m' = after" "mg_folders m' = mg_folders m" "mg_tasks m' = mg_tasks m"
  using assms by (auto simp: persist_def Let_def and_then_Inr_iff ensure_Inr_iff trim_history_def split: if_splits)

text \<open>Every folder of the new configuration was one of the old, or has the claim of a given view.\<close>

definition folders_within :: "config \<Rightarrow> folder_view option \<Rightarrow> config \<Rightarrow> bool" where
  "folders_within c view c' \<longleftrightarrow> (\<forall>g' \<in> set (cg_folders c'). (\<exists>g \<in> set (cg_folders c). fv_id g = fv_id g' \<and> claim g = claim g') \<or>
     (\<exists>v. view = Some v \<and> fv_id g' = fv_id v \<and> claim g' = claim v))"

lemma folders_within_observed: "folders_within (observed_config m) view c' \<Longrightarrow> folders_within (mg_config m) view c'"
  by (auto simp: folders_within_def observed_config_def)

lemma device_id_reference: "validate_device_reference c i = Inr () \<Longrightarrow> in_device_id i = Some ident \<Longrightarrow> ident \<in> dv_id ` set (cg_devices c)"
  by (auto simp: validate_device_reference_def result_simps find_Some_iff)

lemma push_folder_ok:
  assumes "push_folder v c = Inr c'" "saved_ok c" "fv_id v \<notin> fv_id ` set (cg_folders c)" "\<forall>g \<in> set (cg_folders c). \<not> claims_conflict v g"
  shows "saved_ok c' \<and> folders_within c (Some v) c'"
proof -
  from assms(1) have c': "validate_device_reference c (fv_input v) = Inr ()" "c' = c\<lparr>cg_folders := cg_folders c @ [v]\<rparr>"
    by (auto simp: push_folder_def result_simps)
  have "separate (cg_folders c')"
    using assms(2-4) c'(2) by (auto simp: saved_ok_def separate_def claims_conflict_sym)
  moreover have "devices_ok c'"
    using assms(2) c' device_id_reference [OF c'(1)] by (auto simp: saved_ok_def devices_ok_def)
  ultimately show ?thesis using c'(2) by (auto simp: saved_ok_def folders_within_def)
qed

lemma save_folder_ok:
  assumes "save_folder v c = Inr c'" "saved_ok c" "\<forall>g \<in> set (cg_folders c). fv_id g \<noteq> fv_id v \<longrightarrow> \<not> claims_conflict v g"
  shows "saved_ok c' \<and> folders_within c (Some v) c'"
proof -
  from assms(1) obtain folders where c': "validate_device_reference c (fv_input v) = Inr ()"
    "replace_first (\<lambda>f. fv_id f = fv_id v) (\<lambda>_. v) (cg_folders c) = Some folders" "c' = c\<lparr>cg_folders := folders\<rparr>"
    by (auto simp: save_folder_def result_simps)
  obtain us x vs where split: "cg_folders c = us @ x # vs" "fv_id x = fv_id v" "folders = us @ v # vs"
    by (rule replace_first_Some [OF c'(2)])
  have "separate folders"
    using assms(2,3) split by (auto simp: saved_ok_def separate_def claims_conflict_sym)
  moreover have "devices_ok c'"
    using assms(2) c' split device_id_reference [OF c'(1)] by (auto simp: saved_ok_def devices_ok_def)
  moreover have "folders_within c (Some v) c'" using c'(3) split(1,3) by (auto simp: folders_within_def)
  ultimately show ?thesis using c'(3) by (simp add: saved_ok_def)
qed

lemma drop_folder_ok: "drop_folder ident c = Inr c' \<Longrightarrow> saved_ok c \<Longrightarrow> saved_ok c' \<and> folders_within c None c'"
  by (auto simp: drop_folder_def saved_ok_def separate_def devices_ok_def folders_within_def distinct_map_filter)

lemma save_enabled_ok:
  assumes "save_enabled ident enabled c = Inr c'" "saved_ok c"
  shows "saved_ok c' \<and> folders_within c None c'"
proof -
  let ?f = "\<lambda>f. f\<lparr>fv_input := (fv_input f)\<lparr>in_enabled := Some enabled\<rparr>\<rparr>"
  from assms(1) obtain folders where c': "replace_first (\<lambda>f. fv_id f = ident) ?f (cg_folders c) = Some folders" "c' = c\<lparr>cg_folders := folders\<rparr>"
    by (auto simp: save_enabled_def result_simps)
  obtain us x vs where split: "cg_folders c = us @ x # vs" "folders = us @ ?f x # vs"
    by (rule replace_first_Some [OF c'(1)])
  have same: "claim (?f x) = claim x" "in_device_id (fv_input (?f x)) = in_device_id (fv_input x)"
    by (simp_all add: claim_def input_paths_def)
  have "separate folders"
  proof (rule separate_claims)
    show "separate (cg_folders c)" using assms(2) by (simp add: saved_ok_def)
  qed (use split same(1) in simp_all)
  moreover have "devices_ok c'"
    using assms(2) unfolding saved_ok_def devices_ok_def c'(2) split by simp
  moreover have "folders_within c None c'"
    unfolding folders_within_def
  proof
    fix g' assume "g' \<in> set (cg_folders c')"
    then consider "g' \<in> set (cg_folders c)" | "g' = ?f x" using c'(2) split by auto
    then show "(\<exists>g \<in> set (cg_folders c). fv_id g = fv_id g' \<and> claim g = claim g') \<or>
      (\<exists>v. None = Some v \<and> fv_id g' = fv_id v \<and> claim g' = claim v)"
    proof cases
      case 2
      then show ?thesis using split(1) same(1) by (intro disjI1 bexI [of _ x]) simp_all
    qed blast
  qed
  ultimately show ?thesis using c'(2) by (simp add: saved_ok_def)
qed

lemma save_binds_ok:
  assumes "save_binds m c = Inr c'" "saved_ok c"
  shows "saved_ok c' \<and> folders_within c None c'"
proof -
  define f :: "folder_view \<Rightarrow> folder_view" where "f = (\<lambda>f. case fmlookup (mg_folders m) (fv_id f) of None \<Rightarrow> f | Some v \<Rightarrow> f\<lparr>fv_input := (fv_input f)\<lparr>in_bind := in_bind (fv_input v)\<rparr>\<rparr>)"
  from assms(1) have c': "c' = c\<lparr>cg_folders := map f (cg_folders c)\<rparr>" by (simp add: save_binds_def f_def)
  have same: "fv_id (f x) = fv_id x" "claim (f x) = claim x" "in_device_id (fv_input (f x)) = in_device_id (fv_input x)" for x
    by (simp_all add: f_def claim_def input_paths_def split: option.split)
  have "separate (map f (cg_folders c))"
    by (rule separate_claims [of "cg_folders c"]) (use assms(2) in \<open>simp_all add: saved_ok_def same\<close>)
  moreover have "devices_ok c'" using assms(2) by (simp add: saved_ok_def devices_ok_def c' same)
  ultimately show ?thesis using same(1,2) by (auto simp: saved_ok_def folders_within_def c')
qed

lemma within_same: "cg_folders c' = cg_folders c \<Longrightarrow> folders_within c view c'"
  by (auto simp: folders_within_def)

lemma insert_device_ok:
  assumes "insert_device d c = Inr c'" "saved_ok c" "dv_id d \<notin> dv_id ` set (cg_devices c)"
  shows "saved_ok c' \<and> folders_within c None c'"
proof -
  from assms(1) have c': "\<forall>e \<in> set (cg_devices c). di_endpoint_id (dv_input e) \<noteq> di_endpoint_id (dv_input d)"
    "c' = c\<lparr>cg_devices := cg_devices c @ [d]\<rparr>"
    by (auto simp: insert_device_def result_simps list_ex_iff)
  then have "di_endpoint_id (dv_input d) \<notin> (\<lambda>d. di_endpoint_id (dv_input d)) ` set (cg_devices c)" by force
  with assms(2,3) c'(2) have "devices_ok c'" by (auto simp: saved_ok_def devices_ok_def)
  with assms(2) c'(2) show ?thesis by (simp add: saved_ok_def within_same)
qed

lemma drop_device_ok:
  assumes "drop_device ident c = Inr c'" "saved_ok c"
  shows "saved_ok c' \<and> folders_within c None c'"
proof -
  from assms(1) have c': "\<forall>f \<in> set (cg_folders c). in_device_id (fv_input f) \<noteq> Some ident"
    "c' = c\<lparr>cg_devices := filter (\<lambda>d. dv_id d \<noteq> ident) (cg_devices c)\<rparr>"
    by (auto simp: drop_device_def result_simps list_ex_iff)
  have "i \<in> dv_id ` set (cg_devices c')" if "f \<in> set (cg_folders c)" "in_device_id (fv_input f) = Some i" for f i
  proof -
    have "i \<in> dv_id ` set (cg_devices c)" "i \<noteq> ident"
      using assms(2) c'(1) that by (auto simp: saved_ok_def devices_ok_def)
    then show ?thesis using c'(2) by auto
  qed
  with assms(2) c'(2) have "devices_ok c'" by (simp add: saved_ok_def devices_ok_def distinct_map_filter)
  with assms(2) c'(2) show ?thesis by (simp add: saved_ok_def within_same)
qed

lemma change_device_ok:
  assumes "change_device ident i c = Inr c'" "saved_ok c"
  shows "saved_ok c' \<and> folders_within c None c'"
proof -
  from assms(1) obtain devices where c': "\<forall>d \<in> set (cg_devices c). dv_id d \<noteq> ident \<longrightarrow> di_endpoint_id (dv_input d) \<noteq> di_endpoint_id i"
    "replace_first (\<lambda>d. dv_id d = ident) (\<lambda>d. d\<lparr>dv_input := i\<rparr>) (cg_devices c) = Some devices" "c' = c\<lparr>cg_devices := devices\<rparr>"
    by (auto simp: change_device_def result_simps list_ex_iff)
  obtain us x vs where split: "cg_devices c = us @ x # vs" "dv_id x = ident" "devices = us @ x\<lparr>dv_input := i\<rparr> # vs"
    by (rule replace_first_Some [OF c'(2)])
  have old: "distinct (map dv_id (us @ x # vs))" "distinct (map (\<lambda>d. di_endpoint_id (dv_input d)) (us @ x # vs))"
    "\<forall>f \<in> set (cg_folders c). \<forall>ident. in_device_id (fv_input f) = Some ident \<longrightarrow> ident \<in> dv_id ` set (us @ x # vs)"
    using assms(2) split(1) unfolding saved_ok_def devices_ok_def by simp_all
  then have ids: "ident \<notin> dv_id ` set us" "ident \<notin> dv_id ` set vs" using split(2) by auto
  have other: "di_endpoint_id i \<noteq> di_endpoint_id (dv_input d)" if "d \<in> set us \<union> set vs" for d
  proof -
    have "dv_id d \<noteq> ident" using that ids by auto
    moreover have "d \<in> set (cg_devices c)" using that split(1) by auto
    ultimately show ?thesis using c'(1) by fastforce
  qed
  have "distinct (map (\<lambda>d. di_endpoint_id (dv_input d)) devices)"
    using old(2) other unfolding split(3) by (auto simp del: bex_simps)
  moreover have "map dv_id devices = map dv_id (us @ x # vs)" "dv_id ` set devices = dv_id ` set (us @ x # vs)" unfolding split(3) by simp_all
  ultimately have "devices_ok c'" using old(1,3) unfolding devices_ok_def c'(3) by simp
  with assms(2) c'(3) show ?thesis by (simp add: saved_ok_def within_same)
qed

section \<open>Operations keep the invariant\<close>

text \<open>What an operation may claim: nothing that another operation has reserved.\<close>

definition unclaimed :: "manager \<Rightarrow> nat \<Rightarrow> folder_view \<Rightarrow> bool" where
  "unclaimed m t v \<longleftrightarrow> (\<forall>t' b u. t' \<noteq> t \<longrightarrow> fmlookup (mg_tasks m) t' = Some b \<longrightarrow> reserved_view b = Some u \<longrightarrow> \<not> claims_conflict v u)"

lemma reserved_unclaimed:
  assumes "manager_inv m" "fmlookup (mg_tasks m) t = Some a" "reserved_view a = Some v"
  shows "unclaimed m t v"
  unfolding unclaimed_def
proof (intro allI impI)
  fix t' b u assume other: "t' \<noteq> t" "fmlookup (mg_tasks m) t' = Some b" "reserved_view b = Some u"
  then have "task_folder a \<noteq> task_folder b" using manager_invD(4) [OF assms(1,2) other(2)] by blast
  then have "fv_id v \<noteq> fv_id u" using reserved_folder(1) [OF assms(3)] reserved_folder(1) [OF other(3)] by simp
  with manager_invD(5) [OF assms(1,2) other(2) assms(3) other(3)] show "\<not> claims_conflict v u" .
qed

lemma unclaimed_claim: "unclaimed m t v \<Longrightarrow> claim w = claim v \<Longrightarrow> unclaimed m t w"
  unfolding unclaimed_def using claims_conflict_cong by blast

lemma put_task_lookup [simp]: "fmlookup (mg_tasks (put_task t x m)) t' = (if t' = t then x else fmlookup (mg_tasks m) t')"
  by (cases x) (auto simp: put_task_def)

lemma put_task_rest [simp]: "mg_config (put_task t x m) = mg_config m" "mg_folders (put_task t x m) = mg_folders m"
  by (simp_all add: put_task_def)

text \<open>A change of the configuration by one operation keeps what the others rely on.\<close>

lemma other_task_ok:
  assumes ok: "task_ok m b" and folder: "task_folder b \<noteq> k" "\<And>k'. k' \<noteq> k \<Longrightarrow> fmlookup (mg_folders m') k' = fmlookup (mg_folders m) k'"
    and within: "folders_within (mg_config m) view (mg_config m')"
    and view: "\<And>v. view = Some v \<Longrightarrow> fv_id v = k \<and> (\<forall>u. reserved_view b = Some u \<longrightarrow> \<not> claims_conflict v u)"
  shows "task_ok m' b"
  unfolding task_ok_def
proof (intro conjI)
  show "case previous_view b of None \<Rightarrow> True | Some old \<Rightarrow> fv_id old = task_folder b" using ok by (simp add: task_ok_def)
next
  show "case added_view b of None \<Rightarrow> True | Some v \<Rightarrow> fv_id v \<notin> fv_id ` set (cg_folders (mg_config m'))"
  proof (cases "added_view b")
    case (Some v)
    then have "fv_id v \<noteq> k" "fv_id v \<notin> fv_id ` set (cg_folders (mg_config m))"
      using ok folder(1) reserved_folder(2) by (auto simp: task_ok_def)
    with Some view within show ?thesis unfolding folders_within_def by (auto simp: image_iff) metis+
  qed simp
next
  show "case reserved_view b of None \<Rightarrow> True | Some v \<Rightarrow> (\<exists>w. fmlookup (mg_folders m') (fv_id v) = Some w \<and> claim w = claim v) \<and>
    (\<forall>g \<in> set (cg_folders (mg_config m')). fv_id g \<noteq> fv_id v \<longrightarrow> \<not> claims_conflict v g)"
  proof (cases "reserved_view b")
    case (Some v)
    then have v: "fv_id v \<noteq> k" "\<exists>w. fmlookup (mg_folders m) (fv_id v) = Some w \<and> claim w = claim v"
      "\<forall>g \<in> set (cg_folders (mg_config m)). fv_id g \<noteq> fv_id v \<longrightarrow> \<not> claims_conflict v g"
      using ok folder(1) reserved_folder(1) by (auto simp: task_ok_def)
    have "\<not> claims_conflict v g'" if g': "g' \<in> set (cg_folders (mg_config m'))" "fv_id g' \<noteq> fv_id v" for g'
    proof -
      from within g'(1) consider g where "g \<in> set (cg_folders (mg_config m))" "fv_id g = fv_id g'" "claim g = claim g'"
        | w where "view = Some w" "claim g' = claim w" unfolding folders_within_def by blast
      then show ?thesis
      proof cases
        case 1
        with v(3) g'(2) have "\<not> claims_conflict v g" by simp
        with claims_conflict_cong [of v v g g'] 1(3) show ?thesis by blast
      next
        case 2
        with view Some have "\<not> claims_conflict v w" using claims_conflict_sym by blast
        with claims_conflict_cong [of v v g' w] 2(2) show ?thesis by blast
      qed
    qed
    with v folder(2) Some show ?thesis by simp
  qed simp
qed

text \<open>One section of an operation: its task moves on, and only the folder of its slot changes.\<close>

lemma retask:
  assumes inv: "manager_inv m"
    and slot: "\<And>t' b. fmlookup (mg_tasks m) t' = Some b \<Longrightarrow> t' \<noteq> t \<Longrightarrow> task_folder b \<noteq> k"
    and folders: "\<And>k'. k' \<noteq> k \<Longrightarrow> fmlookup (mg_folders m') k' = fmlookup (mg_folders m) k'" "\<And>w. fmlookup (mg_folders m') k = Some w \<Longrightarrow> fv_id w = k"
    and tasks: "mg_tasks m' = mg_tasks (put_task t x m)"
    and config: "saved_ok (mg_config m')" "folders_within (mg_config m) view (mg_config m')"
    and view: "\<And>v. view = Some v \<Longrightarrow> fv_id v = k \<and> unclaimed m t v"
    and task: "\<And>task. x = Some task \<Longrightarrow> task_folder task = k \<and> task_ok m' task \<and> (\<forall>v. reserved_view task = Some v \<longrightarrow> unclaimed m t v)"
  shows "manager_inv m'"
  unfolding manager_inv_def
proof (intro conjI allI impI)
  show "saved_ok (mg_config m')" by (rule config(1))
next
  fix k' w assume "fmlookup (mg_folders m') k' = Some w"
  then show "fv_id w = k'" using folders manager_invD(2) [OF inv] by (cases "k' = k") auto
next
  fix t' b assume b: "fmlookup (mg_tasks m') t' = Some b"
  show "task_ok m' b"
  proof (cases "t' = t")
    case True
    with b tasks task show ?thesis by simp
  next
    case False
    with b tasks have old: "fmlookup (mg_tasks m) t' = Some b" by simp
    show ?thesis
    proof (rule other_task_ok [OF manager_invD(3) [OF inv old] slot [OF old False] folders(1) config(2)])
      fix v assume "view = Some v"
      with view old False show "fv_id v = k \<and> (\<forall>u. reserved_view b = Some u \<longrightarrow> \<not> claims_conflict v u)" unfolding unclaimed_def by blast
    qed
  qed
next
  fix t1 t2 a b assume at: "fmlookup (mg_tasks m') t1 = Some a" "fmlookup (mg_tasks m') t2 = Some b" "task_folder a = task_folder b"
  show "t1 = t2"
  proof (cases "t1 = t \<or> t2 = t")
    case True
    with at tasks task slot show ?thesis by (auto split: if_splits)
  next
    case False
    with at tasks show ?thesis using manager_invD(4) [OF inv, of t2 b t1 a] by simp
  qed
next
  fix t1 t2 a b v u assume at: "fmlookup (mg_tasks m') t1 = Some a" "fmlookup (mg_tasks m') t2 = Some b"
    "reserved_view a = Some v" "reserved_view b = Some u" "fv_id v \<noteq> fv_id u"
  consider "t1 = t" "t2 = t" | "t1 = t" "t2 \<noteq> t" | "t1 \<noteq> t" "t2 = t" | "t1 \<noteq> t" "t2 \<noteq> t" by blast
  then show "\<not> claims_conflict v u"
  proof cases
    case 1
    with at show ?thesis by simp
  next
    case 2
    with at tasks have "fmlookup (mg_tasks m) t2 = Some b" "x = Some a" by simp_all
    with task at(3,4) 2 show ?thesis unfolding unclaimed_def by blast
  next
    case 3
    with at tasks have "fmlookup (mg_tasks m) t1 = Some a" "x = Some b" by simp_all
    with task at(3,4) 3 have "\<not> claims_conflict u v" unfolding unclaimed_def by blast
    then show ?thesis using claims_conflict_sym by blast
  next
    case 4
    with at tasks show ?thesis using manager_invD(5) [OF inv _ _ at(3-5), of t1 t2] by simp
  qed
qed

text \<open>The sections that leave the configuration as it is.\<close>

lemma retask_same:
  assumes inv: "manager_inv m" and old: "fmlookup (mg_tasks m) t = Some a"
    and folders: "\<And>k'. k' \<noteq> task_folder a \<Longrightarrow> fmlookup (mg_folders m') k' = fmlookup (mg_folders m) k'"
      "\<And>w. fmlookup (mg_folders m') (task_folder a) = Some w \<Longrightarrow> fv_id w = task_folder a"
    and tasks: "mg_tasks m' = mg_tasks (put_task t x m)" and config: "mg_config m' = mg_config m"
    and task: "\<And>task. x = Some task \<Longrightarrow> task_folder task = task_folder a \<and> task_ok m' task \<and>
      (\<forall>v. reserved_view task = Some v \<longrightarrow> reserved_view a = Some v \<or> unclaimed m t v)"
  shows "manager_inv m'"
proof (rule retask [OF inv _ folders tasks])
  show "task_folder b \<noteq> task_folder a" if "fmlookup (mg_tasks m) t' = Some b" "t' \<noteq> t" for t' b
    using manager_invD(4) [OF inv that(1) old] that(2) by blast
  show "saved_ok (mg_config m')" using inv config by (simp add: manager_inv_def)
  show "folders_within (mg_config m) None (mg_config m')" by (simp add: within_same config)
  show "task_folder task = task_folder a \<and> task_ok m' task \<and> (\<forall>v. reserved_view task = Some v \<longrightarrow> unclaimed m t v)" if "x = Some task" for task
    using task [OF that] reserved_unclaimed [OF inv old] by blast
qed simp_all

lemma put_view_rest [simp]: "mg_config (put_view v m) = mg_config m" "mg_tasks (put_view v m) = mg_tasks m"
  "fmlookup (mg_folders (put_view v m)) k = (if k = fv_id v then Some v else fmlookup (mg_folders m) k)"
  by (auto simp: put_view_def)

lemma drop_view_rest [simp]: "mg_config (drop_view i m) = mg_config m" "mg_tasks (drop_view i m) = mg_tasks m"
  "fmlookup (mg_folders (drop_view i m)) k = (if k = i then None else fmlookup (mg_folders m) k)"
  by (auto simp: drop_view_def)

lemma change_view_rest [simp]: "mg_config (change_view i f m) = mg_config m" "mg_tasks (change_view i f m) = mg_tasks m"
  by (auto simp: change_view_def split: option.split)

lemma change_view_lookup:
  assumes "\<And>k w. fmlookup (mg_folders m) k = Some w \<Longrightarrow> fv_id w = k" "\<And>v. fv_id (f v) = fv_id v"
  shows "fmlookup (mg_folders (change_view i f m)) k = (if k = i then map_option f (fmlookup (mg_folders m) k) else fmlookup (mg_folders m) k)"
  using assms by (auto simp: change_view_def split: option.split)

lemma set_status_rest [simp]: "mg_config (set_status i s m) = mg_config m" "mg_tasks (set_status i s m) = mg_tasks m"
  by (simp_all add: set_status_def)

lemma started_view_rest [simp]: "mg_config (started_view b i m) = mg_config m" "mg_tasks (started_view b i m) = mg_tasks m"
  by (auto simp: started_view_def Let_def split: option.split)

lemma started_view_lookup:
  assumes "\<And>k w. fmlookup (mg_folders m) k = Some w \<Longrightarrow> fv_id w = k"
  shows "k \<noteq> i \<Longrightarrow> fmlookup (mg_folders (started_view b i m)) k = fmlookup (mg_folders m) k"
    "fmlookup (mg_folders m) i = Some v \<Longrightarrow> \<exists>w. fmlookup (mg_folders (started_view b i m)) i = Some w \<and> fv_id w = i \<and> claim w = claim v"
    "fmlookup (mg_folders m) i = None \<Longrightarrow> started_view b i m = m"
  using assms [of i] by (auto simp: started_view_def set_status_def change_view_def Let_def put_view_def claim_def input_paths_def split: option.split)

lemma started_view_key:
  assumes "\<And>k w. fmlookup (mg_folders m) k = Some w \<Longrightarrow> fv_id w = k" "fmlookup (mg_folders (started_view b i m)) i = Some w"
  shows "fv_id w = i"
proof (cases "fmlookup (mg_folders m) i")
  case None
  with started_view_lookup(3) [OF assms(1) None, where b = b] assms(2) show ?thesis by simp
next
  case (Some v)
  with started_view_lookup(2) [OF assms(1) Some, where b = b] assms(2) show ?thesis by auto
qed

lemma put_task_tasks: "mg_tasks m = mg_tasks m' \<Longrightarrow> mg_tasks (put_task t x m) = mg_tasks (put_task t x m')"
  by (simp add: put_task_def split: option.split)

lemma reservableD:
  assumes "reservable m v"
  shows "fmlookup (mg_folders m) k = Some w \<Longrightarrow> fv_id w \<noteq> fv_id v \<Longrightarrow> \<not> claims_conflict v w"
    "g \<in> set (cg_folders (mg_config m)) \<Longrightarrow> fv_id g \<noteq> fv_id v \<Longrightarrow> \<not> claims_conflict v g"
proof -
  have "w \<in> snd ` set (sorted_list_of_fmap (mg_folders m))" if "fmlookup (mg_folders m) k = Some w"
    using that by (force simp: sorted_list_of_fmap_def fmlookup_dom_iff)
  then show "fmlookup (mg_folders m) k = Some w \<Longrightarrow> fv_id w \<noteq> fv_id v \<Longrightarrow> \<not> claims_conflict v w"
    using assms by (auto simp: reservable_def list_ex_iff)
  show "g \<in> set (cg_folders (mg_config m)) \<Longrightarrow> fv_id g \<noteq> fv_id v \<Longrightarrow> \<not> claims_conflict v g"
    using assms by (auto simp: reservable_def list_ex_iff)
qed

lemma reservable_unclaimed:
  assumes inv: "manager_inv m" and v: "reservable m v" and old: "fmlookup (mg_tasks m) t = Some a" "task_folder a = fv_id v"
  shows "unclaimed m t v"
  unfolding unclaimed_def
proof (intro allI impI)
  fix t' b u assume other: "t' \<noteq> t" "fmlookup (mg_tasks m) t' = Some b" "reserved_view b = Some u"
  from manager_invD(3) [OF inv other(2)] other(3) obtain w where w: "fmlookup (mg_folders m) (fv_id u) = Some w" "claim w = claim u"
    by (auto simp: task_ok_def)
  have "fv_id u \<noteq> fv_id v"
    using manager_invD(4) [OF inv old(1) other(2)] other(1) old(2) reserved_folder(1) [OF other(3)] by metis
  then have "\<not> claims_conflict v w" using reservableD(1) [OF v w(1)] manager_invD(2) [OF inv w(1)] by simp
  with claims_conflict_cong [of v v w u] w(2) show "\<not> claims_conflict v u" by blast
qed

text \<open>The folder of a task has one view, and its task is all that moves.\<close>

lemma reserve_inv:
  assumes inv: "manager_inv m" and old: "fmlookup (mg_tasks m) t = Some a" and step: "reserve t a m = Some m'"
  shows "manager_inv m'"
proof (cases "\<exists>v. (a = AddChecked v \<or> (\<exists>u. a = UpdateChecked u v)) \<and> reservable m v")
  case True
  then obtain v where a: "a = AddChecked v \<or> (\<exists>u. a = UpdateChecked u v)" and v: "reservable m v" by blast
  have "unclaimed m t v" by (rule reservable_unclaimed [OF inv v old]) (use a in auto)
  moreover note task = manager_invD(3) [OF inv old]
  ultimately show ?thesis
  proof (cases a)
    case (AddChecked w)
    then have m': "m' = put_task t (Some (AddStarting v)) ((put_view v m)\<lparr>mg_revision := mg_revision m + 1\<rparr>)"
      using a v step by auto
    show ?thesis
      by (rule retask_same [OF inv old, where x = "Some (AddStarting v)"])
        (use a v task m' \<open>unclaimed m t v\<close> reservableD(2) [OF v] AddChecked in \<open>auto simp: task_ok_def put_task_def put_view_def\<close>)
  next
    case (UpdateChecked u w)
    then have m': "m' = put_task t (Some (UpdateStopping u v)) (put_view v m)"
      using a v step by auto
    show ?thesis
      by (rule retask_same [OF inv old, where x = "Some (UpdateStopping u v)"])
        (use a v task m' \<open>unclaimed m t v\<close> reservableD(2) [OF v] UpdateChecked in \<open>auto simp: task_ok_def put_task_def put_view_def\<close>)
  qed (use a in auto)
next
  case False
  with step have "m' = put_task t None m" by (cases a) auto
  then show ?thesis by (intro retask_same [OF inv old, where x = None]) (use manager_invD(2) [OF inv] in auto)
qed

lemma worker_stopped_inv:
  assumes inv: "manager_inv m" and old: "fmlookup (mg_tasks m) t = Some a" and step: "worker_stopped t stopped a m = Some m'"
  shows "manager_inv m'"
proof -
  note task = manager_invD(3) [OF inv old] and key = manager_invD(2) [OF inv]
  from step consider
      u v where "a = UpdateStopping u v" "m' = put_task t (if stopped then Some (UpdateStarting u v) else None) m"
    | u v where "a = UpdateUnwinding u v" "stopped" "m' = put_task t (Some (UpdateRestoring u None)) (put_view u m)"
    | v where "a = AddUnwinding v" "stopped" "m' = put_task t None (drop_view (fv_id v) m)"
    | u where "a = RemoveStopping u" "m' = put_task t (if stopped then Some (RemoveSaving u) else None) m"
    | "m' = put_task t None m"
    by (cases a; cases stopped) auto
  then show ?thesis
  proof cases
    case (1 u v)
    show ?thesis
      by (rule retask_same [OF inv old, where x = "if stopped then Some (UpdateStarting u v) else None"])
        (use 1 task key in \<open>auto simp: task_ok_def split: if_splits\<close>)
  next
    case (2 u v)
    show ?thesis
      by (rule retask_same [OF inv old, where x = "Some (UpdateRestoring u None)"])
        (use 2 task key in \<open>auto simp: task_ok_def put_task_def put_view_def\<close>)
  next
    case (3 v)
    show ?thesis
      by (rule retask_same [OF inv old, where x = None]) (use 3 task key in \<open>auto simp: put_task_def drop_view_def\<close>)
  next
    case (4 u)
    show ?thesis
      by (rule retask_same [OF inv old, where x = "if stopped then Some (RemoveSaving u) else None"])
        (use 4 task key in \<open>auto simp: task_ok_def split: if_splits\<close>)
  next
    case 5
    show ?thesis by (rule retask_same [OF inv old, where x = None]) (use 5 key in auto)
  qed
qed

lemma started_task:
  assumes inv: "manager_inv m" and old: "fmlookup (mg_tasks m) t = Some a" and m': "m' = put_task t x (started_view bound (task_folder a) m)"
    and x: "\<And>task. x = Some task \<Longrightarrow> task_folder task = task_folder a \<and> previous_view task = previous_view a \<and>
      added_view task = added_view a \<and> reserved_view task = reserved_view a"
  shows "manager_inv m'"
proof (rule retask_same [OF inv old, where x = x])
  note key = manager_invD(2) [OF inv]
  show "fmlookup (mg_folders m') k' = fmlookup (mg_folders m) k'" if "k' \<noteq> task_folder a" for k'
    using started_view_lookup(1) [OF key that] m' by simp
  show "fv_id w = task_folder a" if "fmlookup (mg_folders m') (task_folder a) = Some w" for w
    using started_view_key [OF key] that m' by simp
  show "mg_tasks m' = mg_tasks (put_task t x m)" unfolding m' by (rule put_task_tasks) simp
  show "mg_config m' = mg_config m" by (simp add: m')
  fix task assume task: "x = Some task"
  have "\<exists>w. fmlookup (mg_folders m') (fv_id v) = Some w \<and> claim w = claim v" if v: "reserved_view a = Some v" for v
  proof -
    from manager_invD(3) [OF inv old] v obtain w where w: "fmlookup (mg_folders m) (task_folder a) = Some w" "claim w = claim v"
      using reserved_folder(1) [OF v] by (auto simp: task_ok_def)
    from started_view_lookup(2) [OF key w(1), where b = bound] w(2) show ?thesis using reserved_folder(1) [OF v] m' by auto
  qed
  with manager_invD(3) [OF inv old] x [OF task] have "task_ok m' task"
    unfolding task_ok_def m' by (auto split: option.splits)
  with x [OF task] show "task_folder task = task_folder a \<and> task_ok m' task \<and>
    (\<forall>v. reserved_view task = Some v \<longrightarrow> reserved_view a = Some v \<or> unclaimed m t v)" by simp
qed

lemma worker_started_inv:
  assumes inv: "manager_inv m" and old: "fmlookup (mg_tasks m) t = Some a" and step: "worker_started t started a m = Some m'"
  shows "manager_inv m'"
proof (cases started)
  case (Inr bound)
  with step show ?thesis
    by (cases a) (auto intro!: started_task [OF inv old, where bound = bound])
next
  case (Inl e)
  note task = manager_invD(3) [OF inv old] and key = manager_invD(2) [OF inv]
  from Inl step consider
      v where "a = AddStarting v" "m' = put_task t None (drop_view (fv_id v) m)"
    | u v where "a = UpdateStarting u v" "m' = put_task t (Some (UpdateRestoring u (Some e))) (put_view u m)"
    | u x where "a = UpdateRestoring u (Some x)" "m' = put_task t None (change_view (fv_id u) (not_restored x e) m)"
    | "m' = put_task t None m"
    by (cases a) (auto split: option.splits)
  then show ?thesis
  proof cases
    case (1 v)
    show ?thesis
      by (rule retask_same [OF inv old, where x = None]) (use 1 task key in \<open>auto simp: put_task_def drop_view_def\<close>)
  next
    case (2 u v)
    show ?thesis
      by (rule retask_same [OF inv old, where x = "Some (UpdateRestoring u (Some e))"])
        (use 2 task key in \<open>auto simp: task_ok_def put_task_def put_view_def\<close>)
  next
    case (3 u x)
    have "fv_id (not_restored x e v) = fv_id v" for v by (simp add: not_restored_def)
    note lookup = change_view_lookup [OF key this]
    show ?thesis
      by (rule retask_same [OF inv old, where x = None])
        (use 3 key in \<open>auto simp: put_task_tasks [of "change_view _ _ m" m] lookup not_restored_def split: if_splits\<close>)
  next
    case 4
    show ?thesis by (rule retask_same [OF inv old, where x = None]) (use 4 key in auto)
  qed
qed

lemma observed_apart:
  assumes "\<forall>g \<in> set (cg_folders (mg_config m)). fv_id g \<noteq> k \<longrightarrow> \<not> claims_conflict v g" "claim w = claim v"
  shows "\<forall>g \<in> set (cg_folders (observed_config m)). fv_id g \<noteq> k \<longrightarrow> \<not> claims_conflict w g"
proof (intro ballI impI)
  fix g' assume g': "g' \<in> set (cg_folders (observed_config m))" "fv_id g' \<noteq> k"
  then obtain g where "g \<in> set (cg_folders (mg_config m))" "g' = observed_folder m g" by (auto simp: observed_config_def)
  with assms(1) g'(2) have "\<not> claims_conflict v g" "claim g' = claim g" by auto
  with claims_conflict_cong [of w v g' g] assms(2) show "\<not> claims_conflict w g'" by blast
qed

lemma observed_ids [simp]: "fv_id ` set (cg_folders (observed_config m)) = fv_id ` set (cg_folders (mg_config m))"
  by (simp add: observed_config_def image_image)

lemma add_activity_rest [simp]: "mg_config (add_activity S f k d p m) = mg_config m" "mg_folders (add_activity S f k d p m) = mg_folders m"
  "mg_tasks (add_activity S f k d p m) = mg_tasks m"
  by (auto simp: add_activity_def trim_history_def Let_def split: prod.split)

text \<open>A section that saves a configuration: its task holds no claim afterwards.\<close>

lemma saved_task:
  assumes inv: "manager_inv m" and old: "fmlookup (mg_tasks m) t = Some a"
    and config: "saved_ok (mg_config m') \<and> folders_within (observed_config m) view (mg_config m')"
    and view: "\<And>v. view = Some v \<Longrightarrow> fv_id v = task_folder a \<and> unclaimed m t v"
    and folders: "\<And>k'. k' \<noteq> task_folder a \<Longrightarrow> fmlookup (mg_folders m') k' = fmlookup (mg_folders m) k'"
      "\<And>w. fmlookup (mg_folders m') (task_folder a) = Some w \<Longrightarrow> fv_id w = task_folder a"
    and tasks: "mg_tasks m' = mg_tasks (put_task t x m)"
    and task: "\<And>task. x = Some task \<Longrightarrow> task_folder task = task_folder a \<and> previous_view task = None \<and> added_view task = None \<and> reserved_view task = None"
  shows "manager_inv m'"
proof (rule retask [OF inv _ folders tasks])
  show "task_folder b \<noteq> task_folder a" if "fmlookup (mg_tasks m) t' = Some b" "t' \<noteq> t" for t' b
    using manager_invD(4) [OF inv that(1) old] that(2) by blast
  show "saved_ok (mg_config m')" "folders_within (mg_config m) view (mg_config m')"
    using config folders_within_observed by blast+
  show "fv_id v = task_folder a \<and> unclaimed m t v" if "view = Some v" for v by (rule view [OF that])
  show "task_folder task = task_folder a \<and> task_ok m' task \<and> (\<forall>v. reserved_view task = Some v \<longrightarrow> unclaimed m t v)" if "x = Some task" for task
    using task [OF that] by (simp add: task_ok_def)
qed

lemma reserved_folder_view:
  assumes inv: "manager_inv m" and old: "fmlookup (mg_tasks m) t = Some a" and "reserved_view a = Some v" "fmlookup (mg_folders m) (fv_id v) = Some view"
  shows "fv_id view = task_folder a" "claim view = claim v" "unclaimed m t view"
    "\<forall>g \<in> set (cg_folders (observed_config m)). fv_id g \<noteq> fv_id view \<longrightarrow> \<not> claims_conflict view g"
proof -
  show ids: "fv_id view = task_folder a" using manager_invD(2) [OF inv assms(4)] reserved_folder(1) [OF assms(3)] by simp
  show claim: "claim view = claim v" using manager_invD(3) [OF inv old] assms(3,4) by (auto simp: task_ok_def)
  show "unclaimed m t view" by (rule unclaimed_claim [OF reserved_unclaimed [OF inv old assms(3)] claim])
  have "\<forall>g \<in> set (cg_folders (mg_config m)). fv_id g \<noteq> fv_id v \<longrightarrow> \<not> claims_conflict v g"
    using manager_invD(3) [OF inv old] assms(3) by (auto simp: task_ok_def)
  from observed_apart [OF this claim] show "\<forall>g \<in> set (cg_folders (observed_config m)). fv_id g \<noteq> fv_id view \<longrightarrow> \<not> claims_conflict view g"
    using ids reserved_folder(1) [OF assms(3)] by simp
qed

lemma configuration_saved_inv:
  assumes inv: "manager_inv m" and old: "fmlookup (mg_tasks m) t = Some a" and step: "configuration_saved S t saved a m = Some m'"
  shows "manager_inv m'"
proof -
  note key = manager_invD(2) [OF inv] and ok = observed_config_ok [OF manager_invD(1) [OF inv]]
  from step consider
      v view m1 where "a = AddSaving v" "fmlookup (mg_folders m) (fv_id v) = Some view" "persist (push_folder view) saved m = Inr m1"
        "m' = put_task t None (add_activity S (Some (fv_id v)) ''folder_added'' (in_name (fv_input v)) None m1)"
    | u v view m1 where "a = UpdateSaving u v" "fmlookup (mg_folders m) (fv_id v) = Some view" "persist (save_folder view) saved m = Inr m1"
        "m' = put_task t None m1"
    | u m1 where "a = RemoveSaving u" "persist (drop_folder (fv_id u)) saved m = Inr m1" "m' = put_task t (Some (RemoveDropping u)) m1"
    | x where "m' = put_task t (Some x) m" "task_folder x = task_folder a" "previous_view x = previous_view a" "added_view x = None" "reserved_view x = None"
    | u where "a = RemoveDropping u" "m' = put_task t None (add_activity S (Some (fv_id u)) ''folder_removed''
       ''Connection removed; local files retained'' None (drop_view (fv_id u) m))"
    by (cases a) (force split: sum.splits bind_splits)+
  then show ?thesis
  proof cases
    case (1 v view m1)
    from 1(3) obtain c where c: "push_folder view (observed_config m) = Inr c" "mg_config m1 = c" "mg_folders m1 = mg_folders m" "mg_tasks m1 = mg_tasks m"
      by (rule persist_Inr)
    have "reserved_view a = Some v" using 1(1) by simp
    note view = reserved_folder_view [OF inv old this 1(2)]
    have fresh: "fv_id view \<notin> fv_id ` set (cg_folders (observed_config m))"
      using manager_invD(3) [OF inv old] 1(1) view(1) by (simp add: task_ok_def)
    have "saved_ok c \<and> folders_within (observed_config m) (Some view) c"
      by (rule push_folder_ok [OF c(1) ok fresh]) (use view(4) fresh in \<open>metis imageI\<close>)
    with 1 c view key show ?thesis
      by (intro saved_task [OF inv old, where view = "Some view" and x = None]) (auto simp: put_task_def)
  next
    case (2 u v view m1)
    from 2(3) obtain c where c: "save_folder view (observed_config m) = Inr c" "mg_config m1 = c" "mg_folders m1 = mg_folders m" "mg_tasks m1 = mg_tasks m"
      by (rule persist_Inr)
    have "reserved_view a = Some v" using 2(1) by simp
    note view = reserved_folder_view [OF inv old this 2(2)]
    have "saved_ok c \<and> folders_within (observed_config m) (Some view) c"
      by (rule save_folder_ok [OF c(1) ok view(4)])
    with 2 c view key show ?thesis
      by (intro saved_task [OF inv old, where view = "Some view" and x = None]) (auto simp: put_task_def)
  next
    case (3 u m1)
    from 3(2) obtain c where c: "drop_folder (fv_id u) (observed_config m) = Inr c" "mg_config m1 = c" "mg_folders m1 = mg_folders m" "mg_tasks m1 = mg_tasks m"
      by (rule persist_Inr)
    with drop_folder_ok [OF c(1) ok] 3 key show ?thesis
      by (intro saved_task [OF inv old, where view = None and x = "Some (RemoveDropping u)"]) (auto simp: put_task_def)
  next
    case (4 x)
    show ?thesis
      by (rule retask_same [OF inv old, where x = "Some x"]) (use 4 key manager_invD(3) [OF inv old] in \<open>auto simp: task_ok_def split: option.splits\<close>)
  next
    case (5 u)
    show ?thesis
      by (rule retask_same [OF inv old, where x = None]) (use 5 key in \<open>auto simp: put_task_def drop_view_def\<close>)
  qed
qed

lemma worker_answered_inv:
  assumes inv: "manager_inv m" and old: "fmlookup (mg_tasks m) t = Some a" and step: "worker_answered t answered saved a m = Some m'"
  shows "manager_inv m'"
proof -
  note key = manager_invD(2) [OF inv] and ok = observed_config_ok [OF manager_invD(1) [OF inv]]
  from step consider "m' = put_task t None m"
    | i c m1 where "a = CommandRunning i c" "persist (save_enabled i (c = Resume)) saved m = Inr m1"
        "m' = put_task t None ((change_view i (\<lambda>v. v\<lparr>fv_input := (fv_input v)\<lparr>in_enabled := Some (c = Resume)\<rparr>\<rparr>) m1)
           \<lparr>mg_revision := mg_revision m1 + 1\<rparr>)"
    by (cases a) (auto split: sum.splits if_splits)
  then show ?thesis
  proof cases
    case 1
    show ?thesis by (rule retask_same [OF inv old, where x = None]) (use 1 key in auto)
  next
    case (2 i c m1)
    from 2(2) obtain d where d: "save_enabled i (c = Resume) (observed_config m) = Inr d" "mg_config m1 = d" "mg_folders m1 = mg_folders m" "mg_tasks m1 = mg_tasks m"
      by (rule persist_Inr)
    have folders: "fmlookup (mg_folders m') k = (if k = i then map_option (\<lambda>v. v\<lparr>fv_input := (fv_input v)\<lparr>in_enabled := Some (c = Resume)\<rparr>\<rparr>)
      (fmlookup (mg_folders m) i) else fmlookup (mg_folders m) k)" for k
      using 2(3) d(3) key by (auto simp: put_task_def put_view_def change_view_def split: option.split)
    have "mg_config m' = d" "mg_tasks m' = mg_tasks (put_task t None m)"
      using 2(3) d(2,4) by (simp_all add: put_task_def)
    with save_enabled_ok [OF d(1) ok] folders 2(1) key show ?thesis
      by (intro saved_task [OF inv old, where view = None and x = None]) auto
  qed
qed

lemma slot_freeD: "slot_free k m \<Longrightarrow> fmlookup (mg_tasks m) t = Some b \<Longrightarrow> task_folder b \<noteq> k"
  by (auto simp: slot_free_iff)

text \<open>An operation that begins takes its slot.\<close>

lemma begin_task:
  assumes inv: "manager_inv m" and free: "slot_free k m"
    and folders: "\<And>k'. k' \<noteq> k \<Longrightarrow> fmlookup (mg_folders m') k' = fmlookup (mg_folders m) k'" "\<And>w. fmlookup (mg_folders m') k = Some w \<Longrightarrow> fv_id w = k"
    and tasks: "mg_tasks m' = mg_tasks (put_task t (Some task) m)" and config: "mg_config m' = mg_config m"
    and task: "task_folder task = k" "task_ok m' task" "reserved_view task = None"
  shows "manager_inv m'"
proof (rule retask [OF inv _ folders tasks])
  show "task_folder b \<noteq> k" if "fmlookup (mg_tasks m) t' = Some b" for t' b by (rule slot_freeD [OF free that])
  show "saved_ok (mg_config m')" using manager_invD(1) [OF inv] config by simp
  show "folders_within (mg_config m) None (mg_config m')" by (simp add: within_same config)
qed (use task in auto)

lemma begin_add_inv:
  assumes inv: "manager_inv m" and fresh: "fresh_folder ident m" and step: "begin_add S t ident i fs endpoint m = Some m'"
  shows "manager_inv m'"
proof -
  from step obtain i2 where m': "m' = put_task t (Some (AddChecked (new_view i2 ident endpoint))) m"
    by (auto simp: begin_add_def committed_to_def and_then_def split: sum.splits)
  have "fv_id (new_view i2 ident endpoint) = ident" by (simp add: new_view_def)
  with fresh show ?thesis unfolding m'
    by (intro begin_task [OF inv, where k = ident and task = "AddChecked (new_view i2 ident endpoint)"])
      (auto simp: fresh_folder_def task_ok_def manager_invD(2) [OF inv])
qed

lemma begin_update_inv:
  assumes inv: "manager_inv m" and free: "slot_free ident m" and step: "begin_update S t ident i fs endpoint m = Some m'"
  shows "manager_inv m'"
proof -
  from step obtain u i2 where m': "fmlookup (mg_folders m) ident = Some u"
    "m' = put_task t (Some (UpdateChecked u (u\<lparr>fv_input := i2, fv_endpoint_id := endpoint, fv_status := ''starting'', fv_addresses := []\<rparr>))) m"
    by (auto simp: begin_update_def committed_to_def and_then_def ok_or_def split: sum.splits option.splits)
  from manager_invD(2) [OF inv m'(1)] free show ?thesis unfolding m'(2)
    by (intro begin_task [OF inv, where k = ident and task = "UpdateChecked u (u\<lparr>fv_input := i2, fv_endpoint_id := endpoint,
      fv_status := ''starting'', fv_addresses := []\<rparr>)"]) (auto simp: task_ok_def manager_invD(2) [OF inv])
qed

lemma begin_command_inv:
  assumes inv: "manager_inv m" and free: "slot_free ident m"
  shows "manager_inv (begin_command t ident c m)"
  by (rule begin_task [OF inv free, where task = "CommandRunning ident c" and t = t])
    (use manager_invD(2) [OF inv] in \<open>auto simp: begin_command_def put_task_def task_ok_def split: option.splits if_splits\<close>)

text \<open>The devices and the settings.\<close>

lemma persist_inv:
  assumes inv: "manager_inv m" and step: "persist mutate saved m = Inr m'"
    and mutate: "\<And>c. mutate (observed_config m) = Inr c \<Longrightarrow> saved_ok c \<and> folders_within (observed_config m) None c"
  shows "manager_inv m'"
proof -
  from step obtain c where c: "mutate (observed_config m) = Inr c" "mg_config m' = c" "mg_folders m' = mg_folders m" "mg_tasks m' = mg_tasks m"
    by (rule persist_Inr)
  have "task_ok m' b" if "fmlookup (mg_tasks m) t = Some b" for t b
    by (rule other_task_ok [OF manager_invD(3) [OF inv that], where view = None and k = "task_folder b @ ''x''"])
      (use c mutate [OF c(1)] folders_within_observed in auto)
  with inv c mutate [OF c(1)] show ?thesis unfolding manager_inv_def c(3,4) by blast
qed

lemma persist_step_inv:
  assumes "manager_inv m" "committed_to (and_then r (\<lambda>_. persist mutate saved m)) = Some m'"
    "\<And>c. mutate (observed_config m) = Inr c \<Longrightarrow> saved_ok c \<and> folders_within (observed_config m) None c"
  shows "manager_inv m'"
  using assms(2) persist_inv [OF assms(1) _ assms(3)] by (auto simp: committed_to_def and_then_def split: sum.splits)

text \<open>A view may change in everything but its claim.\<close>

lemma review_inv:
  assumes inv: "manager_inv m" and rest: "mg_config m' = mg_config m" "mg_tasks m' = mg_tasks m"
    and folders: "\<And>k w. fmlookup (mg_folders m') k = Some w \<Longrightarrow> fv_id w = k"
      "\<And>k v. fmlookup (mg_folders m) k = Some v \<Longrightarrow> \<exists>w. fmlookup (mg_folders m') k = Some w \<and> claim w = claim v"
  shows "manager_inv m'"
proof -
  have claims: "\<exists>w. fmlookup (mg_folders m') k = Some w \<and> claim w = c" if "\<exists>w. fmlookup (mg_folders m) k = Some w \<and> claim w = c" for k c
    using that folders(2) by metis
  have "task_ok m' b" if "task_ok m b" for b
    using that claims unfolding task_ok_def rest by (cases "reserved_view b") simp_all
  with inv folders(1) show ?thesis unfolding manager_inv_def rest by blast
qed

lemma change_view_inv:
  assumes inv: "manager_inv m" and f: "\<And>v. fv_id (f v) = fv_id v" "\<And>v. claim (f v) = claim v"
  shows "manager_inv (change_view ident f m)"
proof (rule review_inv [OF inv])
  have lookup: "fmlookup (mg_folders (change_view ident f m)) k =
    (if k = ident then map_option f (fmlookup (mg_folders m) k) else fmlookup (mg_folders m) k)" for k
    by (rule change_view_lookup) (rule manager_invD(2) [OF inv], assumption, rule f(1))
  show "fv_id w = k" if "fmlookup (mg_folders (change_view ident f m)) k = Some w" for k w
    using that manager_invD(2) [OF inv] by (auto simp: lookup f split: if_splits)
  show "\<exists>w. fmlookup (mg_folders (change_view ident f m)) k = Some w \<and> claim w = claim v" if "fmlookup (mg_folders m) k = Some v" for k v
    using that f(2) unfolding lookup by auto
qed simp_all

lemma manager_inv_same:
  "manager_inv m \<Longrightarrow> mg_config m' = mg_config m \<Longrightarrow> mg_folders m' = mg_folders m \<Longrightarrow> mg_tasks m' = mg_tasks m \<Longrightarrow> manager_inv m'"
  by (rule review_inv) (auto dest: manager_invD(2))

lemma worker_reports_inv: "manager_inv m \<Longrightarrow> manager_inv (worker_reports ident p m)"
  by (rule manager_inv_same [OF change_view_inv [where f = "progressed p" and ident = ident]])
    (auto simp: worker_reports_def progressed_def claim_def)

lemma folder_opened_inv:
  assumes inv: "manager_inv m"
  shows "manager_inv (folder_opened S ident started m)"
proof (cases started)
  case (Inl e)
  have "manager_inv (change_view ident (\<lambda>v. v\<lparr>fv_status := ''error'', fv_last_error := Some e\<rparr>) m)"
    by (rule change_view_inv [OF inv]) (simp_all add: claim_def)
  then show ?thesis unfolding folder_opened_def Inl sum.case by (rule manager_inv_same) simp_all
next
  case (Inr bound)
  note key = manager_invD(2) [OF inv]
  have "manager_inv (started_view bound ident m)"
  proof (rule review_inv [OF inv])
    show "fv_id w = k" if "fmlookup (mg_folders (started_view bound ident m)) k = Some w" for k w
    proof (cases "k = ident")
      case True
      with started_view_key [OF key that [unfolded True]] show ?thesis by simp
    next
      case False
      have "fmlookup (mg_folders (started_view bound ident m)) k = fmlookup (mg_folders m) k"
        by (rule started_view_lookup(1) [OF key False])
      with that show ?thesis by (simp add: key)
    qed
    show "\<exists>w. fmlookup (mg_folders (started_view bound ident m)) k = Some w \<and> claim w = claim v" if "fmlookup (mg_folders m) k = Some v" for k v
    proof (cases "k = ident")
      case True
      with started_view_lookup(2) [OF key that [unfolded True], where b = bound] show ?thesis by blast
    next
      case False
      have "fmlookup (mg_folders (started_view bound ident m)) k = fmlookup (mg_folders m) k"
        by (rule started_view_lookup(1) [OF key False])
      with that show ?thesis by simp
    qed
  qed simp_all
  with Inr show ?thesis by (simp add: folder_opened_def)
qed

lemma manager_step_inv:
  assumes inv: "manager_inv m" and step: "manager_step S ev m = Some m'"
  shows "manager_inv m'"
proof (cases ev)
  case (AddFolder t ident i fs endpoint)
  with inv step begin_add_inv show ?thesis by (auto split: if_splits)
next
  case (UpdateFolder t ident i fs endpoint)
  with inv step begin_update_inv show ?thesis by (auto split: if_splits)
next
  case (RemoveFolder t ident)
  with step obtain old where old: "slot_free ident m" "fmlookup (mg_folders m) ident = Some old" "m' = put_task t (Some (RemoveStopping old)) m"
    by (auto split: if_splits)
  with manager_invD(2) [OF inv] show ?thesis
    by (intro begin_task [OF inv old(1), where task = "RemoveStopping old" and t = t]) (auto simp: task_ok_def)
next
  case (MarkPausing t ident)
  with step have m': "m' = mark_pausing t ident m" by (simp split: if_splits)
  have "manager_inv (change_view ident (\<lambda>v. v\<lparr>fv_status := ''pausing''\<rparr>) m)"
    by (rule change_view_inv [OF inv]) (simp_all add: claim_def)
  then show ?thesis unfolding m' mark_pausing_def by (rule manager_inv_same) simp_all
next
  case (Command t ident c)
  with inv step begin_command_inv show ?thesis by (auto split: if_splits)
next
  case (AddDevice ident at i saved)
  let ?d = "\<lparr>dv_input = i, dv_id = ident, dv_added_at = at, dv_last_seen_at = None\<rparr>"
  from AddDevice step have fresh: "dv_id ?d \<notin> dv_id ` set (cg_devices (observed_config m))"
    and run: "committed_to (and_then (validate_device (me_control S) i) (\<lambda>_. persist (insert_device ?d) saved m)) = Some m'"
    by (auto simp: observed_config_def split: if_splits)
  show ?thesis by (rule persist_step_inv [OF inv run]) (rule insert_device_ok [OF _ observed_config_ok [OF manager_invD(1) [OF inv]] fresh])
next
  case (UpdateDevice ident i saved)
  with step have run: "committed_to (and_then (validate_device (me_control S) i) (\<lambda>_. persist (change_device ident i) saved m)) = Some m'" by simp
  show ?thesis by (rule persist_step_inv [OF inv run]) (rule change_device_ok [OF _ observed_config_ok [OF manager_invD(1) [OF inv]]])
next
  case (RemoveDevice ident saved)
  with step have "persist (drop_device ident) saved m = Inr m'" by (auto simp: committed_to_def split: sum.splits)
  then show ?thesis by (rule persist_inv [OF inv]) (rule drop_device_ok [OF _ observed_config_ok [OF manager_invD(1) [OF inv]]])
next
  case (UpdateSettings s saved)
  let ?f = "\<lambda>c. Inr (c\<lparr>cg_settings := s\<rparr>)"
  from UpdateSettings step have run: "committed_to (and_then (validate_settings s) (\<lambda>_. persist ?f saved m)) = Some m'" by simp
  have ok: "saved_ok c \<and> folders_within (observed_config m) None c" if "?f (observed_config m) = Inr c" for c
    using that observed_config_ok [OF manager_invD(1) [OF inv]] by (auto simp: saved_ok_def devices_ok_def within_same)
  show ?thesis by (rule persist_step_inv [OF inv run ok])
next
  case (FolderOpened ident started)
  with step folder_opened_inv [OF inv] show ?thesis by auto
next
  case (SaveBinds saved)
  with step have "persist (save_binds m) saved m = Inr m'" by (auto simp: committed_to_def split: sum.splits)
  then show ?thesis by (rule persist_inv [OF inv]) (rule save_binds_ok [OF _ observed_config_ok [OF manager_invD(1) [OF inv]]])
next
  case (SaveActivities saved e)
  have same: "manager_inv (add_activity S f k d p m)" for f k d p by (rule manager_inv_same [OF inv]) simp_all
  have "saved_ok c \<and> folders_within (observed_config m) None c" if "Inr (observed_config m) = (Inr c :: control_error + config)" for c
    using that observed_config_ok [OF manager_invD(1) [OF inv]] by (simp add: within_same)
  then have "manager_inv m1" if "persist Inr saved m = Inr m1" for m1 by (rule persist_inv [OF inv that])
  with SaveActivities step same show ?thesis by (auto split: sum.splits)
next
  case (Reserve t)
  with inv step reserve_inv show ?thesis by (auto simp: on_task_def split: bind_splits)
next
  case (WorkerStopped t stopped)
  with inv step worker_stopped_inv show ?thesis by (auto simp: on_task_def split: bind_splits)
next
  case (WorkerStarted t started)
  with inv step worker_started_inv show ?thesis by (auto simp: on_task_def split: bind_splits)
next
  case (Saved t saved)
  with inv step configuration_saved_inv show ?thesis by (auto simp: on_task_def split: bind_splits)
next
  case (WorkerReports ident p)
  with step worker_reports_inv [OF inv] show ?thesis by auto
next
  case (WorkerAnswered t answered saved)
  with inv step worker_answered_inv show ?thesis by (auto simp: on_task_def split: bind_splits)
qed

interpretation manager: op_machine "manager_step S" "\<lambda>_. True" manager_inv
  for S by unfold_locales (rule manager_step_inv)

lemma opened_manager_inv: "saved_ok c \<Longrightarrow> manager_inv (opened_manager c)"
  by (auto simp: manager_inv_def opened_manager_def opened_view_def fmlookup_of_list dest!: map_of_SomeD)

section \<open>An example\<close>

definition example_input :: "string \<Rightarrow> folder_input" where
  "example_input root = \<lparr>in_name = root, in_root = root, in_role = ''receive'', in_state_path = None, in_identity_path = None, in_device_id = None,
     in_peer_endpoint_id = None, in_direct_addresses = [], in_allowed_peers = [], in_bind = None, in_enabled = None, in_interval_seconds = None,
     in_max_connections = None, in_min_free_space_mib = None\<rparr>"

definition example_config :: config where
  "example_config = \<lparr>cg_version = 1, cg_settings = \<lparr>se_node_name = ''node'', se_poll_interval_seconds = 30, se_history_limit = 100\<rparr>,
     cg_folders = [new_view (example_input ''/a'') ''1'' ''e1'', new_view (example_input ''/b'') ''2'' ''e2''],
     cg_devices = [], cg_activities = [], cg_history = []\<rparr>"

definition example_env :: manager_env where
  "example_env = \<lparr>me_control = \<lparr>ce_cwd = [], ce_endpoint_parses = (\<lambda>_. True), ce_address_parses = (\<lambda>_. True)\<rparr>,
     me_dir = [''data''], me_stamp = (\<lambda>_. (''stamp'', 0))\<rparr>"

definition example_disk :: fs_node where
  "example_disk = DirNode \<lparr>nm_identity = None, nm_modified_ns = None, nm_changed_ns = None, nm_readonly = False, nm_nlink = 1\<rparr> fmempty"

lemma example_config_ok: "saved_ok example_config"
  by (auto simp: saved_ok_def separate_def devices_ok_def example_config_def claims_conflict_def new_view_def example_input_def
    paths_conflict_def input_paths_def path_parts_def paths_overlap_def)

end
