(* ===== verification/Folder_Worker.thy ===== *)
theory Folder_Worker
  imports Control_Manager
begin

text \<open>
  The worker of a managed folder (\<^verbatim>\<open>crates/deltaweave-control/src/worker.rs\<close>): the loop that waits for commands and
  ticks, runs a cycle of synchronisation when one is due, and backs off after failures. Times are milliseconds. What the
  engine, the receiver and the watcher answer is part of the event; a cycle itself is \<open>Sync_Engine\<close>.
\<close>

section \<open>State\<close>

record folder_loop =
  lp_id :: string
  lp_receive :: bool
  lp_interval :: nat
  lp_paused :: bool
  lp_next :: nat
  lp_failures :: u32
  lp_stopped :: bool

text \<open>The report of a successful cycle with the files and the bytes of the folder, or the text of the error.\<close>

type_synonym cycle_outcome = "string + sync_report \<times> u64 \<times> u64"

text \<open>The texts of the activities of a cycle and of its conflicts.\<close>

record worker_env =
  we_manager :: manager_env
  we_summary :: "sync_report \<Rightarrow> string"
  we_conflict :: "conflict_record \<Rightarrow> string"

definition millis :: nat where
  "millis = 1000"

definition started_loop :: "folder_view \<Rightarrow> nat \<Rightarrow> folder_loop" where
  "started_loop v time = (let interval = millis * unat (default 30 (in_interval_seconds (fv_input v))) in
     \<lparr>lp_id = fv_id v, lp_receive = (in_role (fv_input v) = ''receive''), lp_interval = interval,
      lp_paused = (in_enabled (fv_input v) = Some False), lp_next = time + interval, lp_failures = 0, lp_stopped = False\<rparr>)"

section \<open>A cycle\<close>

definition last_moved :: "u64 \<Rightarrow> u64 \<Rightarrow> manager \<Rightarrow> manager" where
  "last_moved pushed pulled m = (if mg_activities m = [] then m
     else m\<lparr>mg_activities := butlast (mg_activities m) @ [(last (mg_activities m))\<lparr>ac_pushed_bytes := pushed, ac_pulled_bytes := pulled\<rparr>]\<rparr>)"

definition record_conflict :: "worker_env \<Rightarrow> string \<Rightarrow> conflict_record \<Rightarrow> manager \<Rightarrow> manager" where
  "record_conflict W ident c = add_activity (we_manager W) (Some ident)
     (if cr_conflict_path c \<noteq> None then ''conflict_preserved'' else ''conflict_decision'') (we_conflict W c) (cr_conflict_path c)"

definition record_conflicts :: "worker_env \<Rightarrow> string \<Rightarrow> sync_report \<Rightarrow> manager \<Rightarrow> manager" where
  "record_conflicts W ident r m = fold (record_conflict W ident) (sy_conflicts r) m"

definition device_seen :: "string \<Rightarrow> u64 \<Rightarrow> manager \<Rightarrow> manager" where
  "device_seen peer at m = m\<lparr>mg_config := (mg_config m)\<lparr>cg_devices :=
     map (\<lambda>d. if di_endpoint_id (dv_input d) = peer then d\<lparr>dv_last_seen_at := Some at\<rparr> else d) (cg_devices (mg_config m))\<rparr>\<rparr>"

definition cycle_done :: "sync_report \<Rightarrow> u64 \<Rightarrow> u64 \<Rightarrow> u64 \<Rightarrow> folder_view \<Rightarrow> folder_view" where
  "cycle_done r files bytes at v = v\<lparr>fv_status := ''idle'', fv_phase := None, fv_current_path := None, fv_last_sync_at := Some at,
     fv_last_error := None, fv_retry_at := None, fv_files_count := files, fv_total_bytes := bytes, fv_last_report := Some r\<rparr>"

text \<open>\<open>cycle\<close>: the outcome is not asked for when the folder receives.\<close>

definition cycle :: "worker_env \<Rightarrow> folder_loop \<Rightarrow> cycle_outcome \<Rightarrow> u64 \<Rightarrow> manager \<Rightarrow> (string + unit) \<times> manager" where
  "cycle W l outcome at m =
     (if lp_receive l then (Inl ''receive folders accept remote sync requests; run sync on the sending connection'', m)
      else let m1 = set_status (lp_id l) ''syncing'' m in
        (case outcome of
           Inl e \<Rightarrow> (Inl e, m1)
         | Inr (r, files, bytes) \<Rightarrow>
             let m2 = change_view (lp_id l) (cycle_done r files bytes at) m1;
                 m3 = m2\<lparr>mg_history := mg_history m2 @ [\<lparr>hp_timestamp = at, hp_folder_id = lp_id l,
                            hp_pushed_bytes = sy_pushed_bytes r, hp_pulled_bytes = sy_pulled_bytes r\<rparr>]\<rparr>;
                 m4 = last_moved (sy_pushed_bytes r) (sy_pulled_bytes r)
                        (add_activity (we_manager W) (Some (lp_id l)) ''complete'' (we_summary W r) None m3);
                 m5 = record_conflicts W (lp_id l) r m4;
                 m6 = (case Option.bind (fmlookup (mg_folders m5) (lp_id l)) (\<lambda>v. in_peer_endpoint_id (fv_input v)) of
                         None \<Rightarrow> m5 | Some peer \<Rightarrow> device_seen peer at m5);
                 m7 = trim_history m6
             in (Inr (), m7\<lparr>mg_revision := mg_revision m7 + 1\<rparr>)))"

section \<open>Transfers\<close>

text \<open>What the observer of the transfers of a folder does with an event.\<close>

record transfer_event =
  te_phase :: string
  te_path :: "string option"
  te_peer :: "string option"
  te_direction :: "string option"
  te_bytes :: u64

definition moved :: "transfer_event \<Rightarrow> activity \<Rightarrow> activity" where
  "moved ev a = (if te_direction ev = Some ''push'' \<or> te_direction ev = Some ''send'' then a\<lparr>ac_pushed_bytes := te_bytes ev\<rparr>
     else if te_direction ev = Some ''pull'' \<or> te_direction ev = Some ''receive'' then a\<lparr>ac_pulled_bytes := te_bytes ev\<rparr> else a)"

definition observe_transfer :: "worker_env \<Rightarrow> string \<Rightarrow> u64 \<Rightarrow> transfer_event \<Rightarrow> manager \<Rightarrow> manager" where
  "observe_transfer W ident at ev m =
     (let m1 = change_view ident (\<lambda>v. v\<lparr>fv_phase := Some (te_phase ev), fv_current_path := te_path ev\<rparr>) m;
          m2 = (case te_peer ev of
              None \<Rightarrow> m1
            | Some peer \<Rightarrow> if te_phase ev \<in> {''peer_seen'', ''file_received'', ''file_sent'', ''complete''} then device_seen peer at m1 else m1);
          m3 = (if te_phase ev \<in> {''file_received'', ''file_sent''} then
              (let a = add_activity (we_manager W) (Some ident) (te_phase ev) (default [] (te_path ev)) (te_path ev) m2
               in if mg_activities a = [] then a
                  else a\<lparr>mg_activities := butlast (mg_activities a) @ [moved ev (last (mg_activities a))]\<rparr>)
            else m2)
      in m3\<lparr>mg_revision := mg_revision m3 + 1\<rparr>)"

section \<open>The loop\<close>

text \<open>
  The receiver answers a pause or a resumption with an error or not. A tick learns whether the watcher saw a change, and
  the inventory when no cycle is due. \<open>began\<close> is the time at which the event was taken, \<open>ended\<close> the time at which it was handled.
\<close>

datatype worker_event =
    WorkerCommand folder_command "string + unit" cycle_outcome u64 nat
  | WorkerStop
  | WorkerGone
  | WorkerTick bool cycle_outcome "(u64 \<times> u64) option" u64 nat nat

definition retry_delay :: "u32 \<Rightarrow> nat" where
  "retry_delay failures = 2 ^ min (unat failures) 6"

definition saturating_inc :: "u32 \<Rightarrow> u32" where
  "saturating_inc n = (if n = - 1 then n else n + 1)"

definition cycle_failed :: "bool \<Rightarrow> string \<Rightarrow> nat \<Rightarrow> u64 \<Rightarrow> folder_view \<Rightarrow> folder_view" where
  "cycle_failed paused e delay at v = v\<lparr>fv_status := (if paused then ''paused'' else ''error''), fv_phase := None, fv_current_path := None,
     fv_last_error := Some e, fv_retry_at := (if paused then None else Some (at + of_nat delay * 1000))\<rparr>"

text \<open>What the loop does with the result of a command or of a cycle.\<close>

definition after_result :: "worker_env \<Rightarrow> string + unit \<Rightarrow> bool \<Rightarrow> u64 \<Rightarrow> nat \<Rightarrow> folder_loop \<Rightarrow> manager \<Rightarrow> folder_loop \<times> manager" where
  "after_result W result resume_sync at ended l m = (case result of
     Inr _ \<Rightarrow> (l\<lparr>lp_failures := 0, lp_next := (if resume_sync then ended else ended + lp_interval l)\<rparr>, m)
   | Inl e \<Rightarrow>
       let failures = saturating_inc (lp_failures l); delay = retry_delay failures in
       (l\<lparr>lp_failures := failures, lp_next := ended + millis * delay\<rparr>,
        add_activity (we_manager W) (Some (lp_id l)) ''error'' e None (change_view (lp_id l) (cycle_failed (lp_paused l) e delay at) m)))"

definition tick_runs :: "folder_loop \<Rightarrow> bool \<Rightarrow> nat \<Rightarrow> bool" where
  "tick_runs l changed time \<longleftrightarrow> \<not> lp_paused l \<and> \<not> lp_receive l \<and> (lp_next l \<le> time \<or> changed \<and> lp_failures l = 0)"

definition inventoried :: "string \<Rightarrow> u64 \<times> u64 \<Rightarrow> manager \<Rightarrow> manager" where
  "inventoried ident found m = (case fmlookup (mg_folders m) ident of None \<Rightarrow> m
     | Some v \<Rightarrow> if fv_files_count v \<noteq> fst found \<or> fv_total_bytes v \<noteq> snd found
         then (put_view (v\<lparr>fv_files_count := fst found, fv_total_bytes := snd found\<rparr>) m)\<lparr>mg_revision := mg_revision m + 1\<rparr> else m)"

text \<open>Whether a cycle ran, the state of the loop and the shared state.\<close>

fun worker_step :: "worker_env \<Rightarrow> worker_event \<Rightarrow> folder_loop \<Rightarrow> manager \<Rightarrow> bool \<times> folder_loop \<times> manager" where
  "worker_step W WorkerStop l m =
     (False, l\<lparr>lp_stopped := True\<rparr>, set_status (lp_id l) ''stopped'' (if lp_receive l then set_status (lp_id l) ''pausing'' m else m))"
| "worker_step W WorkerGone l m = (False, l\<lparr>lp_stopped := True\<rparr>, set_status (lp_id l) ''stopped'' m)"
| "worker_step W (WorkerCommand Sync answer outcome at ended) l m =
     (if lp_paused l then (False, after_result W (Inl ''folder is paused; resume before syncing'') False at ended l m)
      else case cycle W l outcome at m of (result, m') \<Rightarrow> (\<not> lp_receive l, after_result W result False at ended l m'))"
| "worker_step W (WorkerCommand Pause answer outcome at ended) l m =
     (let m1 = set_status (lp_id l) ''pausing'' m; result = (if lp_receive l then answer else Inr ()) in
      (False, case result of
         Inr _ \<Rightarrow> after_result W result False at ended (l\<lparr>lp_paused := True\<rparr>) (set_status (lp_id l) ''paused'' m1)
       | Inl e \<Rightarrow> after_result W result False at ended l m1))"
| "worker_step W (WorkerCommand Resume answer outcome at ended) l m =
     (let result = (if lp_receive l then answer else Inr ()) in
      (False, case result of
         Inr _ \<Rightarrow> after_result W result (\<not> lp_receive l) at ended (l\<lparr>lp_paused := False\<rparr>)
                    (set_status (lp_id l) (if lp_receive l then ''listening'' else ''idle'') m)
       | Inl e \<Rightarrow> after_result W result False at ended l m))"
| "worker_step W (WorkerTick changed outcome found at began ended) l m =
     (if tick_runs l changed began
      then case cycle W l outcome at m of (result, m') \<Rightarrow> (True, after_result W result False at ended l m')
      else (False, l, case found of None \<Rightarrow> m | Some i \<Rightarrow> inventoried (lp_id l) i m))"

text \<open>A stopped worker takes no events. The cycles of a run are counted.\<close>

fun run_worker :: "worker_env \<Rightarrow> worker_event list \<Rightarrow> nat \<times> folder_loop \<times> manager \<Rightarrow> nat \<times> folder_loop \<times> manager" where
  "run_worker W [] s = s"
| "run_worker W (ev # evs) (cycles, l, m) =
     (if lp_stopped l then (cycles, l, m)
      else case worker_step W ev l m of (cycled, l', m') \<Rightarrow> run_worker W evs (cycles + (if cycled then 1 else 0), l', m'))"

section \<open>The clock of the loop\<close>

text \<open>The clock does not run backwards: \<open>T\<close> is the time before the first event.\<close>

fun clocked :: "nat \<Rightarrow> worker_event list \<Rightarrow> bool" where
  "clocked T [] = True"
| "clocked T (WorkerCommand c answer outcome at ended # evs) \<longleftrightarrow> T \<le> ended \<and> clocked ended evs"
| "clocked T (WorkerTick changed outcome found at began ended # evs) \<longleftrightarrow> T \<le> began \<and> began \<le> ended \<and> clocked ended evs"
| "clocked T (ev # evs) = clocked T evs"

fun last_time :: "nat \<Rightarrow> worker_event list \<Rightarrow> nat" where
  "last_time T [] = T"
| "last_time T (WorkerCommand c answer outcome at ended # evs) = last_time ended evs"
| "last_time T (WorkerTick changed outcome found at began ended # evs) = last_time ended evs"
| "last_time T (ev # evs) = last_time T evs"

lemma retry_delay_le: "retry_delay n \<le> 64"
  using power_increasing [of "min (unat n) 6" 6 "2::nat"] by (simp add: retry_delay_def)

definition loop_inv :: "nat \<Rightarrow> nat \<Rightarrow> folder_loop \<Rightarrow> bool" where
  "loop_inv interval T l \<longleftrightarrow> lp_interval l = interval \<and> lp_next l \<le> T + max interval (millis * 64)"

lemma loop_inv_mono: "loop_inv i T l \<Longrightarrow> T \<le> T' \<Longrightarrow> loop_inv i T' l"
  by (simp add: loop_inv_def)

lemma after_result_loop:
  "loop_inv i T (fst (after_result W result r at T l m)) \<longleftrightarrow> lp_interval l = i"
  "lp_stopped (fst (after_result W result r at ended l m)) = lp_stopped l"
  "lp_paused (fst (after_result W result r at ended l m)) = lp_paused l" "lp_receive (fst (after_result W result r at ended l m)) = lp_receive l"
  using retry_delay_le by (auto simp: after_result_def loop_inv_def Let_def le_max_iff_disj split: sum.split)

text \<open>Every event but the last ends in \<open>after_result\<close>, or leaves the loop as it is.\<close>

lemma command_result:
  assumes "worker_step W (WorkerCommand c answer outcome at ended) l m = (cycled, l', m')"
  obtains result r k n where "(l', m') = after_result W result r at ended k n"
    "k = l \<or> c = Pause \<and> k = l\<lparr>lp_paused := True\<rparr> \<or> c = Resume \<and> k = l\<lparr>lp_paused := False\<rparr>"
    "cycled \<Longrightarrow> \<not> lp_paused l \<and> \<not> lp_receive l"
proof (cases c)
  case Sync
  obtain result n where cycle: "cycle W l outcome at m = (result, n)" by (cases "cycle W l outcome at m") auto
  show ?thesis
  proof (cases "lp_paused l")
    case True
    with assms Sync show ?thesis by (intro that [of "Inl ''folder is paused; resume before syncing''" False l m]) auto
  next
    case False
    with assms Sync cycle show ?thesis by (intro that [of result False l n]) auto
  qed
next
  case Pause
  let ?result = "if lp_receive l then answer else Inr ()"
  show ?thesis
  proof (cases ?result)
    case (Inl e)
    with assms Pause show ?thesis by (intro that [of ?result False l "set_status (lp_id l) ''pausing'' m"]) (auto simp: Let_def split: if_splits)
  next
    case (Inr u)
    with assms Pause show ?thesis
      by (intro that [of ?result False "l\<lparr>lp_paused := True\<rparr>" "set_status (lp_id l) ''paused'' (set_status (lp_id l) ''pausing'' m)"])
        (auto simp: Let_def split: if_splits)
  qed
next
  case Resume
  let ?result = "if lp_receive l then answer else Inr ()"
  show ?thesis
  proof (cases ?result)
    case (Inl e)
    with assms Resume show ?thesis by (intro that [of ?result False l m]) (auto simp: Let_def split: if_splits)
  next
    case (Inr u)
    with assms Resume show ?thesis
      by (intro that [of ?result "\<not> lp_receive l" "l\<lparr>lp_paused := False\<rparr>"
          "set_status (lp_id l) (if lp_receive l then ''listening'' else ''idle'') m"]) (auto simp: Let_def split: if_splits)
  qed
qed

lemma tick_result:
  assumes "worker_step W (WorkerTick changed outcome found at began ended) l m = (cycled, l', m')"
  obtains (waits) "\<not> tick_runs l changed began" "\<not> cycled" "l' = l"
    | (runs) result n where "tick_runs l changed began" "cycled" "(l', m') = after_result W result False at ended l n"
proof (cases "tick_runs l changed began")
  case True
  obtain result n where "cycle W l outcome at m = (result, n)" by (cases "cycle W l outcome at m") auto
  with True assms show ?thesis by (intro runs [of result n]) auto
next
  case False
  with assms have "\<not> cycled" "l' = l" by simp_all
  with False show ?thesis by (rule waits)
qed

lemma worker_step_inv:
  assumes "loop_inv i T l" "clocked T (ev # evs)" "worker_step W ev l m = (cycled, l', m')"
  shows "loop_inv i (last_time T [ev]) l' \<and> clocked (last_time T [ev]) evs"
proof (cases ev)
  case (WorkerCommand c answer outcome at ended)
  with assms(3) obtain result r k n where k: "(l', m') = after_result W result r at ended k n"
    "k = l \<or> c = Pause \<and> k = l\<lparr>lp_paused := True\<rparr> \<or> c = Resume \<and> k = l\<lparr>lp_paused := False\<rparr>"
    using command_result by metis
  then have "lp_interval k = i" using assms(1) by (auto simp: loop_inv_def)
  with k(1) after_result_loop(1) have "loop_inv i ended l'" by (metis fst_conv)
  with assms(2) WorkerCommand show ?thesis by simp
next
  case (WorkerTick changed outcome found at began ended)
  from assms(3) [unfolded WorkerTick] show ?thesis
  proof (cases rule: tick_result)
    case waits
    with assms(1,2) WorkerTick show ?thesis by (auto intro: loop_inv_mono)
  next
    case (runs result n)
    have "lp_interval l = i" using assms(1) by (simp add: loop_inv_def)
    with runs(3) after_result_loop(1) have "loop_inv i ended l'" by (metis fst_conv)
    with assms(2) WorkerTick show ?thesis by simp
  qed
next
  case WorkerStop
  with assms(3) have "l' = l\<lparr>lp_stopped := True\<rparr>" by simp
  with assms(1,2) WorkerStop show ?thesis by (simp add: loop_inv_def)
next
  case WorkerGone
  with assms(3) have "l' = l\<lparr>lp_stopped := True\<rparr>" by simp
  with assms(1,2) WorkerGone show ?thesis by (simp add: loop_inv_def)
qed

lemma last_time_Cons: "last_time T (ev # evs) = last_time (last_time T [ev]) evs"
  by (cases ev) auto

lemma run_worker_inv:
  "loop_inv i T l \<Longrightarrow> clocked T evs \<Longrightarrow> run_worker W evs (n, l, m) = (n', l', m') \<Longrightarrow> \<not> lp_stopped l' \<Longrightarrow> loop_inv i (last_time T evs) l'"
proof (induction evs arbitrary: T n l m)
  case (Cons ev evs)
  from Cons.prems(3,4) have live: "\<not> lp_stopped l" by (auto split: if_splits)
  obtain cycled l1 m1 where step: "worker_step W ev l m = (cycled, l1, m1)" by (cases "worker_step W ev l m") auto
  have next': "loop_inv i (last_time T [ev]) l1" "clocked (last_time T [ev]) evs"
    using worker_step_inv [OF Cons.prems(1,2) step] by blast+
  from Cons.prems(3) live step have "run_worker W evs (n + (if cycled then 1 else 0), l1, m1) = (n', l', m')" by simp
  from Cons.IH [OF next' this Cons.prems(4)] show ?case by (simp only: last_time_Cons [of T ev evs])
qed simp

lemma run_worker_append: "run_worker W (xs @ ys) s = run_worker W ys (run_worker W xs s)"
proof (induction xs arbitrary: s)
  case (Cons x xs)
  have stopped: "lp_stopped l \<Longrightarrow> run_worker W zs (n, l, m) = (n, l, m)" for n l m zs by (cases zs) auto
  obtain n l m where s: "s = (n, l, m)" by (cases s) auto
  from Cons stopped show ?case by (simp add: s split: prod.split)
qed simp

section \<open>Cycles run when they are due\<close>

text \<open>
  C16: the loop is live. Whatever commands and ticks a worker handled, whatever failed, when it has not stopped, is
  not paused and synchronises with a peer, it takes up a cycle again: a tick that comes after the interval of the
  folder and the longest back-off of 64 seconds have passed since the last event runs one.
\<close>

theorem due_cycle_runs:
  assumes "clocked start events" "run_worker W events (0, started_loop v start, m) = (cycles, l, m')"
    "\<not> lp_stopped l" "\<not> lp_paused l" "\<not> lp_receive l"
    "last_time start events + max (lp_interval (started_loop v start)) (millis * 64) \<le> began"
  shows "fst (run_worker W (events @ [WorkerTick changed outcome found at began ended]) (0, started_loop v start, m)) = cycles + 1"
proof -
  have "loop_inv (lp_interval (started_loop v start)) start (started_loop v start)"
    by (auto simp: loop_inv_def started_loop_def Let_def)
  from run_worker_inv [OF this assms(1,2,3)] have "lp_next l \<le> began" using assms(6) by (simp add: loop_inv_def)
  with assms(4,5) have "tick_runs l changed began" by (simp add: tick_runs_def)
  with assms(2,3) show ?thesis by (simp add: run_worker_append split: prod.split)
qed

definition example_worker :: worker_env where
  "example_worker = \<lparr>we_manager = example_env, we_summary = (\<lambda>_. []), we_conflict = (\<lambda>_. [])\<rparr>"

definition example_view :: folder_view where
  "example_view = new_view ((example_input ''/a'')\<lparr>in_role := ''sync''\<rparr>) ''1'' ''e1''"

definition example_sync :: "worker_event list" where
  "example_sync = [WorkerCommand Sync (Inr ()) (Inl ''refused'') 0 10]"

lemma example_sync_run:
  "fst (run_worker example_worker example_sync (0, started_loop example_view 0, opened_manager example_config)) = 1"
  "lp_stopped (fst (snd (run_worker example_worker example_sync (0, started_loop example_view 0, opened_manager example_config)))) = False"
  "lp_paused (fst (snd (run_worker example_worker example_sync (0, started_loop example_view 0, opened_manager example_config)))) = False"
  "lp_receive (fst (snd (run_worker example_worker example_sync (0, started_loop example_view 0, opened_manager example_config)))) = False"
  by (simp_all add: example_sync_def example_view_def new_view_def example_input_def started_loop_def Let_def cycle_def after_result_loop
    split: prod.split)

theorem due_cycle_runs_witness:
  "fst (run_worker example_worker (example_sync @ [WorkerTick False (Inl ''refused'') None 0 64010 64020])
     (0, started_loop example_view 0, opened_manager example_config)) = 2"
proof -
  obtain cycles l m' where run: "run_worker example_worker example_sync (0, started_loop example_view 0, opened_manager example_config) = (cycles, l, m')"
    by (rule prod_cases3)
  have "clocked 0 example_sync" "last_time 0 example_sync + max (lp_interval (started_loop example_view 0)) (millis * 64) \<le> 64010"
    by (simp_all add: example_sync_def started_loop_def example_view_def new_view_def example_input_def default_def millis_def Let_def)
  with due_cycle_runs [OF _ run, where began = 64010 and ended = 64020 and changed = False and outcome = "Inl ''refused''" and found = None and at = 0]
    example_sync_run run show ?thesis by simp
qed

section \<open>A paused folder does not synchronise\<close>

definition resumes :: "worker_event \<Rightarrow> bool" where
  "resumes ev \<longleftrightarrow> (case ev of WorkerCommand c answer outcome at ended \<Rightarrow> c = Resume | _ \<Rightarrow> False)"

lemma idle_step:
  assumes "worker_step W ev l m = (cycled, l', m')" "lp_receive l \<or> lp_paused l \<and> \<not> resumes ev"
  shows "\<not> cycled" "lp_receive l \<Longrightarrow> lp_receive l'" "lp_paused l \<Longrightarrow> \<not> resumes ev \<Longrightarrow> lp_paused l'"
proof -
  have "\<not> cycled \<and> (lp_receive l \<longrightarrow> lp_receive l') \<and> (lp_paused l \<longrightarrow> \<not> resumes ev \<longrightarrow> lp_paused l')"
  proof (cases ev)
    case (WorkerCommand c answer outcome at ended)
    with assms(1) obtain result r k n where k: "(l', m') = after_result W result r at ended k n"
      "k = l \<or> c = Pause \<and> k = l\<lparr>lp_paused := True\<rparr> \<or> c = Resume \<and> k = l\<lparr>lp_paused := False\<rparr>"
      "cycled \<Longrightarrow> \<not> lp_paused l \<and> \<not> lp_receive l"
      using command_result by metis
    from k(1) after_result_loop(3,4) have "lp_paused l' = lp_paused k" "lp_receive l' = lp_receive k" by (metis fst_conv)+
    with k(2,3) assms(2) WorkerCommand show ?thesis by (auto simp: resumes_def)
  next
    case (WorkerTick changed outcome found at began ended)
    have "\<not> tick_runs l changed began" using assms(2) by (auto simp: tick_runs_def)
    with assms(1) [unfolded WorkerTick] show ?thesis by (cases rule: tick_result) auto
  next
    case WorkerStop
    with assms(1) have "\<not> cycled" "l' = l\<lparr>lp_stopped := True\<rparr>" by simp_all
    then show ?thesis by simp
  next
    case WorkerGone
    with assms(1) have "\<not> cycled" "l' = l\<lparr>lp_stopped := True\<rparr>" by simp_all
    then show ?thesis by simp
  qed
  then show "\<not> cycled" "lp_receive l \<Longrightarrow> lp_receive l'" "lp_paused l \<Longrightarrow> \<not> resumes ev \<Longrightarrow> lp_paused l'" by blast+
qed

lemma idle_run:
  "lp_receive l \<or> lp_paused l \<and> list_all (\<lambda>ev. \<not> resumes ev) evs \<Longrightarrow> fst (run_worker W evs (n, l, m)) = n"
proof (induction evs arbitrary: l m)
  case (Cons ev evs)
  obtain cycled l' m' where step: "worker_step W ev l m = (cycled, l', m')" by (cases "worker_step W ev l m") auto
  have "lp_receive l \<or> lp_paused l \<and> \<not> resumes ev" using Cons.prems by auto
  note idle = idle_step [OF step this]
  have "lp_receive l' \<or> lp_paused l' \<and> list_all (\<lambda>ev. \<not> resumes ev) evs" using Cons.prems idle(2,3) by auto
  from Cons.IH [OF this] step idle(1) show ?case by simp
qed simp

text \<open>
  C39: a paused folder does not synchronise, and a receiving folder never does. From a state of the loop that is
  paused, no sequence of commands, ticks, watcher reports and failures without a resumption runs a cycle.
\<close>

theorem paused_folder_is_idle:
  assumes "lp_receive l \<or> lp_paused l \<and> list_all (\<lambda>ev. \<not> resumes ev) events"
  shows "fst (run_worker W events (cycles, l, m)) = cycles"
  using assms by (rule idle_run)

theorem paused_folder_is_idle_witness:
  "fst (run_worker example_worker (example_sync @ [WorkerTick True (Inl ''refused'') None 0 64010 64020])
     (0, (started_loop example_view 0)\<lparr>lp_paused := True\<rparr>, opened_manager example_config)) = 0"
  by (rule paused_folder_is_idle) (simp add: example_sync_def resumes_def)

end
