(* ===== verification/Control_Props.thy ===== *)
theory Control_Props
  imports Folder_Worker
begin

text \<open>
  The manager together with its workers: sections of operations, events of the workers and observed transfers
  interleave over the shared state.
\<close>

section \<open>Workers keep the invariant\<close>

lemma set_status_inv: "manager_inv m \<Longrightarrow> manager_inv (set_status ident status m)"
  by (rule manager_inv_same [OF change_view_inv [where f = "\<lambda>v. v\<lparr>fv_status := status, fv_phase := None, fv_current_path := None\<rparr>" and ident = ident]])
    (auto simp: set_status_def claim_def)

lemma add_activity_inv: "manager_inv m \<Longrightarrow> manager_inv (add_activity S f k d p m)"
  by (rule manager_inv_same [of m]) simp_all

lemma device_seen_inv:
  assumes inv: "manager_inv m"
  shows "manager_inv (device_seen peer at m)"
proof -
  let ?m = "device_seen peer at m"
  have same: "cg_folders (mg_config ?m) = cg_folders (mg_config m)" "mg_folders ?m = mg_folders m" "mg_tasks ?m = mg_tasks m"
    by (simp_all add: device_seen_def)
  have ids: "map dv_id (cg_devices (mg_config ?m)) = map dv_id (cg_devices (mg_config m))"
    "map (\<lambda>d. di_endpoint_id (dv_input d)) (cg_devices (mg_config ?m)) = map (\<lambda>d. di_endpoint_id (dv_input d)) (cg_devices (mg_config m))"
    by (simp_all add: device_seen_def)
  have "dv_id ` set (cg_devices (mg_config ?m)) = dv_id ` set (cg_devices (mg_config m))" using arg_cong [OF ids(1), of set] by simp
  then have "saved_ok (mg_config ?m)"
    using manager_invD(1) [OF inv] unfolding saved_ok_def devices_ok_def same ids by simp
  moreover have "task_ok ?m b \<longleftrightarrow> task_ok m b" for b unfolding task_ok_def same by (rule refl)
  ultimately show ?thesis using inv unfolding manager_inv_def same by blast
qed

lemma peer_seen_inv: "manager_inv m \<Longrightarrow> manager_inv (case peer of None \<Rightarrow> m | Some p \<Rightarrow> device_seen p at m)"
  by (cases peer) (simp_all add: device_seen_inv)

lemma record_conflicts_inv: "manager_inv m \<Longrightarrow> manager_inv (record_conflicts W ident r m)"
proof -
  have "manager_inv m \<Longrightarrow> manager_inv (fold (record_conflict W ident) cs m)" for cs
    by (induction cs arbitrary: m) (simp_all add: record_conflict_def add_activity_inv)
  then show "manager_inv m \<Longrightarrow> manager_inv (record_conflicts W ident r m)" by (simp add: record_conflicts_def)
qed

lemma last_moved_inv: "manager_inv m \<Longrightarrow> manager_inv (last_moved pushed pulled m)"
  by (rule manager_inv_same [of m]) (simp_all add: last_moved_def)

lemma cycle_inv:
  assumes inv: "manager_inv m"
  shows "manager_inv (snd (cycle W l outcome at m))"
proof (cases "lp_receive l \<or> (\<exists>e. outcome = Inl e)")
  case True
  with inv set_status_inv show ?thesis by (auto simp: cycle_def)
next
  case False
  then obtain r files bytes where outcome: "outcome = Inr (r, files, bytes)" "\<not> lp_receive l" by (cases outcome) auto
  let ?m2 = "change_view (lp_id l) (cycle_done r files bytes at) (set_status (lp_id l) ''syncing'' m)"
  let ?m3 = "?m2\<lparr>mg_history := mg_history ?m2 @ [\<lparr>hp_timestamp = at, hp_folder_id = lp_id l,
    hp_pushed_bytes = sy_pushed_bytes r, hp_pulled_bytes = sy_pulled_bytes r\<rparr>]\<rparr>"
  let ?m4 = "last_moved (sy_pushed_bytes r) (sy_pulled_bytes r) (add_activity (we_manager W) (Some (lp_id l)) ''complete'' (we_summary W r) None ?m3)"
  let ?m5 = "record_conflicts W (lp_id l) r ?m4"
  let ?m6 = "case Option.bind (fmlookup (mg_folders ?m5) (lp_id l)) (\<lambda>v. in_peer_endpoint_id (fv_input v)) of
    None \<Rightarrow> ?m5 | Some peer \<Rightarrow> device_seen peer at ?m5"
  have "manager_inv ?m2"
    by (rule change_view_inv [OF set_status_inv [OF inv]]) (simp_all add: cycle_done_def claim_def)
  then have "manager_inv ?m3" by (rule manager_inv_same) simp_all
  then have "manager_inv ?m4" by (intro last_moved_inv add_activity_inv)
  then have "manager_inv ?m5" by (rule record_conflicts_inv)
  then have m6: "manager_inv ?m6" by (rule peer_seen_inv)
  have eq: "snd (cycle W l outcome at m) = (trim_history ?m6)\<lparr>mg_revision := mg_revision (trim_history ?m6) + 1\<rparr>"
    unfolding cycle_def outcome(1) Let_def using outcome(2) by simp
  show ?thesis unfolding eq by (rule manager_inv_same [OF m6]) (simp_all add: trim_history_def Let_def)
qed

lemma after_result_inv: "manager_inv m \<Longrightarrow> manager_inv (snd (after_result W result r at ended l m))"
  by (auto simp: after_result_def Let_def cycle_failed_def claim_def intro!: add_activity_inv change_view_inv split: sum.split)

lemma inventoried_inv: "manager_inv m \<Longrightarrow> manager_inv (inventoried ident found m)"
proof -
  assume inv: "manager_inv m"
  let ?f = "\<lambda>v. v\<lparr>fv_files_count := fst found, fv_total_bytes := snd found\<rparr>"
  have "manager_inv (change_view ident ?f m)" by (rule change_view_inv [OF inv]) (simp_all add: claim_def)
  then have "manager_inv ((change_view ident ?f m)\<lparr>mg_revision := mg_revision m + 1\<rparr>)" by (rule manager_inv_same) simp_all
  with inv show ?thesis by (auto simp: inventoried_def change_view_def split: option.split)
qed

lemma worker_step_keeps:
  assumes inv: "manager_inv m"
  shows "manager_inv (snd (snd (worker_step W ev l m)))"
proof (cases ev)
  case (WorkerCommand c answer outcome at ended)
  note keeps = after_result_inv set_status_inv inv cycle_inv [OF inv, of W l outcome at]
  show ?thesis
  proof (cases c)
    case Sync
    with WorkerCommand keeps show ?thesis by (cases "cycle W l outcome at m") auto
  next
    case Pause
    with WorkerCommand keeps show ?thesis by (auto simp: Let_def split: sum.split)
  next
    case Resume
    with WorkerCommand keeps show ?thesis by (auto simp: Let_def split: sum.split)
  qed
next
  case (WorkerTick changed outcome found at began ended)
  note keeps = after_result_inv inventoried_inv inv cycle_inv [OF inv, of W l outcome at]
  from WorkerTick keeps show ?thesis by (cases "cycle W l outcome at m") (auto split: option.split)
qed (simp_all add: set_status_inv inv)

lemma observe_transfer_inv:
  assumes inv: "manager_inv m"
  shows "manager_inv (observe_transfer W ident at ev m)"
proof -
  let ?m1 = "change_view ident (\<lambda>v. v\<lparr>fv_phase := Some (te_phase ev), fv_current_path := te_path ev\<rparr>) m"
  let ?m2 = "case te_peer ev of None \<Rightarrow> ?m1
    | Some peer \<Rightarrow> if te_phase ev \<in> {''peer_seen'', ''file_received'', ''file_sent'', ''complete''} then device_seen peer at ?m1 else ?m1"
  let ?a = "add_activity (we_manager W) (Some ident) (te_phase ev) (default [] (te_path ev)) (te_path ev) ?m2"
  have "manager_inv ?m1" by (rule change_view_inv [OF inv]) (simp_all add: claim_def)
  then have m2: "manager_inv ?m2" by (auto intro: device_seen_inv split: option.split)
  then have "manager_inv ?a" by (rule add_activity_inv)
  then have "manager_inv (if mg_activities ?a = [] then ?a else ?a\<lparr>mg_activities := butlast (mg_activities ?a) @ [moved ev (last (mg_activities ?a))]\<rparr>)"
    by (rule manager_inv_same) simp_all
  with m2 have "manager_inv (if te_phase ev \<in> {''file_received'', ''file_sent''}
    then (if mg_activities ?a = [] then ?a else ?a\<lparr>mg_activities := butlast (mg_activities ?a) @ [moved ev (last (mg_activities ?a))]\<rparr>) else ?m2)"
    by (simp only: if_split) blast
  then show ?thesis unfolding observe_transfer_def Let_def by (rule manager_inv_same) simp_all
qed

section \<open>The whole\<close>

datatype control_event =
    ManagerEvent manager_event
  | WorkerEvent folder_loop worker_event
  | Transfer string u64 transfer_event

fun control_step :: "worker_env \<Rightarrow> control_event \<Rightarrow> manager \<Rightarrow> manager option" where
  "control_step W (ManagerEvent ev) m = manager_step (we_manager W) ev m"
| "control_step W (WorkerEvent l ev) m = Some (snd (snd (worker_step W ev l m)))"
| "control_step W (Transfer ident at ev) m = Some (observe_transfer W ident at ev m)"

interpretation control: op_machine "control_step W" "\<lambda>_. True" manager_inv for W
proof
  show "manager_inv m'" if inv: "manager_inv m" and step: "control_step W ev m = Some m'" for m ev m'
  proof (cases ev)
    case (ManagerEvent e)
    with step manager.step_inv [OF inv, where op = e and S = "we_manager W"] show ?thesis by simp
  next
    case (WorkerEvent l e)
    with step worker_step_keeps [OF inv] show ?thesis by auto
  next
    case (Transfer ident at e)
    with step observe_transfer_inv [OF inv] show ?thesis by auto
  qed
qed

text \<open>
  C15: the folders of the saved configuration stay separate. The manager opens a configuration whose folders have
  pairwise different ids, roots, state directories and identity files that do not contain one another and different
  endpoint identities, and whose folders name registered devices with pairwise different endpoints. Then, however
  the sections of concurrent additions, updates, removals and commands, the cycles of the workers and the observed
  transfers interleave, whichever workers fail to stop or to start and whichever saves fail, every configuration that
  reaches the disk has these properties again.
\<close>

theorem saved_folders_stay_separate:
  assumes "saved_ok cfg"
  shows "saved_ok (mg_config (run_ops (control_step W) events (opened_manager cfg)))"
proof -
  have "manager_inv (run_ops (control_step W) events (opened_manager cfg))"
    by (rule control.run_inv [OF opened_manager_inv [OF assms]]) (simp add: list_all_iff)
  then show ?thesis by (rule manager_invD(1))
qed

theorem saved_folders_stay_separate_witness:
  "saved_ok (mg_config (run_ops (control_step example_worker)
     (map ManagerEvent [AddFolder 0 ''3'' (example_input ''/c'') example_disk ''e3'', RemoveFolder 1 ''1'', Reserve 0, WorkerStopped 1 True] @
      WorkerEvent (started_loop example_view 0) (WorkerTick True (Inl ''refused'') None 0 10 20) #
      map ManagerEvent [WorkerStarted 0 (Inr ([], None)), Saved 1 True, Saved 0 True, Saved 1 True]) (opened_manager example_config)))"
  by (rule saved_folders_stay_separate [OF example_config_ok])

end
