(* ===== verification/Spec2Isabelle.thy ===== *)
theory Spec2Isabelle
  imports Swarm Merge_Props Share_Recovery Index_Open Index_Watch Journal_Props Admission_Props
    Net_Snapshot_Props Net_Transfer_Props Sync_Safety Sync_Props Share_Drain Control_Props
begin

text \<open>
  \<^bold>\<open>DeltaWeave\<close> synchronises folders between devices. The program is a set of Rust crates; this library models the
  crates that decide what happens to a user's files and proves what they promise.

  \<^bold>\<open>The parts of the program.\<close> A device keeps a folder (the root) and beside it private state: a chunk store, a
  journal of path changes and a local index. \<^verbatim>\<open>deltaweave-core\<close> has the portable data: digests, wire paths, version
  vectors, sync records, chunk manifests. \<^verbatim>\<open>deltaweave-cdc\<close> cuts files into chunks. \<^verbatim>\<open>deltaweave-index\<close> scans the root
  into records with versions and adopts the records of peers. \<^verbatim>\<open>deltaweave-reconcile\<close> arranges the records of a snapshot
  as a Merkle tree and merges two snapshots deterministically. \<^verbatim>\<open>deltaweave-store\<close> keeps chunks and applies changes to
  the root through a journal that survives crashes. \<^verbatim>\<open>deltaweave-net\<close> carries snapshots, chunks and records between
  peers, admits roots on a host and manages shares: keys, memberships, revocation. \<^verbatim>\<open>deltaweave-sync\<close> composes them into
  rounds of synchronisation, and \<^verbatim>\<open>deltaweave-control\<close> runs one worker for each managed folder.

  \<^bold>\<open>Reading order.\<close> Foundations:
  \<^item> \<^verbatim>\<open>DW_Prelude\<close>: machine integers at their width, results as sums, ordered maps as finite maps, text, and
    the collections of rules the proofs share. \<^verbatim>\<open>Op_Machine\<close>: locales of components whose operations commit or refuse.
    \<^verbatim>\<open>Crash_Logic\<close>: programs over durable state that return, fail or are cut off anywhere; locale \<open>progress\<close>.
  \<^item> \<^verbatim>\<open>Core_Hash\<close>, \<^verbatim>\<open>Core_Manifest\<close>, \<^verbatim>\<open>Core_Path\<close>, \<^verbatim>\<open>Core_Version\<close>, \<^verbatim>\<open>Core_Record\<close>: \<^verbatim>\<open>crates/deltaweave-core/src/lib.rs\<close>.
    Structs are records, enums are datatypes, \<open>Hash32\<close> is a type of 32 bytes with the derived order.
  \<^item> \<^verbatim>\<open>Cdc\<close>: \<^verbatim>\<open>crates/deltaweave-cdc/src/lib.rs\<close>. \<^verbatim>\<open>Swarm\<close>: \<^verbatim>\<open>crates/deltaweave-swarm/src/lib.rs\<close>.

  Reconciliation, \<^verbatim>\<open>crates/deltaweave-reconcile/src/lib.rs\<close>:
  \<^item> \<^verbatim>\<open>Merkle\<close> (building, finalising and querying trees), \<^verbatim>\<open>Merkle_Diff\<close> (root digests identify snapshots; the structural
    difference is exact), \<^verbatim>\<open>Merge\<close> (\<open>merge_snapshots\<close>, conflict names, actions), \<^verbatim>\<open>Merge_Laws\<close>, \<^verbatim>\<open>Merge_Props\<close>.

  The local index, \<^verbatim>\<open>crates/deltaweave-index/src/lib.rs\<close>:
  \<^item> \<^verbatim>\<open>Index\<close> (state and helpers), \<^verbatim>\<open>Index_Scan\<close> (traversal, hashing, rename correlation, the write transaction),
    \<^verbatim>\<open>Index_Adopt\<close> (records of peers, direct pushes, authoritative snapshots), \<^verbatim>\<open>Index_Open\<close> (binding of a database),
    \<^verbatim>\<open>Index_Watch\<close> (event coalescing); the laws are in \<^verbatim>\<open>Index_Traverse\<close>, \<^verbatim>\<open>Index_Laws\<close>, \<^verbatim>\<open>Index_Auth\<close>, \<^verbatim>\<open>Index_Inv\<close>, \<^verbatim>\<open>Index_Props\<close>.

  The store, \<^verbatim>\<open>crates/deltaweave-store/src\<close>:
  \<^item> \<^verbatim>\<open>Fs_Tree\<close> (a file system as a tree of files, links and directories, with the calls of \<open>std::fs\<close>),
    \<^verbatim>\<open>Store_World\<close> (file system, tables, and a script that decides which calls fail, are cut off or meet a foreign edit),
    \<^verbatim>\<open>Chunk_Store\<close>, \<^verbatim>\<open>Path_Journal\<close> (\<^verbatim>\<open>preservation.rs\<close>), \<^verbatim>\<open>Store_Ops\<close>; the laws are in \<^verbatim>\<open>Journal_Calls\<close>, \<^verbatim>\<open>Journal_Slots\<close>,
    \<^verbatim>\<open>Journal_Recovery\<close> (the abstract machine of a change and its refinement), \<^verbatim>\<open>Journal_Props\<close>, \<^verbatim>\<open>Chunk_Calls\<close> (what the
    calls of the chunk store keep), \<^verbatim>\<open>Store_Requests\<close> (every request a client can make of a store), \<^verbatim>\<open>Store_Safety\<close>.

  The network, \<^verbatim>\<open>crates/deltaweave-net/src/lib.rs\<close>, and the engines, \<^verbatim>\<open>crates/deltaweave-sync/src\<close>:
  \<^item> \<^verbatim>\<open>Net_Wire\<close> (messages and the limit of a control frame; the peer is any function of what was exchanged so far), \<^verbatim>\<open>Net_Snapshot\<close> (fetching a snapshot by
    queries), \<^verbatim>\<open>Net_Transfer\<close> (disk budgets, the write pipeline, sending and receiving chunks), \<^verbatim>\<open>Net_Client\<close>, \<^verbatim>\<open>Net_Server\<close>;
    \<^verbatim>\<open>Replica\<close> (store and index over one file system), \<^verbatim>\<open>Share_Session\<close> (the authorization a handler carries),
    \<^verbatim>\<open>Sync_Engine\<close> (a bidirectional round), \<^verbatim>\<open>Read_Only\<close> (an authoritative round); the laws are in \<^verbatim>\<open>Net_Snapshot_Laws\<close>,
    \<^verbatim>\<open>Net_Snapshot_Props\<close>, \<^verbatim>\<open>Net_Transfer_Props\<close>, \<^verbatim>\<open>Replica_Calls\<close>, \<^verbatim>\<open>Transfer_Calls\<close>,
    \<^verbatim>\<open>Sync_Safety\<close> (all requests and rounds of a replica), \<^verbatim>\<open>Sync_Props\<close>.

  Shares and roots, \<^verbatim>\<open>crates/deltaweave-net/src/share\<close> and \<^verbatim>\<open>root_admission.rs\<close>:
  \<^item> \<^verbatim>\<open>Share_Ticket\<close> (\<^verbatim>\<open>ticket.rs\<close>), \<^verbatim>\<open>Share_Registry\<close> (\<^verbatim>\<open>registry.rs\<close>), \<^verbatim>\<open>Share_Runtime\<close> (\<^verbatim>\<open>runtime.rs\<close>: who may change what),
    \<^verbatim>\<open>Share_Wire\<close> (\<^verbatim>\<open>wire.rs\<close>), \<^verbatim>\<open>Share_Service\<close> (\<^verbatim>\<open>service.rs\<close>: the handler of a connection, the owner, the member),
    \<^verbatim>\<open>Share_Drain\<close> (revocation and pause against concurrent sessions), \<^verbatim>\<open>Root_Admission\<close>; the laws are in \<^verbatim>\<open>Share_Laws\<close>,
    \<^verbatim>\<open>Share_Props\<close>, \<^verbatim>\<open>Share_Runtime_Props\<close>, \<^verbatim>\<open>Share_Recovery\<close> (changes of revoked members), \<^verbatim>\<open>Admission_Laws\<close>, \<^verbatim>\<open>Admission_Example\<close>, \<^verbatim>\<open>Admission_Props\<close>.

  Control, \<^verbatim>\<open>crates/deltaweave-control/src\<close>:
  \<^item> \<^verbatim>\<open>Control_Config\<close> (\<^verbatim>\<open>config.rs\<close>, \<^verbatim>\<open>model.rs\<close>: the normal form of a folder), \<^verbatim>\<open>Control_Manager\<close> (\<^verbatim>\<open>lib.rs\<close>: concurrent operations
    as interleaved sections), \<^verbatim>\<open>Folder_Worker\<close> (\<^verbatim>\<open>worker.rs\<close>: the loop with its back-off), \<^verbatim>\<open>Control_Props\<close>.

  \<^bold>\<open>Conventions.\<close> A definition has the name of the function, method or type it translates. Error paths are values:
  \<open>Inl\<close> of an error of the component, \<open>Failed\<close> for a program over durable state. Integers keep their width where the
  code can wrap, saturate or check. Loops are structural recursion over their input, recursion with a measure, or
  recursion on an explicit bound. What is not under \<^verbatim>\<open>src/\<close> is an argument: BLAKE3 and hexadecimal text (\<open>externs\<close>),
  ed25519, base64 and postcard (\<open>share_env\<close>, \<open>registry_env\<close> and the codecs), FastCDC cut points, free space, clocks,
  random draws, the scheduler, the peer, and the parsers of endpoint ids and addresses. A hypothesis about one of them
  (a digest is injective, an encoding round-trips) is stated in the theorem that needs it, with a witness that
  instantiates it.

  \<^bold>\<open>What the lemmas show.\<close> A merge loses no live file, converges, and does not depend on which side is local; its result
  is again a snapshot. Root digests identify snapshots and the difference of two trees is exact. A scan deletes only
  what complete listings show to be absent, records what it observed, and keeps the index invariant and its counters
  monotone; adopted records and authoritative snapshots are published exactly. The store destroys no object whatever
  it is asked, wherever it fails or is cut off and whatever else edits the folder: a history (\<open>w_discards\<close>) lists what its
  calls replace or remove, and that is only what lies at the paths of chunks, quarantined chunks and temporary files,
  and nothing at all unless chunks are stored; a journaled change refines a small
  abstract machine, completes when recovery is left alone, and can be rolled back. A replica as a whole inherits that
  safety against any peer. A snapshot fetched from any peer is committed to by the root it advertised, and one fetched
  from an honest peer whose messages fit a control frame is complete within one query for each node. Chunks reach the pipeline verified and within its
  bounds, and disk admission is exact arithmetic. A round of synchronisation that reports success has converged. Roots
  that are leased never overlap, and their bindings are permanent. A peer is authorized only through a key the owner
  issued; revocation is final, no member can forge the history of another, recovery never publishes an interrupted change
  of a revoked member and undoes what it had installed, and when a revocation returns, or a pause that no resume has
  overtaken, no session of the revoked is being served. Saved folders stay separate under every interleaving of the manager, and a
  worker takes up its cycles again after any failures but never while it is paused.

  \<^bold>\<open>Interfaces.\<close> \<open>progress\<close> (\<^verbatim>\<open>Crash_Logic\<close>): a relation between states that a program keeps; interpreted for the objects on
  disk, for undisturbed worlds, for the catalog of admission and for the bounds of the pipeline. \<open>journal_calls\<close> extends it by
  the calls a journal makes, \<open>chunk_calls\<close> by those of the chunk store, and \<open>replica_calls\<close> and \<open>transfer_calls\<close> by those of a
  replica; \<open>journal_requests\<close>, \<open>store_requests\<close>, \<open>replica_requests\<close> and \<open>transfer_requests\<close> lift them to sequences of requests. They are
  interpreted for conservation, for undisturbed worlds and for the history of discards. \<open>host_calls\<close> does the same for admission. \<open>op_machine\<close> and \<open>monotone_machine\<close>: the invariant of a
  component over runs of operations; interpreted for the index, for the draining of a share, for the manager and for the
  manager with its workers. \<open>causal_clock\<close>: the laws of version vectors.

  \<^bold>\<open>Bounds and fuel.\<close> Canonicalisation follows at most 40 symbolic links, as Linux does. The search for a free conflict name
  has as many attempts as the code; its range exceeds the number of occupied names. A snapshot is fetched with at most
  one million queries, the limit of the client. A server session answers as many requests as its argument says: the
  theorems hold for every number. Runs of events are lists, and the theorems quantify over all of them.

  \<^bold>\<open>Findings.\<close> A process that dies between creating and writing an ownership marker blocks every later admission on the
  host (\<^verbatim>\<open>root_admission.rs\<close>, \<open>write_marker\<close>). A conflict name cut from an accepted name can be a reserved device name, which
  fails the merge (\<open>conflict_name_can_be_reserved\<close>). A rename onto a tombstone drops its counters
  (\<open>rename_forgets_tombstone\<close>). The merge is orientation independent only for vectors without explicit zero counters. A
  folder whose update could not stop its worker keeps paths in memory that no reservation of another folder checks once
  a further update has replaced them, and a failed update restores them (\<open>update_folder\<close>); the saved configuration is not
  affected (\<open>saved_folders_stay_separate\<close>).

  \<^bold>\<open>Not modelled.\<close> The command line, the web interface and the control socket: parsing, formatting and HTTP around the
  operations modelled here. QUIC endpoints, timeouts and connection limits of the legacy server, texts of errors inside the engines, and observers of engines: they do not change what is stored. The swarm's
  concurrent fetch, the legacy direct push with its manifest cache, and the handles of managed engines. The databases
  (redb) are finite maps with one committed transaction for each write; opening and repairing their files is I/O.
  Snapshots for display, browsing of directories and the shutdown of the manager. Windows variants of the file system
  calls.
\<close>

end
